(* ===== verification/Algo_Prelude.thy ===== *)
theory Algo_Prelude
  imports Complex_Main "HOL-Library.AList" "HOL-Library.Log_Nat"
begin

section \<open>Shared material of the AlgoEngine development\<close>

text \<open>
  This theory holds what the component theories share: the named collections of
  facts, Python's exceptions as values, Python dictionaries (insertion-ordered
  association lists with distinct keys), and two interfaces stated as locales.

  \<^item> \<open>run_system\<close>: a component whose operations, where their guard holds, keep an
    invariant; the lemmas lift one step to a whole run of operations. The stateful
    components interpret it on their own step functions.
  \<^item> \<open>counting_system\<close>: a run system with a counter that no step decreases.
\<close>

named_theorems py_num_simps \<open>unfolding of decimal and float operations to rationals\<close>
named_theorems inv_intros \<open>invariants of the components and their preservation\<close>
named_theorems frame_simps \<open>what an operation leaves unchanged\<close>

subsection \<open>Exceptions\<close>

text \<open>
  The exceptions the modelled code raises itself or meets in the operations of the
  language. A fallible operation returns \<open>exn + 'a\<close>, with \<open>Inl\<close> for the exception.
\<close>

datatype exn =
    ValueError
  | TypeError
  | KeyError
  | IndexError
  | AttributeError
  | NotImplementedError
  | ZeroDivisionError
  | DecimalInvalidOperation
  | OSError
  | PyTimeoutError
  | ConnectionError
  | ImportError
  | RuntimeError
  | UnicodeEncodeError
  | CircuitBreakerOpenError
  | RetryableError
  | HttpError int
  | OtherError nat

text \<open>Sequencing of fallible operations: the first exception wins.\<close>

fun and_then :: "'e + 'a \<Rightarrow> ('a \<Rightarrow> 'e + 'b) \<Rightarrow> 'e + 'b" where
  "and_then (Inl e) f = Inl e"
| "and_then (Inr x) f = f x"

lemma and_then_Inr_iff:
  "and_then m f = Inr y \<longleftrightarrow> (\<exists>x. m = Inr x \<and> f x = Inr y)"
  by (cases m) auto

lemma Inr_and_then_iff:
  "Inr y = and_then m f \<longleftrightarrow> (\<exists>x. m = Inr x \<and> f x = Inr y)"
  by (cases m) auto

lemma and_then_Inl_iff:
  "and_then m f = Inl e \<longleftrightarrow> m = Inl e \<or> (\<exists>x. m = Inr x \<and> f x = Inl e)"
  by (cases m) auto

subsection \<open>Python dictionaries\<close>

text \<open>
  A dictionary is an association list in insertion order. Writing an existing key
  keeps its place, a new key goes to the end, as in CPython since 3.7;
  \<open>AList.update\<close> and \<open>AList.delete\<close> do exactly this on lists with distinct keys.
\<close>

type_synonym ('k, 'v) dict = "('k \<times> 'v) list"

abbreviation dget :: "('k, 'v) dict \<Rightarrow> 'k \<Rightarrow> 'v option" where
  "dget d k \<equiv> map_of d k"

abbreviation dset :: "('k, 'v) dict \<Rightarrow> 'k \<Rightarrow> 'v \<Rightarrow> ('k, 'v) dict" where
  "dset d k v \<equiv> AList.update k v d"

abbreviation ddel :: "('k, 'v) dict \<Rightarrow> 'k \<Rightarrow> ('k, 'v) dict" where
  "ddel d k \<equiv> AList.delete k d"

abbreviation dkeys :: "('k, 'v) dict \<Rightarrow> 'k list" where
  "dkeys d \<equiv> map fst d"

abbreviation dvals :: "('k, 'v) dict \<Rightarrow> 'v list" where
  "dvals d \<equiv> map snd d"

definition dict_ok :: "('k, 'v) dict \<Rightarrow> bool" where
  "dict_ok d \<longleftrightarrow> distinct (dkeys d)"

lemma dict_ok_Nil [simp]: "dict_ok []"
  by (simp add: dict_ok_def)

lemma dict_ok_dset [simp, intro]: "dict_ok d \<Longrightarrow> dict_ok (dset d k v)"
  by (simp add: dict_ok_def distinct_update)

lemma dict_ok_ddel [simp, intro]: "dict_ok d \<Longrightarrow> dict_ok (ddel d k)"
  by (simp add: dict_ok_def distinct_delete)

lemma dget_dset [simp]: "dget (dset d k v) k' = (if k' = k then Some v else dget d k')"
  by (simp add: update_conv')

lemma dget_ddel [simp]: "dget (ddel d k) k' = (if k' = k then None else dget d k')"
  by (simp add: delete_conv')

lemma dkeys_dset_set: "set (dkeys (dset d k v)) = insert k (set (dkeys d))"
  using dom_update [of k v d] by (simp add: dom_map_of_conv_image_fst)

lemma dget_None_iff: "dget d k = None \<longleftrightarrow> k \<notin> set (dkeys d)"
  by (simp add: map_of_eq_None_iff)

lemma dget_in_dvals: "dget d k = Some v \<Longrightarrow> v \<in> set (dvals d)"
  by (metis map_of_SomeD image_eqI list.set_map snd_conv)

lemma dvals_dset_subset: "set (dvals (dset d k v)) \<subseteq> insert v (set (dvals d))"
  by (induction d) auto

lemma dvals_ddel_subset: "set (dvals (ddel d k)) \<subseteq> set (dvals d)"
  by (induction d) (auto simp: AList.delete_eq)

lemma in_dvals_dget: "dict_ok d \<Longrightarrow> v \<in> set (dvals d) \<Longrightarrow> \<exists>k. dget d k = Some v"
  by (auto simp: dict_ok_def)

lemma length_dset_new: "dget d k = None \<Longrightarrow> length (dset d k v) = Suc (length d)"
  by (induction d) (auto split: if_splits)

lemma length_dset_old: "dget d k = Some w \<Longrightarrow> length (dset d k v) = length d"
  by (induction d) (auto split: if_splits)

lemma length_ddel_le: "length (ddel d k) \<le> length d"
  by (simp add: AList.delete_eq)

lemma dget_map_values: "dget (map (\<lambda>(k, v). (k, f k v)) d) k = map_option (f k) (dget d k)"
  by (induction d) auto

lemma ddel_absent: "k \<notin> set (dkeys d) \<Longrightarrow> ddel d k = d"
  by (induction d) auto

lemma length_ddel_present: "dict_ok d \<Longrightarrow> dget d k = Some w \<Longrightarrow> Suc (length (ddel d k)) = length d"
proof (induction d)
  case Nil
  then show ?case by simp
next
  case (Cons p d)
  show ?case
  proof (cases "fst p = k")
    case True
    with Cons.prems have "ddel d k = d" by (auto simp: dict_ok_def intro!: ddel_absent)
    with True show ?thesis by (cases p) simp
  next
    case False
    with Cons show ?thesis by (cases p) (auto simp: dict_ok_def)
  qed
qed

text \<open>A dictionary comprehension: the last value given for a key wins, in the place of the first.\<close>

definition dict_of :: "('k \<times> 'v) list \<Rightarrow> ('k, 'v) dict" where
  "dict_of xs = foldl (\<lambda>d (k, v). dset d k v) [] xs"

lemma dict_of_snoc: "dict_of (xs @ [(k, v)]) = dset (dict_of xs) k v"
  by (simp add: dict_of_def)

lemma dict_ok_dict_of [simp]: "dict_ok (dict_of xs)"
  by (induction xs rule: rev_induct) (simp add: dict_of_def, auto simp: dict_of_snoc)

lemma dget_dict_of: "dget (dict_of xs) k = map_of (rev xs) k"
  by (induction xs rule: rev_induct) (simp add: dict_of_def, auto simp: dict_of_snoc)

text \<open>Sets that the code iterates over are lists without repetitions.\<close>

definition set_add :: "'a \<Rightarrow> 'a list \<Rightarrow> 'a list" where
  "set_add x xs = (if List.member xs x then xs else xs @ [x])"

subsection \<open>Callbacks\<close>

text \<open>
  A callback acts on the rest of the world, of type \<open>'w\<close>. What it raises is caught and
  logged, so only its effect on the world remains.
\<close>

type_synonym ('a, 'w) callback = "'a \<Rightarrow> 'w \<Rightarrow> 'w \<times> exn option"

fun notify :: "('a, 'w) callback list \<Rightarrow> 'a \<Rightarrow> 'w \<Rightarrow> 'w" where
  "notify [] x w = w"
| "notify (cb # cbs) x w = notify cbs x (fst (cb x w))"

subsection \<open>Lists\<close>

lemma map_filter_cond:
  "(\<And>x. x \<in> set xs \<Longrightarrow> f x = (if P x then Some (g x) else None)) \<Longrightarrow>
   List.map_filter f xs = map g (filter P xs)"
  by (induction xs) (auto simp: map_filter_simps)

text \<open>A bounded buffer (\<open>collections.deque(maxlen=n)\<close>): appending drops from the left.\<close>

definition deque_append :: "nat \<Rightarrow> 'a list \<Rightarrow> 'a \<Rightarrow> 'a list" where
  "deque_append n xs x = (let ys = xs @ [x] in drop (length ys - n) ys)"

lemma deque_append_length: "length (deque_append n xs x) \<le> n"
  by (simp add: deque_append_def Let_def)

lemma deque_append_room: "length xs < n \<Longrightarrow> deque_append n xs x = xs @ [x]"
  by (simp add: deque_append_def Let_def)

lemma deque_append_subset: "set (deque_append n xs x) \<subseteq> insert x (set xs)"
  by (auto simp: deque_append_def Let_def dest: in_set_dropD)

lemma deque_append_last: "0 < n \<Longrightarrow> x \<in> set (deque_append n xs x)"
proof -
  assume "0 < n"
  then have "length (xs @ [x]) - n \<le> length xs" by simp
  then have "drop (length (xs @ [x]) - n) (xs @ [x]) = drop (length (xs @ [x]) - n) xs @ [x]" by simp
  then show ?thesis by (simp add: deque_append_def Let_def)
qed

text \<open>
  \<open>xs[-n:]\<close>: the last \<open>n\<close> elements for a positive \<open>n\<close>, the whole list for zero, and all
  but the first \<open>-n\<close> for a negative one.
\<close>

definition slice_last :: "int \<Rightarrow> 'a list \<Rightarrow> 'a list" where
  "slice_last n xs = (if 0 < n then drop (length xs - nat n) xs else drop (nat (- n)) xs)"

lemma slice_last_length: "0 < n \<Longrightarrow> length (slice_last n xs) = min (nat n) (length xs)"
  by (simp add: slice_last_def min_def)

lemma slice_last_zero: "slice_last 0 xs = xs"
  by (simp add: slice_last_def)

lemma slice_last_suffix: "\<exists>ys. xs = ys @ slice_last n xs"
  unfolding slice_last_def by (metis append_take_drop_id)

text \<open>The last \<open>n\<close> elements for a natural number; a bounded buffer holds them.\<close>

definition last_n :: "nat \<Rightarrow> 'a list \<Rightarrow> 'a list" where
  "last_n n xs = drop (length xs - n) xs"

lemma last_n_snoc: "last_n n (last_n n xs @ [x]) = last_n n (xs @ [x])"
  by (cases "length xs \<le> n") (auto simp: last_n_def Suc_diff_le)

lemma map_deque_append: "map f (deque_append n xs x) = last_n n (map f xs @ [f x])"
  using drop_map [of "length (xs @ [x]) - n" f "xs @ [x]"] by (simp add: deque_append_def last_n_def Let_def del: drop_append)

lemma slice_last_Nil: "0 < n \<Longrightarrow> slice_last n xs = [] \<longleftrightarrow> xs = []"
  using slice_last_length [of n xs] by (cases xs) (auto simp: min_def split: if_splits)

subsection \<open>Runs of operations\<close>

text \<open>A run applies a list of operations from left to right.\<close>

fun run_ops :: "('s \<Rightarrow> 'op \<Rightarrow> 's) \<Rightarrow> 's \<Rightarrow> 'op list \<Rightarrow> 's" where
  "run_ops step s [] = s"
| "run_ops step s (x # xs) = run_ops step (step s x) xs"

lemma run_ops_append: "run_ops step s (xs @ ys) = run_ops step (run_ops step s xs) ys"
  by (induction xs arbitrary: s) auto

text \<open>A guarded run: every operation is applied in a state where its guard holds.\<close>

fun guarded_run :: "('s \<Rightarrow> 'op \<Rightarrow> 's) \<Rightarrow> ('s \<Rightarrow> 'op \<Rightarrow> bool) \<Rightarrow> 's \<Rightarrow> 'op list \<Rightarrow> bool" where
  "guarded_run step guard s [] = True"
| "guarded_run step guard s (x # xs) = (guard s x \<and> guarded_run step guard (step s x) xs)"

lemma guarded_run_True [simp]: "guarded_run step (\<lambda>_ _. True) s xs"
  by (induction xs arbitrary: s) auto

lemma guarded_run_append:
  "guarded_run step guard s (xs @ ys) \<longleftrightarrow> guarded_run step guard s xs \<and> guarded_run step guard (run_ops step s xs) ys"
  by (induction xs arbitrary: s) auto

locale run_system =
  fixes step :: "'s \<Rightarrow> 'op \<Rightarrow> 's"
    and guard :: "'s \<Rightarrow> 'op \<Rightarrow> bool"
    and inv :: "'s \<Rightarrow> bool"
  assumes step_inv: "inv s \<Longrightarrow> guard s x \<Longrightarrow> inv (step s x)"
begin

lemma run_inv: "inv s \<Longrightarrow> guarded_run step guard s xs \<Longrightarrow> inv (run_ops step s xs)"
  by (induction xs arbitrary: s) (auto intro: step_inv)

end

locale counting_system = run_system step guard inv
  for step :: "'s \<Rightarrow> 'op \<Rightarrow> 's" and guard :: "'s \<Rightarrow> 'op \<Rightarrow> bool" and inv :: "'s \<Rightarrow> bool" +
  fixes count :: "'s \<Rightarrow> 'c::preorder"
  assumes step_count: "inv s \<Longrightarrow> guard s x \<Longrightarrow> count s \<le> count (step s x)"
begin

lemma run_count:
  "inv s \<Longrightarrow> guarded_run step guard s xs \<Longrightarrow> count s \<le> count (run_ops step s xs)"
proof (induction xs arbitrary: s)
  case Nil
  then show ?case by simp
next
  case (Cons x xs)
  then have "count s \<le> count (step s x)" by (intro step_count) auto
  also have "\<dots> \<le> count (run_ops step (step s x) xs)"
    using Cons.prems by (intro Cons.IH step_inv) auto
  finally show ?case by simp
qed

end

end
