(* ===== verification/Py_Num.thy ===== *)
theory Py_Num
  imports Algo_Prelude
begin

section \<open>Python's Decimal and float arithmetic\<close>

subsection \<open>Magnitude of a positive rational in base \<open>b\<close>\<close>

definition mag :: "nat \<Rightarrow> rat \<Rightarrow> int" where
  "mag b x =
     (if 1 \<le> x then int (floorlog b (nat \<lfloor>x\<rfloor>)) - 1
      else - int (floorlog b (nat (\<lceil>1 / x\<rceil> - 1))))"

lemma powi_pos: "1 < b \<Longrightarrow> (0::rat) < of_nat b powi k"
  by (simp add: zero_less_power_int)

lemma powi_mono: "1 < b \<Longrightarrow> j \<le> k \<Longrightarrow> (of_nat b :: rat) powi j \<le> of_nat b powi k"
  by (rule power_int_increasing) auto

lemma powi_shift: "1 < b \<Longrightarrow> (of_nat b :: rat) powi (k + int n) = of_nat b powi k * of_nat b ^ n"
  by (simp add: power_int_add)

lemma powi_diff: "1 < b \<Longrightarrow> j \<le> k \<Longrightarrow>
  (of_nat b :: rat) powi k = of_int (int b ^ nat (k - j)) * of_nat b powi j"
  using power_int_add [of "of_nat b :: rat" "k - j" j]
  by (simp add: power_int_def)

lemma mag_bounds_ge1:
  assumes "1 < b" "1 \<le> x"
  shows "of_nat b powi mag b x \<le> x \<and> x < of_nat b powi (mag b x + 1)"
proof -
  define m where "m = nat \<lfloor>x\<rfloor>"
  define l where "l = floorlog b m"
  have m: "0 < m" "rat_of_nat m \<le> x" "x < rat_of_nat (Suc m)"
    using assms(2) by (auto simp: m_def le_floor_iff; linarith)+
  have bnd: "b ^ (l - 1) \<le> m" "m < b ^ l"
    using floorlog_bounds [OF m(1) assms(1)] by (auto simp: l_def)
  have l0: "0 < l" using bnd m(1) by (cases l) auto
  have mg: "mag b x = int l - 1" using assms(2) by (simp add: mag_def m_def l_def)
  have "rat_of_nat (b ^ (l - 1)) \<le> rat_of_nat m" using bnd(1) by (simp only: of_nat_le_iff)
  also have "\<dots> \<le> x" by (rule m(2))
  finally have lo: "of_nat b powi mag b x \<le> x"
    using l0 by (simp add: mg power_int_def nat_diff_distrib)
  have "rat_of_nat (Suc m) \<le> rat_of_nat (b ^ l)" using bnd(2) by (simp only: of_nat_le_iff)
  then have "x < of_nat b powi (mag b x + 1)"
    using m(3) by (simp add: mg power_int_def)
  with lo show ?thesis by simp
qed

lemma mag_bounds_lt1:
  assumes "1 < b" "0 < x" "x < 1"
  shows "of_nat b powi mag b x \<le> x \<and> x < of_nat b powi (mag b x + 1)"
proof -
  define c where "c = \<lceil>1 / x\<rceil>"
  define m where "m = nat (c - 1)"
  define k where "k = floorlog b m"
  have "1 < 1 / x" using assms by simp
  then have c2: "2 \<le> c" unfolding c_def by linarith
  have up: "1 / x \<le> of_int c" and lo: "of_int (c - 1) < 1 / x"
    unfolding c_def by linarith+
  have m: "0 < m" "int m = c - 1" using c2 by (auto simp: m_def)
  have bnd: "b ^ (k - 1) \<le> m" "m < b ^ k"
    using floorlog_bounds [OF m(1) assms(1)] by (auto simp: k_def)
  have k0: "0 < k" using bnd m(1) by (cases k) auto
  have mg: "mag b x = - int k" using assms(3) by (simp add: mag_def m_def c_def k_def)
  have bp: "0 < rat_of_nat b ^ k" "0 < rat_of_nat b ^ (k - 1)" using assms(1) by auto
  have "Suc m \<le> b ^ k" using bnd(2) by simp
  then have "rat_of_nat (Suc m) \<le> rat_of_nat (b ^ k)" by (simp only: of_nat_le_iff)
  moreover have "of_int c = rat_of_nat (Suc m)"
    using m(2) by (metis add.commute diff_add_cancel of_int_of_nat_eq of_nat_Suc)
  ultimately have "1 / x \<le> rat_of_nat b ^ k" using up by simp
  then have 1: "of_nat b powi mag b x \<le> x"
    using assms(2) bp(1) by (simp add: mg power_int_minus field_simps)
  have "rat_of_nat (b ^ (k - 1)) \<le> rat_of_nat m" using bnd(1) by (simp only: of_nat_le_iff)
  also have "rat_of_nat m = of_int (c - 1)" using m(2) by (metis of_int_of_nat_eq)
  also have "\<dots> < 1 / x" by (rule lo)
  finally have "x < 1 / rat_of_nat b ^ (k - 1)"
    using assms(2) bp(2) by (simp add: field_simps)
  moreover have "mag b x + 1 = - int (k - 1)" using k0 by (simp add: mg)
  ultimately have "x < of_nat b powi (mag b x + 1)"
    by (simp add: power_int_minus inverse_eq_divide)
  with 1 show ?thesis by simp
qed

lemma mag_bounds:
  assumes "1 < b" "0 < x"
  shows "of_nat b powi mag b x \<le> x" "x < of_nat b powi (mag b x + 1)"
  using mag_bounds_ge1 [of b x] mag_bounds_lt1 [of b x] assms by (cases "1 \<le> x"; simp)+

lemma mag_less:
  assumes "1 < b" "0 < x" "x < of_nat b powi k"
  shows "mag b x < k"
proof (rule ccontr)
  assume "\<not> mag b x < k"
  then have "(of_nat b :: rat) powi k \<le> of_nat b powi mag b x"
    using assms(1) by (intro powi_mono) auto
  also have "\<dots> \<le> x" using assms by (intro mag_bounds)
  finally show False using assms(3) by simp
qed

lemma mag_mono:
  assumes "1 < b" "0 < x" "x \<le> y"
  shows "mag b x \<le> mag b y"
proof -
  have "x < of_nat b powi (mag b y + 1)"
    using assms mag_bounds(2) [of b y] by linarith
  with assms have "mag b x < mag b y + 1" by (intro mag_less)
  then show ?thesis by simp
qed

subsection \<open>Rounding half to even\<close>

definition rhe :: "rat \<Rightarrow> int" where
  "rhe x =
     (let f = \<lfloor>x\<rfloor>; d = x - of_int f
      in if d < 1 / 2 then f else if 1 / 2 < d then f + 1 else if even f then f else f + 1)"

lemma rhe_bounds: "rat_of_int (rhe x) \<le> x + 1 / 2" "x - 1 / 2 \<le> rat_of_int (rhe x)"
  unfolding rhe_def Let_def by (auto; linarith)+

lemma rhe_cases: "rhe x = \<lfloor>x\<rfloor> \<or> rhe x = \<lfloor>x\<rfloor> + 1"
  by (simp add: rhe_def Let_def)

lemma rhe_of_int [simp]: "rhe (of_int k) = k"
  by (simp add: rhe_def)

lemma rhe_mono: "x \<le> y \<Longrightarrow> rhe x \<le> rhe y"
proof -
  assume xy: "x \<le> y"
  consider "\<lfloor>x\<rfloor> = \<lfloor>y\<rfloor>" | "\<lfloor>x\<rfloor> + 1 \<le> \<lfloor>y\<rfloor>" using floor_mono [OF xy] by linarith
  then show ?thesis
  proof cases
    case 1
    with xy show ?thesis by (auto simp: rhe_def Let_def)
  next
    case 2
    with rhe_cases [of x] rhe_cases [of y] show ?thesis by linarith
  qed
qed

lemma rhe_ge: "of_int k \<le> x \<Longrightarrow> k \<le> rhe x"
  using rhe_mono [of "of_int k" x] by simp

lemma rhe_le: "x \<le> of_int k \<Longrightarrow> rhe x \<le> k"
  using rhe_mono [of x "of_int k"] by simp

lemma rhe_minus: "rhe (- x) = - rhe x"
proof (cases "x = of_int \<lfloor>x\<rfloor>")
  case True
  then show ?thesis by (metis rhe_of_int of_int_minus)
next
  case False
  define f where "f = \<lfloor>x\<rfloor>"
  have "of_int f < x" "x < of_int f + 1"
    using False unfolding f_def by linarith+
  moreover then have fl: "\<lfloor>- x\<rfloor> = - f - 1" by (intro floor_unique) auto
  ultimately show ?thesis
    unfolding rhe_def Let_def fl f_def [symmetric] by auto
qed

subsection \<open>Rounding to \<open>p\<close> significant digits\<close>

definition ulp :: "nat \<Rightarrow> nat \<Rightarrow> rat \<Rightarrow> rat" where
  "ulp b p x = of_nat b powi (mag b \<bar>x\<bar> - (int p - 1))"

definition rnd :: "nat \<Rightarrow> nat \<Rightarrow> rat \<Rightarrow> rat" where
  "rnd b p x = (if x = 0 then 0 else let u = ulp b p x in of_int (rhe (x / u)) * u)"

text \<open>The numbers with at most \<open>p\<close> significant digits in base \<open>b\<close>.\<close>

definition representable :: "nat \<Rightarrow> nat \<Rightarrow> rat \<Rightarrow> bool" where
  "representable b p x \<longleftrightarrow> (\<exists>m k. x = of_int m * of_nat b powi k \<and> \<bar>m\<bar> < int b ^ p)"

lemma rnd_0 [simp]: "rnd b p 0 = 0"
  by (simp add: rnd_def)

lemma ulp_pos: "1 < b \<Longrightarrow> 0 < ulp b p x"
  by (simp add: ulp_def zero_less_power_int)

lemma ulp_minus [simp]: "ulp b p (- x) = ulp b p x"
  by (simp add: ulp_def)

lemma rnd_minus: "rnd b p (- x) = - rnd b p x"
  by (simp add: rnd_def Let_def rhe_minus)

lemma rnd_lower:
  assumes "1 < b" "0 < p" "0 < x"
  shows "of_nat b powi mag b x \<le> rnd b p x"
proof -
  define u where "u = ulp b p x"
  have u: "0 < u" using ulp_pos [OF assms(1)] by (simp add: u_def)
  have eq: "(of_nat b :: rat) powi mag b x = of_int (int b ^ nat (int p - 1)) * u"
    using powi_diff [OF assms(1), of "mag b x - (int p - 1)" "mag b x"] assms(2,3)
    by (simp add: u_def ulp_def)
  with mag_bounds(1) [OF assms(1,3)] have "of_int (int b ^ nat (int p - 1)) \<le> x / u"
    using u by (simp add: field_simps)
  then have "int b ^ nat (int p - 1) \<le> rhe (x / u)" by (rule rhe_ge)
  then have "of_int (int b ^ nat (int p - 1)) * u \<le> of_int (rhe (x / u)) * u"
    using u by (intro mult_right_mono) (simp_all only: of_int_le_iff)
  then show ?thesis using assms(3) by (simp add: eq rnd_def u_def Let_def)
qed

lemma rnd_upper:
  assumes "1 < b" "0 < x"
  shows "rnd b p x \<le> of_nat b powi (mag b x + 1)"
proof -
  define u where "u = ulp b p x"
  have u: "0 < u" using ulp_pos [OF assms(1)] by (simp add: u_def)
  have eq: "(of_nat b :: rat) powi (mag b x + 1) = of_int (int b ^ p) * u"
    using powi_diff [OF assms(1), of "mag b x - (int p - 1)" "mag b x + 1"] assms(2)
    by (simp add: u_def ulp_def)
  with mag_bounds(2) [OF assms] have "x / u \<le> of_int (int b ^ p)"
    using u by (simp add: field_simps)
  then have "rhe (x / u) \<le> int b ^ p" by (rule rhe_le)
  then have "of_int (rhe (x / u)) * u \<le> of_int (int b ^ p) * u"
    using u by (intro mult_right_mono) (simp_all only: of_int_le_iff)
  then show ?thesis using assms(2) by (simp add: eq rnd_def u_def Let_def)
qed

lemma rnd_pos: "1 < b \<Longrightarrow> 0 < p \<Longrightarrow> 0 < x \<Longrightarrow> 0 < rnd b p x"
  using rnd_lower [of b p x] powi_pos [of b "mag b x"] by linarith

lemma rnd_mono_pos:
  assumes "1 < b" "0 < p" "0 < x" "x \<le> y"
  shows "rnd b p x \<le> rnd b p y"
proof (cases "mag b x = mag b y")
  case True
  with assms have u: "ulp b p x = ulp b p y" by (simp add: ulp_def)
  have "0 < ulp b p y" by (rule ulp_pos [OF assms(1)])
  with assms have "rhe (x / ulp b p y) \<le> rhe (y / ulp b p y)"
    by (intro rhe_mono) (simp add: divide_right_mono)
  then show ?thesis
    using assms u \<open>0 < ulp b p y\<close> by (auto simp: rnd_def Let_def intro!: mult_right_mono)
next
  case False
  with mag_mono [OF assms(1,3,4)] have "mag b x + 1 \<le> mag b y" by simp
  with assms(1) have "(of_nat b :: rat) powi (mag b x + 1) \<le> of_nat b powi mag b y"
    by (rule powi_mono)
  with rnd_upper [OF assms(1,3), of p] rnd_lower [of b p y] assms show ?thesis by linarith
qed

lemma rnd_mono:
  assumes "1 < b" "0 < p" "x \<le> y"
  shows "rnd b p x \<le> rnd b p y"
proof -
  consider "0 < x" | "x \<le> 0" "0 \<le> y" | "y < 0" using assms(3) by linarith
  then show ?thesis
  proof cases
    case 1
    with assms show ?thesis by (intro rnd_mono_pos)
  next
    case 2
    have "0 \<le> rnd b p y" using 2(2) assms(1,2) rnd_pos [of b p y] by (cases "y = 0") auto
    moreover have "0 \<le> rnd b p (- x)" using 2(1) assms(1,2) rnd_pos [of b p "- x"] by (cases "x = 0") auto
    ultimately show ?thesis by (simp add: rnd_minus)
  next
    case 3
    with assms have "rnd b p (- y) \<le> rnd b p (- x)" by (intro rnd_mono_pos) auto
    then show ?thesis by (simp add: rnd_minus)
  qed
qed

text \<open>A representable number is its own rounding, and a rounding is representable.\<close>

lemma rnd_exact:
  assumes "1 < b" "0 < p" "representable b p x"
  shows "rnd b p x = x"
proof (cases "x = 0")
  case True
  then show ?thesis by simp
next
  case False
  from assms(3) obtain m k where x: "x = of_int m * of_nat b powi k" and m: "\<bar>m\<bar> < int b ^ p"
    by (auto simp: representable_def)
  have bk: "0 < (of_nat b :: rat) powi k" by (rule powi_pos [OF assms(1)])
  have "rat_of_int \<bar>m\<bar> < rat_of_int (int b ^ p)" using m by (simp only: of_int_less_iff)
  then have "\<bar>x\<bar> < of_nat b powi (k + int p)"
    using bk by (simp add: x abs_mult powi_shift [OF assms(1)] mult.commute)
  with False have "mag b \<bar>x\<bar> < k + int p" by (intro mag_less [OF assms(1)]) auto
  then have le: "mag b \<bar>x\<bar> - (int p - 1) \<le> k" by simp
  define u where "u = ulp b p x"
  have u: "0 < u" using ulp_pos [OF assms(1)] by (simp add: u_def)
  have "(of_nat b :: rat) powi k = of_int (int b ^ nat (k - (mag b \<bar>x\<bar> - (int p - 1)))) * u"
    using powi_diff [OF assms(1) le] by (simp add: u_def ulp_def)
  then have "x = of_int (m * int b ^ nat (k - (mag b \<bar>x\<bar> - (int p - 1)))) * u"
    by (simp add: x mult.assoc)
  then obtain z where z: "x = of_int z * u" ..
  then have "rhe (x / u) = z" using u by simp
  moreover have "rnd b p x = of_int (rhe (x / u)) * u"
    using False by (simp add: rnd_def Let_def u_def)
  ultimately show ?thesis using z by simp
qed

lemma rnd_representable:
  assumes "1 < b" "0 < p"
  shows "representable b p (rnd b p x)"
proof (cases "x = 0")
  case True
  then show ?thesis using assms by (auto simp: representable_def intro!: exI [of _ 0])
next
  case False
  define e where "e = mag b \<bar>x\<bar> - (int p - 1)"
  define u where "u = (of_nat b :: rat) powi e"
  define z where "z = rhe (x / u)"
  have u: "0 < u" "u = ulp b p x" using powi_pos [OF assms(1)] by (auto simp: u_def ulp_def e_def)
  have r: "rnd b p x = of_int z * u" using False by (simp add: rnd_def Let_def z_def u(2))
  have "\<bar>x\<bar> < of_nat b powi (mag b \<bar>x\<bar> + 1)" using False assms(1) by (intro mag_bounds) auto
  moreover have "mag b \<bar>x\<bar> + 1 = e + int p" by (simp add: e_def)
  ultimately have "\<bar>x\<bar> < of_nat b powi (e + int p)" by simp
  then have "\<bar>x / u\<bar> < of_int (int b ^ p)"
    using u(1) by (simp add: powi_shift [OF assms(1)] abs_divide pos_divide_less_eq mult.commute flip: u_def)
  then have "x / u \<le> of_int (int b ^ p)" "of_int (- (int b ^ p)) \<le> x / u"
    using abs_ge_self [of "x / u"] abs_ge_minus_self [of "x / u"] unfolding of_int_minus by linarith+
  then have zb: "\<bar>z\<bar> \<le> int b ^ p" using rhe_le [of "x / u"] rhe_ge [of _ "x / u"] by (auto simp: z_def abs_le_iff minus_le_iff)
  show ?thesis
  proof (cases "\<bar>z\<bar> = int b ^ p")
    case False
    with zb r show ?thesis by (auto simp: representable_def u_def)
  next
    case True
    define s where "s = sgn z"
    have zs: "z = s * int b ^ p" using True by (metis s_def abs_sgn mult.commute mult_sgn_abs)
    have "rnd b p x = of_int (s * int b ^ (p - 1)) * of_nat b powi (e + 1)"
      unfolding r using assms by (cases p) (simp_all add: zs u_def power_int_add)
    moreover have "\<bar>s * int b ^ (p - 1)\<bar> < int b ^ p"
    proof -
      have "int b ^ (p - 1) < int b ^ p" using assms by (intro power_strict_increasing) auto
      then show ?thesis using assms(1) by (simp add: s_def abs_mult sgn_if)
    qed
    ultimately show ?thesis unfolding representable_def by blast
  qed
qed

lemma rnd_idem: "1 < b \<Longrightarrow> 0 < p \<Longrightarrow> rnd b p (rnd b p x) = rnd b p x"
  by (intro rnd_exact rnd_representable)

lemma rnd_error:
  assumes "1 < b" "0 < p"
  shows "\<bar>rnd b p x - x\<bar> \<le> \<bar>x\<bar> * of_nat b powi (1 - int p) / 2"
proof (cases "x = 0")
  case True
  then show ?thesis by simp
next
  case False
  define u where "u = ulp b p x"
  have u: "0 < u" using ulp_pos [OF assms(1)] by (simp add: u_def)
  have "\<bar>of_int (rhe (x / u)) - x / u\<bar> \<le> 1 / 2" using rhe_bounds [of "x / u"] by linarith
  moreover have "rnd b p x - x = (of_int (rhe (x / u)) - x / u) * u"
    using False u by (simp add: rnd_def Let_def u_def algebra_simps)
  ultimately have 1: "\<bar>rnd b p x - x\<bar> \<le> 1 / 2 * u"
    using u by (simp add: abs_mult mult_right_mono)
  have "u = of_nat b powi mag b \<bar>x\<bar> * of_nat b powi (1 - int p)"
    using power_int_add [of "of_nat b :: rat" "mag b \<bar>x\<bar>" "1 - int p"] assms(1)
    by (simp add: u_def ulp_def diff_diff_eq2 add_diff_eq)
  also have "\<dots> \<le> \<bar>x\<bar> * of_nat b powi (1 - int p)"
    using False assms(1) by (intro mult_right_mono mag_bounds) (auto simp: zero_less_power_int less_imp_le)
  finally show ?thesis using 1 by simp
qed

subsection \<open>What the components use of rounding\<close>

text \<open>
  The laws the component proofs rest on. They hold for Python's decimals (28
  significant decimal digits) and for its floats (53 significant binary digits), so
  the locale is interpreted twice.
\<close>

locale rounding =
  fixes r :: "rat \<Rightarrow> rat"
  assumes r_mono: "x \<le> y \<Longrightarrow> r x \<le> r y"
    and r_minus: "r (- x) = - r x"
    and r_idem: "r (r x) = r x"
    and r_pos: "0 < x \<Longrightarrow> 0 < r x"
begin

lemma r_0: "r 0 = 0"
  using r_minus [of 0] by simp

lemma r_nonneg: "0 \<le> x \<Longrightarrow> 0 \<le> r x"
  using r_mono [of 0 x] by (simp add: r_0)

lemma r_neg: "x < 0 \<Longrightarrow> r x < 0"
  using r_pos [of "- x"] by (simp add: r_minus)

lemma r_nonpos: "x \<le> 0 \<Longrightarrow> r x \<le> 0"
  using r_mono [of x 0] by (simp add: r_0)

lemma r_pos_iff: "0 < r x \<longleftrightarrow> 0 < x"
  by (metis not_less r_nonpos r_pos)

lemma r_eq_0_iff: "r x = 0 \<longleftrightarrow> x = 0"
  using r_pos [of x] r_neg [of x] by (cases x "0::rat" rule: linorder_cases) (auto simp: r_0)

lemma r_nonneg_iff: "0 \<le> r x \<longleftrightarrow> 0 \<le> x"
  by (metis not_le r_neg r_nonneg)

lemma r_ge: "r lo = lo \<Longrightarrow> lo \<le> x \<Longrightarrow> lo \<le> r x"
  using r_mono [of lo x] by simp

lemma r_le: "r hi = hi \<Longrightarrow> x \<le> hi \<Longrightarrow> r x \<le> hi"
  using r_mono [of x hi] by simp

text \<open>
  The rounded weighted mean of two prices stays between any bounds whose weighted
  values are exact: monotonicity carries the bounds through every rounding.
\<close>

lemma r_weighted_mean:
  assumes "0 \<le> f" "0 \<le> q" "0 < f + q" "r (f + q) = f + q"
    and "lo \<le> a" "a \<le> hi" "lo \<le> p" "p \<le> hi"
    and "r lo = lo" "r (f * lo) = f * lo" "r (q * lo) = q * lo" "r ((f + q) * lo) = (f + q) * lo"
    and "r hi = hi" "r (f * hi) = f * hi" "r (q * hi) = q * hi" "r ((f + q) * hi) = (f + q) * hi"
  shows "lo \<le> r (r (r (f * a) + r (q * p)) / r (f + q))"
    and "r (r (r (f * a) + r (q * p)) / r (f + q)) \<le> hi"
proof -
  have "f * lo \<le> r (f * a)" "q * lo \<le> r (q * p)"
    using assms by (auto intro!: r_ge mult_left_mono)
  then have "(f + q) * lo \<le> r (r (f * a) + r (q * p))"
    using assms by (intro r_ge) (auto simp: distrib_right)
  then show "lo \<le> r (r (r (f * a) + r (q * p)) / r (f + q))"
    using assms by (intro r_ge) (auto simp: pos_le_divide_eq mult.commute)
  have "r (f * a) \<le> f * hi" "r (q * p) \<le> q * hi"
    using assms by (auto intro!: r_le mult_left_mono)
  then have "r (r (f * a) + r (q * p)) \<le> (f + q) * hi"
    using assms by (intro r_le) (auto simp: distrib_right)
  then show "r (r (r (f * a) + r (q * p)) / r (f + q)) \<le> hi"
    using assms by (intro r_le) (auto simp: pos_divide_le_eq mult.commute)
qed

lemma r_le_cancel: "r x < r y \<Longrightarrow> x < y"
  by (metis not_le r_mono)

end

abbreviation dec_rnd :: "rat \<Rightarrow> rat" where
  "dec_rnd \<equiv> rnd 10 28"

abbreviation flt_rnd :: "rat \<Rightarrow> rat" where
  "flt_rnd \<equiv> rnd 2 53"

interpretation dr: rounding dec_rnd
  by unfold_locales (auto intro: rnd_mono rnd_idem rnd_pos simp: rnd_minus)

interpretation fr: rounding flt_rnd
  by unfold_locales (auto intro: rnd_mono rnd_idem rnd_pos simp: rnd_minus)

subsection \<open>The two number types\<close>

datatype dec = Dec (dval: rat)

datatype flt = Flt (fval: rat)

instantiation dec :: "{zero, one, plus, minus, uminus, times, inverse, abs, linorder}"
begin

definition "0 = Dec 0"
definition "1 = Dec 1"
definition "x + y = Dec (dec_rnd (dval x + dval y))" for x y :: dec
definition "x - y = Dec (dec_rnd (dval x - dval y))" for x y :: dec
definition "- x = Dec (dec_rnd (- dval x))" for x :: dec
definition "x * y = Dec (dec_rnd (dval x * dval y))" for x y :: dec
definition "inverse x = Dec (dec_rnd (inverse (dval x)))" for x :: dec
definition "x div y = Dec (dec_rnd (dval x / dval y))" for x y :: dec
definition "\<bar>x\<bar> = Dec (dec_rnd \<bar>dval x\<bar>)" for x :: dec
definition "x \<le> y \<longleftrightarrow> dval x \<le> dval y" for x y :: dec
definition "x < y \<longleftrightarrow> dval x < dval y" for x y :: dec

instance
  by intro_classes (auto simp: less_eq_dec_def less_dec_def intro: dec.expand)

end

instantiation flt :: "{zero, one, plus, minus, uminus, times, inverse, abs, linorder}"
begin

definition "0 = Flt 0"
definition "1 = Flt 1"
definition "x + y = Flt (flt_rnd (fval x + fval y))" for x y :: flt
definition "x - y = Flt (flt_rnd (fval x - fval y))" for x y :: flt
definition "- x = Flt (- fval x)" for x :: flt
definition "x * y = Flt (flt_rnd (fval x * fval y))" for x y :: flt
definition "inverse x = Flt (flt_rnd (inverse (fval x)))" for x :: flt
definition "x div y = Flt (flt_rnd (fval x / fval y))" for x y :: flt
definition "\<bar>x\<bar> = Flt \<bar>fval x\<bar>" for x :: flt
definition "x \<le> y \<longleftrightarrow> fval x \<le> fval y" for x y :: flt
definition "x < y \<longleftrightarrow> fval x < fval y" for x y :: flt

instance
  by intro_classes (auto simp: less_eq_flt_def less_flt_def intro: flt.expand)

end

text \<open>Integers and literals; conversions between the types.\<close>

definition dec_int :: "int \<Rightarrow> dec" where
  "dec_int k = Dec (of_int k)"

definition flt_int :: "int \<Rightarrow> flt" where
  "flt_int k = Flt (flt_rnd (of_int k))"

definition flt_of_dec :: "dec \<Rightarrow> flt" where
  "flt_of_dec d = Flt (flt_rnd (dval d))"

text \<open>\<open>repr\<close> of a float: the shortest decimal that reads back as the float, the nearest one of that length.\<close>

definition repr_cands :: "rat \<Rightarrow> nat \<Rightarrow> rat list" where
  "repr_cands x n =
     (let u = ulp 10 n x
      in filter (\<lambda>c. flt_rnd c = x)
           [of_int (rhe (x / u)) * u, of_int \<lfloor>x / u\<rfloor> * u, of_int \<lceil>x / u\<rceil> * u])"

fun repr_from :: "rat \<Rightarrow> nat list \<Rightarrow> rat" where
  "repr_from x [] = x"
| "repr_from x (n # ns) = (case repr_cands x n of [] \<Rightarrow> repr_from x ns | c # _ \<Rightarrow> c)"

definition dec_of_flt_str :: "flt \<Rightarrow> dec" where
  "dec_of_flt_str f = Dec (repr_from (fval f) [1..<18])"

definition dec_div :: "dec \<Rightarrow> dec \<Rightarrow> exn + dec" where
  "dec_div x y =
     (if dval y = 0 then Inl (if dval x = 0 then DecimalInvalidOperation else ZeroDivisionError)
      else Inr (x / y))"

definition flt_div :: "flt \<Rightarrow> flt \<Rightarrow> exn + flt" where
  "flt_div x y = (if fval y = 0 then Inl ZeroDivisionError else Inr (x / y))"

fun dec_sum :: "dec list \<Rightarrow> dec" where
  "dec_sum xs = foldl (+) 0 xs"

text \<open>Division of integers gives a float, correctly rounded.\<close>

definition int_ratio :: "int \<Rightarrow> int \<Rightarrow> flt" where
  "int_ratio a b = Flt (flt_rnd (of_int a / of_int b))"

text \<open>\<open>round(x, n)\<close>: the nearest number of \<open>n\<close> decimals, ties to even, read back as a float.\<close>

definition flt_round :: "nat \<Rightarrow> flt \<Rightarrow> flt" where
  "flt_round n f = Flt (flt_rnd (of_int (rhe (fval f * 10 ^ n)) / 10 ^ n))"

text \<open>\<open>int\<close> of a float truncates towards zero.\<close>

definition flt_trunc :: "flt \<Rightarrow> int" where
  "flt_trunc f = (if 0 \<le> fval f then \<lfloor>fval f\<rfloor> else \<lceil>fval f\<rceil>)"

text \<open>\<open>sum\<close> of floats from left to right (before Python 3.12, which compensates the error).\<close>

definition flt_sum :: "flt list \<Rightarrow> flt" where
  "flt_sum xs = foldl (+) 0 xs"

lemmas dec_defs [py_num_simps] =
  zero_dec_def one_dec_def plus_dec_def minus_dec_def uminus_dec_def times_dec_def divide_dec_def
  abs_dec_def less_eq_dec_def less_dec_def dec_int_def

lemmas flt_defs [py_num_simps] =
  zero_flt_def one_flt_def plus_flt_def minus_flt_def uminus_flt_def times_flt_def divide_flt_def
  abs_flt_def less_eq_flt_def less_flt_def flt_int_def flt_of_dec_def

lemma dval_simps [simp]:
  "dval 0 = 0" "dval 1 = 1" "dval (x + y) = dec_rnd (dval x + dval y)"
  "dval (x - y) = dec_rnd (dval x - dval y)" "dval (x * y) = dec_rnd (dval x * dval y)"
  "dval (x / y) = dec_rnd (dval x / dval y)" "dval (dec_int k) = of_int k"
  "dval (- x) = dec_rnd (- dval x)" "dval \<bar>x\<bar> = dec_rnd \<bar>dval x\<bar>"
  by (simp_all add: py_num_simps)

lemma fval_simps [simp]:
  "fval 0 = 0" "fval 1 = 1" "fval (f + g) = flt_rnd (fval f + fval g)"
  "fval (f - g) = flt_rnd (fval f - fval g)" "fval (f * g) = flt_rnd (fval f * fval g)"
  "fval (f / g) = flt_rnd (fval f / fval g)" "fval (flt_int k) = flt_rnd (of_int k)"
  "fval (flt_of_dec x) = flt_rnd (dval x)"
  by (simp_all add: py_num_simps)

lemma dec_le_iff: "x \<le> y \<longleftrightarrow> dval x \<le> dval y" and dec_less_iff: "x < y \<longleftrightarrow> dval x < dval y"
  and dec_eq_iff: "x = y \<longleftrightarrow> dval x = dval y" for x y :: dec
  by (simp_all add: py_num_simps dec.expand) (auto intro: dec.expand)

lemma flt_le_iff: "x \<le> y \<longleftrightarrow> fval x \<le> fval y" and flt_less_iff: "x < y \<longleftrightarrow> fval x < fval y"
  and flt_eq_iff: "x = y \<longleftrightarrow> fval x = fval y" for x y :: flt
  by (simp_all add: py_num_simps flt.expand) (auto intro: flt.expand)

subsection \<open>Quantities on a fixed grid\<close>

text \<open>
  Prices and sizes of a market are multiples of a tick \<open>10 ^ -k\<close>. Sums and
  differences of such numbers are exact as long as they stay below 28 digits.
\<close>

definition on_grid :: "nat \<Rightarrow> rat \<Rightarrow> bool" where
  "on_grid k x \<longleftrightarrow> (\<exists>m. x = of_int m / 10 ^ k)"

lemma on_grid_0 [simp]: "on_grid k 0"
  by (auto simp: on_grid_def intro!: exI [of _ 0])

lemma on_grid_add: "on_grid k x \<Longrightarrow> on_grid k y \<Longrightarrow> on_grid k (x + y)"
  unfolding on_grid_def by (metis add_divide_distrib of_int_add)

lemma on_grid_diff: "on_grid k x \<Longrightarrow> on_grid k y \<Longrightarrow> on_grid k (x - y)"
  unfolding on_grid_def by (metis diff_divide_distrib of_int_diff)

lemma on_grid_minus: "on_grid k x \<Longrightarrow> on_grid k (- x)"
  using on_grid_diff [of k 0 x] by simp

lemma on_grid_of_int: "on_grid k (of_int i)"
  unfolding on_grid_def by (rule exI [of _ "i * 10 ^ k"]) simp

lemma grid_exact:
  assumes "on_grid k x" "\<bar>x\<bar> * 10 ^ k < 10 ^ 28"
  shows "dec_rnd x = x"
proof -
  from assms(1) obtain m where m: "x = of_int m / 10 ^ k" by (auto simp: on_grid_def)
  with assms(2) have "rat_of_int \<bar>m\<bar> < rat_of_int (10 ^ 28)" by (simp add: abs_divide)
  then have "\<bar>m\<bar> < 10 ^ 28" by (simp only: of_int_less_iff)
  moreover have "x = of_int m * of_nat 10 powi (- int k)"
    by (simp add: m power_int_minus divide_inverse)
  ultimately have "representable 10 28 x" unfolding representable_def by (metis of_nat_numeral)
  then show ?thesis by (intro rnd_exact) auto
qed

lemma on_grid_mult: "on_grid j x \<Longrightarrow> on_grid k y \<Longrightarrow> on_grid (j + k) (x * y)"
proof -
  assume "on_grid j x" "on_grid k y"
  then obtain m n where "x = of_int m / 10 ^ j" "y = of_int n / 10 ^ k" by (auto simp: on_grid_def)
  then have "x * y = of_int (m * n) / 10 ^ (j + k)" by (simp add: power_add)
  then show ?thesis unfolding on_grid_def ..
qed

lemma on_grid_finer: "on_grid j x \<Longrightarrow> j \<le> k \<Longrightarrow> on_grid k x"
proof -
  assume "on_grid j x" "j \<le> k"
  then obtain m n where m: "x = of_int m / 10 ^ j" and n: "k = j + n"
    by (auto simp: on_grid_def le_iff_add)
  then have "x = of_int (m * 10 ^ n) / 10 ^ k" by (simp add: power_add)
  then show ?thesis unfolding on_grid_def ..
qed

text \<open>A decimal that is a multiple of \<open>10 ^ -k\<close> and of at most half the exact range.\<close>

definition lot :: "nat \<Rightarrow> dec \<Rightarrow> bool" where
  "lot k d \<longleftrightarrow> on_grid k (dval d) \<and> \<bar>dval d\<bar> * 10 ^ k * 2 < 10 ^ 28"

lemma lot_add_exact: "lot k x \<Longrightarrow> lot k y \<Longrightarrow> dval (x + y) = dval x + dval y"
proof -
  assume l: "lot k x" "lot k y"
  have "\<bar>dval x + dval y\<bar> * 10 ^ k \<le> (\<bar>dval x\<bar> + \<bar>dval y\<bar>) * 10 ^ k"
    by (intro mult_right_mono abs_triangle_ineq) auto
  also have "\<dots> < 10 ^ 28" using l by (simp add: lot_def distrib_right)
  finally have "\<bar>dval x + dval y\<bar> * 10 ^ k < 10 ^ 28" .
  then have "dec_rnd (dval x + dval y) = dval x + dval y"
    using l by (intro grid_exact [of k]) (simp_all add: lot_def on_grid_add)
  then show ?thesis by simp
qed

lemma lot_minus_exact: "lot k x \<Longrightarrow> lot k y \<Longrightarrow> dval (x - y) = dval x - dval y"
proof -
  assume l: "lot k x" "lot k y"
  have "\<bar>dval x - dval y\<bar> * 10 ^ k \<le> (\<bar>dval x\<bar> + \<bar>dval y\<bar>) * 10 ^ k"
    by (intro mult_right_mono abs_triangle_ineq4) auto
  also have "\<dots> < 10 ^ 28" using l by (simp add: lot_def distrib_right)
  finally have "\<bar>dval x - dval y\<bar> * 10 ^ k < 10 ^ 28" .
  then have "dec_rnd (dval x - dval y) = dval x - dval y"
    using l by (intro grid_exact [of k]) (simp_all add: lot_def on_grid_diff)
  then show ?thesis by simp
qed

lemma lot_int: "\<bar>i\<bar> * 10 ^ k * 2 < 10 ^ 28 \<Longrightarrow> lot k (dec_int i)"
proof -
  assume "\<bar>i\<bar> * 10 ^ k * 2 < (10 ^ 28 :: int)"
  then have "rat_of_int (\<bar>i\<bar> * 10 ^ k * 2) < rat_of_int (10 ^ 28)" by (simp only: of_int_less_iff)
  then show ?thesis by (simp add: lot_def on_grid_of_int)
qed

text \<open>The values that are floats: their own rounding.\<close>

definition is_float :: "flt \<Rightarrow> bool" where
  "is_float f \<longleftrightarrow> flt_rnd (fval f) = fval f"

lemma is_float_of_dec [simp]: "is_float (flt_of_dec d)"
  by (simp add: is_float_def fr.r_idem)

lemma is_float_double:
  assumes "is_float a"
  shows "flt_rnd (2 * fval a) = 2 * fval a"
proof (rule rnd_exact)
  have "representable 2 53 (fval a)" using rnd_representable [of 2 53 "fval a"] assms by (simp add: is_float_def)
  then obtain m k where "fval a = of_int m * of_nat 2 powi k" "\<bar>m\<bar> < int 2 ^ 53" by (auto simp: representable_def)
  then show "representable 2 53 (2 * fval a)"
    unfolding representable_def by (intro exI [of _ m] exI [of _ "k + 1"]) (simp add: power_int_add_1)
qed simp_all

lemma dec_of_flt_str_reads_back:
  assumes "flt_rnd (fval f) = fval f"
  shows "flt_of_dec (dec_of_flt_str f) = f"
proof -
  have "flt_rnd (repr_from x ns) = x" if "flt_rnd x = x" for x ns
  proof (induction ns)
    case Nil
    show ?case using that by simp
  next
    case (Cons n ns)
    have "set (repr_cands x n) \<subseteq> {c. flt_rnd c = x}" by (auto simp: repr_cands_def Let_def)
    with Cons show ?case by (auto split: list.splits)
  qed
  with assms show ?thesis by (simp add: dec_of_flt_str_def flt_eq_iff)
qed

end
