(* ===== verification/Py_Str.thy ===== *)
theory Py_Str
  imports Algo_Prelude
begin

section \<open>Python strings: \<open>str(int)\<close>, \<open>int(str)\<close>, \<open>strip\<close>, \<open>split\<close>, \<open>join\<close>\<close>

text \<open>
  The string operations the modelled code uses. A Python character is an HOL
  \<open>char\<close>; codes below 128 are ASCII. The one non-ASCII character the code meets is
  U+FFFD, which \<open>bytes.decode("ascii", errors="replace")\<close> writes for a byte that is
  not ASCII; \<open>replacement_char\<close> stands for it.
\<close>

subsection \<open>Decimal notation\<close>

definition digit_char :: "nat \<Rightarrow> char" where
  "digit_char d = char_of (48 + d)"

definition digit_val :: "char \<Rightarrow> int" where
  "digit_val c = int (of_char c) - 48"

definition is_digit :: "char \<Rightarrow> bool" where
  "is_digit c \<longleftrightarrow> 48 \<le> (of_char c :: nat) \<and> (of_char c :: nat) \<le> 57"

fun nat_str :: "nat \<Rightarrow> string" where
  "nat_str n = (if n < 10 then [digit_char n] else nat_str (n div 10) @ [digit_char (n mod 10)])"

declare nat_str.simps [simp del]

definition int_str :: "int \<Rightarrow> string" where
  "int_str i = (if i < 0 then CHR ''-'' # nat_str (nat (- i)) else nat_str (nat i))"

lemma digit_char_props [simp]:
  "d < 10 \<Longrightarrow> is_digit (digit_char d)" "d < 10 \<Longrightarrow> digit_val (digit_char d) = int d"
  by (simp_all add: is_digit_def digit_char_def digit_val_def)

lemma nat_str_digits: "c \<in> set (nat_str n) \<Longrightarrow> is_digit c"
proof (induction n rule: nat_str.induct)
  case (1 n)
  from "1.prems" show ?case
    by (subst (asm) nat_str.simps) (auto split: if_splits intro: "1.IH")
qed

lemma nat_str_nonempty [simp]: "nat_str n \<noteq> []"
  by (subst nat_str.simps) simp

lemma is_digit_minus [simp]: "\<not> is_digit (CHR ''-'')" and is_digit_plus [simp]: "\<not> is_digit (CHR ''+'')"
  and is_digit_underscore [simp]: "\<not> is_digit (CHR ''_'')" and is_digit_eq [simp]: "\<not> is_digit (CHR ''='')"
  by (simp_all add: is_digit_def)

subsection \<open>Whitespace\<close>

definition is_space :: "char \<Rightarrow> bool" where
  "is_space c \<longleftrightarrow> (of_char c :: nat) \<in> {9, 10, 11, 12, 13, 28, 29, 30, 31, 32}"

definition strip :: "string \<Rightarrow> string" where
  "strip s = rev (dropWhile is_space (rev (dropWhile is_space s)))"

lemma is_space_code [code]:
  "is_space c = List.member [9, 10, 11, 12, 13, 28, 29, 30, 31, 32 :: nat] (of_char c)"
  by (simp add: is_space_def)

lemma digit_not_space [simp]: "is_digit c \<Longrightarrow> \<not> is_space c"
  by (auto simp: is_digit_def is_space_def)

lemma is_space_minus [simp]: "\<not> is_space (CHR ''-'')"
  by (simp add: is_space_def)

lemma strip_id:
  assumes "s \<noteq> []" "\<not> is_space (hd s)" "\<not> is_space (last s)"
  shows "strip s = s"
proof -
  have "dropWhile is_space s = s" using assms(1,2) by (cases s) auto
  moreover have "dropWhile is_space (rev s) = rev s" using assms(1,3) by (cases s rule: rev_cases) auto
  ultimately show ?thesis by (simp add: strip_def)
qed

lemma strip_id_all: "(\<And>c. c \<in> set s \<Longrightarrow> \<not> is_space c) \<Longrightarrow> strip s = s"
proof (cases "s = []")
  case True
  then show ?thesis by (simp add: strip_def)
next
  case False
  assume "\<And>c. c \<in> set s \<Longrightarrow> \<not> is_space c"
  with False show ?thesis by (intro strip_id) auto
qed

subsection \<open>\<open>int(str)\<close>\<close>

text \<open>Digits with single underscores between them, after the sign.\<close>

fun digits_val :: "bool \<Rightarrow> int \<Rightarrow> string \<Rightarrow> int option" where
  "digits_val after acc [] = (if after then Some acc else None)"
| "digits_val after acc (c # cs) =
     (if is_digit c then digits_val True (acc * 10 + digit_val c) cs
      else if c = CHR ''_'' \<and> after then digits_val False acc cs
      else None)"

definition parse_int :: "string \<Rightarrow> int option" where
  "parse_int s =
     (case strip s of
        [] \<Rightarrow> None
      | c # cs \<Rightarrow>
          if c = CHR ''-'' then map_option uminus (digits_val False 0 cs)
          else if c = CHR ''+'' then digits_val False 0 cs
          else digits_val False 0 (c # cs))"

lemma digits_val_all:
  "(\<And>c. c \<in> set s \<Longrightarrow> is_digit c) \<Longrightarrow> after \<or> s \<noteq> [] \<Longrightarrow>
   digits_val after acc s = Some (foldl (\<lambda>a c. a * 10 + digit_val c) acc s)"
  by (induction s arbitrary: after acc) auto

lemma nat_str_val: "foldl (\<lambda>a c. a * 10 + digit_val c) 0 (nat_str n) = int n"
proof (induction n rule: nat_str.induct)
  case (1 n)
  show ?case
  proof (cases "n < 10")
    case True
    then show ?thesis by (subst nat_str.simps) simp
  next
    case False
    then have "foldl (\<lambda>a c. a * 10 + digit_val c) 0 (nat_str n) = int (n div 10) * 10 + int (n mod 10)"
      by (subst nat_str.simps) (simp add: "1.IH")
    also have "\<dots> = int (n div 10 * 10 + n mod 10)"
      by (simp only: of_nat_add of_nat_mult of_nat_numeral)
    also have "\<dots> = int n" by (simp only: div_mult_mod_eq)
    finally show ?thesis .
  qed
qed

lemma nat_str_inj: "nat_str m = nat_str n \<Longrightarrow> m = n"
  by (metis nat_str_val of_nat_eq_iff)

lemma digits_val_nat_str: "digits_val False 0 (nat_str n) = Some (int n)"
  using nat_str_digits by (subst digits_val_all) (auto simp: nat_str_val)

lemma int_str_chars: "c \<in> set (int_str i) \<Longrightarrow> is_digit c \<or> c = CHR ''-''"
  by (auto simp: int_str_def dest: nat_str_digits split: if_splits)

lemma strip_int_str: "strip (int_str i) = int_str i"
proof (rule strip_id_all)
  fix c assume "c \<in> set (int_str i)"
  then show "\<not> is_space c" by (auto dest!: int_str_chars)
qed

lemma nat_str_hd: "\<exists>c cs. nat_str n = c # cs \<and> is_digit c"
  using nat_str_digits [of _ n] nat_str_nonempty [of n] by (cases "nat_str n") auto

theorem parse_int_int_str: "parse_int (int_str i) = Some i"
proof (cases "i < 0")
  case True
  then show ?thesis
    using strip_int_str [of i] by (simp add: parse_int_def int_str_def digits_val_nat_str)
next
  case False
  obtain c cs where n: "nat_str (nat i) = c # cs" and c: "is_digit c" using nat_str_hd by blast
  then have "c \<noteq> CHR ''-''" "c \<noteq> CHR ''+''" by auto
  with False n show ?thesis
    using strip_int_str [of i] digits_val_nat_str [of "nat i"]
    by (simp add: parse_int_def int_str_def)
qed

subsection \<open>Splitting and joining\<close>

text \<open>\<open>s.split(c)\<close> for a one-character separator: pieces may be empty, there is at least one.\<close>

fun split_on :: "char \<Rightarrow> string \<Rightarrow> string list" where
  "split_on sep [] = [[]]"
| "split_on sep (c # cs) =
     (if c = sep then [] # split_on sep cs
      else (case split_on sep cs of [] \<Rightarrow> [[c]] | p # ps \<Rightarrow> (c # p) # ps))"

fun join_with :: "string \<Rightarrow> string list \<Rightarrow> string" where
  "join_with sep [] = []"
| "join_with sep [x] = x"
| "join_with sep (x # y # ys) = x @ sep @ join_with sep (y # ys)"

lemma split_on_nonempty [simp]: "split_on sep s \<noteq> []"
  by (induction s) (auto split: list.splits)

lemma split_on_no_sep: "sep \<notin> set s \<Longrightarrow> split_on sep s = [s]"
  by (induction s) auto

lemma split_on_app: "sep \<notin> set s \<Longrightarrow> split_on sep (s @ sep # t) = s # split_on sep t"
  by (induction s) auto

lemma split_join:
  "xs \<noteq> [] \<Longrightarrow> (\<And>x. x \<in> set xs \<Longrightarrow> sep \<notin> set x) \<Longrightarrow> split_on sep (join_with [sep] xs) = xs"
  by (induction "[sep]" xs rule: join_with.induct) (auto simp: split_on_no_sep split_on_app)

text \<open>\<open>s.split("=", 1)\<close> where \<open>=\<close> occurs: the text before and after the first one.\<close>

fun split_first :: "char \<Rightarrow> string \<Rightarrow> (string \<times> string) option" where
  "split_first sep [] = None"
| "split_first sep (c # cs) =
     (if c = sep then Some ([], cs)
      else map_option (\<lambda>(a, b). (c # a, b)) (split_first sep cs))"

lemma split_first_app: "sep \<notin> set a \<Longrightarrow> split_first sep (a @ sep # b) = Some (a, b)"
  by (induction a) auto

lemma split_first_None: "split_first sep s = None \<longleftrightarrow> sep \<notin> set s"
  by (induction s) auto

definition replace_char :: "char \<Rightarrow> char \<Rightarrow> string \<Rightarrow> string" where
  "replace_char a b s = map (\<lambda>c. if c = a then b else c) s"

definition starts_with :: "string \<Rightarrow> string \<Rightarrow> bool" where
  "starts_with p s \<longleftrightarrow> take (length p) s = p"

definition replacement_char :: char where
  "replacement_char = char_of (255 :: nat)"

definition is_ascii :: "char \<Rightarrow> bool" where
  "is_ascii c \<longleftrightarrow> (of_char c :: nat) < 128"

text \<open>\<open>bytes.decode("ascii", errors="replace")\<close>, a byte being a \<open>char\<close>.\<close>

definition decode_ascii :: "string \<Rightarrow> string" where
  "decode_ascii bs = map (\<lambda>b. if is_ascii b then b else replacement_char) bs"

lemma decode_ascii_id: "(\<And>c. c \<in> set s \<Longrightarrow> is_ascii c) \<Longrightarrow> decode_ascii s = s"
  by (induction s) (auto simp: decode_ascii_def)

section \<open>Letter case\<close>

text \<open>
  \<open>str.upper\<close> and \<open>str.lower\<close> on the letters of ASCII. The code uses them to look a name
  up in a fixed set of ASCII names, where no other character matters.
\<close>

definition upper_char :: "char \<Rightarrow> char" where
  "upper_char c = (let n = of_char c :: nat in if 97 \<le> n \<and> n \<le> 122 then char_of (n - 32) else c)"

definition lower_char :: "char \<Rightarrow> char" where
  "lower_char c = (let n = of_char c :: nat in if 65 \<le> n \<and> n \<le> 90 then char_of (n + 32) else c)"

definition str_upper :: "string \<Rightarrow> string" where
  "str_upper s = map upper_char s"

definition str_lower :: "string \<Rightarrow> string" where
  "str_lower s = map lower_char s"

end
