(* ===== verification/Market_Data.thy ===== *)
theory Market_Data
  imports Py_Num Py_Str
begin

section \<open>Market data models (\<open>src/data/models.py\<close>)\<close>

text \<open>
  Symbols, ticks and bars. A \<open>datetime\<close> is its number of microseconds since a fixed
  origin, so comparison is that of \<open>int\<close> and \<open>total_seconds\<close> divides by a million.
\<close>

type_synonym time = int

definition total_seconds :: "int \<Rightarrow> flt" where
  "total_seconds us = Flt (flt_rnd (of_int us / 1000000))"

record symbol =
  ticker :: string
  security_type :: string
  exchange :: string
  currency :: string
  sector :: string

text \<open>A symbol for the concrete inputs of later sections.\<close>

definition sample_symbol :: symbol where
  "sample_symbol = \<lparr>ticker = ''X'', security_type = ''equity'', exchange = [], currency = ''USD'', sector = []\<rparr>"

text \<open>
  \<open>Symbol.__eq__\<close> and \<open>__hash__\<close> look at three of the five fields. A dictionary keyed
  by symbols is therefore keyed by this triple.
\<close>

type_synonym skey = "string \<times> string \<times> string"

definition symbol_key :: "symbol \<Rightarrow> skey" where
  "symbol_key s = (ticker s, security_type s, exchange s)"

definition symbol_eq :: "symbol \<Rightarrow> symbol \<Rightarrow> bool" where
  "symbol_eq s t \<longleftrightarrow> symbol_key s = symbol_key t"

definition symbol_str :: "symbol \<Rightarrow> string" where
  "symbol_str s = (if exchange s \<noteq> [] then ticker s @ ''.'' @ exchange s else ticker s)"

datatype resolution = RTick | RSecond | RMinute | RHour | RDaily | RWeekly | RMonthly

fun resolution_value :: "resolution \<Rightarrow> string" where
  "resolution_value RTick = ''tick''"
| "resolution_value RSecond = ''second''"
| "resolution_value RMinute = ''minute''"
| "resolution_value RHour = ''hour''"
| "resolution_value RDaily = ''daily''"
| "resolution_value RWeekly = ''weekly''"
| "resolution_value RMonthly = ''monthly''"

record tick =
  t_symbol :: symbol
  t_timestamp :: time
  bid_price :: dec
  ask_price :: dec
  bid_size :: dec
  ask_size :: dec
  last_price :: "dec option"
  last_size :: "dec option"

definition spread :: "tick \<Rightarrow> dec" where
  "spread t = ask_price t - bid_price t"

definition mid_price :: "tick \<Rightarrow> dec" where
  "mid_price t = (bid_price t + ask_price t) / dec_int 2"

record bar =
  b_symbol :: symbol
  b_timestamp :: time
  b_open :: dec
  b_high :: dec
  b_low :: dec
  b_close :: dec
  b_volume :: dec
  b_resolution :: resolution

text \<open>\<open>Bar.__post_init__\<close>: the high and the low are widened to hold open and close.\<close>

definition bar_post_init :: "bar \<Rightarrow> bar" where
  "bar_post_init b =
     (let b1 = (if b_high b < max (b_open b) (b_close b)
                then b\<lparr>b_high := max (b_open b) (b_close b)\<rparr> else b)
      in if min (b_open b1) (b_close b1) < b_low b1
         then b1\<lparr>b_low := min (b_open b1) (b_close b1)\<rparr> else b1)"

subsection \<open>Lemmas\<close>

lemma symbol_eq_refl [simp]: "symbol_eq s s"
  by (simp add: symbol_eq_def)

lemma bar_post_init_encloses:
  "b_low (bar_post_init b) \<le> b_open b" "b_low (bar_post_init b) \<le> b_close b"
  "b_open b \<le> b_high (bar_post_init b)" "b_close b \<le> b_high (bar_post_init b)"
  by (simp_all add: bar_post_init_def Let_def not_less)

lemma bar_post_init_frame [frame_simps]:
  "b_open (bar_post_init b) = b_open b" "b_close (bar_post_init b) = b_close b"
  "b_symbol (bar_post_init b) = b_symbol b" "b_timestamp (bar_post_init b) = b_timestamp b"
  "b_volume (bar_post_init b) = b_volume b"
  by (simp_all add: bar_post_init_def Let_def)

lemma bar_post_init_id:
  "b_low b \<le> b_open b \<Longrightarrow> b_low b \<le> b_close b \<Longrightarrow> b_open b \<le> b_high b \<Longrightarrow> b_close b \<le> b_high b \<Longrightarrow>
   bar_post_init b = b"
  by (simp add: bar_post_init_def Let_def less_max_iff_disj min_less_iff_disj leD)

lemma bar_post_init_idem: "bar_post_init (bar_post_init b) = bar_post_init b"
  by (rule bar_post_init_id) (simp_all add: bar_post_init_encloses frame_simps)

lemma mid_price_between:
  assumes "lot k (bid_price t)" "lot k (ask_price t)" "bid_price t \<le> ask_price t"
  shows "bid_price t \<le> mid_price t \<and> mid_price t \<le> ask_price t"
proof -
  have "dval (bid_price t + ask_price t) = dval (bid_price t) + dval (ask_price t)"
    using assms(1,2) by (rule lot_add_exact)
  then have m: "dval (mid_price t) = dec_rnd ((dval (bid_price t) + dval (ask_price t)) / 2)"
    by (simp add: mid_price_def)
  have "dec_rnd (dval d) = dval d" if "lot k d" for d
    using that by (intro grid_exact [of k]) (auto simp: lot_def)
  with assms m show ?thesis by (auto simp: dec_le_iff intro!: dr.r_ge dr.r_le)
qed

end
