(* ===== verification/Trading_Models.thy ===== *)
theory Trading_Models
  imports Market_Data
begin

section \<open>Trading models (\<open>src/trading/models.py\<close>)\<close>

text \<open>
  Orders, fills, positions, trades and the two cost models, with the methods of the
  dataclasses. A clock reading is an argument \<open>now\<close>; the identifier counter and the
  time stamp of \<open>order_id\<close> and \<open>fill_id\<close> are arguments of the functions that create
  them. A method that may raise returns \<open>exn + _\<close>; where it does, the object is as
  before the call.
\<close>

datatype order_type = MARKET | LIMIT | STOP | STOP_LIMIT

datatype order_side = BUY | SELL

datatype order_status =
    SUBMITTED | ACCEPTED | PENDING | PARTIALLY_FILLED | FILLED | CANCELLED | REJECTED | EXPIRED

datatype time_in_force = DAY | GTC | IOC | FOK

record order =
  o_symbol :: symbol
  o_side :: order_side
  o_quantity :: dec
  o_type :: order_type
  o_limit_price :: "dec option"
  o_stop_price :: "dec option"
  o_tif :: time_in_force
  o_id :: string
  o_client_id :: "string option"
  o_broker_id :: "string option"
  o_status :: order_status
  o_filled :: dec
  o_remaining :: dec
  o_avg_price :: "dec option"
  o_created_at :: time
  o_updated_at :: "time option"
  o_submitted_at :: "time option"
  o_filled_at :: "time option"
  o_cancelled_at :: "time option"
  o_tags :: "(string, string) dict"
  o_strategy_id :: "string option"

text \<open>The default of \<open>order_id\<close>, from the global counter and the time of day.\<close>

definition fresh_order_id :: "nat \<Rightarrow> string \<Rightarrow> string" where
  "fresh_order_id n stamp = ''ORD_'' @ nat_str n @ ''_'' @ stamp"

text \<open>
  A new order as \<open>Order(...)\<close> makes it: the remaining quantity is set to the quantity
  by \<open>__post_init__\<close>.
\<close>

definition new_order ::
  "symbol \<Rightarrow> order_side \<Rightarrow> dec \<Rightarrow> order_type \<Rightarrow> dec option \<Rightarrow> dec option \<Rightarrow> time_in_force \<Rightarrow>
   string \<Rightarrow> string option \<Rightarrow> string option \<Rightarrow> time \<Rightarrow> order" where
  "new_order sy side qty typ lmt stp tif oid cid strat now =
     \<lparr>o_symbol = sy, o_side = side, o_quantity = qty, o_type = typ, o_limit_price = lmt,
      o_stop_price = stp, o_tif = tif, o_id = oid, o_client_id = cid, o_broker_id = None, o_status = SUBMITTED,
      o_filled = 0, o_remaining = qty, o_avg_price = None, o_created_at = now,
      o_updated_at = None, o_submitted_at = None, o_filled_at = None, o_cancelled_at = None,
      o_tags = [], o_strategy_id = strat\<rparr>"

definition is_active_status :: "order_status \<Rightarrow> bool" where
  "is_active_status s \<longleftrightarrow> List.member [SUBMITTED, ACCEPTED, PENDING, PARTIALLY_FILLED] s"

definition is_active :: "order \<Rightarrow> bool" where
  "is_active x \<longleftrightarrow> is_active_status (o_status x)"

definition is_filled :: "order \<Rightarrow> bool" where
  "is_filled x \<longleftrightarrow> o_status x = FILLED"

definition is_cancelled :: "order \<Rightarrow> bool" where
  "is_cancelled x \<longleftrightarrow> o_status x = CANCELLED"

text \<open>The weighted average of an old price and a new one, as orders and positions compute it.\<close>

definition weighted_avg :: "dec \<Rightarrow> dec \<Rightarrow> dec \<Rightarrow> dec \<Rightarrow> exn + dec" where
  "weighted_avg q0 p0 q p = dec_div ((q0 * p0) + (q * p)) (q0 + q)"

text \<open>The assignments of \<open>update_fill\<close> once the average price is known.\<close>

definition apply_fill :: "order \<Rightarrow> dec \<Rightarrow> dec \<Rightarrow> time \<Rightarrow> order" where
  "apply_fill x avg fq now =
     (let x1 = x\<lparr>o_avg_price := Some avg, o_filled := o_filled x + fq,
                o_remaining := o_remaining x - fq, o_updated_at := Some now\<rparr>
      in if o_remaining x1 \<le> 0
         then x1\<lparr>o_status := FILLED, o_filled_at := Some now\<rparr>
         else x1\<lparr>o_status := PARTIALLY_FILLED\<rparr>)"

definition update_fill :: "order \<Rightarrow> dec \<Rightarrow> dec \<Rightarrow> time \<Rightarrow> exn + order" where
  "update_fill x fq fp now =
     and_then
       (if o_filled x = 0 then Inr fp
        else (case o_avg_price x of
                None \<Rightarrow> Inl TypeError
              | Some avg \<Rightarrow> weighted_avg (o_filled x) avg fq fp))
       (\<lambda>avg. Inr (apply_fill x avg fq now))"

definition cancel :: "order \<Rightarrow> time \<Rightarrow> order" where
  "cancel x now =
     (if is_active x
      then x\<lparr>o_status := CANCELLED, o_cancelled_at := Some now, o_updated_at := Some now\<rparr>
      else x)"

subsection \<open>Fills\<close>

record fill =
  f_order_id :: string
  f_symbol :: symbol
  f_side :: order_side
  f_quantity :: dec
  f_price :: dec
  f_time :: time
  f_id :: string
  f_commission :: dec
  f_slippage :: dec

definition fresh_fill_id :: "nat \<Rightarrow> string \<Rightarrow> string" where
  "fresh_fill_id n stamp = ''FILL_'' @ nat_str n @ ''_'' @ stamp"

definition fill_value :: "fill \<Rightarrow> dec" where
  "fill_value f = f_quantity f * f_price f"

subsection \<open>Positions\<close>

record position =
  p_symbol :: symbol
  p_side :: order_side
  p_quantity :: dec
  p_avg_entry :: "dec option"
  p_current :: "dec option"
  p_last_update :: "time option"
  p_opened_at :: "time option"
  p_updated_at :: "time option"
  p_total_trades :: nat
  p_realized :: dec

definition new_position :: "symbol \<Rightarrow> order_side \<Rightarrow> position" where
  "new_position sy side =
     \<lparr>p_symbol = sy, p_side = side, p_quantity = 0, p_avg_entry = None, p_current = None,
      p_last_update = None, p_opened_at = None, p_updated_at = None, p_total_trades = 0,
      p_realized = 0\<rparr>"

definition is_long :: "position \<Rightarrow> bool" where
  "is_long p \<longleftrightarrow> p_side p = BUY \<and> 0 < p_quantity p"

definition is_short :: "position \<Rightarrow> bool" where
  "is_short p \<longleftrightarrow> p_side p = SELL \<and> 0 < p_quantity p"

definition market_value :: "position \<Rightarrow> dec" where
  "market_value p = (case p_current p of None \<Rightarrow> 0 | Some c \<Rightarrow> p_quantity p * c)"

definition unrealized_pnl :: "position \<Rightarrow> dec" where
  "unrealized_pnl p =
     (case (p_avg_entry p, p_current p) of
        (Some a, Some c) \<Rightarrow>
          (if is_long p then p_quantity p * (c - a) else p_quantity p * (a - c))
      | _ \<Rightarrow> 0)"

definition unrealized_pnl_percent :: "position \<Rightarrow> exn + flt" where
  "unrealized_pnl_percent p =
     (case p_avg_entry p of
        None \<Rightarrow> Inr 0
      | Some a \<Rightarrow>
          if a = 0 then Inr 0
          else and_then (dec_div (unrealized_pnl p) (p_quantity p * a))
                 (\<lambda>d. Inr (flt_of_dec d * flt_int 100)))"

definition add_fill :: "position \<Rightarrow> fill \<Rightarrow> exn + position" where
  "add_fill p f =
     and_then
       (case p_avg_entry p of
          None \<Rightarrow> Inr (p\<lparr>p_avg_entry := Some (f_price f), p_opened_at := Some (f_time f)\<rparr>)
        | Some a \<Rightarrow>
            and_then (weighted_avg (p_quantity p) a (f_quantity f) (f_price f))
              (\<lambda>a'. Inr (p\<lparr>p_avg_entry := Some a'\<rparr>)))
       (\<lambda>p1. Inr (p1\<lparr>p_quantity := p_quantity p1 + f_quantity f,
                       p_total_trades := p_total_trades p1 + 1, p_updated_at := Some (f_time f)\<rparr>))"

text \<open>
  \<open>Position.reduce\<close>. \<open>if self.avg_entry_price\<close> is false for \<open>None\<close> and for zero; the
  side is tested by \<open>is_long\<close>, on the quantity before the reduction.
\<close>

definition reduce_position :: "position \<Rightarrow> dec \<Rightarrow> dec \<Rightarrow> time \<Rightarrow> position" where
  "reduce_position p qty price now =
     (let q = (if p_quantity p \<le> qty then p_quantity p else qty);
          p1 = (case p_avg_entry p of
                  None \<Rightarrow> p
                | Some a \<Rightarrow>
                    if a = 0 then p
                    else p\<lparr>p_realized := p_realized p +
                            (if is_long p then q * (price - a) else q * (a - price))\<rparr>)
      in p1\<lparr>p_quantity := p_quantity p1 - q, p_total_trades := p_total_trades p1 + 1,
            p_updated_at := Some now\<rparr>)"

definition update_price :: "position \<Rightarrow> dec \<Rightarrow> time \<Rightarrow> position" where
  "update_price p price now = p\<lparr>p_current := Some price, p_last_update := Some now\<rparr>"

subsection \<open>Trades\<close>

record trade =
  tr_id :: string
  tr_symbol :: symbol
  tr_entry_time :: time
  tr_exit_time :: time
  tr_side :: order_side
  tr_quantity :: dec
  tr_entry_price :: dec
  tr_exit_price :: dec
  tr_realized :: dec
  tr_commission :: dec
  tr_slippage :: dec
  tr_exit_order_id :: "string option"

definition gross_pnl :: "trade \<Rightarrow> dec" where
  "gross_pnl t = tr_realized t + tr_commission t + tr_slippage t"

definition net_pnl :: "trade \<Rightarrow> dec" where
  "net_pnl t = tr_realized t - tr_commission t - tr_slippage t"

definition return_percent :: "trade \<Rightarrow> flt" where
  "return_percent t =
     (let invested = flt_of_dec (tr_quantity t * tr_entry_price t)
      in if invested = 0 then 0 else flt_of_dec (net_pnl t) / invested * flt_int 100)"

definition duration :: "trade \<Rightarrow> flt" where
  "duration t = total_seconds (tr_exit_time t - tr_entry_time t)"

subsection \<open>Cost models\<close>

record commission_model =
  per_share :: dec
  min_per_order :: dec
  max_percent :: dec
  flat_fee :: dec

definition commission :: "commission_model \<Rightarrow> dec \<Rightarrow> dec \<Rightarrow> dec" where
  "commission m quantity price =
     (let trade_value = quantity * price;
          c = quantity * per_share m;
          c = c + flat_fee m;
          c = max c (min_per_order m);
          cap = trade_value * max_percent m / dec_int 100
      in min c cap)"

record slippage_model =
  fixed_slippage :: dec
  percentage :: dec
  volume_impact :: dec

definition slippage :: "slippage_model \<Rightarrow> dec \<Rightarrow> dec \<Rightarrow> dec \<Rightarrow> dec" where
  "slippage m price quantity volume =
     (let s = fixed_slippage m;
          s = s + price * percentage m / dec_int 100
      in if 0 < volume then s + (quantity / volume) * volume_impact m else s)"

section \<open>Lemmas on the trading models\<close>

lemma is_active_status_iff:
  "is_active_status s \<longleftrightarrow> s \<in> {SUBMITTED, ACCEPTED, PENDING, PARTIALLY_FILLED}"
  by (simp add: is_active_status_def)

lemma is_active_status_simps [simp]:
  "is_active_status SUBMITTED" "is_active_status ACCEPTED" "is_active_status PENDING"
  "is_active_status PARTIALLY_FILLED" "\<not> is_active_status FILLED" "\<not> is_active_status CANCELLED"
  "\<not> is_active_status REJECTED" "\<not> is_active_status EXPIRED"
  by (simp_all add: is_active_status_iff)

subsection \<open>Orders\<close>

lemma new_order_active: "is_active (new_order sy side qty typ lmt stp tif oid cid strat now)"
  by (simp add: is_active_def new_order_def)

lemma cancel_not_active: "\<not> is_active (cancel x now)"
  by (simp add: cancel_def is_active_def)

lemma cancel_frame [frame_simps]:
  "o_id (cancel x now) = o_id x" "o_symbol (cancel x now) = o_symbol x"
  "o_filled (cancel x now) = o_filled x" "o_remaining (cancel x now) = o_remaining x"
  "o_quantity (cancel x now) = o_quantity x"
  by (simp_all add: cancel_def)

text \<open>The successful result of a fill, field by field.\<close>

lemma apply_fill_fields:
  "o_filled (apply_fill x avg fq now) = o_filled x + fq"
  "o_remaining (apply_fill x avg fq now) = o_remaining x - fq"
  "o_status (apply_fill x avg fq now) = (if o_remaining x - fq \<le> 0 then FILLED else PARTIALLY_FILLED)"
  "o_id (apply_fill x avg fq now) = o_id x" "o_symbol (apply_fill x avg fq now) = o_symbol x"
  "o_side (apply_fill x avg fq now) = o_side x" "o_quantity (apply_fill x avg fq now) = o_quantity x"
  "o_type (apply_fill x avg fq now) = o_type x" "o_avg_price (apply_fill x avg fq now) = Some avg"
  by (simp_all add: apply_fill_def Let_def)

lemma update_fill_InrE:
  assumes "update_fill x fq fp now = Inr x'"
  obtains avg where "x' = apply_fill x avg fq now"
    "if o_filled x = 0 then avg = fp
     else \<exists>a. o_avg_price x = Some a \<and> weighted_avg (o_filled x) a fq fp = Inr avg"
  using assms by (cases "o_filled x = 0"; cases "o_avg_price x")
    (auto simp: update_fill_def and_then_Inr_iff)

lemma update_fill_InrD:
  assumes "update_fill x fq fp now = Inr x'"
  shows "o_filled x' = o_filled x + fq" "o_remaining x' = o_remaining x - fq"
    "o_status x' = (if o_remaining x' \<le> 0 then FILLED else PARTIALLY_FILLED)"
    "o_id x' = o_id x" "o_symbol x' = o_symbol x" "o_side x' = o_side x"
    "o_quantity x' = o_quantity x" "o_type x' = o_type x" "o_avg_price x' \<noteq> None"
  using assms by (auto elim!: update_fill_InrE simp: apply_fill_fields)

lemma update_fill_not_active_iff:
  "update_fill x fq fp now = Inr x' \<Longrightarrow> is_active x' \<longleftrightarrow> 0 < o_remaining x'"
  using update_fill_InrD(3) [of x fq fp now x'] by (auto simp: is_active_def not_le)

lemma update_fill_succeeds:
  assumes "o_filled x \<noteq> 0 \<Longrightarrow> o_avg_price x \<noteq> None" "o_filled x \<noteq> 0 \<Longrightarrow> dval (o_filled x + fq) \<noteq> 0"
  shows "\<exists>x'. update_fill x fq fp now = Inr x'"
  using assms by (cases "o_avg_price x") (auto simp: update_fill_def weighted_avg_def dec_div_def)

text \<open>Several fills in a row; the first exception stops.\<close>

fun fill_all :: "order \<Rightarrow> (dec \<times> dec \<times> time) list \<Rightarrow> exn + order" where
  "fill_all x [] = Inr x"
| "fill_all x ((q, p, now) # fs) = and_then (update_fill x q p now) (\<lambda>x1. fill_all x1 fs)"

definition fills_total :: "(dec \<times> dec \<times> time) list \<Rightarrow> rat" where
  "fills_total fs = sum_list (map (\<lambda>(q, p, now). dval q) fs)"

definition fills_on_grid :: "nat \<Rightarrow> (dec \<times> dec \<times> time) list \<Rightarrow> bool" where
  "fills_on_grid k fs \<longleftrightarrow> (\<forall>(q, p, now) \<in> set fs. on_grid k (dval q) \<and> 0 < dval q)"

lemma fills_total_nonneg: "fills_on_grid k fs \<Longrightarrow> 0 \<le> fills_total fs"
  by (induction fs) (auto simp: fills_total_def fills_on_grid_def)

lemma update_fill_exact:
  assumes "lot k (o_filled x)" "lot k (o_remaining x)" "lot k q" "0 \<le> dval (o_filled x)" "0 < dval q"
    and "o_filled x \<noteq> 0 \<Longrightarrow> o_avg_price x \<noteq> None"
  obtains x' where "update_fill x q p now = Inr x'" "dval (o_filled x') = dval (o_filled x) + dval q"
    "dval (o_remaining x') = dval (o_remaining x) - dval q"
proof -
  have f: "dval (o_filled x + q) = dval (o_filled x) + dval q" using assms(1,3) by (rule lot_add_exact)
  have r: "dval (o_remaining x - q) = dval (o_remaining x) - dval q" using assms(2,3) by (rule lot_minus_exact)
  have "\<exists>x'. update_fill x q p now = Inr x'"
    using assms f by (intro update_fill_succeeds) auto
  then obtain x' where "update_fill x q p now = Inr x'" ..
  with f r show ?thesis by (metis that update_fill_InrD(1,2))
qed

lemma fill_all_exact:
  assumes "on_grid k (dval (o_filled x))" "on_grid k (dval (o_remaining x))" "0 \<le> dval (o_filled x)"
    and "o_filled x \<noteq> 0 \<Longrightarrow> o_avg_price x \<noteq> None" "fills_on_grid k fs"
    and "(dval (o_filled x) + \<bar>dval (o_remaining x)\<bar> + 2 * fills_total fs) * 10 ^ k * 2 < 10 ^ 28"
  shows "\<exists>x'. fill_all x fs = Inr x' \<and> dval (o_filled x') = dval (o_filled x) + fills_total fs \<and>
    dval (o_remaining x') = dval (o_remaining x) - fills_total fs \<and>
    (fs \<noteq> [] \<longrightarrow> o_status x' = (if o_remaining x' \<le> 0 then FILLED else PARTIALLY_FILLED))"
  using assms
proof (induction fs arbitrary: x)
  case Nil
  then show ?case by (simp add: fills_total_def)
next
  case (Cons y fs)
  obtain q p now where y: "y = (q, p, now)" by (cases y) auto
  let ?F = "dval (o_filled x)" and ?R = "dval (o_remaining x)"
  have q: "on_grid k (dval q)" "0 < dval q" and rest: "fills_on_grid k fs"
    using Cons.prems(5) by (auto simp: y fills_on_grid_def)
  have T: "fills_total (y # fs) = dval q + fills_total fs" by (simp add: y fills_total_def)
  have nn: "0 \<le> fills_total fs" by (rule fills_total_nonneg [OF rest])
  have small: "z * 10 ^ k * 2 < 10 ^ 28" if "z \<le> ?F + \<bar>?R\<bar> + 2 * (dval q + fills_total fs)" for z
  proof -
    have "z * 10 ^ k * 2 \<le> (?F + \<bar>?R\<bar> + 2 * (dval q + fills_total fs)) * 10 ^ k * 2"
      using that by (intro mult_right_mono) auto
    then show ?thesis using Cons.prems(6) unfolding T by (rule le_less_trans)
  qed
  have "\<bar>?F\<bar> * 10 ^ k * 2 < 10 ^ 28"
    by (rule small) (use Cons.prems(3) q(2) nn in simp)
  moreover have "\<bar>?R\<bar> * 10 ^ k * 2 < 10 ^ 28"
    by (rule small) (use Cons.prems(3) q(2) nn in simp)
  moreover have "\<bar>dval q\<bar> * 10 ^ k * 2 < 10 ^ 28"
    by (rule small) (use Cons.prems(3) q(2) nn in simp)
  ultimately have "lot k (o_filled x)" "lot k (o_remaining x)" "lot k q"
    using Cons.prems(1,2) q(1) by (simp_all only: lot_def simp_thms)
  then obtain x1 where x1: "update_fill x q p now = Inr x1" "dval (o_filled x1) = ?F + dval q"
    "dval (o_remaining x1) = ?R - dval q"
    using Cons.prems(3) q(2) Cons.prems(4) by (rule update_fill_exact)
  have "\<exists>x'. fill_all x1 fs = Inr x' \<and> dval (o_filled x') = dval (o_filled x1) + fills_total fs \<and>
    dval (o_remaining x') = dval (o_remaining x1) - fills_total fs \<and>
    (fs \<noteq> [] \<longrightarrow> o_status x' = (if o_remaining x' \<le> 0 then FILLED else PARTIALLY_FILLED))"
  proof (rule Cons.IH)
    show "(dval (o_filled x1) + \<bar>dval (o_remaining x1)\<bar> + 2 * fills_total fs) * 10 ^ k * 2 < 10 ^ 28"
      unfolding x1(2,3) by (rule small) (use q(2) abs_triangle_ineq4 [of ?R "dval q"] in simp)
  qed (use Cons.prems(1-3) q rest update_fill_InrD(9) [OF x1(1)] in
        \<open>auto simp only: x1(2,3) intro: on_grid_add on_grid_diff\<close>)
  then show ?case
    using update_fill_InrD(3) [OF x1(1)] by (cases "fs = []") (auto simp: y x1 fills_total_def)
qed

subsection \<open>Average prices stay within the band of the fill prices\<close>

text \<open>
  A price band on the tick grid \<open>10 ^ -j\<close>, for quantities on the grid \<open>10 ^ -k\<close> up to
  \<open>Q\<close>: every product of a quantity with a bound has at most 28 digits, so it is exact.
\<close>

definition exact_band :: "nat \<Rightarrow> nat \<Rightarrow> rat \<Rightarrow> rat \<Rightarrow> rat \<Rightarrow> bool" where
  "exact_band k j lo hi Q \<longleftrightarrow>
     on_grid j lo \<and> on_grid j hi \<and> 0 \<le> lo \<and> lo \<le> hi \<and>
     hi * 10 ^ j < 10 ^ 28 \<and> Q * 10 ^ k < 10 ^ 28 \<and> Q * hi * 10 ^ (k + j) < 10 ^ 28"

lemma exact_band_prices:
  assumes "exact_band k j lo hi Q"
  shows "dec_rnd lo = lo" "dec_rnd hi = hi"
proof -
  have "lo * 10 ^ j \<le> hi * 10 ^ j" using assms by (intro mult_right_mono) (auto simp: exact_band_def)
  then have "lo * 10 ^ j < 10 ^ 28" using assms unfolding exact_band_def by linarith
  then show "dec_rnd lo = lo" using assms by (intro grid_exact [of j]) (simp_all add: exact_band_def)
  show "dec_rnd hi = hi" using assms by (intro grid_exact [of j]) (simp_all add: exact_band_def)
qed

lemma exact_band_product:
  assumes "exact_band k j lo hi Q" "on_grid k q" "0 \<le> q" "q \<le> Q" "x = lo \<or> x = hi"
  shows "dec_rnd (q * x) = q * x"
proof (rule grid_exact [of "k + j"])
  have b: "0 \<le> x" "x \<le> hi" "on_grid j x" using assms(1,5) by (auto simp: exact_band_def)
  then show "on_grid (k + j) (q * x)" using assms(2) by (intro on_grid_mult)
  have "q * x \<le> Q * hi" using assms b by (intro mult_mono) auto
  then have "q * x * 10 ^ (k + j) \<le> Q * hi * 10 ^ (k + j)" by (intro mult_right_mono) auto
  also have "\<dots> < 10 ^ 28" using assms(1) by (simp add: exact_band_def)
  finally show "\<bar>q * x\<bar> * 10 ^ (k + j) < 10 ^ 28" using assms(3) b by simp
qed

lemma weighted_avg_in_band:
  assumes "exact_band k j lo hi (dval q0 + dval q)" "on_grid k (dval q0)" "on_grid k (dval q)"
    and "0 \<le> dval q0" "0 \<le> dval q" "0 < dval q0 + dval q"
    and "lo \<le> dval p0" "dval p0 \<le> hi" "lo \<le> dval p" "dval p \<le> hi"
  shows "\<exists>a. weighted_avg q0 p0 q p = Inr a \<and> lo \<le> dval a \<and> dval a \<le> hi"
proof -
  let ?Q = "dval q0 + dval q"
  note prod = exact_band_product [OF assms(1)]
  have s: "dec_rnd ?Q = ?Q"
    using assms by (intro grid_exact [of k] on_grid_add) (simp_all add: exact_band_def)
  then have "weighted_avg q0 p0 q p = Inr ((q0 * p0 + q * p) / (q0 + q))"
    using assms(6) by (simp add: weighted_avg_def dec_div_def)
  moreover have "lo \<le> dval ((q0 * p0 + q * p) / (q0 + q)) \<and> dval ((q0 * p0 + q * p) / (q0 + q)) \<le> hi"
    unfolding dval_simps
    by (intro conjI dr.r_weighted_mean [where lo = lo and hi = hi])
      (use assms s in \<open>auto intro!: prod exact_band_prices [OF assms(1)] on_grid_add\<close>)
  ultimately show ?thesis by blast
qed

definition avg_in_band :: "rat \<Rightarrow> rat \<Rightarrow> order \<Rightarrow> bool" where
  "avg_in_band lo hi x \<longleftrightarrow>
     (case o_avg_price x of None \<Rightarrow> True | Some a \<Rightarrow> lo \<le> dval a \<and> dval a \<le> hi)"

lemma exact_band_less: "exact_band k j lo hi Q \<Longrightarrow> Q' \<le> Q \<Longrightarrow> exact_band k j lo hi Q'"
proof -
  assume a: "exact_band k j lo hi Q" "Q' \<le> Q"
  have "Q' * 10 ^ k \<le> Q * 10 ^ k" "Q' * hi * 10 ^ (k + j) \<le> Q * hi * 10 ^ (k + j)"
    using a by (auto intro!: mult_right_mono simp: exact_band_def)
  with a show ?thesis unfolding exact_band_def by linarith
qed

lemma fill_all_in_band:
  assumes "fill_all x fs = Inr x'" "fills_on_grid k fs" "avg_in_band lo hi x"
    and "\<And>q p now. (q, p, now) \<in> set fs \<Longrightarrow> lo \<le> dval p \<and> dval p \<le> hi"
    and "on_grid k (dval (o_filled x))" "0 \<le> dval (o_filled x)"
    and "exact_band k j lo hi (dval (o_filled x) + fills_total fs)"
  shows "avg_in_band lo hi x'"
  using assms
proof (induction fs arbitrary: x)
  case Nil
  then show ?case by simp
next
  case (Cons y fs)
  obtain q p now where y: "y = (q, p, now)" by (cases y) auto
  from Cons.prems(1) obtain x1 where x1: "update_fill x q p now = Inr x1" "fill_all x1 fs = Inr x'"
    by (auto simp: y and_then_Inr_iff)
  have q: "on_grid k (dval q)" "0 < dval q" and rest: "fills_on_grid k fs"
    using Cons.prems(2) by (auto simp: y fills_on_grid_def)
  have p: "lo \<le> dval p" "dval p \<le> hi" using Cons.prems(4) [of q p now] by (auto simp: y)
  have T: "fills_total (y # fs) = dval q + fills_total fs" by (simp add: y fills_total_def)
  have nn: "0 \<le> fills_total fs" by (rule fills_total_nonneg [OF rest])
  have band: "exact_band k j lo hi (dval (o_filled x) + dval q)"
    using Cons.prems(7) by (rule exact_band_less) (use nn T in simp)
  have "dec_rnd (dval (o_filled x) + dval q) = dval (o_filled x) + dval q"
    using Cons.prems(5,6) q band by (intro grid_exact [of k] on_grid_add) (simp_all add: exact_band_def)
  then have f1: "dval (o_filled x1) = dval (o_filled x) + dval q"
    using update_fill_InrD(1) [OF x1(1)] by simp
  have "avg_in_band lo hi x1"
  proof (cases "o_filled x = 0")
    case True
    with x1(1) p show ?thesis by (auto elim!: update_fill_InrE simp: avg_in_band_def apply_fill_fields)
  next
    case False
    with x1(1) obtain a a' where a: "o_avg_price x = Some a" "weighted_avg (o_filled x) a q p = Inr a'"
      "o_avg_price x1 = Some a'" by (auto elim!: update_fill_InrE simp: apply_fill_fields)
    have "lo \<le> dval a" "dval a \<le> hi" using Cons.prems(3) a(1) by (simp_all add: avg_in_band_def)
    with weighted_avg_in_band [OF band Cons.prems(5) q(1), of a p] q(2) p Cons.prems(6) a
    show ?thesis by (auto simp: avg_in_band_def)
  qed
  moreover have "on_grid k (dval (o_filled x1))" "0 \<le> dval (o_filled x1)"
    "exact_band k j lo hi (dval (o_filled x1) + fills_total fs)"
    using Cons.prems(5,6,7) q T by (simp_all add: f1 on_grid_add add.assoc)
  ultimately show ?case
    using x1(2) rest Cons.prems(4) by (intro Cons.IH) auto
qed

subsection \<open>Positions and costs\<close>

lemma add_fill_quantity: "add_fill p f = Inr p' \<Longrightarrow> p_quantity p' = p_quantity p + f_quantity f"
  and add_fill_frame: "add_fill p f = Inr p' \<Longrightarrow>
    p_symbol p' = p_symbol p \<and> p_side p' = p_side p \<and> p_realized p' = p_realized p \<and> p_avg_entry p' \<noteq> None"
  by (auto simp: add_fill_def and_then_Inr_iff split: option.splits)

lemma add_fill_first: "p_avg_entry p = None \<Longrightarrow> \<exists>p'. add_fill p f = Inr p'"
  by (simp add: add_fill_def)

lemma reduce_position_quantity:
  "p_quantity (reduce_position p q price now) = p_quantity p - min (p_quantity p) q"
  by (auto simp: reduce_position_def Let_def min_def split: option.splits)

lemma reduce_position_nonneg: "0 \<le> p_quantity (reduce_position p q price now)"
  by (auto simp: reduce_position_quantity dec_le_iff min_def intro!: dr.r_nonneg)

lemma reduce_position_frame [frame_simps]:
  "p_symbol (reduce_position p q price now) = p_symbol p"
  "p_side (reduce_position p q price now) = p_side p"
  "p_avg_entry (reduce_position p q price now) = p_avg_entry p"
  by (auto simp: reduce_position_def Let_def split: option.splits)

lemma commission_le_cap:
  "commission m q price \<le> q * price * max_percent m / dec_int 100"
  by (simp add: commission_def Let_def)

lemma commission_nonneg:
  assumes "0 \<le> dval q" "0 \<le> dval price" "0 \<le> dval (max_percent m)" "0 \<le> dval (min_per_order m)"
  shows "0 \<le> commission m q price"
  using assms by (auto simp: commission_def Let_def dec_le_iff min_def max_def
      intro!: dr.r_nonneg divide_nonneg_nonneg mult_nonneg_nonneg)

lemma slippage_nonneg:
  assumes "0 \<le> dval (fixed_slippage m)" "0 \<le> dval (percentage m)" "0 \<le> dval (volume_impact m)"
    and "0 \<le> dval price" "0 \<le> dval q"
  shows "0 \<le> slippage m price q vol"
  using assms by (auto simp: slippage_def Let_def dec_le_iff dec_less_iff
      intro!: dr.r_nonneg add_nonneg_nonneg divide_nonneg_nonneg mult_nonneg_nonneg)

section \<open>Properties of the trading models\<close>

lemma fill_all_avg_known:
  "fill_all x fs = Inr x' \<Longrightarrow> fs \<noteq> [] \<or> o_avg_price x \<noteq> None \<Longrightarrow> o_avg_price x' \<noteq> None"
proof (induction x fs rule: fill_all.induct)
  case (2 x q p now fs)
  then show ?case by (auto simp: and_then_Inr_iff dest: update_fill_InrD(9))
qed auto

lemma new_order_fresh [simp]:
  "o_filled (new_order sy side qty typ lmt stp tif oid cid strat now) = 0"
  "o_remaining (new_order sy side qty typ lmt stp tif oid cid strat now) = qty"
  "o_avg_price (new_order sy side qty typ lmt stp tif oid cid strat now) = None"
  by (simp_all add: new_order_def)

text \<open>C8. A new order filled any number of times on the lot grid never raises, its filled
  quantity is the exact sum of the fills, its remaining quantity the exact difference, and
  it is FILLED exactly when the fills cover the quantity, PARTIALLY_FILLED before that.\<close>

theorem order_fills_exact:
  assumes "on_grid k (dval qty)" "0 < dval qty" "fills_on_grid k fs"
    and "(dval qty + 2 * fills_total fs) * 10 ^ k * 2 < 10 ^ 28"
  shows "\<exists>x'. fill_all (new_order sy side qty typ lmt stp tif oid cid strat now) fs = Inr x' \<and>
    dval (o_filled x') = fills_total fs \<and> dval (o_remaining x') = dval qty - fills_total fs \<and>
    (fs \<noteq> [] \<longrightarrow> o_status x' = (if dval qty \<le> fills_total fs then FILLED else PARTIALLY_FILLED))"
  using fill_all_exact [of k "new_order sy side qty typ lmt stp tif oid cid strat now" fs] assms
  by (auto simp: dec_le_iff)

theorem order_fills_exact_witness:
  "\<exists>x'. fill_all (new_order sample_symbol BUY (Dec 10) LIMIT (Some (Dec 5)) None GTC ''A'' None None 0)
      [(Dec 4, Dec 5, 1), (Dec (13/2), Dec 5, 2)] = Inr x' \<and>
    dval (o_filled x') = 21/2 \<and> dval (o_remaining x') = - 1/2 \<and> o_status x' = FILLED"
proof -
  have "on_grid 1 10" "on_grid 1 4" "on_grid 1 (13/2)"
    unfolding on_grid_def by (rule exI [of _ 100], simp) (rule exI [of _ 40], simp, rule exI [of _ 65], simp)
  then have "on_grid 1 (dval (Dec 10))" "fills_on_grid 1 [(Dec 4, Dec 5, 1), (Dec (13/2), Dec 5, 2)]"
    by (simp_all add: fills_on_grid_def)
  from order_fills_exact [OF this(1) _ this(2), of sample_symbol BUY LIMIT "Some (Dec 5)" None GTC "''A''" None None 0]
  show ?thesis by (simp add: fills_total_def)
qed



end
