(* ===== verification/Order_Manager.thy ===== *)
theory Order_Manager
  imports Trading_Models
begin

section \<open>Order management (\<open>src/trading/order_manager.py\<close>)\<close>

text \<open>
  \<open>Order\<close> objects are shared: the manager's dictionary, the caller, the execution
  engine and the broker hold references to the same object. The model keeps them in a
  heap and the dictionary maps an identifier to a reference. The set of active
  identifiers is a list without repetitions; its order stands for the arbitrary
  iteration order of a Python set, and the lemmas hold for every order.

  Callbacks act on the rest of the world, of type \<open>'w\<close>.
\<close>

type_synonym oref = nat
type_synonym heap = "oref \<Rightarrow> order"

record 'w order_manager =
  om_orders :: "(string, oref) dict"
  om_by_symbol :: "(skey, string list) dict"
  om_active :: "string list"
  om_on_order :: "(order, 'w) callback list"
  om_on_fill :: "(fill, 'w) callback list"
  om_on_cancel :: "(order, 'w) callback list"

definition empty_manager :: "'w order_manager" where
  "empty_manager = \<lparr>om_orders = [], om_by_symbol = [], om_active = [], om_on_order = [],
                    om_on_fill = [], om_on_cancel = []\<rparr>"

type_synonym 'w om_state = "'w order_manager \<times> heap \<times> 'w"

definition register_order :: "'w om_state \<Rightarrow> oref \<Rightarrow> 'w om_state" where
  "register_order = (\<lambda>(m, h, w) r.
     let x = h r; k = symbol_key (o_symbol x);
         ids = (case dget (om_by_symbol m) k of None \<Rightarrow> [] | Some ids \<Rightarrow> ids);
         m1 = m\<lparr>om_orders := dset (om_orders m) (o_id x) r,
                om_by_symbol := dset (om_by_symbol m) k (ids @ [o_id x]),
                om_active := set_add (o_id x) (om_active m)\<rparr>
     in (m1, h, notify (om_on_order m) x w))"

definition get_order :: "'w om_state \<Rightarrow> string \<Rightarrow> oref option" where
  "get_order = (\<lambda>(m, h, w) oid. dget (om_orders m) oid)"

definition get_orders_by_symbol :: "'w om_state \<Rightarrow> symbol \<Rightarrow> oref list" where
  "get_orders_by_symbol = (\<lambda>(m, h, w) s.
     let ids = (case dget (om_by_symbol m) (symbol_key s) of None \<Rightarrow> [] | Some ids \<Rightarrow> ids)
     in List.map_filter (\<lambda>oid. dget (om_orders m) oid) ids)"

definition get_active_orders :: "'w om_state \<Rightarrow> symbol option \<Rightarrow> oref list" where
  "get_active_orders = (\<lambda>(m, h, w) s.
     List.map_filter
       (\<lambda>oid. case dget (om_orders m) oid of
                None \<Rightarrow> None
              | Some r \<Rightarrow>
                  (case s of None \<Rightarrow> Some r
                   | Some s' \<Rightarrow> if symbol_eq (o_symbol (h r)) s' then Some r else None))
       (om_active m))"

text \<open>
  \<open>process_fill\<close>: an unknown order is logged and ignored; an exception of
  \<open>update_fill\<close> reaches the caller with nothing changed.
\<close>

definition process_fill :: "'w om_state \<Rightarrow> string \<Rightarrow> fill \<Rightarrow> time \<Rightarrow> exn + 'w om_state" where
  "process_fill = (\<lambda>(m, h, w) oid f now.
     case dget (om_orders m) oid of
       None \<Rightarrow> Inr (m, h, w)
     | Some r \<Rightarrow>
         and_then (update_fill (h r) (f_quantity f) (f_price f) now)
           (\<lambda>x. Inr (if is_active x then m else m\<lparr>om_active := removeAll oid (om_active m)\<rparr>,
                     h(r := x), notify (om_on_fill m) f w)))"

definition cancel_order :: "'w om_state \<Rightarrow> string \<Rightarrow> time \<Rightarrow> bool \<times> 'w om_state" where
  "cancel_order = (\<lambda>(m, h, w) oid now.
     case dget (om_orders m) oid of
       None \<Rightarrow> (False, (m, h, w))
     | Some r \<Rightarrow>
         if is_active (h r)
         then (True, (m\<lparr>om_active := removeAll oid (om_active m)\<rparr>,
                      h(r := cancel (h r) now),
                      notify (om_on_cancel m) (cancel (h r) now) w))
         else (False, (m, h, w)))"

text \<open>The loop of \<open>cancel_all_orders\<close> over the orders it collected first.\<close>

fun cancel_each :: "'w om_state \<Rightarrow> oref list \<Rightarrow> time \<Rightarrow> nat \<times> 'w om_state" where
  "cancel_each s [] now = (0, s)"
| "cancel_each s (r # rs) now =
     (let (ok, s1) = cancel_order s (o_id (fst (snd s) r)) now;
          (n, s2) = cancel_each s1 rs now
      in (if ok then Suc n else n, s2))"

definition cancel_all_orders :: "'w om_state \<Rightarrow> symbol option \<Rightarrow> time \<Rightarrow> nat \<times> 'w om_state" where
  "cancel_all_orders s sy now = cancel_each s (get_active_orders s sy) now"

record om_statistics =
  total_orders :: nat
  active_orders :: nat
  filled_orders :: nat
  cancelled_orders :: nat
  symbols_traded :: nat

definition om_get_statistics :: "'w om_state \<Rightarrow> om_statistics" where
  "om_get_statistics = (\<lambda>(m, h, w).
     \<lparr>total_orders = length (om_orders m), active_orders = length (om_active m),
      filled_orders = length (filter (\<lambda>r. is_filled (h r)) (dvals (om_orders m))),
      cancelled_orders = length (filter (\<lambda>r. is_cancelled (h r)) (dvals (om_orders m))),
      symbols_traded = length (om_by_symbol m)\<rparr>)"

section \<open>The manager's invariant\<close>

text \<open>
  \<open>om_inv\<close>: the dictionaries and the active set are well formed, and every registered
  reference is filed under the identifier its object carries, also in the index by
  symbol. \<open>om_synced\<close>: an identifier is in the active set exactly when its order is
  active, which is what \<open>get_active_orders\<close> promises.
\<close>

definition om_inv :: "'w om_state \<Rightarrow> bool" where
  "om_inv = (\<lambda>(m, h, w).
     dict_ok (om_orders m) \<and> dict_ok (om_by_symbol m) \<and> distinct (om_active m) \<and>
     (\<forall>oid \<in> set (om_active m). dget (om_orders m) oid \<noteq> None) \<and>
     (\<forall>oid r. dget (om_orders m) oid = Some r \<longrightarrow>
        o_id (h r) = oid \<and>
        (\<exists>ids. dget (om_by_symbol m) (symbol_key (o_symbol (h r))) = Some ids \<and> oid \<in> set ids)))"

definition om_synced :: "'w om_state \<Rightarrow> bool" where
  "om_synced = (\<lambda>(m, h, w).
     \<forall>oid r. dget (om_orders m) oid = Some r \<longrightarrow> (oid \<in> set (om_active m) \<longleftrightarrow> is_active (h r)))"

lemma set_set_add [simp]: "set (set_add x xs) = insert x (set xs)"
  and distinct_set_add [simp]: "distinct xs \<Longrightarrow> distinct (set_add x xs)"
  by (auto simp: set_add_def)

lemma om_inv_empty: "om_inv (empty_manager, h, w)" and om_synced_empty: "om_synced (empty_manager, h, w)"
  by (simp_all add: om_inv_def om_synced_def empty_manager_def)

lemma om_invD:
  assumes "om_inv (m, h, w)"
  shows "dict_ok (om_orders m)" "distinct (om_active m)"
    "oid \<in> set (om_active m) \<Longrightarrow> \<exists>r. dget (om_orders m) oid = Some r"
    "dget (om_orders m) oid = Some r \<Longrightarrow> o_id (h r) = oid"
    "dget (om_orders m) oid = Some r \<Longrightarrow>
       \<exists>ids. dget (om_by_symbol m) (symbol_key (o_symbol (h r))) = Some ids \<and> oid \<in> set ids"
  using assms by (auto simp: om_inv_def)

lemma om_inv_register:
  assumes "om_inv s"
  shows "om_inv (register_order s r)"
proof -
  obtain m h w where s: "s = (m, h, w)" by (cases s)
  let ?x = "h r" and ?k = "symbol_key (o_symbol (h r))"
  define ids where "ids = (case dget (om_by_symbol m) ?k of None \<Rightarrow> [] | Some ids \<Rightarrow> ids)"
  note D = om_invD [OF assms [unfolded s]]
  have ids: "dget (om_by_symbol m) ?k = Some js \<Longrightarrow> set js \<subseteq> set ids" for js by (simp add: ids_def)
  have idx: "\<exists>js. dget (dset (om_by_symbol m) ?k (ids @ [o_id ?x])) (symbol_key (o_symbol (h r'))) = Some js \<and> oid \<in> set js"
    if "dget (om_orders m) oid = Some r'" for oid r'
    using D(5) [OF that] ids by (cases "symbol_key (o_symbol (h r')) = ?k") auto
  have "dict_ok (om_by_symbol m)" using assms by (simp add: s om_inv_def)
  with D idx show ?thesis
    by (auto simp: s register_order_def om_inv_def Let_def simp flip: ids_def)
qed

lemma om_synced_register:
  "om_synced s \<Longrightarrow> is_active (fst (snd s) r) \<Longrightarrow> om_synced (register_order s r)"
  by (cases s) (auto simp: om_synced_def register_order_def Let_def)

text \<open>Changing one registered order in place, keeping what the index depends on.\<close>

lemma om_inv_heap_upd:
  assumes "om_inv (m, h, w)" "dget (om_orders m) oid = Some r"
    and "o_id x = o_id (h r)" "o_symbol x = o_symbol (h r)"
  shows "om_inv (m, h(r := x), w')"
    and "om_inv (m\<lparr>om_active := removeAll oid (om_active m)\<rparr>, h(r := x), w')"
proof -
  have keep: "o_id ((h(r := x)) r') = o_id (h r')" "o_symbol ((h(r := x)) r') = o_symbol (h r')" for r'
    using assms(3,4) by simp_all
  show "om_inv (m, h(r := x), w')"
    using assms(1) unfolding om_inv_def prod.case keep .
  show "om_inv (m\<lparr>om_active := removeAll oid (om_active m)\<rparr>, h(r := x), w')"
    using assms(1) unfolding om_inv_def prod.case keep
    by (simp add: distinct_removeAll del: fun_upd_apply)
qed

lemma om_synced_heap_upd:
  assumes "om_inv (m, h, w)" "om_synced (m, h, w)" "dget (om_orders m) oid = Some r"
  shows "is_active x \<Longrightarrow> is_active (h r) \<Longrightarrow> om_synced (m, h(r := x), w')"
    and "\<not> is_active x \<Longrightarrow> om_synced (m\<lparr>om_active := removeAll oid (om_active m)\<rparr>, h(r := x), w')"
proof -
  have inj: "oid' = oid" if "dget (om_orders m) oid' = Some r" for oid'
    using om_invD(4) [OF assms(1)] that assms(3) by metis
  have other: "r' \<noteq> r \<or> oid' = oid" if "dget (om_orders m) oid' = Some r'" for oid' r'
    using inj that by blast
  note sync = assms(2) [unfolded om_synced_def prod.case, rule_format]
  show "om_synced (m, h(r := x), w')" if "is_active x" "is_active (h r)"
    unfolding om_synced_def prod.case using that sync by (simp add: fun_upd_apply)
  show "om_synced (m\<lparr>om_active := removeAll oid (om_active m)\<rparr>, h(r := x), w')" if "\<not> is_active x"
    unfolding om_synced_def prod.case
  proof (intro allI impI)
    fix oid' r'
    assume "dget (om_orders (m\<lparr>om_active := removeAll oid (om_active m)\<rparr>)) oid' = Some r'"
    then have d: "dget (om_orders m) oid' = Some r'" by simp
    show "(oid' \<in> set (om_active (m\<lparr>om_active := removeAll oid (om_active m)\<rparr>))) = is_active ((h(r := x)) r')"
    proof (cases "r' = r")
      case True
      with other [OF d] that show ?thesis by simp
    next
      case False
      with d assms(3) have "oid' \<noteq> oid" by auto
      with False sync [OF d] show ?thesis by simp
    qed
  qed
qed

text \<open>The outcomes of filling and cancelling, as the proofs use them.\<close>

lemma process_fill_InrE:
  assumes "process_fill (m, h, w) oid f now = Inr s'"
  obtains (unknown) "dget (om_orders m) oid = None" "s' = (m, h, w)"
  | (filled) r x where "dget (om_orders m) oid = Some r"
      "update_fill (h r) (f_quantity f) (f_price f) now = Inr x"
      "s' = (if is_active x then m else m\<lparr>om_active := removeAll oid (om_active m)\<rparr>,
             h(r := x), notify (om_on_fill m) f w)"
  using assms by (auto simp: process_fill_def and_then_Inr_iff split: option.splits)

lemma cancel_orderE:
  obtains (refused) "cancel_order (m, h, w) oid now = (False, (m, h, w))"
    "\<And>r. dget (om_orders m) oid = Some r \<Longrightarrow> \<not> is_active (h r)"
  | (cancelled) r where "dget (om_orders m) oid = Some r" "is_active (h r)"
      "cancel_order (m, h, w) oid now =
         (True, (m\<lparr>om_active := removeAll oid (om_active m)\<rparr>, h(r := cancel (h r) now),
                 notify (om_on_cancel m) (cancel (h r) now) w))"
  by (cases "dget (om_orders m) oid"; cases "is_active (h (the (dget (om_orders m) oid)))")
    (auto simp: cancel_order_def)

lemma om_inv_process_fill:
  assumes "om_inv s" "process_fill s oid f now = Inr s'"
  shows "om_inv s'"
proof -
  obtain m h w where s: "s = (m, h, w)" by (cases s)
  from assms(2) [unfolded s] show ?thesis
  proof (cases rule: process_fill_InrE)
    case unknown
    with assms(1) s show ?thesis by simp
  next
    case (filled r x)
    with assms(1) [unfolded s] show ?thesis
      using om_inv_heap_upd [of m h w oid r x] update_fill_InrD(4,5) [OF filled(2)] by simp
  qed
qed

lemma om_synced_process_fill:
  assumes "om_inv s" "om_synced s" "process_fill s oid f now = Inr s'"
    and "\<And>r. get_order s oid = Some r \<Longrightarrow> is_active (fst (snd s) r)"
  shows "om_synced s'"
proof -
  obtain m h w where s: "s = (m, h, w)" by (cases s)
  from assms(3) [unfolded s] show ?thesis
  proof (cases rule: process_fill_InrE)
    case unknown
    with assms(2) s show ?thesis by simp
  next
    case (filled r x)
    have "is_active (h r)" using assms(4) filled(1) by (simp add: s get_order_def)
    with filled om_synced_heap_upd [OF assms(1,2) [unfolded s] filled(1)] show ?thesis by simp
  qed
qed

lemma om_inv_cancel: "om_inv s \<Longrightarrow> om_inv (snd (cancel_order s oid now))"
proof -
  obtain m h w where s: "s = (m, h, w)" by (cases s)
  assume "om_inv s"
  then show ?thesis unfolding s
    by (cases rule: cancel_orderE [of m h w oid now])
      (simp_all add: om_inv_heap_upd frame_simps)
qed

lemma om_synced_cancel: "om_inv s \<Longrightarrow> om_synced s \<Longrightarrow> om_synced (snd (cancel_order s oid now))"
proof -
  obtain m h w where s: "s = (m, h, w)" by (cases s)
  assume "om_inv s" "om_synced s"
  then show ?thesis unfolding s
    by (cases rule: cancel_orderE [of m h w oid now])
      (simp_all add: om_synced_heap_upd cancel_not_active)
qed

lemma cancel_each_inv:
  "om_inv s \<Longrightarrow> om_inv (snd (cancel_each s rs now))"
  "om_inv s \<Longrightarrow> om_synced s \<Longrightarrow> om_synced (snd (cancel_each s rs now))"
proof (induction rs arbitrary: s)
  case (Cons r rs)
  {
    case 1
    then show ?case
      using Cons.IH(1) [OF om_inv_cancel [OF 1, of "o_id (fst (snd s) r)" now]]
      by (simp add: split_beta Let_def)
  next
    case 2
    then show ?case
      using Cons.IH(2) [OF om_inv_cancel [OF 2(1)] om_synced_cancel [OF 2], of "o_id (fst (snd s) r)" now]
      by (simp add: split_beta Let_def)
  }
qed simp_all

subsection \<open>What the queries return\<close>

definition matches_symbol :: "order \<Rightarrow> symbol option \<Rightarrow> bool" where
  "matches_symbol x sy \<longleftrightarrow> (case sy of None \<Rightarrow> True | Some s \<Rightarrow> symbol_eq (o_symbol x) s)"

lemma in_get_active_orders:
  "r \<in> set (get_active_orders (m, h, w) sy) \<longleftrightarrow>
   (\<exists>oid \<in> set (om_active m). dget (om_orders m) oid = Some r \<and> matches_symbol (h r) sy)"
  by (auto simp: get_active_orders_def map_filter_def matches_symbol_def image_iff
      split: option.splits if_splits; force)

lemma get_active_orders_spec:
  assumes "om_inv s" "om_synced s"
  shows "set (get_active_orders s sy) =
    {r. \<exists>oid. get_order s oid = Some r \<and> is_active (fst (snd s) r) \<and> matches_symbol (fst (snd s) r) sy}"
proof -
  obtain m h w where s: "s = (m, h, w)" by (cases s)
  have "oid \<in> set (om_active m) \<longleftrightarrow> is_active (h r)" if "dget (om_orders m) oid = Some r" for oid r
    using assms(2) that by (simp add: s om_synced_def)
  then show ?thesis by (fastforce simp: s in_get_active_orders get_order_def)
qed

lemma distinct_get_active_orders:
  assumes "om_inv (m, h, w)"
  shows "distinct (get_active_orders (m, h, w) sy)"
proof -
  note D = om_invD [OF assms]
  have "inj_on (\<lambda>oid. the (dget (om_orders m) oid)) (set (om_active m))"
    by (rule inj_onI) (metis D(3,4) option.sel)
  moreover have "get_active_orders (m, h, w) sy =
    map (\<lambda>oid. the (dget (om_orders m) oid))
      (filter (\<lambda>oid. matches_symbol (h (the (dget (om_orders m) oid))) sy) (om_active m))"
    unfolding get_active_orders_def prod.case
    by (rule map_filter_cond) (use D(3) in \<open>force simp: matches_symbol_def split: option.splits\<close>)
  ultimately show ?thesis
    using D(2) by (simp add: distinct_map inj_on_subset)
qed

subsection \<open>Cancelling many orders\<close>

lemma cancel_active:
  assumes "om_inv (m, h, w)" "dget (om_orders m) oid = Some r" "is_active (h r)"
  shows "cancel_order (m, h, w) (o_id (h r)) now =
    (True, (m\<lparr>om_active := removeAll oid (om_active m)\<rparr>, h(r := cancel (h r) now),
            notify (om_on_cancel m) (cancel (h r) now) w))"
  using assms om_invD(4) [OF assms(1,2)] by (simp add: cancel_order_def)

lemma cancel_each_all:
  assumes "om_inv (m, h, w)" "distinct rs"
    and "\<And>r. r \<in> set rs \<Longrightarrow> dget (om_orders m) (o_id (h r)) = Some r \<and> is_active (h r)"
  shows "\<exists>m' h' w'. cancel_each (m, h, w) rs now = (length rs, (m', h', w')) \<and>
    om_orders m' = om_orders m \<and>
    set (om_active m') = set (om_active m) - o_id ` h ` set rs \<and>
    (\<forall>r. h' r = (if r \<in> set rs then cancel (h r) now else h r))"
  using assms
proof (induction rs arbitrary: m h w)
  case Nil
  then show ?case by simp
next
  case (Cons r rs)
  have r: "dget (om_orders m) (o_id (h r)) = Some r" "is_active (h r)" using Cons.prems(3) by auto
  define m1 where "m1 = m\<lparr>om_active := removeAll (o_id (h r)) (om_active m)\<rparr>"
  define h1 where "h1 = h(r := cancel (h r) now)"
  define w1 where "w1 = notify (om_on_cancel m) (cancel (h r) now) w"
  have step: "cancel_order (m, h, w) (o_id (h r)) now = (True, (m1, h1, w1))"
    using cancel_active [OF Cons.prems(1) r] by (simp add: m1_def h1_def w1_def)
  have inv1: "om_inv (m1, h1, w1)" using om_inv_cancel [OF Cons.prems(1), of "o_id (h r)" now] step by simp
  have same: "h1 x = h x" if "x \<in> set rs" for x using that Cons.prems(2) by (auto simp: h1_def)
  obtain m' h' w' where IH: "cancel_each (m1, h1, w1) rs now = (length rs, (m', h', w'))"
    "om_orders m' = om_orders m1" "set (om_active m') = set (om_active m1) - o_id ` h1 ` set rs"
    "\<forall>x. h' x = (if x \<in> set rs then cancel (h1 x) now else h1 x)"
    using Cons.IH [OF inv1] Cons.prems(2,3) same by (auto simp: m1_def)
  have "h1 ` set rs = h ` set rs" using same by (intro image_cong) auto
  then have "set (om_active m') = set (om_active m) - o_id ` h ` set (r # rs)"
    using IH(3) by (auto simp: m1_def)
  moreover have "\<forall>x. h' x = (if x \<in> set (r # rs) then cancel (h x) now else h x)"
    using IH(4) same Cons.prems(2) by (auto simp: h1_def)
  ultimately show ?case using IH(1,2) step by (simp add: m1_def)
qed

lemma cancel_all_orders_spec:
  assumes "om_inv (m, h, w)" "om_synced (m, h, w)"
  shows "\<exists>m' h' w'. cancel_all_orders (m, h, w) sy now =
      (length (get_active_orders (m, h, w) sy), (m', h', w')) \<and> om_orders m' = om_orders m \<and>
    (\<forall>r. h' r = (if r \<in> set (get_active_orders (m, h, w) sy) then cancel (h r) now else h r))"
proof -
  have "dget (om_orders m) (o_id (h r)) = Some r \<and> is_active (h r)"
    if "r \<in> set (get_active_orders (m, h, w) sy)" for r
    using that om_invD(4) [OF assms(1)] get_active_orders_spec [OF assms, of sy]
    by (auto simp: get_order_def)
  from cancel_each_all [OF assms(1) distinct_get_active_orders [OF assms(1)] this]
  show ?thesis unfolding cancel_all_orders_def by blast
qed

subsection \<open>Runs of the manager\<close>

text \<open>
  The operations a client calls. A fill whose processing raises leaves the state as it
  was. Registering needs an order that is still active, as \<open>Order(...)\<close> makes it, and a
  fill one that has not ended; the client controls both.
\<close>

datatype om_op = Register oref | Fill_Order string fill time | Cancel string time | Cancel_All "symbol option" time

fun om_step :: "'w om_state \<Rightarrow> om_op \<Rightarrow> 'w om_state" where
  "om_step s (Register r) = register_order s r"
| "om_step s (Fill_Order oid f now) = (case process_fill s oid f now of Inl e \<Rightarrow> s | Inr s' \<Rightarrow> s')"
| "om_step s (Cancel oid now) = snd (cancel_order s oid now)"
| "om_step s (Cancel_All sy now) = snd (cancel_all_orders s sy now)"

fun om_guard :: "'w om_state \<Rightarrow> om_op \<Rightarrow> bool" where
  "om_guard s (Register r) = is_active (fst (snd s) r)"
| "om_guard s (Fill_Order oid f now) =
     (case get_order s oid of None \<Rightarrow> True | Some r \<Rightarrow> is_active (fst (snd s) r))"
| "om_guard s _ = True"

interpretation omr: run_system om_step om_guard "\<lambda>s. om_inv s \<and> om_synced s"
proof unfold_locales
  fix s :: "'w om_state" and x
  assume "om_inv s \<and> om_synced s" "om_guard s x"
  then show "om_inv (om_step s x) \<and> om_synced (om_step s x)"
    by (cases x)
      (auto simp: om_inv_register om_synced_register om_inv_cancel om_synced_cancel cancel_each_inv
        cancel_all_orders_def split: sum.splits option.splits
        intro: om_inv_process_fill om_synced_process_fill)
qed

section \<open>Properties of the order manager\<close>

definition om_fresh :: "'w order_manager \<Rightarrow> bool" where
  "om_fresh m \<longleftrightarrow> om_orders m = [] \<and> om_by_symbol m = [] \<and> om_active m = []"

lemma om_fresh_run:
  assumes "om_fresh m" "guarded_run om_step om_guard (m, h, w) xs"
  shows "om_inv (run_ops om_step (m, h, w) xs)" "om_synced (run_ops om_step (m, h, w) xs)"
  using omr.run_inv [OF _ assms(2)] assms(1) by (auto simp: om_fresh_def om_inv_def om_synced_def)



text \<open>After any such run, cancel_all_orders cancels exactly the active orders of the
  symbol, reports their number, leaves every other order object as it was, and no order of
  that symbol is active any more.\<close>

theorem cancel_all_exact:
  assumes "om_fresh m" "guarded_run om_step om_guard (m, h, w) xs"
    and "run_ops om_step (m, h, w) xs = (m1, h1, w1)"
    and "cancel_all_orders (m1, h1, w1) sy now = (n, (m2, h2, w2))"
  shows "n = card {r. \<exists>oid. get_order (m1, h1, w1) oid = Some r \<and> is_active (h1 r) \<and> matches_symbol (h1 r) sy} \<and>
    (\<forall>r. h2 r = (if \<exists>oid. get_order (m1, h1, w1) oid = Some r \<and> is_active (h1 r) \<and> matches_symbol (h1 r) sy
                 then cancel (h1 r) now else h1 r)) \<and>
    get_active_orders (m2, h2, w2) sy = []"
proof -
  note inv = om_fresh_run [OF assms(1,2), unfolded assms(3)]
  note act = get_active_orders_spec [OF inv, of sy]
  from cancel_all_orders_spec [OF inv, of sy now] assms(4)
  have c: "n = length (get_active_orders (m1, h1, w1) sy)" "om_orders m2 = om_orders m1"
    "\<forall>r. h2 r = (if r \<in> set (get_active_orders (m1, h1, w1) sy) then cancel (h1 r) now else h1 r)" by auto
  have "om_inv (m2, h2, w2)" "om_synced (m2, h2, w2)"
    using cancel_each_inv [where s = "(m1, h1, w1)" and now = now] inv assms(4) unfolding cancel_all_orders_def
    by (metis snd_conv)+
  note act2 = get_active_orders_spec [OF this, of sy]
  have "set (get_active_orders (m2, h2, w2) sy) = {}"
    using c(2,3) unfolding act2 act
    by (auto simp: get_order_def cancel_not_active split: if_splits)
  with c act distinct_card [OF distinct_get_active_orders [OF inv(1)], of sy] show ?thesis by auto
qed

theorem cancel_all_exact_witness:
  "\<exists>m2 h2 w2. cancel_all_orders (run_ops om_step (empty_manager, (\<lambda>r. new_order sample_symbol BUY (Dec 5) MARKET None None DAY (nat_str r) None None 0), ())
      [Register 1]) None 9 = (1, (m2, h2, w2)) \<and> get_active_orders (m2, h2, w2) None = []"
proof -
  let ?h = "\<lambda>r. new_order sample_symbol BUY (Dec 5) MARKET None None DAY (nat_str r) None None 0"
  let ?s = "(empty_manager, ?h, ()) :: unit om_state" and ?xs = "[Register 1]"
  have i: "o_id (?h r) = nat_str r" "o_symbol (?h r) = sample_symbol" for r by (simp_all add: new_order_def)
  have g: "guarded_run om_step om_guard ?s ?xs" by (simp add: new_order_active)
  obtain m1 h1 w1 where r: "run_ops om_step ?s ?xs = (m1, h1, w1)" by (cases "run_ops om_step ?s ?xs")
  then have e: "om_orders m1 = [(nat_str 1, 1)]" "h1 = ?h"
    by (auto simp: register_order_def empty_manager_def Let_def i)
  obtain n m2 h2 w2 where c: "cancel_all_orders (m1, h1, w1) None 9 = (n, (m2, h2, w2))"
    by (cases "cancel_all_orders (m1, h1, w1) None 9") auto
  have "{r. \<exists>oid. get_order (m1, h1, w1) oid = Some r \<and> is_active (h1 r) \<and> matches_symbol (h1 r) None} = {1}"
    by (auto simp: e get_order_def new_order_active matches_symbol_def split: if_splits)
  with cancel_all_exact [OF _ g r c] c r show ?thesis by (auto simp: om_fresh_def empty_manager_def)
qed

end
