(* ===== verification/Position_Manager.thy ===== *)
theory Position_Manager
  imports Trading_Models
begin

section \<open>Position management (\<open>src/trading/position_manager.py\<close>)\<close>

text \<open>
  Positions by symbol, and the list of completed trades. The dictionary is keyed by
  what \<open>Symbol.__eq__\<close> compares.
\<close>

record position_manager =
  pm_positions :: "(skey, position) dict"
  pm_trades :: "trade list"
  pm_counter :: nat

definition empty_pm :: position_manager where
  "empty_pm = \<lparr>pm_positions = [], pm_trades = [], pm_counter = 0\<rparr>"

definition pm_get_position :: "position_manager \<Rightarrow> symbol \<Rightarrow> position option" where
  "pm_get_position m s = dget (pm_positions m) (symbol_key s)"

definition get_all_positions :: "position_manager \<Rightarrow> position list" where
  "get_all_positions m = filter (\<lambda>p. 0 < p_quantity p) (dvals (pm_positions m))"

definition get_long_positions :: "position_manager \<Rightarrow> position list" where
  "get_long_positions m = filter is_long (dvals (pm_positions m))"

definition get_short_positions :: "position_manager \<Rightarrow> position list" where
  "get_short_positions m = filter is_short (dvals (pm_positions m))"

definition pm_update_price :: "position_manager \<Rightarrow> symbol \<Rightarrow> dec \<Rightarrow> time \<Rightarrow> position_manager" where
  "pm_update_price m s price now =
     (case pm_get_position m s of
        None \<Rightarrow> m
      | Some p \<Rightarrow> m\<lparr>pm_positions := dset (pm_positions m) (symbol_key s) (update_price p price now)\<rparr>)"

definition calculate_realized_pnl :: "position \<Rightarrow> fill \<Rightarrow> dec" where
  "calculate_realized_pnl p f =
     (case p_avg_entry p of
        None \<Rightarrow> 0
      | Some a \<Rightarrow>
          if is_long p then f_quantity f * (f_price f - a) else f_quantity f * (a - f_price f))"

definition is_reducing :: "position \<Rightarrow> fill \<Rightarrow> bool" where
  "is_reducing p f \<longleftrightarrow>
     0 < p_quantity p \<and> f_side f \<noteq> (if is_long p then BUY else SELL)"

text \<open>The trade record of a reducing fill. A zero average price counts as absent.\<close>

definition closing_trade :: "nat \<Rightarrow> position \<Rightarrow> fill \<Rightarrow> trade" where
  "closing_trade n p f =
     \<lparr>tr_id = ''TRADE_'' @ nat_str n, tr_symbol = f_symbol f,
      tr_entry_time = (case p_opened_at p of None \<Rightarrow> f_time f | Some t \<Rightarrow> t),
      tr_exit_time = f_time f, tr_side = p_side p, tr_quantity = f_quantity f,
      tr_entry_price = (case p_avg_entry p of None \<Rightarrow> f_price f
                        | Some a \<Rightarrow> if a = 0 then f_price f else a),
      tr_exit_price = f_price f, tr_realized = calculate_realized_pnl p f,
      tr_commission = f_commission f, tr_slippage = f_slippage f,
      tr_exit_order_id = Some (f_order_id f)\<rparr>"

definition pm_process_fill :: "position_manager \<Rightarrow> fill \<Rightarrow> exn + trade option \<times> position_manager" where
  "pm_process_fill m f =
     (let k = symbol_key (f_symbol f);
          p = (case dget (pm_positions m) k of
                 None \<Rightarrow> new_position (f_symbol f) (f_side f) | Some p \<Rightarrow> p)
      in if is_reducing p f
         then (let n = pm_counter m + 1;
                   t = closing_trade n p f;
                   p1 = reduce_position p (f_quantity f) (f_price f) (f_time f);
                   ps = (if p_quantity p1 \<le> 0 then ddel (pm_positions m) k
                         else dset (pm_positions m) k p1)
               in Inr (Some t, m\<lparr>pm_positions := ps, pm_trades := pm_trades m @ [t], pm_counter := n\<rparr>))
         else and_then (add_fill p f)
                (\<lambda>p1. Inr (None, m\<lparr>pm_positions := dset (pm_positions m) k p1\<rparr>)))"

definition get_total_exposure :: "position_manager \<Rightarrow> dec" where
  "get_total_exposure m =
     dec_sum (map (\<lambda>p. \<bar>market_value p\<bar>) (filter (\<lambda>p. p_current p \<noteq> None) (dvals (pm_positions m))))"

definition pm_get_unrealized_pnl :: "position_manager \<Rightarrow> dec" where
  "pm_get_unrealized_pnl m = dec_sum (map unrealized_pnl (dvals (pm_positions m)))"

definition pm_get_realized_pnl :: "position_manager \<Rightarrow> dec" where
  "pm_get_realized_pnl m = dec_sum (map net_pnl (pm_trades m))"

definition get_trades :: "position_manager \<Rightarrow> symbol option \<Rightarrow> trade list" where
  "get_trades m s =
     (case s of None \<Rightarrow> pm_trades m
      | Some s' \<Rightarrow> filter (\<lambda>t. symbol_eq (tr_symbol t) s') (pm_trades m))"

record position_summary =
  ps_total_positions :: nat
  ps_long_positions :: nat
  ps_short_positions :: nat
  ps_total_exposure :: flt
  ps_unrealized_pnl :: flt
  ps_realized_pnl :: flt
  ps_total_trades :: nat

definition get_position_summary :: "position_manager \<Rightarrow> position_summary" where
  "get_position_summary m =
     (let ps = get_all_positions m in
      \<lparr>ps_total_positions = length ps, ps_long_positions = length (filter is_long ps),
       ps_short_positions = length (filter is_short ps),
       ps_total_exposure = flt_of_dec (get_total_exposure m),
       ps_unrealized_pnl = flt_of_dec (pm_get_unrealized_pnl m),
       ps_realized_pnl = flt_of_dec (pm_get_realized_pnl m),
       ps_total_trades = length (pm_trades m)\<rparr>)"

section \<open>Invariant: what is held is positive and has a price\<close>

definition open_position :: "position \<Rightarrow> bool" where
  "open_position p \<longleftrightarrow> 0 < dval (p_quantity p) \<and> p_avg_entry p \<noteq> None"

definition pm_inv :: "position_manager \<Rightarrow> bool" where
  "pm_inv m \<longleftrightarrow>
     dict_ok (pm_positions m) \<and> length (pm_trades m) = pm_counter m \<and>
     (\<forall>k p. dget (pm_positions m) k = Some p \<longrightarrow> open_position p \<and> symbol_key (p_symbol p) = k)"

lemma pm_inv_empty: "pm_inv empty_pm"
  by (simp add: pm_inv_def empty_pm_def)

lemma pm_invD: "pm_inv m \<Longrightarrow> dget (pm_positions m) k = Some p \<Longrightarrow> open_position p \<and> symbol_key (p_symbol p) = k"
  unfolding pm_inv_def by blast

lemma new_position_not_reducing [simp]: "\<not> is_reducing (new_position sy sd) f"
  by (simp add: is_reducing_def new_position_def)

lemma is_reducing_open: "open_position p \<Longrightarrow> is_reducing p f \<longleftrightarrow> f_side f \<noteq> p_side p"
  by (cases "p_side p"; cases "f_side f") (auto simp: is_reducing_def open_position_def is_long_def dec_less_iff)

text \<open>The three things a fill can do: open, add to, or reduce a position.\<close>

lemma pm_process_fill_cases:
  assumes "pm_inv m"
  obtains
    (opened) p where "dget (pm_positions m) (symbol_key (f_symbol f)) = None"
      "add_fill (new_position (f_symbol f) (f_side f)) f = Inr p"
      "pm_process_fill m f =
         Inr (None, m\<lparr>pm_positions := dset (pm_positions m) (symbol_key (f_symbol f)) p\<rparr>)"
  | (increased) p where "dget (pm_positions m) (symbol_key (f_symbol f)) = Some p"
      "f_side f = p_side p"
      "pm_process_fill m f = and_then (add_fill p f)
         (\<lambda>p1. Inr (None, m\<lparr>pm_positions := dset (pm_positions m) (symbol_key (f_symbol f)) p1\<rparr>))"
  | (reduced) p p1 where "dget (pm_positions m) (symbol_key (f_symbol f)) = Some p"
      "f_side f \<noteq> p_side p" "p1 = reduce_position p (f_quantity f) (f_price f) (f_time f)"
      "pm_process_fill m f =
         Inr (Some (closing_trade (pm_counter m + 1) p f),
           m\<lparr>pm_positions := (if p_quantity p1 \<le> 0 then ddel (pm_positions m) (symbol_key (f_symbol f))
                               else dset (pm_positions m) (symbol_key (f_symbol f)) p1),
             pm_trades := pm_trades m @ [closing_trade (pm_counter m + 1) p f],
             pm_counter := pm_counter m + 1\<rparr>)"
proof (cases "dget (pm_positions m) (symbol_key (f_symbol f))")
  case None
  obtain p where "add_fill (new_position (f_symbol f) (f_side f)) f = Inr p"
    using add_fill_first by (metis new_position_def position.select_convs(4))
  with None show thesis by (intro opened) (simp_all add: pm_process_fill_def)
next
  case (Some p)
  then have "open_position p" using pm_invD [OF assms] by blast
  with Some show thesis
    using increased [of p] reduced [of p]
    by (cases "f_side f = p_side p") (simp_all add: pm_process_fill_def is_reducing_open Let_def)
qed

lemma open_add_fill:
  assumes "add_fill p f = Inr p1" "0 \<le> dval (p_quantity p)" "0 < dval (f_quantity f)"
  shows "open_position p1"
  using assms add_fill_quantity [OF assms(1)] add_fill_frame [OF assms(1)]
  by (auto simp: open_position_def intro!: dr.r_pos)

lemma add_fill_open_succeeds:
  assumes "open_position p" "0 < dval (f_quantity f)"
  shows "\<exists>p1. add_fill p f = Inr p1"
proof -
  have "dec_rnd (dval (p_quantity p) + dval (f_quantity f)) \<noteq> 0"
    using assms by (simp add: dr.r_eq_0_iff open_position_def)
  with assms show ?thesis
    by (auto simp: add_fill_def open_position_def weighted_avg_def dec_div_def)
qed

theorem pm_process_fill_total:
  assumes "pm_inv m" "0 < dval (f_quantity f)"
  shows "\<exists>t m'. pm_process_fill m f = Inr (t, m') \<and> pm_inv m'"
  using assms(1)
proof (cases rule: pm_process_fill_cases [where f = f])
  case (opened p)
  have "open_position p"
    using assms(2) by (intro open_add_fill [OF opened(2)]) (simp_all add: new_position_def)
  with opened add_fill_frame [OF opened(2)] assms(1) show ?thesis
    by (auto simp: pm_inv_def new_position_def)
next
  case (increased p)
  have p: "open_position p" "symbol_key (p_symbol p) = symbol_key (f_symbol f)"
    using pm_invD [OF assms(1) increased(1)] by auto
  then obtain p1 where p1: "add_fill p f = Inr p1" using add_fill_open_succeeds assms(2) by blast
  have "open_position p1"
    using p(1) assms(2) by (intro open_add_fill [OF p1]) (simp_all add: open_position_def)
  with increased p p1 add_fill_frame [OF p1] assms(1) show ?thesis
    by (auto simp: pm_inv_def)
next
  case (reduced p p1)
  have p: "open_position p" "symbol_key (p_symbol p) = symbol_key (f_symbol f)"
    using pm_invD [OF assms(1) reduced(1)] by auto
  then have "0 < p_quantity p1 \<Longrightarrow> open_position p1" "symbol_key (p_symbol p1) = symbol_key (f_symbol f)"
    by (simp_all add: reduced(3) open_position_def dec_less_iff frame_simps)
  with reduced(4) assms(1) show ?thesis
    by (auto simp: pm_inv_def not_le)
qed

section \<open>Refinement: net quantities\<close>

text \<open>
  The abstract state of a symbol is its net quantity: positive for a long position,
  negative for a short one. A fill on the same side adds to it, a fill on the other side
  takes from it, and one that reaches or passes zero leaves the symbol flat: the
  quantity beyond the position is dropped.
\<close>

definition signed_quantity :: "order_side \<Rightarrow> dec \<Rightarrow> rat" where
  "signed_quantity sd q = (if sd = BUY then dval q else - dval q)"

definition net_quantity :: "position_manager \<Rightarrow> skey \<Rightarrow> rat" where
  "net_quantity m k =
     (case dget (pm_positions m) k of None \<Rightarrow> 0 | Some p \<Rightarrow> signed_quantity (p_side p) (p_quantity p))"

definition net_fill :: "rat \<Rightarrow> rat \<Rightarrow> rat" where
  "net_fill net s = (if net * s < 0 \<and> \<bar>net\<bar> \<le> \<bar>s\<bar> then 0 else net + s)"

lemma signed_quantity_simps [simp]:
  "signed_quantity BUY q = dval q" "signed_quantity SELL q = - dval q"
  by (simp_all add: signed_quantity_def)

lemma net_fill_same: "0 \<le> dval a \<Longrightarrow> 0 \<le> dval b \<Longrightarrow>
  net_fill (signed_quantity sd a) (signed_quantity sd b) = signed_quantity sd a + signed_quantity sd b"
  by (cases sd) (auto simp: net_fill_def mult_less_0_iff)

lemma net_fill_opposite:
  assumes "0 < dval a" "0 < dval b" "s1 \<noteq> s2"
  shows "net_fill (signed_quantity s1 a) (signed_quantity s2 b) =
    (if a \<le> b then 0 else signed_quantity s1 a + signed_quantity s2 b)"
  using assms by (cases s1; cases s2) (auto simp: net_fill_def mult_less_0_iff dec_le_iff)

lemma pm_process_fill_refines:
  assumes "pm_inv m" "0 < dval (f_quantity f)" "pm_process_fill m f = Inr (t, m')"
    and "lot k (f_quantity f)"
    and "\<And>p. dget (pm_positions m) (symbol_key (f_symbol f)) = Some p \<Longrightarrow> lot k (p_quantity p)"
  shows "net_quantity m' (symbol_key (f_symbol f)) =
           net_fill (net_quantity m (symbol_key (f_symbol f))) (signed_quantity (f_side f) (f_quantity f))"
    and "s \<noteq> symbol_key (f_symbol f) \<Longrightarrow> net_quantity m' s = net_quantity m s"
proof -
  let ?k = "symbol_key (f_symbol f)"
  have "net_quantity m' ?k = net_fill (net_quantity m ?k) (signed_quantity (f_side f) (f_quantity f)) \<and>
    (s \<noteq> ?k \<longrightarrow> net_quantity m' s = net_quantity m s)"
    using assms(1)
  proof (cases rule: pm_process_fill_cases [where f = f])
    case (opened p)
    have z: "lot k 0" by (simp add: lot_def)
    have "p_quantity p = 0 + f_quantity f" "p_side p = f_side f"
      using add_fill_quantity [OF opened(2)] add_fill_frame [OF opened(2)] by (simp_all add: new_position_def)
    then have "signed_quantity (p_side p) (p_quantity p) = signed_quantity (f_side f) (f_quantity f)"
      using lot_add_exact [OF z assms(4)] by (simp add: signed_quantity_def)
    with opened assms(3) show ?thesis by (auto simp: net_quantity_def net_fill_def)
  next
    case (increased p)
    have "and_then (add_fill p f) (\<lambda>p1. Inr (None, m\<lparr>pm_positions := dset (pm_positions m) ?k p1\<rparr>)) =
        Inr (t, m')"
      using increased(3) assms(3) by simp
    then obtain p1 where p1: "add_fill p f = Inr p1"
      "m' = m\<lparr>pm_positions := dset (pm_positions m) ?k p1\<rparr>" by (auto simp: and_then_Inr_iff)
    have "0 \<le> dval (p_quantity p)" using pm_invD [OF assms(1) increased(1)] by (simp add: open_position_def)
    with increased(1,2) p1 add_fill_quantity [OF p1(1)] add_fill_frame [OF p1(1)] assms(2)
      lot_add_exact [OF assms(5) [OF increased(1)] assms(4)] net_fill_same [of "p_quantity p" "f_quantity f" "p_side p"]
    show ?thesis by (cases "p_side p") (simp_all add: net_quantity_def)
  next
    case (reduced p p1)
    have p: "0 < dval (p_quantity p)" using pm_invD [OF assms(1) reduced(1)] by (simp add: open_position_def)
    have q1: "dval (p_quantity p1) = dval (p_quantity p) - dval (min (p_quantity p) (f_quantity f))"
      using lot_minus_exact [OF assms(5) [OF reduced(1)], of "min (p_quantity p) (f_quantity f)"]
        assms(4) assms(5) [OF reduced(1)]
      by (simp add: reduced(3) reduce_position_quantity min_def)
    then have gone: "p_quantity p1 \<le> 0 \<longleftrightarrow> p_quantity p \<le> f_quantity f"
      by (auto simp: dec_le_iff min_def)
    have "m' = m\<lparr>pm_positions := (if p_quantity p1 \<le> 0 then ddel (pm_positions m) ?k
                                  else dset (pm_positions m) ?k p1),
                 pm_trades := pm_trades m @ [closing_trade (pm_counter m + 1) p f],
                 pm_counter := pm_counter m + 1\<rparr>"
      using reduced(4) assms(3) by simp
    moreover have "\<not> p_quantity p \<le> f_quantity f \<Longrightarrow>
        signed_quantity (p_side p1) (p_quantity p1) =
        signed_quantity (p_side p) (p_quantity p) + signed_quantity (f_side f) (f_quantity f)"
      using q1 reduced(2,3) by (cases "p_side p"; cases "f_side f") (auto simp: frame_simps min_def)
    ultimately show ?thesis
      using reduced(1) gone net_fill_opposite [OF p assms(2) reduced(2) [symmetric]]
      by (auto simp: net_quantity_def)
  qed
  then show "net_quantity m' ?k = net_fill (net_quantity m ?k) (signed_quantity (f_side f) (f_quantity f))"
    and "s \<noteq> ?k \<Longrightarrow> net_quantity m' s = net_quantity m s" by blast+
qed

section \<open>Runs of fills\<close>

definition pm_step :: "position_manager \<Rightarrow> fill \<Rightarrow> position_manager" where
  "pm_step m f = (case pm_process_fill m f of Inl e \<Rightarrow> m | Inr (t, m') \<Rightarrow> m')"

interpretation pmr: counting_system pm_step "\<lambda>(m :: position_manager) (f :: fill). 0 < dval (f_quantity f)" pm_inv "\<lambda>m. length (pm_trades m)"
proof unfold_locales
  fix m :: position_manager and f :: fill
  assume a: "pm_inv m" "0 < dval (f_quantity f)"
  then obtain t m' where r: "pm_process_fill m f = Inr (t, m')" "pm_inv m'" using pm_process_fill_total by blast
  then show "pm_inv (pm_step m f)" by (simp add: pm_step_def)
  from a(1) have "length (pm_trades m) \<le> length (pm_trades m')"
    by (cases rule: pm_process_fill_cases [where f = f]) (use r(1) in \<open>auto simp: Inr_and_then_iff\<close>)
  with r show "length (pm_trades m) \<le> length (pm_trades (pm_step m f))" by (simp add: pm_step_def)
qed

section \<open>Properties of the position manager\<close>

text \<open>The net quantities of all symbols are on a grid and bounded.\<close>

definition net_bounded :: "nat \<Rightarrow> rat \<Rightarrow> position_manager \<Rightarrow> bool" where
  "net_bounded g T m \<longleftrightarrow> (\<forall>k. on_grid g (net_quantity m k) \<and> \<bar>net_quantity m k\<bar> \<le> T)"

lemma net_quantity_open:
  assumes "pm_inv m" "dget (pm_positions m) k = Some p"
  shows "\<bar>net_quantity m k\<bar> = dval (p_quantity p)"
  using pm_invD [OF assms] assms(2) by (cases "p_side p") (simp_all add: net_quantity_def open_position_def)

lemma net_bounded_lot:
  assumes "pm_inv m" "net_bounded g T m" "T * 10 ^ g * 2 < 10 ^ 28" "dget (pm_positions m) k = Some p"
  shows "lot g (p_quantity p)"
proof -
  note q = net_quantity_open [OF assms(1,4)]
  have g: "on_grid g (net_quantity m k)" and b: "\<bar>net_quantity m k\<bar> \<le> T" using assms(2) by (simp_all add: net_bounded_def del: split_paired_All)
  have "on_grid g (dval (p_quantity p))"
    using g on_grid_minus [OF g] unfolding q [symmetric] by (auto simp: abs_if)
  moreover have "\<bar>dval (p_quantity p)\<bar> * 10 ^ g * 2 \<le> T * 10 ^ g * 2"
    unfolding q [symmetric] using b by (intro mult_right_mono) auto
  ultimately show ?thesis using assms(3) unfolding lot_def by linarith
qed

lemma net_step:
  assumes "pm_inv m" "net_bounded g T m" "T * 10 ^ g * 2 < 10 ^ 28" "lot g (f_quantity f)" "0 < dval (f_quantity f)"
  shows "net_quantity (pm_step m f) s =
      (if symbol_key (f_symbol f) = s then net_fill (net_quantity m s) (signed_quantity (f_side f) (f_quantity f))
       else net_quantity m s)"
    "net_bounded g (T + dval (f_quantity f)) (pm_step m f)"
proof -
  obtain t m' where r: "pm_process_fill m f = Inr (t, m')" using pm_process_fill_total [OF assms(1,5)] by blast
  note ref = pm_process_fill_refines [OF assms(1,5) r assms(4) net_bounded_lot [OF assms(1,2,3)]]
  then show n: "net_quantity (pm_step m f) s =
      (if symbol_key (f_symbol f) = s then net_fill (net_quantity m s) (signed_quantity (f_side f) (f_quantity f))
       else net_quantity m s)" for s
    by (auto simp: pm_step_def r)
  have q: "on_grid g (signed_quantity (f_side f) (f_quantity f))"
    "\<bar>signed_quantity (f_side f) (f_quantity f)\<bar> = dval (f_quantity f)"
    using assms(4,5) on_grid_minus by (auto simp: signed_quantity_def lot_def)
  have nf: "on_grid g (net_fill x y)" "\<bar>net_fill x y\<bar> \<le> \<bar>x\<bar> + \<bar>y\<bar>" if "on_grid g x" "on_grid g y" for x y
    using that by (auto simp: net_fill_def on_grid_add)
  show "net_bounded g (T + dval (f_quantity f)) (pm_step m f)"
    unfolding net_bounded_def
  proof (intro allI)
    fix k
    have b: "on_grid g (net_quantity m k)" "\<bar>net_quantity m k\<bar> \<le> T"
      using assms(2) by (simp_all add: net_bounded_def del: split_paired_All)
    from nf [OF b(1) q(1)] b q(2) assms(5)
    show "on_grid g (net_quantity (pm_step m f) k) \<and> \<bar>net_quantity (pm_step m f) k\<bar> \<le> T + dval (f_quantity f)"
      unfolding n by auto
  qed
qed

lemma net_run:
  assumes "pm_inv m" "net_bounded g T m" "0 \<le> T"
    "\<forall>f \<in> set fs. on_grid g (dval (f_quantity f)) \<and> 0 < dval (f_quantity f)"
    "(T + sum_list (map (\<lambda>f. dval (f_quantity f)) fs)) * 10 ^ g * 2 < 10 ^ 28"
  shows "net_quantity (run_ops pm_step m fs) s =
    foldl net_fill (net_quantity m s)
      (map (\<lambda>f. signed_quantity (f_side f) (f_quantity f)) (filter (\<lambda>f. symbol_key (f_symbol f) = s) fs))"
  using assms
proof (induction fs arbitrary: m T)
  case (Cons f fs)
  let ?R = "sum_list (map (\<lambda>f. dval (f_quantity f)) fs)"
  have f: "on_grid g (dval (f_quantity f))" "0 < dval (f_quantity f)" using Cons.prems(4) by auto
  have R: "0 \<le> ?R" by (rule sum_list_nonneg) (use Cons.prems(4) in \<open>auto intro: less_imp_le\<close>)
  have small: "z * 10 ^ g * 2 < 10 ^ 28" if "z \<le> T + dval (f_quantity f) + ?R" for z
  proof -
    have "z * 10 ^ g * 2 \<le> (T + sum_list (map (\<lambda>f. dval (f_quantity f)) (f # fs))) * 10 ^ g * 2"
      using that by (intro mult_right_mono) auto
    then show ?thesis using Cons.prems(5) by (rule le_less_trans)
  qed
  have T: "T * 10 ^ g * 2 < 10 ^ 28" by (rule small) (use f R in simp)
  have "dval (f_quantity f) * 10 ^ g * 2 < 10 ^ 28" by (rule small) (use R Cons.prems(3) in simp)
  with f have l: "lot g (f_quantity f)" unfolding lot_def by linarith
  note step = net_step [OF Cons.prems(1,2) T l f(2)]
  have "pm_inv (pm_step m f)" using pmr.step_inv Cons.prems(1) f(2) by blast
  with Cons.IH [OF this step(2)] step(1) Cons.prems f small R show ?case by (simp add: add.assoc)
qed simp

text \<open>C7. The open positions are the netting of the fills: from an empty manager, after any
  run of fills with positive quantities on the lot grid, the signed quantity held in each
  symbol is the fold of that symbol's fills, where a fill against a position of at most its
  size closes it, and every stored position is open.\<close>

theorem positions_net_fills:
  assumes "\<forall>f \<in> set fs. on_grid g (dval (f_quantity f)) \<and> 0 < dval (f_quantity f)"
    "sum_list (map (\<lambda>f. dval (f_quantity f)) fs) * 10 ^ g * 2 < 10 ^ 28"
  shows "net_quantity (run_ops pm_step empty_pm fs) s =
      foldl net_fill 0
        (map (\<lambda>f. signed_quantity (f_side f) (f_quantity f)) (filter (\<lambda>f. symbol_key (f_symbol f) = s) fs)) \<and>
    (\<forall>p \<in> set (dvals (pm_positions (run_ops pm_step empty_pm fs))). open_position p)"
proof -
  have "net_quantity empty_pm s = 0" for s by (simp add: net_quantity_def empty_pm_def)
  moreover have "guarded_run pm_step (\<lambda>m f. 0 < dval (f_quantity f)) m fs" for m
    using assms(1) by (induction fs arbitrary: m) auto
  then have "pm_inv (run_ops pm_step empty_pm fs)" using pmr.run_inv pm_inv_empty by blast
  then have "\<forall>p \<in> set (dvals (pm_positions (run_ops pm_step empty_pm fs))). open_position p"
    unfolding pm_inv_def using in_dvals_dget by metis
  ultimately show ?thesis using net_run [OF pm_inv_empty, of g 0 fs s] assms by (simp add: net_bounded_def)
qed

definition sample_fill :: "order_side \<Rightarrow> rat \<Rightarrow> fill" where
  "sample_fill sd q = \<lparr>f_order_id = ''A'', f_symbol = \<lparr>ticker = ''X'', security_type = ''equity'', exchange = [],
      currency = ''USD'', sector = []\<rparr>, f_side = sd, f_quantity = Dec q, f_price = Dec 5, f_time = 1,
      f_id = ''F'', f_commission = 0, f_slippage = 0\<rparr>"

theorem positions_net_fills_witness:
  "net_quantity (run_ops pm_step empty_pm [sample_fill BUY 10, sample_fill SELL 4, sample_fill SELL 9, sample_fill SELL 2])
     (''X'', ''equity'', []) = - 2"
proof -
  have "on_grid 0 (numeral n)" for n using on_grid_of_int [of 0 "numeral n"] by simp
  then show ?thesis
    by (subst positions_net_fills [where g = 0, THEN conjunct1])
      (simp_all add: sample_fill_def symbol_key_def net_fill_def)
qed

end
