(* ===== verification/Event_Bus.thy ===== *)
theory Event_Bus
  imports Market_Data
begin

section \<open>The event bus (\<open>src/engine/events.py\<close>)\<close>

text \<open>
  Handlers are compared by identity, so a handler is a number \<open>hid\<close>; what it does to the
  world is an argument of \<open>emit\<close>. An exception of a handler is caught and logged. A
  handler that subscribes or unsubscribes while an event is being emitted is not
  modelled. Asynchronous handlers are not run by \<open>emit\<close>: it creates a task for each.
\<close>

datatype event_type =
    TICK | BAR | TRADE | QUOTE
  | ORDER_SUBMITTED | ORDER_FILLED | ORDER_CANCELLED | ORDER_REJECTED | ORDER_UPDATED
  | POSITION_OPENED | POSITION_CLOSED | POSITION_UPDATED
  | PORTFOLIO_CHANGED | CASH_CHANGED
  | START | STOP_EVENT | PAUSE | RESUME | WARMUP_STARTED | WARMUP_FINISHED
  | MARKET_OPEN | MARKET_CLOSE | END_OF_DAY
  | CUSTOM | SIGNAL | ALERT
  | WEBSOCKET_MESSAGE | WEBSOCKET_ERROR | WEBSOCKET_CONNECTED | WEBSOCKET_DISCONNECTED

text \<open>Attribute access on the enumeration by name; an unknown name raises.\<close>

definition event_type_members :: "(string \<times> event_type) list" where
  "event_type_members =
     [(''TICK'', TICK), (''BAR'', BAR), (''TRADE'', TRADE), (''QUOTE'', QUOTE),
      (''ORDER_SUBMITTED'', ORDER_SUBMITTED), (''ORDER_FILLED'', ORDER_FILLED),
      (''ORDER_CANCELLED'', ORDER_CANCELLED), (''ORDER_REJECTED'', ORDER_REJECTED),
      (''ORDER_UPDATED'', ORDER_UPDATED),
      (''POSITION_OPENED'', POSITION_OPENED), (''POSITION_CLOSED'', POSITION_CLOSED),
      (''POSITION_UPDATED'', POSITION_UPDATED),
      (''PORTFOLIO_CHANGED'', PORTFOLIO_CHANGED), (''CASH_CHANGED'', CASH_CHANGED),
      (''START'', START), (''STOP'', STOP_EVENT), (''PAUSE'', PAUSE), (''RESUME'', RESUME),
      (''WARMUP_STARTED'', WARMUP_STARTED), (''WARMUP_FINISHED'', WARMUP_FINISHED),
      (''MARKET_OPEN'', MARKET_OPEN), (''MARKET_CLOSE'', MARKET_CLOSE),
      (''END_OF_DAY'', END_OF_DAY),
      (''CUSTOM'', CUSTOM), (''SIGNAL'', SIGNAL), (''ALERT'', ALERT),
      (''WEBSOCKET_MESSAGE'', WEBSOCKET_MESSAGE), (''WEBSOCKET_ERROR'', WEBSOCKET_ERROR),
      (''WEBSOCKET_CONNECTED'', WEBSOCKET_CONNECTED),
      (''WEBSOCKET_DISCONNECTED'', WEBSOCKET_DISCONNECTED)]"

definition event_type_attr :: "string \<Rightarrow> exn + event_type" where
  "event_type_attr name =
     (case map_of event_type_members name of None \<Rightarrow> Inl AttributeError | Some t \<Rightarrow> Inr t)"

record 'd event =
  e_type :: event_type
  e_timestamp :: time
  e_data :: 'd
  e_symbol :: "string option"

type_synonym hid = nat

record 'd event_bus =
  eb_handlers :: "(event_type, hid list) dict"
  eb_async_handlers :: "(event_type, hid list) dict"
  eb_global :: "hid list"
  eb_async_global :: "hid list"
  eb_queue :: "'d event list"
  eb_running :: bool

definition empty_bus :: "'d event_bus" where
  "empty_bus = \<lparr>eb_handlers = [], eb_async_handlers = [], eb_global = [], eb_async_global = [],
                eb_queue = [], eb_running = False\<rparr>"

definition handlers_of :: "(event_type, hid list) dict \<Rightarrow> event_type \<Rightarrow> hid list" where
  "handlers_of d t = (case dget d t of None \<Rightarrow> [] | Some hs \<Rightarrow> hs)"

definition subscribe :: "'d event_bus \<Rightarrow> event_type \<Rightarrow> hid \<Rightarrow> bool \<Rightarrow> 'd event_bus" where
  "subscribe b t h async =
     (if async
      then b\<lparr>eb_async_handlers := dset (eb_async_handlers b) t (handlers_of (eb_async_handlers b) t @ [h])\<rparr>
      else b\<lparr>eb_handlers := dset (eb_handlers b) t (handlers_of (eb_handlers b) t @ [h])\<rparr>)"

text \<open>
  \<open>list.remove\<close> drops the first occurrence. Reading \<open>self._handlers[event_type]\<close> of a
  \<open>defaultdict\<close> stores an empty list for a missing key.
\<close>

definition unsubscribe :: "'d event_bus \<Rightarrow> event_type \<Rightarrow> hid \<Rightarrow> bool \<Rightarrow> 'd event_bus" where
  "unsubscribe b t h async =
     (if async
      then b\<lparr>eb_async_handlers := dset (eb_async_handlers b) t (remove1 h (handlers_of (eb_async_handlers b) t))\<rparr>
      else b\<lparr>eb_handlers := dset (eb_handlers b) t (remove1 h (handlers_of (eb_handlers b) t))\<rparr>)"

definition subscribe_all :: "'d event_bus \<Rightarrow> hid \<Rightarrow> bool \<Rightarrow> 'd event_bus" where
  "subscribe_all b h async =
     (if async then b\<lparr>eb_async_global := eb_async_global b @ [h]\<rparr>
      else b\<lparr>eb_global := eb_global b @ [h]\<rparr>)"

definition unsubscribe_all :: "'d event_bus \<Rightarrow> hid \<Rightarrow> bool \<Rightarrow> 'd event_bus" where
  "unsubscribe_all b h async =
     (if async then b\<lparr>eb_async_global := remove1 h (eb_async_global b)\<rparr>
      else b\<lparr>eb_global := remove1 h (eb_global b)\<rparr>)"

text \<open>One loop of \<open>emit\<close>: each handler in turn, its exception caught.\<close>

fun call_handlers ::
  "(hid \<Rightarrow> 'd event \<Rightarrow> 'w \<Rightarrow> 'w \<times> exn option) \<Rightarrow> 'd event \<Rightarrow> hid list \<Rightarrow> 'w \<Rightarrow> 'w" where
  "call_handlers run e [] w = w"
| "call_handlers run e (h # hs) w =
     (case run h e w of
        (w1, None) \<Rightarrow> call_handlers run e hs w1
      | (w1, Some exn) \<Rightarrow> call_handlers run e hs w1)"

text \<open>\<open>emit\<close>: the world after the synchronous handlers, and the tasks created, in order.\<close>

definition emit ::
  "(hid \<Rightarrow> 'd event \<Rightarrow> 'w \<Rightarrow> 'w \<times> exn option) \<Rightarrow> 'd event_bus \<Rightarrow> 'd event \<Rightarrow> 'w \<Rightarrow>
   'w \<times> (hid \<times> 'd event) list" where
  "emit run b e w =
     (let w1 = call_handlers run e (handlers_of (eb_handlers b) (e_type e)) w;
          w2 = call_handlers run e (eb_global b) w1;
          t1 = map (\<lambda>h. (h, e)) (handlers_of (eb_async_handlers b) (e_type e));
          t2 = map (\<lambda>h. (h, e)) (eb_async_global b)
      in (w2, t1 @ t2))"

definition emit_async :: "'d event_bus \<Rightarrow> 'd event \<Rightarrow> 'd event_bus" where
  "emit_async b e = b\<lparr>eb_queue := eb_queue b @ [e]\<rparr>"

text \<open>
  One round of the loop of \<open>start\<close>: with an empty queue the wait times out and the loop
  goes on; otherwise the oldest event is emitted.
\<close>

definition bus_round ::
  "(hid \<Rightarrow> 'd event \<Rightarrow> 'w \<Rightarrow> 'w \<times> exn option) \<Rightarrow> 'd event_bus \<Rightarrow> 'w \<Rightarrow>
   'd event_bus \<times> 'w \<times> (hid \<times> 'd event) list" where
  "bus_round run b w =
     (case eb_queue b of
        [] \<Rightarrow> (b, w, [])
      | e # es \<Rightarrow> (let (w1, ts) = emit run b e w in (b\<lparr>eb_queue := es\<rparr>, w1, ts)))"

text \<open>The loop for at most \<open>n\<close> rounds, while \<open>_running\<close> holds.\<close>

fun bus_loop ::
  "nat \<Rightarrow> (hid \<Rightarrow> 'd event \<Rightarrow> 'w \<Rightarrow> 'w \<times> exn option) \<Rightarrow> 'd event_bus \<Rightarrow> 'w \<Rightarrow>
   'd event_bus \<times> 'w \<times> (hid \<times> 'd event) list" where
  "bus_loop 0 run b w = (b, w, [])"
| "bus_loop (Suc n) run b w =
     (if eb_running b
      then (let (b1, w1, ts) = bus_round run b w; (b2, w2, us) = bus_loop n run b1 w1
            in (b2, w2, ts @ us))
      else (b, w, []))"

definition bus_start :: "'d event_bus \<Rightarrow> 'd event_bus" where
  "bus_start b = b\<lparr>eb_running := True\<rparr>"

definition bus_stop :: "'d event_bus \<Rightarrow> 'd event_bus" where
  "bus_stop b = b\<lparr>eb_running := False\<rparr>"

definition clear_handlers :: "'d event_bus \<Rightarrow> event_type option \<Rightarrow> 'd event_bus" where
  "clear_handlers b t =
     (case t of
        Some t' \<Rightarrow> b\<lparr>eb_handlers := dset (eb_handlers b) t' [],
                     eb_async_handlers := dset (eb_async_handlers b) t' []\<rparr>
      | None \<Rightarrow> b\<lparr>eb_handlers := [], eb_async_handlers := [], eb_global := [], eb_async_global := []\<rparr>)"

definition get_handler_count :: "'d event_bus \<Rightarrow> event_type option \<Rightarrow> nat" where
  "get_handler_count b t =
     (case t of
        Some t' \<Rightarrow> length (handlers_of (eb_handlers b) t') + length (handlers_of (eb_async_handlers b) t')
      | None \<Rightarrow>
          length (eb_global b) + length (eb_async_global b)
          + sum_list (map length (dvals (eb_handlers b)))
          + sum_list (map length (dvals (eb_async_handlers b))))"

section \<open>Lemmas\<close>

lemma handlers_of_dset [simp]: "handlers_of (dset d t hs) t' = (if t' = t then hs else handlers_of d t')"
  by (simp add: handlers_of_def)

lemma call_handlers_fold: "call_handlers run e hs w = foldl (\<lambda>w h. fst (run h e w)) w hs"
  by (induction hs arbitrary: w) (auto split: prod.splits option.splits)

text \<open>
  What \<open>emit\<close> does: the handlers of the event's type, then the global ones, each
  exactly once and in the order of subscription, whatever any of them raises.
\<close>

lemma emit_spec:
  "emit run b e w =
     (foldl (\<lambda>w h. fst (run h e w)) w (handlers_of (eb_handlers b) (e_type e) @ eb_global b),
      map (\<lambda>h. (h, e)) (handlers_of (eb_async_handlers b) (e_type e) @ eb_async_global b))"
  by (simp add: emit_def call_handlers_fold Let_def)

lemma unsubscribe_subscribe:
  assumes "h \<notin> set (handlers_of (eb_handlers b) t)" "h \<notin> set (handlers_of (eb_async_handlers b) t)"
  shows "handlers_of (eb_handlers (unsubscribe (subscribe b t h async) t h async)) t' =
           handlers_of (eb_handlers b) t'"
    and "handlers_of (eb_async_handlers (unsubscribe (subscribe b t h async) t h async)) t' =
           handlers_of (eb_async_handlers b) t'"
  using assms by (auto simp: subscribe_def unsubscribe_def remove1_append)

lemma subscribe_count: "get_handler_count (subscribe b t h async) (Some t) = Suc (get_handler_count b (Some t))"
  by (simp add: get_handler_count_def subscribe_def)

text \<open>A record of the emitted events, as a world.\<close>

definition log_run :: "hid \<Rightarrow> 'd event \<Rightarrow> (hid \<times> 'd event) list \<Rightarrow> (hid \<times> 'd event) list \<times> exn option" where
  "log_run h e w = (w @ [(h, e)], None)"

lemma foldl_log: "foldl (\<lambda>w h. fst (log_run h e w)) w hs = w @ map (\<lambda>h. (h, e)) hs"
  by (induction hs arbitrary: w) (auto simp: log_run_def)

text \<open>
  The loop delivers the queued events in order: after at least as many rounds as there
  are events, the queue is empty and the handlers have seen the events first in, first out.
\<close>

lemma bus_loop_drains:
  assumes "eb_running b" "length (eb_queue b) \<le> n"
  shows "bus_loop n log_run b w =
    (b\<lparr>eb_queue := []\<rparr>,
     w @ concat (map (\<lambda>e. map (\<lambda>h. (h, e)) (handlers_of (eb_handlers b) (e_type e) @ eb_global b)) (eb_queue b)),
     concat (map (\<lambda>e. map (\<lambda>h. (h, e)) (handlers_of (eb_async_handlers b) (e_type e) @ eb_async_global b)) (eb_queue b)))"
  using assms
proof (induction n arbitrary: b w)
  case 0
  then show ?case by simp
next
  case (Suc n)
  show ?case
  proof (cases "eb_queue b")
    case Nil
    with Suc.IH [of b w] Suc.prems show ?thesis by (simp add: bus_round_def)
  next
    case (Cons e es)
    let ?b = "b\<lparr>eb_queue := es\<rparr>"
    have "eb_running ?b" "length (eb_queue ?b) \<le> n" using Suc.prems Cons by simp_all
    from Suc.IH [OF this] Cons Suc.prems(1) show ?thesis
      by (simp add: bus_round_def emit_spec foldl_log)
  qed
qed

section \<open>Properties of the event bus\<close>

text \<open>emit runs the handlers of the event's type and then the global ones, each exactly
  once, in the order of subscription, whatever any of them raises, and creates a task for
  each asynchronous handler in the same order.\<close>

theorem emit_runs_every_handler:
  "emit run b e w =
     (foldl (\<lambda>w h. fst (run h e w)) w (handlers_of (eb_handlers b) (e_type e) @ eb_global b),
      map (\<lambda>h. (h, e)) (handlers_of (eb_async_handlers b) (e_type e) @ eb_async_global b))"
  by (rule emit_spec)

lemma emit_async_queue: "foldl emit_async b es = b\<lparr>eb_queue := eb_queue b @ es\<rparr>"
  by (induction es arbitrary: b) (simp_all add: emit_async_def)



end
