(* ===== verification/Execution_Engine.thy ===== *)
theory Execution_Engine
  imports Order_Manager Position_Manager Event_Bus
begin

section \<open>The execution engine (\<open>src/trading/execution_engine.py\<close>)\<close>

text \<open>
  A broker adapter is a table of operations on its own state \<open>'b\<close> and on the heap of
  shared orders (\<open>BrokerAdapter\<close>); an operation may raise. The engine owns an order
  manager whose fill callback updates the position manager and then publishes an event.
\<close>

record 'b broker_ops =
  br_connect :: "'b \<Rightarrow> (exn + bool) \<times> 'b"
  br_disconnect :: "'b \<Rightarrow> exn option \<times> 'b"
  br_is_connected :: "'b \<Rightarrow> bool"
  br_submit :: "'b \<Rightarrow> heap \<Rightarrow> oref \<Rightarrow> time \<Rightarrow> (exn + bool) \<times> 'b \<times> heap"
  br_cancel :: "'b \<Rightarrow> heap \<Rightarrow> string \<Rightarrow> time \<Rightarrow> (exn + bool) \<times> 'b \<times> heap"

text \<open>
  What the callbacks of the engine act on: the positions and the published events, and
  whatever the callbacks that others register act on (an extension of the record, of type \<open>'w\<close>).
\<close>

record ee_world =
  ew_pm :: position_manager
  ew_emitted :: "(fill \<times> trade option) event list"

record ('b, 'w) exec_engine =
  ee_broker :: "('b broker_ops \<times> 'b) option"
  ee_commission :: commission_model
  ee_slippage :: slippage_model
  ee_om :: "'w ee_world_scheme order_manager"
  ee_heap :: heap
  ee_world :: "'w ee_world_scheme"
  ee_last_prices :: "(skey, tick) dict"
  ee_counter :: nat

text \<open>
  \<open>_on_fill\<close>: the positions are updated first; then the event is built, and the
  attribute \<open>EventType.FILL\<close> is looked up.
\<close>

definition on_fill_cb :: "(fill, 'w ee_world_scheme) callback" where
  "on_fill_cb f w =
     (case pm_process_fill (ew_pm w) f of
        Inl e \<Rightarrow> (w, Some e)
      | Inr (t, pm) \<Rightarrow>
          (case event_type_attr ''FILL'' of
             Inl e \<Rightarrow> (w\<lparr>ew_pm := pm\<rparr>, Some e)
           | Inr et \<Rightarrow>
               (w\<lparr>ew_pm := pm,
                  ew_emitted := ew_emitted w @
                    [\<lparr>e_type = et, e_timestamp = f_time f, e_data = (f, t),
                      e_symbol = Some (symbol_str (f_symbol f))\<rparr>]\<rparr>, None)))"

definition engine_within ::
  "'w \<Rightarrow> ('b broker_ops \<times> 'b) option \<Rightarrow> commission_model \<Rightarrow> slippage_model \<Rightarrow> heap \<Rightarrow> nat \<Rightarrow> ('b, 'w) exec_engine" where
  "engine_within w br cm sm h n =
     \<lparr>ee_broker = br, ee_commission = cm, ee_slippage = sm,
      ee_om = empty_manager\<lparr>om_on_fill := [on_fill_cb]\<rparr>, ee_heap = h,
      ee_world = \<lparr>ew_pm = empty_pm, ew_emitted = [], \<dots> = w\<rparr>, ee_last_prices = [], ee_counter = n\<rparr>"

definition new_engine ::
  "('b broker_ops \<times> 'b) option \<Rightarrow> commission_model \<Rightarrow> slippage_model \<Rightarrow> heap \<Rightarrow> nat \<Rightarrow> ('b, unit) exec_engine" where
  "new_engine = engine_within ()"

text \<open>The order manager's state inside the engine.\<close>

definition ee_oms :: "('b, 'w) exec_engine \<Rightarrow> 'w ee_world_scheme om_state" where
  "ee_oms e = (ee_om e, ee_heap e, ee_world e)"

definition put_oms :: "('b, 'w) exec_engine \<Rightarrow> 'w ee_world_scheme om_state \<Rightarrow> ('b, 'w) exec_engine" where
  "put_oms e = (\<lambda>(m, h, w). e\<lparr>ee_om := m, ee_heap := h, ee_world := w\<rparr>)"

definition put_broker :: "('b, 'w) exec_engine \<Rightarrow> 'b \<Rightarrow> ('b, 'w) exec_engine" where
  "put_broker e b = e\<lparr>ee_broker := map_option (\<lambda>(ops, _). (ops, b)) (ee_broker e)\<rparr>"

text \<open>\<open>self._broker and self._broker.is_connected()\<close>\<close>

definition live_broker :: "('b, 'w) exec_engine \<Rightarrow> ('b broker_ops \<times> 'b) option" where
  "live_broker e =
     (case ee_broker e of None \<Rightarrow> None | Some (ops, b) \<Rightarrow> if br_is_connected ops b then Some (ops, b) else None)"

definition set_status :: "heap \<Rightarrow> oref \<Rightarrow> order_status \<Rightarrow> heap" where
  "set_status h r s = h(r := (h r)\<lparr>o_status := s\<rparr>)"

definition submit_order :: "('b, 'w) exec_engine \<Rightarrow> oref \<Rightarrow> time \<Rightarrow> bool \<times> ('b, 'w) exec_engine" where
  "submit_order e r now =
     (let e1 = put_oms e (register_order (ee_oms e) r) in
      case live_broker e1 of
        Some (ops, b) \<Rightarrow>
          (case br_submit ops b (ee_heap e1) r now of
             (Inr ok, b1, h) \<Rightarrow>
               (ok, (put_broker e1 b1)
                  \<lparr>ee_heap := (if ok then h(r := (h r)\<lparr>o_status := ACCEPTED, o_submitted_at := Some now\<rparr>)
                              else set_status h r REJECTED)\<rparr>)
           | (Inl exn, b1, h) \<Rightarrow> (False, (put_broker e1 b1)\<lparr>ee_heap := set_status h r REJECTED\<rparr>))
      | None \<Rightarrow> (True, e1\<lparr>ee_heap := set_status (ee_heap e1) r PENDING\<rparr>))"

definition ee_cancel_order :: "('b, 'w) exec_engine \<Rightarrow> string \<Rightarrow> time \<Rightarrow> bool \<times> ('b, 'w) exec_engine" where
  "ee_cancel_order e oid now =
     (let e1 = (case live_broker e of
                  Some (ops, b) \<Rightarrow>
                    (case br_cancel ops b (ee_heap e) oid now of
                       (_, b1, h) \<Rightarrow> (put_broker e b1)\<lparr>ee_heap := h\<rparr>)
                | None \<Rightarrow> e);
          (ok, s) = cancel_order (ee_oms e1) oid now
      in (ok, put_oms e1 s))"

definition ee_cancel_all_orders :: "('b, 'w) exec_engine \<Rightarrow> symbol option \<Rightarrow> time \<Rightarrow> nat \<times> ('b, 'w) exec_engine" where
  "ee_cancel_all_orders e sy now =
     (let (n, s) = cancel_all_orders (ee_oms e) sy now in (n, put_oms e s))"

text \<open>\<open>start\<close> and \<open>stop\<close>: an exception of the broker is caught and logged.\<close>

definition ee_start :: "('b, 'w) exec_engine \<Rightarrow> ('b, 'w) exec_engine" where
  "ee_start e =
     (case ee_broker e of
        None \<Rightarrow> e
      | Some (ops, b) \<Rightarrow> if br_is_connected ops b then e else put_broker e (snd (br_connect ops b)))"

definition ee_stop :: "('b, 'w) exec_engine \<Rightarrow> ('b, 'w) exec_engine" where
  "ee_stop e =
     (case ee_broker e of
        None \<Rightarrow> e
      | Some (ops, b) \<Rightarrow> if br_is_connected ops b then put_broker e (snd (br_disconnect ops b)) else e)"

text \<open>\<open>_apply_costs\<close>: commission on the raw price, then the price moves by the slippage.\<close>

definition apply_costs :: "commission_model \<Rightarrow> slippage_model \<Rightarrow> fill \<Rightarrow> tick \<Rightarrow> fill" where
  "apply_costs cm sm f tk =
     (let volume = bid_size tk + ask_size tk;
          s = slippage sm (f_price f) (f_quantity f) volume;
          f1 = f\<lparr>f_commission := commission cm (f_quantity f) (f_price f), f_slippage := s\<rparr>
      in if f_side f = BUY then f1\<lparr>f_price := f_price f + s\<rparr> else f1\<lparr>f_price := f_price f - s\<rparr>)"

text \<open>The fill that the branches of \<open>_try_fill_order\<close> build.\<close>

definition order_fill :: "order \<Rightarrow> dec \<Rightarrow> tick \<Rightarrow> string \<Rightarrow> fill" where
  "order_fill x price tk fid =
     \<lparr>f_order_id = o_id x, f_symbol = o_symbol x, f_side = o_side x, f_quantity = o_remaining x,
      f_price = price, f_time = t_timestamp tk, f_id = fid, f_commission = 0, f_slippage = 0\<rparr>"

text \<open>
  The raw price at which an order fills on a tick, if it does. Comparing with a missing
  limit or stop price raises. A stop-limit order has no branch.
\<close>

definition fill_price_on :: "order \<Rightarrow> tick \<Rightarrow> exn + dec option" where
  "fill_price_on x tk =
     (case o_type x of
        MARKET \<Rightarrow> Inr (Some (mid_price tk))
      | LIMIT \<Rightarrow>
          (case o_limit_price x of
             None \<Rightarrow> Inl TypeError
           | Some lp \<Rightarrow>
               if o_side x = BUY \<and> ask_price tk \<le> lp then Inr (Some (min (ask_price tk) lp))
               else if o_side x = SELL \<and> lp \<le> bid_price tk then Inr (Some (max (bid_price tk) lp))
               else Inr None)
      | STOP \<Rightarrow>
          (case o_stop_price x of
             None \<Rightarrow> Inl TypeError
           | Some sp \<Rightarrow>
               if o_side x = BUY \<and> sp \<le> ask_price tk then Inr (Some (ask_price tk))
               else if o_side x = SELL \<and> bid_price tk \<le> sp then Inr (Some (bid_price tk))
               else Inr None)
      | STOP_LIMIT \<Rightarrow> Inr None)"

definition try_fill_order ::
  "commission_model \<Rightarrow> slippage_model \<Rightarrow> order \<Rightarrow> tick \<Rightarrow> string \<Rightarrow> exn + fill option" where
  "try_fill_order cm sm x tk fid =
     and_then (fill_price_on x tk)
       (\<lambda>p. case p of
              None \<Rightarrow> Inr None
            | Some price \<Rightarrow> Inr (Some (apply_costs cm sm (order_fill x price tk fid) tk)))"

text \<open>
  The loop of \<open>_process_pending_orders\<close>. An exception leaves the method with what the
  earlier orders have done. A fill takes the next number of the module's counter.
\<close>

fun fill_pending ::
  "('b, 'w) exec_engine \<Rightarrow> oref list \<Rightarrow> tick \<Rightarrow> string \<Rightarrow> time \<Rightarrow> exn option \<times> ('b, 'w) exec_engine" where
  "fill_pending e [] tk stamp now = (None, e)"
| "fill_pending e (r # rs) tk stamp now =
     (case try_fill_order (ee_commission e) (ee_slippage e) (ee_heap e r) tk
             (fresh_fill_id (ee_counter e) stamp) of
        Inl exn \<Rightarrow> (Some exn, e)
      | Inr None \<Rightarrow> fill_pending e rs tk stamp now
      | Inr (Some f) \<Rightarrow>
          (let e1 = e\<lparr>ee_counter := ee_counter e + 1\<rparr> in
           case process_fill (ee_oms e1) (o_id (ee_heap e1 r)) f now of
             Inl exn \<Rightarrow> (Some exn, e1)
           | Inr s \<Rightarrow> fill_pending (put_oms e1 s) rs tk stamp now))"

definition process_pending_orders ::
  "('b, 'w) exec_engine \<Rightarrow> symbol \<Rightarrow> tick \<Rightarrow> string \<Rightarrow> time \<Rightarrow> exn option \<times> ('b, 'w) exec_engine" where
  "process_pending_orders e sy tk stamp now =
     fill_pending e
       (filter (\<lambda>r. o_status (ee_heap e r) = PENDING) (get_active_orders (ee_oms e) (Some sy)))
       tk stamp now"

definition process_tick ::
  "('b, 'w) exec_engine \<Rightarrow> tick \<Rightarrow> string \<Rightarrow> time \<Rightarrow> exn option \<times> ('b, 'w) exec_engine" where
  "process_tick e tk stamp now =
     (let sy = t_symbol tk;
          w = ee_world e;
          e1 = e\<lparr>ee_last_prices := dset (ee_last_prices e) (symbol_key sy) tk,
                 ee_world := w\<lparr>ew_pm := pm_update_price (ew_pm w) sy (mid_price tk) (t_timestamp tk)\<rparr>\<rparr>
      in if Option.is_none (ee_broker e1) then process_pending_orders e1 sy tk stamp now else (None, e1))"

definition ee_total_pnl :: "('b, 'w) exec_engine \<Rightarrow> flt" where
  "ee_total_pnl e =
     flt_of_dec (pm_get_realized_pnl (ew_pm (ee_world e)) + pm_get_unrealized_pnl (ew_pm (ee_world e)))"

definition ee_get_statistics :: "('b, 'w) exec_engine \<Rightarrow> om_statistics \<times> position_summary \<times> flt" where
  "ee_get_statistics e =
     (om_get_statistics (ee_oms e), get_position_summary (ew_pm (ee_world e)), ee_total_pnl e)"

section \<open>Lemmas: fills of pending orders\<close>

lemma no_fill_event [simp]: "event_type_attr ''FILL'' = Inl AttributeError"
  by (simp add: event_type_attr_def event_type_members_def)

text \<open>Whatever the fill does to the positions, the callback publishes nothing.\<close>

lemma notify_on_fill: "notify [on_fill_cb] f w = w\<lparr>ew_pm := pm_step (ew_pm w) f\<rparr>"
  by (auto simp: on_fill_cb_def pm_step_def split: sum.splits prod.splits)

lemma oms_simps [simp]:
  "ee_oms (put_oms e s) = s" "ee_broker (put_oms e s) = ee_broker e"
  "ee_commission (put_oms e s) = ee_commission e" "ee_slippage (put_oms e s) = ee_slippage e"
  "ee_heap (put_oms e (m, h, w)) = h" "ee_om (put_oms e (m, h, w)) = m" "ee_world (put_oms e (m, h, w)) = w"
  "ee_oms (e\<lparr>ee_counter := n\<rparr>) = ee_oms e"
  by (cases s; simp add: ee_oms_def put_oms_def)+

definition priced :: "order \<Rightarrow> bool" where
  "priced x \<longleftrightarrow> (o_type x = LIMIT \<longrightarrow> o_limit_price x \<noteq> None) \<and> (o_type x = STOP \<longrightarrow> o_stop_price x \<noteq> None)"

text \<open>The order fills on the tick.\<close>

definition triggers :: "order \<Rightarrow> tick \<Rightarrow> bool" where
  "triggers x tk \<longleftrightarrow>
     (case o_type x of
        MARKET \<Rightarrow> True
      | LIMIT \<Rightarrow> (case o_side x of BUY \<Rightarrow> ask_price tk \<le> the (o_limit_price x)
                             | SELL \<Rightarrow> the (o_limit_price x) \<le> bid_price tk)
      | STOP \<Rightarrow> (case o_side x of BUY \<Rightarrow> the (o_stop_price x) \<le> ask_price tk
                            | SELL \<Rightarrow> bid_price tk \<le> the (o_stop_price x))
      | STOP_LIMIT \<Rightarrow> False)"

lemma fill_price_on_priced:
  assumes "priced x"
  shows "triggers x tk \<Longrightarrow> \<exists>p. fill_price_on x tk = Inr (Some p)"
    and "\<not> triggers x tk \<Longrightarrow> fill_price_on x tk = Inr None"
  using assms
  by (cases "o_type x"; cases "o_side x"; cases "o_limit_price x"; cases "o_stop_price x";
      simp add: fill_price_on_def triggers_def priced_def)+

lemma try_fill_priced:
  assumes "priced x"
  shows "triggers x tk \<Longrightarrow> \<exists>p. fill_price_on x tk = Inr (Some p) \<and>
      try_fill_order cm sm x tk fid = Inr (Some (apply_costs cm sm (order_fill x p tk fid) tk))"
    and "\<not> triggers x tk \<Longrightarrow> try_fill_order cm sm x tk fid = Inr None"
  using fill_price_on_priced [OF assms, of tk] by (auto simp: try_fill_order_def)

lemma apply_costs_frame [frame_simps]:
  "f_order_id (apply_costs cm sm f tk) = f_order_id f" "f_quantity (apply_costs cm sm f tk) = f_quantity f"
  "f_side (apply_costs cm sm f tk) = f_side f" "f_symbol (apply_costs cm sm f tk) = f_symbol f"
  by (simp_all add: apply_costs_def Let_def)

lemma apply_costs_price:
  "f_price (apply_costs cm sm f tk) =
     (if f_side f = BUY
      then f_price f + slippage sm (f_price f) (f_quantity f) (bid_size tk + ask_size tk)
      else f_price f - slippage sm (f_price f) (f_quantity f) (bid_size tk + ask_size tk))"
  by (simp add: apply_costs_def Let_def)

text \<open>A fill of all that remains completes the order.\<close>

lemma update_fill_whole:
  assumes "o_filled x = 0"
  shows "update_fill x (o_remaining x) p now = Inr (apply_fill x p (o_remaining x) now)"
    and "o_status (apply_fill x p (o_remaining x) now) = FILLED"
    and "o_remaining (apply_fill x p (o_remaining x) now) = 0"
  using assms by (simp_all add: update_fill_def apply_fill_fields dec_le_iff dec_eq_iff)

lemma process_fill_whole:
  assumes "dget (om_orders m) (o_id (h r)) = Some r" "o_filled (h r) = 0" "f_quantity f = o_remaining (h r)"
  shows "process_fill (m, h, w) (o_id (h r)) f now =
    Inr (m\<lparr>om_active := removeAll (o_id (h r)) (om_active m)\<rparr>,
         h(r := apply_fill (h r) (f_price f) (o_remaining (h r)) now), notify (om_on_fill m) f w)"
  using assms update_fill_whole [OF assms(2)]
  by (simp add: process_fill_def is_active_def del: notify.simps)

text \<open>What the fill callbacks make of a list of fills.\<close>

abbreviation notify_all :: "('b, 'w) exec_engine \<Rightarrow> fill list \<Rightarrow> 'w ee_world_scheme \<Rightarrow> 'w ee_world_scheme" where
  "notify_all e fs w \<equiv> foldl (\<lambda>w f. notify (om_on_fill (ee_om e)) f w) w fs"

text \<open>The orders of the loop are registered, pending, unfilled and carry the price their type needs.\<close>

definition ready :: "('b, 'w) exec_engine \<Rightarrow> oref \<Rightarrow> bool" where
  "ready e r \<longleftrightarrow>
     dget (om_orders (ee_om e)) (o_id (ee_heap e r)) = Some r \<and> o_status (ee_heap e r) = PENDING \<and>
     o_filled (ee_heap e r) = 0 \<and> priced (ee_heap e r)"

text \<open>The fill an order got: its own identifier, side and symbol, all that remained, a cost-adjusted price.\<close>

definition fill_for :: "('b, 'w) exec_engine \<Rightarrow> tick \<Rightarrow> oref \<Rightarrow> fill \<Rightarrow> bool" where
  "fill_for e tk r f \<longleftrightarrow>
     (\<exists>p fid. fill_price_on (ee_heap e r) tk = Inr (Some p) \<and>
       f = apply_costs (ee_commission e) (ee_slippage e) (order_fill (ee_heap e r) p tk fid) tk)"

lemma fill_pending_spec:
  assumes "distinct rs" "\<And>r. r \<in> set rs \<Longrightarrow> ready e r"
    "om_inv (ee_oms e)" "om_synced (ee_oms e)"
  shows "\<exists>e' fs. fill_pending e rs tk stamp now = (None, e') \<and>
    list_all2 (fill_for e tk) (filter (\<lambda>r. triggers (ee_heap e r) tk) rs) fs \<and>
    ee_world e' = notify_all e fs (ee_world e) \<and>
    ee_broker e' = ee_broker e \<and> om_on_fill (ee_om e') = om_on_fill (ee_om e) \<and>
    (\<forall>r. if r \<in> set rs \<and> triggers (ee_heap e r) tk
         then \<exists>p. ee_heap e' r = apply_fill (ee_heap e r) p (o_remaining (ee_heap e r)) now
         else ee_heap e' r = ee_heap e r) \<and>
    om_orders (ee_om e') = om_orders (ee_om e) \<and>
    om_on_order (ee_om e') = om_on_order (ee_om e) \<and> om_on_cancel (ee_om e') = om_on_cancel (ee_om e) \<and>
    om_inv (ee_oms e') \<and> om_synced (ee_oms e')"
  using assms
proof (induction rs arbitrary: e)
  case Nil
  then show ?case by simp
next
  case (Cons r rs)
  let ?x = "ee_heap e r"
  have rd: "ready e r" using Cons.prems(2) by simp
  then have x: "dget (om_orders (ee_om e)) (o_id ?x) = Some r" "o_filled ?x = 0" "priced ?x"
    by (simp_all add: ready_def)
  show ?case
  proof (cases "triggers ?x tk")
    case False
    have "fill_pending e (r # rs) tk stamp now = fill_pending e rs tk stamp now"
      using try_fill_priced(2) [OF x(3) False] by simp
    moreover have "(r' \<in> set (r # rs) \<and> triggers (ee_heap e r') tk) = (r' \<in> set rs \<and> triggers (ee_heap e r') tk)"
      for r' using False by auto
    moreover have "distinct rs" "\<And>r'. r' \<in> set rs \<Longrightarrow> ready e r'" using Cons.prems by auto
    ultimately show ?thesis using Cons.IH [of e] Cons.prems(3,4) False by simp
  next
    case True
    let ?fid = "fresh_fill_id (ee_counter e) stamp"
    from try_fill_priced(1) [OF x(3) True] obtain p where p: "fill_price_on ?x tk = Inr (Some p)"
      "try_fill_order (ee_commission e) (ee_slippage e) ?x tk ?fid =
         Inr (Some (apply_costs (ee_commission e) (ee_slippage e) (order_fill ?x p tk ?fid) tk))" by blast
    define f where "f = apply_costs (ee_commission e) (ee_slippage e) (order_fill ?x p tk ?fid) tk"
    define y where "y = apply_fill ?x (f_price f) (o_remaining ?x) now"
    define e1 where "e1 = put_oms (e\<lparr>ee_counter := ee_counter e + 1\<rparr>)
      ((ee_om e)\<lparr>om_active := removeAll (o_id ?x) (om_active (ee_om e))\<rparr>, (ee_heap e)(r := y),
       notify (om_on_fill (ee_om e)) f (ee_world e))"
    have fq: "f_quantity f = o_remaining ?x" by (simp add: f_def frame_simps order_fill_def)
    have pf: "process_fill (ee_oms e) (o_id ?x) f now =
        Inr ((ee_om e)\<lparr>om_active := removeAll (o_id ?x) (om_active (ee_om e))\<rparr>, (ee_heap e)(r := y),
             notify (om_on_fill (ee_om e)) f (ee_world e))"
      unfolding ee_oms_def y_def by (rule process_fill_whole) (use x fq in auto)
    then have step: "fill_pending e (r # rs) tk stamp now = fill_pending e1 rs tk stamp now"
      by (simp add: p(2) f_def [symmetric] e1_def)
    have other: "ee_heap e1 r' = ee_heap e r'" if "r' \<noteq> r" for r'
      using that by (simp add: e1_def)
    have e1: "om_orders (ee_om e1) = om_orders (ee_om e)"
      "om_on_order (ee_om e1) = om_on_order (ee_om e)" "om_on_cancel (ee_om e1) = om_on_cancel (ee_om e)"
      "om_on_fill (ee_om e1) = om_on_fill (ee_om e)" "ee_broker e1 = ee_broker e"
      "ee_commission e1 = ee_commission e" "ee_slippage e1 = ee_slippage e"
      "ee_world e1 = notify (om_on_fill (ee_om e)) f (ee_world e)" "ee_heap e1 r = y"
      by (simp_all add: e1_def put_oms_def)
    have inv1: "om_inv (ee_oms e1)"
      using om_inv_process_fill [OF Cons.prems(3) pf] by (simp add: e1_def)
    have "is_active ?x" using rd by (simp add: ready_def is_active_def)
    then have sync1: "om_synced (ee_oms e1)"
      using om_synced_process_fill [OF Cons.prems(3,4) pf] x(1) by (simp add: e1_def get_order_def ee_oms_def)
    have neq: "r' \<noteq> r" if "r' \<in> set rs" for r' using Cons.prems(1) that by auto
    have rd1: "ready e1 r'" if "r' \<in> set rs" for r'
      using Cons.prems(2) [of r'] that neq [OF that] by (simp add: ready_def e1(1) other)
    have ff: "fill_for e1 tk r' g \<longleftrightarrow> fill_for e tk r' g" if "r' \<in> set rs" for r' g
      using other [OF neq [OF that]] by (simp add: fill_for_def e1)
    have flt: "filter (\<lambda>r. triggers (ee_heap e1 r) tk) rs = filter (\<lambda>r. triggers (ee_heap e r) tk) rs"
      by (rule filter_cong) (use other neq in auto)
    from Cons.IH [OF _ rd1 inv1 sync1] Cons.prems(1) obtain e' fs where IH:
      "fill_pending e1 rs tk stamp now = (None, e')"
      "list_all2 (fill_for e1 tk) (filter (\<lambda>r. triggers (ee_heap e1 r) tk) rs) fs"
      "ee_world e' = notify_all e1 fs (ee_world e1)"
      "ee_broker e' = ee_broker e1" "om_on_fill (ee_om e') = om_on_fill (ee_om e1)"
      "\<forall>r. if r \<in> set rs \<and> triggers (ee_heap e1 r) tk
         then \<exists>p. ee_heap e' r = apply_fill (ee_heap e1 r) p (o_remaining (ee_heap e1 r)) now
         else ee_heap e' r = ee_heap e1 r"
      "om_orders (ee_om e') = om_orders (ee_om e1)"
      "om_on_order (ee_om e') = om_on_order (ee_om e1)" "om_on_cancel (ee_om e') = om_on_cancel (ee_om e1)"
      "om_inv (ee_oms e')" "om_synced (ee_oms e')"
      by (auto simp del: fill_pending.simps)
    have "list_all2 (fill_for e tk) (filter (\<lambda>r. triggers (ee_heap e r) tk) rs) fs"
      using IH(2) ff unfolding flt by (elim list_all2_mono [rotated] list.rel_mono_strong) auto
    moreover have "fill_for e tk r f" using p(1) by (auto simp: fill_for_def f_def)
    moreover have "if r' \<in> set (r # rs) \<and> triggers (ee_heap e r') tk
         then \<exists>p. ee_heap e' r' = apply_fill (ee_heap e r') p (o_remaining (ee_heap e r')) now
         else ee_heap e' r' = ee_heap e r'" for r'
    proof (cases "r' = r")
      case True
      with IH(6) [rule_format, of r] Cons.prems(1) \<open>triggers ?x tk\<close> show ?thesis
        by (auto simp: e1(9) y_def)
    next
      case False
      with IH(6) [rule_format, of r'] other [OF False] show ?thesis by auto
    qed
    ultimately show ?thesis
      using True IH(1,3,4,5,7-) by (intro exI [of _ e'] exI [of _ "f # fs"]) (simp add: step e1 del: fill_pending.simps)
  qed
qed

section \<open>Paper trading: the engine without a broker\<close>

text \<open>
  The invariant of an engine with no broker: its managers are consistent, the fill
  callback is installed and an order that is pending has not been filled.
\<close>

definition ee_core :: "('b, 'w) exec_engine \<Rightarrow> bool" where
  "ee_core e \<longleftrightarrow>
     ee_broker e = None \<and> om_inv (ee_oms e) \<and> om_synced (ee_oms e) \<and>
     om_on_order (ee_om e) = [] \<and> om_on_cancel (ee_om e) = [] \<and>
     (\<forall>oid r. dget (om_orders (ee_om e)) oid = Some r \<longrightarrow> o_status (ee_heap e r) = PENDING \<longrightarrow>
        o_filled (ee_heap e r) = 0 \<and> priced (ee_heap e r) \<and> 0 < dval (o_remaining (ee_heap e r)))"

definition ee_inv :: "('b, 'w) exec_engine \<Rightarrow> bool" where
  "ee_inv e \<longleftrightarrow> ee_core e \<and> pm_inv (ew_pm (ee_world e)) \<and> om_on_fill (ee_om e) = [on_fill_cb]"

lemma ee_coreD:
  assumes "ee_core e"
  shows "ee_broker e = None" "om_inv (ee_oms e)" "om_synced (ee_oms e)"
    "om_on_order (ee_om e) = []" "om_on_cancel (ee_om e) = []"
    "dget (om_orders (ee_om e)) oid = Some r \<Longrightarrow> o_status (ee_heap e r) = PENDING \<Longrightarrow>
       o_filled (ee_heap e r) = 0 \<and> priced (ee_heap e r) \<and> 0 < dval (o_remaining (ee_heap e r))"
  using assms unfolding ee_core_def by blast+

lemma ee_invD:
  assumes "ee_inv e"
  shows "ee_broker e = None" "om_inv (ee_oms e)" "om_synced (ee_oms e)" "pm_inv (ew_pm (ee_world e))"
    "om_on_fill (ee_om e) = [on_fill_cb]" "om_on_order (ee_om e) = []" "om_on_cancel (ee_om e) = []"
    "dget (om_orders (ee_om e)) oid = Some r \<Longrightarrow> o_status (ee_heap e r) = PENDING \<Longrightarrow>
       o_filled (ee_heap e r) = 0 \<and> priced (ee_heap e r) \<and> 0 < dval (o_remaining (ee_heap e r))"
  using assms ee_coreD [of e] unfolding ee_inv_def by blast+

lemma ee_inv_core: "ee_inv e \<Longrightarrow> ee_core e"
  by (simp add: ee_inv_def)

lemma ee_inv_new: "ee_inv (new_engine None cm sm h n)"
  by (simp add: ee_inv_def ee_core_def new_engine_def engine_within_def ee_oms_def om_inv_def om_synced_def empty_manager_def pm_inv_empty)

text \<open>The orders that wait on a symbol.\<close>

definition waiting :: "('b, 'w) exec_engine \<Rightarrow> symbol \<Rightarrow> oref set" where
  "waiting e sy = {r. \<exists>oid. dget (om_orders (ee_om e)) oid = Some r \<and> o_status (ee_heap e r) = PENDING \<and>
                            symbol_eq (o_symbol (ee_heap e r)) sy}"

lemma pending_list:
  assumes "ee_core e"
  shows "set (filter (\<lambda>r. o_status (ee_heap e r) = PENDING) (get_active_orders (ee_oms e) (Some sy))) = waiting e sy"
    and "distinct (filter (\<lambda>r. o_status (ee_heap e r) = PENDING) (get_active_orders (ee_oms e) (Some sy)))"
    and "r \<in> waiting e sy \<Longrightarrow> ready e r"
proof -
  note D = ee_coreD [OF assms]
  show "set (filter (\<lambda>r. o_status (ee_heap e r) = PENDING) (get_active_orders (ee_oms e) (Some sy))) = waiting e sy"
    using get_active_orders_spec [OF D(2,3), of "Some sy"]
    by (auto simp: waiting_def ee_oms_def get_order_def is_active_def matches_symbol_def)
  show "distinct (filter (\<lambda>r. o_status (ee_heap e r) = PENDING) (get_active_orders (ee_oms e) (Some sy)))"
    using D(2) unfolding ee_oms_def by (intro distinct_filter distinct_get_active_orders)
  assume "r \<in> waiting e sy"
  then obtain oid where oid: "dget (om_orders (ee_om e)) oid = Some r" "o_status (ee_heap e r) = PENDING"
    by (auto simp: waiting_def)
  with om_invD(4) [OF D(2) [unfolded ee_oms_def] oid(1)] D(6) [OF oid]
  show "ready e r" by (simp add: ready_def)
qed

lemma pm_inv_update_price: "pm_inv m \<Longrightarrow> pm_inv (pm_update_price m s price now)"
proof -
  assume inv: "pm_inv m"
  show ?thesis
  proof (cases "dget (pm_positions m) (symbol_key s)")
    case None
    with inv show ?thesis by (simp add: pm_update_price_def pm_get_position_def)
  next
    case (Some p)
    with pm_invD [OF inv Some] inv show ?thesis
      unfolding pm_inv_def pm_update_price_def pm_get_position_def
      by (auto simp: open_position_def update_price_def simp del: split_paired_All)
  qed
qed

text \<open>
  A tick on a paper engine never raises. Exactly the waiting orders that trigger are
  filled, in full; every other order is untouched; the positions take the price and then
  the fills, one for each filled order, in the order of the loop; nothing is published.
\<close>

lemma process_tick_core:
  assumes "ee_core e"
  shows "\<exists>e' rs fs. process_tick e tk stamp now = (None, e') \<and>
    distinct rs \<and> set rs = {r \<in> waiting e (t_symbol tk). triggers (ee_heap e r) tk} \<and>
    list_all2 (fill_for e tk) rs fs \<and>
    ee_world e' = notify_all e fs ((ee_world e)\<lparr>ew_pm :=
       pm_update_price (ew_pm (ee_world e)) (t_symbol tk) (mid_price tk) (t_timestamp tk)\<rparr>) \<and>
    ee_broker e' = None \<and> om_on_fill (ee_om e') = om_on_fill (ee_om e) \<and>
    (\<forall>r. if r \<in> set rs then \<exists>p. ee_heap e' r = apply_fill (ee_heap e r) p (o_remaining (ee_heap e r)) now
         else ee_heap e' r = ee_heap e r) \<and>
    om_orders (ee_om e') = om_orders (ee_om e) \<and>
    om_on_order (ee_om e') = om_on_order (ee_om e) \<and> om_on_cancel (ee_om e') = om_on_cancel (ee_om e) \<and>
    om_inv (ee_oms e') \<and> om_synced (ee_oms e')"
proof -
  note D = ee_coreD [OF assms]
  define e1 where "e1 = e\<lparr>ee_last_prices := dset (ee_last_prices e) (symbol_key (t_symbol tk)) tk,
    ee_world := (ee_world e)\<lparr>ew_pm := pm_update_price (ew_pm (ee_world e)) (t_symbol tk) (mid_price tk) (t_timestamp tk)\<rparr>\<rparr>"
  have e1: "ee_om e1 = ee_om e" "ee_heap e1 = ee_heap e" "ee_broker e1 = ee_broker e"
    "ee_commission e1 = ee_commission e" "ee_slippage e1 = ee_slippage e"
    "ee_world e1 = (ee_world e)\<lparr>ew_pm := pm_update_price (ew_pm (ee_world e)) (t_symbol tk) (mid_price tk) (t_timestamp tk)\<rparr>"
    by (simp_all add: e1_def)
  define rs where "rs = filter (\<lambda>r. o_status (ee_heap e r) = PENDING) (get_active_orders (ee_oms e) (Some (t_symbol tk)))"
  have act: "get_active_orders (ee_oms e1) sy = get_active_orders (ee_oms e) sy" for sy
    by (simp add: get_active_orders_def ee_oms_def e1)
  have run: "process_tick e tk stamp now = fill_pending e1 rs tk stamp now"
    using D(1) by (simp add: process_tick_def process_pending_orders_def act e1 rs_def Let_def
        del: fill_pending.simps flip: e1_def)
  have rd: "ready e1 r" if "r \<in> set rs" for r
    using pending_list(3) [OF assms] pending_list(1) [OF assms] that by (simp add: rs_def ready_def e1)
  have "om_inv (ee_oms e1)" "om_synced (ee_oms e1)"
    using D(2,3) by (simp_all add: ee_oms_def e1 om_inv_def om_synced_def)
  then obtain e' fs where F: "fill_pending e1 rs tk stamp now = (None, e')"
    "list_all2 (fill_for e1 tk) (filter (\<lambda>r. triggers (ee_heap e1 r) tk) rs) fs"
    "ee_world e' = notify_all e1 fs (ee_world e1)"
    "ee_broker e' = ee_broker e1" "om_on_fill (ee_om e') = om_on_fill (ee_om e1)"
    "\<forall>r. if r \<in> set rs \<and> triggers (ee_heap e1 r) tk
         then \<exists>p. ee_heap e' r = apply_fill (ee_heap e1 r) p (o_remaining (ee_heap e1 r)) now
         else ee_heap e' r = ee_heap e1 r"
    "om_orders (ee_om e') = om_orders (ee_om e1)"
      "om_on_order (ee_om e') = om_on_order (ee_om e1)" "om_on_cancel (ee_om e') = om_on_cancel (ee_om e1)"
      "om_inv (ee_oms e')" "om_synced (ee_oms e')"
    using fill_pending_spec [of rs e1 tk stamp now] rd pending_list(2) [OF assms]
    by (auto simp: rs_def e1 simp del: fill_pending.simps)
  have rs: "set rs = waiting e (t_symbol tk)" "distinct rs"
    unfolding rs_def using pending_list [OF assms] by blast+
  have "fill_for e1 tk = fill_for e tk" by (simp add: fun_eq_iff fill_for_def e1)
  then show ?thesis
    using F(1-5) F(6) [unfolded e1(2)] F(7-) D(1) rs
    by (intro exI [of _ e'] exI [of _ "filter (\<lambda>r. triggers (ee_heap e1 r) tk) rs"] exI [of _ fs])
      (auto simp: run e1 simp del: fill_pending.simps)
qed

text \<open>With the engine's own callback alone, the world takes the fills into its positions.\<close>

lemma notify_all_plain:
  assumes "om_on_fill (ee_om e) = [on_fill_cb]"
  shows "notify_all e fs w = w\<lparr>ew_pm := run_ops pm_step (ew_pm w) fs\<rparr>"
proof (induction fs arbitrary: w)
  case (Cons f fs)
  then show ?case by (simp add: assms notify_on_fill del: notify.simps)
qed (cases w, simp)

lemma process_tick_spec:
  assumes "ee_inv e"
  shows "\<exists>e' rs fs. process_tick e tk stamp now = (None, e') \<and>
    distinct rs \<and> set rs = {r \<in> waiting e (t_symbol tk). triggers (ee_heap e r) tk} \<and>
    list_all2 (fill_for e tk) rs fs \<and>
    ee_world e' = (ee_world e)\<lparr>ew_pm := run_ops pm_step
       (pm_update_price (ew_pm (ee_world e)) (t_symbol tk) (mid_price tk) (t_timestamp tk)) fs\<rparr> \<and>
    ee_broker e' = None \<and> om_on_fill (ee_om e') = [on_fill_cb] \<and>
    (\<forall>r. if r \<in> set rs then \<exists>p. ee_heap e' r = apply_fill (ee_heap e r) p (o_remaining (ee_heap e r)) now
         else ee_heap e' r = ee_heap e r) \<and>
    om_orders (ee_om e') = om_orders (ee_om e) \<and>
    om_on_order (ee_om e') = om_on_order (ee_om e) \<and> om_on_cancel (ee_om e') = om_on_cancel (ee_om e) \<and>
    om_inv (ee_oms e') \<and> om_synced (ee_oms e')"
  using process_tick_core [OF ee_inv_core [OF assms], of tk stamp now, unfolded notify_all_plain [OF ee_invD(5) [OF assms]]]
  by (simp add: ee_invD(5) [OF assms])

lemma fill_for_quantity: "fill_for e tk r f \<Longrightarrow> f_quantity f = o_remaining (ee_heap e r)"
  by (auto simp: fill_for_def frame_simps order_fill_def)

lemma positive_fills_guarded:
  "(\<And>f. f \<in> set fs \<Longrightarrow> 0 < dval (f_quantity f)) \<Longrightarrow>
   guarded_run pm_step (\<lambda>m f. 0 < dval (f_quantity f)) m fs"
  by (induction fs arbitrary: m) auto

subsection \<open>Every operation of a paper engine keeps the invariant\<close>

lemma ee_core_tick:
  assumes "ee_core e"
  shows "ee_core (snd (process_tick e tk stamp now))"
proof -
  obtain e' rs where T: "process_tick e tk stamp now = (None, e')"
    "set rs = {r \<in> waiting e (t_symbol tk). triggers (ee_heap e r) tk}" "ee_broker e' = None"
    "\<forall>r. if r \<in> set rs then \<exists>p. ee_heap e' r = apply_fill (ee_heap e r) p (o_remaining (ee_heap e r)) now
         else ee_heap e' r = ee_heap e r"
    "om_orders (ee_om e') = om_orders (ee_om e)" "om_on_order (ee_om e') = om_on_order (ee_om e)"
    "om_on_cancel (ee_om e') = om_on_cancel (ee_om e)" "om_inv (ee_oms e')" "om_synced (ee_oms e')"
    using process_tick_core [OF assms, of tk stamp now] by blast
  note D = ee_coreD [OF assms]
  have wait: "o_filled (ee_heap e r) = 0" if "r \<in> set rs" for r
    using that D(6) T(2) by (auto simp: waiting_def)
  have "o_filled (ee_heap e' r) = 0 \<and> priced (ee_heap e' r) \<and> 0 < dval (o_remaining (ee_heap e' r))"
    if "dget (om_orders (ee_om e)) oid = Some r" "o_status (ee_heap e' r) = PENDING" for oid r
    using T(4) [rule_format, of r] D(6) [OF that(1)] that(2) wait [of r] update_fill_whole(2)
    by (cases "r \<in> set rs") auto
  then show ?thesis using T(1,3,5-) D(4,5) by (simp add: ee_core_def)
qed

lemma ee_inv_tick:
  assumes "ee_inv e"
  shows "ee_inv (snd (process_tick e tk stamp now))"
proof -
  obtain e' rs fs where T: "process_tick e tk stamp now = (None, e')"
    "set rs = {r \<in> waiting e (t_symbol tk). triggers (ee_heap e r) tk}" "list_all2 (fill_for e tk) rs fs"
    "ee_world e' = (ee_world e)\<lparr>ew_pm := run_ops pm_step
       (pm_update_price (ew_pm (ee_world e)) (t_symbol tk) (mid_price tk) (t_timestamp tk)) fs\<rparr>"
    "om_on_fill (ee_om e') = [on_fill_cb]"
    using process_tick_spec [OF assms, of tk stamp now] by blast
  note D = ee_invD [OF assms]
  have wait: "0 < dval (o_remaining (ee_heap e r))" if "r \<in> set rs" for r
    using that D(8) T(2) by (auto simp: waiting_def)
  have "0 < dval (f_quantity f)" if "f \<in> set fs" for f
  proof -
    from T(3) that obtain r where "r \<in> set rs" "fill_for e tk r f"
      by (metis list_all2_conv_all_nth in_set_conv_nth)
    with wait show ?thesis by (simp add: fill_for_quantity)
  qed
  then have "pm_inv (ew_pm (ee_world e'))"
    unfolding T(4) using D(4) by (simp add: pmr.run_inv pm_inv_update_price positive_fills_guarded)
  then show ?thesis using ee_core_tick [OF ee_inv_core [OF assms], of tk stamp now] T(1,5) by (simp add: ee_inv_def)
qed

lemma put_oms_twice [simp]: "put_oms (put_oms e s) s' = put_oms e s'"
  and put_oms_same [simp]: "put_oms e (ee_oms e) = e"
  by (cases s; cases s'; simp add: put_oms_def ee_oms_def)+

lemma ee_core_cancel_order:
  assumes "ee_core e"
  shows "ee_core (put_oms e (snd (cancel_order (ee_oms e) oid now)))"
    "ee_world (put_oms e (snd (cancel_order (ee_oms e) oid now))) = ee_world e"
    "om_on_fill (ee_om (put_oms e (snd (cancel_order (ee_oms e) oid now)))) = om_on_fill (ee_om e)"
proof -
  note D = ee_coreD [OF assms]
  have I: "om_inv (snd (cancel_order (ee_oms e) oid now))" "om_synced (snd (cancel_order (ee_oms e) oid now))"
    using om_inv_cancel om_synced_cancel D(2,3) by blast+
  have "ee_core (put_oms e (snd (cancel_order (ee_om e, ee_heap e, ee_world e) oid now))) \<and>
    ee_world (put_oms e (snd (cancel_order (ee_om e, ee_heap e, ee_world e) oid now))) = ee_world e \<and>
    om_on_fill (ee_om (put_oms e (snd (cancel_order (ee_om e, ee_heap e, ee_world e) oid now)))) = om_on_fill (ee_om e)"
  proof (cases rule: cancel_orderE [of "ee_om e" "ee_heap e" "ee_world e" oid now])
    case refused
    with assms show ?thesis by (simp flip: ee_oms_def)
  next
    case (cancelled r)
    have "o_status (cancel (ee_heap e r) now) \<noteq> PENDING"
      using cancel_not_active [of "ee_heap e r" now] by (auto simp: is_active_def)
    with cancelled I D show ?thesis by (auto simp: ee_core_def ee_oms_def)
  qed
  then show "ee_core (put_oms e (snd (cancel_order (ee_oms e) oid now)))"
    "ee_world (put_oms e (snd (cancel_order (ee_oms e) oid now))) = ee_world e"
    "om_on_fill (ee_om (put_oms e (snd (cancel_order (ee_oms e) oid now)))) = om_on_fill (ee_om e)"
    by (simp_all add: ee_oms_def)
qed

lemma ee_inv_cancel_order: "ee_inv e \<Longrightarrow> ee_inv (put_oms e (snd (cancel_order (ee_oms e) oid now)))"
  by (simp add: ee_inv_def ee_core_cancel_order)

lemma ee_inv_cancel_each:
  "ee_inv e \<Longrightarrow> ee_inv (put_oms e (snd (cancel_each (ee_oms e) rs now)))"
proof (induction rs arbitrary: e)
  case (Cons r rs)
  from Cons.IH [OF ee_inv_cancel_order [OF Cons.prems, of "o_id (ee_heap e r)" now]]
  show ?case by (simp add: split_beta Let_def) (simp add: ee_oms_def)
qed simp

text \<open>A submitted order is new: active, unfilled, with a positive quantity and its prices.\<close>

definition submittable :: "order \<Rightarrow> bool" where
  "submittable x \<longleftrightarrow> is_active x \<and> o_filled x = 0 \<and> priced x \<and> 0 < dval (o_remaining x)"

lemma ee_core_submit:
  assumes "ee_core e" "submittable (ee_heap e r)"
  obtains e' where "submit_order e r now = (True, e')" "ee_core e'" "ee_heap e' = set_status (ee_heap e) r PENDING"
    "om_orders (ee_om e') = dset (om_orders (ee_om e)) (o_id (ee_heap e r)) r"
    "om_on_fill (ee_om e') = om_on_fill (ee_om e)" "ee_world e' = ee_world e"
proof -
  note D = ee_coreD [OF assms(1)]
  let ?x = "ee_heap e r"
  obtain m where m: "register_order (ee_oms e) r = (m, ee_heap e, ee_world e)"
    "om_orders m = dset (om_orders (ee_om e)) (o_id ?x) r"
    "om_on_fill m = om_on_fill (ee_om e)" "om_on_order m = []" "om_on_cancel m = []"
    using D(4,5) by (simp add: register_order_def ee_oms_def Let_def)
  have inv: "om_inv (m, ee_heap e, ee_world e)" "om_synced (m, ee_heap e, ee_world e)"
    using om_inv_register [OF D(2), of r] om_synced_register [OF D(3), of r] assms(2) m(1)
    by (simp_all add: ee_oms_def submittable_def)
  define e' where "e' = (put_oms e (m, ee_heap e, ee_world e))\<lparr>ee_heap := set_status (ee_heap e) r PENDING\<rparr>"
  have e': "ee_om e' = m" "ee_heap e' = set_status (ee_heap e) r PENDING" "ee_world e' = ee_world e" "ee_broker e' = None"
    "ee_oms e' = (m, set_status (ee_heap e) r PENDING, ee_world e)"
    using D(1) by (simp_all add: e'_def ee_oms_def)
  have sub: "submit_order e r now = (True, e')"
    using D(1) by (simp add: submit_order_def m(1) live_broker_def e'_def)
  have "om_inv (m, set_status (ee_heap e) r PENDING, ee_world e)"
    unfolding set_status_def by (rule om_inv_heap_upd(1) [OF inv(1), of "o_id ?x"]) (simp_all add: m(2))
  moreover have "om_synced (m, set_status (ee_heap e) r PENDING, ee_world e)"
    unfolding set_status_def using assms(2)
    by (intro om_synced_heap_upd(1) [OF inv, of "o_id ?x"]) (simp_all add: m(2) is_active_def submittable_def)
  ultimately have "ee_core e'"
    using D(6) assms(2) m by (auto simp: ee_core_def e' set_status_def submittable_def priced_def split: if_splits)
  with sub m show ?thesis by (intro that [of e']) (simp_all add: e')
qed

lemma ee_inv_submit:
  assumes "ee_inv e" "submittable (ee_heap e r)"
  shows "fst (submit_order e r now)" "ee_inv (snd (submit_order e r now))"
proof -
  obtain e' where "submit_order e r now = (True, e')" "ee_core e'"
    "om_on_fill (ee_om e') = om_on_fill (ee_om e)" "ee_world e' = ee_world e"
    by (rule ee_core_submit [OF ee_inv_core [OF assms(1)] assms(2)])
  with assms(1) show "fst (submit_order e r now)" "ee_inv (snd (submit_order e r now))"
    by (simp_all add: ee_inv_def)
qed

datatype ee_op =
  EE_Submit oref time | EE_Cancel string time | EE_Cancel_All "symbol option" time | EE_Tick tick string time

fun ee_step :: "('b, 'w) exec_engine \<Rightarrow> ee_op \<Rightarrow> ('b, 'w) exec_engine" where
  "ee_step e (EE_Submit r now) = snd (submit_order e r now)"
| "ee_step e (EE_Cancel oid now) = snd (ee_cancel_order e oid now)"
| "ee_step e (EE_Cancel_All sy now) = snd (ee_cancel_all_orders e sy now)"
| "ee_step e (EE_Tick tk stamp now) = snd (process_tick e tk stamp now)"

fun ee_guard :: "('b, 'w) exec_engine \<Rightarrow> ee_op \<Rightarrow> bool" where
  "ee_guard e (EE_Submit r now) = submittable (ee_heap e r)"
| "ee_guard e _ = True"

lemma ee_step_inv:
  assumes "ee_inv e" "ee_guard e x"
  shows "ee_inv (ee_step e x)"
proof (cases x)
  case (EE_Submit r now)
  with assms ee_inv_submit show ?thesis by simp
next
  case (EE_Cancel oid now)
  with ee_inv_cancel_order [OF assms(1), of oid now] ee_invD(1) [OF assms(1)]
  show ?thesis by (simp add: ee_cancel_order_def live_broker_def split_beta Let_def)
next
  case (EE_Cancel_All sy now)
  with ee_inv_cancel_each [OF assms(1), of _ now]
  show ?thesis by (simp add: ee_cancel_all_orders_def cancel_all_orders_def split_beta)
next
  case (EE_Tick tk stamp now)
  with ee_inv_tick [OF assms(1)] show ?thesis by simp
qed

interpretation eer: run_system ee_step ee_guard ee_inv
  by unfold_locales (rule ee_step_inv)

section \<open>The broker interface\<close>

text \<open>
  What the engine relies on in a broker adapter: submitting an order changes nothing but
  the status and the submission time of that order, and cancelling changes an order at
  most as \<open>Order.cancel\<close> does. The results and the broker's own state are free.
\<close>

locale broker_contract =
  fixes ops :: "'b broker_ops"
  assumes submit_frame: "br_submit ops b h r now = (res, b', h') \<Longrightarrow> r' \<noteq> r \<Longrightarrow> h' r' = h r'"
    and submit_order_frame: "br_submit ops b h r now = (res, b', h') \<Longrightarrow>
      \<exists>s t. h' r = (h r)\<lparr>o_status := s, o_submitted_at := t\<rparr>"
    and cancel_only: "br_cancel ops b h oid now = (res, b', h') \<Longrightarrow> h' r = h r \<or> h' r = cancel (h r) now"
begin

lemma submit_outcome:
  assumes "live_broker e = Some (ops, b)" "submit_order e r now = (ok, e')"
  shows "o_status (ee_heap e' r) = (if ok then ACCEPTED else REJECTED)"
    and "r' \<noteq> r \<Longrightarrow> ee_heap e' r' = ee_heap e r'"
    and "\<exists>s t. ee_heap e' r = (ee_heap e r)\<lparr>o_status := s, o_submitted_at := t\<rparr>"
proof -
  obtain m w where m: "register_order (ee_oms e) r = (m, ee_heap e, w)"
    by (simp add: register_order_def ee_oms_def Let_def)
  define e1 where "e1 = put_oms e (m, ee_heap e, w)"
  have e1: "live_broker e1 = Some (ops, b)" "ee_heap e1 = ee_heap e"
    using assms(1) by (simp_all add: e1_def live_broker_def)
  obtain res b1 h where s: "br_submit ops b (ee_heap e) r now = (res, b1, h)" by (cases "br_submit ops b (ee_heap e) r now")
  have o': "submit_order e r now =
    (case res of Inr ok \<Rightarrow>
       (ok, (put_broker e1 b1)\<lparr>ee_heap := (if ok then h(r := (h r)\<lparr>o_status := ACCEPTED, o_submitted_at := Some now\<rparr>)
                                       else set_status h r REJECTED)\<rparr>)
     | Inl exn \<Rightarrow> (False, (put_broker e1 b1)\<lparr>ee_heap := set_status h r REJECTED\<rparr>))"
    using e1 by (simp add: submit_order_def m s split: sum.split flip: e1_def)
  note S = submit_frame [OF s] submit_order_frame [OF s]
  from o' assms(2) show "o_status (ee_heap e' r) = (if ok then ACCEPTED else REJECTED)"
    by (auto simp: set_status_def split: sum.splits)
  from o' assms(2) S(1) [of r'] show "r' \<noteq> r \<Longrightarrow> ee_heap e' r' = ee_heap e r'"
    by (auto simp: set_status_def split: sum.splits)
  from S(2) obtain st t where "h r = (ee_heap e r)\<lparr>o_status := st, o_submitted_at := t\<rparr>" by blast
  with o' assms(2) show "\<exists>s t. ee_heap e' r = (ee_heap e r)\<lparr>o_status := s, o_submitted_at := t\<rparr>"
    by (cases "ee_heap e r") (auto simp: set_status_def split: sum.splits)
qed

lemma cancel_outcome:
  assumes "live_broker e = Some (ops, b)" "ee_cancel_order e oid now = (ok, e')"
  shows "dget (om_orders (ee_om e)) oid = Some r \<Longrightarrow> \<not> is_active (ee_heap e' r)"
    and "ee_heap e' r = ee_heap e r \<or> ee_heap e' r = cancel (ee_heap e r) now"
proof -
  obtain res b1 h where s: "br_cancel ops b (ee_heap e) oid now = (res, b1, h)"
    by (cases "br_cancel ops b (ee_heap e) oid now")
  have o': "ee_cancel_order e oid now =
    (let (ok, t) = cancel_order (ee_om e, h, ee_world e) oid now in (ok, put_oms ((put_broker e b1)\<lparr>ee_heap := h\<rparr>) t))"
    using assms(1) by (simp add: ee_cancel_order_def s ee_oms_def put_broker_def)
  have again: "cancel (cancel x now) now = cancel x now" for x
    by (simp add: cancel_def is_active_def)
  have H: "h r = ee_heap e r \<or> h r = cancel (ee_heap e r) now" for r using cancel_only [OF s] .
  show "dget (om_orders (ee_om e)) oid = Some r \<Longrightarrow> \<not> is_active (ee_heap e' r)"
    and "ee_heap e' r = ee_heap e r \<or> ee_heap e' r = cancel (ee_heap e r) now"
    by (cases rule: cancel_orderE [of "ee_om e" h "ee_world e" oid now];
        use o' assms(2) H [of r] again [of "ee_heap e r"] in \<open>auto simp: cancel_not_active\<close>)+
qed

end

section \<open>Properties of the execution engine\<close>

subsection \<open>Nothing is published\<close>

lemma cancel_each_emits:
  "ee_inv e \<Longrightarrow> ew_emitted (snd (snd (snd (cancel_each (ee_oms e) rs now)))) = ew_emitted (ee_world e)"
proof (induction rs arbitrary: e)
  case (Cons r rs)
  let ?s = "cancel_order (ee_oms e) (o_id (ee_heap e r)) now"
  have "ew_emitted (ee_world (put_oms e (snd ?s))) = ew_emitted (ee_world e)"
    using ee_invD(7) [OF Cons.prems]
    by (auto simp: cancel_order_def ee_oms_def put_oms_def split: option.splits)
  with Cons.IH [OF ee_inv_cancel_order [OF Cons.prems, of "o_id (ee_heap e r)" now]]
  show ?case by (simp add: split_beta Let_def) (simp add: ee_oms_def)
qed (simp add: ee_oms_def)

lemma ee_step_emits:
  assumes "ee_inv e" "ee_guard e x"
  shows "ew_emitted (ee_world (ee_step e x)) = ew_emitted (ee_world e)"
proof (cases x)
  case (EE_Submit r now)
  with ee_invD [OF assms(1)] show ?thesis
    by (simp add: submit_order_def register_order_def ee_oms_def put_oms_def Let_def live_broker_def)
next
  case (EE_Cancel oid now)
  with cancel_each_emits [OF assms(1), of _ now] ee_invD [OF assms(1)] show ?thesis
    by (auto simp: ee_cancel_order_def live_broker_def cancel_order_def ee_oms_def put_oms_def split: option.splits)
next
  case (EE_Cancel_All sy now)
  have w: "ee_world (put_oms e s) = snd (snd s)" for s by (cases s) simp
  show ?thesis
    using EE_Cancel_All cancel_each_emits [OF assms(1), of "get_active_orders (ee_oms e) sy" now]
    by (simp add: ee_cancel_all_orders_def cancel_all_orders_def split_beta w)
next
  case (EE_Tick tk stamp now)
  with process_tick_spec [OF assms(1), of tk stamp now] show ?thesis by force
qed

interpretation een: run_system ee_step ee_guard "\<lambda>e. ee_inv e \<and> ew_emitted (ee_world e) = []"
  by unfold_locales (simp add: eer.step_inv ee_step_emits)



text \<open>Trading on paper never publishes a fill event, whatever is submitted and filled: the
  callback fails on the missing enumeration member FILL after it has booked the fill, and
  the order manager swallows the exception.\<close>

theorem paper_run_publishes_nothing:
  assumes "e0 = new_engine None cm sm h n" "guarded_run ee_step ee_guard e0 xs"
  shows "ew_emitted (ee_world (run_ops ee_step e0 xs)) = [] \<and> pm_inv (ew_pm (ee_world (run_ops ee_step e0 xs)))"
proof -
  have "ew_emitted (ee_world e0) = []" "ee_inv e0" by (simp_all add: assms(1) ee_inv_new) (simp add: new_engine_def engine_within_def)
  then show ?thesis using een.run_inv [OF _ assms(2)] ee_invD(4) by blast
qed

theorem paper_run_publishes_nothing_witness:
  "ew_emitted (ee_world (run_ops ee_step (new_engine (None :: (unit broker_ops \<times> unit) option) \<lparr>per_share = 0, min_per_order = 0, max_percent = 0, flat_fee = 0\<rparr>
        \<lparr>fixed_slippage = 0, percentage = 0, volume_impact = 0\<rparr>
       (\<lambda>r. new_order sample_symbol BUY (Dec 5) MARKET None None DAY (nat_str r) None None 0) 0)
     [EE_Submit 1 3, EE_Tick \<lparr>t_symbol = sample_symbol, t_timestamp = 4, bid_price = Dec 9, ask_price = Dec 10, bid_size = 0,
        ask_size = 0, last_price = None, last_size = None\<rparr> ''t'' 5])) = []"
  by (rule paper_run_publishes_nothing [OF refl, THEN conjunct1])
    (simp only: guarded_run.simps ee_guard.simps simp_thms,
      simp add: new_engine_def engine_within_def submittable_def is_active_def new_order_def priced_def)

end
