(* ===== verification/Simulated_Broker.thy ===== *)
theory Simulated_Broker
  imports Execution_Engine
begin

section \<open>The simulated broker (\<open>src/adapters/simulated_broker.py\<close>)\<close>

text \<open>
  The broker keeps references to the engine's own orders. The random draws of a fill
  (two \<open>random.random()\<close> and one \<open>random.uniform(0.3, 0.7)\<close>) are arguments. With a latency
  the fill loop sleeps between taking an order off the queue and filling it: the order it
  holds meanwhile is \<open>sb_inflight\<close>, and other calls may run in between.
\<close>

record sim_broker =
  sb_connected :: bool
  sb_fill_probability :: flt
  sb_latency_ms :: flt
  sb_partial_probability :: flt
  sb_orders :: "(string, oref) dict"
  sb_latest_ticks :: "(skey, tick) dict"
  sb_pending :: "oref list"
  sb_inflight :: "oref option"
  sb_fill_task :: bool

definition new_sim_broker :: "flt \<Rightarrow> flt \<Rightarrow> flt \<Rightarrow> sim_broker" where
  "new_sim_broker fp lat pp =
     \<lparr>sb_connected = False, sb_fill_probability = fp, sb_latency_ms = lat, sb_partial_probability = pp,
      sb_orders = [], sb_latest_ticks = [], sb_pending = [], sb_inflight = None, sb_fill_task = False\<rparr>"

definition sb_connect :: "sim_broker \<Rightarrow> (exn + bool) \<times> sim_broker" where
  "sb_connect b = (Inr True, b\<lparr>sb_connected := True, sb_fill_task := True\<rparr>)"

text \<open>Disconnecting cancels the fill task; an order it was holding is dropped.\<close>

definition sb_disconnect :: "sim_broker \<Rightarrow> exn option \<times> sim_broker" where
  "sb_disconnect b = (None, b\<lparr>sb_connected := False, sb_inflight := None\<rparr>)"

definition sb_submit :: "sim_broker \<Rightarrow> heap \<Rightarrow> oref \<Rightarrow> time \<Rightarrow> (exn + bool) \<times> sim_broker \<times> heap" where
  "sb_submit b h r now =
     (if \<not> sb_connected b then (Inr False, b, h)
      else (Inr True,
            b\<lparr>sb_orders := dset (sb_orders b) (o_id (h r)) r, sb_pending := sb_pending b @ [r]\<rparr>,
            h(r := (h r)\<lparr>o_status := ACCEPTED, o_submitted_at := Some now\<rparr>)))"

definition sb_cancel :: "sim_broker \<Rightarrow> heap \<Rightarrow> string \<Rightarrow> time \<Rightarrow> (exn + bool) \<times> sim_broker \<times> heap" where
  "sb_cancel b h oid now =
     (case dget (sb_orders b) oid of
        None \<Rightarrow> (Inr False, b, h)
      | Some r \<Rightarrow>
          if is_active (h r) then (Inr True, b, h(r := cancel (h r) now)) else (Inr False, b, h))"

definition sim_ops :: "sim_broker broker_ops" where
  "sim_ops = \<lparr>br_connect = sb_connect, br_disconnect = sb_disconnect, br_is_connected = sb_connected,
              br_submit = sb_submit, br_cancel = sb_cancel\<rparr>"

definition positive_price :: "dec option \<Rightarrow> dec option" where
  "positive_price p = (case p of Some x \<Rightarrow> if 0 < x then Some x else None | None \<Rightarrow> None)"

definition sb_get_fill_price :: "sim_broker \<Rightarrow> order \<Rightarrow> dec option" where
  "sb_get_fill_price b x =
     (if o_type x = LIMIT \<and> o_limit_price x \<noteq> None \<and> o_limit_price x \<noteq> Some 0 then o_limit_price x
      else
        case dget (sb_latest_ticks b) (symbol_key (o_symbol x)) of
          None \<Rightarrow> None
        | Some tk \<Rightarrow>
            if o_side x = BUY \<and> 0 < ask_price tk then Some (ask_price tk)
            else if o_side x = SELL \<and> 0 < bid_price tk then Some (bid_price tk)
            else if positive_price (last_price tk) \<noteq> None then last_price tk
            else if 0 < mid_price tk then Some (mid_price tk)
            else None)"

definition inject_market_data :: "sim_broker \<Rightarrow> tick \<Rightarrow> sim_broker" where
  "inject_market_data b tk = b\<lparr>sb_latest_ticks := dset (sb_latest_ticks b) (symbol_key (t_symbol tk)) tk\<rparr>"

text \<open>\<open>Decimal.quantize\<close> to \<open>k\<close> places, half-even; more than 28 digits raise.\<close>

definition quantize :: "nat \<Rightarrow> dec \<Rightarrow> exn + dec" where
  "quantize k d =
     (let n = rhe (dval d * 10 ^ k)
      in if \<bar>n\<bar> < 10 ^ 28 then Inr (Dec (of_int n / 10 ^ k)) else Inl DecimalInvalidOperation)"

definition sb_simulate_fill ::
  "sim_broker \<Rightarrow> heap \<Rightarrow> oref \<Rightarrow> flt \<Rightarrow> flt \<Rightarrow> time \<Rightarrow> exn + heap" where
  "sb_simulate_fill b h r draw u now =
     (let x = h r in
      and_then
        (if draw \<le> sb_partial_probability b
         then quantize 2 (o_remaining x * dec_of_flt_str u) else Inr (o_remaining x))
        (\<lambda>q. case sb_get_fill_price b x of
               None \<Rightarrow> Inr h
             | Some p \<Rightarrow> and_then (update_fill x q p now) (\<lambda>x1. Inr (h(r := x1)))))"

text \<open>
  One iteration of \<open>_fill_loop\<close> in its two parts: the next order is taken off the queue and
  kept if it is active; after the latency, if the draw allows, it is filled. An exception
  is logged and the loop goes on. Without latency nothing runs between the parts.
\<close>

definition sb_take :: "sim_broker \<Rightarrow> heap \<Rightarrow> sim_broker" where
  "sb_take b h =
     (if sb_connected b \<and> sb_inflight b = None
      then (case sb_pending b of
              [] \<Rightarrow> b
            | r # rs \<Rightarrow> b\<lparr>sb_pending := rs, sb_inflight := (if is_active (h r) then Some r else None)\<rparr>)
      else b)"

definition sb_deliver ::
  "sim_broker \<Rightarrow> heap \<Rightarrow> flt \<Rightarrow> flt \<Rightarrow> flt \<Rightarrow> time \<Rightarrow> sim_broker \<times> heap" where
  "sb_deliver b h draw1 draw2 u now =
     (case sb_inflight b of
        None \<Rightarrow> (b, h)
      | Some r \<Rightarrow>
          (let b1 = b\<lparr>sb_inflight := None\<rparr> in
           if draw1 \<le> sb_fill_probability b
           then (case sb_simulate_fill b1 h r draw2 u now of Inl e \<Rightarrow> (b1, h) | Inr h1 \<Rightarrow> (b1, h1))
           else (b1, h)))"

definition sb_fill_round ::
  "sim_broker \<Rightarrow> heap \<Rightarrow> flt \<Rightarrow> flt \<Rightarrow> flt \<Rightarrow> time \<Rightarrow> sim_broker \<times> heap" where
  "sb_fill_round b h draw1 draw2 u now = sb_deliver (sb_take b h) h draw1 draw2 u now"

section \<open>The broker contract\<close>

interpretation sim: broker_contract sim_ops
proof unfold_locales
  fix b h r now res b' h' r'
  assume "br_submit sim_ops b h r now = (res, b', h')" "r' \<noteq> (r :: oref)"
  then show "h' r' = h r'" by (auto simp: sim_ops_def sb_submit_def split: if_splits)
next
  fix b h r now res b' h'
  assume "br_submit sim_ops b h r now = (res, b', h')"
  then show "\<exists>s t. h' r = (h r)\<lparr>o_status := s, o_submitted_at := t\<rparr>"
    by (cases "h r") (auto simp: sim_ops_def sb_submit_def split: if_splits)
next
  fix b h oid now res b' h' r
  assume "br_cancel sim_ops b h oid now = (res, b', h')"
  then show "h' r = h r \<or> h' r = cancel (h r) now"
    by (auto simp: sim_ops_def sb_cancel_def split: option.splits if_splits)
qed

section \<open>The broker as a transition system\<close>

text \<open>
  Quantities on the grid of hundredths, as \<open>quantize\<close> makes them, and within the exact
  range: filled and remaining add up to the quantity, and neither is negative.
\<close>

definition balanced :: "order \<Rightarrow> bool" where
  "balanced x \<longleftrightarrow>
     lot 2 (o_quantity x) \<and> on_grid 2 (dval (o_filled x)) \<and> on_grid 2 (dval (o_remaining x)) \<and>
     0 \<le> dval (o_filled x) \<and> 0 \<le> dval (o_remaining x) \<and>
     dval (o_filled x) + dval (o_remaining x) = dval (o_quantity x) \<and>
     (o_filled x \<noteq> 0 \<longrightarrow> o_avg_price x \<noteq> None)"

lemma balanced_lots:
  assumes "balanced x"
  shows "lot 2 (o_filled x)" "lot 2 (o_remaining x)"
  using assms by (auto simp: balanced_def lot_def)

lemma quantize_part:
  assumes "balanced x" "0 \<le> dval u" "dval u \<le> 1" "quantize 2 (o_remaining x * u) = Inr q"
  shows "on_grid 2 (dval q)" "0 \<le> dval q" "dval q \<le> dval (o_remaining x)"
proof -
  let ?r = "dval (o_remaining x)"
  let ?n = "rhe (dec_rnd (?r * dval u) * 10 ^ 2)"
  have q: "dval q = of_int ?n / 10 ^ 2" using assms(4) by (auto simp: quantize_def Let_def split: if_splits)
  have nn: "0 \<le> ?r" using assms(1) by (simp add: balanced_def)
  have ex: "dec_rnd ?r = ?r"
    using balanced_lots(2) [OF assms(1)] by (intro grid_exact [of 2]) (auto simp: lot_def)
  have le: "dec_rnd (?r * dval u) \<le> ?r"
    using nn assms(2,3) ex by (intro dr.r_le) (simp_all add: mult_left_le)
  from assms(1) obtain m where m: "?r = of_int m / 10 ^ 2" by (auto simp: balanced_def on_grid_def)
  show "on_grid 2 (dval q)" unfolding q on_grid_def by blast
  have "0 \<le> dec_rnd (?r * dval u)" using nn assms(2) by (intro dr.r_nonneg) simp
  then have "0 \<le> ?n" by (intro rhe_ge) simp
  then show "0 \<le> dval q" by (simp add: q)
  have "?n \<le> m" using le by (intro rhe_le) (simp add: m)
  then show "dval q \<le> ?r" by (simp add: q m divide_right_mono)
qed

lemma update_fill_balanced:
  assumes "balanced x" "on_grid 2 (dval q)" "0 \<le> dval q" "dval q \<le> dval (o_remaining x)"
    "update_fill x q p now = Inr x'"
  shows "balanced x'"
proof -
  have l: "lot 2 q"
  proof -
    have "\<bar>dval q\<bar> * 10 ^ 2 * 2 \<le> dval (o_remaining x) * 10 ^ 2 * 2" using assms(3,4) by simp
    moreover have "dval (o_remaining x) * 10 ^ 2 * 2 < 10 ^ 28"
      using balanced_lots(2) [OF assms(1)] by (auto simp: lot_def)
    ultimately show ?thesis using assms(2) by (simp add: lot_def)
  qed
  note D = update_fill_InrD [OF assms(5)]
  have "dval (o_filled x') = dval (o_filled x) + dval q" "dval (o_remaining x') = dval (o_remaining x) - dval q"
    using lot_add_exact [OF balanced_lots(1) [OF assms(1)] l] lot_minus_exact [OF balanced_lots(2) [OF assms(1)] l]
    by (simp_all add: D)
  with assms(1-4) D(7,9) show ?thesis by (auto simp: balanced_def intro: on_grid_add on_grid_diff)
qed

lemma balanced_frame [simp]:
  "balanced (x\<lparr>o_status := s, o_submitted_at := t\<rparr>) = balanced x"
  "balanced (cancel x now) = balanced x"
  by (simp_all add: balanced_def cancel_def)

text \<open>
  The steps of the broker: connecting and disconnecting, a submission, a cancellation, a
  price, and the two parts of the fill loop, in any interleaving.
\<close>

inductive sb_trans :: "sim_broker \<times> heap \<Rightarrow> sim_broker \<times> heap \<Rightarrow> bool" where
  Submitted: "balanced (h r) \<Longrightarrow> sb_submit b h r now = (res, b', h') \<Longrightarrow> sb_trans (b, h) (b', h')"
| Cancelled: "sb_cancel b h oid now = (res, b', h') \<Longrightarrow> sb_trans (b, h) (b', h')"
| Priced: "sb_trans (b, h) (inject_market_data b tk, h)"
| Connected: "\<not> sb_connected b \<Longrightarrow> sb_trans (b, h) (snd (sb_connect b), h)"
| Disconnected: "sb_trans (b, h) (snd (sb_disconnect b), h)"
| Taken: "sb_trans (b, h) (sb_take b h, h)"
| Delivered: "0 \<le> dval (dec_of_flt_str u) \<Longrightarrow> dval (dec_of_flt_str u) \<le> 1 \<Longrightarrow>
    sb_deliver b h draw1 draw2 u now = (b', h') \<Longrightarrow> sb_trans (b, h) (b', h')"

inductive_cases sb_transE: "sb_trans (b, h) (b', h')"

definition sb_inv :: "sim_broker \<times> heap \<Rightarrow> bool" where
  "sb_inv = (\<lambda>(b, h). (\<forall>r \<in> set (sb_pending b). balanced (h r)) \<and>
     (\<forall>r. sb_inflight b = Some r \<longrightarrow> balanced (h r)) \<and>
     (\<forall>oid r. dget (sb_orders b) oid = Some r \<longrightarrow> balanced (h r)))"

lemma sb_inv_heap:
  assumes "sb_inv (b, h)" "balanced (h r) \<Longrightarrow> balanced x"
  shows "sb_inv (b, h(r := x))"
  using assms by (auto simp: sb_inv_def)

lemma sb_simulate_fill_balanced:
  assumes "balanced (h r)" "0 \<le> dval (dec_of_flt_str u)" "dval (dec_of_flt_str u) \<le> 1"
    "sb_simulate_fill b h r draw u now = Inr h'"
  shows "\<exists>x. h' = h(r := x) \<and> balanced x"
proof (cases "sb_get_fill_price b (h r)")
  case None
  with assms(1,4) show ?thesis
    by (intro exI [of _ "h r"]) (auto simp: sb_simulate_fill_def Let_def and_then_Inr_iff)
next
  case (Some p)
  with assms(4) obtain q x where q: "(if draw \<le> sb_partial_probability b
      then quantize 2 (o_remaining (h r) * dec_of_flt_str u) else Inr (o_remaining (h r))) = Inr q"
    "update_fill (h r) q p now = Inr x" "h' = h(r := x)"
    by (auto simp: sb_simulate_fill_def Let_def and_then_Inr_iff)
  have "on_grid 2 (dval q) \<and> 0 \<le> dval q \<and> dval q \<le> dval (o_remaining (h r))"
    using q(1) quantize_part [OF assms(1-3)] assms(1) by (auto simp: balanced_def split: if_splits)
  with update_fill_balanced [OF assms(1) _ _ _ q(2)] q(3) show ?thesis by blast
qed

lemma sb_inv_step:
  assumes "sb_trans s s'" "sb_inv s"
  shows "sb_inv s'"
  using assms
proof (induction rule: sb_trans.induct)
  case (Submitted h r b now res b' h')
  then show ?case by (auto simp: sb_submit_def sb_inv_def split: if_splits)
next
  case (Cancelled b h oid now res b' h')
  then show ?case by (auto simp: sb_cancel_def split: option.splits if_splits intro: sb_inv_heap)
next
  case (Priced b h tk)
  then show ?case by (simp add: sb_inv_def inject_market_data_def)
next
  case (Connected b h)
  then show ?case by (simp add: sb_inv_def sb_connect_def)
next
  case (Disconnected b h)
  then show ?case by (simp add: sb_inv_def sb_disconnect_def)
next
  case (Taken b h)
  then show ?case by (auto simp: sb_inv_def sb_take_def split: list.splits)
next
  case (Delivered u b h draw1 draw2 now b' h')
  show ?case
  proof (cases "sb_inflight b")
    case None
    with Delivered show ?thesis by (simp add: sb_deliver_def)
  next
    case (Some r)
    let ?b = "b\<lparr>sb_inflight := None\<rparr>"
    have b: "sb_inv (?b, h)" "balanced (h r)" using Delivered.prems Some by (auto simp: sb_inv_def)
    have "b' = ?b \<and> (h' = h \<or> (\<exists>x. h' = h(r := x) \<and> balanced x))"
      using Delivered.hyps Some sb_simulate_fill_balanced [where h = h and r = r, OF b(2) Delivered.hyps(1,2)]
      by (auto simp: sb_deliver_def Let_def split: if_splits sum.splits)
    with b show ?thesis by (auto intro: sb_inv_heap)
  qed
qed

lemma sb_inv_reachable: "sb_trans\<^sup>*\<^sup>* s s' \<Longrightarrow> sb_inv s \<Longrightarrow> sb_inv s'"
  by (induction rule: rtranclp_induct) (auto intro: sb_inv_step)

section \<open>Properties of the broker and of the engine with it\<close>

definition sb_fresh :: "sim_broker \<Rightarrow> bool" where
  "sb_fresh b \<longleftrightarrow> sb_pending b = [] \<and> sb_orders b = [] \<and> sb_inflight b = None"


definition sample_order :: order where
  "sample_order = new_order \<lparr>ticker = ''X'', security_type = ''equity'', exchange = [], currency = ''USD'', sector = []\<rparr>
     BUY (Dec 5) LIMIT (Some (Dec 7)) None GTC ''A'' None None 0"

definition sample_broker :: sim_broker where
  "sample_broker = snd (sb_connect (new_sim_broker (flt_int 1) (flt_int 50) (- flt_int 1)))"

lemma sample_balanced: "balanced sample_order"
  using on_grid_of_int [of 2 5] by (simp add: balanced_def sample_order_def new_order_def lot_def)

lemma sample_submitted:
  "sb_trans (sample_broker, h(1 := sample_order))
     (sample_broker\<lparr>sb_orders := [(''A'', 1)], sb_pending := [1]\<rparr>,
      h(1 := sample_order\<lparr>o_status := ACCEPTED, o_submitted_at := Some 3\<rparr>))"
  by (rule sb_trans.Submitted [where r = 1 and now = 3 and res = "Inr True"])
    (simp_all add: sample_balanced sb_submit_def sample_broker_def sb_connect_def new_sim_broker_def,
      simp add: sample_order_def new_order_def)


text \<open>Without latency the fill loop never touches an order that has ended: an order that
  is not active keeps its whole state through any round.\<close>

theorem fill_round_spares_ended_orders:
  assumes "sb_inflight b = None" "\<not> is_active (h r)" "sb_fill_round b h draw1 draw2 u now = (b', h')"
  shows "h' r = h r \<and> sb_inflight b' = None"
  using assms
  by (auto simp: sb_fill_round_def sb_take_def sb_deliver_def sb_simulate_fill_def Let_def and_then_Inr_iff
      split: list.splits if_splits sum.splits option.splits)

theorem fill_round_spares_ended_orders_witness:
  "snd (sb_fill_round (sample_broker\<lparr>sb_pending := [1]\<rparr>) ((\<lambda>r. sample_order)(1 := cancel sample_order 4)) 0 0 0 5) 1 = cancel sample_order 4"
proof -
  let ?b = "sample_broker\<lparr>sb_pending := [1]\<rparr>" and ?h = "(\<lambda>r :: nat. sample_order)(1 := cancel sample_order 4)"
  obtain b' h' where r: "sb_fill_round ?b ?h 0 0 0 5 = (b', h')" by (cases "sb_fill_round ?b ?h 0 0 0 5")
  have "sb_inflight ?b = None" "\<not> is_active (?h 1)"
    by (simp_all add: cancel_not_active sample_broker_def sb_connect_def new_sim_broker_def)
  from fill_round_spares_ended_orders [OF this r] r show ?thesis by simp
qed

text \<open>With a latency it can: the order is checked before the sleep only, so there is a run
  in which a cancelled order is afterwards filled by the broker.\<close>

theorem cancelled_order_filled_after_latency:
  "\<exists>b h b' h'. sb_trans\<^sup>*\<^sup>* (sample_broker, h0(1 := sample_order)) (b, h) \<and> is_cancelled (h 1) \<and>
     sb_trans (b, h) (b', h') \<and> is_filled (h' 1)"
proof -
  let ?b = "sample_broker\<lparr>sb_orders := [(''A'', 1)], sb_pending := [1]\<rparr>"
  let ?x = "sample_order\<lparr>o_status := ACCEPTED, o_submitted_at := Some 3\<rparr>"
  let ?c = "?b\<lparr>sb_pending := [], sb_inflight := Some 1\<rparr>"
  have s: "sb_connected sample_broker" "sb_inflight sample_broker = None" "sb_fill_probability sample_broker = flt_int 1"
    "sb_partial_probability sample_broker = - flt_int 1"
    by (simp_all add: sample_broker_def sb_connect_def new_sim_broker_def)
  have "sb_trans (?b, h0(1 := ?x)) (sb_take ?b (h0(1 := ?x)), h0(1 := ?x))" by (rule sb_trans.Taken)
  moreover have "sb_take ?b (h0(1 := ?x)) = ?c" by (simp add: sb_take_def s is_active_def)
  ultimately have 1: "sb_trans (?b, h0(1 := ?x)) (?c, h0(1 := ?x))" by simp
  have 2: "sb_trans (?c, h0(1 := ?x)) (?c, h0(1 := cancel ?x 4))"
    by (rule sb_trans.Cancelled [where oid = "''A''" and now = 4 and res = "Inr True"])
      (simp add: sb_cancel_def is_active_def)
  let ?y = "apply_fill (cancel ?x 4) (Dec 7) (Dec 5) 5"
  have f: "o_filled ?x = 0" "o_remaining ?x = Dec 5" "sb_get_fill_price (?c\<lparr>sb_inflight := None\<rparr>) (cancel ?x 4) = Some (Dec 7)"
    by (simp_all add: sample_order_def new_order_def sb_get_fill_price_def cancel_def is_active_def dec_eq_iff)
  have draws: "\<not> flt_int 1 \<le> - flt_int 1" "flt_int 1 \<le> flt_int 1" by (simp_all add: flt_le_iff py_num_simps not_le fr.r_pos_iff)
  have d: "sb_deliver ?c (h0(1 := cancel ?x 4)) (flt_int 1) (flt_int 1) 0 5 = (?c\<lparr>sb_inflight := None\<rparr>, h0(1 := ?y))"
    using f draws by (simp add: sb_deliver_def sb_simulate_fill_def s frame_simps update_fill_def)
  have z: "dval (dec_of_flt_str 0) = 0" by code_simp
  have 3: "sb_trans (?c, h0(1 := cancel ?x 4)) (?c\<lparr>sb_inflight := None\<rparr>, h0(1 := ?y))"
    by (rule sb_trans.Delivered [OF _ _ d]) (simp_all add: z)
  have 4: "is_cancelled (cancel ?x 4)" by (simp add: is_cancelled_def cancel_def is_active_def)
  have "is_filled ?y" using f by (simp add: is_filled_def apply_fill_fields frame_simps dec_le_iff)
  moreover have "sb_trans\<^sup>*\<^sup>* (sample_broker, h0(1 := sample_order)) (?c, h0(1 := cancel ?x 4))"
    using sample_submitted [of h0] 1 2 by (meson converse_rtranclp_into_rtranclp rtranclp.rtrancl_refl)
  ultimately show ?thesis
    using 3 4 by (intro exI [of _ ?c] exI [of _ "h0(1 := cancel ?x 4)"] exI [of _ "?c\<lparr>sb_inflight := None\<rparr>"]
        exI [of _ "h0(1 := ?y)"]) simp
qed

text \<open>Submitting through the engine to the simulated broker: the result says what became
  of the order, ACCEPTED or REJECTED, no other field than status and submission time of that
  order changes, and no other order.\<close>

theorem submit_to_simulated_broker:
  assumes "live_broker e = Some (sim_ops, b)" "submit_order e r now = (ok, e')"
  shows "o_status (ee_heap e' r) = (if ok then ACCEPTED else REJECTED) \<and>
    (\<exists>s t. ee_heap e' r = (ee_heap e r)\<lparr>o_status := s, o_submitted_at := t\<rparr>) \<and>
    (\<forall>r'. r' \<noteq> r \<longrightarrow> ee_heap e' r' = ee_heap e r')"
  using sim.submit_outcome [OF assms] by blast

definition sample_engine :: "(sim_broker, unit) exec_engine" where
  "sample_engine =
     new_engine (Some (sim_ops, sample_broker)) \<lparr>per_share = 0, min_per_order = 0, max_percent = 0, flat_fee = 0\<rparr>
       \<lparr>fixed_slippage = 0, percentage = 0, volume_impact = 0\<rparr> (\<lambda>r. sample_order) 0"

lemma sample_engine_submit:
  "submit_order sample_engine 2 3 = (True, sample_engine
     \<lparr>ee_om := (empty_manager\<lparr>om_on_fill := [on_fill_cb]\<rparr>)\<lparr>om_orders := [(''A'', 2)],
        om_by_symbol := [(symbol_key (o_symbol sample_order), [''A''])], om_active := [''A'']\<rparr>,
      ee_broker := Some (sim_ops, sample_broker\<lparr>sb_orders := [(''A'', 2)], sb_pending := [2]\<rparr>),
      ee_heap := (\<lambda>r. sample_order)(2 := sample_order\<lparr>o_status := ACCEPTED, o_submitted_at := Some 3\<rparr>)\<rparr>)"
  by (simp add: submit_order_def sample_engine_def new_engine_def engine_within_def register_order_def ee_oms_def put_oms_def live_broker_def
      sim_ops_def sb_submit_def sample_broker_def sb_connect_def new_sim_broker_def put_broker_def empty_manager_def
      set_add_def Let_def) (simp add: sample_order_def new_order_def)

lemma sample_engine_live: "live_broker sample_engine = Some (sim_ops, sample_broker)"
  by (simp add: live_broker_def sample_engine_def new_engine_def engine_within_def sim_ops_def sample_broker_def sb_connect_def)

theorem submit_to_simulated_broker_witness:
  "o_status (ee_heap (snd (submit_order sample_engine 2 3)) 2) = ACCEPTED"
  using submit_to_simulated_broker [OF sample_engine_live sample_engine_submit] by (simp add: sample_engine_submit)

text \<open>Cancelling an active order through the engine at the simulated broker: the order does
  end as CANCELLED, but since the broker has already cancelled the shared object, the order
  manager refuses, so the call reports failure and the identifier stays in the active set.\<close>

theorem cancel_at_simulated_broker:
  assumes "live_broker e = Some (sim_ops, b)" "dget (om_orders (ee_om e)) oid = Some r"
    and "dget (sb_orders b) oid = Some r" "is_active (ee_heap e r)"
  shows "\<exists>e'. ee_cancel_order e oid now = (False, e') \<and> is_cancelled (ee_heap e' r) \<and>
    om_active (ee_om e') = om_active (ee_om e) \<and> (\<forall>r'. r' \<noteq> r \<longrightarrow> ee_heap e' r' = ee_heap e r')"
proof -
  let ?h = "(ee_heap e)(r := cancel (ee_heap e r) now)"
  have "br_cancel sim_ops b (ee_heap e) oid now = (Inr True, b, ?h)"
    using assms(3,4) by (simp add: sim_ops_def sb_cancel_def)
  moreover have "cancel_order (ee_om e, ?h, ee_world e) oid now = (False, (ee_om e, ?h, ee_world e))"
    using assms(2) by (simp add: cancel_order_def cancel_not_active)
  moreover have "is_cancelled (?h r)" using assms(4) by (simp add: is_cancelled_def cancel_def)
  ultimately show ?thesis using assms(1)
    by (simp add: ee_cancel_order_def ee_oms_def put_broker_def put_oms_def)
qed

theorem cancel_at_simulated_broker_witness:
  "fst (ee_cancel_order (snd (submit_order sample_engine 2 3)) ''A'' 4) = False"
proof -
  have "\<exists>e'. ee_cancel_order (snd (submit_order sample_engine 2 3)) ''A'' 4 = (False, e') \<and> is_cancelled (ee_heap e' 2) \<and>
    om_active (ee_om e') = om_active (ee_om (snd (submit_order sample_engine 2 3))) \<and>
    (\<forall>r'. r' \<noteq> 2 \<longrightarrow> ee_heap e' r' = ee_heap (snd (submit_order sample_engine 2 3)) r')"
    by (rule cancel_at_simulated_broker [where b = "sample_broker\<lparr>sb_orders := [(''A'', 2)], sb_pending := [2]\<rparr>"])
      (simp_all add: sample_engine_submit live_broker_def sim_ops_def sample_broker_def sb_connect_def is_active_def)
  then show ?thesis by auto
qed

end
