(* ===== verification/Portfolio.thy ===== *)
theory Portfolio
  imports Trading_Models
begin

section \<open>The portfolio (\<open>src/portfolio/portfolio.py\<close>)\<close>

text \<open>
  Cash, positions, trades and snapshots. The dictionary of positions keeps, with each
  position, the \<open>Symbol\<close> object it was first stored under: writing an existing key
  of a Python dictionary keeps the old key object, and \<open>get_sector_exposure\<close> reads the
  key's sector.
\<close>

record snapshot =
  sn_timestamp :: time
  sn_cash :: dec
  sn_positions_value :: dec
  sn_total_value :: dec
  sn_unrealized :: dec
  sn_realized :: dec

definition leverage :: "snapshot \<Rightarrow> exn + flt" where
  "leverage s =
     (if sn_total_value s = 0 then Inr 0
      else flt_div (flt_of_dec (sn_positions_value s)) (flt_of_dec (sn_total_value s)))"

record portfolio =
  pf_initial_cash :: dec
  pf_cash :: dec
  pf_positions :: "(skey, symbol \<times> position) dict"
  pf_trades :: "trade list"
  pf_snapshots :: "snapshot list"
  pf_start :: time

definition new_portfolio :: "dec \<Rightarrow> time \<Rightarrow> portfolio" where
  "new_portfolio cash now =
     \<lparr>pf_initial_cash = cash, pf_cash = cash, pf_positions = [], pf_trades = [], pf_snapshots = [],
      pf_start = now\<rparr>"

definition held :: "portfolio \<Rightarrow> position list" where
  "held pf = map (\<lambda>(k, s, p). p) (pf_positions pf)"

definition pf_get_position :: "portfolio \<Rightarrow> symbol \<Rightarrow> position option" where
  "pf_get_position pf s = map_option snd (dget (pf_positions pf) (symbol_key s))"

definition pf_get_all_positions :: "portfolio \<Rightarrow> position list" where
  "pf_get_all_positions pf = filter (\<lambda>p. 0 < p_quantity p) (held pf)"

definition positions_value :: "portfolio \<Rightarrow> dec" where
  "positions_value pf = dec_sum (map market_value (filter (\<lambda>p. p_current p \<noteq> None) (held pf)))"

definition total_value :: "portfolio \<Rightarrow> dec" where
  "total_value pf = pf_cash pf + positions_value pf"

definition total_return :: "portfolio \<Rightarrow> dec" where
  "total_return pf = total_value pf - pf_initial_cash pf"

definition total_return_percent :: "portfolio \<Rightarrow> exn + flt" where
  "total_return_percent pf =
     (if pf_initial_cash pf = 0 then Inr 0
      else and_then (flt_div (flt_of_dec (total_return pf)) (flt_of_dec (pf_initial_cash pf)))
             (\<lambda>x. Inr (x * flt_int 100)))"

definition pf_unrealized_pnl :: "portfolio \<Rightarrow> dec" where
  "pf_unrealized_pnl pf = dec_sum (map unrealized_pnl (held pf))"

definition pf_realized_pnl :: "portfolio \<Rightarrow> dec" where
  "pf_realized_pnl pf = dec_sum (map net_pnl (pf_trades pf))"

definition update_position :: "portfolio \<Rightarrow> position \<Rightarrow> portfolio" where
  "update_position pf p =
     (let k = symbol_key (p_symbol p) in
      if 0 < p_quantity p
      then pf\<lparr>pf_positions := dset (pf_positions pf) k
                (case dget (pf_positions pf) k of None \<Rightarrow> p_symbol p | Some (s, _) \<Rightarrow> s, p)\<rparr>
      else pf\<lparr>pf_positions := ddel (pf_positions pf) k\<rparr>)"

definition update_cash :: "portfolio \<Rightarrow> dec \<Rightarrow> portfolio" where
  "update_cash pf amount = pf\<lparr>pf_cash := pf_cash pf + amount\<rparr>"

definition record_trade :: "portfolio \<Rightarrow> trade \<Rightarrow> portfolio" where
  "record_trade pf t =
     (let pf1 = pf\<lparr>pf_trades := pf_trades pf @ [t]\<rparr>;
          trade_value = tr_quantity t * tr_exit_price t;
          pf2 = (if tr_side t = BUY then pf1\<lparr>pf_cash := pf_cash pf1 + trade_value\<rparr>
                 else pf1\<lparr>pf_cash := pf_cash pf1 - trade_value\<rparr>)
      in pf2\<lparr>pf_cash := pf_cash pf2 - (tr_commission t + tr_slippage t)\<rparr>)"

definition take_snapshot :: "portfolio \<Rightarrow> time \<Rightarrow> snapshot \<times> portfolio" where
  "take_snapshot pf now =
     (let s = \<lparr>sn_timestamp = now, sn_cash = pf_cash pf, sn_positions_value = positions_value pf,
               sn_total_value = total_value pf, sn_unrealized = pf_unrealized_pnl pf,
               sn_realized = pf_realized_pnl pf\<rparr>
      in (s, pf\<lparr>pf_snapshots := pf_snapshots pf @ [s]\<rparr>))"

definition get_buying_power :: "portfolio \<Rightarrow> flt \<Rightarrow> exn + dec" where
  "get_buying_power pf margin_requirement =
     and_then (flt_div (flt_int 1) margin_requirement)
       (\<lambda>x. Inr (pf_cash pf * dec_of_flt_str x))"

definition get_exposure_by_symbol :: "portfolio \<Rightarrow> (skey, dec) dict" where
  "get_exposure_by_symbol pf =
     (let total = total_value pf in
      if total = 0 then []
      else map (\<lambda>(k, s, p). (k, market_value p / total))
             (filter (\<lambda>(k, s, p). 0 < market_value p) (pf_positions pf)))"

text \<open>The loop that adds up the positive market values by sector.\<close>

definition sector_of :: "symbol \<Rightarrow> string" where
  "sector_of s = (if sector s \<noteq> [] then sector s else security_type s)"

fun sector_values :: "(skey \<times> symbol \<times> position) list \<Rightarrow> (string, dec) dict \<Rightarrow> (string, dec) dict" where
  "sector_values [] d = d"
| "sector_values ((k, s, p) # ps) d =
     (if market_value p \<le> 0 then sector_values ps d
      else sector_values ps
             (dset d (sector_of s)
               ((case dget d (sector_of s) of None \<Rightarrow> 0 | Some v \<Rightarrow> v) + market_value p)))"

definition get_sector_exposure :: "portfolio \<Rightarrow> (string, dec) dict" where
  "get_sector_exposure pf =
     (let total = total_value pf in
      if total = 0 then []
      else map (\<lambda>(sec, v). (sec, v / total))
             (filter (\<lambda>(sec, v). 0 < v) (sector_values (pf_positions pf) [])))"

record portfolio_summary =
  sum_initial_cash :: flt
  sum_cash :: flt
  sum_positions_value :: flt
  sum_total_value :: flt
  sum_total_return :: flt
  sum_total_return_pct :: "exn + flt"
  sum_unrealized :: flt
  sum_realized :: flt
  sum_position_count :: nat
  sum_trade_count :: nat

definition pf_get_summary :: "portfolio \<Rightarrow> portfolio_summary" where
  "pf_get_summary pf =
     \<lparr>sum_initial_cash = flt_of_dec (pf_initial_cash pf), sum_cash = flt_of_dec (pf_cash pf),
      sum_positions_value = flt_of_dec (positions_value pf), sum_total_value = flt_of_dec (total_value pf),
      sum_total_return = flt_of_dec (total_return pf), sum_total_return_pct = total_return_percent pf,
      sum_unrealized = flt_of_dec (pf_unrealized_pnl pf), sum_realized = flt_of_dec (pf_realized_pnl pf),
      sum_position_count = length (pf_get_all_positions pf), sum_trade_count = length (pf_trades pf)\<rparr>"

section \<open>Lemmas\<close>

text \<open>Every held position is open and stored under its own symbol.\<close>

definition pf_inv :: "portfolio \<Rightarrow> bool" where
  "pf_inv pf \<longleftrightarrow> dict_ok (pf_positions pf) \<and>
     (\<forall>k s p. dget (pf_positions pf) k = Some (s, p) \<longrightarrow>
        0 < dval (p_quantity p) \<and> symbol_key (p_symbol p) = k \<and> symbol_key s = k)"

lemma pf_inv_new: "pf_inv (new_portfolio c now)"
  by (simp add: pf_inv_def new_portfolio_def)

lemma pf_invD: "pf_inv pf \<Longrightarrow> dget (pf_positions pf) k = Some (s, p) \<Longrightarrow>
    0 < dval (p_quantity p) \<and> symbol_key (p_symbol p) = k \<and> symbol_key s = k"
  unfolding pf_inv_def by blast

lemma pf_get_position_update:
  "pf_get_position (update_position pf p) s =
     (if symbol_eq s (p_symbol p) then (if 0 < p_quantity p then Some p else None) else pf_get_position pf s)"
  by (auto simp: pf_get_position_def update_position_def symbol_eq_def Let_def)

lemma pf_inv_update:
  assumes "pf_inv pf"
  shows "pf_inv (update_position pf p)"
proof -
  let ?k = "symbol_key (p_symbol p)"
  have ok: "dict_ok (pf_positions (update_position pf p))"
    using assms by (simp add: pf_inv_def update_position_def Let_def)
  have "0 < dval (p_quantity q) \<and> symbol_key (p_symbol q) = k \<and> symbol_key s = k"
    if "dget (pf_positions (update_position pf p)) k = Some (s, q)" for k s q
  proof (cases "k = ?k")
    case False
    with that pf_invD [OF assms] show ?thesis by (simp add: update_position_def Let_def split: if_splits)
  next
    case True
    with that show ?thesis
      by (cases "dget (pf_positions pf) ?k")
        (auto simp: update_position_def Let_def dec_less_iff dest: pf_invD [OF assms] split: if_splits)
  qed
  with ok show ?thesis unfolding pf_inv_def by blast
qed

lemma record_trade_frame [frame_simps]:
  "pf_positions (record_trade pf t) = pf_positions pf" "pf_trades (record_trade pf t) = pf_trades pf @ [t]"
  "pf_initial_cash (record_trade pf t) = pf_initial_cash pf"
  by (simp_all add: record_trade_def Let_def)

datatype pf_op = Set_Position position | Cash_Flow dec | Record_Trade trade | Snapshot time

fun pf_step :: "portfolio \<Rightarrow> pf_op \<Rightarrow> portfolio" where
  "pf_step pf (Set_Position p) = update_position pf p"
| "pf_step pf (Cash_Flow c) = update_cash pf c"
| "pf_step pf (Record_Trade t) = record_trade pf t"
| "pf_step pf (Snapshot now) = snd (take_snapshot pf now)"

interpretation pfr: counting_system pf_step "\<lambda>_ _. True" pf_inv "\<lambda>pf. length (pf_trades pf)"
proof unfold_locales
  fix pf x
  assume "pf_inv pf"
  then show "pf_inv (pf_step pf x)"
    by (cases x) (simp_all add: pf_inv_update, simp_all add: pf_inv_def update_cash_def take_snapshot_def frame_simps Let_def)
  show "length (pf_trades pf) \<le> length (pf_trades (pf_step pf x))"
    by (cases x) (simp_all add: update_cash_def take_snapshot_def frame_simps update_position_def Let_def)
qed

text \<open>Cash after recording trades, as an exact sum.\<close>

definition trade_cash :: "trade \<Rightarrow> rat" where
  "trade_cash t =
     (let v = dval (tr_quantity t) * dval (tr_exit_price t) in
      (if tr_side t = BUY then v else - v) - (dval (tr_commission t) + dval (tr_slippage t)))"

text \<open>The amounts a trade moves are on the grid, and small.\<close>

definition trade_on_grid :: "nat \<Rightarrow> rat \<Rightarrow> trade \<Rightarrow> bool" where
  "trade_on_grid k B t \<longleftrightarrow>
     on_grid k (dval (tr_quantity t) * dval (tr_exit_price t)) \<and>
     on_grid k (dval (tr_commission t)) \<and> on_grid k (dval (tr_slippage t)) \<and>
     \<bar>dval (tr_quantity t) * dval (tr_exit_price t)\<bar> + \<bar>dval (tr_commission t)\<bar> + \<bar>dval (tr_slippage t)\<bar> \<le> B"

lemma record_trade_cash:
  assumes "trade_on_grid k B t" "on_grid k (dval (pf_cash pf))" "(\<bar>dval (pf_cash pf)\<bar> + B) * 10 ^ k < 10 ^ 28"
  shows "dval (pf_cash (record_trade pf t)) = dval (pf_cash pf) + trade_cash t"
proof -
  let ?c = "dval (pf_cash pf)" and ?v = "dval (tr_quantity t) * dval (tr_exit_price t)"
  let ?x = "dval (tr_commission t)" and ?y = "dval (tr_slippage t)"
  have g: "on_grid k ?v" "on_grid k ?x" "on_grid k ?y" "\<bar>?v\<bar> + \<bar>?x\<bar> + \<bar>?y\<bar> \<le> B"
    using assms(1) by (simp_all add: trade_on_grid_def)
  have ex: "dec_rnd z = z" if "on_grid k z" "\<bar>z\<bar> \<le> \<bar>?c\<bar> + B" for z
  proof (rule grid_exact [OF that(1)])
    have "\<bar>z\<bar> * 10 ^ k \<le> (\<bar>?c\<bar> + B) * 10 ^ k" using that(2) by (intro mult_right_mono) auto
    then show "\<bar>z\<bar> * 10 ^ k < 10 ^ 28" using assms(3) by (rule le_less_trans)
  qed
  have 1: "dec_rnd ?v = ?v" "dec_rnd (?x + ?y) = ?x + ?y"
    by (rule ex; use g in \<open>auto intro: on_grid_add\<close>)+
  have 2: "dec_rnd (?c + ?v) = ?c + ?v" "dec_rnd (?c - ?v) = ?c - ?v"
    by (rule ex; use g assms(2) in \<open>auto intro: on_grid_add on_grid_diff\<close>)+
  have 3: "dec_rnd (?c + ?v - (?x + ?y)) = ?c + ?v - (?x + ?y)" "dec_rnd (?c - ?v - (?x + ?y)) = ?c - ?v - (?x + ?y)"
    by (rule ex; use g assms(2) in \<open>auto intro!: on_grid_add on_grid_diff\<close>)+
  show ?thesis by (simp add: record_trade_def trade_cash_def Let_def 1 2 3)
qed

lemma record_trades_cash:
  assumes "\<forall>t \<in> set ts. trade_on_grid k B t" "on_grid k (dval (pf_cash pf))" "0 \<le> B"
    "(\<bar>dval (pf_cash pf)\<bar> + of_nat (length ts) * B) * 10 ^ k < 10 ^ 28"
  shows "dval (pf_cash (foldl record_trade pf ts)) = dval (pf_cash pf) + sum_list (map trade_cash ts)"
  using assms
proof (induction ts arbitrary: pf)
  case Nil
  then show ?case by simp
next
  case (Cons t ts)
  let ?c = "dval (pf_cash pf)"
  have t: "trade_on_grid k B t" using Cons.prems(1) by simp
  have nn: "0 \<le> of_nat (length ts) * B" using Cons.prems(3) by simp
  have "(\<bar>?c\<bar> + B) * 10 ^ k \<le> (\<bar>?c\<bar> + of_nat (length (t # ts)) * B) * 10 ^ k"
    using nn by (intro mult_right_mono) (auto simp: algebra_simps)
  then have c1: "dval (pf_cash (record_trade pf t)) = ?c + trade_cash t"
    using Cons.prems(4) by (intro record_trade_cash [OF t Cons.prems(2)]) (rule le_less_trans)
  have tc: "\<bar>trade_cash t\<bar> \<le> B" "on_grid k (trade_cash t)"
    using t by (auto simp: trade_cash_def trade_on_grid_def Let_def intro!: on_grid_add on_grid_diff on_grid_minus)
  have "(\<bar>?c + trade_cash t\<bar> + of_nat (length ts) * B) * 10 ^ k \<le> (\<bar>?c\<bar> + of_nat (length (t # ts)) * B) * 10 ^ k"
    using tc(1) by (intro mult_right_mono) (auto simp: algebra_simps)
  then have "(\<bar>?c + trade_cash t\<bar> + of_nat (length ts) * B) * 10 ^ k < 10 ^ 28"
    using Cons.prems(4) by (rule le_less_trans)
  then have "dval (pf_cash (foldl record_trade (record_trade pf t) ts)) =
      ?c + trade_cash t + sum_list (map trade_cash ts)"
    using Cons.prems(1-3) tc(2) by (subst Cons.IH) (simp_all add: c1 on_grid_add)
  then show ?case by simp
qed

text \<open>The sectors' sums: the loop adds each sector's values in the order of the dictionary.\<close>

definition sector_positions :: "string \<Rightarrow> (skey \<times> symbol \<times> position) list \<Rightarrow> dec list" where
  "sector_positions sec ps =
     map (\<lambda>(k, s, p). market_value p) (filter (\<lambda>(k, s, p). sector_of s = sec \<and> 0 < market_value p) ps)"

lemma sector_values_spec:
  "dget (sector_values ps d) sec =
     (case dget d sec of
        Some v \<Rightarrow> Some (foldl (+) v (sector_positions sec ps))
      | None \<Rightarrow> if sector_positions sec ps = [] then None else Some (dec_sum (sector_positions sec ps)))"
  by (induction ps d rule: sector_values.induct)
    (auto simp: sector_positions_def not_le split: option.splits)

lemma market_value_nonneg: "0 \<le> dval (p_quantity p) \<Longrightarrow> (\<And>c. p_current p = Some c \<Longrightarrow> 0 \<le> dval c) \<Longrightarrow> 0 \<le> market_value p"
  by (auto simp: market_value_def dec_le_iff split: option.splits intro!: dr.r_nonneg mult_nonneg_nonneg)

section \<open>Properties of the portfolio\<close>

text \<open>C17. After recording any list of trades whose amounts are on a grid and stay within the 28
  digits of the context, the cash is exactly the starting cash plus the signed trade values
  less all commissions and slippages, and the trades are kept in order.\<close>

theorem portfolio_cash_exact:
  assumes "\<forall>t \<in> set ts. trade_on_grid k B t" "on_grid k (dval (pf_cash pf))" "0 \<le> B"
    "(\<bar>dval (pf_cash pf)\<bar> + of_nat (length ts) * B) * 10 ^ k < 10 ^ 28"
  shows "dval (pf_cash (foldl record_trade pf ts)) = dval (pf_cash pf) + sum_list (map trade_cash ts) \<and>
    pf_trades (foldl record_trade pf ts) = pf_trades pf @ ts"
proof -
  have "pf_trades (foldl record_trade pf ts) = pf_trades pf @ ts"
    by (induction ts arbitrary: pf) (simp_all add: frame_simps)
  with record_trades_cash [OF assms] show ?thesis by blast
qed

definition sample_trade :: "order_side \<Rightarrow> rat \<Rightarrow> rat \<Rightarrow> trade" where
  "sample_trade sd q c =
     \<lparr>tr_id = ''TRADE_1'', tr_symbol = \<lparr>ticker = ''X'', security_type = ''equity'', exchange = [], currency = ''USD'', sector = []\<rparr>,
      tr_entry_time = 1, tr_exit_time = 2, tr_side = sd, tr_quantity = Dec q, tr_entry_price = Dec 9, tr_exit_price = Dec 11,
      tr_realized = 0, tr_commission = Dec c, tr_slippage = 0, tr_exit_order_id = None\<rparr>"

theorem portfolio_cash_exact_witness:
  "dval (pf_cash (foldl record_trade (new_portfolio (Dec 1000) 0) [sample_trade BUY 10 3, sample_trade SELL 4 2])) = 1061"
proof -
  have i: "on_grid 0 (numeral n)" for n using on_grid_of_int [of 0 "numeral n"] by simp
  then have "\<forall>t \<in> set [sample_trade BUY 10 3, sample_trade SELL 4 2]. trade_on_grid 0 200 t"
    by (simp add: sample_trade_def trade_on_grid_def)
  from portfolio_cash_exact [OF this, of "new_portfolio (Dec 1000) 0"] show ?thesis
    by (simp add: new_portfolio_def i) (simp add: trade_cash_def sample_trade_def)
qed

lemma pf_step_position:
  "pf_get_position (pf_step pf x) s =
     (case x of Set_Position p \<Rightarrow>
        (if symbol_eq s (p_symbol p) then (if 0 < p_quantity p then Some p else None) else pf_get_position pf s)
      | _ \<Rightarrow> pf_get_position pf s)"
  by (cases x) (simp_all add: pf_get_position_update,
      simp_all add: pf_get_position_def update_cash_def frame_simps take_snapshot_def Let_def)

text \<open>The portfolio holds, for every symbol, the last position it was given, unless that one
  had no quantity, whatever cash flows, trades and snapshots come in between; and it never
  holds a position without quantity.\<close>

theorem portfolio_tracks_positions:
  "pf_get_position (run_ops pf_step (new_portfolio c now) xs) s =
     foldl (\<lambda>r x. case x of
              Set_Position p \<Rightarrow> (if symbol_eq s (p_symbol p) then (if 0 < p_quantity p then Some p else None) else r)
            | _ \<Rightarrow> r) None xs \<and>
   pf_get_all_positions (run_ops pf_step (new_portfolio c now) xs) = held (run_ops pf_step (new_portfolio c now) xs)"
proof
  let ?f = "\<lambda>r x. case x of
      Set_Position p \<Rightarrow> (if symbol_eq s (p_symbol p) then (if 0 < p_quantity p then Some p else None) else r) | _ \<Rightarrow> r"
  have "pf_get_position (run_ops pf_step pf xs) s = foldl ?f (pf_get_position pf s) xs" for pf
    by (induction xs arbitrary: pf) (simp_all add: pf_step_position)
  from this [of "new_portfolio c now"]
  show "pf_get_position (run_ops pf_step (new_portfolio c now) xs) s = foldl ?f None xs"
    by (simp add: pf_get_position_def new_portfolio_def)
  let ?pf = "run_ops pf_step (new_portfolio c now) xs"
  have inv: "pf_inv ?pf" using pfr.run_inv [OF pf_inv_new] by simp
  have "0 < p_quantity p" if "(k, s, p) \<in> set (pf_positions ?pf)" for k s p
    using pf_invD [OF inv, of k s p] that inv by (simp add: pf_inv_def dict_ok_def dec_less_iff)
  then show "pf_get_all_positions ?pf = held ?pf"
    by (auto simp: pf_get_all_positions_def held_def filter_id_conv)
qed

lemma sector_values_positive:
  "\<lbrakk>dict_ok d; \<And>v. v \<in> set (dvals d) \<Longrightarrow> 0 < v\<rbrakk> \<Longrightarrow>
   dict_ok (sector_values ps d) \<and> (\<forall>v \<in> set (dvals (sector_values ps d)). 0 < v)"
proof (induction ps d rule: sector_values.induct)
  case (2 k s p ps d)
  show ?case
  proof (cases "market_value p \<le> 0")
    case True
    with 2 show ?thesis by simp
  next
    case False
    let ?v = "(case dget d (sector_of s) of None \<Rightarrow> 0 | Some v \<Rightarrow> v) + market_value p"
    have "0 < ?v"
      using False 2(4) [of "the (dget d (sector_of s))"] dget_in_dvals [of d "sector_of s"]
      by (auto simp: dec_less_iff not_le dr.r_pos_iff split: option.split intro: add_pos_pos)
    then have "0 < v" if "v \<in> set (dvals (dset d (sector_of s) ?v))" for v
      using that 2(4) dvals_dset_subset [of "sector_of s" ?v d] by blast
    with 2(2) [OF False] 2(3) False show ?thesis by simp
  qed
qed simp

text \<open>The sector exposure is the share of each sector: a sector is listed exactly when some
  position in it has a positive market value, and its entry is the sum of those values over
  the portfolio's total value.\<close>

theorem sector_exposure_shares:
  "dget (get_sector_exposure pf) sec =
     (if total_value pf = 0 \<or> sector_positions sec (pf_positions pf) = [] then None
      else Some (dec_sum (sector_positions sec (pf_positions pf)) / total_value pf))"
proof -
  let ?d = "sector_values (pf_positions pf) []"
  have "filter (\<lambda>(sec, v). 0 < v) ?d = ?d"
    using sector_values_positive [of "[]" "pf_positions pf"] by (auto simp: filter_id_conv)
  then have "get_sector_exposure pf =
      (if total_value pf = 0 then [] else map (\<lambda>(sec, v). (sec, v / total_value pf)) ?d)"
    by (simp add: get_sector_exposure_def Let_def)
  then show ?thesis using sector_values_spec [of "pf_positions pf" "[]" sec] by (simp add: map_of_map)
qed

end
