(* ===== verification/Risk_Manager.thy ===== *)
theory Risk_Manager
  imports Portfolio
begin

section \<open>Pre-trade risk checks (\<open>src/risk/risk_manager.py\<close>)\<close>

text \<open>
  The manager reads the portfolio it shares with the engine, so the portfolio is an
  argument. A reason is a value that carries the numbers its text prints. Comparing a
  \<open>Decimal\<close> with a \<open>float\<close> is exact, that is, a comparison of rationals.
\<close>

datatype risk_rule_type =
  POSITION_SIZE_LIMIT | EXPOSURE_LIMIT | DRAWDOWN_LIMIT | CONCENTRATION_LIMIT | VOLATILITY_LIMIT

datatype risk_reason =
    No_Reason
  | Risk_Passed
  | Trading_Halted flt
  | Position_Too_Large flt flt
  | Too_Concentrated string flt flt
  | Too_Exposed flt flt
  | Insufficient_Power dec dec
  | Custom_Reason string

record risk_context =
  rc_portfolio :: portfolio
  rc_order :: "order option"
  rc_symbol :: "symbol option"
  rc_quantity :: "dec option"
  rc_price :: "dec option"

text \<open>\<open>RiskRule.check\<close> may be overridden; the base class accepts.\<close>

record risk_rule =
  rr_type :: risk_rule_type
  rr_max_value :: "dec option"
  rr_max_percent :: "flt option"
  rr_enabled :: bool
  rr_check :: "risk_context \<Rightarrow> exn + bool \<times> risk_reason"

definition base_rule_check :: "risk_context \<Rightarrow> exn + bool \<times> risk_reason" where
  "base_rule_check c = Inr (True, No_Reason)"

record risk_manager =
  rm_rules :: "risk_rule list"
  rm_custom_checks :: "(risk_context \<Rightarrow> exn + bool \<times> risk_reason) list"
  rm_max_position_size :: flt
  rm_max_total_exposure :: flt
  rm_max_drawdown :: flt
  rm_max_concentration :: flt

definition new_risk_manager :: risk_manager where
  "new_risk_manager =
     \<lparr>rm_rules = [], rm_custom_checks = [], rm_max_position_size = flt_int 10,
      rm_max_total_exposure = flt_int 100, rm_max_drawdown = flt_int 20,
      rm_max_concentration = flt_int 25\<rparr>"

definition add_rule :: "risk_manager \<Rightarrow> risk_rule \<Rightarrow> risk_manager" where
  "add_rule rm r = rm\<lparr>rm_rules := rm_rules rm @ [r]\<rparr>"

definition add_custom_check ::
  "risk_manager \<Rightarrow> (risk_context \<Rightarrow> exn + bool \<times> risk_reason) \<Rightarrow> risk_manager" where
  "add_custom_check rm c = rm\<lparr>rm_custom_checks := rm_custom_checks rm @ [c]\<rparr>"

text \<open>\<open>not x\<close> for an optional number: absent or zero.\<close>

definition missing :: "dec option \<Rightarrow> bool" where
  "missing x \<longleftrightarrow> (case x of None \<Rightarrow> True | Some d \<Rightarrow> d = 0)"

definition drawdown_ok :: "risk_manager \<Rightarrow> portfolio \<Rightarrow> bool" where
  "drawdown_ok rm pf =
     (if pf_initial_cash pf = 0 then True
      else
        let current_value = total_value pf; initial_value = pf_initial_cash pf;
            drawdown = (initial_value - current_value) / initial_value * dec_int 100
        in dval drawdown < fval (rm_max_drawdown rm))"

text \<open>A value as a percentage of the portfolio's, in floats.\<close>

definition percent_of :: "dec \<Rightarrow> dec \<Rightarrow> flt" where
  "percent_of v whole = flt_of_dec v / flt_of_dec whole * flt_int 100"

definition check_position_size :: "risk_manager \<Rightarrow> portfolio \<Rightarrow> risk_context \<Rightarrow> bool \<times> risk_reason" where
  "check_position_size rm pf c =
     (if missing (rc_price c) \<or> missing (rc_quantity c) then (True, No_Reason)
      else
        let position_value = the (rc_quantity c) * the (rc_price c); value = total_value pf in
        if value = 0 then (True, No_Reason)
        else
          let pct = percent_of position_value value in
          if rm_max_position_size rm < pct then (False, Position_Too_Large pct (rm_max_position_size rm))
          else (True, No_Reason))"

definition check_concentration_limit ::
  "risk_manager \<Rightarrow> portfolio \<Rightarrow> risk_context \<Rightarrow> exn + bool \<times> risk_reason" where
  "check_concentration_limit rm pf c =
     (case rc_symbol c of
        None \<Rightarrow> Inr (True, No_Reason)
      | Some s \<Rightarrow>
          if missing (rc_price c) then Inr (True, No_Reason)
          else
            let cq = (case pf_get_position pf s of None \<Rightarrow> 0 | Some p \<Rightarrow> p_quantity p) in
            and_then
              (case rc_order c of
                 Some x \<Rightarrow>
                   (if o_side x = BUY
                    then (case rc_quantity c of None \<Rightarrow> Inl TypeError | Some q \<Rightarrow> Inr (cq + q))
                    else Inr cq)
               | None \<Rightarrow> (case rc_quantity c of None \<Rightarrow> Inl TypeError | Some q \<Rightarrow> Inr q))
              (\<lambda>tq.
                 let tv = tq * the (rc_price c); value = total_value pf in
                 if value = 0 then Inr (True, No_Reason)
                 else
                   let pct = percent_of tv value in
                   if rm_max_concentration rm < pct
                   then Inr (False, Too_Concentrated (ticker s) pct (rm_max_concentration rm))
                   else Inr (True, No_Reason)))"

definition check_exposure_limit :: "risk_manager \<Rightarrow> portfolio \<Rightarrow> risk_context \<Rightarrow> bool \<times> risk_reason" where
  "check_exposure_limit rm pf c =
     (if missing (rc_price c) \<or> missing (rc_quantity c) then (True, No_Reason)
      else
        let new_value = the (rc_quantity c) * the (rc_price c);
            exposure = positions_value pf + new_value;
            value = total_value pf in
        if value = 0 then (True, No_Reason)
        else
          let pct = percent_of exposure value in
          if rm_max_total_exposure rm < pct then (False, Too_Exposed pct (rm_max_total_exposure rm))
          else (True, No_Reason))"

definition check_buying_power :: "portfolio \<Rightarrow> risk_context \<Rightarrow> exn + bool \<times> risk_reason" where
  "check_buying_power pf c =
     (if missing (rc_price c) \<or> missing (rc_quantity c) then Inr (True, No_Reason)
      else
        let order_value = the (rc_quantity c) * the (rc_price c) in
        and_then (get_buying_power pf (flt_int 1))
          (\<lambda>power.
             if power < order_value then Inr (False, Insufficient_Power power order_value)
             else Inr (True, No_Reason)))"

text \<open>The two loops over rules and functions: the first refusal is the answer.\<close>

fun run_checks :: "(risk_context \<Rightarrow> exn + bool \<times> risk_reason) list \<Rightarrow> risk_context \<Rightarrow> exn + bool \<times> risk_reason" where
  "run_checks [] c = Inr (True, Risk_Passed)"
| "run_checks (f # fs) c =
     and_then (f c) (\<lambda>(passed, reason). if passed then run_checks fs c else Inr (False, reason))"

definition order_context :: "portfolio \<Rightarrow> order \<Rightarrow> dec \<Rightarrow> risk_context" where
  "order_context pf x price =
     \<lparr>rc_portfolio = pf, rc_order = Some x, rc_symbol = Some (o_symbol x),
      rc_quantity = Some (o_quantity x), rc_price = Some price\<rparr>"

definition check_order :: "risk_manager \<Rightarrow> portfolio \<Rightarrow> order \<Rightarrow> dec \<Rightarrow> exn + bool \<times> risk_reason" where
  "check_order rm pf x price =
     (let c = order_context pf x price in
      if \<not> drawdown_ok rm pf then Inr (False, Trading_Halted (rm_max_drawdown rm))
      else
        case check_position_size rm pf c of (passed, reason) \<Rightarrow>
        if \<not> passed then Inr (False, reason)
        else and_then (check_concentration_limit rm pf c) (\<lambda>(passed, reason).
        if \<not> passed then Inr (False, reason)
        else
          case check_exposure_limit rm pf c of (passed, reason) \<Rightarrow>
          if \<not> passed then Inr (False, reason)
          else and_then (check_buying_power pf c) (\<lambda>(passed, reason).
          if \<not> passed then Inr (False, reason)
          else
            and_then (run_checks (map rr_check (filter rr_enabled (rm_rules rm))) c) (\<lambda>(passed, reason).
            if \<not> passed then Inr (False, reason)
            else run_checks (rm_custom_checks rm) c))))"

text \<open>\<open>int\<close> of a \<open>Decimal\<close> truncates towards zero.\<close>

definition dec_trunc :: "dec \<Rightarrow> int" where
  "dec_trunc d = (if 0 \<le> dval d then \<lfloor>dval d\<rfloor> else \<lceil>dval d\<rceil>)"

definition calculate_position_size :: "portfolio \<Rightarrow> dec \<Rightarrow> flt \<Rightarrow> flt \<Rightarrow> dec" where
  "calculate_position_size pf price risk_percent stop_percent =
     (let value = total_value pf;
          risk_amount = value * dec_of_flt_str (risk_percent / flt_int 100);
          risk_per_share = price * dec_of_flt_str (stop_percent / flt_int 100)
      in if risk_per_share = 0 then 0
         else dec_int (dec_trunc (risk_amount / risk_per_share)))"

record risk_summary =
  rs_current_drawdown :: flt
  rs_drawdown_limit :: flt
  rs_trading_halted :: bool
  rs_total_exposure :: flt
  rs_exposure_limit :: flt
  rs_max_concentration :: flt
  rs_concentration_limit :: flt
  rs_cash_available :: flt

definition get_risk_summary :: "risk_manager \<Rightarrow> portfolio \<Rightarrow> risk_summary" where
  "get_risk_summary rm pf =
     (let value = total_value pf; initial = pf_initial_cash pf;
          drawdown = (if 0 < initial then percent_of (initial - value) initial else 0);
          exposure = dvals (get_exposure_by_symbol pf)
      in \<lparr>rs_current_drawdown = drawdown, rs_drawdown_limit = rm_max_drawdown rm,
          rs_trading_halted = (rm_max_drawdown rm \<le> drawdown),
          rs_total_exposure =
            (if 0 < value then flt_of_dec (positions_value pf / value * dec_int 100) else 0),
          rs_exposure_limit = rm_max_total_exposure rm,
          rs_max_concentration = (case exposure of [] \<Rightarrow> 0 | d # ds \<Rightarrow> flt_of_dec (foldl max d ds)),
          rs_concentration_limit = rm_max_concentration rm,
          rs_cash_available = flt_of_dec (pf_cash pf)\<rparr>)"

section \<open>Lemmas\<close>

lemma repr_one: "dec_of_flt_str (flt_int 1 / flt_int 1) = 1"
  by code_simp

lemma buying_power_unit: "get_buying_power pf (flt_int 1) = Inr (pf_cash pf * 1)"
proof -
  have "fval (flt_int 1) \<noteq> 0" by code_simp
  then show ?thesis by (simp add: get_buying_power_def flt_div_def repr_one)
qed

lemma buying_power_le_cash:
  assumes "dec_rnd (dval (pf_cash pf)) = dval (pf_cash pf)" "get_buying_power pf (flt_int 1) = Inr b"
  shows "b = pf_cash pf"
  using assms by (auto simp: buying_power_unit dec_eq_iff)

lemma run_checks_passed:
  "run_checks fs c = Inr (True, r) \<longleftrightarrow> r = Risk_Passed \<and> (\<forall>f \<in> set fs. \<exists>r'. f c = Inr (True, r'))"
  by (induction fs) (auto simp: and_then_Inr_iff)

text \<open>The conditions an accepted order meets.\<close>

definition within_limits :: "risk_manager \<Rightarrow> portfolio \<Rightarrow> order \<Rightarrow> dec \<Rightarrow> bool" where
  "within_limits rm pf x price \<longleftrightarrow>
     (let value = total_value pf; notional = o_quantity x * price;
          cq = (case pf_get_position pf (o_symbol x) of None \<Rightarrow> 0 | Some p \<Rightarrow> p_quantity p);
          after = (if o_side x = BUY then cq + o_quantity x else cq)
      in drawdown_ok rm pf \<and>
         (price \<noteq> 0 \<and> o_quantity x \<noteq> 0 \<longrightarrow> notional \<le> pf_cash pf * 1) \<and>
         (value \<noteq> 0 \<longrightarrow>
            (price \<noteq> 0 \<and> o_quantity x \<noteq> 0 \<longrightarrow>
               percent_of notional value \<le> rm_max_position_size rm \<and>
               percent_of (positions_value pf + notional) value \<le> rm_max_total_exposure rm) \<and>
            (price \<noteq> 0 \<longrightarrow> percent_of (after * price) value \<le> rm_max_concentration rm)))"

lemma check_position_size_passed:
  "fst (check_position_size rm pf (order_context pf x price)) \<longleftrightarrow>
     (total_value pf \<noteq> 0 \<longrightarrow> price \<noteq> 0 \<and> o_quantity x \<noteq> 0 \<longrightarrow>
        percent_of (o_quantity x * price) (total_value pf) \<le> rm_max_position_size rm)"
  by (auto simp: check_position_size_def order_context_def missing_def Let_def not_less)

lemma check_exposure_limit_passed:
  "fst (check_exposure_limit rm pf (order_context pf x price)) \<longleftrightarrow>
     (total_value pf \<noteq> 0 \<longrightarrow> price \<noteq> 0 \<and> o_quantity x \<noteq> 0 \<longrightarrow>
        percent_of (positions_value pf + o_quantity x * price) (total_value pf) \<le> rm_max_total_exposure rm)"
  by (auto simp: check_exposure_limit_def order_context_def missing_def Let_def not_less)

lemma check_concentration_passed:
  "\<exists>b r. check_concentration_limit rm pf (order_context pf x price) = Inr (b, r) \<and>
     (b \<longleftrightarrow> (total_value pf \<noteq> 0 \<longrightarrow> price \<noteq> 0 \<longrightarrow>
        percent_of ((let cq = (case pf_get_position pf (o_symbol x) of None \<Rightarrow> 0 | Some p \<Rightarrow> p_quantity p)
                     in if o_side x = BUY then cq + o_quantity x else cq) * price) (total_value pf)
          \<le> rm_max_concentration rm))"
  by (auto simp: check_concentration_limit_def order_context_def missing_def Let_def not_less)

lemma check_buying_power_passed:
  "\<exists>b r. check_buying_power pf (order_context pf x price) = Inr (b, r) \<and>
     (b \<longleftrightarrow> (price \<noteq> 0 \<and> o_quantity x \<noteq> 0 \<longrightarrow> o_quantity x * price \<le> pf_cash pf * 1))"
  by (auto simp: check_buying_power_def order_context_def missing_def Let_def not_less buying_power_unit)

lemma check_order_accepts:
  "check_order rm pf x price = Inr (True, r) \<longleftrightarrow>
     r = Risk_Passed \<and> within_limits rm pf x price \<and>
     (\<forall>f \<in> set (map rr_check (filter rr_enabled (rm_rules rm)) @ rm_custom_checks rm).
        \<exists>r'. f (order_context pf x price) = Inr (True, r'))"
proof -
  let ?c = "order_context pf x price"
  obtain b1 r1 where 1: "check_position_size rm pf ?c = (b1, r1)" by (cases "check_position_size rm pf ?c")
  obtain b2 r2 where 2: "check_concentration_limit rm pf ?c = Inr (b2, r2)"
    using check_concentration_passed by blast
  obtain b3 r3 where 3: "check_exposure_limit rm pf ?c = (b3, r3)" by (cases "check_exposure_limit rm pf ?c")
  obtain b4 r4 where 4: "check_buying_power pf ?c = Inr (b4, r4)"
    using check_buying_power_passed by blast
  note P = check_position_size_passed [of rm pf x price, unfolded 1 fst_conv]
  note E = check_exposure_limit_passed [of rm pf x price, unfolded 3 fst_conv]
  have K: "b2 \<longleftrightarrow> (total_value pf \<noteq> 0 \<longrightarrow> price \<noteq> 0 \<longrightarrow>
      percent_of ((let cq = (case pf_get_position pf (o_symbol x) of None \<Rightarrow> 0 | Some p \<Rightarrow> p_quantity p)
                   in if o_side x = BUY then cq + o_quantity x else cq) * price) (total_value pf)
        \<le> rm_max_concentration rm)"
    using check_concentration_passed [of rm pf x price, unfolded 2] by blast
  have B: "b4 \<longleftrightarrow> (price \<noteq> 0 \<and> o_quantity x \<noteq> 0 \<longrightarrow> o_quantity x * price \<le> pf_cash pf * 1)"
    using check_buying_power_passed [of pf x price, unfolded 4] by blast
  have limits: "within_limits rm pf x price \<longleftrightarrow> drawdown_ok rm pf \<and> b1 \<and> b2 \<and> b3 \<and> b4"
    unfolding within_limits_def P E K B Let_def by satx
  have "check_order rm pf x price = Inr (True, r) \<longleftrightarrow>
      (drawdown_ok rm pf \<and> b1 \<and> b2 \<and> b3 \<and> b4) \<and>
      (\<exists>s. run_checks (map rr_check (filter rr_enabled (rm_rules rm))) ?c = Inr (True, s)) \<and>
      run_checks (rm_custom_checks rm) ?c = Inr (True, r)"
    by (cases "drawdown_ok rm pf"; cases b1; cases b2; cases b3; cases b4)
      (simp_all add: check_order_def Let_def 1 2 3 4 and_then_Inr_iff split_beta, metis (no_types, lifting) fst_conv prod.collapse)
  then show ?thesis unfolding limits run_checks_passed by auto
qed

lemma dec_trunc_bounds: "0 \<le> dval d \<Longrightarrow> of_int (dec_trunc d) \<le> dval d \<and> dval d < of_int (dec_trunc d) + 1"
  using floor_correct [of "dval d"] by (simp add: dec_trunc_def)

lemma get_risk_summary_frame [frame_simps]:
  "rs_total_exposure (get_risk_summary rm pf) =
     (if 0 < total_value pf then flt_of_dec (positions_value pf / total_value pf * dec_int 100) else 0)"
  by (simp add: get_risk_summary_def Let_def)

section \<open>Properties of the risk manager\<close>

text \<open>C12. A pre-trade check accepts an order exactly when the portfolio is above its drawdown
  stop, the order fits the position-size, exposure and concentration limits and the cash, and
  every enabled rule and custom check accepts it; otherwise it never passes.\<close>

theorem risk_check_exact:
  "check_order rm pf x price = Inr (True, r) \<longleftrightarrow>
     r = Risk_Passed \<and> within_limits rm pf x price \<and>
     list_all (\<lambda>f. \<exists>r'. f (order_context pf x price) = Inr (True, r'))
       (map rr_check (filter rr_enabled (rm_rules rm)) @ rm_custom_checks rm)"
  unfolding check_order_accepts list_all_iff ..

text \<open>No order that passes the check costs more than the cash at hand, and none is let
  through while the loss since the start reaches the drawdown limit.\<close>

theorem accepted_order_affordable:
  assumes "check_order rm pf x price = Inr (True, r)" "price \<noteq> 0" "o_quantity x \<noteq> 0"
    and "on_grid k (dval (pf_cash pf))" "\<bar>dval (pf_cash pf)\<bar> * 10 ^ k < 10 ^ 28"
  shows "o_quantity x * price \<le> pf_cash pf \<and>
    (pf_initial_cash pf \<noteq> 0 \<longrightarrow>
       dval ((pf_initial_cash pf - total_value pf) / pf_initial_cash pf * dec_int 100) < fval (rm_max_drawdown rm))"
proof -
  have "within_limits rm pf x price" using assms(1) by (simp add: check_order_accepts)
  moreover have "pf_cash pf * 1 = pf_cash pf" using grid_exact [OF assms(4,5)] by (simp add: dec_eq_iff)
  ultimately have "o_quantity x * price \<le> pf_cash pf" "drawdown_ok rm pf"
    using assms(2,3) by (simp_all add: within_limits_def Let_def)
  then show ?thesis by (simp add: drawdown_ok_def Let_def split: if_splits del: dval_simps)
qed

definition sample_buy :: order where
  "sample_buy = new_order \<lparr>ticker = ''X'', security_type = ''equity'', exchange = [], currency = ''USD'', sector = []\<rparr>
     BUY (Dec 3) MARKET None None DAY ''A'' None None 0"

lemma sample_check: "check_order new_risk_manager (new_portfolio (Dec 1000) 0) sample_buy (Dec 20) = Inr (True, Risk_Passed)"
proof -
  let ?pf = "new_portfolio (Dec 1000) 0"
  have v: "total_value ?pf = Dec 1000" "positions_value ?pf = 0" by code_simp+
  have d: "drawdown_ok new_risk_manager ?pf" by code_simp
  have p: "Dec 3 * Dec 20 = Dec 60" "0 + Dec 60 = Dec 60" "Dec 1000 * 1 = Dec 1000" "0 + Dec 3 = Dec 3" by code_simp+
  have q: "percent_of (Dec 60) (Dec 1000) \<le> rm_max_position_size new_risk_manager"
    "percent_of (Dec 60) (Dec 1000) \<le> rm_max_total_exposure new_risk_manager"
    "percent_of (Dec 60) (Dec 1000) \<le> rm_max_concentration new_risk_manager" by code_simp+
  have "within_limits new_risk_manager ?pf sample_buy (Dec 20)"
    using d p q v
    by (simp add: within_limits_def sample_buy_def new_order_def Let_def pf_get_position_def)
      (simp add: new_portfolio_def dec_le_iff)
  then show ?thesis by (simp add: check_order_accepts new_risk_manager_def)
qed

theorem accepted_order_affordable_witness:
  "o_quantity sample_buy * Dec 20 \<le> pf_cash (new_portfolio (Dec 1000) 0)"
proof -
  have "on_grid 0 1000" using on_grid_of_int [of 0 1000] by simp
  then show ?thesis
    by (intro accepted_order_affordable [OF sample_check, where k = 0, THEN conjunct1])
      (simp_all add: sample_buy_def new_order_def new_portfolio_def dec_eq_iff)
qed

end
