(* ===== verification/Order_Router.thy ===== *)
theory Order_Router
  imports Order_Manager "HOL-Library.Multiset"
begin

section \<open>Order routing (\<open>src/trading/order_router.py\<close>)\<close>

text \<open>
  A broker is known to the router by its \<open>is_connected\<close> only, so it is a value of type
  \<open>'b\<close> and a function \<open>up :: 'b \<Rightarrow> bool\<close> is an argument. The numbers of the module's
  order counter and the clock are arguments of the functions that create orders. Route
  and error callbacks act on a world \<open>'w\<close>.
\<close>

datatype routing_strategy =
  COST_BASED | LATENCY_BASED | FILL_RATE_BASED | SPLIT | FIXED | ROUND_ROBIN | VOLUME_WEIGHTED

record router_config =
  rt_default :: routing_strategy
  rt_fallback :: routing_strategy
  rt_min_split :: dec
  rt_max_parts :: nat
  rt_split_equal :: bool
  rt_index :: int
  rt_fixed :: "string option"

definition default_config :: router_config where
  "default_config =
     \<lparr>rt_default = COST_BASED, rt_fallback = SPLIT, rt_min_split = dec_int 100, rt_max_parts = 5,
      rt_split_equal = True, rt_index = 0, rt_fixed = None\<rparr>"

subsection \<open>Broker metrics\<close>

record broker_metrics =
  bm_name :: string
  bm_total :: nat
  bm_filled :: nat
  bm_rejected :: nat
  bm_total_latency :: flt
  bm_avg_latency :: flt
  bm_total_commission :: dec
  bm_avg_commission :: dec
  bm_fill_rate :: flt
  bm_updated :: "time option"
  bm_connected :: bool

definition new_metrics :: "string \<Rightarrow> broker_metrics" where
  "new_metrics name =
     \<lparr>bm_name = name, bm_total = 0, bm_filled = 0, bm_rejected = 0, bm_total_latency = 0,
      bm_avg_latency = 0, bm_total_commission = 0, bm_avg_commission = 0, bm_fill_rate = 0,
      bm_updated = None, bm_connected = False\<rparr>"

text \<open>True division of two integers gives the nearest float of the quotient.\<close>

definition int_ratio :: "nat \<Rightarrow> nat \<Rightarrow> flt" where
  "int_ratio a b = Flt (flt_rnd (of_nat a / of_nat b))"

definition record_submit :: "broker_metrics \<Rightarrow> flt \<Rightarrow> time \<Rightarrow> broker_metrics" where
  "record_submit m latency now =
     (let n = bm_total m + 1; t = bm_total_latency m + latency
      in m\<lparr>bm_total := n, bm_total_latency := t,
           bm_avg_latency := (if n \<noteq> 0 then t / flt_int (int n) else 0), bm_updated := Some now\<rparr>)"

definition record_fill :: "broker_metrics \<Rightarrow> dec \<Rightarrow> broker_metrics" where
  "record_fill m c =
     (let n = bm_filled m + 1; t = bm_total_commission m + c
      in m\<lparr>bm_filled := n, bm_total_commission := t,
           bm_avg_commission := (if n \<noteq> 0 then t / dec_int (int n) else 0),
           bm_fill_rate := (if bm_total m \<noteq> 0 then int_ratio n (bm_total m) else 0)\<rparr>)"

definition record_rejection :: "broker_metrics \<Rightarrow> broker_metrics" where
  "record_rejection m =
     m\<lparr>bm_rejected := bm_rejected m + 1,
       bm_fill_rate := (if bm_total m \<noteq> 0 then int_ratio (bm_filled m) (bm_total m) else 0)\<rparr>"

subsection \<open>Rules\<close>

text \<open>Values of a context: \<open>None\<close>, strings and numbers (a Python \<open>bool\<close> equals 0 or 1).\<close>

datatype ctx_value = CNone | CStr string | CNum dec

type_synonym context_map = "(string, ctx_value) dict"

record routing_rule =
  rl_conditions :: context_map
  rl_strategy :: routing_strategy
  rl_priority :: int
  rl_description :: string

fun conditions_hold :: "(string \<times> ctx_value) list \<Rightarrow> context_map \<Rightarrow> bool" where
  "conditions_hold [] ctx = True"
| "conditions_hold ((k, v) # cs) ctx =
     (if (case dget ctx k of None \<Rightarrow> CNone | Some x \<Rightarrow> x) \<noteq> v then False else conditions_hold cs ctx)"

definition rule_matches :: "routing_rule \<Rightarrow> context_map \<Rightarrow> bool" where
  "rule_matches r ctx = conditions_hold (rl_conditions r) ctx"

subsection \<open>Results and splitting\<close>

datatype route_error = No_Brokers | None_Connected | Raised exn

record routing_result =
  rr_orders :: "order list"
  rr_broker :: string
  rr_strategy :: routing_strategy
  rr_success :: bool
  rr_error :: "route_error option"
  rr_latency :: flt

definition routed :: "order list \<Rightarrow> string \<Rightarrow> routing_strategy \<Rightarrow> routing_result" where
  "routed os name s =
     \<lparr>rr_orders = os, rr_broker = name, rr_strategy = s, rr_success = True, rr_error = None, rr_latency = 0\<rparr>"

definition unrouted :: "order \<Rightarrow> routing_strategy \<Rightarrow> route_error \<Rightarrow> routing_result" where
  "unrouted x s e =
     \<lparr>rr_orders = [x], rr_broker = ''none'', rr_strategy = s, rr_success = False, rr_error = Some e,
      rr_latency = 0\<rparr>"

definition copy_order_with_quantity :: "order \<Rightarrow> dec \<Rightarrow> string \<Rightarrow> time \<Rightarrow> order" where
  "copy_order_with_quantity x q oid now =
     (new_order (o_symbol x) (o_side x) q (o_type x) (o_limit_price x) (o_stop_price x) (o_tif x)
        oid (o_client_id x) (o_strategy_id x) now)\<lparr>o_tags := o_tags x\<rparr>"

text \<open>The part number \<open>i\<close> of \<open>n\<close>; the counter of new orders stands at \<open>c\<close> before the first part.\<close>

definition split_part :: "order \<Rightarrow> dec \<Rightarrow> nat \<Rightarrow> nat \<Rightarrow> nat \<Rightarrow> string \<Rightarrow> time \<Rightarrow> order" where
  "split_part x q i n c stamp now =
     (let p = copy_order_with_quantity x q (fresh_order_id (c + i) stamp) now
      in p\<lparr>o_tags := dset (dset (o_tags p) ''split_part'' (nat_str (i + 1) @ ''/'' @ nat_str n))
                     ''parent_order_id'' (o_id x)\<rparr>)"

text \<open>
  The loop over all weights but the last: the quantities given out, never below one, and
  what remains.
\<close>

fun weighted_quantities :: "dec \<Rightarrow> flt \<Rightarrow> flt list \<Rightarrow> dec \<Rightarrow> dec list \<times> dec" where
  "weighted_quantities q tw [] remaining = ([], remaining)"
| "weighted_quantities q tw (w # ws) remaining =
     (let part = max (q * dec_of_flt_str (w / tw)) (dec_int 1);
          (qs, rest) = weighted_quantities q tw ws (remaining - part)
      in (part # qs, rest))"

definition split_order ::
  "order \<Rightarrow> nat \<Rightarrow> bool \<Rightarrow> flt list option \<Rightarrow> nat \<Rightarrow> string \<Rightarrow> time \<Rightarrow> exn + order list" where
  "split_order x n equal weights c stamp now =
     (if n \<le> 1 then Inr [x]
      else if equal then
        (let part_qty = o_quantity x / dec_int (int n)
         in Inr (map (\<lambda>i. split_part x part_qty i n c stamp now) [0..<n]))
      else
        case weights of
          None \<Rightarrow> Inl ValueError
        | Some ws \<Rightarrow>
            if ws = [] \<or> length ws \<noteq> n then Inl ValueError
            else if fval (flt_sum ws) = 0 then Inl ZeroDivisionError
            else
              (let (qs, remaining) = weighted_quantities (o_quantity x) (flt_sum ws) (butlast ws) (o_quantity x);
                   all_qs = qs @ [max remaining 0]
               in Inr (map (\<lambda>i. split_part x (all_qs ! i) i n c stamp now) [0..<n])))"

subsection \<open>The router\<close>

record ('b, 'w) router =
  rt_config :: router_config
  rt_brokers :: "(string, 'b) dict"
  rt_metrics :: "(string, broker_metrics) dict"
  rt_rules :: "routing_rule list"
  rt_on_route :: "(routing_result, 'w) callback list"
  rt_on_error :: "(exn, 'w) callback list"

definition new_router :: "router_config \<Rightarrow> ('b, 'w) router" where
  "new_router cfg =
     \<lparr>rt_config = cfg, rt_brokers = [], rt_metrics = [], rt_rules = [], rt_on_route = [], rt_on_error = []\<rparr>"

definition register_broker ::
  "('b, 'w) router \<Rightarrow> string \<Rightarrow> 'b \<Rightarrow> broker_metrics option \<Rightarrow> ('b, 'w) router" where
  "register_broker R name b m =
     R\<lparr>rt_brokers := dset (rt_brokers R) name b,
       rt_metrics := dset (rt_metrics R) name (case m of None \<Rightarrow> new_metrics name | Some m' \<Rightarrow> m')\<rparr>"

definition unregister_broker :: "('b, 'w) router \<Rightarrow> string \<Rightarrow> ('b, 'w) router" where
  "unregister_broker R name =
     R\<lparr>rt_brokers := ddel (rt_brokers R) name, rt_metrics := ddel (rt_metrics R) name\<rparr>"

definition add_routing_rule :: "('b, 'w) router \<Rightarrow> routing_rule \<Rightarrow> ('b, 'w) router" where
  "add_routing_rule R r = R\<lparr>rt_rules := sort_key (\<lambda>r. - rl_priority r) (rt_rules R @ [r])\<rparr>"

definition remove_routing_rule :: "('b, 'w) router \<Rightarrow> routing_rule \<Rightarrow> ('b, 'w) router" where
  "remove_routing_rule R r = R\<lparr>rt_rules := remove1 r (rt_rules R)\<rparr>"

definition update_metrics :: "('b, 'w) router \<Rightarrow> string \<Rightarrow> broker_metrics \<Rightarrow> ('b, 'w) router" where
  "update_metrics R name m =
     (if dget (rt_metrics R) name \<noteq> None then R\<lparr>rt_metrics := dset (rt_metrics R) name m\<rparr> else R)"

definition update_connectivity :: "('b, 'w) router \<Rightarrow> string \<Rightarrow> bool \<Rightarrow> ('b, 'w) router" where
  "update_connectivity R name ok =
     (case dget (rt_metrics R) name of
        None \<Rightarrow> R
      | Some m \<Rightarrow> R\<lparr>rt_metrics := dset (rt_metrics R) name (m\<lparr>bm_connected := ok\<rparr>)\<rparr>)"

definition broker_up :: "('b \<Rightarrow> bool) \<Rightarrow> ('b, 'w) router \<Rightarrow> string \<Rightarrow> bool" where
  "broker_up up R name = (case dget (rt_brokers R) name of None \<Rightarrow> False | Some b \<Rightarrow> up b)"

definition get_available_brokers :: "('b \<Rightarrow> bool) \<Rightarrow> ('b, 'w) router \<Rightarrow> string list" where
  "get_available_brokers up R =
     map fst (filter (\<lambda>(name, m). bm_connected m \<or> broker_up up R name) (rt_metrics R))"

definition metrics_of :: "('b, 'w) router \<Rightarrow> string \<Rightarrow> broker_metrics" where
  "metrics_of R name = (case dget (rt_metrics R) name of None \<Rightarrow> new_metrics name | Some m \<Rightarrow> m)"

text \<open>\<open>min\<close> and \<open>max\<close> with a key: the first of the best.\<close>

fun first_best :: "('k \<Rightarrow> 'k \<Rightarrow> bool) \<Rightarrow> ('a \<Rightarrow> 'k) \<Rightarrow> 'a \<Rightarrow> 'a list \<Rightarrow> 'a" where
  "first_best better key a [] = a"
| "first_best better key a (b # bs) = first_best better key (if better (key b) (key a) then b else a) bs"

definition route_cost_based :: "('b, 'w) router \<Rightarrow> order \<Rightarrow> string list \<Rightarrow> routing_result" where
  "route_cost_based R x available =
     routed [x] (first_best (<) (\<lambda>n. flt_of_dec (bm_avg_commission (metrics_of R n))) (hd available) (tl available))
       COST_BASED"

definition route_latency_based :: "('b, 'w) router \<Rightarrow> order \<Rightarrow> string list \<Rightarrow> routing_result" where
  "route_latency_based R x available =
     routed [x] (first_best (<) (\<lambda>n. bm_avg_latency (metrics_of R n)) (hd available) (tl available)) LATENCY_BASED"

definition route_fill_rate_based :: "('b, 'w) router \<Rightarrow> order \<Rightarrow> string list \<Rightarrow> routing_result" where
  "route_fill_rate_based R x available =
     routed [x] (first_best (>) (\<lambda>n. bm_fill_rate (metrics_of R n)) (hd available) (tl available)) FILL_RATE_BASED"

definition route_round_robin ::
  "('b, 'w) router \<Rightarrow> order \<Rightarrow> string list \<Rightarrow> routing_result \<times> ('b, 'w) router" where
  "route_round_robin R x available =
     (let n = int (length available); idx = rt_index (rt_config R) mod n
      in (routed [x] (available ! nat idx) ROUND_ROBIN,
          R\<lparr>rt_config := (rt_config R)\<lparr>rt_index := (idx + 1) mod n\<rparr>\<rparr>))"

definition route_fixed :: "('b, 'w) router \<Rightarrow> order \<Rightarrow> string list \<Rightarrow> routing_result" where
  "route_fixed R x available =
     (case rt_fixed (rt_config R) of
        Some name \<Rightarrow>
          if name \<noteq> [] \<and> List.member available name then routed [x] name FIXED
          else routed [x] (hd available) FIXED
      | None \<Rightarrow> routed [x] (hd available) FIXED)"

definition route_split ::
  "('b, 'w) router \<Rightarrow> order \<Rightarrow> string list \<Rightarrow> nat \<Rightarrow> string \<Rightarrow> time \<Rightarrow> exn + routing_result" where
  "route_split R x available c stamp now =
     (let n = length available in
      if n = 1 \<or> o_quantity x < rt_min_split (rt_config R) then Inr (routed [x] (hd available) SPLIT)
      else
        and_then (split_order x (min n (rt_max_parts (rt_config R))) (rt_split_equal (rt_config R)) None c stamp now)
          (\<lambda>parts. Inr (routed parts (join_with '','' available) SPLIT)))"

definition route_volume_weighted ::
  "('b, 'w) router \<Rightarrow> order \<Rightarrow> string list \<Rightarrow> nat \<Rightarrow> string \<Rightarrow> time \<Rightarrow> exn + routing_result" where
  "route_volume_weighted R x available c stamp now =
     (let total_filled = sum_list (map (\<lambda>n. bm_filled (metrics_of R n)) available) in
      if total_filled = 0 then route_split R x available c stamp now
      else
        and_then (split_order x (length available) False
                    (Some (map (\<lambda>n. int_ratio (bm_filled (metrics_of R n)) total_filled) available)) c stamp now)
          (\<lambda>parts. Inr (routed parts (join_with '','' available) VOLUME_WEIGHTED)))"

definition apply_strategy ::
  "('b \<Rightarrow> bool) \<Rightarrow> ('b, 'w) router \<Rightarrow> order \<Rightarrow> routing_strategy \<Rightarrow> nat \<Rightarrow> string \<Rightarrow> time \<Rightarrow>
   (exn + routing_result) \<times> ('b, 'w) router" where
  "apply_strategy up R x s c stamp now =
     (let available = get_available_brokers up R in
      if available = [] then (Inr (unrouted x s None_Connected), R)
      else
        case s of
          COST_BASED \<Rightarrow> (Inr (route_cost_based R x available), R)
        | LATENCY_BASED \<Rightarrow> (Inr (route_latency_based R x available), R)
        | FILL_RATE_BASED \<Rightarrow> (Inr (route_fill_rate_based R x available), R)
        | SPLIT \<Rightarrow> (route_split R x available c stamp now, R)
        | FIXED \<Rightarrow> (Inr (route_fixed R x available), R)
        | ROUND_ROBIN \<Rightarrow> (let (res, R1) = route_round_robin R x available in (Inr res, R1))
        | VOLUME_WEIGHTED \<Rightarrow> (route_volume_weighted R x available c stamp now, R))"

text \<open>The strategy: the first matching rule's, else the caller's, else the default.\<close>

definition choose_strategy ::
  "('b, 'w) router \<Rightarrow> context_map option \<Rightarrow> routing_strategy option \<Rightarrow> routing_strategy" where
  "choose_strategy R ctx s =
     (let m = (case ctx of None \<Rightarrow> [] | Some m \<Rightarrow> m) in
      case filter (\<lambda>r. rule_matches r m) (rt_rules R) of
        r # _ \<Rightarrow> rl_strategy r
      | [] \<Rightarrow> (case s of None \<Rightarrow> rt_default (rt_config R) | Some s' \<Rightarrow> s'))"

definition route_order ::
  "('b \<Rightarrow> bool) \<Rightarrow> ('b, 'w) router \<Rightarrow> 'w \<Rightarrow> order \<Rightarrow> context_map option \<Rightarrow> routing_strategy option \<Rightarrow>
   nat \<Rightarrow> string \<Rightarrow> time \<Rightarrow> flt \<Rightarrow> routing_result \<times> ('b, 'w) router \<times> 'w" where
  "route_order up R w x ctx s c stamp now elapsed =
     (let st = choose_strategy R ctx s in
      if rt_brokers R = [] then (unrouted x st No_Brokers, R, w)
      else
        case apply_strategy up R x st c stamp now of
          (Inr res, R1) \<Rightarrow>
            (let res1 = res\<lparr>rr_latency := elapsed\<rparr> in (res1, R1, notify (rt_on_route R1) res1 w))
        | (Inl e, R1) \<Rightarrow>
            ((unrouted x st (Raised e))\<lparr>rr_latency := elapsed\<rparr>, R1, notify (rt_on_error R1) e w))"

text \<open>
  \<open>route_batch\<close>: no coroutine suspends, so the tasks run one after the other in the
  order of the batch. The counter moves by the number of orders a route creates.
\<close>

fun route_batch ::
  "('b \<Rightarrow> bool) \<Rightarrow> ('b, 'w) router \<Rightarrow> 'w \<Rightarrow> order list \<Rightarrow> routing_strategy option \<Rightarrow>
   nat \<Rightarrow> string \<Rightarrow> time \<Rightarrow> flt \<Rightarrow> routing_result list \<times> ('b, 'w) router \<times> 'w" where
  "route_batch up R w [] s c stamp now elapsed = ([], R, w)"
| "route_batch up R w (x # xs) s c stamp now elapsed =
     (let (res, R1, w1) =
            route_order up R w x (Some [(''symbol'', CStr (symbol_str (o_symbol x)))]) s c stamp now elapsed;
          created = (if length (rr_orders res) \<le> 1 then 0 else length (rr_orders res));
          (rs, R2, w2) = route_batch up R1 w1 xs s (c + created) stamp now elapsed
      in (res # rs, R2, w2))"

text \<open>\<open>check_all_brokers\<close>: a broker's answer, or \<open>Inl\<close> for a time-out or an exception.\<close>

fun check_each :: "('b \<Rightarrow> exn + bool) \<Rightarrow> (string \<times> 'b) list \<Rightarrow> ('b, 'w) router \<Rightarrow>
    (string, bool) dict \<Rightarrow> (string, bool) dict \<times> ('b, 'w) router" where
  "check_each ask [] R d = (d, R)"
| "check_each ask ((name, b) # bs) R d =
     (let ok = (case ask b of Inr c \<Rightarrow> c | Inl e \<Rightarrow> False)
      in check_each ask bs (update_connectivity R name ok) (dset d name ok))"

definition check_all_brokers ::
  "('b \<Rightarrow> exn + bool) \<Rightarrow> ('b, 'w) router \<Rightarrow> (string, bool) dict \<times> ('b, 'w) router" where
  "check_all_brokers ask R = check_each ask (rt_brokers R) R []"

record routing_summary =
  rsum_registered :: nat
  rsum_connected :: nat
  rsum_rules :: nat
  rsum_default :: routing_strategy
  rsum_fallback :: routing_strategy

definition get_routing_summary :: "('b \<Rightarrow> bool) \<Rightarrow> ('b, 'w) router \<Rightarrow> routing_summary" where
  "get_routing_summary up R =
     \<lparr>rsum_registered = length (rt_brokers R), rsum_connected = length (get_available_brokers up R),
      rsum_rules = length (rt_rules R), rsum_default = rt_default (rt_config R),
      rsum_fallback = rt_fallback (rt_config R)\<rparr>"

section \<open>Choosing the best broker\<close>

text \<open>A strict preference between keys: whatever beats \<open>z\<close> beats \<open>y\<close>, or \<open>y\<close> beats \<open>z\<close>.\<close>

locale preference =
  fixes better :: "'k \<Rightarrow> 'k \<Rightarrow> bool"
  assumes asym: "better x y \<Longrightarrow> \<not> better y x"
    and cotrans: "better x z \<Longrightarrow> better x y \<or> better y z"
begin

lemma irrefl: "\<not> better x x"
  using asym by blast

lemma first_best_in: "first_best better key a bs \<in> set (a # bs)"
  by (induction bs arbitrary: a) auto

lemma first_best_optimal: "x \<in> set (a # bs) \<Longrightarrow> \<not> better (key x) (key (first_best better key a bs))"
proof (induction bs arbitrary: a x)
  case Nil
  then show ?case by (simp add: irrefl)
next
  case (Cons b bs)
  let ?c = "if better (key b) (key a) then b else a"
  have c: "\<not> better (key ?c) (key (first_best better key ?c bs))" by (rule Cons.IH) simp
  have "x \<in> set bs \<or> \<not> better (key x) (key ?c)"
    using Cons.prems asym [of "key b" "key a"] irrefl by auto
  then show ?case
  proof
    assume "x \<in> set bs"
    then show ?thesis using Cons.IH [of x ?c] by simp
  next
    assume "\<not> better (key x) (key ?c)"
    with c cotrans [of "key x" _ "key ?c"] show ?thesis by auto
  qed
qed

end

interpretation lowest: preference "(<) :: flt \<Rightarrow> flt \<Rightarrow> bool"
  by unfold_locales auto

interpretation highest: preference "(>) :: flt \<Rightarrow> flt \<Rightarrow> bool"
  by unfold_locales auto

section \<open>Splitting\<close>

lemma fresh_order_id_inj: "fresh_order_id m s = fresh_order_id n s \<Longrightarrow> m = n"
  by (simp add: fresh_order_id_def nat_str_inj)

lemma split_part_fields [simp]:
  "o_quantity (split_part x q i n c stamp now) = q" "o_id (split_part x q i n c stamp now) = fresh_order_id (c + i) stamp"
  "o_symbol (split_part x q i n c stamp now) = o_symbol x" "o_side (split_part x q i n c stamp now) = o_side x"
  "o_status (split_part x q i n c stamp now) = SUBMITTED" "o_filled (split_part x q i n c stamp now) = 0"
  "o_remaining (split_part x q i n c stamp now) = q"
  "dget (o_tags (split_part x q i n c stamp now)) ''parent_order_id'' = Some (o_id x)"
  by (simp_all add: split_part_def copy_order_with_quantity_def new_order_def Let_def)

lemma distinct_part_ids: "distinct (map o_id (map (\<lambda>i. split_part x (q i) i n c stamp now) [0..<m]))"
  by (auto simp: distinct_map inj_on_def dest: fresh_order_id_inj)

definition allotted :: "order list \<Rightarrow> rat" where
  "allotted xs = sum_list (map (\<lambda>x. dval (o_quantity x)) xs)"

lemma split_equal_parts:
  assumes "1 < n" "split_order x n True ws c stamp now = Inr parts"
  shows "length parts = n" "\<And>p. p \<in> set parts \<Longrightarrow> o_quantity p = o_quantity x / dec_int (int n)"
    "distinct (map o_id parts)"
  using assms distinct_part_ids by (auto simp: split_order_def Let_def)

lemma split_equal_total:
  assumes "1 < n" "split_order x n True ws c stamp now = Inr parts"
    "dec_rnd (dval (o_quantity x) / of_nat n) = dval (o_quantity x) / of_nat n"
  shows "allotted parts = dval (o_quantity x)"
proof -
  have "parts = map (\<lambda>i. split_part x (o_quantity x / dec_int (int n)) i n c stamp now) [0..<n]"
    using assms(1,2) by (simp add: split_order_def Let_def)
  then show ?thesis using assms(1,3) by (simp add: allotted_def o_def sum_list_triv)
qed

lemma weighted_quantities_length: "length (fst (weighted_quantities q tw ws r)) = length ws"
  by (induction ws arbitrary: r) (auto simp: Let_def split_beta)

lemma weighted_quantities_ge_1: "p \<in> set (fst (weighted_quantities q tw ws r)) \<Longrightarrow> dec_int 1 \<le> p"
  by (induction ws arbitrary: r) (auto simp: Let_def split_beta)

text \<open>The remainder is the start minus what was given out, as long as the sizes are exact.\<close>

lemma weighted_quantities_remainder:
  assumes "\<forall>p \<in> set (fst (weighted_quantities q tw ws r)). on_grid k (dval p) \<and> 0 \<le> dval p" "on_grid k (dval r)"
    "(\<bar>dval r\<bar> + sum_list (map dval (fst (weighted_quantities q tw ws r)))) * 10 ^ k < 10 ^ 28"
  shows "dval (snd (weighted_quantities q tw ws r)) =
    dval r - sum_list (map dval (fst (weighted_quantities q tw ws r)))"
  using assms
proof (induction ws arbitrary: r)
  case Nil
  then show ?case by simp
next
  case (Cons w ws)
  define p where "p = max (q * dec_of_flt_str (w / tw)) (dec_int 1)"
  obtain qs rest where W: "weighted_quantities q tw ws (r - p) = (qs, rest)"
    by (cases "weighted_quantities q tw ws (r - p)")
  have eq: "weighted_quantities q tw (w # ws) r = (p # qs, rest)" by (simp add: W flip: p_def)
  have p: "on_grid k (dval p)" "0 \<le> dval p" and qs: "\<forall>p \<in> set qs. on_grid k (dval p) \<and> 0 \<le> dval p"
    using Cons.prems(1) unfolding eq by auto
  have nn: "0 \<le> sum_list (map dval qs)" using qs by (intro sum_list_nonneg) auto
  have small: "z * 10 ^ k < 10 ^ 28" if "z \<le> \<bar>dval r\<bar> + dval p + sum_list (map dval qs)" for z
  proof -
    have "z * 10 ^ k \<le> (\<bar>dval r\<bar> + sum_list (map dval (p # qs))) * 10 ^ k"
      using that by (intro mult_right_mono) (auto simp: algebra_simps)
    then show ?thesis using Cons.prems(3) unfolding eq fst_conv by (rule le_less_trans)
  qed
  have "dec_rnd (dval r - dval p) = dval r - dval p"
    by (rule grid_exact [of k], rule on_grid_diff, rule Cons.prems(2), rule p(1), rule small) (use p nn in auto)
  then have rp: "dval (r - p) = dval r - dval p" by simp
  have "dval rest = dval (r - p) - sum_list (map dval qs)"
    using Cons.IH [of "r - p"] qs on_grid_diff [OF Cons.prems(2) p(1)]
      small [of "\<bar>dval r - dval p\<bar> + sum_list (map dval qs)"] p(2)
    unfolding W rp by simp
  then show ?case unfolding eq rp by simp
qed

lemma split_weighted_total:
  assumes "1 < n" "split_order x n False (Some ws) c stamp now = Inr parts"
    "\<forall>p \<in> set (butlast parts). on_grid k (dval (o_quantity p))" "on_grid k (dval (o_quantity x))"
    "(\<bar>dval (o_quantity x)\<bar> + allotted (butlast parts)) * 10 ^ k < 10 ^ 28"
  shows "allotted parts = max (dval (o_quantity x)) (allotted (butlast parts))"
    and "distinct (map o_id parts)" and "length parts = n"
proof -
  let ?q = "o_quantity x"
  obtain qs rest where W: "weighted_quantities ?q (flt_sum ws) (butlast ws) ?q = (qs, rest)"
    by (cases "weighted_quantities ?q (flt_sum ws) (butlast ws) ?q")
  have len: "length ws = n" and parts:
    "parts = map (\<lambda>i. split_part x ((qs @ [max rest 0]) ! i) i n c stamp now) [0..<n]"
    using assms(1,2) W by (auto simp: split_order_def split: if_splits)
  have lq: "length qs = n - 1"
    using weighted_quantities_length [of ?q "flt_sum ws" "butlast ws" ?q] len by (simp add: W)
  then have upt: "[0..<n] = [0..<n - 1] @ [n - 1]" using assms(1) by (simp flip: upt_Suc_append)
  have nth: "map (\<lambda>i. (qs @ [y]) ! i) [0..<n - 1] = qs" for y
    using lq by (intro nth_equalityI) (auto simp: nth_append)
  have lst: "map o_quantity parts = qs @ [max rest 0]"
  proof -
    have "map o_quantity parts = map (\<lambda>i. (qs @ [max rest 0]) ! i) [0..<n]"
      by (simp only: parts map_map o_def split_part_fields)
    also have "\<dots> = qs @ [(qs @ [max rest 0]) ! (n - 1)]"
      by (simp only: upt map_append nth list.map)
    finally show ?thesis using lq by (simp add: nth_append)
  qed
  have bl: "map o_quantity (butlast parts) = qs"
    by (simp only: map_butlast lst butlast_snoc)
  have pos: "\<forall>p \<in> set qs. on_grid k (dval p) \<and> 0 \<le> dval p"
    using assms(3) weighted_quantities_ge_1 [of _ ?q "flt_sum ws" "butlast ws" ?q]
    by (auto simp: W dec_le_iff simp flip: bl; fastforce)
  have al: "allotted (butlast parts) = sum_list (map dval qs)"
    by (simp add: allotted_def o_def flip: bl)
  have "dval rest = dval ?q - sum_list (map dval qs)"
    using weighted_quantities_remainder [of ?q "flt_sum ws" "butlast ws" ?q k] pos assms(4,5)
    by (simp add: W al)
  moreover have "allotted parts = sum_list (map dval (qs @ [max rest 0]))"
    by (simp add: allotted_def o_def flip: lst)
  ultimately show "allotted parts = max (dval ?q) (allotted (butlast parts))"
    by (auto simp: al max_def dec_le_iff)
  show "distinct (map o_id parts)" "length parts = n" using distinct_part_ids parts by auto
qed

section \<open>The router's invariant\<close>

text \<open>Brokers and metrics have the same names, and the rules stand by falling priority.\<close>

definition rt_inv :: "('b, 'w) router \<Rightarrow> bool" where
  "rt_inv R \<longleftrightarrow>
     dict_ok (rt_brokers R) \<and> dict_ok (rt_metrics R) \<and>
     (\<forall>n. dget (rt_brokers R) n = None \<longleftrightarrow> dget (rt_metrics R) n = None) \<and>
     sorted (map (\<lambda>r. - rl_priority r) (rt_rules R))"

lemma rt_inv_new: "rt_inv (new_router cfg)"
  by (simp add: rt_inv_def new_router_def)

lemma rt_inv_register: "rt_inv R \<Longrightarrow> rt_inv (register_broker R name b m)"
  by (simp add: rt_inv_def register_broker_def)

lemma rt_inv_unregister: "rt_inv R \<Longrightarrow> rt_inv (unregister_broker R name)"
  by (simp add: rt_inv_def unregister_broker_def)

lemma sorted_remove1_key: "sorted (map f xs) \<Longrightarrow> sorted (map f (remove1 x xs))"
  by (induction xs) (auto dest: notin_set_remove1)

lemma rt_inv_rules:
  "rt_inv R \<Longrightarrow> rt_inv (add_routing_rule R r)" "rt_inv R \<Longrightarrow> rt_inv (remove_routing_rule R r)"
  by (simp_all add: rt_inv_def add_routing_rule_def remove_routing_rule_def sorted_remove1_key)

lemma rt_inv_metrics:
  "rt_inv R \<Longrightarrow> rt_inv (update_metrics R name m)" "rt_inv R \<Longrightarrow> rt_inv (update_connectivity R name ok)"
  by (auto simp: rt_inv_def update_metrics_def update_connectivity_def split: option.splits)

lemma apply_strategy_frame:
  assumes "apply_strategy up R x st c stamp now = (res, R1)"
  shows "rt_brokers R1 = rt_brokers R" "rt_metrics R1 = rt_metrics R" "rt_rules R1 = rt_rules R"
    "rt_on_route R1 = rt_on_route R" "rt_on_error R1 = rt_on_error R"
  using assms
  by (auto simp: apply_strategy_def Let_def route_round_robin_def split: if_splits routing_strategy.splits)

lemma rt_inv_frame:
  "rt_inv R \<Longrightarrow> rt_brokers R1 = rt_brokers R \<Longrightarrow> rt_metrics R1 = rt_metrics R \<Longrightarrow> rt_rules R1 = rt_rules R \<Longrightarrow>
   rt_inv R1"
  by (simp add: rt_inv_def)

lemma rt_inv_route:
  assumes "rt_inv R"
  shows "rt_inv (fst (snd (route_order up R w x ctx s c stamp now el)))"
proof (cases "rt_brokers R = []")
  case True
  with assms show ?thesis by (simp add: route_order_def Let_def)
next
  case False
  obtain res R1 where A: "apply_strategy up R x (choose_strategy R ctx s) c stamp now = (res, R1)"
    by (cases "apply_strategy up R x (choose_strategy R ctx s) c stamp now")
  have "rt_inv R1" using rt_inv_frame [OF assms] apply_strategy_frame [OF A] by blast
  with False show ?thesis by (cases res) (simp_all add: route_order_def Let_def A)
qed

datatype 'b router_op =
    Register_Broker string 'b "broker_metrics option"
  | Unregister_Broker string
  | Add_Rule routing_rule
  | Remove_Rule routing_rule
  | Set_Metrics string broker_metrics
  | Set_Connected string bool
  | Route order "context_map option" "routing_strategy option" nat string time flt

fun router_step :: "('b \<Rightarrow> bool) \<Rightarrow> ('b, 'w) router \<times> 'w \<Rightarrow> 'b router_op \<Rightarrow> ('b, 'w) router \<times> 'w" where
  "router_step up (R, w) (Register_Broker name b m) = (register_broker R name b m, w)"
| "router_step up (R, w) (Unregister_Broker name) = (unregister_broker R name, w)"
| "router_step up (R, w) (Add_Rule r) = (add_routing_rule R r, w)"
| "router_step up (R, w) (Remove_Rule r) = (remove_routing_rule R r, w)"
| "router_step up (R, w) (Set_Metrics name m) = (update_metrics R name m, w)"
| "router_step up (R, w) (Set_Connected name ok) = (update_connectivity R name ok, w)"
| "router_step up (R, w) (Route x ctx s c stamp now el) = snd (route_order up R w x ctx s c stamp now el)"

interpretation rtr: run_system "router_step up" "\<lambda>_ _. True" "\<lambda>s. rt_inv (fst s)" for up :: "'b \<Rightarrow> bool"
proof unfold_locales
  fix s :: "('b, 'w) router \<times> 'w" and x
  assume inv: "rt_inv (fst s)"
  obtain R w where s: "s = (R, w)" by (cases s)
  with inv show "rt_inv (fst (router_step up s x))"
    by (cases x) (simp_all add: rt_inv_register rt_inv_unregister rt_inv_rules rt_inv_metrics rt_inv_route)
qed

section \<open>What a route gives\<close>

lemma available_registered: "rt_inv R \<Longrightarrow> n \<in> set (get_available_brokers up R) \<Longrightarrow>
    \<exists>b m. dget (rt_brokers R) n = Some b \<and> dget (rt_metrics R) n = Some m \<and> (bm_connected m \<or> up b)"
proof -
  assume inv: "rt_inv R" and n: "n \<in> set (get_available_brokers up R)"
  then obtain m where m: "(n, m) \<in> set (rt_metrics R)" "bm_connected m \<or> broker_up up R n"
    by (auto simp: get_available_brokers_def)
  then have d: "dget (rt_metrics R) n = Some m" using inv by (simp add: rt_inv_def dict_ok_def)
  moreover obtain b where "dget (rt_brokers R) n = Some b"
    using inv d by (cases "dget (rt_brokers R) n") (auto simp: rt_inv_def)
  ultimately show ?thesis using m(2) by (auto simp: broker_up_def)
qed

text \<open>The single broker chosen by a strategy that does not split.\<close>

lemma route_one_available:
  assumes "available \<noteq> []"
  shows "rr_broker (route_cost_based R x available) \<in> set available"
    "rr_broker (route_latency_based R x available) \<in> set available"
    "rr_broker (route_fill_rate_based R x available) \<in> set available"
    "rr_broker (route_fixed R x available) \<in> set available"
    "rr_broker (fst (route_round_robin R x available)) \<in> set available"
proof -
  obtain a as where av: "available = a # as" using assms by (cases available) auto
  show "rr_broker (route_cost_based R x available) \<in> set available"
    "rr_broker (route_latency_based R x available) \<in> set available"
    "rr_broker (route_fill_rate_based R x available) \<in> set available"
    using lowest.first_best_in highest.first_best_in
    by (simp_all add: route_cost_based_def route_latency_based_def route_fill_rate_based_def routed_def av)
  show "rr_broker (route_fixed R x available) \<in> set available"
    by (auto simp: route_fixed_def routed_def av split: option.splits)
  have "nat (rt_index (rt_config R) mod int (length available)) < length available"
    using assms by (simp add: nat_less_iff)
  then show "rr_broker (fst (route_round_robin R x available)) \<in> set available"
    by (simp add: route_round_robin_def routed_def Let_def)
qed

lemma first_match_priority:
  assumes "rt_inv R" "r \<in> set (rt_rules R)" "rule_matches r m"
  shows "\<exists>r'. r' \<in> set (rt_rules R) \<and> rule_matches r' m \<and> choose_strategy R (Some m) s = rl_strategy r' \<and>
    (\<forall>r \<in> set (rt_rules R). rule_matches r m \<longrightarrow> rl_priority r \<le> rl_priority r')"
proof -
  let ?ms = "filter (\<lambda>r. rule_matches r m) (rt_rules R)"
  have "r \<in> set ?ms" using assms(2,3) by simp
  then obtain r' rs where ms: "?ms = r' # rs" by (cases ?ms) auto
  have "sorted (map (\<lambda>r. - rl_priority r) ?ms)"
    using assms(1) by (simp add: rt_inv_def sorted_filter)
  then have "\<forall>r \<in> set ?ms. rl_priority r \<le> rl_priority r'" unfolding ms by simp
  moreover have "r' \<in> set ?ms" unfolding ms by simp
  moreover have "choose_strategy R (Some m) s = rl_strategy r'" by (simp add: choose_strategy_def ms)
  ultimately show ?thesis by (intro exI [of _ r']) simp
qed

text \<open>Consecutive round-robin routes over the same brokers.\<close>

fun round_robin_names :: "('b, 'w) router \<Rightarrow> order list \<Rightarrow> string list \<Rightarrow> string list" where
  "round_robin_names R [] available = []"
| "round_robin_names R (x # xs) available =
     (let (res, R1) = route_round_robin R x available in rr_broker res # round_robin_names R1 xs available)"

lemma round_robin_names_nth:
  assumes "available \<noteq> []" "i < length xs"
  shows "round_robin_names R xs available ! i =
    available ! nat ((rt_index (rt_config R) + int i) mod int (length available))"
  using assms(2)
proof (induction xs arbitrary: R i)
  case (Cons x xs)
  let ?n = "int (length available)"
  show ?case
  proof (cases i)
    case 0
    then show ?thesis by (simp add: route_round_robin_def routed_def Let_def)
  next
    case (Suc j)
    let ?R = "snd (route_round_robin R x available)"
    have "(rt_index (rt_config ?R) + int j) mod ?n = (rt_index (rt_config R) + int i) mod ?n"
      by (simp add: route_round_robin_def Let_def Suc mod_add_left_eq add.commute add.left_commute)
        (metis add.assoc add.commute mod_add_left_eq)
    with Cons.IH [of j ?R] Cons.prems Suc show ?thesis by (simp add: split_beta Let_def)
  qed
qed simp

lemma round_robin_names_length: "length (round_robin_names R xs available) = length xs"
  by (induction xs arbitrary: R) (simp_all add: split_beta Let_def)

lemma round_robin_fair_mset:
  assumes "available \<noteq> []" "length xs = length available"
  shows "mset (round_robin_names R xs available) = mset available"
proof -
  let ?n = "length available" and ?m = "nat (rt_index (rt_config R) mod int (length available))"
  have n: "0 < ?n" using assms(1) by simp
  have m: "int ?m = rt_index (rt_config R) mod int ?n" using n by simp
  have "nat ((rt_index (rt_config R) + int i) mod int ?n) = (?m + i) mod ?n" for i
  proof -
    have "(rt_index (rt_config R) + int i) mod int ?n = (int ?m + int i) mod int ?n"
      unfolding m by (rule mod_add_left_eq [symmetric])
    also have "\<dots> = int ((?m + i) mod ?n)" by (simp only: of_nat_mod of_nat_add)
    finally show ?thesis by (simp only: nat_int)
  qed
  then have "round_robin_names R xs available = rotate ?m available"
    using assms by (intro nth_equalityI) (simp_all add: round_robin_names_length round_robin_names_nth nth_rotate)
  moreover have "mset (rotate ?m available) = mset available"
    unfolding rotate_drop_take by (metis append_take_drop_id mset_append union_commute)
  ultimately show ?thesis by simp
qed

section \<open>Properties of the router\<close>

lemma available_frame:
  "rt_brokers R1 = rt_brokers R \<Longrightarrow> rt_metrics R1 = rt_metrics R \<Longrightarrow>
   get_available_brokers up R1 = get_available_brokers up R"
  by (simp add: get_available_brokers_def broker_up_def)

lemma round_robin_frame:
  "get_available_brokers up (snd (route_round_robin R x available)) = get_available_brokers up R"
  "rt_brokers (snd (route_round_robin R x available)) = rt_brokers R"
  "rt_rules (snd (route_round_robin R x available)) = rt_rules R"
  by (rule available_frame) (simp_all add: route_round_robin_def Let_def)

lemma route_batch_round_robin:
  assumes "rt_rules R = []" "rt_brokers R \<noteq> []" "get_available_brokers up R = available" "available \<noteq> []"
  shows "map rr_broker (fst (route_batch up R w xs (Some ROUND_ROBIN) c stamp now el)) = round_robin_names R xs available"
  using assms
proof (induction xs arbitrary: R w c)
  case (Cons x xs)
  let ?r = "route_round_robin R x available"
  have one: "route_order up R w x ctx (Some ROUND_ROBIN) c stamp now el =
      ((fst ?r)\<lparr>rr_latency := el\<rparr>, snd ?r, notify (rt_on_route (snd ?r)) ((fst ?r)\<lparr>rr_latency := el\<rparr>) w)" for ctx w
    using Cons.prems by (cases ?r) (simp add: route_order_def choose_strategy_def apply_strategy_def Let_def)
  obtain res R1 where r: "?r = (res, R1)" by (cases ?r)
  have "map rr_broker (fst (route_batch up R1 w xs (Some ROUND_ROBIN) c stamp now el)) = round_robin_names R1 xs available"
    for w c
    by (rule Cons.IH) (use round_robin_frame [where R = R and x = x and available = available] Cons.prems r in simp_all)
  then show ?case by (simp add: one r split_beta Let_def)
qed simp

text \<open>C38. A batch of as many orders as there are available brokers, routed round-robin, goes
  to every available broker exactly once, wherever the index stands.\<close>

theorem round_robin_batch_fair:
  assumes "rt_rules R = []" "rt_brokers R \<noteq> []" "get_available_brokers up R = available" "available \<noteq> []"
    and "length xs = length available"
  shows "mset (map rr_broker (fst (route_batch up R w xs (Some ROUND_ROBIN) c stamp now el))) = mset available"
  unfolding route_batch_round_robin [OF assms(1-4)] by (rule round_robin_fair_mset [OF assms(4,5)])

definition routed_buy :: order where
  "routed_buy = new_order sample_symbol BUY (Dec 5) MARKET None None DAY ''A'' None None 0"

definition sample_router :: "(bool, unit) router" where
  "sample_router = register_broker (register_broker (new_router (default_config\<lparr>rt_index := 7\<rparr>)) ''IB'' True
     (Some ((new_metrics ''IB'')\<lparr>bm_avg_commission := dec_int 2\<rparr>))) ''IG'' True None"

lemma sample_router_available: "get_available_brokers id sample_router = [''IB'', ''IG'']"
  by (simp add: sample_router_def new_router_def register_broker_def get_available_brokers_def broker_up_def)

theorem round_robin_batch_fair_witness:
  "mset (map rr_broker (fst (route_batch id sample_router () [routed_buy, routed_buy] (Some ROUND_ROBIN) 0 ''t'' 1 0))) = {#''IB'', ''IG''#}"
  by (subst round_robin_batch_fair [OF _ _ sample_router_available])
    (simp_all add: sample_router_def new_router_def register_broker_def)

text \<open>Among the available brokers, cost-based routing chooses one with the lowest average
  commission, latency-based routing one with the lowest average latency, and fill-rate-based
  routing one with the highest fill rate.\<close>

theorem routed_broker_is_best:
  assumes "available = get_available_brokers up R" "available \<noteq> []"
  shows "(let n = rr_broker (route_cost_based R x available) in n \<in> set available \<and>
      (\<forall>k \<in> set available. flt_of_dec (bm_avg_commission (metrics_of R n)) \<le> flt_of_dec (bm_avg_commission (metrics_of R k)))) \<and>
    (let n = rr_broker (route_latency_based R x available) in n \<in> set available \<and>
      (\<forall>k \<in> set available. bm_avg_latency (metrics_of R n) \<le> bm_avg_latency (metrics_of R k))) \<and>
    (let n = rr_broker (route_fill_rate_based R x available) in n \<in> set available \<and>
      (\<forall>k \<in> set available. bm_fill_rate (metrics_of R k) \<le> bm_fill_rate (metrics_of R n)))"
proof -
  obtain a as where av: "available = a # as" using assms(2) by (cases available) auto
  have lo: "\<forall>k \<in> set (a # as). key (first_best (<) key a as) \<le> key k"
    and hi: "\<forall>k \<in> set (a # as). key k \<le> key (first_best (>) key a as)" for key :: "string \<Rightarrow> flt"
    using lowest.first_best_optimal [of _ a as key] highest.first_best_optimal [of _ a as key] by (meson not_less)+
  show ?thesis
    unfolding Let_def route_cost_based_def route_latency_based_def route_fill_rate_based_def routed_def av list.sel
      routing_result.simps
    by (intro conjI lowest.first_best_in highest.first_best_in lo hi)
qed

theorem routed_broker_is_best_witness:
  "rr_broker (route_cost_based sample_router routed_buy [''IB'', ''IG'']) \<noteq> ''IB''"
proof
  assume "rr_broker (route_cost_based sample_router routed_buy [''IB'', ''IG'']) = ''IB''"
  with routed_broker_is_best [OF sample_router_available [symmetric], of routed_buy]
  have "flt_of_dec (bm_avg_commission (metrics_of sample_router ''IB'')) \<le> flt_of_dec (bm_avg_commission (metrics_of sample_router ''IG''))"
    by (simp add: Let_def)
  then show False
    by (simp add: sample_router_def new_router_def register_broker_def metrics_of_def new_metrics_def flt_le_iff)
      (simp add: fr.r_pos_iff flip: not_less)
qed

text \<open>Routing in every reachable state, without splitting: with no broker registered or none
  connected the route fails with that reason; otherwise it succeeds, the order is unsplit and
  its broker is a registered one that is connected.\<close>

theorem route_reaches_connected_broker:
  assumes "(R, v) = run_ops (router_step up) (new_router cfg, v0) ops"
    and "choose_strategy R ctx s \<in> {COST_BASED, LATENCY_BASED, FILL_RATE_BASED, FIXED, ROUND_ROBIN}"
    and "route_order up R w x ctx s c stamp now el = (res, R1, w1)"
  shows "if rt_brokers R = [] then rr_error res = Some No_Brokers \<and> \<not> rr_success res
    else if get_available_brokers up R = [] then rr_error res = Some None_Connected \<and> \<not> rr_success res
    else rr_success res \<and> rr_orders res = [x] \<and>
      (\<exists>b m. dget (rt_brokers R) (rr_broker res) = Some b \<and> dget (rt_metrics R) (rr_broker res) = Some m \<and>
             (bm_connected m \<or> up b))"
proof -
  have "rt_inv (fst (run_ops (router_step up) (new_router cfg, v0) ops))"
    by (rule rtr.run_inv) (simp_all add: rt_inv_new)
  then have inv: "rt_inv R" by (simp flip: assms(1))
  show ?thesis
  proof (cases "rt_brokers R = [] \<or> get_available_brokers up R = []")
    case True
    then show ?thesis using assms(3) by (auto simp: route_order_def apply_strategy_def unrouted_def Let_def)
  next
    case False
    then have "rr_success res \<and> rr_orders res = [x] \<and> rr_broker res \<in> set (get_available_brokers up R)"
      using route_one_available [of "get_available_brokers up R" R x] assms(2,3)
      by (auto simp: route_order_def apply_strategy_def Let_def split_beta;
          simp add: route_cost_based_def route_latency_based_def route_fill_rate_based_def route_fixed_def
            route_round_robin_def routed_def Let_def split: option.splits)
    with False available_registered [OF inv] show ?thesis by auto
  qed
qed

theorem route_reaches_connected_broker_witness:
  "rr_success (fst (route_order id (fst (run_ops (router_step id) (new_router default_config, ())
     [Register_Broker ''IB'' True None])) () routed_buy None None 0 ''t'' 1 0))"
proof -
  let ?R = "fst (run_ops (router_step id) (new_router default_config, ()) [Register_Broker ''IB'' True None])"
  have f: "rt_brokers ?R = [(''IB'', True)]" "rt_metrics ?R = [(''IB'', new_metrics ''IB'')]" "rt_rules ?R = []"
    "rt_config ?R = default_config"
    by (simp_all add: register_broker_def new_router_def)
  then have s: "choose_strategy ?R None None = COST_BASED" and a: "get_available_brokers id ?R = [''IB'']"
    by (simp_all add: choose_strategy_def default_config_def get_available_brokers_def broker_up_def)
  obtain res R1 w1 where r: "route_order id ?R () routed_buy None None 0 ''t'' 1 0 = (res, R1, w1)"
    by (metis prod_cases3)
  have "(?R, ()) = run_ops (router_step id) (new_router default_config, ()) [Register_Broker ''IB'' True None]"
    by simp
  from route_reaches_connected_broker [OF this _ r] show ?thesis using s a f(1) r by simp
qed

text \<open>In every reachable state, when some routing rule matches the context, the strategy is
  that of a matching rule of the highest priority, whatever the caller asked for.\<close>

theorem routing_rule_of_highest_priority:
  assumes "(R, v) = run_ops (router_step up) (new_router cfg, v0) ops" "r \<in> set (rt_rules R)" "rule_matches r m"
  shows "\<exists>r'. r' \<in> set (rt_rules R) \<and> rule_matches r' m \<and> choose_strategy R (Some m) s = rl_strategy r' \<and>
    (\<forall>r \<in> set (rt_rules R). rule_matches r m \<longrightarrow> rl_priority r \<le> rl_priority r')"
proof -
  have "rt_inv (fst (run_ops (router_step up) (new_router cfg, v0) ops))"
    by (rule rtr.run_inv) (simp_all add: rt_inv_new)
  then have "rt_inv R" by (simp flip: assms(1))
  then show ?thesis using assms(2,3) by (rule first_match_priority)
qed

definition sample_rule :: "int \<Rightarrow> routing_strategy \<Rightarrow> routing_rule" where
  "sample_rule p s = \<lparr>rl_conditions = [(''symbol'', CStr ''X'')], rl_strategy = s, rl_priority = p, rl_description = []\<rparr>"

theorem routing_rule_of_highest_priority_witness:
  "choose_strategy (fst (run_ops (router_step id) (new_router default_config, ())
     [Add_Rule (sample_rule 1 FIXED), Add_Rule (sample_rule 5 SPLIT)])) (Some [(''symbol'', CStr ''X'')]) None = SPLIT"
proof -
  let ?ops = "[Add_Rule (sample_rule 1 FIXED), Add_Rule (sample_rule 5 SPLIT)]"
  let ?R = "fst (run_ops (router_step id) (new_router default_config, ()) ?ops)"
  have e: "set (rt_rules ?R) = {sample_rule 1 FIXED, sample_rule 5 SPLIT}"
    by (auto simp: add_routing_rule_def new_router_def)
  have m: "rule_matches (sample_rule p s) [(''symbol'', CStr ''X'')]" for p s
    by (simp add: rule_matches_def sample_rule_def)
  have "(?R, ()) = run_ops (router_step id) (new_router default_config, ()) ?ops" by simp
  from routing_rule_of_highest_priority [OF this, of "sample_rule 5 SPLIT" "[(''symbol'', CStr ''X'')]" None] m
  show ?thesis unfolding e by (auto simp: sample_rule_def)
qed

text \<open>Splitting an order equally into n parts makes n orders with distinct identifiers, each
  for the quotient, tagged with the parent, and together they are for the whole quantity
  whenever the quotient is exact in 28 digits.\<close>

theorem equal_split_covers_quantity:
  assumes "1 < n" "split_order x n True ws c stamp now = Inr parts"
    "dec_rnd (dval (o_quantity x) / of_nat n) = dval (o_quantity x) / of_nat n"
  shows "length parts = n \<and> distinct (map o_id parts) \<and> allotted parts = dval (o_quantity x) \<and>
    list_all (\<lambda>p. o_symbol p = o_symbol x \<and> o_side p = o_side x \<and>
                  dget (o_tags p) ''parent_order_id'' = Some (o_id x)) parts"
proof -
  have "parts = map (\<lambda>i. split_part x (o_quantity x / dec_int (int n)) i n c stamp now) [0..<n]"
    using assms(1,2) by (simp add: split_order_def Let_def)
  then have "list_all (\<lambda>p. o_symbol p = o_symbol x \<and> o_side p = o_side x \<and>
      dget (o_tags p) ''parent_order_id'' = Some (o_id x)) parts"
    by (simp add: list_all_iff)
  then show ?thesis using split_equal_parts(1,3) [OF assms(1,2)] split_equal_total [OF assms] by blast
qed

theorem equal_split_covers_quantity_witness:
  "\<exists>parts. split_order (new_order sample_symbol BUY (Dec 100) MARKET None None DAY ''A'' None None 0) 4 True None 0 ''t'' 1 = Inr parts \<and>
     allotted parts = 100"
proof -
  let ?x = "new_order sample_symbol BUY (Dec 100) MARKET None None DAY ''A'' None None 0"
  obtain parts where p: "split_order ?x 4 True None 0 ''t'' 1 = Inr parts" by (simp add: split_order_def Let_def)
  have "dec_rnd 25 = 25" using grid_exact [of 0 25] on_grid_of_int [of 0 25] by simp
  with equal_split_covers_quantity [OF _ p] p show ?thesis by (simp add: new_order_def)
qed

text \<open>A weighted split never gives out less than the quantity, and the last part takes what
  remains: the total is the larger of the quantity and the parts before the last, so it is
  exact unless the minimum of one per part has used up more than there was.\<close>

theorem weighted_split_total:
  assumes "1 < n" "split_order x n False (Some ws) c stamp now = Inr parts"
    "\<forall>p \<in> set (butlast parts). on_grid k (dval (o_quantity p))" "on_grid k (dval (o_quantity x))"
    "(\<bar>dval (o_quantity x)\<bar> + allotted (butlast parts)) * 10 ^ k < 10 ^ 28"
  shows "length parts = n \<and> distinct (map o_id parts) \<and>
    allotted parts = max (dval (o_quantity x)) (allotted (butlast parts))"
  using split_weighted_total [OF assms] by blast

theorem weighted_split_total_witness:
  "\<exists>parts. split_order (new_order sample_symbol BUY (Dec 100) MARKET None None DAY ''A'' None None 0) 2 False
       (Some [flt_int 1, flt_int 1]) 0 ''t'' 1 = Inr parts \<and> allotted parts = 100"
proof -
  let ?x = "new_order sample_symbol BUY (Dec 100) MARKET None None DAY ''A'' None None 0"
  have f: "flt_sum [flt_int 1, flt_int 1] = Flt 2" "max (Dec 100 * dec_of_flt_str (flt_int 1 / Flt 2)) (dec_int 1) = Dec 50"
    "max (Dec 100 - Dec 50) 0 = Dec 50" by code_simp+
  have q: "o_quantity ?x = Dec 100" by (simp add: new_order_def)
  have "[0..<2] = [0, 1 :: nat]" by (simp add: upt_rec)
  then have p: "split_order ?x 2 False (Some [flt_int 1, flt_int 1]) 0 ''t'' 1 =
      Inr [split_part ?x (Dec 50) 0 2 0 ''t'' 1, split_part ?x (Dec 50) 1 2 0 ''t'' 1]" (is "_ = Inr ?parts")
    by (simp add: split_order_def f q Let_def)
  have i: "on_grid 0 (numeral k)" for k using on_grid_of_int [of 0 "numeral k"] by simp
  have "\<forall>p \<in> set (butlast ?parts). on_grid 0 (dval (o_quantity p))" "allotted (butlast ?parts) = 50"
    by (simp_all add: i allotted_def)
  with weighted_split_total [OF _ p, of 0] p show ?thesis by (simp add: q i)
qed

end
