(* ===== verification/FIX_Message.thy ===== *)
theory FIX_Message
  imports Py_Str
begin

section \<open>FIX messages (\<open>src/protocols/fix_handler.py\<close>, the message layer)\<close>

text \<open>
  The FIX 4.4 dictionary, messages as ordered collections of fields, parsing from and
  encoding to the wire, and the builders. A byte is a \<open>char\<close>. A value that the code
  turns into text with \<open>str\<close> is an integer or a text here; the text of a float (price,
  quantity) is an argument. A time stamp is an argument, one for each reading.
\<close>

definition SOH :: char where
  "SOH = CHR 0x01"

definition fix_4_4_tags :: "(int \<times> string \<times> string) list" where
  "fix_4_4_tags =
     [(1, ''Account'', ''STRING''), (6, ''AvgPx'', ''PRICE''), (8, ''BeginString'', ''STRING''),
      (9, ''BodyLength'', ''INT''), (10, ''CheckSum'', ''STRING''),
      (11, ''ClOrdID'', ''STRING''), (14, ''CumQty'', ''QTY''), (17, ''ExecID'', ''STRING''),
      (20, ''ExecTransType'', ''CHAR''), (21, ''HandlInst'', ''CHAR''),
      (22, ''SecurityIDSource'', ''STRING''), (25, ''IOIQltyInd'', ''CHAR''),
      (30, ''LastMkt'', ''EXCHANGE''), (31, ''LastPx'', ''PRICE''), (32, ''LastQty'', ''QTY''),
      (34, ''MsgSeqNum'', ''INT''), (35, ''MsgType'', ''STRING''), (36, ''NewSeqNo'', ''INT''),
      (37, ''OrderID'', ''STRING''), (38, ''OrderQty'', ''QTY''), (39, ''OrdStatus'', ''CHAR''),
      (40, ''OrdType'', ''CHAR''), (41, ''OrigClOrdID'', ''STRING''),
      (43, ''PossDupFlag'', ''BOOLEAN''), (44, ''Price'', ''PRICE''),
      (45, ''RefSeqNum'', ''INT''), (48, ''SecurityID'', ''STRING''),
      (49, ''SenderCompID'', ''STRING''), (50, ''SenderSubID'', ''STRING''),
      (52, ''SendingTime'', ''UTCTIMESTAMP''), (54, ''Side'', ''CHAR''),
      (55, ''Symbol'', ''STRING''), (56, ''TargetCompID'', ''STRING''),
      (57, ''TargetSubID'', ''STRING''), (58, ''Text'', ''STRING''),
      (59, ''TimeInForce'', ''CHAR''), (60, ''TransactTime'', ''UTCTIMESTAMP''),
      (64, ''SettlDate'', ''LOCALMKTDATE''), (66, ''ListID'', ''STRING''),
      (75, ''TradeDate'', ''LOCALMKTDATE''), (76, ''ExecBroker'', ''STRING''),
      (77, ''PositionEffect'', ''CHAR''), (78, ''NoAllocs'', ''NUMINGROUP''),
      (81, ''ProcessCode'', ''CHAR''), (87, ''AllocStatus'', ''INT''),
      (88, ''AllocRejCode'', ''INT''), (89, ''Signature'', ''DATA''),
      (90, ''SecureDataLen'', ''INT''), (91, ''SecureData'', ''DATA''),
      (93, ''SignatureLength'', ''INT''), (95, ''RawDataLength'', ''INT''),
      (96, ''RawData'', ''DATA''), (98, ''EncryptMethod'', ''INT''), (99, ''StopPx'', ''PRICE''),
      (100, ''ExDestination'', ''EXCHANGE''), (102, ''CxlRejReason'', ''INT''),
      (103, ''OrdRejReason'', ''INT''), (107, ''SecurityDesc'', ''STRING''),
      (108, ''HeartBtInt'', ''INT''), (109, ''ClientID'', ''STRING''),
      (111, ''MaxFloor'', ''QTY''), (112, ''TestReqID'', ''STRING''),
      (120, ''SettlCurrency'', ''CURRENCY''), (122, ''OrigSendingTime'', ''UTCTIMESTAMP''),
      (128, ''DeliverToCompID'', ''STRING''), (129, ''DeliverToSubID'', ''STRING''),
      (130, ''IOINaturalFlag'', ''BOOLEAN''), (140, ''PrevClosePx'', ''PRICE''),
      (141, ''ResetSeqNumFlag'', ''BOOLEAN''), (142, ''SenderLocationID'', ''STRING''),
      (143, ''TargetLocationID'', ''STRING''), (144, ''OnBehalfOfCompID'', ''STRING''),
      (145, ''OnBehalfOfSubID'', ''STRING''), (150, ''ExecType'', ''CHAR''),
      (151, ''LeavesQty'', ''QTY''), (167, ''SecurityType'', ''STRING''),
      (200, ''MaturityMonthYear'', ''MONTHYEAR''), (207, ''SecurityExchange'', ''EXCHANGE''),
      (211, ''PegOffsetValue'', ''FLOAT''), (212, ''XmlDataLen'', ''INT''),
      (213, ''XmlData'', ''DATA''), (242, ''UnderlyingInstrument'', ''STRING''),
      (250, ''RelatedInstrument'', ''STRING''), (252, ''QuoteID'', ''STRING''),
      (262, ''MDReqID'', ''STRING''), (263, ''SubscriptionRequestType'', ''CHAR''),
      (264, ''MarketDepth'', ''INT''), (265, ''MDUpdateType'', ''INT''),
      (266, ''AggregatedBook'', ''BOOLEAN''), (267, ''NoMDEntryTypes'', ''NUMINGROUP''),
      (268, ''NoMDEntries'', ''NUMINGROUP''), (269, ''MDEntryType'', ''CHAR''),
      (270, ''MDEntryPx'', ''PRICE''), (271, ''MDEntrySize'', ''QTY''),
      (272, ''MDEntryDate'', ''UTCDATE''), (273, ''MDEntryTime'', ''UTCTIMEONLY''),
      (274, ''TickDirection'', ''CHAR''), (275, ''MDMkt'', ''EXCHANGE''),
      (278, ''MDEntryID'', ''STRING''), (279, ''MDUpdateAction'', ''CHAR''),
      (282, ''MDEntryOriginator'', ''STRING''), (286, ''OpenCloseSettlFlag'', ''CHAR''),
      (288, ''MDEntryBuyer'', ''STRING''), (289, ''MDEntrySeller'', ''STRING''),
      (290, ''MDEntryPositionNo'', ''INT''), (291, ''FinancialStatus'', ''CHAR''),
      (292, ''CorporateAction'', ''CHAR''), (296, ''NoQuoteEntries'', ''NUMINGROUP''),
      (336, ''TradingSessionID'', ''STRING''), (340, ''TradSesStatus'', ''INT''),
      (347, ''MessageEncoding'', ''STRING''), (369, ''LastMsgSeqNumProcessed'', ''INT''),
      (370, ''OnBehalfOfSendingTime'', ''UTCTIMESTAMP''), (371, ''RefTagID'', ''INT''),
      (372, ''RefMsgType'', ''STRING''), (373, ''SessionRejectReason'', ''INT''),
      (423, ''PriceType'', ''INT''), (434, ''CxlRejResponseTo'', ''CHAR''),
      (446, ''LastLiquidityInd'', ''INT''), (447, ''PartitionID'', ''INT''),
      (453, ''NoPartyIDs'', ''NUMINGROUP''), (460, ''Product'', ''INT''),
      (461, ''CFICode'', ''STRING''), (480, ''CancellationRights'', ''CHAR''),
      (481, ''MoneyLaunderingStatus'', ''CHAR''), (497, ''TotNoOrders'', ''INT''),
      (507, ''RegistID'', ''STRING''), (522, ''OwnerType'', ''INT''),
      (523, ''PartySubID'', ''STRING''), (528, ''OrderCapacity'', ''CHAR''),
      (529, ''OrderRestrictions'', ''CHAR''), (548, ''CrossID'', ''STRING''),
      (549, ''CrossType'', ''INT''), (550, ''CrossPrioritization'', ''INT''),
      (552, ''NoSides'', ''NUMINGROUP''), (553, ''Username'', ''STRING''),
      (554, ''Password'', ''STRING''), (567, ''TradSesStatusRejReason'', ''INT''),
      (573, ''MatchStatus'', ''CHAR''), (574, ''MatchType'', ''STRING''),
      (578, ''NoSettlementInstructions'', ''NUMINGROUP''), (581, ''AccountType'', ''INT''),
      (582, ''CustOrderCapacity'', ''INT''), (584, ''MassStatusReqID'', ''STRING''),
      (585, ''MassStatusReqType'', ''INT''), (623, ''EncodedTextLen'', ''INT''),
      (624, ''EncodedText'', ''DATA''), (625, ''TradingSessionSubID'', ''STRING''),
      (626, ''AllocType'', ''INT''), (636, ''WorkingIndicator'', ''BOOLEAN''),
      (660, ''AcctIDSource'', ''INT''), (665, ''SettlInstMsgID'', ''STRING''),
      (669, ''LastParPx'', ''PRICE''), (670, ''NoPositions'', ''NUMINGROUP''),
      (692, ''QuotePriceType'', ''INT''), (702, ''NoPosAmt'', ''NUMINGROUP''),
      (708, ''PosAmtType'', ''STRING''), (710, ''PosReqID'', ''STRING''),
      (715, ''ClearingBusinessDate'', ''LOCALMKTDATE''), (789, ''NextExpectedMsgSeqNum'', ''INT'')]"

definition fix_tag_name :: "int \<Rightarrow> string option" where
  "fix_tag_name t = map_option fst (map_of fix_4_4_tags t)"

text \<open>In the reversed dictionary a later entry for a name wins.\<close>

definition fix_name_tag :: "string \<Rightarrow> int option" where
  "fix_name_tag n = map_of (rev (map (\<lambda>(t, nm, ty). (nm, t)) fix_4_4_tags)) n"

text \<open>The constants of \<open>MsgType\<close>.\<close>

definition msg_types :: "(string \<times> string) list" where
  "msg_types =
     [(''HEARTBEAT'', ''0''), (''TEST_REQUEST'', ''1''), (''RESEND_REQUEST'', ''2''),
      (''REJECT'', ''3''), (''SEQUENCE_RESET'', ''4''), (''LOGOUT'', ''5''),
      (''EXECUTION_REPORT'', ''8''), (''ORDER_CANCEL_REJECT'', ''9''), (''LOGON'', ''A''),
      (''DERIVATIVE_SECURITY_LIST'', ''AA''), (''NEW_ORDER_SINGLE'', ''D''),
      (''NEW_ORDER_LIST'', ''E''), (''ORDER_CANCEL_REQUEST'', ''F''),
      (''ORDER_CANCEL_REPLACE_REQUEST'', ''G''), (''ORDER_STATUS_REQUEST'', ''H''),
      (''ALLOCATION_INSTRUCTION'', ''J''), (''LIST_CANCEL_REQUEST'', ''K''),
      (''LIST_EXECUTE'', ''L''), (''LIST_STATUS_REQUEST'', ''M''), (''LIST_STATUS'', ''N''),
      (''ALLOCATION_INSTRUCTION_ACK'', ''P''), (''DONT_KNOW_TRADE'', ''Q''),
      (''QUOTE_REQUEST'', ''R''), (''QUOTE'', ''S''), (''SETTLEMENT_INSTRUCTIONS'', ''T''),
      (''MARKET_DATA_REQUEST'', ''V''), (''MARKET_DATA_SNAPSHOT_FULL_REFRESH'', ''W''),
      (''MARKET_DATA_INCREMENTAL_REFRESH'', ''X''), (''MARKET_DATA_REQUEST_REJECT'', ''Y''),
      (''QUOTE_CANCEL'', ''Z''), (''QUOTE_STATUS_REQUEST'', ''a''),
      (''MASS_QUOTE_ACKNOWLEDGEMENT'', ''b''), (''SECURITY_DEFINITION_REQUEST'', ''c''),
      (''SECURITY_DEFINITION'', ''d''), (''SECURITY_STATUS_REQUEST'', ''e''),
      (''SECURITY_STATUS'', ''f''), (''TRADING_SESSION_STATUS_REQUEST'', ''g''),
      (''TRADING_SESSION_STATUS'', ''h''), (''MASS_QUOTE'', ''i''),
      (''BUSINESS_MESSAGE_REJECT'', ''j''), (''BID_REQUEST'', ''k''), (''BID_RESPONSE'', ''l''),
      (''LIST_STRIKE_PRICE'', ''m''), (''XML_MESSAGE'', ''n''),
      (''REGISTRATION_INSTRUCTIONS'', ''o''), (''REGISTRATION_INSTRUCTIONS_RESPONSE'', ''p''),
      (''ORDER_MASS_CANCEL_REQUEST'', ''q''), (''ORDER_MASS_CANCEL_REPORT'', ''r''),
      (''NEW_ORDER_CROSS'', ''s''), (''CROSS_ORDER_CANCEL_REPLACE_REQUEST'', ''t''),
      (''CROSS_ORDER_CANCEL_REQUEST'', ''u''), (''SECURITY_TYPES'', ''w''),
      (''SECURITY_LIST'', ''y''), (''DERIVATIVE_SECURITY_LIST_REQUEST'', ''z'')]"

definition msg_type_of :: "string \<Rightarrow> string" where
  "msg_type_of name = the (map_of msg_types name)"

definition admin_msg_types :: "string list" where
  "admin_msg_types = [''0'', ''1'', ''2'', ''3'', ''4'', ''5'', ''A'']"

type_synonym fix_message = "(int, string) dict"

datatype fix_tag = Tag int | Named string
datatype fix_value = V_Str string | V_Int int

definition resolve_tag :: "fix_tag \<Rightarrow> int" where
  "resolve_tag t =
     (case t of Tag i \<Rightarrow> i | Named n \<Rightarrow> (case fix_name_tag n of None \<Rightarrow> 0 | Some i \<Rightarrow> i))"

definition value_text :: "fix_value \<Rightarrow> string" where
  "value_text v = (case v of V_Str s \<Rightarrow> s | V_Int i \<Rightarrow> int_str i)"

definition fix_set :: "fix_message \<Rightarrow> fix_tag \<Rightarrow> fix_value \<Rightarrow> fix_message" where
  "fix_set m t v = dset m (resolve_tag t) (value_text v)"

definition fix_get :: "fix_message \<Rightarrow> fix_tag \<Rightarrow> string \<Rightarrow> string" where
  "fix_get m t dflt = (case dget m (resolve_tag t) of None \<Rightarrow> dflt | Some v \<Rightarrow> v)"

definition fix_get_int :: "fix_message \<Rightarrow> fix_tag \<Rightarrow> int \<Rightarrow> exn + int" where
  "fix_get_int m t dflt =
     (let v = fix_get m t [] in
      if v = [] then Inr dflt
      else (case parse_int v of None \<Rightarrow> Inl ValueError | Some i \<Rightarrow> Inr i))"

definition fix_has :: "fix_message \<Rightarrow> fix_tag \<Rightarrow> bool" where
  "fix_has m t \<longleftrightarrow> \<not> Option.is_none (dget m (resolve_tag t))"

definition fix_remove :: "fix_message \<Rightarrow> fix_tag \<Rightarrow> fix_message" where
  "fix_remove m t = ddel m (resolve_tag t)"

definition msg_type :: "fix_message \<Rightarrow> string" where
  "msg_type m = fix_get m (Tag 35) []"

definition msg_seq_num :: "fix_message \<Rightarrow> exn + int" where
  "msg_seq_num m =
     (case dget m 34 of
        None \<Rightarrow> Inr 0
      | Some v \<Rightarrow> (case parse_int v of None \<Rightarrow> Inl ValueError | Some i \<Rightarrow> Inr i))"

definition msg_sender :: "fix_message \<Rightarrow> string" where
  "msg_sender m = fix_get m (Tag 49) []"

definition msg_target :: "fix_message \<Rightarrow> string" where
  "msg_target m = fix_get m (Tag 56) []"

subsection \<open>Parsing\<close>

text \<open>One piece of the text: without \<open>=\<close>, or with a tag that is no integer, it is skipped.\<close>

definition parse_pair :: "string \<Rightarrow> fix_message \<Rightarrow> fix_message" where
  "parse_pair p m =
     (case split_first (CHR ''='') p of
        None \<Rightarrow> m
      | Some (tag_str, v) \<Rightarrow>
          (case parse_int tag_str of None \<Rightarrow> m | Some t \<Rightarrow> dset m t v))"

definition fix_parse :: "string \<Rightarrow> fix_message" where
  "fix_parse raw =
     foldl (\<lambda>m p. parse_pair p m) []
       (split_on (CHR '' '') (strip (replace_char SOH (CHR '' '') raw)))"

definition fix_parse_bytes :: "string \<Rightarrow> fix_message" where
  "fix_parse_bytes raw = fix_parse (decode_ascii raw)"

subsection \<open>Encoding\<close>

definition field_text :: "int \<times> string \<Rightarrow> string" where
  "field_text = (\<lambda>(t, v). int_str t @ ''='' @ v)"

definition body_fields :: "fix_message \<Rightarrow> fix_message" where
  "body_fields m = filter (\<lambda>(t, v). \<not> List.member [8, 9, 10] t) m"

definition calculate_checksum :: "string \<Rightarrow> nat" where
  "calculate_checksum s = sum_list (map of_char s) mod 256"

text \<open>The format \<open>:03d\<close> of a number below a thousand.\<close>

definition pad3 :: "nat \<Rightarrow> string" where
  "pad3 n = replicate (3 - length (nat_str n)) (CHR ''0'') @ nat_str n"

definition fix_prefix :: "fix_message \<Rightarrow> string" where
  "fix_prefix m =
     (let begin_string = fix_get m (Tag 8) ''FIX.4.4'';
          body_parts = map field_text (body_fields m);
          body_length = length (join_with [SOH] body_parts) + 1
      in join_with [SOH] ([''8='' @ begin_string, ''9='' @ nat_str body_length] @ body_parts) @ [SOH])"

definition encode_str :: "fix_message \<Rightarrow> exn + string" where
  "encode_str m =
     (if \<not> list_all is_ascii (join_with [SOH] (map field_text (body_fields m))) then Inl UnicodeEncodeError
      else Inr (fix_prefix m @ ''10='' @ pad3 (calculate_checksum (fix_prefix m)) @ [SOH]))"

definition fix_encode :: "fix_message \<Rightarrow> exn + string" where
  "fix_encode m =
     and_then (encode_str m) (\<lambda>s. if list_all is_ascii s then Inr s else Inl UnicodeEncodeError)"

subsection \<open>Builders\<close>

definition set_all :: "fix_message \<Rightarrow> (int \<times> fix_value) list \<Rightarrow> fix_message" where
  "set_all m xs = foldl (\<lambda>m (t, v). fix_set m (Tag t) v) m xs"

definition header_fields :: "string \<Rightarrow> string \<Rightarrow> int \<Rightarrow> string \<Rightarrow> string \<Rightarrow> (int \<times> fix_value) list" where
  "header_fields sender target_id seq typ ts =
     [(8, V_Str ''FIX.4.4''), (49, V_Str sender), (56, V_Str target_id), (34, V_Int seq),
      (35, V_Str (msg_type_of typ)), (52, V_Str ts)]"

definition logon_msg ::
  "string \<Rightarrow> string \<Rightarrow> int \<Rightarrow> int \<Rightarrow> string \<Rightarrow> string \<Rightarrow> bool \<Rightarrow> string \<Rightarrow> fix_message" where
  "logon_msg sender target_id seq heart username password reset_seq ts =
     set_all []
       (header_fields sender target_id seq ''LOGON'' ts @ [(98, V_Int 0), (108, V_Int heart)] @
        (if reset_seq then [(141, V_Str ''Y'')] else []) @
        (if username \<noteq> [] then [(553, V_Str username)] else []) @
        (if password \<noteq> [] then [(554, V_Str password)] else []))"

definition heartbeat_msg :: "string \<Rightarrow> string \<Rightarrow> int \<Rightarrow> string \<Rightarrow> fix_message" where
  "heartbeat_msg sender target_id seq ts = set_all [] (header_fields sender target_id seq ''HEARTBEAT'' ts)"

definition logout_msg :: "string \<Rightarrow> string \<Rightarrow> int \<Rightarrow> string \<Rightarrow> string \<Rightarrow> fix_message" where
  "logout_msg sender target_id seq txt ts =
     set_all [] (header_fields sender target_id seq ''LOGOUT'' ts @ (if txt \<noteq> [] then [(58, V_Str txt)] else []))"

definition new_order_single ::
  "string \<Rightarrow> string \<Rightarrow> int \<Rightarrow> string \<Rightarrow> string \<Rightarrow> string \<Rightarrow> string \<Rightarrow> string option \<Rightarrow> string \<Rightarrow> string \<Rightarrow>
   string \<Rightarrow> string \<Rightarrow> fix_message" where
  "new_order_single sender target_id seq cl_ord_id sy side qty price ord_type tif ts1 ts2 =
     set_all []
       (header_fields sender target_id seq ''NEW_ORDER_SINGLE'' ts1 @
        [(11, V_Str cl_ord_id), (55, V_Str sy), (54, V_Str side), (38, V_Str qty), (40, V_Str ord_type)] @
        (case price of None \<Rightarrow> [] | Some p \<Rightarrow> [(44, V_Str p)]) @
        [(59, V_Str tif), (60, V_Str ts2)])"

definition order_cancel_request ::
  "string \<Rightarrow> string \<Rightarrow> int \<Rightarrow> string \<Rightarrow> string \<Rightarrow> string \<Rightarrow> string \<Rightarrow> string \<Rightarrow> string \<Rightarrow> fix_message" where
  "order_cancel_request sender target_id seq orig cl_ord_id sy side ts1 ts2 =
     set_all []
       (header_fields sender target_id seq ''ORDER_CANCEL_REQUEST'' ts1 @
        [(41, V_Str orig), (11, V_Str cl_ord_id), (55, V_Str sy), (54, V_Str side), (60, V_Str ts2)])"

text \<open>Every entry type and every symbol is written under the same tag.\<close>

definition market_data_request ::
  "string \<Rightarrow> string \<Rightarrow> int \<Rightarrow> string \<Rightarrow> string list \<Rightarrow> string \<Rightarrow> int \<Rightarrow> string list option \<Rightarrow> string \<Rightarrow> fix_message" where
  "market_data_request sender target_id seq md_req_id symbols subscription depth entry_types ts =
     (let types = (case entry_types of None \<Rightarrow> [''0'', ''1''] | Some [] \<Rightarrow> [''0'', ''1''] | Some (u # us) \<Rightarrow> u # us)
      in set_all []
           (header_fields sender target_id seq ''MARKET_DATA_REQUEST'' ts @
            [(262, V_Str md_req_id), (263, V_Str subscription), (264, V_Int depth), (267, V_Int (int (length types)))] @
            map (\<lambda>t. (269, V_Str t)) types @
            [(146, V_Int (int (length symbols)))] @
            map (\<lambda>s. (55, V_Str s)) symbols))"

section \<open>Lemmas: the dictionary\<close>

lemma fix_tags_distinct: "distinct (map fst fix_4_4_tags)"
  unfolding fix_4_4_tags_def by simp

section \<open>Lemmas: encoding and parsing\<close>

text \<open>What survives the wire: ASCII without the delimiter and without the space it is replaced by.\<close>

definition clean_char :: "char \<Rightarrow> bool" where
  "clean_char c \<longleftrightarrow> c \<noteq> SOH \<and> c \<noteq> CHR '' '' \<and> is_ascii c"

definition clean_message :: "fix_message \<Rightarrow> bool" where
  "clean_message m \<longleftrightarrow> list_all (\<lambda>(t, v). list_all clean_char v) m"

definition wire_fields :: "fix_message \<Rightarrow> fix_message" where
  "wire_fields m =
     [(8, fix_get m (Tag 8) ''FIX.4.4''),
      (9, nat_str (length (join_with [SOH] (map field_text (body_fields m))) + 1))] @
     body_fields m @ [(10, pad3 (calculate_checksum (fix_prefix m)))]"

lemma digit_clean: "is_digit c \<Longrightarrow> clean_char c"
  by (auto simp: clean_char_def is_digit_def is_ascii_def SOH_def)

lemma clean_simps [simp]: "clean_char (CHR ''='')" "clean_char (CHR ''-'')"
  by (simp_all add: clean_char_def is_ascii_def SOH_def)

lemma int_str_clean: "list_all clean_char (int_str t)"
  by (auto simp: list_all_iff dest!: int_str_chars digit_clean)

lemma nat_str_clean: "list_all clean_char (nat_str n)"
  by (auto simp: list_all_iff dest!: nat_str_digits digit_clean)

lemma pad3_digits: "c \<in> set (pad3 n) \<Longrightarrow> is_digit c"
  by (auto simp: pad3_def is_digit_def dest: nat_str_digits)

lemma pad3_clean: "list_all clean_char (pad3 n)"
  by (auto simp: list_all_iff dest!: pad3_digits digit_clean)

lemma pad3_nonempty [simp]: "pad3 n \<noteq> []"
  by (simp add: pad3_def)

lemma int_str_no_eq: "CHR ''='' \<notin> set (int_str t)"
  by (auto dest!: int_str_chars)

lemma field_text_clean: "list_all clean_char v \<Longrightarrow> list_all clean_char (field_text (t, v))"
  by (simp add: field_text_def int_str_clean)

lemma parse_pair_field_text: "parse_pair (field_text (t, v)) m = dset m t v"
  by (simp add: parse_pair_def field_text_def split_first_app int_str_no_eq parse_int_int_str)

lemma dset_new: "k \<notin> fst ` set d \<Longrightarrow> dset d k v = d @ [(k, v)]"
  by (induction d) auto

lemma parse_fields:
  "distinct (map fst (acc @ xs)) \<Longrightarrow>
   foldl (\<lambda>m p. parse_pair p m) acc (map field_text xs) = acc @ xs"
proof (induction xs arbitrary: acc)
  case Nil
  then show ?case by simp
next
  case (Cons x xs)
  obtain t v where x: "x = (t, v)" by (cases x)
  have "parse_pair (field_text (t, v)) acc = acc @ [(t, v)]"
    using Cons.prems by (simp add: parse_pair_field_text x dset_new)
  with Cons.IH [of "acc @ [(t, v)]"] Cons.prems show ?case by (simp add: x)
qed

lemma join_with_snoc: "xs \<noteq> [] \<Longrightarrow> join_with sep (xs @ [y]) = join_with sep xs @ sep @ y"
  by (induction sep xs rule: join_with.induct) auto

lemma replace_absent: "a \<notin> set z \<Longrightarrow> map (\<lambda>c. if c = a then b else c) z = z"
  by (induction z) auto

lemma join_replace:
  "(\<And>x. x \<in> set xs \<Longrightarrow> a \<notin> set x) \<Longrightarrow> replace_char a b (join_with [a] xs) = join_with [b] xs"
  by (induction "[a]" xs rule: join_with.induct) (simp_all add: replace_char_def replace_absent)

lemma join_hd: "x \<noteq> [] \<Longrightarrow> hd (join_with sep (x # xs)) = hd x"
  by (cases xs) auto

lemma field_text_lits [simp]:
  "field_text (8, v) = ''8='' @ v" "field_text (9, v) = ''9='' @ v" "field_text (10, v) = ''10='' @ v"
proof -
  have "int_str 8 = ''8''" "int_str 9 = ''9''" "int_str 10 = ''10''" by code_simp+
  then show "field_text (8, v) = ''8='' @ v" "field_text (9, v) = ''9='' @ v" "field_text (10, v) = ''10='' @ v"
    by (simp_all add: field_text_def)
qed

lemma encode_wire:
  "fix_prefix m @ ''10='' @ pad3 (calculate_checksum (fix_prefix m)) @ [SOH] =
   join_with [SOH] (map field_text (wire_fields m)) @ [SOH]"
proof -
  define xs where "xs = [''8='' @ fix_get m (Tag 8) ''FIX.4.4'',
     ''9='' @ nat_str (length (join_with [SOH] (map field_text (body_fields m))) + 1)] @ map field_text (body_fields m)"
  have pre: "fix_prefix m = join_with [SOH] xs @ [SOH]"
    by (simp only: fix_prefix_def Let_def xs_def)
  define y where "y = ''10='' @ pad3 (calculate_checksum (fix_prefix m))"
  have "map field_text (wire_fields m) = xs @ [y]"
    by (simp add: wire_fields_def xs_def y_def)
  moreover have "xs \<noteq> []" by (simp add: xs_def)
  ultimately have "join_with [SOH] (map field_text (wire_fields m)) = join_with [SOH] xs @ [SOH] @ y"
    using join_with_snoc [of xs "[SOH]" y] by metis
  then show ?thesis by (simp add: pre y_def)
qed

lemma wire_fields_keys: "dict_ok m \<Longrightarrow> distinct (map fst (wire_fields m))"
  by (auto simp: wire_fields_def body_fields_def dict_ok_def distinct_map inj_on_def image_iff
      intro!: distinct_filter)

lemma clean_ascii: "list_all clean_char v \<Longrightarrow> list_all is_ascii v"
  by (auto simp: list_all_iff clean_char_def)

lemma wire_fields_clean:
  assumes "clean_message m" "(t, v) \<in> set (wire_fields m)"
  shows "list_all clean_char v"
proof -
  have "list_all clean_char ''FIX.4.4''" by code_simp
  then have "list_all clean_char (fix_get m (Tag 8) ''FIX.4.4'')"
    using assms(1) map_of_SomeD [of m 8]
    by (auto simp: fix_get_def resolve_tag_def clean_message_def list_all_iff split: option.splits)
  with assms show ?thesis
    by (auto simp: wire_fields_def body_fields_def clean_message_def pad3_clean nat_str_clean)
      (auto simp: list_all_iff)
qed

lemma join_ascii: "(\<And>x. x \<in> set xs \<Longrightarrow> list_all is_ascii x) \<Longrightarrow> list_all is_ascii (join_with [SOH] xs)"
  by (induction "[SOH]" xs rule: join_with.induct) (auto simp: is_ascii_def SOH_def)

lemma encode_clean:
  assumes "clean_message m"
  shows "fix_encode m = Inr (join_with [SOH] (map field_text (wire_fields m)) @ [SOH])"
    and "list_all is_ascii (join_with [SOH] (map field_text (wire_fields m)) @ [SOH])"
proof -
  have w: "list_all is_ascii (field_text f)" if "f \<in> set (wire_fields m)" for f
    using that wire_fields_clean [OF assms] field_text_clean clean_ascii by (metis surj_pair)
  then show a: "list_all is_ascii (join_with [SOH] (map field_text (wire_fields m)) @ [SOH])"
    using join_ascii [of "map field_text (wire_fields m)"] by (fastforce simp: is_ascii_def SOH_def)
  have "set (body_fields m) \<subseteq> set (wire_fields m)" by (auto simp: wire_fields_def)
  then have "list_all is_ascii (join_with [SOH] (map field_text (body_fields m)))"
    using w by (intro join_ascii) auto
  then have "encode_str m = Inr (join_with [SOH] (map field_text (wire_fields m)) @ [SOH])"
    by (simp only: encode_str_def encode_wire simp_thms if_False)
  with a show "fix_encode m = Inr (join_with [SOH] (map field_text (wire_fields m)) @ [SOH])"
    by (simp only: fix_encode_def and_then.simps if_True)
qed

lemma strip_trailing_space:
  assumes "s \<noteq> []" "\<not> is_space (hd s)" "\<not> is_space (last s)"
  shows "strip (s @ [CHR '' '']) = s"
proof -
  have "dropWhile is_space (s @ [CHR '' '']) = s @ [CHR '' '']" using assms(1,2) by (cases s) auto
  moreover have "dropWhile is_space (CHR '' '' # rev s) = rev s"
    using assms(1,3) by (cases s rule: rev_cases) (auto simp: is_space_def)
  ultimately show ?thesis by (simp add: strip_def)
qed

lemma parse_encode:
  assumes "clean_message m" "dict_ok m" "fix_encode m = Inr s"
  shows "fix_parse_bytes s = wire_fields m"
proof -
  let ?ts = "map field_text (wire_fields m)" and ?j = "\<lambda>c. join_with [c] (map field_text (wire_fields m))"
  have s: "s = ?j SOH @ [SOH]" "list_all is_ascii s" using encode_clean [OF assms(1)] assms(3) by auto
  have c: "list_all clean_char x" if "x \<in> set ?ts" for x
    using that wire_fields_clean [OF assms(1)] by (auto intro: field_text_clean)
  then have no: "SOH \<notin> set x" "CHR '' '' \<notin> set x" if "x \<in> set ?ts" for x
    using that by (auto simp: list_all_iff clean_char_def)
  obtain ys y where ts: "?ts = (''8='' @ ys) # butlast (tl ?ts) @ [''10='' @ y]" "\<forall>c \<in> set y. is_digit c" "y \<noteq> []"
    by (simp add: wire_fields_def butlast_append) (metis pad3_digits pad3_nonempty)
  have "replace_char SOH (CHR '' '') s = ?j (CHR '' '') @ [CHR '' '']"
    using join_replace [of ?ts SOH "CHR '' ''"] no(1) by (simp add: s(1) replace_char_def)
  moreover have "strip (?j (CHR '' '') @ [CHR '' '']) = ?j (CHR '' '')"
  proof (rule strip_trailing_space)
    have "hd (?j (CHR '' '')) = CHR ''8''" by (subst ts(1)) (subst join_hd, auto)
    then show "\<not> is_space (hd (?j (CHR '' '')))" by (simp add: is_space_def)
    have j: "?j (CHR '' '') = join_with '' '' ((''8='' @ ys) # butlast (tl ?ts)) @ '' '' @ ''10='' @ y"
      by (subst ts(1)) (subst append_Cons [symmetric], subst join_with_snoc, auto)
    then have "last (?j (CHR '' '')) = last y" using ts(3) by simp
    with ts(2,3) show "\<not> is_space (last (?j (CHR '' '')))" by (metis digit_not_space last_in_set)
    show "?j (CHR '' '') \<noteq> []" using j by simp
  qed
  moreover have "split_on (CHR '' '') (?j (CHR '' '')) = ?ts"
    by (rule split_join) (use no(2) ts(1) in auto)
  moreover have "decode_ascii s = s" using s(2) by (intro decode_ascii_id) (auto simp: list_all_iff)
  ultimately show ?thesis
    using parse_fields [of "[]" "wire_fields m"] wire_fields_keys [OF assms(2)]
    by (simp add: fix_parse_bytes_def fix_parse_def)
qed

subsection \<open>The layout on the wire\<close>

definition fix_body :: "fix_message \<Rightarrow> string" where
  "fix_body m = concat (map (\<lambda>f. field_text f @ [SOH]) (body_fields m))"

lemma join_concat: "xs \<noteq> [] \<Longrightarrow> join_with [c] xs @ [c] = concat (map (\<lambda>x. x @ [c]) xs)"
  by (induction "[c]" xs rule: join_with.induct) auto

lemma fix_prefix_layout:
  assumes "body_fields m \<noteq> []"
  shows "fix_prefix m = ''8='' @ fix_get m (Tag 8) ''FIX.4.4'' @ [SOH] @ ''9='' @ nat_str (length (fix_body m)) @
    [SOH] @ fix_body m"
proof -
  let ?b = "map field_text (body_fields m)"
  have b: "join_with [SOH] ?b @ [SOH] = fix_body m"
    using assms join_concat [of ?b SOH] by (simp add: fix_body_def o_def)
  have "length (join_with [SOH] ?b) + 1 = length (fix_body m)"
    unfolding b [symmetric] by simp
  moreover have "join_with [SOH] ([x, y] @ ?b) = x @ [SOH] @ y @ [SOH] @ join_with [SOH] ?b" for x y
    using assms by (cases ?b) auto
  ultimately show ?thesis by (simp only: fix_prefix_def Let_def append_assoc b)
qed

lemma pad3_length: "n < 1000 \<Longrightarrow> length (pad3 n) = 3"
proof -
  assume n: "n < 1000"
  have "length (nat_str n) \<le> 3"
  proof (cases "n < 100")
    case True
    then show ?thesis by (subst nat_str.simps) (auto simp: nat_str.simps [of "n div 10"])
  next
    case False
    then have "n div 10 \<ge> 10" "n div 10 div 10 < 10" using n by auto
    then show ?thesis
      by (subst nat_str.simps) (auto simp: nat_str.simps [of "n div 10"] nat_str.simps [of "n div 10 div 10"])
  qed
  then show ?thesis by (simp add: pad3_def)
qed

lemma parse_int_pad3: "parse_int (pad3 n) = Some (int n)"
proof -
  obtain c cs where p: "pad3 n = c # cs" by (cases "pad3 n") auto
  have d: "is_digit c" using pad3_digits [of c n] p by simp
  have "strip (pad3 n) = pad3 n" by (rule strip_id_all) (auto dest: pad3_digits)
  moreover have "c \<noteq> CHR ''-''" "c \<noteq> CHR ''+''" using d by auto
  moreover have "digits_val False 0 (pad3 n) = Some (foldl (\<lambda>a c. a * 10 + digit_val c) 0 (pad3 n))"
    by (rule digits_val_all) (auto dest: pad3_digits)
  moreover have "foldl (\<lambda>a c. a * 10 + digit_val c) 0 (pad3 n) = int n"
  proof -
    have "foldl (\<lambda>a c. a * 10 + digit_val c) 0 (replicate k (CHR ''0'')) = 0" for k
      by (induction k) (simp_all add: digit_val_def)
    then show ?thesis by (simp add: pad3_def nat_str_val)
  qed
  ultimately show ?thesis by (simp add: parse_int_def p)
qed

subsection \<open>Builders\<close>

lemma dget_set_all:
  "dget (set_all m xs) t = (case map_of (rev xs) t of Some v \<Rightarrow> Some (value_text v) | None \<Rightarrow> dget m t)"
  by (induction xs arbitrary: m)
    (auto simp: set_all_def fix_set_def resolve_tag_def map_add_def split: option.splits)

lemma dict_ok_set_all: "dict_ok m \<Longrightarrow> dict_ok (set_all m xs)"
  by (induction xs arbitrary: m) (auto simp: set_all_def fix_set_def)

lemma clean_set_all:
  assumes "clean_message m" "\<And>t v. (t, v) \<in> set xs \<Longrightarrow> list_all clean_char (value_text v)"
  shows "clean_message (set_all m xs)"
  using assms
proof (induction xs arbitrary: m)
  case Nil
  then show ?case by (simp add: set_all_def)
next
  case (Cons x xs)
  obtain t v where x: "x = (t, v)" by (cases x)
  have "set (dset m t w) \<subseteq> insert (t, w) (set m)" for w
    by (induction m) auto
  then have "clean_message (fix_set m (Tag t) v)"
    using Cons.prems x by (fastforce simp: clean_message_def fix_set_def resolve_tag_def list_all_iff)
  then have "clean_message (set_all (fix_set m (Tag t) v) xs)"
    by (rule Cons.IH) (use Cons.prems(2) x in auto)
  then show ?case by (simp add: set_all_def x)
qed

lemma dget_wire_fields:
  assumes "t \<notin> {8, 9, 10}"
  shows "dget (wire_fields m) t = dget m t"
proof -
  have "dget (body_fields m) t = dget m t"
    using assms by (induction m) (auto simp: body_fields_def)
  with assms show ?thesis by (simp add: wire_fields_def map_add_def split: option.splits)
qed

section \<open>Properties of the message layer\<close>

text \<open>C1. Every message whose values are free of the delimiter, of spaces and of non-ASCII
  characters can be encoded, and parsing the bytes gives the message back: the same fields in
  the same order between a recomputed BodyLength and CheckSum.\<close>

theorem message_round_trip:
  assumes "clean_message m" "dict_ok m"
  shows "\<exists>s. fix_encode m = Inr s \<and> fix_parse_bytes s = wire_fields m \<and>
    list_all (\<lambda>(t, v). t \<in> {8, 9, 10} \<or> dget (fix_parse_bytes s) t = Some v) m"
proof -
  obtain s where s: "fix_encode m = Inr s" using encode_clean(1) [OF assms(1)] by blast
  have "dget (wire_fields m) t = Some v" if "(t, v) \<in> set m" "t \<notin> {8, 9, 10}" for t v
    using dget_wire_fields [OF that(2)] that(1) assms(2) by (simp add: dict_ok_def)
  with s parse_encode [OF assms s] show ?thesis by (auto simp: list_all_iff)
qed

theorem message_round_trip_witness:
  "\<exists>s. fix_encode [(35, ''D''), (49, ''ME''), (56, ''YOU''), (55, ''IBM'')] = Inr s \<and> dget (fix_parse_bytes s) 55 = Some ''IBM''"
proof -
  let ?m = "[(35, ''D''), (49, ''ME''), (56, ''YOU''), (55, ''IBM'')] :: fix_message"
  have "clean_message ?m" by (simp add: clean_message_def clean_char_def is_ascii_def SOH_def)
  from message_round_trip [OF this] show ?thesis by (auto simp: dict_ok_def)
qed

text \<open>What goes on the wire is laid out as FIX asks: BeginString and BodyLength first, with
  BodyLength the exact number of bytes of the body, and at the end a CheckSum of three digits
  that is the sum of all bytes before it modulo 256.\<close>

theorem wire_layout:
  assumes "clean_message m" "body_fields m \<noteq> []"
  shows "\<exists>prefix chk. fix_encode m = Inr (prefix @ ''10='' @ chk @ [SOH]) \<and>
    prefix = ''8='' @ fix_get m (Tag 8) ''FIX.4.4'' @ [SOH] @ ''9='' @ nat_str (length (fix_body m)) @ [SOH] @ fix_body m \<and>
    length chk = 3 \<and> parse_int chk = Some (int (sum_list (map of_char prefix) mod 256))"
proof (intro exI conjI)
  let ?p = "fix_prefix m"
  show "fix_encode m = Inr (?p @ ''10='' @ pad3 (calculate_checksum ?p) @ [SOH])"
    using encode_clean(1) [OF assms(1)] by (simp only: encode_wire)
  show "?p = ''8='' @ fix_get m (Tag 8) ''FIX.4.4'' @ [SOH] @ ''9='' @ nat_str (length (fix_body m)) @ [SOH] @ fix_body m"
    by (rule fix_prefix_layout [OF assms(2)])
  show "length (pad3 (calculate_checksum ?p)) = 3"
    by (rule pad3_length) (simp add: calculate_checksum_def order.strict_trans1 [OF less_imp_le [OF mod_less_divisor]])
  show "parse_int (pad3 (calculate_checksum ?p)) = Some (int (sum_list (map of_char ?p) mod 256))"
    by (simp add: parse_int_pad3 calculate_checksum_def)
qed

theorem wire_layout_witness:
  "\<exists>prefix chk. fix_encode [(35, ''0''), (34, ''7'')] = Inr (prefix @ ''10='' @ chk @ [SOH]) \<and> length chk = 3"
proof -
  have "clean_message [(35, ''0''), (34, ''7'')]" "body_fields [(35, ''0''), (34, ''7'')] \<noteq> []"
    by (simp_all add: clean_message_def clean_char_def is_ascii_def SOH_def body_fields_def)
  from wire_layout [OF this] show ?thesis by blast
qed

lemma clean_header:
  assumes "list_all clean_char sender" "list_all clean_char target_id" "list_all clean_char ts" "typ \<in> set (map fst msg_types)"
    "(t, v) \<in> set (header_fields sender target_id seq typ ts)"
  shows "list_all clean_char (value_text v)"
proof -
  have "list_all (\<lambda>x. list_all clean_char (snd x)) msg_types"
    by (simp add: msg_types_def clean_char_def is_ascii_def SOH_def)
  moreover obtain code where "map_of msg_types typ = Some code" "(typ, code) \<in> set msg_types"
    using assms(4) by (metis map_of_SomeD map_of_eq_None_iff option.exhaust list.set_map)
  ultimately have "list_all clean_char (msg_type_of typ)" by (auto simp: msg_type_of_def list_all_iff)
  then show ?thesis
    using assms(1-3,5) int_str_clean
    by (auto simp: header_fields_def value_text_def) (simp_all add: clean_char_def is_ascii_def SOH_def)
qed

text \<open>A new-order message built from clean texts arrives as it was built: type D, the parties,
  the sequence number as an integer, and the order's identifier, symbol, side, quantity, type
  and limit price, if any.\<close>

theorem new_order_message_arrives:
  assumes "\<forall>x \<in> {sender, target_id, cl_ord_id, sy, side, qty, ord_type, tif, ts1, ts2} \<union> set_option price. list_all clean_char x"
  shows "\<exists>s. fix_encode (new_order_single sender target_id seq cl_ord_id sy side qty price ord_type tif ts1 ts2) = Inr s \<and>
    (let r = fix_parse_bytes s in
       msg_type r = ''D'' \<and> msg_sender r = sender \<and> msg_target r = target_id \<and> msg_seq_num r = Inr seq \<and>
       dget r 11 = Some cl_ord_id \<and> dget r 55 = Some sy \<and> dget r 54 = Some side \<and> dget r 38 = Some qty \<and>
       dget r 40 = Some ord_type \<and> dget r 44 = price)"
proof -
  let ?m = "new_order_single sender target_id seq cl_ord_id sy side qty price ord_type tif ts1 ts2"
  have "''NEW_ORDER_SINGLE'' \<in> set (map fst msg_types)" by (simp add: msg_types_def)
  from clean_header [OF _ _ _ this, of sender target_id ts1] assms
  have "clean_message ?m"
    unfolding new_order_single_def
    by (intro clean_set_all) (auto simp: clean_message_def value_text_def split: option.splits)
  moreover have ok: "dict_ok ?m" by (simp add: new_order_single_def dict_ok_set_all)
  ultimately obtain s where s: "fix_encode ?m = Inr s" "fix_parse_bytes s = wire_fields ?m"
    using encode_clean(1) parse_encode by blast
  have d: "msg_type_of ''NEW_ORDER_SINGLE'' = ''D''" by (simp add: msg_type_of_def msg_types_def)
  have f: "dget (fix_parse_bytes s) t = dget ?m t" if "t \<notin> {8, 9, 10}" for t
    unfolding s(2) by (rule dget_wire_fields [OF that])
  show ?thesis
    unfolding Let_def
    by (intro exI [of _ s] conjI s(1))
      (simp_all add: f msg_type_def msg_sender_def msg_target_def msg_seq_num_def fix_get_def resolve_tag_def
        new_order_single_def dget_set_all header_fields_def value_text_def d parse_int_int_str split: option.split)
qed

theorem new_order_message_arrives_witness:
  "\<exists>s. fix_encode (new_order_single ''ME'' ''YOU'' 4 ''C1'' ''IBM'' ''1'' ''100'' None ''1'' ''0'' ''t1'' ''t2'') = Inr s \<and>
     msg_seq_num (fix_parse_bytes s) = Inr 4"
proof -
  have "\<forall>x \<in> {''ME'', ''YOU'', ''C1'', ''IBM'', ''1'', ''100'', ''1'', ''0'', ''t1'', ''t2''} \<union> set_option (None :: string option).
      list_all clean_char x"
    by (simp add: clean_char_def is_ascii_def SOH_def)
  from new_order_message_arrives [OF this, of 4] show ?thesis by (auto simp: Let_def)
qed

end
