(* ===== verification/FIX_Session.thy ===== *)
theory FIX_Session
  imports FIX_Message
begin

section \<open>FIX sessions (\<open>src/protocols/fix_handler.py\<close>, the session layer)\<close>

text \<open>
  The state of a session, framing of the byte stream, dispatch, sending and the life
  cycle. Bytes written go to the list \<open>fs_wire\<close>, calls of message handlers to
  \<open>fs_delivered\<close> and calls of state handlers to \<open>fs_notified\<close>, each in order; what a
  handler raises is caught and logged. A handler is identified by a number. Clock
  readings and time stamps are arguments, and so is the outcome of opening the
  connection. Awaiting a write is one step with the code around it.
\<close>

datatype session_state = DISCONNECTED | CONNECTING | LOGON_SENT | LOGGED_ON | LOGOUT_SENT | CLOSING

record fix_config =
  fc_sender :: string
  fc_target :: string
  fc_username :: string
  fc_password :: string
  fc_heart_bt_int :: int
  fc_reset_seq :: bool
  fc_max_reconnect :: nat

record fix_stats =
  st_sent :: nat
  st_received :: nat
  st_bytes_sent :: nat
  st_bytes_received :: nat
  st_last_sent :: int
  st_last_received :: int
  st_heartbeat_sent :: int
  st_heartbeat_received :: int
  st_reconnects :: nat
  st_errors :: nat
  st_login :: int

type_synonym handler_id = nat

record fix_session =
  fs_config :: fix_config
  fs_state :: session_state
  fs_seq_out :: int
  fs_seq_in :: int
  fs_handlers :: "(string, handler_id list) dict"
  fs_state_handlers :: "handler_id list"
  fs_writer :: bool
  fs_reader :: bool
  fs_running :: bool
  fs_tasks :: nat
  fs_stats :: fix_stats
  fs_wire :: "string list"
  fs_delivered :: "(handler_id \<times> fix_message) list"
  fs_notified :: "(handler_id \<times> session_state \<times> session_state) list"

definition new_session :: "fix_config \<Rightarrow> fix_session" where
  "new_session c =
     \<lparr>fs_config = c, fs_state = DISCONNECTED, fs_seq_out = 1, fs_seq_in = 1, fs_handlers = [],
      fs_state_handlers = [], fs_writer = False, fs_reader = False, fs_running = False, fs_tasks = 0,
      fs_stats = \<lparr>st_sent = 0, st_received = 0, st_bytes_sent = 0, st_bytes_received = 0,
                  st_last_sent = 0, st_last_received = 0, st_heartbeat_sent = 0,
                  st_heartbeat_received = 0, st_reconnects = 0, st_errors = 0, st_login = 0\<rparr>,
      fs_wire = [], fs_delivered = [], fs_notified = []\<rparr>"

definition is_logged_on :: "fix_session \<Rightarrow> bool" where
  "is_logged_on s \<longleftrightarrow> fs_state s = LOGGED_ON"

definition handlers_for :: "fix_session \<Rightarrow> string \<Rightarrow> handler_id list" where
  "handlers_for s t = (case dget (fs_handlers s) t of None \<Rightarrow> [] | Some hs \<Rightarrow> hs)"

definition on_message :: "fix_session \<Rightarrow> string \<Rightarrow> handler_id \<Rightarrow> fix_session" where
  "on_message s t h =
     (let hs = handlers_for s t
      in s\<lparr>fs_handlers := dset (fs_handlers s) t (if List.member hs h then hs else hs @ [h])\<rparr>)"

definition on_state_change :: "fix_session \<Rightarrow> handler_id \<Rightarrow> fix_session" where
  "on_state_change s h =
     (if List.member (fs_state_handlers s) h then s
      else s\<lparr>fs_state_handlers := fs_state_handlers s @ [h]\<rparr>)"

definition remove_handler :: "fix_session \<Rightarrow> string \<Rightarrow> handler_id \<Rightarrow> fix_session" where
  "remove_handler s t h =
     (case dget (fs_handlers s) t of
        None \<Rightarrow> s
      | Some hs \<Rightarrow> s\<lparr>fs_handlers := dset (fs_handlers s) t (remove1 h hs)\<rparr>)"

subsection \<open>State changes\<close>

definition fix_transition :: "fix_session \<Rightarrow> session_state \<Rightarrow> fix_session" where
  "fix_transition s new =
     (if new = fs_state s then s
      else s\<lparr>fs_state := new,
             fs_notified := fs_notified s @ map (\<lambda>h. (h, fs_state s, new)) (fs_state_handlers s)\<rparr>)"

subsection \<open>Sending\<close>

definition send_raw :: "fix_session \<Rightarrow> string \<Rightarrow> int \<Rightarrow> exn + fix_session" where
  "send_raw s data now =
     (if \<not> fs_writer s then Inl RuntimeError
      else Inr (s\<lparr>fs_wire := fs_wire s @ [data],
                  fs_stats := (fs_stats s)\<lparr>st_bytes_sent := st_bytes_sent (fs_stats s) + length data,
                                           st_last_sent := now\<rparr>\<rparr>))"

definition count_sent :: "fix_session \<Rightarrow> fix_session" where
  "count_sent s = s\<lparr>fs_stats := (fs_stats s)\<lparr>st_sent := st_sent (fs_stats s) + 1\<rparr>\<rparr>"

text \<open>
  \<open>send\<close>: the header is stamped and the sequence number is taken before anything can
  fail; the session after an exception is the one with the number taken.
\<close>

definition stamp_header :: "fix_session \<Rightarrow> fix_message \<Rightarrow> string \<Rightarrow> fix_message" where
  "stamp_header s m ts =
     (let m1 = fix_set m (Tag 49) (V_Str (fc_sender (fs_config s)));
          m2 = fix_set m1 (Tag 56) (V_Str (fc_target (fs_config s)));
          m3 = fix_set m2 (Tag 34) (V_Int (fs_seq_out s))
      in if fix_has m3 (Tag 52) then m3 else fix_set m3 (Tag 52) (V_Str ts))"

definition fix_send :: "fix_session \<Rightarrow> fix_message \<Rightarrow> string \<Rightarrow> int \<Rightarrow> exn option \<times> fix_session" where
  "fix_send s m ts now =
     (let s1 = s\<lparr>fs_seq_out := fs_seq_out s + 1\<rparr> in
      case and_then (fix_encode (stamp_header s m ts)) (\<lambda>data. send_raw s1 data now) of
        Inl e \<Rightarrow> (Some e, s1)
      | Inr s2 \<Rightarrow> (None, count_sent s2))"

definition send_logon :: "fix_session \<Rightarrow> string \<Rightarrow> int \<Rightarrow> exn option \<times> fix_session" where
  "send_logon s ts now =
     (let c = fs_config s;
          m = logon_msg (fc_sender c) (fc_target c) (fs_seq_out s) (fc_heart_bt_int c)
                (fc_username c) (fc_password c) (fc_reset_seq c) ts;
          s1 = s\<lparr>fs_seq_out := fs_seq_out s + 1\<rparr>
      in case and_then (fix_encode m) (\<lambda>data. send_raw s1 data now) of
           Inl e \<Rightarrow> (Some e, s1)
         | Inr s2 \<Rightarrow> (None, fix_transition (count_sent s2) LOGON_SENT))"

subsection \<open>Connecting and disconnecting\<close>

text \<open>
  The retry loop: \<open>ok k\<close> tells whether attempt \<open>k\<close> opens the connection. \<open>Inr\<close> is the
  number of the attempt that did, \<open>Inl\<close> the number of attempts when the loop gives up.
\<close>

function connect_loop :: "(nat \<Rightarrow> bool) \<Rightarrow> nat \<Rightarrow> nat \<Rightarrow> nat + nat" where
  "connect_loop ok limit attempt =
     (if ok (Suc attempt) then Inr (Suc attempt)
      else if limit \<le> Suc attempt then Inl (Suc attempt)
      else connect_loop ok limit (Suc attempt))"
  by pat_completeness auto

termination by (relation "measure (\<lambda>(ok, limit, attempt). limit - attempt)") auto

declare connect_loop.simps [simp del]

definition count_reconnects :: "fix_session \<Rightarrow> nat \<Rightarrow> fix_session" where
  "count_reconnects s n = s\<lparr>fs_stats := (fs_stats s)\<lparr>st_reconnects := st_reconnects (fs_stats s) + n\<rparr>\<rparr>"

definition fix_connect ::
  "fix_session \<Rightarrow> (nat \<Rightarrow> bool) \<Rightarrow> string \<Rightarrow> int \<Rightarrow> exn option \<times> fix_session" where
  "fix_connect s ok ts now =
     (if fs_state s \<noteq> DISCONNECTED then (None, s)
      else
        let s1 = fix_transition s CONNECTING in
        case connect_loop ok (fc_max_reconnect (fs_config s)) 0 of
          Inl n \<Rightarrow> (Some ConnectionError, fix_transition (count_reconnects s1 n) DISCONNECTED)
        | Inr n \<Rightarrow>
            send_logon ((count_reconnects s1 (n - 1))
              \<lparr>fs_reader := True, fs_writer := True, fs_running := True, fs_tasks := fs_tasks s1 + 2\<rparr>) ts now)"

text \<open>
  \<open>disconnect\<close>: an exception of the logout leaves the method before anything is closed.
  The cancelled read loop ends in \<open>_transition(DISCONNECTED)\<close>, which runs here, while
  its cancellation is awaited, if the loop is still there.
\<close>

definition fix_disconnect ::
  "fix_session \<Rightarrow> string \<Rightarrow> bool \<Rightarrow> string \<Rightarrow> int \<Rightarrow> exn option \<times> fix_session" where
  "fix_disconnect s reason reading ts now =
     (let c = fs_config s;
          sent = (if fs_state s = LOGGED_ON \<or> fs_state s = LOGON_SENT
                  then and_then (fix_encode (logout_msg (fc_sender c) (fc_target c) (fs_seq_out s) reason ts))
                         (\<lambda>data. and_then (send_raw s data now) (\<lambda>s1. Inr (fix_transition s1 LOGOUT_SENT)))
                  else Inr s)
      in case sent of
           Inl e \<Rightarrow> (Some e, s)
         | Inr s1 \<Rightarrow>
             (let s2 = fix_transition (s1\<lparr>fs_running := False\<rparr>) CLOSING;
                  s3 = (if reading then fix_transition s2 DISCONNECTED else s2);
                  s4 = s3\<lparr>fs_tasks := 0, fs_writer := False, fs_reader := False\<rparr>
              in (None, fix_transition s4 DISCONNECTED)))"

subsection \<open>Framing\<close>

text \<open>\<open>find\<close>: the text before the first occurrence of a pattern, and the rest from it on.\<close>

fun break_at :: "string \<Rightarrow> string \<Rightarrow> (string \<times> string) option" where
  "break_at pat [] = (if pat = [] then Some ([], []) else None)"
| "break_at pat (c # cs) =
     (if starts_with pat (c # cs) then Some ([], c # cs)
      else map_option (\<lambda>(a, b). (c # a, b)) (break_at pat cs))"

fun body_length_in :: "string list \<Rightarrow> int option" where
  "body_length_in [] = None"
| "body_length_in (p # ps) = (if starts_with ''9='' p then parse_int (drop 2 p) else body_length_in ps)"

definition extract_body_length :: "string \<Rightarrow> int option" where
  "extract_body_length prefix = body_length_in (split_on SOH (decode_ascii prefix))"

text \<open>
  One round of \<open>_process_buffer\<close>: the first message and the rest, or \<open>None\<close> where the
  method returns the buffer.
\<close>

definition take_frame :: "string \<Rightarrow> (string \<times> string) option" where
  "take_frame buf =
     (case break_at [SOH] buf of
        None \<Rightarrow> None
      | Some (a, b) \<Rightarrow>
        (case break_at [SOH] (tl b) of
           None \<Rightarrow> None
         | Some (a2, b2) \<Rightarrow>
           (case extract_body_length (a @ [SOH] @ a2) of
              None \<Rightarrow> None
            | Some n \<Rightarrow>
              (case break_at ''10='' (tl b2) of
                 None \<Rightarrow> None
               | Some (a3, b3) \<Rightarrow>
                 (case break_at [SOH] (drop 3 b3) of
                    None \<Rightarrow> None
                  | Some (a4, b4) \<Rightarrow>
                      Some (a @ [SOH] @ a2 @ [SOH] @ a3 @ ''10='' @ a4 @ [SOH], tl b4))))))"

lemma break_at_append: "break_at pat s = Some (a, b) \<Longrightarrow> s = a @ b"
  by (induction s arbitrary: a b) (auto split: if_splits)

lemma break_at_starts: "break_at pat s = Some (a, b) \<Longrightarrow> starts_with pat b"
  by (induction s arbitrary: a b) (auto simp: starts_with_def split: if_splits)

lemma starts_with_append: "starts_with pat s \<longleftrightarrow> (\<exists>t. s = pat @ t)"
  by (auto simp: starts_with_def) (metis append_take_drop_id)

lemma take_frame_split: "take_frame buf = Some (f, r) \<Longrightarrow> buf = f @ r \<and> f \<noteq> []"
proof -
  assume "take_frame buf = Some (f, r)"
  then obtain a b a2 b2 a3 b3 a4 b4 where s: "break_at [SOH] buf = Some (a, b)" "break_at [SOH] (tl b) = Some (a2, b2)"
    "break_at ''10='' (tl b2) = Some (a3, b3)" "break_at [SOH] (drop 3 b3) = Some (a4, b4)"
    "f = a @ [SOH] @ a2 @ [SOH] @ a3 @ ''10='' @ a4 @ [SOH]" "r = tl b4"
    by (auto simp: take_frame_def split: option.splits)
  have "b = SOH # tl b" "b2 = SOH # tl b2" "b3 = ''10='' @ drop 3 b3" "b4 = SOH # tl b4"
    using s(1-4)[THEN break_at_starts] by (auto simp: starts_with_append)
  with s(1-4)[THEN break_at_append] s(5,6) show ?thesis by (metis append.assoc append_Cons append_Nil append_is_Nil_conv list.distinct(1))
qed

text \<open>The loop of \<open>_process_buffer\<close>: the raw messages, and what stays in the buffer.\<close>

function frames :: "string \<Rightarrow> string list \<times> string" where
  "frames buf =
     (case take_frame buf of
        None \<Rightarrow> ([], buf)
      | Some (f, r) \<Rightarrow> (let (fs, rest) = frames r in (f # fs, rest)))"
  by pat_completeness auto

termination
proof (relation "measure length")
  fix buf x f r
  assume "take_frame buf = Some x" "(f, r) = x"
  then show "(r, buf) \<in> measure length" using take_frame_split [of buf f r] by (cases f) auto
qed simp

declare frames.simps [simp del]

definition process_buffer :: "fix_session \<Rightarrow> string \<Rightarrow> int \<Rightarrow> string \<times> fix_message list \<times> fix_session" where
  "process_buffer s buf now =
     (let (fs, rest) = frames buf; st = fs_stats s
      in (rest, map fix_parse_bytes fs,
          if fs = [] then s
          else s\<lparr>fs_stats := st\<lparr>st_received := st_received st + length fs, st_last_received := now\<rparr>\<rparr>))"

subsection \<open>Dispatch\<close>

definition handle_admin :: "fix_session \<Rightarrow> fix_message \<Rightarrow> string \<Rightarrow> int \<Rightarrow> exn option \<times> fix_session" where
  "handle_admin s m ts now =
     (let t = msg_type m in
      if t = msg_type_of ''LOGON'' then
        (let s1 = fix_transition s LOGGED_ON in (None, s1\<lparr>fs_stats := (fs_stats s1)\<lparr>st_login := now\<rparr>\<rparr>))
      else if t = msg_type_of ''LOGOUT'' then (None, fix_transition s LOGOUT_SENT)
      else if t = msg_type_of ''HEARTBEAT'' then
        (None, s\<lparr>fs_stats := (fs_stats s)\<lparr>st_heartbeat_received := now\<rparr>\<rparr>)
      else if t = msg_type_of ''TEST_REQUEST'' then
        (let hb = heartbeat_msg (fc_sender (fs_config s)) (fc_target (fs_config s)) (fs_seq_out s) ts
         in fix_send s (fix_set hb (Tag 112) (V_Str (fix_get m (Tag 112) []))) ts now)
      else (None, s))"

definition deliver :: "fix_session \<Rightarrow> fix_message \<Rightarrow> fix_session" where
  "deliver s m =
     s\<lparr>fs_delivered := fs_delivered s @ map (\<lambda>h. (h, m)) (handlers_for s (msg_type m))\<rparr>"

text \<open>An exception of the administrative part ends the task before the handlers run.\<close>

definition dispatch :: "fix_session \<Rightarrow> fix_message \<Rightarrow> string \<Rightarrow> int \<Rightarrow> exn option \<times> fix_session" where
  "dispatch s m ts now =
     (if List.member admin_msg_types (msg_type m)
      then (case handle_admin s m ts now of
              (Some e, s1) \<Rightarrow> (Some e, s1)
            | (None, s1) \<Rightarrow> (None, deliver s1 m))
      else (None, deliver s m))"

definition heartbeat_tick :: "fix_session \<Rightarrow> string \<Rightarrow> int \<Rightarrow> fix_session" where
  "heartbeat_tick s ts now =
     (if \<not> fs_running s \<or> fs_state s \<noteq> LOGGED_ON then s
      else
        case fix_send s (heartbeat_msg (fc_sender (fs_config s)) (fc_target (fs_config s)) (fs_seq_out s) ts) ts now of
          (None, s1) \<Rightarrow> s1\<lparr>fs_stats := (fs_stats s1)\<lparr>st_heartbeat_sent := now\<rparr>\<rparr>
        | (Some e, s1) \<Rightarrow> s1\<lparr>fs_stats := (fs_stats s1)\<lparr>st_errors := st_errors (fs_stats s1) + 1\<rparr>\<rparr>)"

subsection \<open>The read loop and the connection as a whole\<close>

text \<open>
  The session, the bytes not yet framed, and the messages whose dispatch task has been
  created and has not run; tasks run in the order of their creation.
\<close>

record fix_conn =
  cn_session :: fix_session
  cn_buffer :: string
  cn_queue :: "fix_message list"

definition new_conn :: "fix_config \<Rightarrow> fix_conn" where
  "new_conn c = \<lparr>cn_session = new_session c, cn_buffer = [], cn_queue = []\<rparr>"

text \<open>One iteration of \<open>_read_loop\<close>: an empty chunk is the end of the stream.\<close>

definition read_chunk :: "fix_conn \<Rightarrow> string \<Rightarrow> int \<Rightarrow> fix_conn" where
  "read_chunk c chunk now =
     (let s = cn_session c in
      if \<not> fs_running s \<or> \<not> fs_reader s then c
      else if chunk = [] then c\<lparr>cn_session := fix_transition (s\<lparr>fs_running := False\<rparr>) DISCONNECTED\<rparr>
      else
        let s1 = s\<lparr>fs_stats := (fs_stats s)\<lparr>st_bytes_received := st_bytes_received (fs_stats s) + length chunk\<rparr>\<rparr>;
            (rest, ms, s2) = process_buffer s1 (cn_buffer c @ chunk) now
        in c\<lparr>cn_session := s2, cn_buffer := rest, cn_queue := cn_queue c @ ms\<rparr>)"

definition run_task :: "fix_conn \<Rightarrow> string \<Rightarrow> int \<Rightarrow> fix_conn" where
  "run_task c ts now =
     (case cn_queue c of
        [] \<Rightarrow> c
      | m # ms \<Rightarrow> c\<lparr>cn_session := snd (dispatch (cn_session c) m ts now), cn_queue := ms\<rparr>)"

text \<open>A reconnection starts a new read loop, whose buffer is empty.\<close>

datatype fix_op =
    F_Connect "nat \<Rightarrow> bool" string int
  | F_Disconnect string bool string int
  | F_Send fix_message string int
  | F_Chunk string int
  | F_Task string int
  | F_Heartbeat string int
  | F_On_Message string handler_id
  | F_On_State handler_id
  | F_Remove string handler_id

fun fix_step :: "fix_conn \<Rightarrow> fix_op \<Rightarrow> fix_conn" where
  "fix_step c (F_Connect ok ts now) =
     c\<lparr>cn_session := snd (fix_connect (cn_session c) ok ts now),
       cn_buffer := (if fs_state (cn_session c) = DISCONNECTED then [] else cn_buffer c)\<rparr>"
| "fix_step c (F_Disconnect reason reading ts now) =
     c\<lparr>cn_session := snd (fix_disconnect (cn_session c) reason reading ts now)\<rparr>"
| "fix_step c (F_Send m ts now) = c\<lparr>cn_session := snd (fix_send (cn_session c) m ts now)\<rparr>"
| "fix_step c (F_Chunk chunk now) = read_chunk c chunk now"
| "fix_step c (F_Task ts now) = run_task c ts now"
| "fix_step c (F_Heartbeat ts now) = c\<lparr>cn_session := heartbeat_tick (cn_session c) ts now\<rparr>"
| "fix_step c (F_On_Message t h) = c\<lparr>cn_session := on_message (cn_session c) t h\<rparr>"
| "fix_step c (F_On_State h) = c\<lparr>cn_session := on_state_change (cn_session c) h\<rparr>"
| "fix_step c (F_Remove t h) = c\<lparr>cn_session := remove_handler (cn_session c) t h\<rparr>"

section \<open>Framing does not depend on how the bytes arrive\<close>

lemma starts_with_prefix: "starts_with pat y \<Longrightarrow> starts_with pat (y @ t)"
  by (auto simp: starts_with_append)

lemma starts_with_enough: "length pat \<le> length s \<Longrightarrow> starts_with pat (s @ t) = starts_with pat s"
  by (simp add: starts_with_def)

lemma break_at_length: "break_at pat s = Some (a, b) \<Longrightarrow> length pat \<le> length s"
  using break_at_append [of pat s a b] break_at_starts [of pat s a b] by (auto simp: starts_with_append)

lemma break_at_more: "break_at pat s = Some (a, b) \<Longrightarrow> break_at pat (s @ t) = Some (a, b @ t)"
proof (induction s arbitrary: a b)
  case Nil
  then show ?case by (cases t) (auto simp: starts_with_def split: if_splits)
next
  case (Cons c cs)
  have "starts_with pat (c # cs @ t) = starts_with pat (c # cs)"
    using starts_with_enough [of pat "c # cs" t] break_at_length [OF Cons.prems] by simp
  with Cons show ?case by (auto split: if_splits)
qed

lemma tl_append_nonempty: "b \<noteq> [] \<Longrightarrow> tl (b @ t) = tl b @ t"
  by (cases b) auto

lemma take_frame_more: "take_frame a = Some (f, r) \<Longrightarrow> take_frame (a @ t) = Some (f, r @ t)"
proof -
  assume "take_frame a = Some (f, r)"
  then obtain p q p2 q2 p3 q3 p4 q4 n where s: "break_at [SOH] a = Some (p, q)" "break_at [SOH] (tl q) = Some (p2, q2)"
    "extract_body_length (p @ [SOH] @ p2) = Some n"
    "break_at ''10='' (tl q2) = Some (p3, q3)" "break_at [SOH] (drop 3 q3) = Some (p4, q4)"
    "f = p @ [SOH] @ p2 @ [SOH] @ p3 @ ''10='' @ p4 @ [SOH]" "r = tl q4"
    by (auto simp: take_frame_def split: option.splits)
  have "q \<noteq> []" "q2 \<noteq> []" "3 \<le> length q3" "q4 \<noteq> []"
    using s(1,2,4,5)[THEN break_at_starts] by (auto simp: starts_with_append)
  then have "tl (q @ t) = tl q @ t" "tl (q2 @ t) = tl q2 @ t" "drop 3 (q3 @ t) = drop 3 q3 @ t" "tl (q4 @ t) = tl q4 @ t"
    by (simp_all add: tl_append_nonempty)
  with s show ?thesis by (simp add: take_frame_def break_at_more)
qed

lemma frames_append:
  "frames (a @ t) = (let (f1, r1) = frames a; (f2, r2) = frames (r1 @ t) in (f1 @ f2, r2))"
proof (induction a rule: frames.induct)
  case (1 buf)
  show ?case
  proof (cases "take_frame buf")
    case None
    then have "frames buf = ([], buf)" by (subst frames.simps) simp
    then show ?thesis by (simp add: split_beta)
  next
    case (Some x)
    obtain f r where x: "x = (f, r)" by (cases x)
    have "frames (buf @ t) = (let (fs, rest) = frames (r @ t) in (f # fs, rest))"
      by (subst frames.simps) (simp add: take_frame_more [OF Some [unfolded x]])
    moreover have "frames buf = (let (fs, rest) = frames r in (f # fs, rest))"
      by (subst frames.simps) (simp add: Some x)
    ultimately show ?thesis using "1.IH" [OF Some x [symmetric]] by (simp add: split_beta Let_def)
  qed
qed

text \<open>An encoded message is one frame, unless its body has the text \<open>10=\<close> in it.\<close>

definition framable :: "fix_message \<Rightarrow> bool" where
  "framable m \<longleftrightarrow> clean_message m \<and> dict_ok m \<and> body_fields m \<noteq> [] \<and> break_at ''10='' (fix_body m) = None"

lemma break_at_char: "c \<notin> set a \<Longrightarrow> break_at [c] (a @ c # b) = Some (a, c # b)"
  by (induction a) (auto simp: starts_with_def)

lemma break_at_after:
  assumes "break_at ''10='' s = None" "s = [] \<or> last s = SOH"
  shows "break_at ''10='' (s @ ''10='' @ t) = Some (s, ''10='' @ t)"
  using assms
proof (induction s)
  case Nil
  then show ?case by (simp add: starts_with_def)
next
  case (Cons c cs)
  have n: "\<not> starts_with ''10='' (c # cs)" "break_at ''10='' cs = None"
    using Cons.prems(1) by (auto split: if_splits)
  have "\<not> starts_with ''10='' ((c # cs) @ ''10='' @ t)"
  proof (cases "3 \<le> length (c # cs)")
    case True
    then show ?thesis using n(1) starts_with_enough [of "''10=''" "c # cs"] by simp
  next
    case False
    then have "length cs \<le> 1" by simp
    then consider "cs = []" | d where "cs = [d]" by (cases cs; cases "tl cs") auto
    then show ?thesis using Cons.prems(2)
      by cases (auto simp: starts_with_def SOH_def split: if_splits)
  qed
  moreover have "cs = [] \<or> last cs = SOH" using Cons.prems(2) by (auto split: if_splits)
  ultimately show ?case using Cons.IH n(2) by simp
qed

lemma fix_body_last: "fix_body m = [] \<or> last (fix_body m) = SOH"
  by (cases "body_fields m" rule: rev_cases) (auto simp: fix_body_def)

lemma clean_no_SOH: "list_all clean_char v \<Longrightarrow> SOH \<notin> set v"
  by (auto simp: list_all_iff clean_char_def)

lemma take_frame_encode:
  assumes "framable m" "fix_encode m = Inr e"
  shows "take_frame (e @ r) = Some (e, r)"
proof -
  let ?bs = "fix_get m (Tag 8) ''FIX.4.4''" and ?n = "nat_str (length (fix_body m))"
    and ?c = "pad3 (calculate_checksum (fix_prefix m))"
  have cl: "clean_message m" and ne: "body_fields m \<noteq> []" and nb: "break_at ''10='' (fix_body m) = None"
    using assms(1) by (simp_all add: framable_def)
  have e: "e = (''8='' @ ?bs) @ SOH # (''9='' @ ?n) @ SOH # fix_body m @ ''10='' @ ?c @ [SOH]"
    using encode_clean(1) [OF cl] assms(2) fix_prefix_layout [OF ne] by (simp flip: encode_wire)
  have bsc: "list_all clean_char ?bs"
    using wire_fields_clean [OF cl, of 8 ?bs] by (simp add: wire_fields_def)
  have no: "SOH \<notin> set (''8='' @ ?bs)" "SOH \<notin> set (''9='' @ ?n)" "SOH \<notin> set ?c"
    using clean_no_SOH [OF bsc] clean_no_SOH [OF nat_str_clean] clean_no_SOH [OF pad3_clean] by (auto simp: SOH_def)
  have asc: "decode_ascii ((''8='' @ ?bs) @ SOH # ''9='' @ ?n) = (''8='' @ ?bs) @ SOH # ''9='' @ ?n"
  proof (rule decode_ascii_id)
    fix c assume "c \<in> set ((''8='' @ ?bs) @ SOH # ''9='' @ ?n)"
    then show "is_ascii c"
      using clean_ascii [OF bsc] clean_ascii [OF nat_str_clean]
      by (auto simp: list_all_iff is_ascii_def SOH_def)
  qed
  have "split_on SOH ((''8='' @ ?bs) @ SOH # (''9='' @ ?n)) = [''8='' @ ?bs, ''9='' @ ?n]"
    using split_on_app [OF no(1)] split_on_no_sep [OF no(2)] by simp
  moreover have "parse_int ?n = Some (int (length (fix_body m)))"
    using parse_int_int_str [of "int (length (fix_body m))"] by (simp add: int_str_def)
  ultimately have ebl: "extract_body_length ((''8='' @ ?bs) @ [SOH] @ (''9='' @ ?n)) = Some (int (length (fix_body m)))"
    using asc by (simp add: extract_body_length_def starts_with_def)
  have "e @ r = (''8='' @ ?bs) @ SOH # (''9='' @ ?n) @ SOH # fix_body m @ ''10='' @ ?c @ SOH # r"
    by (simp add: e)
  then have "break_at [SOH] (e @ r) =
      Some (''8='' @ ?bs, SOH # (''9='' @ ?n) @ SOH # fix_body m @ ''10='' @ ?c @ SOH # r)"
    using break_at_char [OF no(1)] by metis
  moreover have "break_at [SOH] ((''9='' @ ?n) @ SOH # fix_body m @ ''10='' @ ?c @ SOH # r) =
      Some (''9='' @ ?n, SOH # fix_body m @ ''10='' @ ?c @ SOH # r)"
    by (rule break_at_char [OF no(2)])
  moreover have "break_at ''10='' (fix_body m @ ''10='' @ ?c @ SOH # r) = Some (fix_body m, ''10='' @ ?c @ SOH # r)"
    by (rule break_at_after [OF nb fix_body_last])
  moreover have "break_at [SOH] (?c @ SOH # r) = Some (?c, SOH # r)"
    by (rule break_at_char [OF no(3)])
  ultimately show ?thesis
    using ebl by (simp add: take_frame_def e)
qed

lemma frames_encoded:
  assumes "list_all2 (\<lambda>m e. framable m \<and> fix_encode m = Inr e) ms es"
  shows "frames (concat es) = (es, [])"
  using assms
proof (induction rule: list_all2_induct)
  case Nil
  have "take_frame [] = None" by (simp add: take_frame_def)
  then show ?case by (simp add: frames.simps)
next
  case (Cons m ms e es)
  then show ?case using take_frame_encode [of m e "concat es"] by (subst frames.simps) simp
qed

subsection \<open>Reading a stream chunk by chunk\<close>

lemma read_chunk_frames:
  assumes "fs_running (cn_session c)" "fs_reader (cn_session c)" "chunk \<noteq> []"
  shows "cn_buffer (read_chunk c chunk now) = snd (frames (cn_buffer c @ chunk))"
    "cn_queue (read_chunk c chunk now) = cn_queue c @ map fix_parse_bytes (fst (frames (cn_buffer c @ chunk)))"
    "fs_running (cn_session (read_chunk c chunk now))" "fs_reader (cn_session (read_chunk c chunk now))"
  using assms by (auto simp: read_chunk_def process_buffer_def split_beta Let_def)

lemma read_chunks:
  assumes "fs_running (cn_session c)" "fs_reader (cn_session c)" "\<forall>x \<in> set chunks. x \<noteq> []"
    "frames (cn_buffer c) = ([], cn_buffer c)"
  shows "cn_queue (foldl (\<lambda>c x. read_chunk c x now) c chunks) =
      cn_queue c @ map fix_parse_bytes (fst (frames (cn_buffer c @ concat chunks))) \<and>
    cn_buffer (foldl (\<lambda>c x. read_chunk c x now) c chunks) = snd (frames (cn_buffer c @ concat chunks))"
  using assms
proof (induction chunks arbitrary: c)
  case Nil
  then show ?case by simp
next
  case (Cons x xs)
  let ?c = "read_chunk c x now"
  have x: "x \<noteq> []" using Cons.prems(3) by simp
  note R = read_chunk_frames [OF Cons.prems(1,2) x, of now]
  obtain f1 r1 where f: "frames (cn_buffer c @ x) = (f1, r1)" by (cases "frames (cn_buffer c @ x)")
  have whole: "frames (cn_buffer c @ x @ t) = (let (f2, r2) = frames (r1 @ t) in (f1 @ f2, r2))" for t
    using frames_append [of "cn_buffer c @ x" t] by (simp add: f)
  have "frames r1 = ([], r1)"
    using whole [of "[]"] by (cases "frames r1") (simp add: f)
  then show ?case
    using Cons.IH [of ?c, OF R(3,4)] Cons.prems(3) whole [of "concat xs"] R(1,2) by (simp add: f split_beta Let_def)
qed

section \<open>The invariant of a session\<close>

text \<open>The state changes a handler has seen: each starts where the one before ended.\<close>

definition seen :: "fix_session \<Rightarrow> handler_id \<Rightarrow> (session_state \<times> session_state) list" where
  "seen s h = map snd (filter (\<lambda>x. fst x = h) (fs_notified s))"

definition linked :: "(session_state \<times> session_state) list \<Rightarrow> session_state \<Rightarrow> bool" where
  "linked xs st \<longleftrightarrow>
     successively (\<lambda>x y. snd x = fst y) xs \<and> (xs \<noteq> [] \<longrightarrow> snd (last xs) = st) \<and> (\<forall>(a, b) \<in> set xs. a \<noteq> b)"

definition fs_inv :: "fix_session \<Rightarrow> bool" where
  "fs_inv s \<longleftrightarrow>
     st_bytes_sent (fs_stats s) = sum_list (map length (fs_wire s)) \<and>
     int (st_sent (fs_stats s)) < fs_seq_out s \<and> st_sent (fs_stats s) \<le> length (fs_wire s) \<and>
     fs_seq_in s = 1 \<and> distinct (fs_state_handlers s) \<and>
     (\<forall>h. linked (seen s h) (fs_state s)) \<and> (\<forall>h. h \<notin> set (fs_state_handlers s) \<longrightarrow> seen s h = [])"

lemma fs_inv_new: "fs_inv (new_session c)"
  by (simp add: fs_inv_def new_session_def seen_def linked_def)

lemma seen_transition:
  "distinct (fs_state_handlers s) \<Longrightarrow> seen (fix_transition s new) h =
     seen s h @ (if new \<noteq> fs_state s \<and> h \<in> set (fs_state_handlers s) then [(fs_state s, new)] else [])"
proof -
  have "map snd (filter (\<lambda>x. fst x = h) (map (\<lambda>h. (h, p)) hs)) = (if h \<in> set hs then [p] else [])"
    if "distinct hs" for hs and p :: "session_state \<times> session_state"
    using that by (induction hs) auto
  then show "distinct (fs_state_handlers s) \<Longrightarrow> ?thesis"
    by (auto simp: seen_def fix_transition_def)
qed

lemma transition_frame [frame_simps]:
  "fs_stats (fix_transition s new) = fs_stats s" "fs_wire (fix_transition s new) = fs_wire s"
  "fs_seq_out (fix_transition s new) = fs_seq_out s" "fs_seq_in (fix_transition s new) = fs_seq_in s"
  "fs_state_handlers (fix_transition s new) = fs_state_handlers s" "fs_state (fix_transition s new) = new"
  "fs_config (fix_transition s new) = fs_config s" "fs_writer (fix_transition s new) = fs_writer s"
  "fs_delivered (fix_transition s new) = fs_delivered s" "fs_handlers (fix_transition s new) = fs_handlers s"
  by (simp_all add: fix_transition_def)

lemma linked_snoc: "linked xs st \<Longrightarrow> st \<noteq> new \<Longrightarrow> linked (xs @ [(st, new)]) new"
  by (auto simp: linked_def successively_append_iff)

lemma linked_Nil [simp]: "linked [] st"
  by (simp add: linked_def)

lemma fs_inv_transition: "fs_inv s \<Longrightarrow> fs_inv (fix_transition s new)"
  by (cases "new = fs_state s")
    (simp add: fix_transition_def, auto simp: fs_inv_def frame_simps seen_transition linked_snoc)

text \<open>An update that leaves the counters, the wire and the notifications alone.\<close>

lemma fs_inv_frame:
  assumes "fs_inv s" "st_bytes_sent (fs_stats s') = st_bytes_sent (fs_stats s)"
    "st_sent (fs_stats s') = st_sent (fs_stats s)" "fs_wire s' = fs_wire s" "fs_seq_out s \<le> fs_seq_out s'"
    "fs_seq_in s' = fs_seq_in s" "fs_state s' = fs_state s" "fs_notified s' = fs_notified s"
    "fs_state_handlers s' = fs_state_handlers s"
  shows "fs_inv s'"
  using assms by (simp add: fs_inv_def seen_def)

lemma send_raw_Inr:
  "send_raw s data now = Inr s' \<Longrightarrow> fs_writer s \<and>
     s' = s\<lparr>fs_wire := fs_wire s @ [data],
            fs_stats := (fs_stats s)\<lparr>st_bytes_sent := st_bytes_sent (fs_stats s) + length data, st_last_sent := now\<rparr>\<rparr>"
  by (auto simp: send_raw_def split: if_splits)

lemma fs_inv_send_raw: "fs_inv s \<Longrightarrow> send_raw s data now = Inr s' \<Longrightarrow> fs_inv s'"
  by (auto dest!: send_raw_Inr simp: fs_inv_def seen_def)

text \<open>A sequence number taken and one message written and counted.\<close>

lemma fs_inv_sent:
  "fs_inv s \<Longrightarrow> send_raw (s\<lparr>fs_seq_out := fs_seq_out s + 1\<rparr>) data now = Inr s' \<Longrightarrow> fs_inv (count_sent s')"
  by (auto dest!: send_raw_Inr simp: fs_inv_def seen_def count_sent_def)

lemma fs_inv_seq: "fs_inv s \<Longrightarrow> fs_inv (s\<lparr>fs_seq_out := fs_seq_out s + 1\<rparr>)"
  by (rule fs_inv_frame) simp_all

lemma fs_inv_send: "fs_inv s \<Longrightarrow> fs_inv (snd (fix_send s m ts now))"
  by (auto simp: fix_send_def Let_def and_then_Inr_iff fs_inv_seq split: sum.splits intro: fs_inv_sent)

lemma fs_inv_logon: "fs_inv s \<Longrightarrow> fs_inv (snd (send_logon s ts now))"
  by (auto simp: send_logon_def Let_def and_then_Inr_iff fs_inv_seq split: sum.splits
      intro!: fs_inv_transition intro: fs_inv_sent)

lemma fs_inv_reconnects: "fs_inv s \<Longrightarrow> fs_inv (count_reconnects s n)"
  by (rule fs_inv_frame) (simp_all add: count_reconnects_def)

lemma fs_inv_connect:
  assumes "fs_inv s"
  shows "fs_inv (snd (fix_connect s ok ts now))"
proof -
  have "fs_inv (count_reconnects (fix_transition s CONNECTING) n)" for n
    using assms by (intro fs_inv_reconnects fs_inv_transition)
  then have "fs_inv ((count_reconnects (fix_transition s CONNECTING) n)
      \<lparr>fs_reader := True, fs_writer := True, fs_running := True, fs_tasks := k\<rparr>)" for n k
    by (rule fs_inv_frame) simp_all
  with assms show ?thesis
    by (auto simp: fix_connect_def Let_def fs_inv_reconnects fs_inv_transition fs_inv_logon split: sum.splits)
qed

lemma fs_inv_disconnect:
  assumes "fs_inv s"
  shows "fs_inv (snd (fix_disconnect s reason reading ts now))"
proof -
  have closed: "fs_inv (snd (None :: exn option,
      fix_transition ((if reading then fix_transition (fix_transition (s1\<lparr>fs_running := False\<rparr>) CLOSING) DISCONNECTED
                       else fix_transition (s1\<lparr>fs_running := False\<rparr>) CLOSING)
        \<lparr>fs_tasks := 0, fs_writer := False, fs_reader := False\<rparr>) DISCONNECTED))" if "fs_inv s1" for s1
  proof -
    have 1: "fs_inv (s1\<lparr>fs_running := False\<rparr>)" using that by (rule fs_inv_frame) simp_all
    then have 2: "fs_inv (if reading then fix_transition (fix_transition (s1\<lparr>fs_running := False\<rparr>) CLOSING) DISCONNECTED
        else fix_transition (s1\<lparr>fs_running := False\<rparr>) CLOSING)" (is "fs_inv ?s")
      by (simp add: fs_inv_transition)
    then have "fs_inv (?s\<lparr>fs_tasks := 0, fs_writer := False, fs_reader := False\<rparr>)" by (rule fs_inv_frame) simp_all
    then show ?thesis by (simp add: fs_inv_transition)
  qed
  show ?thesis
  proof (cases "fs_state s = LOGGED_ON \<or> fs_state s = LOGON_SENT")
    case False
    with closed [OF assms] show ?thesis by (simp add: fix_disconnect_def Let_def)
  next
    case True
    let ?r = "and_then (fix_encode (logout_msg (fc_sender (fs_config s)) (fc_target (fs_config s)) (fs_seq_out s) reason ts))
      (\<lambda>data. and_then (send_raw s data now) (\<lambda>s1. Inr (fix_transition s1 LOGOUT_SENT)))"
    show ?thesis
    proof (cases ?r)
      case (Inl e)
      with True assms show ?thesis by (simp add: fix_disconnect_def Let_def)
    next
      case (Inr s1)
      then have "fs_inv s1" using fs_inv_send_raw [OF assms] fs_inv_transition by (auto simp: and_then_Inr_iff)
      with True Inr closed show ?thesis by (simp add: fix_disconnect_def Let_def)
    qed
  qed
qed

lemma fs_inv_admin: "fs_inv s \<Longrightarrow> fs_inv (snd (handle_admin s m ts now))"
proof -
  assume inv: "fs_inv s"
  have 1: "fs_inv ((fix_transition s LOGGED_ON)\<lparr>fs_stats := (fs_stats s)\<lparr>st_login := now\<rparr>\<rparr>)"
    by (rule fs_inv_frame [OF fs_inv_transition [OF inv, of LOGGED_ON]]) (simp_all add: frame_simps)
  have 2: "fs_inv (s\<lparr>fs_stats := (fs_stats s)\<lparr>st_heartbeat_received := now\<rparr>\<rparr>)"
    using inv by (rule fs_inv_frame) simp_all
  show ?thesis
    using 1 2 inv fs_inv_transition fs_inv_send by (simp add: handle_admin_def Let_def frame_simps)
qed

lemma fs_inv_deliver: "fs_inv s \<Longrightarrow> fs_inv (deliver s m)"
  by (rule fs_inv_frame) (simp_all add: deliver_def)

lemma fs_inv_dispatch: "fs_inv s \<Longrightarrow> fs_inv (snd (dispatch s m ts now))"
  using fs_inv_admin [of s m ts now]
  by (auto simp: dispatch_def fs_inv_deliver split: prod.splits option.splits)

lemma fs_inv_heartbeat: 
  assumes "fs_inv s"
  shows "fs_inv (heartbeat_tick s ts now)"
proof -
  have 1: "fs_inv (s1\<lparr>fs_stats := (fs_stats s1)\<lparr>st_heartbeat_sent := now\<rparr>\<rparr>)" if "fs_inv s1" for s1
    using that by (rule fs_inv_frame) simp_all
  have 2: "fs_inv (s1\<lparr>fs_stats := (fs_stats s1)\<lparr>st_errors := n\<rparr>\<rparr>)" if "fs_inv s1" for s1 n
    using that by (rule fs_inv_frame) simp_all
  show ?thesis
    using fs_inv_send [OF assms, of "heartbeat_msg (fc_sender (fs_config s)) (fc_target (fs_config s)) (fs_seq_out s) ts" ts now]
      assms
    by (auto simp: heartbeat_tick_def 1 2 split: prod.splits option.splits)
qed

lemma fs_inv_read: "fs_inv (cn_session c) \<Longrightarrow> fs_inv (cn_session (read_chunk c chunk now))"
proof -
  assume inv: "fs_inv (cn_session c)"
  have 1: "fs_inv ((cn_session c)\<lparr>fs_running := False\<rparr>)" using inv by (rule fs_inv_frame) simp_all
  have 2: "fs_inv (snd (snd (process_buffer ((cn_session c)\<lparr>fs_stats := st\<rparr>) buf now)))"
    if "st_bytes_sent st = st_bytes_sent (fs_stats (cn_session c))" "st_sent st = st_sent (fs_stats (cn_session c))" for st buf
    using inv by (rule fs_inv_frame) (simp_all add: process_buffer_def split_beta Let_def that)
  show ?thesis using inv 1 2 by (simp add: read_chunk_def Let_def split_beta fs_inv_transition)
qed

interpretation fsr: run_system fix_step "\<lambda>_ _. True" "\<lambda>c. fs_inv (cn_session c)"
proof unfold_locales
  fix c :: fix_conn and x
  assume inv: "fs_inv (cn_session c)"
  show "fs_inv (cn_session (fix_step c x))"
  proof (cases x)
    case (F_On_Message t h)
    have "fs_inv (on_message (cn_session c) t h)"
      using inv by (rule fs_inv_frame) (simp_all add: on_message_def Let_def)
    with F_On_Message show ?thesis by simp
  next
    case (F_Remove t h)
    have "fs_inv (remove_handler (cn_session c) t h)"
      using inv by (rule fs_inv_frame) (simp_all add: remove_handler_def split: option.splits)
    with F_Remove show ?thesis by simp
  next
    case (F_On_State h)
    have "fs_inv (on_state_change (cn_session c) h)"
      using inv by (auto simp: on_state_change_def fs_inv_def seen_def)
    with F_On_State show ?thesis by simp
  next
    case (F_Task ts now)
    with inv show ?thesis by (simp add: run_task_def fs_inv_dispatch split: list.splits)
  qed (use inv in \<open>simp_all add: fs_inv_connect fs_inv_disconnect fs_inv_send fs_inv_read fs_inv_heartbeat\<close>)
qed

subsection \<open>Sending, and the retry loop\<close>

lemma connect_loop_result:
  "connect_loop ok limit n =
     (case find ok [Suc n..<Suc (max limit (Suc n))] of Some k \<Rightarrow> Inr k | None \<Rightarrow> Inl (max limit (Suc n)))"
proof (induction ok limit n rule: connect_loop.induct)
  case (1 ok limit n)
  have u: "[Suc n..<Suc (max limit (Suc n))] = Suc n # [Suc (Suc n)..<Suc (max limit (Suc n))]"
    by (simp add: upt_rec)
  consider "ok (Suc n)" | "\<not> ok (Suc n)" "limit \<le> Suc n" | "\<not> ok (Suc n)" "\<not> limit \<le> Suc n" by blast
  then show ?case
  proof cases
    case 1
    then show ?thesis by (subst connect_loop.simps, subst u) simp
  next
    case 2
    then have "max limit (Suc n) = Suc n" by simp
    with 2 show ?thesis by (subst connect_loop.simps) simp
  next
    case 3
    then have m: "max limit (Suc (Suc n)) = limit" "max limit (Suc n) = limit" by auto
    have "connect_loop ok limit n = connect_loop ok limit (Suc n)"
      using 3 by (subst connect_loop.simps) simp
    with 3 "1.IH" show ?thesis unfolding u [unfolded m] m by simp
  qed
qed

lemma send_content:
  assumes "fs_writer s" "dict_ok m" "clean_message (stamp_header s m ts)"
  shows "\<exists>data s'. fix_send s m ts now = (None, s') \<and> fs_wire s' = fs_wire s @ [data] \<and>
    fs_seq_out s' = fs_seq_out s + 1 \<and> fs_state s' = fs_state s \<and>
    fix_parse_bytes data = wire_fields (stamp_header s m ts)"
proof -
  let ?m = "stamp_header s m ts"
  have ok: "dict_ok ?m"
    using assms(2) by (simp add: stamp_header_def fix_set_def Let_def)
  obtain data where d: "fix_encode ?m = Inr data" using encode_clean(1) [OF assms(3)] by blast
  with parse_encode [OF assms(3) ok d] assms(1) show ?thesis
    by (simp add: fix_send_def Let_def send_raw_def count_sent_def)
qed

lemma stamp_header_fields:
  "dget (stamp_header s m ts) 34 = Some (int_str (fs_seq_out s))"
  "dget (stamp_header s m ts) 49 = Some (fc_sender (fs_config s))"
  "dget (stamp_header s m ts) 56 = Some (fc_target (fs_config s))"
  by (simp_all add: stamp_header_def fix_set_def resolve_tag_def value_text_def Let_def)

section \<open>Properties of the session layer\<close>

definition sample_config :: fix_config where
  "sample_config = \<lparr>fc_sender = ''ME'', fc_target = ''YOU'', fc_username = [], fc_password = [],
     fc_heart_bt_int = 30, fc_reset_seq = True, fc_max_reconnect = 3\<rparr>"


definition open_conn :: "fix_config \<Rightarrow> fix_conn" where
  "open_conn c = (new_conn c)\<lparr>cn_session := (new_session c)\<lparr>fs_running := True, fs_reader := True\<rparr>\<rparr>"

definition sample_msg :: fix_message where
  "sample_msg = [(35, ''0''), (34, ''7'')]"

lemma sample_framable: "framable sample_msg"
proof -
  have "break_at ''10='' (fix_body sample_msg) = None" by code_simp
  then show ?thesis
    by (simp add: framable_def) (simp add: sample_msg_def clean_message_def clean_char_def is_ascii_def dict_ok_def
        body_fields_def SOH_def)
qed



text \<open>Sending over an open connection writes one message and moves the outgoing sequence
  number by one; the receiver that parses the bytes finds the sequence number the session
  had, the configured parties, and every other field of the message.\<close>

theorem send_numbers_message:
  assumes "fs_writer s" "dict_ok m" "clean_message (stamp_header s m ts)"
  shows "\<exists>data s'. fix_send s m ts now = (None, s') \<and> fs_wire s' = fs_wire s @ [data] \<and>
    fs_seq_out s' = fs_seq_out s + 1 \<and> fs_state s' = fs_state s \<and>
    msg_seq_num (fix_parse_bytes data) = Inr (fs_seq_out s) \<and>
    msg_sender (fix_parse_bytes data) = fc_sender (fs_config s) \<and>
    msg_target (fix_parse_bytes data) = fc_target (fs_config s) \<and>
    list_all (\<lambda>(t, v). t \<in> {8, 9, 10, 34, 49, 56} \<or> dget (fix_parse_bytes data) t = Some v) m"
proof -
  let ?m = "stamp_header s m ts"
  obtain data s' where d: "fix_send s m ts now = (None, s')" "fs_wire s' = fs_wire s @ [data]"
    "fs_seq_out s' = fs_seq_out s + 1" "fs_state s' = fs_state s" "fix_parse_bytes data = wire_fields ?m"
    using send_content [OF assms, of now] by blast
  have g: "dget (fix_parse_bytes data) t = dget ?m t" if "t \<notin> {8, 9, 10}" for t
    unfolding d(5) by (rule dget_wire_fields [OF that])
  have "dget ?m t = Some v" if "(t, v) \<in> set m" "t \<noteq> 34" "t \<noteq> 49" "t \<noteq> 56" for t v
    using that assms(2)
    by (auto simp: stamp_header_def fix_set_def resolve_tag_def fix_has_def dict_ok_def Let_def)
  then have "list_all (\<lambda>(t, v). t \<in> {8, 9, 10, 34, 49, 56} \<or> dget (fix_parse_bytes data) t = Some v) m"
    using g by (fastforce simp: list_all_iff)
  with d(1-4) show ?thesis
    by (auto simp: g msg_seq_num_def msg_sender_def msg_target_def fix_get_def resolve_tag_def stamp_header_fields
        parse_int_int_str intro!: exI)
qed

theorem send_numbers_message_witness:
  "\<exists>data s'. fix_send ((new_session \<lparr>fc_sender = ''ME'', fc_target = ''YOU'', fc_username = [], fc_password = [],
       fc_heart_bt_int = 30, fc_reset_seq = True, fc_max_reconnect = 3\<rparr>)\<lparr>fs_writer := True\<rparr>)
       [(35, ''0'')] ''t'' 9 = (None, s') \<and> fs_wire s' = [data] \<and> msg_seq_num (fix_parse_bytes data) = Inr 1"
proof -
  let ?s = "(new_session \<lparr>fc_sender = ''ME'', fc_target = ''YOU'', fc_username = [], fc_password = [],
       fc_heart_bt_int = 30, fc_reset_seq = True, fc_max_reconnect = 3\<rparr>)\<lparr>fs_writer := True\<rparr>"
  have "clean_message (stamp_header ?s [(35, ''0'')] ''t'')"
    by (simp add: stamp_header_def fix_set_def resolve_tag_def fix_has_def value_text_def clean_message_def new_session_def
        int_str_clean Let_def) (simp add: clean_char_def is_ascii_def SOH_def)
  from send_numbers_message [OF _ _ this, of 9] show ?thesis
    by (auto simp: new_session_def dict_ok_def)
qed

text \<open>Connecting tries at most max_reconnect_attempts times, and at least once. When no
  attempt succeeds it raises, is disconnected again and has written nothing; when attempt k
  is the first to succeed, the session has counted k - 1 retries and the streams are open.\<close>

theorem connect_retries_bounded:
  assumes "fs_state s = DISCONNECTED"
  shows "case find ok [1..<Suc (max (fc_max_reconnect (fs_config s)) 1)] of
      None \<Rightarrow> (\<exists>s'. fix_connect s ok ts now = (Some ConnectionError, s') \<and> fs_state s' = DISCONNECTED \<and> fs_wire s' = fs_wire s \<and>
        st_reconnects (fs_stats s') = st_reconnects (fs_stats s) + max (fc_max_reconnect (fs_config s)) 1)
    | Some k \<Rightarrow> (\<exists>r s'. fix_connect s ok ts now = (r, s') \<and> fs_writer s' \<and> fs_running s' \<and>
        st_reconnects (fs_stats s') = st_reconnects (fs_stats s) + (k - 1))"
proof -
  have keep: "fs_writer s' \<and> fs_running s' \<and> st_reconnects (fs_stats s') = n"
    if "send_logon z ts now = (r, s')" "fs_writer z" "fs_running z" "st_reconnects (fs_stats z) = n" for z r s' n
    using that
    by (auto simp: send_logon_def Let_def and_then_Inr_iff send_raw_def count_sent_def frame_simps fix_transition_def
        split: sum.splits if_splits)
  note L = connect_loop_result [of ok "fc_max_reconnect (fs_config s)" 0]
  show ?thesis
  proof (cases "find ok [1..<Suc (max (fc_max_reconnect (fs_config s)) 1)]")
    case None
    then show ?thesis
      using assms L by (simp add: fix_connect_def frame_simps count_reconnects_def Let_def)
  next
    case (Some k)
    define z where "z = (count_reconnects (fix_transition s CONNECTING) (k - 1))
      \<lparr>fs_reader := True, fs_writer := True, fs_running := True, fs_tasks := fs_tasks (fix_transition s CONNECTING) + 2\<rparr>"
    obtain r s' where r: "send_logon z ts now = (r, s')" by (cases "send_logon z ts now")
    have "fix_connect s ok ts now = (r, s')" using assms L Some r by (simp add: fix_connect_def Let_def z_def)
    with Some keep [OF r, of "st_reconnects (fs_stats s) + (k - 1)"] show ?thesis
      by (simp add: z_def count_reconnects_def frame_simps)
  qed
qed

theorem connect_retries_bounded_witness:
  "fst (fix_connect (new_session \<lparr>fc_sender = ''ME'', fc_target = ''YOU'', fc_username = [], fc_password = [],
       fc_heart_bt_int = 30, fc_reset_seq = True, fc_max_reconnect = 3\<rparr>) (\<lambda>k. False) ''t'' 0) = Some ConnectionError"
proof -
  let ?s = "new_session \<lparr>fc_sender = ''ME'', fc_target = ''YOU'', fc_username = [], fc_password = [],
       fc_heart_bt_int = 30, fc_reset_seq = True, fc_max_reconnect = 3\<rparr>"
  have "find (\<lambda>k. False) xs = None" for xs :: "nat list" by (induction xs) auto
  with connect_retries_bounded [of ?s "\<lambda>k. False" "''t''" 0] show ?thesis
    by (auto simp: new_session_def)
qed

end
