(* ===== verification/Error_Handler.thy ===== *)
theory Error_Handler
  imports Market_Data
begin

section \<open>Error handling (\<open>src/utils/error_handler.py\<close>)\<close>

text \<open>
  Classification of exceptions, the circuit breaker, retry with backoff and the facade
  that combines them. A protected call is a function of a world \<open>'w\<close> that returns or
  raises. Clock readings and the draws of \<open>random.random()\<close> are arguments. The calls of
  a breaker's hooks are logged in \<open>cb_calls\<close>; what a hook raises is caught.
\<close>

datatype error_category = TRANSIENT | PERMANENT | CIRCUIT_BREAKER

text \<open>The built-in classes, with the subclass relation of Python resolved.\<close>

fun is_transient_class :: "exn \<Rightarrow> bool" where
  "is_transient_class PyTimeoutError = True"
| "is_transient_class ConnectionError = True"
| "is_transient_class OSError = True"
| "is_transient_class _ = False"

fun is_permanent_class :: "exn \<Rightarrow> bool" where
  "is_permanent_class ValueError = True"
| "is_permanent_class UnicodeEncodeError = True"
| "is_permanent_class TypeError = True"
| "is_permanent_class KeyError = True"
| "is_permanent_class AttributeError = True"
| "is_permanent_class NotImplementedError = True"
| "is_permanent_class _ = False"

definition http_transient_statuses :: "int list" where
  "http_transient_statuses = [408, 429, 500, 502, 503, 504]"

fun status_code :: "exn \<Rightarrow> int option" where
  "status_code (HttpError c) = Some c"
| "status_code _ = None"

definition categorize_exception :: "(exn \<Rightarrow> bool) \<Rightarrow> exn \<Rightarrow> error_category" where
  "categorize_exception extra e =
     (if is_transient_class e \<or> extra e then TRANSIENT
      else if is_permanent_class e then PERMANENT
      else
        case status_code e of
          None \<Rightarrow> TRANSIENT
        | Some c \<Rightarrow>
            if List.member http_transient_statuses c then TRANSIENT
            else if 400 \<le> c \<and> c < 500 then PERMANENT
            else TRANSIENT)"

subsection \<open>Retry configuration\<close>

record retry_config =
  rc_max_attempts :: nat
  rc_base_delay :: flt
  rc_backoff :: flt
  rc_max_delay :: flt
  rc_jitter :: bool

definition default_retry :: retry_config where
  "default_retry =
     \<lparr>rc_max_attempts = 3, rc_base_delay = flt_int 1, rc_backoff = flt_int 2, rc_max_delay = flt_int 60,
      rc_jitter = True\<rparr>"

text \<open>A float to a natural power, taken as correctly rounded.\<close>

definition flt_pow :: "flt \<Rightarrow> nat \<Rightarrow> flt" where
  "flt_pow b n = Flt (flt_rnd (fval b ^ n))"

definition delay_for_attempt :: "retry_config \<Rightarrow> nat \<Rightarrow> flt \<Rightarrow> flt" where
  "delay_for_attempt c attempt draw =
     (let raw = min (rc_base_delay c * flt_pow (rc_backoff c) (attempt - 1)) (rc_max_delay c)
      in if rc_jitter c then raw * (Flt (1 / 2) + draw) else raw)"

subsection \<open>The circuit breaker\<close>

datatype breaker_state = CLOSED | OPEN | HALF_OPEN

record breaker_config =
  bc_failure_threshold :: nat
  bc_cooldown :: flt
  bc_half_open_max_calls :: nat
  bc_reset_successes :: nat

definition default_breaker_config :: breaker_config where
  "default_breaker_config =
     \<lparr>bc_failure_threshold = 5, bc_cooldown = flt_int 60, bc_half_open_max_calls = 1, bc_reset_successes = 2\<rparr>"

record breaker_stats =
  bs_state :: breaker_state
  bs_failures :: nat
  bs_successes :: nat
  bs_inflight :: nat
  bs_last_failure :: "time option"
  bs_last_success :: "time option"
  bs_opened_at :: "time option"
  bs_trips :: nat

definition fresh_stats :: breaker_stats where
  "fresh_stats =
     \<lparr>bs_state = CLOSED, bs_failures = 0, bs_successes = 0, bs_inflight = 0, bs_last_failure = None,
      bs_last_success = None, bs_opened_at = None, bs_trips = 0\<rparr>"

record breaker =
  cb_config :: breaker_config
  cb_name :: string
  cb_stats :: breaker_stats
  cb_on_open :: "nat list"
  cb_on_close :: "nat list"
  cb_on_half_open :: "nat list"
  cb_calls :: "(nat \<times> string) list"

definition new_breaker :: "breaker_config \<Rightarrow> string \<Rightarrow> breaker" where
  "new_breaker c name =
     \<lparr>cb_config = c, cb_name = name, cb_stats = fresh_stats, cb_on_open = [], cb_on_close = [],
      cb_on_half_open = [], cb_calls = []\<rparr>"

definition fire :: "breaker \<Rightarrow> nat list \<Rightarrow> breaker" where
  "fire b hs = b\<lparr>cb_calls := cb_calls b @ map (\<lambda>h. (h, cb_name b)) hs\<rparr>"

definition transition_to_open :: "breaker \<Rightarrow> time \<Rightarrow> breaker" where
  "transition_to_open b now =
     (if bs_state (cb_stats b) = OPEN then b
      else fire (b\<lparr>cb_stats := (cb_stats b)\<lparr>bs_state := OPEN, bs_opened_at := Some now,
                                      bs_trips := bs_trips (cb_stats b) + 1, bs_successes := 0\<rparr>\<rparr>)
             (cb_on_open b))"

definition transition_to_half_open :: "breaker \<Rightarrow> breaker" where
  "transition_to_half_open b =
     fire (b\<lparr>cb_stats := (cb_stats b)\<lparr>bs_state := HALF_OPEN, bs_failures := 0, bs_successes := 0\<rparr>\<rparr>)
       (cb_on_half_open b)"

definition transition_to_closed :: "breaker \<Rightarrow> breaker" where
  "transition_to_closed b =
     fire (b\<lparr>cb_stats := (cb_stats b)\<lparr>bs_state := CLOSED, bs_failures := 0, bs_successes := 0,
                                     bs_opened_at := None\<rparr>\<rparr>)
       (cb_on_close b)"

definition cooldown_elapsed :: "breaker \<Rightarrow> time \<Rightarrow> bool" where
  "cooldown_elapsed b now =
     (case bs_opened_at (cb_stats b) of
        None \<Rightarrow> True
      | Some t \<Rightarrow> bc_cooldown (cb_config b) \<le> total_seconds (now - t))"

text \<open>The property \<open>is_active\<close> may move the breaker to \<open>HALF_OPEN\<close>.\<close>

definition cb_is_active :: "breaker \<Rightarrow> time \<Rightarrow> bool \<times> breaker" where
  "cb_is_active b now =
     (if bs_state (cb_stats b) \<noteq> OPEN then (False, b)
      else if cooldown_elapsed b now then (False, transition_to_half_open b)
      else (True, b))"

definition record_success :: "breaker \<Rightarrow> time \<Rightarrow> breaker" where
  "record_success b now =
     (let b1 = b\<lparr>cb_stats := (cb_stats b)\<lparr>bs_last_success := Some now, bs_failures := 0\<rparr>\<rparr> in
      if bs_state (cb_stats b1) = HALF_OPEN
      then (let b2 = b1\<lparr>cb_stats := (cb_stats b1)\<lparr>bs_successes := bs_successes (cb_stats b1) + 1\<rparr>\<rparr> in
            if bc_reset_successes (cb_config b2) \<le> bs_successes (cb_stats b2)
            then transition_to_closed b2 else b2)
      else b1)"

definition record_failure :: "breaker \<Rightarrow> time \<Rightarrow> breaker" where
  "record_failure b now =
     (let b1 = b\<lparr>cb_stats := (cb_stats b)\<lparr>bs_failures := bs_failures (cb_stats b) + 1,
                                      bs_last_failure := Some now\<rparr>\<rparr> in
      case bs_state (cb_stats b1) of
        CLOSED \<Rightarrow>
          if bc_failure_threshold (cb_config b1) \<le> bs_failures (cb_stats b1)
          then transition_to_open b1 now else b1
      | HALF_OPEN \<Rightarrow> transition_to_open b1 now
      | OPEN \<Rightarrow> b1)"

text \<open>
  \<open>execute\<close> in two halves, with the protected call between them: calls that overlap in
  time are interleavings of the halves.
\<close>

definition cb_begin :: "breaker \<Rightarrow> time \<Rightarrow> bool \<times> breaker" where
  "cb_begin b now =
     (let (active, b1) = cb_is_active b now in
      if active then (False, b1)
      else if bs_state (cb_stats b1) = HALF_OPEN
      then (True, b1\<lparr>cb_stats := (cb_stats b1)\<lparr>bs_inflight := bs_inflight (cb_stats b1) + 1\<rparr>\<rparr>)
      else (True, b1))"

definition cb_end :: "breaker \<Rightarrow> bool \<Rightarrow> time \<Rightarrow> breaker" where
  "cb_end b ok now =
     (let b1 = (if ok then record_success b now else record_failure b now) in
      if bs_state (cb_stats b1) = HALF_OPEN
      then b1\<lparr>cb_stats := (cb_stats b1)\<lparr>bs_inflight := bs_inflight (cb_stats b1) - 1\<rparr>\<rparr>
      else b1)"

definition cb_execute ::
  "breaker \<Rightarrow> ('w \<Rightarrow> (exn + 'a) \<times> 'w) \<Rightarrow> 'w \<Rightarrow> time \<Rightarrow> time \<Rightarrow> (exn + 'a) \<times> breaker \<times> 'w" where
  "cb_execute b fn w t0 t1 =
     (let (admitted, b1) = cb_begin b t0 in
      if \<not> admitted then (Inl CircuitBreakerOpenError, b1, w)
      else (let (res, w1) = fn w in (res, cb_end b1 (case res of Inl e \<Rightarrow> False | Inr x \<Rightarrow> True) t1, w1)))"

definition cb_trip :: "breaker \<Rightarrow> time \<Rightarrow> breaker" where
  "cb_trip b now = transition_to_open b now"

definition cb_reset :: "breaker \<Rightarrow> breaker" where
  "cb_reset b = b\<lparr>cb_stats := fresh_stats\<rparr>"

subsection \<open>Retry\<close>

text \<open>
  What \<open>retry_async\<close> raises: an exception it lets through, the exhaustion with the
  number of attempts and the last exception, or the failed assertion.
\<close>

datatype retry_error = Propagated exn | Exhausted nat exn | Assertion_Failed

definition call_protected ::
  "breaker option \<Rightarrow> ('w \<Rightarrow> (exn + 'a) \<times> 'w) \<Rightarrow> 'w \<Rightarrow> time \<Rightarrow> time \<Rightarrow> (exn + 'a) \<times> breaker option \<times> 'w" where
  "call_protected cb fn w t0 t1 =
     (case cb of
        None \<Rightarrow> (let (res, w1) = fn w in (res, None, w1))
      | Some b \<Rightarrow> (let (res, b1, w1) = cb_execute b fn w t0 t1 in (res, Some b1, w1)))"

text \<open>
  The loop from attempt \<open>k\<close> on, with \<open>n\<close> attempts left; \<open>clk k\<close> are the clock readings
  of attempt \<open>k\<close> and \<open>draw k\<close> the random number of its delay. The delays slept come
  with the result.
\<close>

fun retry_from ::
  "retry_config \<Rightarrow> (exn \<Rightarrow> bool) \<Rightarrow> ('w \<Rightarrow> (exn + 'a) \<times> 'w) \<Rightarrow> (nat \<Rightarrow> time \<times> time) \<Rightarrow> (nat \<Rightarrow> flt) \<Rightarrow>
   nat \<Rightarrow> nat \<Rightarrow> breaker option \<Rightarrow> 'w \<Rightarrow> (retry_error + 'a) \<times> flt list \<times> breaker option \<times> 'w" where
  "retry_from c extra fn clk draw k 0 cb w = (Inl Assertion_Failed, [], cb, w)"
| "retry_from c extra fn clk draw k (Suc n) cb w =
     (case call_protected cb fn w (fst (clk k)) (snd (clk k)) of
        (Inr x, cb1, w1) \<Rightarrow> (Inr x, [], cb1, w1)
      | (Inl e, cb1, w1) \<Rightarrow>
          if e = CircuitBreakerOpenError then (Inl (Propagated e), [], cb1, w1)
          else if categorize_exception extra e = PERMANENT \<and> e \<noteq> RetryableError
          then (Inl (Propagated e), [], cb1, w1)
          else if k = rc_max_attempts c then (Inl (Exhausted k e), [], cb1, w1)
          else (let (res, ds, cb2, w2) = retry_from c extra fn clk draw (Suc k) n cb1 w1
                in (res, delay_for_attempt c k (draw k) # ds, cb2, w2)))"

definition retry_async ::
  "retry_config \<Rightarrow> (exn \<Rightarrow> bool) \<Rightarrow> ('w \<Rightarrow> (exn + 'a) \<times> 'w) \<Rightarrow> (nat \<Rightarrow> time \<times> time) \<Rightarrow> (nat \<Rightarrow> flt) \<Rightarrow>
   breaker option \<Rightarrow> 'w \<Rightarrow> (retry_error + 'a) \<times> flt list \<times> breaker option \<times> 'w" where
  "retry_async c extra fn clk draw cb w = retry_from c extra fn clk draw 1 (rc_max_attempts c) cb w"

subsection \<open>The handler\<close>

record error_result =
  er_category :: error_category
  er_exception :: exn
  er_retries_exhausted :: bool
  er_circuit_open :: bool

definition should_retry :: "error_result \<Rightarrow> bool" where
  "should_retry r \<longleftrightarrow> er_category r = TRANSIENT \<and> \<not> er_retries_exhausted r \<and> \<not> er_circuit_open r"

record error_handler =
  eh_retry :: retry_config
  eh_breaker_config :: breaker_config
  eh_breakers :: "(string, breaker) dict"
  eh_counts :: "(string, nat) dict"

definition new_handler :: "retry_config \<Rightarrow> breaker_config \<Rightarrow> error_handler" where
  "new_handler rc bc = \<lparr>eh_retry = rc, eh_breaker_config = bc, eh_breakers = [], eh_counts = []\<rparr>"

definition get_circuit_breaker :: "error_handler \<Rightarrow> string \<Rightarrow> breaker \<times> error_handler" where
  "get_circuit_breaker h name =
     (case dget (eh_breakers h) name of
        Some b \<Rightarrow> (b, h)
      | None \<Rightarrow>
          (let b = new_breaker (eh_breaker_config h) name
           in (b, h\<lparr>eh_breakers := dset (eh_breakers h) name b\<rparr>)))"

definition put_breaker :: "error_handler \<Rightarrow> string \<Rightarrow> breaker \<Rightarrow> error_handler" where
  "put_breaker h name b = h\<lparr>eh_breakers := dset (eh_breakers h) name b\<rparr>"

definition eh_handle ::
  "error_handler \<Rightarrow> exn \<Rightarrow> string \<Rightarrow> (exn \<Rightarrow> bool) \<Rightarrow> time \<Rightarrow> error_result \<times> error_handler" where
  "eh_handle h e ctx extra now =
     (let cat = categorize_exception extra e;
          h1 = h\<lparr>eh_counts := dset (eh_counts h) ctx
                  ((case dget (eh_counts h) ctx of None \<Rightarrow> 0 | Some n \<Rightarrow> n) + 1)\<rparr>;
          plain = \<lparr>er_category = cat, er_exception = e, er_retries_exhausted = False, er_circuit_open = False\<rparr>
      in if ctx = [] then (plain, h1)
         else
           let (b, h2) = get_circuit_breaker h1 ctx in
           if cat = TRANSIENT
           then (let (active, b1) = cb_is_active (record_failure b now) now; h3 = put_breaker h2 ctx b1
                 in if active
                    then (plain\<lparr>er_category := CIRCUIT_BREAKER, er_circuit_open := True\<rparr>, h3)
                    else (plain, h3))
           else (plain, h2))"

definition eh_execute ::
  "error_handler \<Rightarrow> string \<Rightarrow> (exn \<Rightarrow> bool) \<Rightarrow> ('w \<Rightarrow> (exn + 'a) \<times> 'w) \<Rightarrow> (nat \<Rightarrow> time \<times> time) \<Rightarrow>
   (nat \<Rightarrow> flt) \<Rightarrow> 'w \<Rightarrow> (retry_error + 'a) \<times> flt list \<times> error_handler \<times> 'w" where
  "eh_execute h ctx extra fn clk draw w =
     (if ctx = []
      then (let (res, ds, _, w1) = retry_async (eh_retry h) extra fn clk draw None w in (res, ds, h, w1))
      else
        let (b, h1) = get_circuit_breaker h ctx;
            (res, ds, cb, w1) = retry_async (eh_retry h) extra fn clk draw (Some b) w
        in (res, ds, (case cb of None \<Rightarrow> h1 | Some b1 \<Rightarrow> put_breaker h1 ctx b1), w1))"

definition circuit_breaker_stats :: "error_handler \<Rightarrow> (string, breaker_stats) dict" where
  "circuit_breaker_stats h = map (\<lambda>(n, b). (n, cb_stats b)) (eh_breakers h)"

section \<open>The breaker as an abstract state machine\<close>

text \<open>
  The abstract machine counts consecutive failures while closed, remembers when it was
  opened, and counts consecutive successes while half open.
\<close>

datatype abs_breaker = A_Closed nat | A_Open time | A_Half nat

datatype breaker_op = B_Query time | B_Begin time | B_End bool time | B_Trip time | B_Reset

fun breaker_step :: "breaker \<Rightarrow> breaker_op \<Rightarrow> breaker" where
  "breaker_step b (B_Query t) = snd (cb_is_active b t)"
| "breaker_step b (B_Begin t) = snd (cb_begin b t)"
| "breaker_step b (B_End ok t) = cb_end b ok t"
| "breaker_step b (B_Trip t) = cb_trip b t"
| "breaker_step b B_Reset = cb_reset b"

fun spec_query :: "breaker_config \<Rightarrow> abs_breaker \<Rightarrow> time \<Rightarrow> abs_breaker" where
  "spec_query c (A_Open t0) t = (if bc_cooldown c \<le> total_seconds (t - t0) then A_Half 0 else A_Open t0)"
| "spec_query c a t = a"

fun spec_end :: "breaker_config \<Rightarrow> abs_breaker \<Rightarrow> bool \<Rightarrow> time \<Rightarrow> abs_breaker" where
  "spec_end c (A_Closed n) True t = A_Closed 0"
| "spec_end c (A_Closed n) False t = (if bc_failure_threshold c \<le> n + 1 then A_Open t else A_Closed (n + 1))"
| "spec_end c (A_Half n) True t = (if bc_reset_successes c \<le> n + 1 then A_Closed 0 else A_Half (n + 1))"
| "spec_end c (A_Half n) False t = A_Open t"
| "spec_end c (A_Open t0) ok t = A_Open t0"

fun spec_step :: "breaker_config \<Rightarrow> abs_breaker \<Rightarrow> breaker_op \<Rightarrow> abs_breaker" where
  "spec_step c a (B_Query t) = spec_query c a t"
| "spec_step c a (B_Begin t) = spec_query c a t"
| "spec_step c a (B_End ok t) = spec_end c a ok t"
| "spec_step c a (B_Trip t) = (case a of A_Open t0 \<Rightarrow> A_Open t0 | _ \<Rightarrow> A_Open t)"
| "spec_step c a B_Reset = A_Closed 0"

definition abs_of :: "breaker \<Rightarrow> abs_breaker" where
  "abs_of b =
     (case bs_state (cb_stats b) of
        CLOSED \<Rightarrow> A_Closed (bs_failures (cb_stats b))
      | OPEN \<Rightarrow> A_Open (case bs_opened_at (cb_stats b) of None \<Rightarrow> 0 | Some t \<Rightarrow> t)
      | HALF_OPEN \<Rightarrow> A_Half (bs_successes (cb_stats b)))"

definition cb_inv :: "breaker \<Rightarrow> bool" where
  "cb_inv b \<longleftrightarrow>
     (let s = cb_stats b; c = cb_config b in
      case bs_state s of
        CLOSED \<Rightarrow> bs_failures s < max 1 (bc_failure_threshold c) \<and> bs_opened_at s = None \<and> bs_successes s = 0
      | OPEN \<Rightarrow> bs_opened_at s \<noteq> None \<and> bs_successes s = 0 \<and> 0 < bs_trips s
      | HALF_OPEN \<Rightarrow> bs_successes s < max 1 (bc_reset_successes c) \<and> 0 < bs_trips s)"

lemmas breaker_defs =
  cb_is_active_def cb_begin_def cb_end_def cb_trip_def cb_reset_def record_success_def record_failure_def
  transition_to_open_def transition_to_half_open_def transition_to_closed_def fire_def cooldown_elapsed_def
  fresh_stats_def Let_def

lemma cb_inv_new: "cb_inv (new_breaker c n)" and abs_of_new: "abs_of (new_breaker c n) = A_Closed 0"
  by (simp_all add: cb_inv_def new_breaker_def abs_of_def breaker_defs)

lemma breaker_config_fixed [frame_simps]: "cb_config (breaker_step b x) = cb_config b"
  by (cases x) (auto simp: breaker_defs split: breaker_state.splits option.splits)

lemma cb_inv_step: "cb_inv b \<Longrightarrow> cb_inv (breaker_step b x)"
  by (cases x; cases "bs_state (cb_stats b)")
    (auto simp: cb_inv_def breaker_defs split: option.splits breaker_state.splits)

lemma breaker_refines: "cb_inv b \<Longrightarrow> abs_of (breaker_step b x) = spec_step (cb_config b) (abs_of b) x"
proof (cases x)
  case (B_End ok t)
  assume "cb_inv b"
  with B_End show ?thesis
    by (cases ok; cases "bs_state (cb_stats b)") (auto simp: cb_inv_def abs_of_def breaker_defs)
qed (cases "bs_state (cb_stats b)"; auto simp: cb_inv_def abs_of_def breaker_defs split: option.splits)+

interpretation cbr: run_system breaker_step "\<lambda>_ _. True" cb_inv
  by unfold_locales (rule cb_inv_step)

lemma run_config: "cb_config (run_ops breaker_step b xs) = cb_config b"
  by (induction xs arbitrary: b) (auto simp: frame_simps)

lemma breaker_run_refines:
  "cb_inv b \<Longrightarrow> abs_of (run_ops breaker_step b xs) = run_ops (spec_step (cb_config b)) (abs_of b) xs"
  by (induction xs arbitrary: b) (auto simp: breaker_refines cb_inv_step frame_simps)

lemma query_admits: "cb_inv b \<Longrightarrow>
    fst (cb_is_active b t) \<longleftrightarrow> (\<exists>t0. abs_of b = A_Open t0 \<and> \<not> bc_cooldown (cb_config b) \<le> total_seconds (t - t0))"
  by (cases "bs_state (cb_stats b)") (auto simp: cb_inv_def abs_of_def breaker_defs split: option.splits)

lemma begin_admits: "fst (cb_begin b t) = (\<not> fst (cb_is_active b t))"
  by (auto simp: cb_begin_def Let_def split: prod.splits)

lemma execute_steps:
  "cb_execute b fn w t0 t1 =
     (if fst (cb_is_active b t0) then (Inl CircuitBreakerOpenError, breaker_step b (B_Begin t0), w)
      else (fst (fn w), breaker_step (breaker_step b (B_Begin t0)) (B_End (case fst (fn w) of Inl e \<Rightarrow> False | Inr x \<Rightarrow> True) t1),
            snd (fn w)))"
  by (auto simp: cb_execute_def begin_admits Let_def split: prod.splits) (metis begin_admits fst_conv)+

text \<open>Consecutive failures of a closed breaker, in the abstract machine.\<close>

lemma spec_failures:
  "n + k < bc_failure_threshold c \<Longrightarrow>
   run_ops (spec_step c) (A_Closed n) (map (\<lambda>t. B_End False t) ts) = A_Closed (n + k)" if "length ts = k"
  using that by (induction ts arbitrary: n k) auto

section \<open>Retry\<close>

text \<open>An outcome that ends the loop at once: a value, a permanent error, an open breaker.\<close>

definition decisive :: "(exn \<Rightarrow> bool) \<Rightarrow> exn + 'a \<Rightarrow> bool" where
  "decisive extra r \<longleftrightarrow>
     (case r of
        Inr x \<Rightarrow> True
      | Inl e \<Rightarrow> e = CircuitBreakerOpenError \<or> (categorize_exception extra e = PERMANENT \<and> e \<noteq> RetryableError))"

definition as_result :: "exn + 'a \<Rightarrow> retry_error + 'a" where
  "as_result r = (case r of Inr x \<Rightarrow> Inr x | Inl e \<Rightarrow> Inl (Propagated e))"

text \<open>The world counts the calls, and call \<open>i\<close> has the outcome \<open>out i\<close>.\<close>

definition counted :: "(nat \<Rightarrow> exn + 'a) \<Rightarrow> nat \<Rightarrow> (exn + 'a) \<times> nat" where
  "counted out i = (out i, Suc i)"

lemma retry_from_spec:
  assumes "rc_max_attempts c = k + n"
  shows "retry_from c extra (counted out) clk draw k (Suc n) None i =
    (case find (\<lambda>j. decisive extra (out j)) [i..<i + Suc n] of
       Some j \<Rightarrow> (as_result (out j), map (\<lambda>a. delay_for_attempt c a (draw a)) [k..<k + (j - i)], None, Suc j)
     | None \<Rightarrow> (Inl (Exhausted (rc_max_attempts c) (projl (out (i + n)))),
                map (\<lambda>a. delay_for_attempt c a (draw a)) [k..<k + n], None, i + Suc n))"
  using assms
proof (induction n arbitrary: k i)
  case 0
  then show ?case
    by (cases "out i") (auto simp: call_protected_def counted_def decisive_def as_result_def Let_def)
next
  case (Suc n)
  have u: "[i..<i + Suc (Suc n)] = i # [Suc i..<Suc i + Suc n]" by (simp add: upt_rec)
  show ?case
  proof (cases "decisive extra (out i)")
    case True
    then show ?thesis
      unfolding u by (cases "out i") (auto simp: call_protected_def counted_def decisive_def as_result_def Let_def)
  next
    case False
    then obtain e where e: "out i = Inl e" "e \<noteq> CircuitBreakerOpenError"
      "\<not> (categorize_exception extra e = PERMANENT \<and> e \<noteq> RetryableError)"
      by (cases "out i") (auto simp: decisive_def)
    have d: "map (\<lambda>a. delay_for_attempt c a (draw a)) [k..<k + Suc m] =
        delay_for_attempt c k (draw k) # map (\<lambda>a. delay_for_attempt c a (draw a)) [Suc k..<Suc k + m]" for m
      by (simp add: upt_rec)
    have "retry_from c extra (counted out) clk draw k (Suc (Suc n)) None i =
      (let (res, ds, cb, w) = retry_from c extra (counted out) clk draw (Suc k) (Suc n) None (Suc i)
       in (res, delay_for_attempt c k (draw k) # ds, cb, w))"
      using e Suc.prems by (subst retry_from.simps) (auto simp: call_protected_def counted_def Let_def)
    note step = this
    show ?thesis
    proof (cases "find (\<lambda>j. decisive extra (out j)) [Suc i..<Suc i + Suc n]")
      case None
      with step Suc.IH [of "Suc k" "Suc i"] Suc.prems False d [of n] show ?thesis
        unfolding u by (simp del: upt_Suc)
    next
      case (Some j)
      then have "j \<in> set [Suc i..<Suc i + Suc n]" by (metis find_Some_iff nth_mem)
      then have j: "j - i = Suc (j - Suc i)" by (auto simp del: upt_Suc)
      show ?thesis
        using step Suc.IH [of "Suc k" "Suc i"] Suc.prems False Some d [of "j - Suc i"]
        unfolding u by (simp add: j del: upt_Suc)
    qed
  qed
qed

lemma retry_calls_bound:
  "snd (snd (snd (retry_from c extra (counted out) clk draw k n cb i))) \<le> i + n"
proof (induction n arbitrary: k cb i)
  case 0
  then show ?case by simp
next
  case (Suc n)
  obtain res cb1 i1 where p: "call_protected cb (counted out) i (fst (clk k)) (snd (clk k)) = (res, cb1, i1)"
    by (cases "call_protected cb (counted out) i (fst (clk k)) (snd (clk k))")
  then have "i1 \<le> Suc i"
    by (auto simp: call_protected_def cb_execute_def counted_def Let_def split: option.splits prod.splits if_splits)
  with Suc.IH [of "Suc k" cb1 i1] show ?case by (auto simp: p Let_def split: sum.splits prod.splits)
qed

lemma delay_le_max:
  assumes "\<not> rc_jitter c"
  shows "delay_for_attempt c n u \<le> rc_max_delay c"
  using assms by (simp add: delay_for_attempt_def)

lemma delay_mono:
  assumes "\<not> rc_jitter c" "1 \<le> fval (rc_backoff c)" "0 \<le> fval (rc_base_delay c)" "m \<le> n"
  shows "delay_for_attempt c m u \<le> delay_for_attempt c n v"
proof -
  have "fval (flt_pow (rc_backoff c) (m - 1)) \<le> fval (flt_pow (rc_backoff c) (n - 1))"
    using assms by (auto simp: flt_pow_def intro!: fr.r_mono power_increasing)
  then have "rc_base_delay c * flt_pow (rc_backoff c) (m - 1) \<le> rc_base_delay c * flt_pow (rc_backoff c) (n - 1)"
    using assms(3) by (simp add: flt_le_iff fr.r_mono mult_left_mono)
  then show ?thesis using assms(1) by (auto simp: delay_for_attempt_def min_def)
qed

section \<open>Properties of error handling\<close>

text \<open>C4. The circuit breaker implements the abstract machine: after any run of state queries,
  starts and ends of calls (in any interleaving), manual trips and resets, its state is the
  one that machine is in, with the right failure and success counts and opening time.\<close>

theorem breaker_implements_machine:
  "abs_of (run_ops breaker_step (new_breaker c name) xs) = run_ops (spec_step c) (A_Closed 0) xs"
  using breaker_run_refines [OF cb_inv_new, of c name xs] by (simp add: abs_of_new) (simp add: new_breaker_def)

text \<open>In every reachable state, execute refuses the call without running it exactly while the
  machine is open and its cooldown has not passed; otherwise the call runs exactly once and
  its result, value or exception, is passed on.\<close>

theorem open_breaker_refuses:
  assumes "b = run_ops breaker_step (new_breaker c name) xs" "cb_execute b fn w t0 t1 = (res, b', w')"
  shows "if \<exists>t. run_ops (spec_step c) (A_Closed 0) xs = A_Open t \<and> \<not> bc_cooldown c \<le> total_seconds (t0 - t)
    then res = Inl CircuitBreakerOpenError \<and> w' = w else (res, w') = fn w"
proof -
  have inv: "cb_inv b" unfolding assms(1) by (rule cbr.run_inv) (simp_all add: cb_inv_new)
  have "cb_config b = c" by (simp add: assms(1) run_config) (simp add: new_breaker_def)
  moreover have "abs_of b = run_ops (spec_step c) (A_Closed 0) xs"
    using breaker_run_refines [OF cb_inv_new, of c name xs] assms(1)
    by (simp add: abs_of_new) (simp add: new_breaker_def)
  ultimately have "fst (cb_is_active b t0) \<longleftrightarrow>
      (\<exists>t. run_ops (spec_step c) (A_Closed 0) xs = A_Open t \<and> \<not> bc_cooldown c \<le> total_seconds (t0 - t))"
    using query_admits [OF inv, of t0] by simp
  with assms(2) show ?thesis by (auto simp: execute_steps)
qed

theorem open_breaker_refuses_witness:
  "fst (cb_execute (run_ops breaker_step (new_breaker default_breaker_config ''feed'') [B_Trip 0])
     (\<lambda>w. (Inr w, w + 1)) (5 :: nat) 1000000 2000000) = Inl CircuitBreakerOpenError"
proof -
  let ?b = "run_ops breaker_step (new_breaker default_breaker_config ''feed'') [B_Trip 0]"
  obtain res b' w' where r: "cb_execute ?b (\<lambda>w. (Inr w, w + 1)) (5 :: nat) 1000000 2000000 = (res, b', w')"
    by (rule prod_cases3)
  have "\<not> bc_cooldown default_breaker_config \<le> total_seconds 1000000" by code_simp
  then have "\<exists>t. run_ops (spec_step default_breaker_config) (A_Closed 0) [B_Trip 0] = A_Open t \<and>
      \<not> bc_cooldown default_breaker_config \<le> total_seconds (1000000 - t)" by simp
  then have "res = Inl CircuitBreakerOpenError"
    using open_breaker_refuses [OF refl r] by (simp only: if_True simp_thms)
  with r show ?thesis by simp
qed

lemma open_absorbs_failures:
  "run_ops (spec_step c) (A_Open t) (map (\<lambda>t. B_End False t) ts) = A_Open t"
  by (induction ts) auto

lemma spec_failures_open:
  "n < max 1 (bc_failure_threshold c) \<Longrightarrow>
   run_ops (spec_step c) (A_Closed n) (map (\<lambda>t. B_End False t) ts) =
     (if n + length ts < max 1 (bc_failure_threshold c) then A_Closed (n + length ts)
      else A_Open (ts ! (max 1 (bc_failure_threshold c) - 1 - n)))"
proof (induction ts arbitrary: n)
  case (Cons t ts)
  let ?k = "max 1 (bc_failure_threshold c)"
  show ?case
  proof (cases "bc_failure_threshold c \<le> n + 1")
    case True
    then have "?k = n + 1" using Cons.prems by auto
    with True show ?thesis by (simp add: open_absorbs_failures)
  next
    case False
    then have m: "?k = bc_failure_threshold c" "bc_failure_threshold c - Suc n = Suc (bc_failure_threshold c - Suc (Suc n))"
      by auto
    with False Cons.IH [of "n + 1"] show ?thesis by (simp add: m)
  qed
qed simp

text \<open>A new breaker opens at exactly the failure_threshold-th consecutive failed call (the
  first, for a threshold of zero) and keeps that failure's time as the time it opened; with
  fewer failures it stays closed and counts them.\<close>

theorem breaker_opens_at_threshold:
  "abs_of (run_ops breaker_step (new_breaker c name) (map (\<lambda>t. B_End False t) ts)) =
     (if length ts < max 1 (bc_failure_threshold c) then A_Closed (length ts)
      else A_Open (ts ! (max 1 (bc_failure_threshold c) - 1)))"
proof -
  have "abs_of (run_ops breaker_step (new_breaker c name) xs) = run_ops (spec_step c) (A_Closed 0) xs" for xs
    using breaker_run_refines [OF cb_inv_new, of c name xs] by (simp add: abs_of_new) (simp add: new_breaker_def)
  then show ?thesis using spec_failures_open [of 0 c ts] by simp
qed

text \<open>C36. retry_async without a breaker calls the function until the first decisive outcome (a
  value, a permanent error, an open breaker) or for max_attempts attempts, returns that
  outcome or the exhaustion with the last exception, and sleeps the configured delay after
  each failed attempt but the last.\<close>

theorem retry_calls_until_decisive:
  assumes "rc_max_attempts c = Suc n"
  shows "retry_async c extra (counted out) clk draw None i =
    (case find (\<lambda>j. decisive extra (out j)) [i..<i + Suc n] of
       Some j \<Rightarrow> (as_result (out j), map (\<lambda>a. delay_for_attempt c a (draw a)) [1..<1 + (j - i)], None, Suc j)
     | None \<Rightarrow> (Inl (Exhausted (Suc n) (projl (out (i + n)))),
                map (\<lambda>a. delay_for_attempt c a (draw a)) [1..<1 + n], None, i + Suc n))"
  using retry_from_spec [of c 1 n extra out clk draw i] assms
  by (simp only: retry_async_def assms plus_1_eq_Suc simp_thms)

theorem retry_calls_until_decisive_witness:
  "fst (retry_async default_retry (\<lambda>e. False) (counted (\<lambda>i. if i = 2 then Inr ''ok'' else Inl OSError)) (\<lambda>k. (0, 0)) (\<lambda>k. 0) None 0)
     = Inr ''ok''"
proof -
  define out where "out = (\<lambda>i. if i = (2 :: nat) then Inr ''ok'' else Inl OSError :: exn + string)"
  have "rc_max_attempts default_retry = Suc 2" by (simp add: default_retry_def)
  note R = retry_calls_until_decisive [OF this, of "\<lambda>e. False" out "\<lambda>k. (0, 0)" "\<lambda>k. 0" 0]
  have "find (\<lambda>j. decisive (\<lambda>e. False) (out j)) [0..<0 + Suc 2] = Some 2"
    by (simp add: upt_rec decisive_def categorize_exception_def out_def)
  with R have "fst (retry_async default_retry (\<lambda>e. False) (counted out) (\<lambda>k. (0, 0)) (\<lambda>k. 0) None 0) = as_result (out 2)"
    by (simp only: option.case fst_conv)
  then show ?thesis by (simp add: out_def as_result_def)
qed

text \<open>Without jitter the delays of the attempts never fall and never exceed max_delay.\<close>

theorem backoff_monotone_bounded:
  assumes "\<not> rc_jitter c" "1 \<le> fval (rc_backoff c)" "0 \<le> fval (rc_base_delay c)" "m \<le> n"
  shows "delay_for_attempt c m u \<le> delay_for_attempt c n v \<and> delay_for_attempt c n v \<le> rc_max_delay c"
  using delay_mono [OF assms] delay_le_max [OF assms(1)] by blast

theorem backoff_monotone_bounded_witness:
  "delay_for_attempt (default_retry\<lparr>rc_jitter := False\<rparr>) 2 0 \<le> delay_for_attempt (default_retry\<lparr>rc_jitter := False\<rparr>) 5 1"
proof -
  have "1 \<le> fval (flt_int 2)" "0 \<le> fval (flt_int 1)" by code_simp+
  then show ?thesis by (intro backoff_monotone_bounded [THEN conjunct1]) (simp_all add: default_retry_def)
qed

end
