(* ===== verification/Sync_Manager.thy ===== *)
theory Sync_Manager
  imports Market_Data
begin

section \<open>Data synchronization (\<open>src/data/sync_manager.py\<close>)\<close>

text \<open>
  Sequence numbers of one symbol, gaps in them, and the manager of all symbols. MD5 and
  \<open>isoformat\<close> are arguments (\<open>digest\<close>, the first eight hexadecimal digits, and
  \<open>isof\<close>). The locks make every method one step. Calls of gap and integrity handlers are
  logged in order; what they raise is caught. The gaps in a status are the same objects
  as those of its sequence manager: a change of a retry count shows in both.
\<close>

datatype sync_state = SYNCED | SYNCING | OUT_OF_SYNC | SYNC_DISCONNECTED | SYNC_ERROR

definition range_contains :: "int \<times> int \<Rightarrow> int \<Rightarrow> bool" where
  "range_contains = (\<lambda>(start, end_seq) s. start \<le> s \<and> s \<le> end_seq)"

definition range_overlaps :: "int \<times> int \<Rightarrow> int \<times> int \<Rightarrow> bool" where
  "range_overlaps = (\<lambda>(s1, e1) (s2, e2). \<not> (e1 < s2 \<or> e2 < s1))"

record sync_gap =
  g_start :: int
  g_end :: int
  g_detected :: time
  g_retries :: nat

definition gap_length :: "sync_gap \<Rightarrow> int" where
  "gap_length g = g_end g - g_start g + 1"

definition gap_age :: "sync_gap \<Rightarrow> time \<Rightarrow> flt" where
  "gap_age g now = total_seconds (now - g_detected g)"

definition gap_range :: "sync_gap \<Rightarrow> int list" where
  "gap_range g = [g_start g..g_end g]"

subsection \<open>Sequence numbers of a symbol\<close>

record seq_manager =
  sq_symbol :: symbol
  sq_window_size :: nat
  sq_current :: int
  sq_received :: "int set"
  sq_window :: "int list"
  sq_gaps :: "sync_gap list"
  sq_expected :: int

definition new_seq_manager :: "symbol \<Rightarrow> nat \<Rightarrow> seq_manager" where
  "new_seq_manager s n =
     \<lparr>sq_symbol = s, sq_window_size = n, sq_current = 0, sq_received = {}, sq_window = [], sq_gaps = [],
      sq_expected = 1\<rparr>"

definition get_next_sequence :: "seq_manager \<Rightarrow> int \<times> seq_manager" where
  "get_next_sequence m = (sq_current m + 1, m\<lparr>sq_current := sq_current m + 1\<rparr>)"

definition gap_filled :: "int set \<Rightarrow> sync_gap \<Rightarrow> bool" where
  "gap_filled R g \<longleftrightarrow> list_all (\<lambda>s. s \<in> R) (gap_range g)"

definition resolve_gaps :: "seq_manager \<Rightarrow> seq_manager" where
  "resolve_gaps m = m\<lparr>sq_gaps := filter (\<lambda>g. \<not> gap_filled (sq_received m) g) (sq_gaps m)\<rparr>"

definition record_received :: "seq_manager \<Rightarrow> int \<Rightarrow> time \<Rightarrow> (bool \<times> sync_gap option) \<times> seq_manager" where
  "record_received m s now =
     (if s \<in> sq_received m then ((False, None), m)
      else
        let m1 = m\<lparr>sq_received := insert s (sq_received m),
                   sq_window := deque_append (sq_window_size m) (sq_window m) s\<rparr>;
            m2 = (if sq_current m1 < s then m1\<lparr>sq_current := s\<rparr> else m1);
            gap = (if sq_expected m2 < s
                   then Some \<lparr>g_start = sq_expected m2, g_end = s - 1, g_detected = now, g_retries = 0\<rparr>
                   else None);
            m3 = (case gap of None \<Rightarrow> m2 | Some g \<Rightarrow> m2\<lparr>sq_gaps := sq_gaps m2 @ [g]\<rparr>);
            m4 = (if sq_expected m3 \<le> s then m3\<lparr>sq_expected := s + 1\<rparr> else m3)
        in ((True, gap), resolve_gaps m4))"

definition get_missing_sequences :: "seq_manager \<Rightarrow> int list" where
  "get_missing_sequences m =
     concat (map (\<lambda>g. filter (\<lambda>s. s \<notin> sq_received m) (gap_range g)) (sq_gaps m))"

definition is_sequence_valid :: "seq_manager \<Rightarrow> int \<Rightarrow> bool" where
  "is_sequence_valid m s \<longleftrightarrow>
     max 1 (sq_current m - int (sq_window_size m)) \<le> s \<and> s \<le> sq_current m + 1000"

definition get_completion_rate :: "seq_manager \<Rightarrow> flt" where
  "get_completion_rate m =
     (if sq_expected m \<le> 1 then flt_int 1
      else Flt (flt_rnd (of_nat (card (sq_received m)) / of_int (sq_expected m - 1))))"

definition seq_reset :: "seq_manager \<Rightarrow> seq_manager" where
  "seq_reset m = m\<lparr>sq_current := 0, sq_expected := 1, sq_received := {}, sq_window := [], sq_gaps := []\<rparr>"

subsection \<open>Packets\<close>

record packet =
  pk_symbol :: symbol
  pk_data_time :: time
  pk_sequence :: int
  pk_timestamp :: time
  pk_checksum :: string
  pk_source :: string
  pk_retries :: nat

definition packet_checksum :: "(string \<Rightarrow> string) \<Rightarrow> (time \<Rightarrow> string) \<Rightarrow> packet \<Rightarrow> string" where
  "packet_checksum digest isof p =
     digest (ticker (pk_symbol p) @ '':'' @ isof (pk_data_time p) @ '':'' @ int_str (pk_sequence p))"

definition verify_checksum :: "(string \<Rightarrow> string) \<Rightarrow> (time \<Rightarrow> string) \<Rightarrow> packet \<Rightarrow> bool" where
  "verify_checksum digest isof p \<longleftrightarrow> packet_checksum digest isof p = pk_checksum p"

subsection \<open>The manager\<close>

record sync_status =
  ss_symbol :: symbol
  ss_state :: sync_state
  ss_last_sequence :: int
  ss_last_received :: "time option"
  ss_gaps :: "sync_gap list"
  ss_total_received :: nat
  ss_total_missing :: int
  ss_checksum_failures :: nat
  ss_latency :: flt

definition new_status :: "symbol \<Rightarrow> sync_status" where
  "new_status s =
     \<lparr>ss_symbol = s, ss_state = SYNC_DISCONNECTED, ss_last_sequence = 0, ss_last_received = None, ss_gaps = [],
      ss_total_received = 0, ss_total_missing = 0, ss_checksum_failures = 0, ss_latency = 0\<rparr>"

record sync_manager =
  sy_max_retries :: nat
  sy_gap_timeout :: flt
  sy_managers :: "(skey, seq_manager) dict"
  sy_buffer :: "(int, packet) dict"
  sy_buffer_size :: nat
  sy_status :: "(skey, sync_status) dict"
  sy_gap_handlers :: "nat list"
  sy_integrity_handlers :: "nat list"
  sy_total_packets :: nat
  sy_checksum_failures :: nat
  sy_gaps_detected :: nat
  sy_gaps_resolved :: nat
  sy_running :: bool
  sy_latency :: "(skey, flt list) dict"
  sy_gap_calls :: "(nat \<times> skey \<times> sync_gap) list"
  sy_integrity_calls :: "(nat \<times> packet \<times> bool) list"

definition new_sync_manager :: "nat \<Rightarrow> flt \<Rightarrow> sync_manager" where
  "new_sync_manager retries timeout =
     \<lparr>sy_max_retries = retries, sy_gap_timeout = timeout, sy_managers = [], sy_buffer = [],
      sy_buffer_size = 10000, sy_status = [], sy_gap_handlers = [], sy_integrity_handlers = [],
      sy_total_packets = 0, sy_checksum_failures = 0, sy_gaps_detected = 0, sy_gaps_resolved = 0,
      sy_running = False, sy_latency = [], sy_gap_calls = [], sy_integrity_calls = []\<rparr>"

definition register_symbol :: "sync_manager \<Rightarrow> symbol \<Rightarrow> nat \<Rightarrow> sync_manager" where
  "register_symbol y s n =
     (let k = symbol_key s in
      if dget (sy_managers y) k = None
      then y\<lparr>sy_managers := dset (sy_managers y) k (new_seq_manager s n),
             sy_status := dset (sy_status y) k (new_status s)\<rparr>
      else y)"

definition unregister_symbol :: "sync_manager \<Rightarrow> symbol \<Rightarrow> sync_manager" where
  "unregister_symbol y s =
     (let k = symbol_key s in
      if dget (sy_managers y) k \<noteq> None
      then y\<lparr>sy_managers := ddel (sy_managers y) k, sy_status := ddel (sy_status y) k,
             sy_latency := ddel (sy_latency y) k\<rparr>
      else y)"

definition manager_of :: "sync_manager \<Rightarrow> symbol \<Rightarrow> seq_manager" where
  "manager_of y s =
     (case dget (sy_managers y) (symbol_key s) of None \<Rightarrow> new_seq_manager s 10000 | Some m \<Rightarrow> m)"

definition status_of :: "sync_manager \<Rightarrow> symbol \<Rightarrow> sync_status" where
  "status_of y s = (case dget (sy_status y) (symbol_key s) of None \<Rightarrow> new_status s | Some t \<Rightarrow> t)"

definition put_manager :: "sync_manager \<Rightarrow> symbol \<Rightarrow> seq_manager \<Rightarrow> sync_manager" where
  "put_manager y s m = y\<lparr>sy_managers := dset (sy_managers y) (symbol_key s) m\<rparr>"

definition put_status :: "sync_manager \<Rightarrow> symbol \<Rightarrow> sync_status \<Rightarrow> sync_manager" where
  "put_status y s t = y\<lparr>sy_status := dset (sy_status y) (symbol_key s) t\<rparr>"

text \<open>The buffer keeps at most \<open>_buffer_size\<close> packets; the smallest number goes first.\<close>

definition buffer_packet :: "sync_manager \<Rightarrow> packet \<Rightarrow> sync_manager" where
  "buffer_packet y p =
     (let b = dset (sy_buffer y) (pk_sequence p) p in
      y\<lparr>sy_buffer := (if sy_buffer_size y < length b then ddel b (fold min (tl (dkeys b)) (hd (dkeys b))) else b)\<rparr>)"

definition create_packet ::
  "(string \<Rightarrow> string) \<Rightarrow> (time \<Rightarrow> string) \<Rightarrow> sync_manager \<Rightarrow> symbol \<Rightarrow> time \<Rightarrow> string \<Rightarrow> int option \<Rightarrow> time \<Rightarrow>
   packet \<times> sync_manager" where
  "create_packet digest isof y s data_time source seq now =
     (let y1 = register_symbol y s 10000;
          (n, y2) = (case seq of
                       Some n \<Rightarrow> (n, y1)
                     | None \<Rightarrow> (let (n, m) = get_next_sequence (manager_of y1 s) in (n, put_manager y1 s m)));
          p = \<lparr>pk_symbol = s, pk_data_time = data_time, pk_sequence = n, pk_timestamp = now, pk_checksum = [],
               pk_source = source, pk_retries = 0\<rparr>;
          p1 = p\<lparr>pk_checksum := packet_checksum digest isof p\<rparr>
      in (p1, buffer_packet y2 p1))"

definition notify_integrity :: "sync_manager \<Rightarrow> packet \<Rightarrow> bool \<Rightarrow> sync_manager" where
  "notify_integrity y p ok =
     y\<lparr>sy_integrity_calls := sy_integrity_calls y @ map (\<lambda>h. (h, p, ok)) (sy_integrity_handlers y)\<rparr>"

definition notify_gap :: "sync_manager \<Rightarrow> symbol \<Rightarrow> sync_gap \<Rightarrow> sync_manager" where
  "notify_gap y s g =
     y\<lparr>sy_gaps_detected := sy_gaps_detected y + 1,
       sy_gap_calls := sy_gap_calls y @ map (\<lambda>h. (h, symbol_key s, g)) (sy_gap_handlers y)\<rparr>"

text \<open>The status after a new packet; \<open>samples\<close> are the latencies with the new one.\<close>

definition update_status :: "sync_status \<Rightarrow> packet \<Rightarrow> seq_manager \<Rightarrow> flt list \<Rightarrow> time \<Rightarrow> sync_status" where
  "update_status t p m samples now =
     t\<lparr>ss_total_received := ss_total_received t + 1, ss_last_sequence := pk_sequence p,
       ss_last_received := Some now,
       ss_latency := (if samples = [] then ss_latency t else flt_sum samples / flt_int (int (length samples))),
       ss_state := (if sq_gaps m = [] then SYNCED else OUT_OF_SYNC),
       ss_gaps := sq_gaps m, ss_total_missing := sum_list (map gap_length (sq_gaps m))\<rparr>"

definition receive_packet ::
  "(string \<Rightarrow> string) \<Rightarrow> (time \<Rightarrow> string) \<Rightarrow> sync_manager \<Rightarrow> packet \<Rightarrow> time \<Rightarrow>
   (bool \<times> sync_gap option) \<times> sync_manager" where
  "receive_packet digest isof y p now =
     (let s = pk_symbol p; k = symbol_key s; y1 = register_symbol y s 10000; t = status_of y1 s in
      if \<not> verify_checksum digest isof p
      then ((False, None),
            notify_integrity
              ((put_status y1 s (t\<lparr>ss_checksum_failures := ss_checksum_failures t + 1\<rparr>))
                 \<lparr>sy_checksum_failures := sy_checksum_failures y1 + 1\<rparr>) p False)
      else
        let ((is_new, gap), m) = record_received (manager_of y1 s) (pk_sequence p) now in
        if \<not> is_new then ((is_new, gap), y1)
        else
          let latency = total_seconds (now - pk_timestamp p) * flt_int 1000;
              samples = deque_append 100 (case dget (sy_latency y1) k of None \<Rightarrow> [] | Some l \<Rightarrow> l) latency;
              y2 = (put_status (put_manager y1 s m) s (update_status t p m samples now))
                     \<lparr>sy_latency := dset (sy_latency y1) k samples, sy_total_packets := sy_total_packets y1 + 1\<rparr>;
              y3 = notify_integrity y2 p True
          in ((is_new, gap), (case gap of None \<Rightarrow> y3 | Some g \<Rightarrow> notify_gap y3 s g)))"

text \<open>The buffered packets for the missing numbers; the retry count of each goes up.\<close>

fun collect_missing :: "int list \<Rightarrow> (int, packet) dict \<Rightarrow> packet list \<times> (int, packet) dict" where
  "collect_missing [] b = ([], b)"
| "collect_missing (n # ns) b =
     (case dget b n of
        None \<Rightarrow> collect_missing ns b
      | Some p \<Rightarrow>
          (let p1 = p\<lparr>pk_retries := pk_retries p + 1\<rparr>; (ps, b1) = collect_missing ns (dset b n p1)
           in (p1 # ps, b1)))"

definition get_missing_packets :: "sync_manager \<Rightarrow> symbol \<Rightarrow> packet list \<times> sync_manager" where
  "get_missing_packets y s =
     (case dget (sy_managers y) (symbol_key s) of
        None \<Rightarrow> ([], y)
      | Some m \<Rightarrow>
          (let (ps, b) = collect_missing (get_missing_sequences m) (sy_buffer y) in (ps, y\<lparr>sy_buffer := b\<rparr>)))"

definition add_gap_handler :: "sync_manager \<Rightarrow> nat \<Rightarrow> sync_manager" where
  "add_gap_handler y h = y\<lparr>sy_gap_handlers := sy_gap_handlers y @ [h]\<rparr>"

definition add_integrity_handler :: "sync_manager \<Rightarrow> nat \<Rightarrow> sync_manager" where
  "add_integrity_handler y h = y\<lparr>sy_integrity_handlers := sy_integrity_handlers y @ [h]\<rparr>"

definition reset_symbol :: "sync_manager \<Rightarrow> symbol \<Rightarrow> sync_manager" where
  "reset_symbol y s =
     (let k = symbol_key s;
          y1 = (case dget (sy_managers y) k of None \<Rightarrow> y | Some m \<Rightarrow> put_manager y s (seq_reset m))
      in if dget (sy_status y1) k = None then y1 else put_status y1 s (new_status s))"

text \<open>
  \<open>_check_gaps\<close>: a stale gap that has retries left is asked for again. The same gap
  objects are in the status and in the sequence manager.
\<close>

definition retry_gap :: "sync_manager \<Rightarrow> time \<Rightarrow> sync_gap \<Rightarrow> sync_gap" where
  "retry_gap y now g =
     (if sy_gap_timeout y < gap_age g now \<and> g_retries g < sy_max_retries y
      then g\<lparr>g_retries := g_retries g + 1\<rparr> else g)"

definition check_gaps :: "sync_manager \<Rightarrow> time \<Rightarrow> sync_manager" where
  "check_gaps y now =
     y\<lparr>sy_status := map (\<lambda>(k, t). (k, t\<lparr>ss_gaps := map (retry_gap y now) (ss_gaps t)\<rparr>)) (sy_status y),
       sy_managers := map (\<lambda>(k, m). (k, m\<lparr>sq_gaps :=
           map (\<lambda>g. if (case dget (sy_status y) k of None \<Rightarrow> False | Some t \<Rightarrow> List.member (ss_gaps t) g)
                     then retry_gap y now g else g) (sq_gaps m)\<rparr>)) (sy_managers y)\<rparr>"

record sync_statistics =
  sst_total_packets :: nat
  sst_checksum_failures :: nat
  sst_gaps_detected :: nat
  sst_gaps_resolved :: nat
  sst_symbols :: nat
  sst_buffer :: nat
  sst_rates :: "(string, flt) dict"

definition sync_get_statistics :: "sync_manager \<Rightarrow> sync_statistics" where
  "sync_get_statistics y =
     \<lparr>sst_total_packets = sy_total_packets y, sst_checksum_failures = sy_checksum_failures y,
      sst_gaps_detected = sy_gaps_detected y, sst_gaps_resolved = sy_gaps_resolved y,
      sst_symbols = length (sy_managers y), sst_buffer = length (sy_buffer y),
      sst_rates = foldl (\<lambda>d (k, m). dset d (ticker (sq_symbol m)) (get_completion_rate m)) [] (sy_managers y)\<rparr>"

section \<open>What the gaps say\<close>

definition sm_inv :: "seq_manager \<Rightarrow> bool" where
  "sm_inv m \<longleftrightarrow>
     1 \<le> sq_expected m \<and> (\<forall>s \<in> sq_received m. s < sq_expected m) \<and>
     sorted_wrt (\<lambda>g h. g_end g < g_start h) (sq_gaps m) \<and>
     (\<forall>g \<in> set (sq_gaps m). 1 \<le> g_start g \<and> g_start g \<le> g_end g \<and> g_end g < sq_expected m \<and>
        \<not> gap_filled (sq_received m) g) \<and>
     (\<forall>s. 1 \<le> s \<longrightarrow> s < sq_expected m \<longrightarrow> s \<notin> sq_received m \<longrightarrow>
        (\<exists>g \<in> set (sq_gaps m). g_start g \<le> s \<and> s \<le> g_end g))"

lemma sm_inv_new: "sm_inv (new_seq_manager s n)"
  by (simp add: sm_inv_def new_seq_manager_def)

lemma sm_inv_next: "sm_inv m \<Longrightarrow> sm_inv (snd (get_next_sequence m))"
  by (simp add: sm_inv_def get_next_sequence_def)

lemma gap_filled_iff: "gap_filled R g \<longleftrightarrow> (\<forall>s. g_start g \<le> s \<longrightarrow> s \<le> g_end g \<longrightarrow> s \<in> R)"
  by (auto simp: gap_filled_def gap_range_def list_all_iff)

text \<open>The fields after recording, for new and for duplicate numbers alike.\<close>

definition gap_before :: "seq_manager \<Rightarrow> int \<Rightarrow> time \<Rightarrow> sync_gap list" where
  "gap_before m s now =
     (if sq_expected m < s then [\<lparr>g_start = sq_expected m, g_end = s - 1, g_detected = now, g_retries = 0\<rparr>] else [])"

lemma record_fields:
  assumes "s \<notin> sq_received m"
  shows "sq_received (snd (record_received m s now)) = insert s (sq_received m)"
    "sq_expected (snd (record_received m s now)) = max (sq_expected m) (s + 1)"
    "sq_gaps (snd (record_received m s now)) =
       filter (\<lambda>g. \<not> gap_filled (insert s (sq_received m)) g) (sq_gaps m @ gap_before m s now)"
    "fst (record_received m s now) = (True, case gap_before m s now of [] \<Rightarrow> None | g # _ \<Rightarrow> Some g)"
  using assms by (auto simp: record_received_def resolve_gaps_def gap_before_def Let_def)

lemma record_duplicate: "s \<in> sq_received m \<Longrightarrow> record_received m s now = ((False, None), m)"
  by (simp add: record_received_def)

lemma sm_inv_record:
  assumes "sm_inv m"
  shows "sm_inv (snd (record_received m s now))"
proof (cases "s \<in> sq_received m")
  case True
  with assms show ?thesis by (simp add: record_duplicate)
next
  case False
  note I = assms [unfolded sm_inv_def]
  let ?m = "snd (record_received m s now)" and ?gs = "sq_gaps m @ gap_before m s now"
  note R = record_fields [OF False, of now]
  have wf: "\<forall>g \<in> set ?gs. 1 \<le> g_start g \<and> g_start g \<le> g_end g \<and> g_end g < max (sq_expected m) (s + 1)"
    using I by (auto simp: gap_before_def)
  have srt: "sorted_wrt (\<lambda>g h. g_end g < g_start h) ?gs"
    using I by (auto simp: sorted_wrt_append gap_before_def)
  have cover: "\<exists>g \<in> set ?gs. g_start g \<le> x \<and> x \<le> g_end g"
    if "1 \<le> x" "x < max (sq_expected m) (s + 1)" "x \<notin> insert s (sq_received m)" for x
  proof (cases "x < sq_expected m")
    case True
    with I that show ?thesis by fastforce
  next
    case False
    with that have "sq_expected m < s" "sq_expected m \<le> x" "x \<le> s - 1" by (auto simp: max_def split: if_splits)
    then show ?thesis by (simp add: gap_before_def)
  qed
  show ?thesis
    unfolding sm_inv_def R
  proof (intro conjI allI impI ballI)
    show "sorted_wrt (\<lambda>g h. g_end g < g_start h) (filter (\<lambda>g. \<not> gap_filled (insert s (sq_received m)) g) ?gs)"
      by (rule sorted_wrt_filter [OF srt])
  next
    fix x assume x: "1 \<le> x" "x < max (sq_expected m) (s + 1)" "x \<notin> insert s (sq_received m)"
    from cover [OF x] obtain g where g: "g \<in> set ?gs" "g_start g \<le> x" "x \<le> g_end g" by blast
    with x(3) have "\<not> gap_filled (insert s (sq_received m)) g" by (auto simp: gap_filled_iff)
    with g show "\<exists>g \<in> set (filter (\<lambda>g. \<not> gap_filled (insert s (sq_received m)) g) ?gs). g_start g \<le> x \<and> x \<le> g_end g"
      by auto
  qed (use I wf in auto)
qed

lemma missing_exact:
  assumes "sm_inv m"
  shows "set (get_missing_sequences m) = {s. 1 \<le> s \<and> s < sq_expected m \<and> s \<notin> sq_received m}"
proof
  show "set (get_missing_sequences m) \<subseteq> {s. 1 \<le> s \<and> s < sq_expected m \<and> s \<notin> sq_received m}"
    using assms by (fastforce simp: get_missing_sequences_def gap_range_def sm_inv_def)
  show "{s. 1 \<le> s \<and> s < sq_expected m \<and> s \<notin> sq_received m} \<subseteq> set (get_missing_sequences m)"
    using assms by (fastforce simp: get_missing_sequences_def gap_range_def sm_inv_def)
qed

lemma missing_sorted:
  assumes "sorted_wrt (\<lambda>g h. g_end g < g_start h) gs"
  shows "sorted_wrt (<) (concat (map (\<lambda>g. filter P (gap_range g)) gs))"
  using assms
proof (induction gs)
  case (Cons g gs)
  have "sorted_wrt (<) [a..b]" for a b :: int
    by (simp add: strict_sorted_iff)
  then have "sorted_wrt (<) (filter P (gap_range g))"
    by (simp add: gap_range_def sorted_wrt_filter)
  with Cons show ?case by (fastforce simp: sorted_wrt_append gap_range_def)
qed simp

lemma no_gaps_iff: "sm_inv m \<Longrightarrow> sq_gaps m = [] \<longleftrightarrow> get_missing_sequences m = []"
proof -
  assume inv: "sm_inv m"
  have "filter (\<lambda>s. s \<notin> sq_received m) (gap_range g) \<noteq> []" if "g \<in> set (sq_gaps m)" for g
    using inv that by (auto simp: sm_inv_def gap_filled_def filter_empty_conv list_all_iff)
  then show ?thesis by (cases "sq_gaps m") (auto simp: get_missing_sequences_def)
qed

text \<open>Recording a whole list of numbers.\<close>

definition record_step :: "seq_manager \<Rightarrow> int \<times> time \<Rightarrow> seq_manager" where
  "record_step m = (\<lambda>(s, now). snd (record_received m s now))"

interpretation smr: run_system record_step "\<lambda>_ _. True" sm_inv
  by unfold_locales (auto simp: record_step_def sm_inv_record)

lemma record_run:
  assumes "sm_inv m"
  shows "sq_received (run_ops record_step m xs) = sq_received m \<union> fst ` set xs"
    "sq_expected (run_ops record_step m xs) = fold max (map (\<lambda>x. fst x + 1) xs) (sq_expected m)"
proof -
  have one: "sq_received (record_step m x) = insert (fst x) (sq_received m)"
    "sq_expected (record_step m x) = max (fst x + 1) (sq_expected m)" if "sm_inv m" for m x
    using record_fields [of "fst x" m "snd x"] that
    by (cases "fst x \<in> sq_received m"; auto simp: record_step_def split_beta record_duplicate sm_inv_def insert_absorb max_def)+
  show "sq_received (run_ops record_step m xs) = sq_received m \<union> fst ` set xs"
    "sq_expected (run_ops record_step m xs) = fold max (map (\<lambda>x. fst x + 1) xs) (sq_expected m)"
    using assms by (induction xs arbitrary: m) (auto simp: one smr.step_inv)
qed

section \<open>The manager\<close>

lemma created_packet_verifies: "verify_checksum digest isof (fst (create_packet digest isof y s dt src seq now))"
  by (simp add: create_packet_def verify_checksum_def packet_checksum_def Let_def split_beta)

lemma bad_checksum_rejected:
  assumes "\<not> verify_checksum digest isof p"
  shows "fst (receive_packet digest isof y p now) = (False, None)"
    and "sy_managers (snd (receive_packet digest isof y p now)) = sy_managers (register_symbol y (pk_symbol p) 10000)"
    and "sy_checksum_failures (snd (receive_packet digest isof y p now)) = sy_checksum_failures y + 1"
  using assms by (simp_all add: receive_packet_def Let_def notify_integrity_def put_status_def register_symbol_def)

definition sync_inv :: "sync_manager \<Rightarrow> bool" where
  "sync_inv y \<longleftrightarrow>
     (\<forall>k. dget (sy_managers y) k = None \<longleftrightarrow> dget (sy_status y) k = None) \<and>
     (\<forall>k m. dget (sy_managers y) k = Some m \<longrightarrow> sm_inv m) \<and>
     (\<forall>k m t. dget (sy_managers y) k = Some m \<longrightarrow> dget (sy_status y) k = Some t \<longrightarrow>
        map (\<lambda>g. (g_start g, g_end g)) (ss_gaps t) = map (\<lambda>g. (g_start g, g_end g)) (sq_gaps m) \<and>
        (ss_state t = SYNCED \<longrightarrow> sq_gaps m = []) \<and> (ss_state t = OUT_OF_SYNC \<longrightarrow> sq_gaps m \<noteq> []))"

lemma sync_inv_new: "sync_inv (new_sync_manager r t)"
  by (simp add: sync_inv_def new_sync_manager_def)

lemma sync_inv_register: "sync_inv y \<Longrightarrow> sync_inv (register_symbol y s n)"
  unfolding sync_inv_def register_symbol_def
  using sm_inv_new [of s n]
  by (simp add: Let_def new_status_def new_seq_manager_def del: split_paired_All)

lemma register_known: "\<exists>m. dget (sy_managers (register_symbol y s n)) (symbol_key s) = Some m"
  by (auto simp: register_symbol_def Let_def)

lemma sync_inv_frame:
  "sync_inv y \<Longrightarrow> sy_managers y' = sy_managers y \<Longrightarrow> sy_status y' = sy_status y \<Longrightarrow> sync_inv y'"
  by (simp add: sync_inv_def)

text \<open>The state of a symbol after a valid, new packet says whether anything is missing.\<close>

lemma receive_state:
  assumes "sync_inv y" "verify_checksum digest isof p" "fst (receive_packet digest isof y p now) = (True, gap)"
  shows "let y' = snd (receive_packet digest isof y p now);
             m = manager_of y' (pk_symbol p); t = status_of y' (pk_symbol p)
         in sm_inv m \<and> pk_sequence p \<in> sq_received m \<and>
            (ss_state t = SYNCED \<longleftrightarrow> get_missing_sequences m = []) \<and>
            (ss_state t = OUT_OF_SYNC \<longleftrightarrow> get_missing_sequences m \<noteq> []) \<and> ss_gaps t = sq_gaps m"
proof -
  let ?s = "pk_symbol p" and ?y1 = "register_symbol y (pk_symbol p) 10000"
  obtain m where m: "dget (sy_managers ?y1) (symbol_key ?s) = Some m" using register_known by blast
  have inv: "sm_inv m" using sync_inv_register [OF assms(1)] m unfolding sync_inv_def by blast
  obtain g m' where r: "record_received m (pk_sequence p) now = ((True, g), m')"
    using assms(2,3) m
    by (cases "record_received m (pk_sequence p) now")
      (auto simp: receive_packet_def Let_def manager_of_def split: if_splits)
  have m': "sm_inv m'" using sm_inv_record [OF inv, of "pk_sequence p" now] by (simp add: r)
  have new: "pk_sequence p \<in> sq_received m'"
    using record_fields(1) [of "pk_sequence p" m now] record_duplicate [of "pk_sequence p" m now] r
    by (cases "pk_sequence p \<in> sq_received m") auto
  have "manager_of (snd (receive_packet digest isof y p now)) ?s = m' \<and>
      ss_state (status_of (snd (receive_packet digest isof y p now)) ?s) = (if sq_gaps m' = [] then SYNCED else OUT_OF_SYNC) \<and>
      ss_gaps (status_of (snd (receive_packet digest isof y p now)) ?s) = sq_gaps m'"
    using assms(2) m r
    by (cases g) (simp_all add: receive_packet_def Let_def manager_of_def status_of_def put_status_def put_manager_def
        notify_integrity_def notify_gap_def update_status_def)
  with m' new no_gaps_iff [OF m'] show ?thesis by (auto simp: Let_def)
qed

subsection \<open>The invariant of the manager\<close>

lemma sync_invD:
  assumes "sync_inv y"
  shows "dget (sy_managers y) k = None \<longleftrightarrow> dget (sy_status y) k = None"
    "dget (sy_managers y) k = Some m \<Longrightarrow> sm_inv m"
    "dget (sy_managers y) k = Some m \<Longrightarrow> dget (sy_status y) k = Some t \<Longrightarrow>
       map (\<lambda>g. (g_start g, g_end g)) (ss_gaps t) = map (\<lambda>g. (g_start g, g_end g)) (sq_gaps m) \<and>
       (ss_state t = SYNCED \<longrightarrow> sq_gaps m = []) \<and> (ss_state t = OUT_OF_SYNC \<longrightarrow> sq_gaps m \<noteq> [])"
  using assms unfolding sync_inv_def by blast+

text \<open>Replacing the manager and the status of one symbol by a consistent pair.\<close>

lemma sync_inv_put:
  assumes "sync_inv y" "sm_inv m"
    "map (\<lambda>g. (g_start g, g_end g)) (ss_gaps t) = map (\<lambda>g. (g_start g, g_end g)) (sq_gaps m)"
    "ss_state t = SYNCED \<Longrightarrow> sq_gaps m = []" "ss_state t = OUT_OF_SYNC \<Longrightarrow> sq_gaps m \<noteq> []"
    "sy_managers y' = dset (sy_managers y) k m" "sy_status y' = dset (sy_status y) k t"
  shows "sync_inv y'"
  using assms sync_invD [OF assms(1)]
  unfolding sync_inv_def by (auto simp del: split_paired_All split: if_splits)

lemma sync_inv_unregister: "sync_inv y \<Longrightarrow> sync_inv (unregister_symbol y s)"
  unfolding sync_inv_def unregister_symbol_def by (simp add: Let_def del: split_paired_All)

lemma sync_inv_create: "sync_inv y \<Longrightarrow> sync_inv (snd (create_packet d isof y s dt src seq now))"
proof -
  assume "sync_inv y"
  then have inv: "sync_inv (register_symbol y s 10000)" (is "sync_inv ?y") by (rule sync_inv_register)
  obtain m where m: "dget (sy_managers ?y) (symbol_key s) = Some m" using register_known by blast
  obtain t where t: "dget (sy_status ?y) (symbol_key s) = Some t"
    using sync_invD(1) [OF inv, of "symbol_key s"] m by (cases "dget (sy_status ?y) (symbol_key s)") auto
  have st: "dset (sy_status ?y) (symbol_key s) t = sy_status ?y"
    using t by (metis map_of_SomeD update_Some_unfold update_triv)
  have b: "sy_managers (buffer_packet y p) = sy_managers y" "sy_status (buffer_packet y p) = sy_status y" for y p
    by (simp_all add: buffer_packet_def Let_def)
  have "sm_inv (snd (get_next_sequence m))" "sq_gaps (snd (get_next_sequence m)) = sq_gaps m"
    using sync_invD(2) [OF inv m] by (simp_all add: sm_inv_next) (simp add: get_next_sequence_def)
  then have "sync_inv (put_manager ?y s (snd (get_next_sequence m)))"
    using sync_invD(3) [OF inv m t] st
    by (intro sync_inv_put [OF inv, where t = t and k = "symbol_key s"]) (simp_all add: put_manager_def)
  with inv show ?thesis
    using sync_inv_frame b by (cases seq) (simp_all add: create_packet_def Let_def split_beta manager_of_def m)
qed

lemma sync_inv_reset: "sync_inv y \<Longrightarrow> sync_inv (reset_symbol y s)"
proof -
  assume inv: "sync_inv y"
  show ?thesis
  proof (cases "dget (sy_managers y) (symbol_key s)")
    case None
    then show ?thesis using inv sync_invD(1) [OF inv, of "symbol_key s"] by (simp add: reset_symbol_def Let_def)
  next
    case (Some m)
    then have "dget (sy_status y) (symbol_key s) \<noteq> None" using sync_invD(1) [OF inv, of "symbol_key s"] by simp
    with Some show ?thesis
      by (intro sync_inv_put [OF inv, where k = "symbol_key s" and m = "seq_reset m" and t = "new_status s"])
        (auto simp: reset_symbol_def Let_def put_manager_def put_status_def new_status_def seq_reset_def sm_inv_def)
  qed
qed

lemma sync_inv_receive: "sync_inv y \<Longrightarrow> sync_inv (snd (receive_packet d isof y p now))"
proof -
  assume "sync_inv y"
  then have inv: "sync_inv (register_symbol y (pk_symbol p) 10000)" (is "sync_inv ?y") by (rule sync_inv_register)
  let ?k = "symbol_key (pk_symbol p)"
  obtain m where m: "dget (sy_managers ?y) ?k = Some m" using register_known by blast
  obtain t where t: "dget (sy_status ?y) ?k = Some t"
    using sync_invD(1) [OF inv, of ?k] m by (cases "dget (sy_status ?y) ?k") auto
  have mt: "dset (sy_managers ?y) ?k m = sy_managers ?y"
    using m by (metis map_of_SomeD update_Some_unfold update_triv)
  have F: "sy_managers (notify_integrity z p ok) = sy_managers z" "sy_status (notify_integrity z p ok) = sy_status z"
    "sy_managers (notify_gap z s g) = sy_managers z" "sy_status (notify_gap z s g) = sy_status z" for z ok s g
    by (simp_all add: notify_integrity_def notify_gap_def)
  show ?thesis
  proof (cases "verify_checksum d isof p")
    case False
    with sync_invD [OF inv] m t mt show ?thesis
      by (intro sync_inv_put [OF inv, where k = ?k and m = m and t = "t\<lparr>ss_checksum_failures := ss_checksum_failures t + 1\<rparr>"])
        (auto simp: receive_packet_def Let_def F put_status_def status_of_def)
  next
    case True
    obtain new g m' where r: "record_received m (pk_sequence p) now = ((new, g), m')"
      by (metis surj_pair)
    have m': "sm_inv m'" using sm_inv_record [OF sync_invD(2) [OF inv m], of "pk_sequence p" now] by (simp add: r)
    show ?thesis
    proof (cases new)
      case False
      with \<open>verify_checksum d isof p\<close> inv show ?thesis
        by (simp add: receive_packet_def Let_def manager_of_def m r)
    next
      case nw: True
      let ?t = "update_status t p m' (deque_append 100 (case dget (sy_latency ?y) ?k of None \<Rightarrow> [] | Some l \<Rightarrow> l)
        (total_seconds (now - pk_timestamp p) * flt_int 1000)) now"
      show ?thesis
        using \<open>verify_checksum d isof p\<close> m' nw
        by (intro sync_inv_put [OF inv, where k = ?k and m = m' and t = ?t])
          (auto simp: receive_packet_def Let_def manager_of_def status_of_def m t r put_status_def put_manager_def
            update_status_def F split: option.splits if_splits)
    qed
  qed
qed

lemma sync_inv_check_gaps: "sync_inv y \<Longrightarrow> sync_inv (check_gaps y now)"
proof -
  assume inv: "sync_inv y"
  have rg: "g_start (retry_gap y now g) = g_start g" "g_end (retry_gap y now g) = g_end g" for g
    by (simp_all add: retry_gap_def)
  have S: "dget (sy_status (check_gaps y now)) k =
      map_option (\<lambda>t. t\<lparr>ss_gaps := map (retry_gap y now) (ss_gaps t)\<rparr>) (dget (sy_status y) k)" for k
    by (simp add: check_gaps_def map_of_map)
  have M: "dget (sy_managers (check_gaps y now)) k = map_option (\<lambda>m. m\<lparr>sq_gaps :=
      map (\<lambda>g. if (case dget (sy_status y) k of None \<Rightarrow> False | Some t \<Rightarrow> List.member (ss_gaps t) g)
               then retry_gap y now g else g) (sq_gaps m)\<rparr>) (dget (sy_managers y) k)" for k
    by (simp add: check_gaps_def dget_map_values)
  have keep: "sm_inv (m\<lparr>sq_gaps := map f (sq_gaps m)\<rparr>)"
    if "sm_inv m" "\<And>g. g_start (f g) = g_start g \<and> g_end (f g) = g_end g" for m f
    using that by (auto simp: sm_inv_def sorted_wrt_map gap_filled_iff)
  show ?thesis
    unfolding sync_inv_def S M
    using sync_invD [OF inv] by (auto simp: o_def rg intro!: keep simp del: split_paired_All)
qed

datatype sync_op =
    Y_Register symbol nat | Y_Unregister symbol | Y_Create symbol time string "int option" time
  | Y_Receive packet time | Y_Check time | Y_Reset symbol

fun sync_step :: "(string \<Rightarrow> string) \<Rightarrow> (time \<Rightarrow> string) \<Rightarrow> sync_manager \<Rightarrow> sync_op \<Rightarrow> sync_manager" where
  "sync_step d isof y (Y_Register s n) = register_symbol y s n"
| "sync_step d isof y (Y_Unregister s) = unregister_symbol y s"
| "sync_step d isof y (Y_Create s dt src seq now) = snd (create_packet d isof y s dt src seq now)"
| "sync_step d isof y (Y_Receive p now) = snd (receive_packet d isof y p now)"
| "sync_step d isof y (Y_Check now) = check_gaps y now"
| "sync_step d isof y (Y_Reset s) = reset_symbol y s"

interpretation syr: run_system "sync_step d isof" "\<lambda>_ _. True" sync_inv for d isof
proof unfold_locales
  fix y x
  assume "sync_inv y"
  then show "sync_inv (sync_step d isof y x)"
    by (cases x) (simp_all add: sync_inv_register sync_inv_unregister sync_inv_create sync_inv_receive
        sync_inv_check_gaps sync_inv_reset)
qed

section \<open>Properties of data synchronization\<close>

text \<open>C11. After receiving any sequence numbers in any order, duplicates and late ones included,
  the missing numbers are exactly those from 1 up to the largest received that never came,
  listed in ascending order without repetition.\<close>

theorem gaps_are_exactly_missing:
  "let m = run_ops record_step (new_seq_manager s n) xs in
     set (get_missing_sequences m) =
       {k. 1 \<le> k \<and> k < fold max (map (\<lambda>x. fst x + 1) xs) 1 \<and> k \<notin> fst ` set xs} \<and>
     sorted_wrt (<) (get_missing_sequences m)"
proof -
  let ?m = "run_ops record_step (new_seq_manager s n) xs"
  have inv: "sm_inv ?m" by (rule smr.run_inv) (simp_all add: sm_inv_new)
  have "sq_received ?m = fst ` set xs" "sq_expected ?m = fold max (map (\<lambda>x. fst x + 1) xs) 1"
    using record_run [OF sm_inv_new, of s n xs] by (simp_all add: new_seq_manager_def)
  with missing_exact [OF inv] missing_sorted [of "sq_gaps ?m"] inv show ?thesis
    by (simp add: get_missing_sequences_def sm_inv_def Let_def)
qed

text \<open>In every reachable state of the synchronization manager, accepting a packet leaves its
  symbol SYNCED exactly when nothing is missing and OUT_OF_SYNC exactly when something is,
  with the gaps of the status being those of the sequence manager.\<close>

theorem sync_state_tells_missing:
  assumes "y = run_ops (sync_step digest isof) (new_sync_manager r t) ops" "verify_checksum digest isof p"
    and "receive_packet digest isof y p now = ((True, gap), y')"
  shows "pk_sequence p \<in> sq_received (manager_of y' (pk_symbol p)) \<and>
    (ss_state (status_of y' (pk_symbol p)) = SYNCED \<longleftrightarrow> get_missing_sequences (manager_of y' (pk_symbol p)) = []) \<and>
    (ss_state (status_of y' (pk_symbol p)) = OUT_OF_SYNC \<longleftrightarrow> get_missing_sequences (manager_of y' (pk_symbol p)) \<noteq> []) \<and>
    ss_gaps (status_of y' (pk_symbol p)) = sq_gaps (manager_of y' (pk_symbol p))"
proof -
  have "sync_inv y" unfolding assms(1) by (rule syr.run_inv) (simp_all add: sync_inv_new)
  from receive_state [OF this assms(2), of now gap] assms(3) show ?thesis by (simp add: Let_def)
qed

definition sample_packet :: "int \<Rightarrow> packet" where
  "sample_packet n = \<lparr>pk_symbol = \<lparr>ticker = ''X'', security_type = ''equity'', exchange = [], currency = ''USD'', sector = []\<rparr>,
     pk_data_time = 0, pk_sequence = n, pk_timestamp = 0, pk_checksum = [], pk_source = ''s'', pk_retries = 0\<rparr>"

theorem sync_state_tells_missing_witness:
  "\<exists>y'. receive_packet (\<lambda>s. []) (\<lambda>t. []) (new_sync_manager 3 (flt_int 5)) (sample_packet 3) 9 =
      ((True, Some \<lparr>g_start = 1, g_end = 2, g_detected = 9, g_retries = 0\<rparr>), y') \<and>
    ss_state (status_of y' (pk_symbol (sample_packet 3))) = OUT_OF_SYNC"
proof -
  let ?d = "\<lambda>s :: string. [] :: string" and ?i = "\<lambda>t :: time. [] :: string" and ?y = "new_sync_manager 3 (flt_int 5)"
  obtain y' where r: "receive_packet ?d ?i ?y (sample_packet 3) 9 =
      ((True, Some \<lparr>g_start = 1, g_end = 2, g_detected = 9, g_retries = 0\<rparr>), y')"
    and m: "get_missing_sequences (manager_of y' (pk_symbol (sample_packet 3))) = [1, 2]"
    by (simp add: receive_packet_def verify_checksum_def packet_checksum_def sample_packet_def new_sync_manager_def
        register_symbol_def status_of_def manager_of_def new_seq_manager_def record_received_def resolve_gaps_def
        gap_filled_def gap_range_def put_status_def put_manager_def notify_integrity_def notify_gap_def Let_def
        get_missing_sequences_def upto_rec1 upto_rec2 deque_append_def)
  have "verify_checksum ?d ?i (sample_packet 3)"
    by (simp add: verify_checksum_def packet_checksum_def sample_packet_def)
  from sync_state_tells_missing [of _ ?d ?i 3 "flt_int 5" "[]", OF _ this r] r m show ?thesis by auto
qed

text \<open>Whatever was created passes the integrity check; a packet whose checksum does not match
  is rejected: nothing is recorded as received, no gap is reported, and the failure is
  counted.\<close>

theorem corrupt_packet_rejected:
  assumes "\<not> verify_checksum digest isof p"
  shows "verify_checksum digest isof (fst (create_packet digest isof y s dt src seq now)) \<and>
    fst (receive_packet digest isof y p now) = (False, None) \<and>
    sy_managers (snd (receive_packet digest isof y p now)) = sy_managers (register_symbol y (pk_symbol p) 10000) \<and>
    sy_total_packets (snd (receive_packet digest isof y p now)) = sy_total_packets y \<and>
    sy_checksum_failures (snd (receive_packet digest isof y p now)) = sy_checksum_failures y + 1"
  using bad_checksum_rejected [OF assms] assms
  by (simp add: created_packet_verifies)
    (simp add: receive_packet_def Let_def notify_integrity_def put_status_def register_symbol_def)

theorem corrupt_packet_rejected_witness:
  "fst (receive_packet (\<lambda>s. ''d'') (\<lambda>t. []) (new_sync_manager 3 (flt_int 5)) (sample_packet 3) 9) = (False, None)"
  by (rule corrupt_packet_rejected [THEN conjunct2, THEN conjunct1])
    (simp add: verify_checksum_def packet_checksum_def sample_packet_def)

end
