(* ===== verification/Stream_Cache.thy ===== *)
theory Stream_Cache
  imports Market_Data "HOL-Library.Product_Lexorder"
begin

section \<open>The streaming cache (\<open>src/data/stream_cache.py\<close>)\<close>

text \<open>
  \<open>StreamCache\<close> with its eviction policies, deduplication, time to live and the queue with
  backpressure, and \<open>SymbolCache\<close>. The locks make each synchronous method one step. The
  asynchronous \<open>put\<close> is split where it waits: a producer that finds the stream paused
  joins \<open>sy_waiting\<close>, and is released when the stream resumes.

  A cache key is an f-string of a ticker, a time and two prices, or a ticker, a time and
  a resolution. None of the parts after the ticker holds a colon outside the fixed form
  of the time, so the text and its parts determine each other, and the model keeps the
  parts. A price enters the key as it prints, which tells \<open>1.0\<close> from \<open>1.00\<close>; a tick
  therefore comes with the two texts. The set of keys of a symbol is a list in the
  order in which the set would be iterated.
\<close>

datatype cache_policy = LRU | FIFO | TTL | COUNT

text \<open>
  \<open>MarketData\<close>. Quotes, trades, order books, fundamentals and news matter here only for
  their symbol and time: no method tells them apart.
\<close>

datatype market_data = MTick tick string string | MBar bar | MOther symbol time

fun md_symbol :: "market_data \<Rightarrow> symbol" where
  "md_symbol (MTick t _ _) = t_symbol t"
| "md_symbol (MBar b) = b_symbol b"
| "md_symbol (MOther s _) = s"

fun md_time :: "market_data \<Rightarrow> time" where
  "md_time (MTick t _ _) = t_timestamp t"
| "md_time (MBar b) = b_timestamp b"
| "md_time (MOther _ t) = t"

datatype cache_key = Tick_Key string time string string | Bar_Key string time resolution

datatype dedup_hash = Tick_Hash string flt flt int | Key_Hash cache_key

record cache_entry =
  ce_data :: market_data
  ce_timestamp :: time
  ce_access_count :: nat
  ce_last_access :: time
  ce_access_seq :: nat

definition touch :: "cache_entry \<Rightarrow> time \<Rightarrow> nat \<Rightarrow> cache_entry" where
  "touch e now sq =
     e\<lparr>ce_access_count := ce_access_count e + 1, ce_last_access := now, ce_access_seq := sq\<rparr>"

record backpressure =
  bp_max_queue_size :: int
  bp_high_watermark :: flt
  bp_low_watermark :: flt
  bp_drop_policy :: string
  bp_enable_throttling :: bool
  bp_throttle_delay :: flt

definition default_backpressure :: backpressure where
  "default_backpressure =
     \<lparr>bp_max_queue_size = 10000, bp_high_watermark = Flt (flt_rnd (8 / 10)),
      bp_low_watermark = Flt (flt_rnd (3 / 10)), bp_drop_policy = ''oldest'',
      bp_enable_throttling = True, bp_throttle_delay = Flt (flt_rnd (1 / 1000))\<rparr>"

text \<open>
  \<open>sc_seq\<close> is the module's counter \<open>_lru_seq_counter\<close>, which all caches share;
  \<open>sc_open\<close> tells whether the pause event is set.
\<close>

record stream_cache =
  sc_max_size :: int
  sc_policy :: cache_policy
  sc_ttl :: "flt option"
  sc_enable_dedup :: bool
  sc_bp :: backpressure
  sc_cache :: "(cache_key, cache_entry) dict"
  sc_index :: "(skey, cache_key list) dict"
  sc_seen :: "dedup_hash list"
  sc_queue_size :: int
  sc_dropped :: nat
  sc_throttling :: bool
  sc_open :: bool
  sc_hits :: nat
  sc_misses :: nat
  sc_dedup_hits :: nat
  sc_inserts :: nat
  sc_queue :: "market_data list"
  sc_running :: bool
  sc_seq :: nat

definition new_stream_cache ::
  "int \<Rightarrow> cache_policy \<Rightarrow> flt option \<Rightarrow> bool \<Rightarrow> backpressure option \<Rightarrow> nat \<Rightarrow> stream_cache" where
  "new_stream_cache n pol ttl dedup bp sq =
     \<lparr>sc_max_size = n, sc_policy = pol, sc_ttl = ttl, sc_enable_dedup = dedup,
      sc_bp = (case bp of None \<Rightarrow> default_backpressure | Some b \<Rightarrow> b),
      sc_cache = [], sc_index = [], sc_seen = [], sc_queue_size = 0, sc_dropped = 0,
      sc_throttling = False, sc_open = True, sc_hits = 0, sc_misses = 0, sc_dedup_hits = 0,
      sc_inserts = 0, sc_queue = [], sc_running = False, sc_seq = sq\<rparr>"

definition sc_size :: "stream_cache \<Rightarrow> nat" where
  "sc_size c = length (sc_cache c)"

definition hit_rate :: "stream_cache \<Rightarrow> flt" where
  "hit_rate c =
     (let n = sc_hits c + sc_misses c
      in if n = 0 then 0 else int_ratio (int (sc_hits c)) (int n))"

definition dedup_rate :: "stream_cache \<Rightarrow> flt" where
  "dedup_rate c =
     (let n = sc_inserts c + sc_dedup_hits c
      in if n = 0 then 0 else int_ratio (int (sc_dedup_hits c)) (int n))"

subsection \<open>Keys and duplicates\<close>

text \<open>
  The classes of market data are dataclasses with equality and without a hash, so the
  call of \<open>hash\<close> in the last branch raises \<open>TypeError\<close>.
\<close>

fun generate_key :: "market_data \<Rightarrow> exn + cache_key" where
  "generate_key (MTick t bid ask) = Inr (Tick_Key (ticker (t_symbol t)) (t_timestamp t) bid ask)"
| "generate_key (MBar b) = Inr (Bar_Key (ticker (b_symbol b)) (b_timestamp b) (b_resolution b))"
| "generate_key (MOther _ _) = Inl TypeError"

text \<open>
  \<open>datetime.timestamp\<close>, with the origin of the model's time at the epoch: the seconds, and
  the microseconds added as a fraction.
\<close>

definition posix_timestamp :: "time \<Rightarrow> flt" where
  "posix_timestamp t = flt_int (t div 1000000) + Flt (flt_rnd (of_int (t mod 1000000) / 1000000))"

text \<open>The branch for bars reads \<open>open_price\<close>, an attribute that \<open>Bar\<close> does not have.\<close>

fun generate_dedup_hash :: "market_data \<Rightarrow> exn + dedup_hash" where
  "generate_dedup_hash (MTick t bid ask) =
     Inr (Tick_Hash (ticker (t_symbol t)) (flt_round 4 (flt_of_dec (bid_price t)))
            (flt_round 4 (flt_of_dec (ask_price t))) (flt_trunc (posix_timestamp (t_timestamp t) * flt_int 10)))"
| "generate_dedup_hash (MBar b) = Inl AttributeError"
| "generate_dedup_hash (MOther s t) = and_then (generate_key (MOther s t)) (\<lambda>k. Inr (Key_Hash k))"

definition is_duplicate :: "stream_cache \<Rightarrow> market_data \<Rightarrow> exn + bool \<times> stream_cache" where
  "is_duplicate c d =
     (if \<not> sc_enable_dedup c then Inr (False, c)
      else and_then (generate_dedup_hash d)
        (\<lambda>h. if h \<in> set (sc_seen c) then Inr (True, c)
             else Inr (False, c\<lparr>sc_seen := deque_append 10000 (sc_seen c) h\<rparr>)))"

subsection \<open>Eviction\<close>

definition should_evict :: "stream_cache \<Rightarrow> bool" where
  "should_evict c \<longleftrightarrow> sc_max_size c \<le> int (length (sc_cache c))"

text \<open>A time to live of zero is falsy and switches expiry off, like \<open>None\<close>.\<close>

definition expired :: "stream_cache \<Rightarrow> cache_entry \<Rightarrow> time \<Rightarrow> bool" where
  "expired c e now =
     (case sc_ttl c of
        None \<Rightarrow> False
      | Some t \<Rightarrow> t \<noteq> 0 \<and> t < total_seconds (now - ce_timestamp e))"

text \<open>The key that \<open>min\<close> returns: the first of those with the least value.\<close>

definition victim :: "stream_cache \<Rightarrow> time \<Rightarrow> cache_key" where
  "victim c now =
     (case sc_policy c of
        LRU \<Rightarrow> fst (arg_min_list (\<lambda>(k, e). (ce_last_access e, ce_access_seq e)) (sc_cache c))
      | FIFO \<Rightarrow> fst (arg_min_list (\<lambda>(k, e). ce_timestamp e) (sc_cache c))
      | TTL \<Rightarrow>
          (case filter (\<lambda>(k, e). expired c e now) (sc_cache c) of
             p # _ \<Rightarrow> fst p
           | [] \<Rightarrow> fst (arg_min_list (\<lambda>(k, e). ce_last_access e) (sc_cache c)))
      | COUNT \<Rightarrow> fst (hd (sc_cache c)))"

text \<open>\<open>_symbol_indices\<close> is a \<open>defaultdict(set)\<close>.\<close>

definition index_of :: "stream_cache \<Rightarrow> symbol \<Rightarrow> cache_key list" where
  "index_of c s = (case dget (sc_index c) (symbol_key s) of None \<Rightarrow> [] | Some ks \<Rightarrow> ks)"

definition evict_entry :: "stream_cache \<Rightarrow> time \<Rightarrow> stream_cache" where
  "evict_entry c now =
     (if sc_cache c = [] then c
      else
        let k = victim c now in
        case dget (sc_cache c) k of
          None \<Rightarrow> c
        | Some e \<Rightarrow>
            let s = md_symbol (ce_data e); ks = removeAll k (index_of c s)
            in c\<lparr>sc_cache := ddel (sc_cache c) k,
                 sc_index := (if ks = [] then ddel (sc_index c) (symbol_key s)
                              else dset (sc_index c) (symbol_key s) ks)\<rparr>)"

subsection \<open>Storing and reading\<close>

text \<open>
  \<open>put\<close>. The clock is read once by the eviction (\<open>t0\<close>), then for the two times of the new
  entry (\<open>t1\<close>, \<open>t2\<close>). The key is made after the eviction: when it raises, the evicted entry
  is gone.
\<close>

definition store_entry :: "stream_cache \<Rightarrow> cache_key \<Rightarrow> market_data \<Rightarrow> time \<Rightarrow> time \<Rightarrow> stream_cache" where
  "store_entry c k d t1 t2 =
     (let sq = sc_seq c + 1;
          ks = index_of c (md_symbol d);
          e = \<lparr>ce_data = d, ce_timestamp = t1, ce_access_count = 0, ce_last_access = t2, ce_access_seq = sq\<rparr>
      in c\<lparr>sc_cache := dset (sc_cache c) k e,
           sc_index := dset (sc_index c) (symbol_key (md_symbol d)) (if k \<in> set ks then ks else ks @ [k]),
           sc_inserts := sc_inserts c + 1, sc_seq := sq\<rparr>)"

definition sc_put ::
  "stream_cache \<Rightarrow> market_data \<Rightarrow> time \<Rightarrow> time \<Rightarrow> time \<Rightarrow> (exn + bool) \<times> stream_cache" where
  "sc_put c d t0 t1 t2 =
     (case is_duplicate c d of
        Inl e \<Rightarrow> (Inl e, c)
      | Inr (True, c1) \<Rightarrow> (Inr False, c1\<lparr>sc_dedup_hits := sc_dedup_hits c1 + 1\<rparr>)
      | Inr (False, c1) \<Rightarrow>
          let c2 = (if should_evict c1 then evict_entry c1 t0 else c1) in
          case generate_key d of
            Inl e \<Rightarrow> (Inl e, c2)
          | Inr k \<Rightarrow> (Inr True, store_entry c2 k d t1 t2))"

text \<open>
  \<open>get\<close> visits the keys of the symbol; \<open>clk i\<close> holds the two readings of the clock for the
  \<open>i\<close>-th of them, for its age and for \<open>touch\<close>.
\<close>

definition touch_key :: "stream_cache \<Rightarrow> cache_key \<Rightarrow> cache_entry \<Rightarrow> time \<Rightarrow> stream_cache" where
  "touch_key c k e now =
     c\<lparr>sc_cache := dset (sc_cache c) k (touch e now (sc_seq c + 1)), sc_seq := sc_seq c + 1,
       sc_hits := sc_hits c + 1\<rparr>"

definition wanted :: "stream_cache \<Rightarrow> time option \<Rightarrow> cache_entry \<Rightarrow> time \<Rightarrow> bool" where
  "wanted c since e now \<longleftrightarrow>
     \<not> expired c e now \<and> (case since of None \<Rightarrow> True | Some s \<Rightarrow> s \<le> md_time (ce_data e))"

fun get_loop ::
  "stream_cache \<Rightarrow> time option \<Rightarrow> (nat \<Rightarrow> time \<times> time) \<Rightarrow> nat \<Rightarrow> cache_key list \<Rightarrow>
   market_data list \<times> stream_cache" where
  "get_loop c since clk i [] = ([], c)"
| "get_loop c since clk i (k # ks) =
     (case dget (sc_cache c) k of
        None \<Rightarrow> get_loop c since clk (i + 1) ks
      | Some e \<Rightarrow>
          if wanted c since e (fst (clk i))
          then (case get_loop (touch_key c k e (snd (clk i))) since clk (i + 1) ks of
                  (rs, c1) \<Rightarrow> (ce_data e # rs, c1))
          else get_loop c since clk (i + 1) ks)"

definition sc_get ::
  "stream_cache \<Rightarrow> symbol \<Rightarrow> time option \<Rightarrow> (nat \<Rightarrow> time \<times> time) \<Rightarrow> market_data list \<times> stream_cache" where
  "sc_get c s since clk =
     (case dget (sc_index c) (symbol_key s) of
        None \<Rightarrow> ([], c\<lparr>sc_misses := sc_misses c + 1\<rparr>)
      | Some ks \<Rightarrow>
          case get_loop c since clk 0 ks of
            (rs, c1) \<Rightarrow> (sort_key md_time rs, if rs = [] then c1\<lparr>sc_misses := sc_misses c1 + 1\<rparr> else c1))"

text \<open>\<open>get_latest\<close> keeps the first entry with the greatest time.\<close>

fun latest_loop ::
  "stream_cache \<Rightarrow> (nat \<Rightarrow> time) \<Rightarrow> nat \<Rightarrow> (cache_key \<times> cache_entry) option \<Rightarrow> cache_key list \<Rightarrow>
   (cache_key \<times> cache_entry) option" where
  "latest_loop c clk i best [] = best"
| "latest_loop c clk i best (k # ks) =
     (case dget (sc_cache c) k of
        None \<Rightarrow> latest_loop c clk (i + 1) best ks
      | Some e \<Rightarrow>
          if expired c e (clk i) then latest_loop c clk (i + 1) best ks
          else
            (case best of
               None \<Rightarrow> latest_loop c clk (i + 1) (Some (k, e)) ks
             | Some (k0, e0) \<Rightarrow>
                 if md_time (ce_data e0) < md_time (ce_data e) then latest_loop c clk (i + 1) (Some (k, e)) ks
                 else latest_loop c clk (i + 1) best ks))"

definition sc_get_latest ::
  "stream_cache \<Rightarrow> symbol \<Rightarrow> (nat \<Rightarrow> time) \<Rightarrow> time \<Rightarrow> market_data option \<times> stream_cache" where
  "sc_get_latest c s clk now =
     (case dget (sc_index c) (symbol_key s) of
        None \<Rightarrow> (None, c\<lparr>sc_misses := sc_misses c + 1\<rparr>)
      | Some ks \<Rightarrow>
          case latest_loop c clk 0 None ks of
            None \<Rightarrow> (None, c\<lparr>sc_misses := sc_misses c + 1\<rparr>)
          | Some (k, e) \<Rightarrow> (Some (ce_data e), touch_key c k e now))"

definition sc_clear :: "stream_cache \<Rightarrow> stream_cache" where
  "sc_clear c = c\<lparr>sc_cache := [], sc_index := [], sc_seen := []\<rparr>"

definition clear_symbol :: "stream_cache \<Rightarrow> symbol \<Rightarrow> nat \<times> stream_cache" where
  "clear_symbol c s =
     (case dget (sc_index c) (symbol_key s) of
        None \<Rightarrow> (0, c)
      | Some ks \<Rightarrow>
          (length (filter (\<lambda>k. dget (sc_cache c) k \<noteq> None) ks),
           c\<lparr>sc_cache := fold (\<lambda>k d. ddel d k) ks (sc_cache c), sc_index := ddel (sc_index c) (symbol_key s)\<rparr>))"

definition drop_expired_key :: "cache_key \<Rightarrow> stream_cache \<Rightarrow> stream_cache" where
  "drop_expired_key k c =
     (case dget (sc_cache c) k of
        None \<Rightarrow> c
      | Some e \<Rightarrow>
          let s = md_symbol (ce_data e)
          in c\<lparr>sc_cache := ddel (sc_cache c) k,
               sc_index := dset (sc_index c) (symbol_key s) (removeAll k (index_of c s))\<rparr>)"

definition cleanup_expired :: "stream_cache \<Rightarrow> time \<Rightarrow> nat \<times> stream_cache" where
  "cleanup_expired c now =
     (let ks = map fst (filter (\<lambda>(k, e). expired c e now) (sc_cache c))
      in (length ks, fold drop_expired_key ks c))"

text \<open>One round of \<open>_cleanup_loop\<close>: expired entries go, then the older half of a long window.\<close>

definition cleanup_round :: "stream_cache \<Rightarrow> time \<Rightarrow> stream_cache" where
  "cleanup_round c now =
     (let c1 = snd (cleanup_expired c now); n = length (sc_seen c1)
      in if 5000 < n then c1\<lparr>sc_seen := drop (n div 2) (sc_seen c1)\<rparr> else c1)"

record cache_stats =
  cs_size :: nat
  cs_max_size :: int
  cs_hit_rate :: flt
  cs_dedup_rate :: flt
  cs_hits :: nat
  cs_misses :: nat
  cs_dedup_hits :: nat
  cs_inserts :: nat
  cs_dropped :: nat
  cs_policy :: cache_policy
  cs_ttl :: "flt option"
  cs_symbol_count :: nat

definition sc_get_stats :: "stream_cache \<Rightarrow> cache_stats" where
  "sc_get_stats c =
     \<lparr>cs_size = sc_size c, cs_max_size = sc_max_size c, cs_hit_rate = hit_rate c,
      cs_dedup_rate = dedup_rate c, cs_hits = sc_hits c, cs_misses = sc_misses c,
      cs_dedup_hits = sc_dedup_hits c, cs_inserts = sc_inserts c, cs_dropped = sc_dropped c,
      cs_policy = sc_policy c, cs_ttl = sc_ttl c, cs_symbol_count = length (sc_index c)\<rparr>"

subsection \<open>The queue with backpressure\<close>

text \<open>An \<open>asyncio.Queue\<close> is full when its bound is positive and reached.\<close>

definition queue_full :: "stream_cache \<Rightarrow> bool" where
  "queue_full c \<longleftrightarrow>
     0 < bp_max_queue_size (sc_bp c) \<and> bp_max_queue_size (sc_bp c) \<le> int (length (sc_queue c))"

definition throttle_streaming :: "stream_cache \<Rightarrow> stream_cache" where
  "throttle_streaming c = c\<lparr>sc_throttling := True, sc_open := False\<rparr>"

definition resume_streaming :: "stream_cache \<Rightarrow> stream_cache" where
  "resume_streaming c = c\<lparr>sc_throttling := False, sc_open := True\<rparr>"

text \<open>\<open>_drop_entries\<close>: a fifth of the queue, oldest first; it ends early on an empty queue.\<close>

fun drop_loop :: "nat \<Rightarrow> stream_cache \<Rightarrow> stream_cache" where
  "drop_loop 0 c = c"
| "drop_loop (Suc n) c =
     (case sc_queue c of
        [] \<Rightarrow> c
      | _ # q \<Rightarrow> drop_loop n (c\<lparr>sc_queue := q, sc_queue_size := sc_queue_size c - 1,
                                  sc_dropped := sc_dropped c + 1\<rparr>))"

definition drop_entries :: "stream_cache \<Rightarrow> stream_cache" where
  "drop_entries c = drop_loop (nat (flt_trunc (flt_int (sc_queue_size c) * Flt (flt_rnd (2 / 10))))) c"

definition check_backpressure :: "stream_cache \<Rightarrow> exn option \<times> stream_cache" where
  "check_backpressure c =
     (if bp_max_queue_size (sc_bp c) = 0 then (Some ZeroDivisionError, c)
      else
        let ratio = int_ratio (sc_queue_size c) (bp_max_queue_size (sc_bp c));
            c1 = (if bp_high_watermark (sc_bp c) \<le> ratio \<and> \<not> sc_throttling c
                  then throttle_streaming c else c)
        in (None, if Flt (flt_rnd (95 / 100)) \<le> ratio then drop_entries c1 else c1))"

text \<open>After \<open>QueueFull\<close>: the policies \<open>newest\<close> and \<open>random\<close> drop the new item, and so does an unknown one.\<close>

definition handle_queue_full :: "stream_cache \<Rightarrow> market_data \<Rightarrow> stream_cache" where
  "handle_queue_full c d =
     (let c1 = c\<lparr>sc_dropped := sc_dropped c + 1\<rparr>
      in if bp_drop_policy (sc_bp c) = ''oldest''
         then (case sc_queue c1 of [] \<Rightarrow> c1 | _ # q \<Rightarrow> c1\<lparr>sc_queue := q @ [d]\<rparr>)
         else c1)"

text \<open>\<open>put_async\<close> up to its wait, and from there on.\<close>

definition put_async_offer :: "stream_cache \<Rightarrow> market_data \<Rightarrow> (exn + bool) option \<times> stream_cache" where
  "put_async_offer c d =
     (case is_duplicate c d of
        Inl e \<Rightarrow> (Some (Inl e), c)
      | Inr (True, c1) \<Rightarrow> (Some (Inr False), c1\<lparr>sc_dedup_hits := sc_dedup_hits c1 + 1\<rparr>)
      | Inr (False, c1) \<Rightarrow> (None, c1))"

definition put_async_enqueue :: "stream_cache \<Rightarrow> market_data \<Rightarrow> (exn + bool) \<times> stream_cache" where
  "put_async_enqueue c d =
     (if queue_full c then (Inr False, handle_queue_full c d)
      else
        case check_backpressure
               (c\<lparr>sc_queue := sc_queue c @ [d], sc_queue_size := sc_queue_size c + 1,
                  sc_inserts := sc_inserts c + 1\<rparr>) of
          (Some e, c1) \<Rightarrow> (Inl e, c1)
        | (None, c1) \<Rightarrow> (Inr True, c1))"

text \<open>\<open>get_async\<close> with an item in the queue; on an empty queue it waits.\<close>

definition sc_get_async :: "stream_cache \<Rightarrow> (market_data \<times> stream_cache) option" where
  "sc_get_async c =
     (case sc_queue c of
        [] \<Rightarrow> None
      | d # q \<Rightarrow>
          let c1 = c\<lparr>sc_queue := q, sc_queue_size := sc_queue_size c - 1\<rparr>
          in Some (d, if sc_throttling c1 \<and>
                         flt_int (sc_queue_size c1) < bp_low_watermark (sc_bp c1) * flt_int (bp_max_queue_size (sc_bp c1))
                      then resume_streaming c1 else c1))"

definition sc_start :: "stream_cache \<Rightarrow> stream_cache" where
  "sc_start c = c\<lparr>sc_running := True\<rparr>"

definition sc_stop :: "stream_cache \<Rightarrow> stream_cache" where
  "sc_stop c = resume_streaming (c\<lparr>sc_running := False\<rparr>)"

definition create_stream_cache ::
  "int \<Rightarrow> string \<Rightarrow> flt option \<Rightarrow> bool \<Rightarrow> int \<Rightarrow> nat \<Rightarrow> exn + stream_cache" where
  "create_stream_cache n pol ttl dedup maxq sq =
     (case map_of [(''LRU'', LRU), (''FIFO'', FIFO), (''TTL'', TTL), (''COUNT'', COUNT)] (str_upper pol) of
        None \<Rightarrow> Inl KeyError
      | Some p \<Rightarrow>
          Inr (new_stream_cache n p ttl dedup (Some (default_backpressure\<lparr>bp_max_queue_size := maxq\<rparr>)) sq))"

subsection \<open>The cache of one symbol\<close>

record symbol_cache =
  yc_symbol :: symbol
  yc_max_size :: nat
  yc_ticks :: "tick list"
  yc_bars :: "(string, bar list) dict"
  yc_tick_count :: nat
  yc_bar_count :: nat

definition new_symbol_cache :: "symbol \<Rightarrow> nat \<Rightarrow> symbol_cache" where
  "new_symbol_cache s n =
     \<lparr>yc_symbol = s, yc_max_size = n, yc_ticks = [], yc_bars = [], yc_tick_count = 0, yc_bar_count = 0\<rparr>"

definition add_tick :: "symbol_cache \<Rightarrow> tick \<Rightarrow> symbol_cache" where
  "add_tick c t =
     c\<lparr>yc_ticks := deque_append (yc_max_size c) (yc_ticks c) t, yc_tick_count := yc_tick_count c + 1\<rparr>"

definition bars_for :: "symbol_cache \<Rightarrow> resolution \<Rightarrow> bar list" where
  "bars_for c r = (case dget (yc_bars c) (resolution_value r) of None \<Rightarrow> [] | Some bs \<Rightarrow> bs)"

definition add_bar :: "symbol_cache \<Rightarrow> bar \<Rightarrow> symbol_cache" where
  "add_bar c b =
     c\<lparr>yc_bars := dset (yc_bars c) (resolution_value (b_resolution b))
                    (deque_append (yc_max_size c) (bars_for c (b_resolution b)) b),
       yc_bar_count := yc_bar_count c + 1\<rparr>"

definition get_ticks :: "symbol_cache \<Rightarrow> int option \<Rightarrow> tick list" where
  "get_ticks c n = (case n of None \<Rightarrow> yc_ticks c | Some k \<Rightarrow> slice_last k (yc_ticks c))"

definition get_bars :: "symbol_cache \<Rightarrow> resolution \<Rightarrow> int option \<Rightarrow> bar list" where
  "get_bars c r n = (case n of None \<Rightarrow> bars_for c r | Some k \<Rightarrow> slice_last k (bars_for c r))"

definition get_latest_tick :: "symbol_cache \<Rightarrow> tick option" where
  "get_latest_tick c = (if yc_ticks c = [] then None else Some (last (yc_ticks c)))"

definition get_latest_bar :: "symbol_cache \<Rightarrow> resolution \<Rightarrow> bar option" where
  "get_latest_bar c r = (if bars_for c r = [] then None else Some (last (bars_for c r)))"

definition yc_clear :: "symbol_cache \<Rightarrow> symbol_cache" where
  "yc_clear c = c\<lparr>yc_ticks := [], yc_bars := [], yc_tick_count := 0, yc_bar_count := 0\<rparr>"

record symbol_cache_stats =
  ys_symbol :: string
  ys_tick_count :: nat
  ys_ticks_added :: nat
  ys_resolutions :: "string list"
  ys_bars_added :: nat

definition yc_get_stats :: "symbol_cache \<Rightarrow> symbol_cache_stats" where
  "yc_get_stats c =
     \<lparr>ys_symbol = ticker (yc_symbol c), ys_tick_count = length (yc_ticks c), ys_ticks_added = yc_tick_count c,
      ys_resolutions = dkeys (yc_bars c), ys_bars_added = yc_bar_count c\<rparr>"

section \<open>The invariant of the store\<close>

text \<open>
  Every entry stands under the key of its datum and in the index of its symbol, no two
  entries share a sequence number, and none exceeds the counter. With deduplication only
  ticks get in, since the hash of anything else raises.
\<close>

fun key_ticker :: "cache_key \<Rightarrow> string" where
  "key_ticker (Tick_Key s _ _ _) = s"
| "key_ticker (Bar_Key s _ _) = s"

definition is_tick :: "market_data \<Rightarrow> bool" where
  "is_tick d = (case d of MTick _ _ _ \<Rightarrow> True | _ \<Rightarrow> False)"

definition entry_ok :: "stream_cache \<Rightarrow> cache_key \<Rightarrow> cache_entry \<Rightarrow> bool" where
  "entry_ok c k e \<longleftrightarrow>
     generate_key (ce_data e) = Inr k \<and> k \<in> set (index_of c (md_symbol (ce_data e))) \<and>
     ce_access_seq e \<le> sc_seq c \<and> (sc_enable_dedup c \<longrightarrow> is_tick (ce_data e))"

definition index_ok :: "stream_cache \<Rightarrow> bool" where
  "index_ok c \<longleftrightarrow>
     dict_ok (sc_index c) \<and>
     (\<forall>sk ks. dget (sc_index c) sk = Some ks \<longrightarrow> distinct ks \<and> (\<forall>k \<in> set ks. key_ticker k = fst sk))"

definition seqs_distinct :: "stream_cache \<Rightarrow> bool" where
  "seqs_distinct c \<longleftrightarrow>
     (\<forall>k1 k2 e1 e2. dget (sc_cache c) k1 = Some e1 \<and> dget (sc_cache c) k2 = Some e2 \<and>
        ce_access_seq e1 = ce_access_seq e2 \<longrightarrow> k1 = k2)"

definition entries_ok :: "stream_cache \<Rightarrow> bool" where
  "entries_ok c \<longleftrightarrow> (\<forall>k e. dget (sc_cache c) k = Some e \<longrightarrow> entry_ok c k e)"

definition store_inv :: "stream_cache \<Rightarrow> bool" where
  "store_inv c \<longleftrightarrow> dict_ok (sc_cache c) \<and> entries_ok c \<and> seqs_distinct c \<and> index_ok c"

definition size_ok :: "stream_cache \<Rightarrow> bool" where
  "size_ok c \<longleftrightarrow> int (sc_size c) \<le> max 1 (sc_max_size c)"

lemma generate_key_ticker: "generate_key d = Inr k \<Longrightarrow> key_ticker k = fst (symbol_key (md_symbol d))"
  by (cases d) (auto simp: symbol_key_def)

text \<open>Only four fields matter, and the configuration never changes.\<close>

lemma store_inv_frame:
  assumes "sc_cache c' = sc_cache c" "sc_index c' = sc_index c" "sc_seq c \<le> sc_seq c'"
    "sc_enable_dedup c' = sc_enable_dedup c" "store_inv c"
  shows "store_inv c'"
  using assms(3,5)
  by (auto simp: store_inv_def entries_ok_def entry_ok_def seqs_distinct_def index_ok_def index_of_def assms(1,2,4)
      dest: order_trans)

lemma index_of_dset:
  "index_of (c\<lparr>sc_index := dset (sc_index c) (symbol_key s) ks\<rparr>) t = (if symbol_key t = symbol_key s then ks else index_of c t)"
  by (simp add: index_of_def)

text \<open>
  Removing one key: what stays in the index of every symbol is what was there, less the
  key at most.
\<close>

lemma store_inv_remove:
  assumes "store_inv c" "sc_cache c' = ddel (sc_cache c) k" "sc_seq c' = sc_seq c"
    "sc_enable_dedup c' = sc_enable_dedup c" "index_ok c'"
    and ix: "\<And>s j. j \<in> set (index_of c s) \<Longrightarrow> j \<noteq> k \<Longrightarrow> j \<in> set (index_of c' s)"
  shows "store_inv c'"
  using assms(1,5)
  by (auto simp: store_inv_def entries_ok_def entry_ok_def seqs_distinct_def assms(2-4) intro!: ix split: if_splits)

lemma index_okD:
  assumes "index_ok c" "dget (sc_index c) sk = Some ks"
  shows "distinct ks" "\<forall>k \<in> set ks. key_ticker k = fst sk"
  using assms unfolding index_ok_def by blast+

lemma index_of_ticker: "index_ok c \<Longrightarrow> k \<in> set (index_of c s) \<Longrightarrow> key_ticker k = fst (symbol_key s)"
  by (cases "dget (sc_index c) (symbol_key s)") (auto simp: index_of_def dest: index_okD(2))

lemma index_ok_smaller:
  assumes "index_ok c" "\<forall>k \<in> set ks. key_ticker k = fst (symbol_key s)" "distinct ks"
    "sc_index c' = dset (sc_index c) (symbol_key s) ks"
  shows "index_ok c'"
  using assms(1-3) unfolding index_ok_def assms(4) by (simp del: split_paired_All)

lemma index_ok_del:
  "index_ok c \<Longrightarrow> sc_index c' = ddel (sc_index c) sk \<Longrightarrow> index_ok c'"
  by (auto simp: index_ok_def)

lemma distinct_index_of: "index_ok c \<Longrightarrow> distinct (index_of c s)"
  by (auto simp: index_of_def intro: index_okD(1) split: option.split)

lemma fst_arg_min_list: "xs \<noteq> [] \<Longrightarrow> fst (arg_min_list f xs) \<in> fst ` set xs"
  by (intro imageI arg_min_list_in)

lemma victim_present:
  assumes "dict_ok (sc_cache c)" "sc_cache c \<noteq> []"
  shows "\<exists>e. dget (sc_cache c) (victim c now) = Some e"
proof -
  have "fst p \<in> fst ` set (sc_cache c)" if "filter (\<lambda>(k, e). expired c e now) (sc_cache c) = p # ps" for p ps
    using that by (metis filter_is_subset imageI list.set_intros(1) subset_iff)
  then have "victim c now \<in> fst ` set (sc_cache c)"
    using assms(2) by (simp add: victim_def fst_arg_min_list split: cache_policy.split list.split)
  then have "victim c now \<in> set (dkeys (sc_cache c))" by simp
  then show ?thesis by (metis dget_None_iff not_None_eq)
qed

lemma evict_entry_frame [frame_simps]:
  "sc_max_size (evict_entry c now) = sc_max_size c" "sc_policy (evict_entry c now) = sc_policy c"
  "sc_ttl (evict_entry c now) = sc_ttl c" "sc_enable_dedup (evict_entry c now) = sc_enable_dedup c"
  "sc_seq (evict_entry c now) = sc_seq c" "sc_seen (evict_entry c now) = sc_seen c"
  by (simp_all add: evict_entry_def Let_def split: option.split)

lemma evict_entry_cache:
  "dict_ok (sc_cache c) \<Longrightarrow> sc_cache (evict_entry c now) = ddel (sc_cache c) (victim c now)"
  using victim_present [of c now] by (auto simp: evict_entry_def Let_def)

lemma evict_entry_store_inv [inv_intros]:
  assumes "store_inv c" shows "store_inv (evict_entry c now)"
proof (cases "sc_cache c = []")
  case True
  with assms show ?thesis by (simp add: evict_entry_def)
next
  case False
  let ?k = "victim c now"
  from assms have d: "dict_ok (sc_cache c)" and i: "index_ok c" by (simp_all add: store_inv_def)
  obtain e where e: "dget (sc_cache c) ?k = Some e" using victim_present [OF d False] by blast
  define s ks where "s = md_symbol (ce_data e)" and "ks = removeAll ?k (index_of c s)"
  define ix where "ix = (if ks = [] then ddel (sc_index c) (symbol_key s) else dset (sc_index c) (symbol_key s) ks)"
  have v: "evict_entry c now = c\<lparr>sc_cache := ddel (sc_cache c) ?k, sc_index := ix\<rparr>"
    using False e by (simp add: evict_entry_def Let_def s_def ks_def ix_def)
  have ok: "index_ok (c\<lparr>sc_cache := ddel (sc_cache c) ?k, sc_index := ix\<rparr>)"
  proof (cases "ks = []")
    case True
    then show ?thesis using i by (intro index_ok_del [OF i, of _ "symbol_key s"]) (simp add: ix_def)
  next
    case False
    then show ?thesis
      using distinct_index_of [OF i] by (intro index_ok_smaller [OF i, of ks s]) (auto simp: ix_def ks_def distinct_removeAll dest: index_of_ticker [OF i])
  qed
  show ?thesis
    unfolding v
  proof (rule store_inv_remove [OF assms _ _ _ ok])
    fix t j assume j: "j \<in> set (index_of c t)" "j \<noteq> ?k"
    then have "j \<in> set ks" if "symbol_key t = symbol_key s"
      using that by (auto simp: ks_def index_of_def)
    with j show "j \<in> set (index_of (c\<lparr>sc_cache := ddel (sc_cache c) ?k, sc_index := ix\<rparr>) t)"
      by (cases "symbol_key t = symbol_key s") (auto simp: index_of_def ix_def)
  qed simp_all
qed

text \<open>Writing an entry under its key, with the next sequence number.\<close>

lemma store_inv_write:
  assumes "store_inv c" "generate_key (ce_data e) = Inr k" "sc_cache c' = dset (sc_cache c) k e"
    "sc_seq c' = sc_seq c + 1" "ce_access_seq e = sc_seq c + 1" "sc_enable_dedup c' = sc_enable_dedup c"
    "sc_enable_dedup c \<longrightarrow> is_tick (ce_data e)" "index_ok c'" "k \<in> set (index_of c' (md_symbol (ce_data e)))"
    and ix: "\<And>s j. j \<in> set (index_of c s) \<Longrightarrow> j \<in> set (index_of c' s)"
  shows "store_inv c'"
proof -
  from assms(1) have o: "ce_access_seq f \<le> sc_seq c" if "dget (sc_cache c) j = Some f" for j f
    using that by (simp add: store_inv_def entries_ok_def entry_ok_def)
  have "entries_ok c'"
    using assms(1,2,5,7,9)
    by (auto simp: entries_ok_def store_inv_def entry_ok_def assms(3,4,6) intro!: ix le_SucI split: if_splits)
  moreover have "seqs_distinct c'"
    unfolding seqs_distinct_def assms(3)
  proof (intro allI impI)
    fix k1 k2 e1 e2
    assume a: "dget (dset (sc_cache c) k e) k1 = Some e1 \<and> dget (dset (sc_cache c) k e) k2 = Some e2 \<and>
      ce_access_seq e1 = ce_access_seq e2"
    with assms(1,5) o [of k1 e1] o [of k2 e2] show "k1 = k2"
      by (auto simp: store_inv_def seqs_distinct_def split: if_splits)
  qed
  ultimately show ?thesis using assms(1,8) by (simp add: store_inv_def assms(3))
qed

lemma store_entry_store_inv [inv_intros]:
  assumes "store_inv c" "generate_key d = Inr k" "sc_enable_dedup c \<longrightarrow> is_tick d"
  shows "store_inv (store_entry c k d t1 t2)"
proof -
  define ks where "ks = (let js = index_of c (md_symbol d) in if k \<in> set js then js else js @ [k])"
  from assms(1) have i: "index_ok c" by (simp add: store_inv_def)
  have c': "sc_index (store_entry c k d t1 t2) = dset (sc_index c) (symbol_key (md_symbol d)) ks"
    by (simp add: store_entry_def Let_def ks_def)
  have "\<forall>j \<in> set ks. key_ticker j = fst (symbol_key (md_symbol d))" "distinct ks"
    using index_of_ticker [OF i, of _ "md_symbol d"] generate_key_ticker [OF assms(2)] distinct_index_of [OF i]
    by (auto simp: ks_def Let_def)
  then have ok: "index_ok (store_entry c k d t1 t2)" by (rule index_ok_smaller [OF i _ _ c'])
  have ix: "index_of (store_entry c k d t1 t2) t = (if symbol_key t = symbol_key (md_symbol d) then ks else index_of c t)" for t
    by (simp add: index_of_def c')
  have grow: "j \<in> set (index_of (store_entry c k d t1 t2) t)" if "j \<in> set (index_of c t)" for t j
  proof (cases "symbol_key t = symbol_key (md_symbol d)")
    case True
    then have "index_of c t = index_of c (md_symbol d)" by (simp add: index_of_def)
    with that True show ?thesis by (simp add: ix ks_def Let_def)
  next
    case False
    with that show ?thesis by (simp add: ix)
  qed
  have "k \<in> set (index_of (store_entry c k d t1 t2) (md_symbol d))" by (simp add: ix ks_def Let_def)
  with assms(2,3) ok grow show ?thesis
    by (intro store_inv_write [OF assms(1), where
        e = "\<lparr>ce_data = d, ce_timestamp = t1, ce_access_count = 0, ce_last_access = t2, ce_access_seq = sc_seq c + 1\<rparr>"])
      (simp_all add: store_entry_def Let_def)
qed

lemma touch_key_store_inv [inv_intros]:
  assumes "store_inv c" "dget (sc_cache c) k = Some e"
  shows "store_inv (touch_key c k e now)"
proof -
  from assms have "entry_ok c k e" "index_ok c" by (simp_all add: store_inv_def entries_ok_def)
  then show ?thesis
    by (intro store_inv_write [OF assms(1), where e = "touch e now (sc_seq c + 1)"])
      (auto simp: touch_key_def touch_def entry_ok_def index_ok_def index_of_def)
qed

lemma is_duplicate_shape: "is_duplicate c d = Inr (b, c1) \<Longrightarrow> \<exists>w. c1 = c\<lparr>sc_seen := w\<rparr>"
  by (auto simp: is_duplicate_def and_then_Inr_iff split: if_splits intro: exI [of _ "sc_seen c"])

lemma is_duplicate_tick: "is_duplicate c d = Inr (b, c1) \<Longrightarrow> sc_enable_dedup c \<Longrightarrow> is_tick d"
  by (cases d) (simp_all add: is_duplicate_def is_tick_def)

lemma is_duplicate_frame:
  assumes "is_duplicate c d = Inr (b, c1)"
  shows "sc_cache c1 = sc_cache c" "sc_index c1 = sc_index c" "sc_seq c1 = sc_seq c" "sc_max_size c1 = sc_max_size c"
    "sc_enable_dedup c1 = sc_enable_dedup c" "sc_policy c1 = sc_policy c" "sc_ttl c1 = sc_ttl c" "sc_bp c1 = sc_bp c"
    "sc_queue c1 = sc_queue c" "sc_queue_size c1 = sc_queue_size c" "sc_throttling c1 = sc_throttling c"
    "sc_open c1 = sc_open c" "sc_enable_dedup c \<longrightarrow> is_tick d"
  using is_duplicate_shape [OF assms] is_duplicate_tick [OF assms] by auto

lemma sc_put_cases:
  obtains (raised) e where "is_duplicate c d = Inl e" "sc_put c d t0 t1 t2 = (Inl e, c)"
  | (duplicate) c1 where "is_duplicate c d = Inr (True, c1)"
      "sc_put c d t0 t1 t2 = (Inr False, c1\<lparr>sc_dedup_hits := sc_dedup_hits c1 + 1\<rparr>)"
  | (no_key) c1 e where "is_duplicate c d = Inr (False, c1)" "generate_key d = Inl e"
      "sc_put c d t0 t1 t2 = (Inl e, if should_evict c1 then evict_entry c1 t0 else c1)"
  | (stored) c1 k where "is_duplicate c d = Inr (False, c1)" "generate_key d = Inr k"
      "sc_put c d t0 t1 t2 = (Inr True, store_entry (if should_evict c1 then evict_entry c1 t0 else c1) k d t1 t2)"
  by (cases "is_duplicate c d"; cases "generate_key d") (auto simp: sc_put_def Let_def split: bool.splits)

lemma sc_put_store_inv [inv_intros]:
  assumes "store_inv c" shows "store_inv (snd (sc_put c d t0 t1 t2))"
proof -
  have d: "store_inv c1" if "is_duplicate c d = Inr (b, c1)" for b c1
    using is_duplicate_frame [OF that] by (intro store_inv_frame [OF _ _ _ _ assms]) simp_all
  show ?thesis
  proof (cases rule: sc_put_cases [of c d t0 t1 t2])
    case raised
    then show ?thesis using assms by simp
  next
    case (duplicate c1)
    show ?thesis using d [OF duplicate(1)] unfolding duplicate(2) by (auto intro: store_inv_frame)
  next
    case (no_key c1 e)
    then show ?thesis using d [OF no_key(1)] by (simp add: evict_entry_store_inv)
  next
    case (stored c1 k)
    then show ?thesis
      using d [OF stored(1)] is_duplicate_frame [OF stored(1)]
      by (auto intro!: store_entry_store_inv evict_entry_store_inv simp: frame_simps)
  qed
qed

lemma get_loop_found:
  assumes "dget (sc_cache c) k = Some e" "wanted c since e (fst (clk i))"
  shows "get_loop c since clk i (k # ks) =
    (ce_data e # fst (get_loop (touch_key c k e (snd (clk i))) since clk (i + 1) ks),
     snd (get_loop (touch_key c k e (snd (clk i))) since clk (i + 1) ks))"
  using assms by (simp split: prod.split)

lemma get_loop_passed:
  assumes "\<And>e. dget (sc_cache c) k = Some e \<Longrightarrow> \<not> wanted c since e (fst (clk i))"
  shows "get_loop c since clk i (k # ks) = get_loop c since clk (i + 1) ks"
  using assms by (simp split: option.split)

declare get_loop.simps(2) [simp del]

lemmas get_loop_simps = get_loop.simps(1) get_loop_found get_loop_passed

text \<open>Induction over the visit of \<open>get\<close>: a key is passed over or its entry touched.\<close>

lemma get_loop_induct [consumes 0, case_names finish passed found]:
  assumes "\<And>c i. P c i []"
    and "\<And>c i k ks. (\<And>e. dget (sc_cache c) k = Some e \<Longrightarrow> \<not> wanted c since e (fst (clk i))) \<Longrightarrow>
           P c (i + 1) ks \<Longrightarrow> P c i (k # ks)"
    and "\<And>c i k ks e. dget (sc_cache c) k = Some e \<Longrightarrow> wanted c since e (fst (clk i)) \<Longrightarrow>
           P (touch_key c k e (snd (clk i))) (i + 1) ks \<Longrightarrow> P c i (k # ks)"
  shows "P c i (ks :: cache_key list)"
proof (induction ks arbitrary: c i)
  case Nil
  show ?case by (rule assms(1))
next
  case (Cons k ks)
  show ?case
  proof (cases "\<exists>e. dget (sc_cache c) k = Some e \<and> wanted c since e (fst (clk i))")
    case True
    then show ?thesis using assms(3) Cons by blast
  next
    case False
    then show ?thesis using assms(2) Cons by blast
  qed
qed

text \<open>The configuration and the queue, which the synchronous methods leave alone.\<close>

definition same_setup :: "stream_cache \<Rightarrow> stream_cache \<Rightarrow> bool" where
  "same_setup c1 c \<longleftrightarrow>
     sc_max_size c1 = sc_max_size c \<and> sc_policy c1 = sc_policy c \<and> sc_ttl c1 = sc_ttl c \<and>
     sc_enable_dedup c1 = sc_enable_dedup c \<and> sc_bp c1 = sc_bp c \<and> sc_queue c1 = sc_queue c \<and>
     sc_queue_size c1 = sc_queue_size c \<and> sc_throttling c1 = sc_throttling c \<and> sc_open c1 = sc_open c"

lemma get_loop_frame:
  "same_setup (snd (get_loop c since clk i ks)) c \<and> sc_index (snd (get_loop c since clk i ks)) = sc_index c \<and>
   sc_size (snd (get_loop c since clk i ks)) = sc_size c \<and> sc_seq c \<le> sc_seq (snd (get_loop c since clk i ks))"
proof (induction c i ks rule: get_loop_induct [where since = since and clk = clk])
  case (finish c i)
  then show ?case by (simp add: same_setup_def)
next
  case (passed c i k ks)
  have "get_loop c since clk i (k # ks) = get_loop c since clk (i + 1) ks"
    using passed(1) by (rule get_loop_passed)
  with passed(2) show ?case by simp
next
  case (found c i k ks e)
  have "sc_size (touch_key c k e now) = sc_size c" for now
    using found(1) by (simp add: sc_size_def touch_key_def length_dset_old)
  then have t: "same_setup (touch_key c k e now) c" "sc_index (touch_key c k e now) = sc_index c"
    "sc_size (touch_key c k e now) = sc_size c" "sc_seq c \<le> sc_seq (touch_key c k e now)" for now
    by (simp_all add: same_setup_def) (simp_all add: touch_key_def)
  have "snd (get_loop c since clk i (k # ks)) = snd (get_loop (touch_key c k e (snd (clk i))) since clk (i + 1) ks)"
    using found(1,2) by (simp add: get_loop_found)
  with found(3) t [of "snd (clk i)"] show ?case by (auto simp: same_setup_def)
qed

lemma get_loop_store_inv: "store_inv c \<Longrightarrow> store_inv (snd (get_loop c since clk i ks))"
  by (induction c i ks rule: get_loop_induct [where since = since and clk = clk])
    (simp_all add: get_loop_simps touch_key_store_inv)

lemma store_inv_counts [simp]:
  "store_inv (c\<lparr>sc_misses := n\<rparr>) = store_inv c" "store_inv (c\<lparr>sc_hits := n\<rparr>) = store_inv c"
  "store_inv (c\<lparr>sc_dedup_hits := n\<rparr>) = store_inv c"
  by (simp_all add: store_inv_def entries_ok_def entry_ok_def seqs_distinct_def index_ok_def index_of_def)

lemma sc_get_store_inv [inv_intros]: "store_inv c \<Longrightarrow> store_inv (snd (sc_get c s since clk))"
  using get_loop_store_inv [of c since clk 0] by (auto simp: sc_get_def split: option.split prod.split) (metis snd_conv)+

lemma latest_loop_present:
  "latest_loop c clk i best ks = Some (k, e) \<Longrightarrow> best = Some (k, e) \<or> k \<in> set ks \<and> dget (sc_cache c) k = Some e"
  by (induction c clk i best ks rule: latest_loop.induct) (fastforce split: option.splits if_splits)+

lemma sc_get_latest_store_inv [inv_intros]: "store_inv c \<Longrightarrow> store_inv (snd (sc_get_latest c s clk now))"
  by (auto simp: sc_get_latest_def split: option.split intro: store_inv_frame touch_key_store_inv dest: latest_loop_present)

lemma sc_clear_store_inv [inv_intros]: "store_inv (sc_clear c)"
  by (simp add: store_inv_def sc_clear_def entries_ok_def seqs_distinct_def index_ok_def)

lemma dget_fold_ddel: "dget (fold (\<lambda>k d. ddel d k) ks d) j = (if j \<in> set ks then None else dget d j)"
  by (induction ks arbitrary: d) auto

lemma dict_ok_fold_ddel: "dict_ok d \<Longrightarrow> dict_ok (fold (\<lambda>k d. ddel d k) ks d)"
  by (induction ks arbitrary: d) auto

lemma length_fold_ddel: "length (fold (\<lambda>k d. ddel d k) ks d) \<le> length d"
  by (induction ks arbitrary: d) (auto intro: order_trans length_ddel_le)

lemma clear_symbol_store_inv [inv_intros]:
  assumes "store_inv c" shows "store_inv (snd (clear_symbol c s))"
proof (cases "dget (sc_index c) (symbol_key s)")
  case None
  with assms show ?thesis by (simp add: clear_symbol_def)
next
  case (Some ks)
  let ?c = "snd (clear_symbol c s)"
  have f: "sc_cache ?c = fold (\<lambda>k d. ddel d k) ks (sc_cache c)" "sc_index ?c = ddel (sc_index c) (symbol_key s)"
    "sc_seq ?c = sc_seq c" "sc_enable_dedup ?c = sc_enable_dedup c"
    using Some by (simp_all add: clear_symbol_def)
  from assms have i: "index_ok c" and e: "entries_ok c" by (simp_all add: store_inv_def)
  have "j \<in> set (index_of ?c t)" if "j \<in> set (index_of c t)" "j \<notin> set ks" for j t
    using that Some by (auto simp: index_of_def f)
  with e have "entries_ok ?c"
    by (auto simp: entries_ok_def entry_ok_def f dget_fold_ddel split: if_splits)
  then show ?thesis
    using assms index_ok_del [OF i f(2)] by (auto simp: store_inv_def seqs_distinct_def f dget_fold_ddel dict_ok_fold_ddel split: if_splits)
qed

lemma drop_expired_key_store_inv:
  assumes "store_inv c" shows "store_inv (drop_expired_key k c)"
proof (cases "dget (sc_cache c) k")
  case None
  with assms show ?thesis by (simp add: drop_expired_key_def)
next
  case (Some e)
  let ?c = "drop_expired_key k c" and ?s = "md_symbol (ce_data e)"
  from assms have i: "index_ok c" by (simp add: store_inv_def)
  have f: "sc_cache ?c = ddel (sc_cache c) k" "sc_seq ?c = sc_seq c" "sc_enable_dedup ?c = sc_enable_dedup c"
    "sc_index ?c = dset (sc_index c) (symbol_key ?s) (removeAll k (index_of c ?s))"
    using Some by (simp_all add: drop_expired_key_def Let_def)
  have "index_ok ?c"
    using distinct_index_of [OF i] index_of_ticker [OF i] by (intro index_ok_smaller [OF i _ _ f(4)]) (auto simp: distinct_removeAll)
  moreover have "j \<in> set (index_of ?c t)" if "j \<in> set (index_of c t)" "j \<noteq> k" for j t
    using that by (auto simp: index_of_def f(4))
  ultimately show ?thesis by (intro store_inv_remove [OF assms f(1-3)])
qed

lemma cleanup_expired_store_inv [inv_intros]: "store_inv c \<Longrightarrow> store_inv (snd (cleanup_expired c now))"
proof -
  have "store_inv c \<Longrightarrow> store_inv (fold drop_expired_key ks c)" for ks
    by (induction ks arbitrary: c) (auto intro: drop_expired_key_store_inv)
  then show "store_inv c \<Longrightarrow> store_inv (snd (cleanup_expired c now))" by (simp add: cleanup_expired_def Let_def)
qed

lemma cleanup_round_store_inv [inv_intros]: "store_inv c \<Longrightarrow> store_inv (cleanup_round c now)"
  using cleanup_expired_store_inv [of c now] by (auto simp: cleanup_round_def Let_def intro: store_inv_frame)

subsection \<open>Size and setup\<close>

lemma fold_drop_expired_frame:
  "same_setup (fold drop_expired_key ks c) c \<and> sc_size (fold drop_expired_key ks c) \<le> sc_size c \<and>
   sc_cache (fold drop_expired_key ks c) = fold (\<lambda>k d. ddel d k) ks (sc_cache c) \<and>
   sc_seq (fold drop_expired_key ks c) = sc_seq c"
proof (induction ks arbitrary: c)
  case Nil
  then show ?case by (simp add: same_setup_def)
next
  case (Cons k ks)
  have c: "sc_cache (drop_expired_key k c) = ddel (sc_cache c) k"
  proof (cases "dget (sc_cache c) k")
    case None
    then have "ddel (sc_cache c) k = sc_cache c" by (intro ddel_absent) (simp add: dget_None_iff)
    with None show ?thesis by (simp add: drop_expired_key_def)
  qed (simp add: drop_expired_key_def Let_def)
  have "same_setup (drop_expired_key k c) c" "sc_size (drop_expired_key k c) \<le> sc_size c" "sc_seq (drop_expired_key k c) = sc_seq c"
    using length_ddel_le [of k "sc_cache c"] c
    by (auto simp: drop_expired_key_def same_setup_def sc_size_def Let_def split: option.split)
  with Cons.IH [of "drop_expired_key k c"] c show ?case
    by (auto simp: same_setup_def intro: order_trans)
qed

lemma touch_key_size: "dget (sc_cache c) k = Some e \<Longrightarrow> sc_size (touch_key c k e now) = sc_size c"
  by (simp add: sc_size_def touch_key_def length_dset_old)

lemma length_dset_le: "length (dset d k v) \<le> Suc (length d)"
  by (cases "dget d k") (simp_all add: length_dset_new length_dset_old)

lemma store_entry_size: "sc_size (store_entry c k d t1 t2) \<le> sc_size c + 1"
  using length_dset_le by (simp add: sc_size_def store_entry_def Let_def)

lemma evict_entry_size:
  assumes "dict_ok (sc_cache c)" "sc_cache c \<noteq> []"
  shows "Suc (sc_size (evict_entry c now)) = sc_size c"
proof -
  obtain e where "dget (sc_cache c) (victim c now) = Some e" using victim_present [OF assms] by blast
  from length_ddel_present [OF assms(1) this] show ?thesis by (simp add: sc_size_def evict_entry_cache [OF assms(1)])
qed

lemma sc_put_size:
  assumes "dict_ok (sc_cache c)" "size_ok c" shows "size_ok (snd (sc_put c d t0 t1 t2))"
proof -
  have room: "size_ok c2 \<and> int (sc_size c2) + 1 \<le> max 1 (sc_max_size c2)"
    if "is_duplicate c d = Inr (b, c1)" "c2 = (if should_evict c1 then evict_entry c1 t0 else c1)" for b c1 c2
  proof -
    note f = is_duplicate_frame [OF that(1)]
    have "evict_entry c1 t0 = c1" if "sc_cache c1 = []" using that by (simp add: evict_entry_def)
    then show ?thesis
      using evict_entry_size [of c1 t0] assms f that(2)
      by (cases "sc_cache c1 = []") (auto simp: size_ok_def should_evict_def sc_size_def frame_simps)
  qed
  show ?thesis
  proof (cases rule: sc_put_cases [of c d t0 t1 t2])
    case raised
    then show ?thesis using assms by simp
  next
    case (duplicate c1)
    then show ?thesis using is_duplicate_frame [OF duplicate(1)] assms by (simp add: size_ok_def sc_size_def)
  next
    case (no_key c1 e)
    then show ?thesis using room [OF no_key(1) refl] by simp
  next
    case (stored c1 k)
    let ?c2 = "if should_evict c1 then evict_entry c1 t0 else c1"
    have "sc_max_size (store_entry ?c2 k d t1 t2) = sc_max_size ?c2" by (simp only: store_entry_def Let_def) simp
    then show ?thesis using room [OF stored(1) refl] store_entry_size [of ?c2 k d t1 t2] stored(3)
      by (simp only: size_ok_def snd_conv) linarith
  qed
qed

subsection \<open>Runs of the cache\<close>

text \<open>
  \<open>SC_Others n\<close> stands for \<open>n\<close> numbers drawn from the shared counter by other caches.
\<close>

datatype sc_op =
    SC_Put market_data time time time
  | SC_Get symbol "time option" "nat \<Rightarrow> time \<times> time"
  | SC_Latest symbol "nat \<Rightarrow> time" time
  | SC_Clear
  | SC_Clear_Symbol symbol
  | SC_Cleanup time
  | SC_Others nat

fun sc_step :: "stream_cache \<Rightarrow> sc_op \<Rightarrow> stream_cache" where
  "sc_step c (SC_Put d t0 t1 t2) = snd (sc_put c d t0 t1 t2)"
| "sc_step c (SC_Get s since clk) = snd (sc_get c s since clk)"
| "sc_step c (SC_Latest s clk now) = snd (sc_get_latest c s clk now)"
| "sc_step c SC_Clear = sc_clear c"
| "sc_step c (SC_Clear_Symbol s) = snd (clear_symbol c s)"
| "sc_step c (SC_Cleanup now) = cleanup_round c now"
| "sc_step c (SC_Others n) = c\<lparr>sc_seq := sc_seq c + n\<rparr>"

lemma sc_step_store_inv: "store_inv c \<Longrightarrow> store_inv (sc_step c x)"
  by (cases x) (auto intro: inv_intros store_inv_frame)

lemma sc_put_setup: "same_setup (snd (sc_put c d t0 t1 t2)) c"
proof (cases rule: sc_put_cases [of c d t0 t1 t2])
  case raised
  then show ?thesis by (simp add: same_setup_def)
next
  case (duplicate c1)
  then show ?thesis using is_duplicate_frame [OF duplicate(1)] by (simp add: same_setup_def)
next
  case (no_key c1 e)
  have "same_setup (evict_entry c1 t0) c1" by (simp add: same_setup_def evict_entry_def Let_def split: option.split)
  then show ?thesis using is_duplicate_frame [OF no_key(1)] no_key(3) by (simp add: same_setup_def)
next
  case (stored c1 k)
  have "same_setup (evict_entry c1 t0) c1" by (simp add: same_setup_def evict_entry_def Let_def split: option.split)
  moreover have "same_setup (store_entry c2 k d t1 t2) c2" for c2 by (simp add: same_setup_def store_entry_def Let_def)
  ultimately show ?thesis using is_duplicate_frame [OF stored(1)] stored(3) by (simp add: same_setup_def)
qed

lemma sc_step_setup: "same_setup (sc_step c x) c"
proof (cases x)
  case (SC_Get s since clk)
  then show ?thesis
    using get_loop_frame [of c since clk 0] by (auto simp: sc_get_def same_setup_def split: option.split prod.split) (metis snd_conv)+
next
  case (SC_Latest s clk now)
  then show ?thesis by (auto simp: sc_get_latest_def same_setup_def touch_key_def split: option.split)
next
  case (SC_Clear_Symbol s)
  then show ?thesis by (auto simp: clear_symbol_def same_setup_def split: option.split)
next
  case (SC_Cleanup now)
  have f: "same_setup (snd (cleanup_expired c now)) c"
    using fold_drop_expired_frame by (simp add: cleanup_expired_def Let_def)
  with SC_Cleanup show ?thesis by (simp add: cleanup_round_def Let_def same_setup_def)
qed (simp_all add: sc_put_setup, simp_all add: same_setup_def sc_clear_def)

lemma sc_step_size:
  assumes "store_inv c" "size_ok c" shows "size_ok (sc_step c x)"
proof -
  have "sc_max_size (sc_step c x) = sc_max_size c" using sc_step_setup [of c x] by (simp add: same_setup_def)
  moreover have "sc_size (sc_step c x) \<le> sc_size c" if "\<forall>d t0 t1 t2. x \<noteq> SC_Put d t0 t1 t2"
  proof (cases x)
    case (SC_Get s since clk)
    then show ?thesis
      using get_loop_frame [of c since clk 0] by (auto simp: sc_get_def sc_size_def split: option.split prod.split) (metis order_refl snd_conv)+
  next
    case (SC_Latest s clk now)
    then show ?thesis
      by (auto simp: sc_get_latest_def sc_size_def touch_key_def length_dset_old dest: latest_loop_present split: option.split)
  next
    case (SC_Clear_Symbol s)
    then show ?thesis by (auto simp: clear_symbol_def sc_size_def length_fold_ddel split: option.split)
  next
    case (SC_Cleanup now)
    have "sc_size (snd (cleanup_expired c now)) \<le> sc_size c"
      using fold_drop_expired_frame by (simp add: cleanup_expired_def Let_def)
    with SC_Cleanup show ?thesis by (simp add: cleanup_round_def Let_def sc_size_def)
  qed (use that in \<open>auto simp: sc_size_def sc_clear_def\<close>)
  moreover have "size_ok (sc_step c x)" if "x = SC_Put d t0 t1 t2" for d t0 t1 t2
    using sc_put_size assms that by (simp add: store_inv_def)
  ultimately show ?thesis using assms(2) by (cases x) (auto simp: size_ok_def)
qed

interpretation cache_sys: run_system sc_step "\<lambda>_ _. True" "\<lambda>c. store_inv c \<and> size_ok c"
  by unfold_locales (auto intro: sc_step_store_inv sc_step_size)

section \<open>Reading\<close>

lemma touch_key_dget:
  "dget (sc_cache (touch_key c k e now)) j = (if j = k then Some (touch e now (sc_seq c + 1)) else dget (sc_cache c) j)"
  by (simp add: touch_key_def)

lemma touch_key_ttl [simp]: "expired (touch_key c k e now) f t = expired c f t"
  by (simp add: expired_def touch_key_def)

lemma wanted_touch_key [simp]: "wanted (touch_key c k e now) since f t = wanted c since f t"
  by (simp add: wanted_def)

text \<open>What \<open>get\<close> returns, read off the cache it starts from: the keys of a set are distinct.\<close>

fun live_data ::
  "stream_cache \<Rightarrow> time option \<Rightarrow> (nat \<Rightarrow> time \<times> time) \<Rightarrow> nat \<Rightarrow> cache_key list \<Rightarrow> market_data list" where
  "live_data c since clk i [] = []"
| "live_data c since clk i (k # ks) =
     (case dget (sc_cache c) k of
        None \<Rightarrow> []
      | Some e \<Rightarrow> if wanted c since e (fst (clk i)) then [ce_data e] else []) @ live_data c since clk (i + 1) ks"

lemma live_data_touch: "k \<notin> set ks \<Longrightarrow> live_data (touch_key c k e now) since clk i ks = live_data c since clk i ks"
  by (induction ks arbitrary: i) (auto simp: touch_key_dget split: option.split)

lemma get_loop_result: "distinct ks \<Longrightarrow> fst (get_loop c since clk i ks) = live_data c since clk i ks"
proof (induction c i ks rule: get_loop_induct [where since = since and clk = clk])
  case (finish c i)
  then show ?case by simp
next
  case (passed c i k ks)
  have "get_loop c since clk i (k # ks) = get_loop c since clk (i + 1) ks"
    using passed(1) by (rule get_loop_passed)
  then show ?case using passed by (auto split: option.split)
next
  case (found c i k ks e)
  have "fst (get_loop c since clk i (k # ks)) = ce_data e # fst (get_loop (touch_key c k e (snd (clk i))) since clk (i + 1) ks)"
    using found(1,2) by (simp add: get_loop_found)
  with found show ?case by (simp add: live_data_touch)
qed

lemma live_data_const:
  "d \<in> set (live_data c since (\<lambda>_. (now, now')) i ks) \<longleftrightarrow>
   (\<exists>k \<in> set ks. \<exists>e. dget (sc_cache c) k = Some e \<and> wanted c since e now \<and> d = ce_data e)"
proof (induction ks arbitrary: i)
  case (Cons k ks)
  then show ?case by (cases "dget (sc_cache c) k") auto
qed simp

section \<open>Properties\<close>

lemma new_cache_inv [simp]: "store_inv (new_stream_cache n pol ttl dd bp sq) \<and> size_ok (new_stream_cache n pol ttl dd bp sq)"
  by (simp add: new_stream_cache_def store_inv_def entries_ok_def seqs_distinct_def index_ok_def size_ok_def sc_size_def)

lemma run_cache_inv:
  "c = run_ops sc_step (new_stream_cache n pol ttl dd bp sq) xs \<Longrightarrow> store_inv c \<and> size_ok c \<and> same_setup c (new_stream_cache n pol ttl dd bp sq)"
proof (induction xs arbitrary: c rule: rev_induct)
  case Nil
  then show ?case by (simp add: same_setup_def)
next
  case (snoc x xs)
  then show ?case using sc_step_store_inv sc_step_size sc_step_setup [of "run_ops sc_step (new_stream_cache n pol ttl dd bp sq) xs" x]
    by (simp add: run_ops_append same_setup_def)
qed

text \<open>The cache never holds more than its maximum (or one entry), and every entry in it stands
  under the key of its datum, in the index of its symbol, with a number the counter has reached;
  with deduplication on, only ticks are ever cached, whatever is offered.\<close>

theorem cache_stays_consistent:
  "let c = run_ops sc_step (new_stream_cache n pol ttl dd bp sq) xs
   in int (sc_size c) \<le> max 1 n \<and> list_all (\<lambda>(k, e). entry_ok c k e) (sc_cache c)"
proof -
  define c where "c = run_ops sc_step (new_stream_cache n pol ttl dd bp sq) xs"
  from run_cache_inv [OF c_def] have i: "store_inv c" "size_ok c" "sc_max_size c = n"
    by (simp_all add: same_setup_def new_stream_cache_def)
  have "entry_ok c k e" if "(k, e) \<in> set (sc_cache c)" for k e
    using that i(1) by (simp add: store_inv_def entries_ok_def dict_ok_def)
  with i(2,3) show ?thesis by (auto simp: c_def [symmetric] Let_def size_ok_def list_all_iff)
qed

text \<open>Reading a symbol returns every cached datum of the symbol that has not expired and is not
  older than asked, sorted by time, and nothing that is not cached; but it is only the ticker
  of what it returns that is sure to be the symbol's.\<close>

theorem get_returns_live:
  assumes "c = run_ops sc_step (new_stream_cache n pol ttl dd bp sq) xs"
    "sc_get c s since (\<lambda>_. (now, now)) = (ds, c')"
  shows "sorted (map md_time ds) \<and>
    (\<forall>e \<in> set (dvals (sc_cache c)). symbol_eq (md_symbol (ce_data e)) s \<and> wanted c since e now \<longrightarrow> ce_data e \<in> set ds) \<and>
    (\<forall>d \<in> set ds. ticker (md_symbol d) = ticker s \<and> (\<exists>e \<in> set (dvals (sc_cache c)). d = ce_data e \<and> wanted c since e now))"
proof (intro conjI ballI impI)
  from run_cache_inv [OF assms(1)] have i: "store_inv c" by simp
  then have ix: "index_ok c" and d: "dict_ok (sc_cache c)" by (simp_all add: store_inv_def)
  have ds: "set ds = set (live_data c since (\<lambda>_. (now, now)) 0 (index_of c s))"
  proof (cases "dget (sc_index c) (symbol_key s)")
    case None
    with assms(2) show ?thesis by (auto simp: sc_get_def index_of_def)
  next
    case (Some ks)
    then have "distinct ks" using index_okD(1) [OF ix] by blast
    from get_loop_result [OF this, of c since "\<lambda>_. (now, now)" 0] assms(2) Some show ?thesis
      by (auto simp: sc_get_def index_of_def split: prod.splits)
  qed
  show "sorted (map md_time ds)" using assms(2) by (auto simp: sc_get_def split: option.splits prod.splits)
  {
    fix e assume e: "e \<in> set (dvals (sc_cache c))" and w: "symbol_eq (md_symbol (ce_data e)) s \<and> wanted c since e now"
    from in_dvals_dget [OF d e] obtain k where k: "dget (sc_cache c) k = Some e" ..
    with i have "k \<in> set (index_of c (md_symbol (ce_data e)))" by (simp add: store_inv_def entries_ok_def entry_ok_def)
    with w have "k \<in> set (index_of c s)" by (simp add: index_of_def symbol_eq_def)
    with k w show "ce_data e \<in> set ds" unfolding ds live_data_const by blast
  next
    fix x assume "x \<in> set ds"
    then obtain k e where k: "k \<in> set (index_of c s)" "dget (sc_cache c) k = Some e" "wanted c since e now" "x = ce_data e"
      unfolding ds live_data_const by blast
    with i have "generate_key (ce_data e) = Inr k" by (simp add: store_inv_def entries_ok_def entry_ok_def)
    from generate_key_ticker [OF this] index_of_ticker [OF ix k(1)] k(4)
    show "ticker (md_symbol x) = ticker s" by (simp add: symbol_key_def)
    show "\<exists>e \<in> set (dvals (sc_cache c)). x = ce_data e \<and> wanted c since e now"
      using k dget_in_dvals by fast
  }
qed

definition sample_tick :: "string \<Rightarrow> time \<Rightarrow> tick" where
  "sample_tick ex t =
     \<lparr>t_symbol = sample_symbol\<lparr>exchange := ex\<rparr>, t_timestamp = t, bid_price = Dec 9, ask_price = Dec 10,
      bid_size = 0, ask_size = 0, last_price = None, last_size = None\<rparr>"

definition sample_datum :: "string \<Rightarrow> time \<Rightarrow> market_data" where
  "sample_datum ex t = MTick (sample_tick ex t) ''9'' ''10''"

lemma sample_datum_simps [simp]:
  "md_symbol (sample_datum ex t) = sample_symbol\<lparr>exchange := ex\<rparr>" "md_time (sample_datum ex t) = t"
  "generate_key (sample_datum ex t) = Inr (Tick_Key ''X'' t ''9'' ''10'')" "is_tick (sample_datum ex t)"
  by (simp_all add: sample_datum_def sample_tick_def is_tick_def sample_symbol_def)

text \<open>A put into a cache that is not full, without deduplication.\<close>

lemma put_plain:
  "\<not> sc_enable_dedup c \<Longrightarrow> \<not> should_evict c \<Longrightarrow> generate_key d = Inr k \<Longrightarrow>
   sc_put c d t0 t1 t2 = (Inr True, store_entry c k d t1 t2)"
  by (simp add: sc_put_def is_duplicate_def)

theorem get_returns_live_witness:
  "set (fst (sc_get (run_ops sc_step (new_stream_cache 5 LRU None False None 0) [SC_Put (sample_datum [] 3) 7 7 7])
     sample_symbol None (\<lambda>_. (9, 9)))) = {sample_datum [] 3}"
proof -
  let ?c = "run_ops sc_step (new_stream_cache 5 LRU None False None 0) [SC_Put (sample_datum [] 3) 7 7 7]"
  let ?e = "\<lparr>ce_data = sample_datum [] 3, ce_timestamp = 7, ce_access_count = 0, ce_last_access = 7, ce_access_seq = 1\<rparr>"
  have c: "sc_cache ?c = [(Tick_Key ''X'' 3 ''9'' ''10'', ?e)]" "sc_ttl ?c = None"
    by (simp_all add: put_plain new_stream_cache_def should_evict_def store_entry_def Let_def)
  obtain ds c' where g: "sc_get ?c sample_symbol None (\<lambda>_. (9, 9)) = (ds, c')" by (metis surj_pair)
  have "wanted ?c None ?e 9" using c(2) by (simp add: wanted_def expired_def)
  moreover have "symbol_eq (md_symbol (ce_data ?e)) sample_symbol" by (simp add: sample_symbol_def symbol_eq_def symbol_key_def)
  ultimately have "sample_datum [] 3 \<in> set ds" "\<forall>d \<in> set ds. d = sample_datum [] 3"
    using get_returns_live [OF refl g] unfolding c(1) by auto
  then have "set ds = {sample_datum [] 3}" by blast
  then show ?thesis unfolding g by simp
qed

text \<open>Cache keys leave out the exchange: a tick of the same ticker, time and prices from another
  exchange overwrites the entry, and the first symbol's readers get the other exchange's tick.\<close>

theorem same_ticker_shares_entry:
  assumes "generate_key d1 = Inr k" "generate_key d2 = Inr k" "\<not> symbol_eq (md_symbol d1) (md_symbol d2)" "2 \<le> n"
  shows "fst (sc_get (run_ops sc_step (new_stream_cache n pol None False bp sq) [SC_Put d1 a0 a1 a2, SC_Put d2 b0 b1 b2])
    (md_symbol d1) None clk) = [d2]"
proof -
  let ?c0 = "new_stream_cache n pol None False bp sq"
  let ?c1 = "store_entry ?c0 k d1 a1 a2"
  have 1: "sc_put ?c0 d1 a0 a1 a2 = (Inr True, ?c1)"
    using assms(1,4) by (intro put_plain) (simp_all add: new_stream_cache_def should_evict_def)
  have 2: "sc_put ?c1 d2 b0 b1 b2 = (Inr True, store_entry ?c1 k d2 b1 b2)"
    using assms(2,4) by (intro put_plain) (simp_all add: new_stream_cache_def should_evict_def store_entry_def Let_def)
  let ?c2 = "store_entry ?c1 k d2 b1 b2"
  have ix: "dget (sc_index ?c2) (symbol_key (md_symbol d1)) = Some [k]"
    using assms(3) by (simp add: store_entry_def Let_def new_stream_cache_def index_of_def symbol_eq_def)
  have "\<exists>e. dget (sc_cache ?c2) k = Some e \<and> ce_data e = d2" "sc_ttl ?c2 = None"
    by (simp_all add: store_entry_def Let_def new_stream_cache_def)
  then have "fst (get_loop ?c2 None clk 0 [k]) = [d2]"
    by (auto simp: get_loop_found wanted_def expired_def)
  then show ?thesis using ix 1 2 by (cases "get_loop ?c2 None clk 0 [k]") (simp add: sc_get_def)
qed

theorem same_ticker_shares_entry_witness:
  "fst (sc_get (run_ops sc_step (new_stream_cache 5 LRU None False None 0)
     [SC_Put (sample_datum ''L'' 3) 7 7 7, SC_Put (sample_datum ''N'' 3) 8 8 8])
     (sample_symbol\<lparr>exchange := ''L''\<rparr>) None (\<lambda>_. (9, 9))) = [sample_datum ''N'' 3]"
  using same_ticker_shares_entry [of "sample_datum ''L'' 3" _ "sample_datum ''N'' 3" 5]
  by (simp add: symbol_eq_def symbol_key_def)

lemma deque_fold: "fold (\<lambda>x ys. deque_append n ys x) xs [] = drop (length xs - n) xs"
proof (induction xs rule: rev_induct)
  case (snoc x xs)
  then show ?case by (cases "length xs < n") (auto simp: deque_append_def Let_def Suc_diff_le)
qed simp

text \<open>The cache of one symbol keeps the last ticks up to its size and returns the last of them
  for a positive count; asked for zero ticks it returns all of them, since the slice from minus
  zero is the whole list.\<close>

theorem symbol_cache_keeps_last:
  "let c = fold (\<lambda>t c. add_tick c t) ts (new_symbol_cache s n)
   in get_ticks c None = drop (length ts - n) ts \<and> get_ticks c (Some 0) = drop (length ts - n) ts \<and>
     get_ticks c (Some (int (Suc j))) = drop (length ts - min (Suc j) n) ts"
proof -
  have "yc_ticks (fold (\<lambda>t c. add_tick c t) ts c) = fold (\<lambda>x ys. deque_append (yc_max_size c) ys x) ts (yc_ticks c)" for c
    by (induction ts arbitrary: c) (simp_all add: add_tick_def)
  then have t: "yc_ticks (fold (\<lambda>t c. add_tick c t) ts (new_symbol_cache s n)) = drop (length ts - n) ts"
    by (simp add: new_symbol_cache_def deque_fold)
  have "length ts - (length ts - n) - Suc j + (length ts - n) = length ts - min (Suc j) n" by simp
  then have "drop (length ts - (length ts - n) - Suc j) (drop (length ts - n) ts) = drop (length ts - min (Suc j) n) ts"
    by (simp only: drop_drop)
  then show ?thesis unfolding Let_def get_ticks_def option.case t slice_last_def by (simp del: of_nat_Suc drop_drop)
qed

end
