(* ===== verification/Recency.thy ===== *)
theory Recency
  imports Algo_Prelude
begin

section \<open>Least recently used\<close>

text \<open>
  The specification of an LRU cache as a list of keys, what it guarantees, and the
  interface \<open>recency_system\<close> of a system whose operations act on such a list.
\<close>

subsection \<open>The abstract recency list\<close>

text \<open>
  What an LRU cache of capacity \<open>n\<close> promises: a list of keys from the least to the most
  recently used. Making room drops the head of a full list, using a key moves it to the
  end, forgetting removes it.
\<close>

datatype 'k access = Make_Room | Use 'k | Forget 'k

fun lru_access :: "int \<Rightarrow> 'k access \<Rightarrow> 'k list \<Rightarrow> 'k list" where
  "lru_access n Make_Room ks = (if n \<le> int (length ks) then tl ks else ks)"
| "lru_access n (Use k) ks = removeAll k ks @ [k]"
| "lru_access n (Forget k) ks = removeAll k ks"

definition used_keys :: "'k access list \<Rightarrow> 'k set" where
  "used_keys as = {k. Use k \<in> set as}"

lemma used_keys_simps [simp]:
  "used_keys [] = {}" "used_keys (Make_Room # as) = used_keys as" "used_keys (Forget k # as) = used_keys as"
  "used_keys (Use k # as) = insert k (used_keys as)" "used_keys (as @ bs) = used_keys as \<union> used_keys bs"
  by (auto simp: used_keys_def)

lemma finite_used_keys [simp]: "finite (used_keys as)"
  by (induction as) (metis used_keys_simps(1) finite.emptyI, metis access.exhaust finite.insertI used_keys_simps(2-4))

text \<open>
  A key survives as long as fewer than \<open>n - 1\<close> other keys are used: those behind it in the
  list are among them.
\<close>

lemma lru_survives_from:
  assumes "distinct (pre @ k # post)" "set post \<subseteq> J" "finite J" "used_keys as \<subseteq> insert k J"
    "int (card (J - {k})) + 1 < n" "Forget k \<notin> set as"
  shows "k \<in> set (fold (lru_access n) as (pre @ k # post))"
  using assms
proof (induction as arbitrary: pre post)
  case Nil
  then show ?case by simp
next
  case (Cons a as)
  from Cons.prems have u: "used_keys as \<subseteq> insert k J" "Forget k \<notin> set as" by (cases a; auto)+
  have pk: "set post \<subseteq> J - {k}" using Cons.prems(1,2) by auto
  have "card (set post) \<le> card (J - {k})" using pk Cons.prems(3) by (intro card_mono) auto
  then have len: "int (length post) + 1 < n" using Cons.prems(1,5) by (simp add: distinct_card)
  have "\<exists>pre' post'. lru_access n a (pre @ k # post) = pre' @ k # post' \<and> distinct (pre' @ k # post') \<and> set post' \<subseteq> J"
  proof (cases a)
    case Make_Room
    have "int (length (k # post)) < n" using len by simp
    then have "\<exists>pre'. lru_access n a (pre @ k # post) = pre' @ k # post \<and> (pre' = pre \<or> pre' = tl pre)"
      by (cases pre) (auto simp: Make_Room)
    moreover have "distinct (tl pre @ k # post)" using Cons.prems(1) by (cases pre) auto
    ultimately show ?thesis using Cons.prems(1,2) by metis
  next
    case (Use j)
    show ?thesis
    proof (cases "j = k")
      case True
      with Use Cons.prems(1) have "lru_access n a (pre @ k # post) = (pre @ post) @ k # []" by simp
      with Cons.prems(1) show ?thesis by (intro exI [of _ "pre @ post"] exI [of _ "[]"]) auto
    next
      case False
      with Use Cons.prems(4) have "j \<in> J" by auto
      moreover have "lru_access n a (pre @ k # post) = removeAll j pre @ k # (removeAll j post @ [j])"
        using Use False by simp
      ultimately show ?thesis using Cons.prems(1,2) False
        by (intro exI [of _ "removeAll j pre"] exI [of _ "removeAll j post @ [j]"]) (auto simp: distinct_removeAll)
    qed
  next
    case (Forget j)
    with Cons.prems(6) have "j \<noteq> k" by auto
    with Forget Cons.prems(1,2) show ?thesis
      by (intro exI [of _ "removeAll j pre"] exI [of _ "removeAll j post"]) (auto simp: distinct_removeAll)
  qed
  then obtain pre' post' where "lru_access n a (pre @ k # post) = pre' @ k # post'" "distinct (pre' @ k # post')" "set post' \<subseteq> J"
    by blast
  then show ?case using Cons.IH [of pre' post'] Cons.prems(3,5) u by simp
qed

lemma lru_survives:
  assumes "distinct ks" "int (card (used_keys as - {k})) + 1 < n" "Forget k \<notin> set as"
  shows "k \<in> set (fold (lru_access n) as (lru_access n (Use k) ks))"
proof -
  have "distinct (removeAll k ks @ k # [])" using assms(1) by (auto simp: distinct_removeAll)
  from lru_survives_from [OF this, of "used_keys as - {k}" as n] assms(2,3) show ?thesis by auto
qed

text \<open>The accesses of a run.\<close>

fun run_trace :: "('s \<Rightarrow> 'op \<Rightarrow> 's) \<Rightarrow> ('s \<Rightarrow> 'op \<Rightarrow> 'k access list) \<Rightarrow> 's \<Rightarrow> 'op list \<Rightarrow> 'k access list" where
  "run_trace step trace s [] = []"
| "run_trace step trace s (x # xs) = trace s x @ run_trace step trace (step s x) xs"

text \<open>
  A system whose operations act on its recency list as a trace of accesses. Its client
  sees only the list.
\<close>

locale recency_system = run_system step guard inv
  for step :: "'s \<Rightarrow> 'op \<Rightarrow> 's" and guard :: "'s \<Rightarrow> 'op \<Rightarrow> bool" and inv :: "'s \<Rightarrow> bool" +
  fixes recency :: "'s \<Rightarrow> 'k list" and capacity :: int and trace :: "'s \<Rightarrow> 'op \<Rightarrow> 'k access list"
  assumes recency_distinct: "inv s \<Longrightarrow> distinct (recency s)"
    and recency_step: "inv s \<Longrightarrow> guard s x \<Longrightarrow> recency (step s x) = fold (lru_access capacity) (trace s x) (recency s)"
begin

lemma recency_run:
  "inv s \<Longrightarrow> guarded_run step guard s xs \<Longrightarrow>
   recency (run_ops step s xs) = fold (lru_access capacity) (run_trace step trace s xs) (recency s)"
  by (induction xs arbitrary: s) (simp_all add: recency_step step_inv)

lemma recently_used_kept:
  assumes "inv s" "guarded_run step guard s (x # xs)" "trace s x = as @ [Use k]"
    "Forget k \<notin> set (run_trace step trace (step s x) xs)"
    "int (card (used_keys (run_trace step trace (step s x) xs) - {k})) + 1 < capacity"
  shows "k \<in> set (recency (run_ops step s (x # xs)))"
proof -
  have i: "inv (step s x)" using assms(1,2) by (auto intro: step_inv)
  define ks where "ks = fold (lru_access capacity) as (recency s)"
  have "distinct (fold (lru_access capacity) bs js)" if "distinct js" for bs js
    using that
  proof (induction bs arbitrary: js)
    case (Cons b bs)
    then have "distinct (lru_access capacity b js)" by (cases b) (auto simp: distinct_removeAll distinct_tl)
    with Cons.IH show ?case by simp
  qed simp
  then have "distinct ks" using recency_distinct [OF assms(1)] by (simp add: ks_def)
  from lru_survives [OF this assms(5,4)] show ?thesis
    using recency_run [OF i, of xs] recency_step [OF assms(1), of x] assms(2,3) by (simp add: ks_def)
qed

end

end
