(* ===== verification/Cache_Recency.thy ===== *)
theory Cache_Recency
  imports Stream_Cache Recency "HOL-Library.Multiset"
begin

section \<open>The streaming cache under LRU\<close>

text \<open>
  \<open>StreamCache\<close> with the policy \<open>LRU\<close> implements the recency list: its keys in the order of
  their sequence numbers, which is the order of their last uses as long as the clock does
  not run backwards.
\<close>

subsection \<open>The cache implements it\<close>

text \<open>
  The recency list of the cache: its keys by sequence number. The clock of the process
  must not run backwards past the last use of an entry, since \<open>LRU\<close> compares times first;
  \<open>use_order\<close> is what that gives.
\<close>

definition recency :: "stream_cache \<Rightarrow> cache_key list" where
  "recency c = map fst (sort_key (\<lambda>p. ce_access_seq (snd p)) (sc_cache c))"

definition use_order :: "stream_cache \<Rightarrow> bool" where
  "use_order c \<longleftrightarrow>
     (\<forall>k1 k2 e1 e2. dget (sc_cache c) k1 = Some e1 \<and> dget (sc_cache c) k2 = Some e2 \<and>
        ce_access_seq e1 \<le> ce_access_seq e2 \<longrightarrow> ce_last_access e1 \<le> ce_last_access e2)"

definition clock_ok :: "stream_cache \<Rightarrow> time \<Rightarrow> bool" where
  "clock_ok c now \<longleftrightarrow> list_all (\<lambda>p. ce_last_access (snd p) \<le> now) (sc_cache c)"

fun sc_guard :: "stream_cache \<Rightarrow> sc_op \<Rightarrow> bool" where
  "sc_guard c (SC_Put d t0 t1 t2) \<longleftrightarrow> clock_ok c t2"
| "sc_guard c (SC_Get s since clk) \<longleftrightarrow>
     list_all (\<lambda>i. clock_ok c (snd (clk i))) [0..<length (index_of c s)] \<and>
     sorted (map (\<lambda>i. snd (clk i)) [0..<length (index_of c s)])"
| "sc_guard c (SC_Latest s clk now) \<longleftrightarrow> clock_ok c now"
| "sc_guard c x \<longleftrightarrow> True"

definition lru_inv :: "int \<Rightarrow> stream_cache \<Rightarrow> bool" where
  "lru_inv n c \<longleftrightarrow> store_inv c \<and> use_order c \<and> sc_policy c = LRU \<and> sc_max_size c = n"

text \<open>The keys that \<open>get\<close> touches.\<close>

fun get_uses :: "stream_cache \<Rightarrow> time option \<Rightarrow> (nat \<Rightarrow> time \<times> time) \<Rightarrow> nat \<Rightarrow> cache_key list \<Rightarrow> cache_key list" where
  "get_uses c since clk i [] = []"
| "get_uses c since clk i (k # ks) =
     (case dget (sc_cache c) k of
        None \<Rightarrow> get_uses c since clk (i + 1) ks
      | Some e \<Rightarrow>
          if wanted c since e (fst (clk i))
          then k # get_uses (touch_key c k e (snd (clk i))) since clk (i + 1) ks
          else get_uses c since clk (i + 1) ks)"

fun sc_trace :: "stream_cache \<Rightarrow> sc_op \<Rightarrow> cache_key access list" where
  "sc_trace c (SC_Put d t0 t1 t2) =
     (case is_duplicate c d of
        Inr (False, c1) \<Rightarrow> Make_Room # (case generate_key d of Inl e \<Rightarrow> [] | Inr k \<Rightarrow> [Use k])
      | _ \<Rightarrow> [])"
| "sc_trace c (SC_Get s since clk) = map Use (get_uses c since clk 0 (index_of c s))"
| "sc_trace c (SC_Latest s clk now) =
     (case latest_loop c clk 0 None (index_of c s) of None \<Rightarrow> [] | Some (k, e) \<Rightarrow> [Use k])"
| "sc_trace c SC_Clear = map Forget (dkeys (sc_cache c))"
| "sc_trace c (SC_Clear_Symbol s) = map Forget (index_of c s)"
| "sc_trace c (SC_Cleanup now) = map Forget (map fst (filter (\<lambda>(k, e). expired c e now) (sc_cache c)))"
| "sc_trace c (SC_Others n) = []"

lemma recency_keys: "set (recency c) = set (dkeys (sc_cache c))"
  by (simp add: recency_def)

lemma recency_is_distinct: "dict_ok (sc_cache c) \<Longrightarrow> distinct (recency c)"
proof -
  assume "dict_ok (sc_cache c)"
  then have "distinct (map fst (sc_cache c))" by (simp add: dict_ok_def)
  moreover have "mset (recency c) = mset (map fst (sc_cache c))" by (simp add: recency_def)
  ultimately show ?thesis by (metis distinct_count_atmost_1 set_mset_mset)
qed

lemma recency_length: "length (recency c) = sc_size c"
  by (simp add: recency_def sc_size_def)

lemma recency_ddel:
  "sc_cache c' = ddel (sc_cache c) k \<Longrightarrow> recency c' = removeAll k (recency c)"
proof -
  assume "sc_cache c' = ddel (sc_cache c) k"
  then have "sc_cache c' = filter (\<lambda>p. k \<noteq> fst p) (sc_cache c)" by (simp add: AList.delete_eq case_prod_unfold)
  then have "recency c' = map fst (filter (\<lambda>p. k \<noteq> fst p) (sort_key (\<lambda>p. ce_access_seq (snd p)) (sc_cache c)))"
    by (simp add: recency_def filter_sort)
  then show ?thesis by (simp add: recency_def filter_map removeAll_filter_not_eq o_def)
qed

lemma mset_dset: "dict_ok d \<Longrightarrow> mset (dset d k v) = mset (ddel d k) + {#(k, v)#}"
proof (induction d)
  case (Cons p d)
  show ?case
  proof (cases "fst p = k")
    case True
    with Cons.prems have "ddel d k = d" by (intro ddel_absent) (auto simp: dict_ok_def)
    with True show ?thesis by (cases p) simp
  next
    case False
    with Cons show ?thesis by (cases p) (auto simp: dict_ok_def)
  qed
qed simp

text \<open>An entry written with a number above all others comes last.\<close>

lemma recency_write:
  assumes "store_inv c" "sc_cache c' = dset (sc_cache c) k e" "ce_access_seq e = sc_seq c + 1"
  shows "recency c' = removeAll k (recency c) @ [k]"
proof -
  let ?f = "\<lambda>p :: cache_key \<times> cache_entry. ce_access_seq (snd p)"
  let ?d = "ddel (sc_cache c) k"
  from assms(1) have d: "dict_ok (sc_cache c)" by (simp add: store_inv_def)
  then have dd: "dict_ok ?d" by simp
  have p: "dget (sc_cache c) (fst p) = Some (snd p)" "p \<in> set (sc_cache c)" if "p \<in> set ?d" for p
  proof -
    show "p \<in> set (sc_cache c)" using that by (auto simp: AList.delete_eq)
    with d show "dget (sc_cache c) (fst p) = Some (snd p)" by (cases p) (simp add: dict_ok_def)
  qed
  have le: "?f p \<le> sc_seq c" if "p \<in> set ?d" for p
    using p(1) [OF that] assms(1) by (auto simp: store_inv_def entries_ok_def entry_ok_def)
  have inj: "inj_on ?f (set ?d)"
  proof (rule inj_onI)
    fix p q assume pq: "p \<in> set ?d" "q \<in> set ?d" "?f p = ?f q"
    with p(1) assms(1) have "fst p = fst q" unfolding store_inv_def seqs_distinct_def by blast
    with p(1) [OF pq(1)] p(1) [OF pq(2)] show "p = q" by (simp add: prod_eq_iff)
  qed
  have "sort_key ?f (sc_cache c') = sort_key ?f ?d @ [(k, e)]"
  proof (rule sort_key_inj_key_eq)
    show "mset (sc_cache c') = mset (sort_key ?f ?d @ [(k, e)])" using mset_dset [OF d] by (simp add: assms(2))
    then have "set (sc_cache c') = insert (k, e) (set ?d)" by (metis list.set(2) mset_eq_setD mset_sort append.simps set_append Un_commute insert_is_Un list.set(1) set_mset_mset)
    with inj le assms(3) show "inj_on ?f (set (sc_cache c'))" by (fastforce simp: inj_on_def)
    show "sorted (map ?f (sort_key ?f ?d @ [(k, e)]))"
      using le assms(3) by (auto simp: sorted_append intro: le_SucI)
  qed
  moreover have "map fst (sort_key ?f ?d) = removeAll k (recency c)"
    using recency_ddel [of "c\<lparr>sc_cache := ?d\<rparr>" k c] by (simp add: recency_def)
  ultimately show ?thesis by (simp add: recency_def)
qed

lemma use_order_remove:
  "use_order c \<Longrightarrow> sc_cache c' = ddel (sc_cache c) k \<Longrightarrow> use_order c'"
  by (auto simp: use_order_def split: if_splits)

lemma clock_okD: "clock_ok c now \<Longrightarrow> dget (sc_cache c) k = Some e \<Longrightarrow> ce_last_access e \<le> now"
  by (fastforce simp: clock_ok_def list_all_iff dest: map_of_SomeD)

lemma use_order_write:
  assumes "store_inv c" "use_order c" "sc_cache c' = dset (sc_cache c) k e" "ce_access_seq e = sc_seq c + 1"
    "clock_ok c (ce_last_access e)"
  shows "use_order c'"
proof -
  have "ce_access_seq f \<le> sc_seq c" if "dget (sc_cache c) j = Some f" for j f
    using that assms(1) by (auto simp: store_inv_def entries_ok_def entry_ok_def)
  then show ?thesis
    using assms(2,4,5) by (fastforce simp: use_order_def assms(3) dest: clock_okD split: if_splits)
qed

text \<open>The entry that \<open>LRU\<close> evicts is the head of the recency list.\<close>

lemma victim_is_least_recent:
  assumes "store_inv c" "use_order c" "sc_policy c = LRU" "sc_cache c \<noteq> []"
  shows "recency c = victim c now # removeAll (victim c now) (recency c)"
proof -
  let ?f = "\<lambda>p :: cache_key \<times> cache_entry. ce_access_seq (snd p)"
  let ?g = "\<lambda>(k, e). (ce_last_access e, ce_access_seq e)"
  from assms(1) have d: "dict_ok (sc_cache c)" by (simp add: store_inv_def)
  obtain p ps where s: "sort_key ?f (sc_cache c) = p # ps" using assms(4) by (cases "sort_key ?f (sc_cache c)") (auto simp flip: set_empty)
  have p: "p \<in> set (sc_cache c)" by (metis s list.set_intros(1) set_sort)
  define m where "m = arg_min_list ?g (sc_cache c)"
  have m: "m \<in> set (sc_cache c)" using arg_min_list_in [OF assms(4)] by (simp add: m_def)
  have "?g m = Min (?g ` set (sc_cache c))" using f_arg_min_list_f [OF assms(4)] by (simp add: m_def)
  then have "?g m \<le> ?g p" using p by simp
  then have lex: "ce_last_access (snd m) < ce_last_access (snd p) \<or> ?f m \<le> ?f p"
    by (auto simp: case_prod_unfold less_eq_prod_def)
  moreover have le: "?f p \<le> ?f m"
  proof -
    have "sorted (map ?f (p # ps))" by (metis s sorted_sort_key)
    moreover have "m \<in> set (p # ps)" by (metis m s set_sort)
    ultimately show ?thesis by auto
  qed
  moreover have gm: "dget (sc_cache c) (fst m) = Some (snd m)" "dget (sc_cache c) (fst p) = Some (snd p)"
    using m p d by (auto simp: dict_ok_def)
  moreover have "ce_last_access (snd p) \<le> ce_last_access (snd m)"
    using assms(2) gm le unfolding use_order_def by blast
  ultimately have "?f m = ?f p" by linarith
  with gm assms(1) have "fst m = fst p" unfolding store_inv_def seqs_distinct_def by blast
  then have v: "victim c now = fst p" using assms(3) by (simp add: victim_def m_def)
  have "recency c = fst p # map fst ps" by (simp add: recency_def s)
  with recency_is_distinct [OF d] v show ?thesis by simp
qed

lemma recency_evict:
  assumes "store_inv c" "use_order c" "sc_policy c = LRU"
  shows "recency (evict_entry c now) = tl (recency c)"
proof (cases "sc_cache c = []")
  case True
  then show ?thesis by (simp add: evict_entry_def recency_def)
next
  case False
  from assms(1) have "dict_ok (sc_cache c)" by (simp add: store_inv_def)
  from recency_ddel [OF evict_entry_cache [OF this]] victim_is_least_recent [OF assms False, of now]
  show ?thesis by (metis list.sel(3))
qed

lemma recency_cong: "sc_cache c' = sc_cache c \<Longrightarrow> recency c' = recency c"
  and use_order_cong: "sc_cache c' = sc_cache c \<Longrightarrow> use_order c' = use_order c"
  and clock_ok_cong: "sc_cache c' = sc_cache c \<Longrightarrow> clock_ok c' = clock_ok c"
  by (simp_all add: recency_def use_order_def clock_ok_def fun_eq_iff)

lemma lru_inv_frame:
  assumes "lru_inv n c" "sc_cache c' = sc_cache c" "store_inv c'" "sc_policy c' = sc_policy c" "sc_max_size c' = sc_max_size c"
  shows "lru_inv n c'"
  using assms use_order_cong [OF assms(2)] by (simp add: lru_inv_def)

lemma recency_put:
  assumes "lru_inv n c" "clock_ok c t2"
  shows "recency (snd (sc_put c d t0 t1 t2)) = fold (lru_access n) (sc_trace c (SC_Put d t0 t1 t2)) (recency c) \<and>
    use_order (snd (sc_put c d t0 t1 t2))"
proof -
  have room: "store_inv c2 \<and> use_order c2 \<and> clock_ok c2 t2 \<and> recency c2 = lru_access n Make_Room (recency c)"
    if "is_duplicate c d = Inr (b, c1)" "c2 = (if should_evict c1 then evict_entry c1 t0 else c1)" for b c1 c2
  proof -
    note f = is_duplicate_frame [OF that(1)]
    have i: "store_inv c1" "use_order c1" "sc_policy c1 = LRU" "recency c1 = recency c" "sc_max_size c1 = n" "clock_ok c1 t2"
      using assms f recency_cong [OF f(1)] use_order_cong [OF f(1)] clock_ok_cong [OF f(1)] store_inv_frame [OF f(1,2) _ f(5)]
      by (auto simp: lru_inv_def)
    from i(1) have d: "dict_ok (sc_cache c1)" by (simp add: store_inv_def)
    have "clock_ok (evict_entry c1 t0) t2"
      using i(6) evict_entry_cache [OF d, of t0] by (auto simp: clock_ok_def list_all_iff AList.delete_eq)
    with i show ?thesis
      using evict_entry_store_inv [OF i(1), of t0] use_order_remove [OF i(2) evict_entry_cache [OF d], of t0]
        recency_evict [OF i(1-3), of t0] recency_length [of c1]
      by (simp add: that(2) should_evict_def sc_size_def)
  qed
  show ?thesis
  proof (cases rule: sc_put_cases [of c d t0 t1 t2])
    case raised
    then show ?thesis using assms by (simp add: lru_inv_def)
  next
    case (duplicate c1)
    let ?c = "c1\<lparr>sc_dedup_hits := sc_dedup_hits c1 + 1\<rparr>"
    have c: "sc_cache ?c = sc_cache c" using is_duplicate_frame(1) [OF duplicate(1)] by simp
    show ?thesis using duplicate recency_cong [OF c] use_order_cong [OF c] assms(1) by (simp add: lru_inv_def)
  next
    case (no_key c1 e)
    then show ?thesis using room [OF no_key(1) refl] by simp
  next
    case (stored c1 k)
    define c2 where "c2 = (if should_evict c1 then evict_entry c1 t0 else c1)"
    define e where "e = \<lparr>ce_data = d, ce_timestamp = t1, ce_access_count = 0, ce_last_access = t2, ce_access_seq = sc_seq c2 + 1\<rparr>"
    have w: "sc_cache (store_entry c2 k d t1 t2) = dset (sc_cache c2) k e" by (simp add: store_entry_def Let_def e_def)
    note r = room [OF stored(1) c2_def]
    have "recency (store_entry c2 k d t1 t2) = removeAll k (recency c2) @ [k]"
      by (rule recency_write [OF _ w]) (use r in \<open>simp_all add: e_def\<close>)
    moreover have "use_order (store_entry c2 k d t1 t2)"
      by (rule use_order_write [OF _ _ w]) (use r in \<open>simp_all add: e_def\<close>)
    ultimately show ?thesis using r stored by (simp add: c2_def)
  qed
qed

text \<open>Touching an entry uses its key.\<close>

lemma touch_key_lru:
  assumes "lru_inv n c" "dget (sc_cache c) k = Some e" "clock_ok c now"
  shows "lru_inv n (touch_key c k e now)" "recency (touch_key c k e now) = lru_access n (Use k) (recency c)"
proof -
  let ?e = "touch e now (sc_seq c + 1)"
  have w: "sc_cache (touch_key c k e now) = dset (sc_cache c) k ?e" by (simp add: touch_key_def)
  have i: "store_inv c" "use_order c" using assms(1) by (simp_all add: lru_inv_def)
  show "recency (touch_key c k e now) = lru_access n (Use k) (recency c)"
    using recency_write [OF i(1) w] by (simp add: touch_def)
  have "use_order (touch_key c k e now)" using assms(3) by (intro use_order_write [OF i w]) (simp_all add: touch_def)
  with assms show "lru_inv n (touch_key c k e now)"
    using touch_key_store_inv [OF i(1) assms(2)] by (simp add: lru_inv_def) (simp add: touch_key_def)
qed

lemma touch_key_clock:
  assumes "clock_ok c t" "now \<le> t" shows "clock_ok (touch_key c k e now) t"
proof -
  have sub: "set (dset d k v) \<subseteq> insert (k, v) (set d)" for d and v :: cache_entry by (induction d) auto
  show ?thesis
    unfolding clock_ok_def list_all_iff
  proof
    fix p assume "p \<in> set (sc_cache (touch_key c k e now))"
    then have "p = (k, touch e now (sc_seq c + 1)) \<or> p \<in> set (sc_cache c)"
      using sub [of "touch e now (sc_seq c + 1)" "sc_cache c"] unfolding touch_key_def by auto
    with assms show "ce_last_access (snd p) \<le> t" by (auto simp: clock_ok_def list_all_iff touch_def)
  qed
qed

lemma get_loop_lru:
  assumes "lru_inv n c" "\<forall>j < length ks. clock_ok c (snd (clk (i + j)))"
    "\<forall>j l. j \<le> l \<and> l < length ks \<longrightarrow> snd (clk (i + j)) \<le> snd (clk (i + l))"
  shows "lru_inv n (snd (get_loop c since clk i ks)) \<and>
    recency (snd (get_loop c since clk i ks)) = fold (lru_access n) (map Use (get_uses c since clk i ks)) (recency c)"
  using assms
proof (induction c i ks rule: get_loop_induct [where since = since and clk = clk])
  case (finish c i)
  then show ?case by simp
next
  case (passed c i k ks)
  have "\<forall>j < length ks. clock_ok c (snd (clk (i + 1 + j)))"
    "\<forall>j l. j \<le> l \<and> l < length ks \<longrightarrow> snd (clk (i + 1 + j)) \<le> snd (clk (i + 1 + l))"
    using passed.prems(2,3) by (metis add.assoc add_Suc_right add_Suc_shift One_nat_def Suc_mono length_Cons plus_1_eq_Suc,
        metis add.assoc add_Suc_right add_Suc_shift One_nat_def Suc_le_mono Suc_mono length_Cons plus_1_eq_Suc)
  moreover have "get_loop c since clk i (k # ks) = get_loop c since clk (i + 1) ks"
    using passed(1) by (rule get_loop_passed)
  moreover have "get_uses c since clk i (k # ks) = get_uses c since clk (i + 1) ks"
    using passed(1) by (auto split: option.split)
  ultimately show ?case using passed.IH passed.prems(1) by simp
next
  case (found c i k ks e)
  let ?c = "touch_key c k e (snd (clk i))"
  have now: "clock_ok c (snd (clk i))" using found.prems(2) by (metis add.right_neutral length_Cons zero_less_Suc)
  note t = touch_key_lru [OF found.prems(1) found(1) now]
  have "\<forall>j < length ks. clock_ok ?c (snd (clk (i + 1 + j)))"
  proof (intro allI impI)
    fix j assume "j < length ks"
    then have "clock_ok c (snd (clk (i + (1 + j))))" "snd (clk (i + 0)) \<le> snd (clk (i + (1 + j)))"
      using found.prems(2) found.prems(3) [rule_format, of 0 "1 + j"] by auto
    then show "clock_ok ?c (snd (clk (i + 1 + j)))" by (simp add: touch_key_clock)
  qed
  moreover have "\<forall>j l. j \<le> l \<and> l < length ks \<longrightarrow> snd (clk (i + 1 + j)) \<le> snd (clk (i + 1 + l))"
  proof (intro allI impI)
    fix j l assume "j \<le> l \<and> l < length ks"
    then show "snd (clk (i + 1 + j)) \<le> snd (clk (i + 1 + l))"
      using found.prems(3) [rule_format, of "1 + j" "1 + l"] by simp
  qed
  ultimately have "lru_inv n (snd (get_loop ?c since clk (i + 1) ks)) \<and>
    recency (snd (get_loop ?c since clk (i + 1) ks)) =
      fold (lru_access n) (map Use (get_uses ?c since clk (i + 1) ks)) (recency ?c)"
    by (intro found.IH t(1))
  moreover have "snd (get_loop c since clk i (k # ks)) = snd (get_loop ?c since clk (i + 1) ks)"
    using found(1,2) by (simp add: get_loop_found)
  moreover have "get_uses c since clk i (k # ks) = k # get_uses ?c since clk (i + 1) ks"
    using found(1,2) by simp
  ultimately show ?case by (simp add: t(2))
qed

lemma recency_fold_ddel:
  "sc_cache c' = fold (\<lambda>k d. ddel d k) ks (sc_cache c) \<Longrightarrow>
   recency c' = fold (lru_access n) (map Forget ks) (recency c)"
proof (induction ks arbitrary: c)
  case Nil
  then show ?case by (simp add: recency_def)
next
  case (Cons k ks)
  then have "recency c' = fold (lru_access n) (map Forget ks) (recency (c\<lparr>sc_cache := ddel (sc_cache c) k\<rparr>))" by simp
  moreover have "recency (c\<lparr>sc_cache := ddel (sc_cache c) k\<rparr>) = removeAll k (recency c)" by (rule recency_ddel) simp
  ultimately show ?case by simp
qed

lemma use_order_fold_ddel:
  "use_order c \<Longrightarrow> sc_cache c' = fold (\<lambda>k d. ddel d k) ks (sc_cache c) \<Longrightarrow> use_order c'"
  by (auto simp: use_order_def dget_fold_ddel split: if_splits)

lemma forget_all: "fold (lru_access n) (map Forget ks) js = filter (\<lambda>j. j \<notin> set ks) js"
proof (induction ks arbitrary: js)
  case (Cons k ks)
  have "filter (\<lambda>j. j \<notin> set ks) (removeAll k js) = filter (\<lambda>j. j \<notin> set (k # ks)) js"
    by (induction js) auto
  with Cons show ?case by simp
qed simp

lemma sc_step_lru:
  assumes "lru_inv n c" "sc_guard c x"
  shows "recency (sc_step c x) = fold (lru_access n) (sc_trace c x) (recency c) \<and> use_order (sc_step c x)"
proof (cases x)
  case (SC_Put d t0 t1 t2)
  then show ?thesis using recency_put [OF assms(1)] assms(2) by simp
next
  case (SC_Get s since clk)
  show ?thesis
  proof (cases "dget (sc_index c) (symbol_key s)")
    case None
    then show ?thesis
      using assms(1) recency_cong [of "c\<lparr>sc_misses := sc_misses c + 1\<rparr>" c] use_order_cong [of "c\<lparr>sc_misses := sc_misses c + 1\<rparr>" c]
      by (simp add: SC_Get sc_get_def index_of_def lru_inv_def)
  next
    case (Some ks)
    have "\<forall>j < length ks. clock_ok c (snd (clk (0 + j)))"
      using assms(2) Some by (simp add: SC_Get list_all_iff index_of_def)
    moreover have "\<forall>j l. j \<le> l \<and> l < length ks \<longrightarrow> snd (clk (0 + j)) \<le> snd (clk (0 + l))"
    proof (intro allI impI)
      fix j l assume jl: "j \<le> l \<and> l < length ks"
      have "sorted (map (\<lambda>i. snd (clk i)) [0..<length ks])"
        using assms(2) Some by (simp add: SC_Get index_of_def)
      from sorted_nth_mono [OF this, of j l] jl show "snd (clk (0 + j)) \<le> snd (clk (0 + l))" by simp
    qed
    ultimately have "lru_inv n (snd (get_loop c since clk 0 ks)) \<and>
      recency (snd (get_loop c since clk 0 ks)) = fold (lru_access n) (map Use (get_uses c since clk 0 ks)) (recency c)"
      by (rule get_loop_lru [OF assms(1)])
    moreover have "sc_cache (sc_step c x) = sc_cache (snd (get_loop c since clk 0 ks))"
      using Some by (simp add: SC_Get sc_get_def split: prod.split)
    ultimately show ?thesis
      using recency_cong [of "sc_step c x"] use_order_cong [of "sc_step c x"] Some
      by (simp add: SC_Get index_of_def lru_inv_def)
  qed
next
  case (SC_Latest s clk now)
  let ?m = "c\<lparr>sc_misses := sc_misses c + 1\<rparr>"
  have m: "recency ?m = recency c" "use_order ?m"
    using assms(1) recency_cong [of ?m c] use_order_cong [of ?m c] by (simp_all add: lru_inv_def)
  show ?thesis
  proof (cases "latest_loop c clk 0 None (index_of c s)")
    case None
    then show ?thesis using m by (auto simp: SC_Latest sc_get_latest_def index_of_def split: option.split)
  next
    case (Some p)
    then obtain k e where p: "latest_loop c clk 0 None (index_of c s) = Some (k, e)" by (cases p) auto
    then have "dget (sc_index c) (symbol_key s) = Some (index_of c s)"
      by (cases "dget (sc_index c) (symbol_key s)") (simp_all add: index_of_def)
    then have "sc_step c x = touch_key c k e now" using p by (simp add: SC_Latest sc_get_latest_def)
    moreover have "dget (sc_cache c) k = Some e" using latest_loop_present [OF p] by simp
    ultimately show ?thesis
      using touch_key_lru [OF assms(1), of k e now] assms(2) p by (simp add: SC_Latest lru_inv_def)
  qed
next
  case SC_Clear
  have "filter (\<lambda>j. j \<notin> set (dkeys (sc_cache c))) (recency c) = []"
    using recency_keys [of c] by (auto simp: filter_empty_conv)
  then have "fold (lru_access n) (sc_trace c x) (recency c) = []" unfolding SC_Clear sc_trace.simps forget_all .
  then show ?thesis by (simp add: SC_Clear sc_clear_def recency_def use_order_def)
next
  case (SC_Clear_Symbol s)
  have "sc_cache (sc_step c x) = fold (\<lambda>k d. ddel d k) (index_of c s) (sc_cache c)"
    by (auto simp: SC_Clear_Symbol clear_symbol_def index_of_def split: option.split)
  from recency_fold_ddel [OF this] use_order_fold_ddel [OF _ this] assms(1) show ?thesis
    by (simp add: SC_Clear_Symbol lru_inv_def)
next
  case (SC_Cleanup now)
  have "sc_cache (sc_step c x) = fold (\<lambda>k d. ddel d k) (map fst (filter (\<lambda>(k, e). expired c e now) (sc_cache c))) (sc_cache c)"
    using fold_drop_expired_frame by (simp add: SC_Cleanup cleanup_round_def cleanup_expired_def Let_def)
  from recency_fold_ddel [OF this] use_order_fold_ddel [OF _ this] assms(1) show ?thesis
    by (simp add: SC_Cleanup lru_inv_def)
next
  case (SC_Others m)
  have "sc_cache (sc_step c x) = sc_cache c" by (simp add: SC_Others)
  from recency_cong [OF this] use_order_cong [OF this] assms(1) show ?thesis by (simp add: SC_Others lru_inv_def)
qed

lemma sc_step_lru_inv: "lru_inv n c \<Longrightarrow> sc_guard c x \<Longrightarrow> lru_inv n (sc_step c x)"
proof -
  assume a: "lru_inv n c" "sc_guard c x"
  then have "use_order (sc_step c x)" using sc_step_lru by blast
  with a(1) sc_step_setup [of c x] sc_step_store_inv [of c x] show ?thesis
    unfolding lru_inv_def same_setup_def by simp
qed

interpretation lru: recency_system sc_step sc_guard "lru_inv n" recency n sc_trace for n
proof
  show "lru_inv n c \<Longrightarrow> sc_guard c x \<Longrightarrow> lru_inv n (sc_step c x)" for c x by (rule sc_step_lru_inv)
  show "lru_inv n c \<Longrightarrow> distinct (recency c)" for c by (simp add: lru_inv_def store_inv_def recency_is_distinct)
  show "lru_inv n c \<Longrightarrow> sc_guard c x \<Longrightarrow> recency (sc_step c x) = fold (lru_access n) (sc_trace c x) (recency c)" for c x
    by (simp add: sc_step_lru)
qed

section \<open>Properties\<close>

lemma new_cache_lru [simp]: "lru_inv n (new_stream_cache n LRU ttl dd bp sq)"
  using new_cache_inv [of n LRU ttl dd bp sq] unfolding lru_inv_def by (simp add: new_stream_cache_def use_order_def)

text \<open>Under LRU the keys, in the order of their last use, evolve as the abstract recency list:
  storing makes room and appends, reading moves to the end, clearing and expiry remove.\<close>

theorem cache_refines_recency_list:
  assumes "guarded_run sc_step sc_guard (new_stream_cache n LRU ttl dd bp sq) xs"
  shows "recency (run_ops sc_step (new_stream_cache n LRU ttl dd bp sq) xs) =
    fold (lru_access n) (run_trace sc_step sc_trace (new_stream_cache n LRU ttl dd bp sq) xs) []"
proof -
  have "recency (new_stream_cache n LRU ttl dd bp sq) = []" by (simp add: recency_def new_stream_cache_def)
  with lru.recency_run [OF new_cache_lru assms] show ?thesis by simp
qed

theorem cache_refines_recency_list_witness:
  "recency (run_ops sc_step (new_stream_cache 2 LRU None False None 0)
     [SC_Put (sample_datum [] 3) 7 7 7, SC_Put (sample_datum [] 4) 8 8 8]) =
   [Tick_Key ''X'' 3 ''9'' ''10'', Tick_Key ''X'' 4 ''9'' ''10'']"
proof -
  let ?c = "new_stream_cache 2 LRU None False None 0"
  have g: "guarded_run sc_step sc_guard ?c [SC_Put (sample_datum [] 3) 7 7 7, SC_Put (sample_datum [] 4) 8 8 8]"
    by (simp add: put_plain new_stream_cache_def should_evict_def store_entry_def Let_def clock_ok_def)
  show ?thesis unfolding cache_refines_recency_list [OF g] by (simp add: is_duplicate_def new_stream_cache_def)
     (simp add: put_plain should_evict_def store_entry_def Let_def)
qed



end
