(* ===== verification/Backpressure.thy ===== *)
theory Backpressure
  imports Stream_Cache
begin

section \<open>Backpressure\<close>

text \<open>
  Producers in \<open>put_async\<close> and consumers in \<open>get_async\<close> as steps. A producer that finds the
  stream paused waits; setting the event releases all that wait, and a released producer
  goes on whatever the event's state is by then.
\<close>

record bp_system =
  sy_cache :: stream_cache
  sy_waiting :: "market_data list"
  sy_released :: "market_data list"

definition release :: "bp_system \<Rightarrow> stream_cache \<Rightarrow> bp_system" where
  "release s c =
     (if sc_open c then s\<lparr>sy_cache := c, sy_released := sy_released s @ sy_waiting s, sy_waiting := []\<rparr>
      else s\<lparr>sy_cache := c\<rparr>)"

inductive bp_step :: "bp_system \<Rightarrow> bp_system \<Rightarrow> bool" where
  Refused: "put_async_offer (sy_cache s) d = (Some r, c) \<Longrightarrow> bp_step s (s\<lparr>sy_cache := c\<rparr>)"
| Enqueued: "put_async_offer (sy_cache s) d = (None, c1) \<Longrightarrow> sc_open c1 \<Longrightarrow> put_async_enqueue c1 d = (r, c2) \<Longrightarrow>
    bp_step s (s\<lparr>sy_cache := c2\<rparr>)"
| Suspended: "put_async_offer (sy_cache s) d = (None, c1) \<Longrightarrow> \<not> sc_open c1 \<Longrightarrow>
    bp_step s (s\<lparr>sy_cache := c1, sy_waiting := sy_waiting s @ [d]\<rparr>)"
| Proceeded: "sy_released s = ds @ d # es \<Longrightarrow> put_async_enqueue (sy_cache s) d = (r, c) \<Longrightarrow>
    bp_step s (s\<lparr>sy_cache := c, sy_released := ds @ es\<rparr>)"
| Consumed: "sc_get_async (sy_cache s) = Some (d, c) \<Longrightarrow> bp_step s (release s c)"
| Halted: "bp_step s (release s (sc_stop (sy_cache s)))"
| Cached: "bp_step s (s\<lparr>sy_cache := sc_step (sy_cache s) x\<rparr>)"

definition bp_ok :: "stream_cache \<Rightarrow> bool" where
  "bp_ok c \<longleftrightarrow>
     sc_queue_size c = int (length (sc_queue c)) \<and>
     (0 < bp_max_queue_size (sc_bp c) \<longrightarrow> int (length (sc_queue c)) \<le> bp_max_queue_size (sc_bp c)) \<and>
     (sc_throttling c \<longleftrightarrow> \<not> sc_open c) \<and> (sc_throttling c \<longrightarrow> sc_queue c \<noteq> [])"

definition bp_live :: "backpressure \<Rightarrow> bool" where
  "bp_live b \<longleftrightarrow> 0 < bp_max_queue_size b \<and> 0 < bp_low_watermark b"

lemma flt_rnd_pow2: "flt_rnd (2 powi k) = 2 powi k"
proof (rule rnd_exact)
  show "representable 2 53 (2 powi k)"
    unfolding representable_def by (rule exI [of _ 1], rule exI [of _ k]) simp
qed simp_all

text \<open>A fifth of a queue, computed in floats, is less than the whole.\<close>

lemma drop_count_less:
  assumes "0 < q" shows "nat (flt_trunc (flt_int (int q) * Flt (flt_rnd (2 / 10)))) < q"
proof -
  obtain k where k: "2 ^ k \<le> q" "q < 2 ^ (k + 1)" using ex_power_ivl1 [of 2 q] assms by auto
  have "flt_rnd (2 / 10) \<le> 1 / 4" using flt_rnd_pow2 [of "- 2"] by (intro fr.r_le) (simp_all add: power_int_minus)
  moreover have "flt_rnd (of_int (int q)) \<le> 2 powi (int k + 1)"
  proof (rule fr.r_le [OF flt_rnd_pow2])
    have "rat_of_int (int q) \<le> rat_of_nat (2 ^ (k + 1))" using k(2) by (simp only: of_int_of_nat_eq of_nat_le_iff)
    moreover have "(2 :: rat) powi (int k + 1) = 2 ^ (k + 1)" by (metis of_nat_1 of_nat_add power_int_of_nat)
    ultimately show "rat_of_int (int q) \<le> 2 powi (int k + 1)" by simp
  qed
  moreover have "0 \<le> flt_rnd (2 / 10)" "0 \<le> flt_rnd (of_int (int q))" by (simp_all add: fr.r_nonneg)
  ultimately have "flt_rnd (of_int (int q)) * flt_rnd (2 / 10) \<le> 2 powi (int k + 1) * (1 / 4)"
    by (intro mult_mono) auto
  also have "\<dots> = 2 powi (int k - 1)" by (simp add: power_int_diff power_int_add)
  finally have "flt_rnd (flt_rnd (of_int (int q)) * flt_rnd (2 / 10)) \<le> 2 powi (int k - 1)"
    by (intro fr.r_le [OF flt_rnd_pow2])
  also have "(2 :: rat) powi (int k - 1) < 2 powi int k" by (rule power_int_strict_increasing) simp_all
  also have "(2 :: rat) powi int k = 2 ^ k" by (rule power_int_of_nat)
  also have "(2 :: rat) ^ k \<le> of_nat q" using k(1) by (metis of_nat_le_iff of_nat_numeral of_nat_power)
  finally have "\<lfloor>flt_rnd (flt_rnd (of_int (int q)) * flt_rnd (2 / 10))\<rfloor> < int q" by (simp add: floor_less_iff)
  moreover have "0 \<le> flt_rnd (flt_rnd (of_int (int q)) * flt_rnd (2 / 10))" by (simp add: fr.r_nonneg)
  ultimately show ?thesis using assms by (simp add: flt_trunc_def)
qed

lemma drop_loop_result:
  "sc_queue_size c = int (length (sc_queue c)) \<Longrightarrow>
   sc_queue (drop_loop n c) = drop n (sc_queue c) \<and> sc_queue_size (drop_loop n c) = int (length (sc_queue c) - n) \<and>
   sc_throttling (drop_loop n c) = sc_throttling c \<and> sc_open (drop_loop n c) = sc_open c \<and> sc_bp (drop_loop n c) = sc_bp c"
  by (induction n c rule: drop_loop.induct) (auto split: list.split)

lemma handle_queue_full_shape:
  "\<exists>q n. handle_queue_full c d = c\<lparr>sc_dropped := n, sc_queue := q\<rparr> \<and> length q = length (sc_queue c)"
proof (cases "sc_queue c")
  case Nil
  then have "handle_queue_full c d = c\<lparr>sc_dropped := sc_dropped c + 1, sc_queue := []\<rparr>" by (simp add: handle_queue_full_def Let_def)
  with Nil show ?thesis by (intro exI [of _ "[]"] exI [of _ "sc_dropped c + 1"]) simp
next
  case (Cons a q)
  show ?thesis
  proof (cases "bp_drop_policy (sc_bp c) = ''oldest''")
    case True
    with Cons have "handle_queue_full c d = c\<lparr>sc_dropped := sc_dropped c + 1, sc_queue := q @ [d]\<rparr>"
      by (simp add: handle_queue_full_def Let_def)
    with Cons show ?thesis by (intro exI [of _ "q @ [d]"] exI [of _ "sc_dropped c + 1"]) simp
  next
    case False
    then have "handle_queue_full c d = c\<lparr>sc_dropped := sc_dropped c + 1, sc_queue := sc_queue c\<rparr>"
      by (simp add: handle_queue_full_def Let_def)
    then show ?thesis by (intro exI [of _ "sc_queue c"] exI [of _ "sc_dropped c + 1"]) simp
  qed
qed

lemma put_async_enqueue_ok [inv_intros]:
  assumes "bp_ok c" "put_async_enqueue c d = (r, c1)"
  shows "bp_ok c1 \<and> sc_bp c1 = sc_bp c"
proof (cases "queue_full c")
  case True
  obtain q n where h: "handle_queue_full c d = c\<lparr>sc_dropped := n, sc_queue := q\<rparr>" "length q = length (sc_queue c)"
    using handle_queue_full_shape by blast
  have "c1 = handle_queue_full c d" using True assms(2) by (simp add: put_async_enqueue_def)
  moreover have "q \<noteq> [] \<longleftrightarrow> sc_queue c \<noteq> []" using h(2) by auto
  ultimately show ?thesis using assms(1) h by (simp add: bp_ok_def)
next
  case False
  let ?b = "sc_bp c"
  define c2 where "c2 = c\<lparr>sc_queue := sc_queue c @ [d], sc_queue_size := sc_queue_size c + 1, sc_inserts := sc_inserts c + 1\<rparr>"
  have c2: "bp_ok c2" "sc_queue c2 \<noteq> []" "sc_bp c2 = ?b"
    using assms(1) False by (auto simp: bp_ok_def c2_def queue_full_def)
  define ratio where "ratio = int_ratio (sc_queue_size c2) (bp_max_queue_size ?b)"
  define c3 where "c3 = (if bp_high_watermark ?b \<le> ratio \<and> \<not> sc_throttling c2 then throttle_streaming c2 else c2)"
  have c3: "bp_ok c3" "sc_queue c3 = sc_queue c2" "sc_bp c3 = ?b"
    using c2 by (auto simp: c3_def bp_ok_def throttle_streaming_def)
  have "bp_ok (drop_entries c3)" "sc_bp (drop_entries c3) = ?b"
  proof -
    have q: "sc_queue_size c3 = int (length (sc_queue c3))" using c3(1) by (simp add: bp_ok_def)
    have "nat (flt_trunc (flt_int (sc_queue_size c3) * Flt (flt_rnd (2 / 10)))) < length (sc_queue c3)"
      unfolding q using c3(2) c2(2) by (intro drop_count_less) simp
    with drop_loop_result [OF q] c3 show "bp_ok (drop_entries c3)" "sc_bp (drop_entries c3) = ?b"
      by (auto simp: drop_entries_def bp_ok_def)
  qed
  moreover have "check_backpressure c2 = (if bp_max_queue_size ?b = 0 then (Some ZeroDivisionError, c2)
      else (None, if Flt (flt_rnd (95 / 100)) \<le> ratio then drop_entries c3 else c3))"
    using c2(3) by (simp add: check_backpressure_def Let_def ratio_def c3_def)
  moreover have "c1 = snd (check_backpressure c2)"
    using assms(2) False by (auto simp: put_async_enqueue_def c2_def split: prod.splits option.splits)
  ultimately show ?thesis using c2 c3 by simp
qed

lemma put_async_enqueue_pauses: "put_async_enqueue c d = (r, c1) \<Longrightarrow> bp_ok c \<Longrightarrow> sc_open c1 \<Longrightarrow> sc_open c"
proof (cases "queue_full c")
  case True
  assume a: "put_async_enqueue c d = (r, c1)" "sc_open c1"
  obtain q n where "handle_queue_full c d = c\<lparr>sc_dropped := n, sc_queue := q\<rparr>"
    using handle_queue_full_shape by blast
  moreover have "c1 = handle_queue_full c d" using True a(1) by (simp add: put_async_enqueue_def)
  ultimately show "sc_open c" using a(2) by simp
next
  case False
  assume a: "put_async_enqueue c d = (r, c1)" "bp_ok c" "sc_open c1"
  define c2 where "c2 = c\<lparr>sc_queue := sc_queue c @ [d], sc_queue_size := sc_queue_size c + 1, sc_inserts := sc_inserts c + 1\<rparr>"
  have "c1 = snd (check_backpressure c2)"
    using a(1) False by (auto simp: put_async_enqueue_def c2_def split: prod.splits option.splits)
  moreover have "sc_queue_size c2 = int (length (sc_queue c2))" using a(2) by (simp add: bp_ok_def c2_def)
  ultimately have "sc_open c1 \<longrightarrow> sc_open c2"
    using drop_loop_result [of c2] drop_loop_result [of "throttle_streaming c2"]
    by (auto simp: check_backpressure_def drop_entries_def throttle_streaming_def Let_def split: if_splits)
  with a(3) show "sc_open c" by (simp add: c2_def)
qed

lemma put_async_offer_frame:
  assumes "put_async_offer c d = (r, c1)" shows "same_setup c1 c"
proof (cases "is_duplicate c d")
  case (Inl e)
  with assms show ?thesis by (simp add: put_async_offer_def same_setup_def)
next
  case (Inr p)
  obtain b c2 where p: "p = (b, c2)" by (cases p)
  obtain w where "c2 = c\<lparr>sc_seen := w\<rparr>" using is_duplicate_shape Inr p by blast
  with assms Inr p show ?thesis by (cases b) (auto simp: put_async_offer_def same_setup_def)
qed

lemma sc_get_async_ok [inv_intros]:
  assumes "bp_ok c" "bp_live (sc_bp c)" "sc_get_async c = Some (d, c1)"
  shows "bp_ok c1 \<and> sc_bp c1 = sc_bp c \<and> (sc_open c \<longrightarrow> sc_open c1) \<and> Suc (length (sc_queue c1)) = length (sc_queue c)"
proof -
  have "0 < bp_low_watermark (sc_bp c) * flt_int (bp_max_queue_size (sc_bp c))"
    using assms(2) by (simp add: bp_live_def flt_less_iff fr.r_pos_iff)
  then have "flt_int 0 < bp_low_watermark (sc_bp c) * flt_int (bp_max_queue_size (sc_bp c))"
    by (simp add: flt_less_iff)
  with assms show ?thesis
    by (auto simp: sc_get_async_def bp_ok_def resume_streaming_def Let_def split: list.splits if_splits)
qed

definition bp_inv :: "backpressure \<Rightarrow> bp_system \<Rightarrow> bool" where
  "bp_inv b s \<longleftrightarrow> bp_ok (sy_cache s) \<and> sc_bp (sy_cache s) = b \<and> (sc_open (sy_cache s) \<longrightarrow> sy_waiting s = [])"

lemma bp_ok_setup: "same_setup c1 c \<Longrightarrow> bp_ok c1 = bp_ok c"
  unfolding same_setup_def bp_ok_def by metis

lemma bp_inv_setup:
  "bp_inv b s \<Longrightarrow> same_setup c (sy_cache s) \<Longrightarrow>
   bp_ok c \<and> sc_bp c = b \<and> (sc_open c \<longrightarrow> sy_waiting s = [])"
  using bp_ok_setup [of c "sy_cache s"] by (simp add: bp_inv_def same_setup_def)

lemma bp_step_inv:
  assumes "bp_step s t" "bp_inv b s" "bp_live b" shows "bp_inv b t"
  using assms(1,2)
proof cases
  case (Refused d r c)
  show ?thesis using bp_inv_setup [OF assms(2) put_async_offer_frame [OF Refused(2)]] Refused(1) by (simp add: bp_inv_def)
next
  case (Enqueued d c1 r c2)
  have "bp_ok c1" "sc_bp c1 = b" "sy_waiting s = []"
    using bp_inv_setup [OF assms(2) put_async_offer_frame [OF Enqueued(2)]] Enqueued(3) by simp_all
  then show ?thesis using put_async_enqueue_ok [OF _ Enqueued(4)] Enqueued(1) by (simp add: bp_inv_def)
next
  case (Suspended d c1)
  show ?thesis using bp_inv_setup [OF assms(2) put_async_offer_frame [OF Suspended(2)]] Suspended(1,3) by (simp add: bp_inv_def)
next
  case (Proceeded ds d es r c)
  have "bp_ok (sy_cache s)" "sc_bp (sy_cache s) = b" using assms(2) by (simp_all add: bp_inv_def)
  with put_async_enqueue_ok [OF _ Proceeded(3)] have "bp_ok c \<and> sc_bp c = b" by simp
  moreover have "sc_open c \<longrightarrow> sc_open (sy_cache s)"
    using put_async_enqueue_pauses [OF Proceeded(3)] assms(2) by (simp add: bp_inv_def)
  ultimately show ?thesis using Proceeded(1) assms(2) by (simp add: bp_inv_def)
next
  case (Consumed d c)
  have "bp_ok (sy_cache s)" "bp_live (sc_bp (sy_cache s))" "sc_bp (sy_cache s) = b" using assms(2,3) by (simp_all add: bp_inv_def)
  with sc_get_async_ok [OF _ _ Consumed(2)] show ?thesis using Consumed(1) by (simp add: bp_inv_def release_def)
next
  case Halted
  have "bp_ok (sc_stop (sy_cache s))" "sc_bp (sc_stop (sy_cache s)) = b"
    using assms(2) unfolding bp_inv_def bp_ok_def by (auto simp: sc_stop_def resume_streaming_def)
  then show ?thesis by (simp add: Halted bp_inv_def release_def)
next
  case (Cached x)
  show ?thesis using bp_inv_setup [OF assms(2) sc_step_setup [of "sy_cache s" x]] Cached by (simp add: bp_inv_def)
qed

lemma bp_reachable_inv: "bp_step\<^sup>*\<^sup>* s t \<Longrightarrow> bp_inv b s \<Longrightarrow> bp_live b \<Longrightarrow> bp_inv b t"
  by (induction rule: rtranclp_induct) (auto intro: bp_step_inv)

text \<open>Draining: \<open>n\<close> reads by a consumer.\<close>

fun consume :: "nat \<Rightarrow> bp_system \<Rightarrow> bp_system" where
  "consume 0 s = s"
| "consume (Suc n) s =
     (case sc_get_async (sy_cache s) of None \<Rightarrow> s | Some (d, c) \<Rightarrow> consume n (release s c))"

lemma consume_opens:
  assumes "bp_inv b s" "bp_live b"
  shows "\<exists>n \<le> length (sc_queue (sy_cache s)). sc_open (sy_cache (consume n s)) \<and> sy_waiting (consume n s) = []"
  using assms(1)
proof (induction "length (sc_queue (sy_cache s))" arbitrary: s)
  case 0
  then have "sc_open (sy_cache s)" by (auto simp: bp_inv_def bp_ok_def)
  with 0 show ?case by (intro exI [of _ 0]) (simp add: bp_inv_def)
next
  case (Suc m)
  then obtain d c where g: "sc_get_async (sy_cache s) = Some (d, c)"
    by (cases "sc_queue (sy_cache s)") (auto simp: sc_get_async_def Let_def)
  have i: "bp_inv b (release s c)" by (rule bp_step_inv [OF Consumed [OF g] Suc.prems assms(2)])
  have "bp_ok (sy_cache s)" "bp_live (sc_bp (sy_cache s))" using Suc.prems assms(2) by (simp_all add: bp_inv_def)
  from sc_get_async_ok [OF this g] Suc.hyps(2) have l: "m = length (sc_queue (sy_cache (release s c)))" by (simp add: release_def)
  from Suc.hyps(1) [OF l i] obtain n where "n \<le> m" "sc_open (sy_cache (consume n (release s c)))" "sy_waiting (consume n (release s c)) = []"
    using l by auto
  then show ?case using g Suc.hyps(2) by (intro exI [of _ "Suc n"]) auto
qed

section \<open>Properties\<close>

text \<open>Backpressure never stalls: from any state that producers and consumers can reach, a
  consumer that keeps reading reopens the stream and releases every waiting producer after at
  most as many reads as items are queued, so no read on the way blocks.\<close>

theorem paused_stream_reopens:
  assumes "bp_step\<^sup>*\<^sup>* \<lparr>sy_cache = new_stream_cache n pol ttl dd (Some b) sq, sy_waiting = [], sy_released = []\<rparr> s"
    "0 < bp_max_queue_size b" "0 < bp_low_watermark b"
  shows "sc_queue_size (sy_cache s) = int (length (sc_queue (sy_cache s))) \<and>
    int (length (sc_queue (sy_cache s))) \<le> bp_max_queue_size b \<and>
    (\<exists>m \<le> length (sc_queue (sy_cache s)). sc_open (sy_cache (consume m s)) \<and> sy_waiting (consume m s) = [])"
proof -
  have "bp_inv b \<lparr>sy_cache = new_stream_cache n pol ttl dd (Some b) sq, sy_waiting = [], sy_released = []\<rparr>"
    using assms(2) by (simp add: bp_inv_def bp_ok_def new_stream_cache_def)
  from bp_reachable_inv [OF assms(1) this] assms(2,3) have i: "bp_inv b s" by (simp add: bp_live_def)
  with assms(2) have "sc_queue_size (sy_cache s) = int (length (sc_queue (sy_cache s)))"
    "int (length (sc_queue (sy_cache s))) \<le> bp_max_queue_size b"
    unfolding bp_inv_def bp_ok_def by blast+
  with consume_opens [OF i] assms(2,3) show ?thesis by (simp add: bp_live_def)
qed

theorem paused_stream_reopens_witness:
  "\<exists>m \<le> 0. sc_open (sy_cache (consume m \<lparr>sy_cache = new_stream_cache 5 LRU None False (Some default_backpressure) 0,
     sy_waiting = [], sy_released = []\<rparr>))"
proof -
  have "0 < bp_low_watermark default_backpressure" "0 < bp_max_queue_size default_backpressure"
    by (simp_all add: default_backpressure_def flt_less_iff fr.r_pos_iff)
  from paused_stream_reopens [OF rtranclp.rtrancl_refl this(2,1), of 5 LRU None False 0] show ?thesis
    by (simp add: new_stream_cache_def)
qed

end
