(* ===== verification/Position_Sync.thy ===== *)
theory Position_Sync
  imports Trading_Models
begin

section \<open>Position synchronization (\<open>src/portfolio/position_sync.py\<close>)\<close>

text \<open>
  The synchronizer compares the positions of the broker with those of the engine and,
  if configured, writes the broker's values into the local ones. The local positions are
  objects that the caller goes on using: they are a list, and the lookup map of one run
  leads to places in it. A difference names its symbol by the key that equality of
  symbols looks at. The set of all symbols is iterated in an arbitrary order, which is an
  argument of \<open>sync\<close>. No branch of the comparison or the reconciliation raises, so the
  guard around them has nothing to catch; handlers act on the world, and what they raise
  is caught.
\<close>

datatype difference_type =
    MISSING_LOCALLY
  | MISSING_ON_BROKER
  | QUANTITY_MISMATCH
  | PRICE_MISMATCH
  | SIDE_MISMATCH

record position_difference =
  pd_type :: difference_type
  pd_symbol :: skey
  pd_broker_quantity :: "dec option"
  pd_local_quantity :: "dec option"
  pd_broker_avg :: "dec option"
  pd_local_avg :: "dec option"
  pd_broker_side :: "order_side option"
  pd_local_side :: "order_side option"
  pd_severity :: string

record psync_config =
  pc_quantity_tolerance :: dec
  pc_price_tolerance_pct :: flt
  pc_auto_reconcile :: bool
  pc_sync_interval :: flt
  pc_max_log_entries :: int
  pc_reconcile_on_critical :: bool
  pc_max_quantity_diff_pct :: flt

definition default_psync_config :: psync_config where
  "default_psync_config =
     \<lparr>pc_quantity_tolerance = Dec (1 / 100000), pc_price_tolerance_pct = flt_int 1,
      pc_auto_reconcile = False, pc_sync_interval = flt_int 30, pc_max_log_entries = 1000,
      pc_reconcile_on_critical = False, pc_max_quantity_diff_pct = flt_int 5\<rparr>"

record psync_result =
  pr_timestamp :: time
  pr_broker_count :: nat
  pr_local_count :: nat
  pr_matched :: nat
  pr_differences :: "position_difference list"
  pr_reconciled :: nat
  pr_errors :: "string list"
  pr_duration_ms :: flt

definition total_differences :: "psync_result \<Rightarrow> nat" where
  "total_differences r = length (pr_differences r)"

definition count_type :: "difference_type \<Rightarrow> psync_result \<Rightarrow> nat" where
  "count_type t r = length (filter (\<lambda>d. pd_type d = t) (pr_differences r))"

definition missing_locally :: "psync_result \<Rightarrow> nat" where
  "missing_locally = count_type MISSING_LOCALLY"

definition missing_on_broker :: "psync_result \<Rightarrow> nat" where
  "missing_on_broker = count_type MISSING_ON_BROKER"

definition quantity_mismatches :: "psync_result \<Rightarrow> nat" where
  "quantity_mismatches = count_type QUANTITY_MISMATCH"

definition price_mismatches :: "psync_result \<Rightarrow> nat" where
  "price_mismatches = count_type PRICE_MISMATCH"

definition is_critical :: "position_difference list \<Rightarrow> bool" where
  "is_critical ds \<longleftrightarrow> list_ex (\<lambda>d. pd_severity d = ''critical'') ds"

definition has_critical :: "psync_result \<Rightarrow> bool" where
  "has_critical r = is_critical (pr_differences r)"

definition is_clean :: "psync_result \<Rightarrow> bool" where
  "is_clean r \<longleftrightarrow> pr_differences r = []"

subsection \<open>Comparing\<close>

definition blank_difference :: "difference_type \<Rightarrow> skey \<Rightarrow> string \<Rightarrow> position_difference" where
  "blank_difference t k sev =
     \<lparr>pd_type = t, pd_symbol = k, pd_broker_quantity = None, pd_local_quantity = None, pd_broker_avg = None,
      pd_local_avg = None, pd_broker_side = None, pd_local_side = None, pd_severity = sev\<rparr>"

definition side_difference :: "skey \<Rightarrow> position \<Rightarrow> position \<Rightarrow> position_difference list" where
  "side_difference k b l =
     (if p_side b \<noteq> p_side l
      then [(blank_difference SIDE_MISMATCH k ''critical'')
              \<lparr>pd_broker_side := Some (p_side b), pd_local_side := Some (p_side l),
               pd_broker_quantity := Some (p_quantity b), pd_local_quantity := Some (p_quantity l)\<rparr>]
      else [])"

definition quantity_diff_pct :: "position \<Rightarrow> position \<Rightarrow> flt" where
  "quantity_diff_pct b l =
     (if 0 < p_quantity b then flt_of_dec (\<bar>p_quantity b - p_quantity l\<bar> / p_quantity b) * flt_int 100
      else if 0 < p_quantity l then flt_int 100 else 0)"

definition quantity_differs :: "psync_config \<Rightarrow> position \<Rightarrow> position \<Rightarrow> bool" where
  "quantity_differs cfg b l \<longleftrightarrow> pc_quantity_tolerance cfg < \<bar>p_quantity b - p_quantity l\<bar>"

definition quantity_difference :: "psync_config \<Rightarrow> skey \<Rightarrow> position \<Rightarrow> position \<Rightarrow> position_difference list" where
  "quantity_difference cfg k b l =
     (if quantity_differs cfg b l
      then [(blank_difference QUANTITY_MISMATCH k
               (if pc_max_quantity_diff_pct cfg < quantity_diff_pct b l then ''critical'' else ''warning''))
              \<lparr>pd_broker_quantity := Some (p_quantity b), pd_local_quantity := Some (p_quantity l),
               pd_broker_avg := p_avg_entry b, pd_local_avg := p_avg_entry l\<rparr>]
      else [])"

definition price_differs :: "psync_config \<Rightarrow> position \<Rightarrow> position \<Rightarrow> bool" where
  "price_differs cfg b l \<longleftrightarrow>
     (case (p_avg_entry b, p_avg_entry l) of
        (Some x, Some y) \<Rightarrow> 0 < x \<and> pc_price_tolerance_pct cfg < \<bar>flt_of_dec ((x - y) / x)\<bar> * flt_int 100
      | _ \<Rightarrow> False)"

definition price_difference :: "psync_config \<Rightarrow> skey \<Rightarrow> position \<Rightarrow> position \<Rightarrow> position_difference list" where
  "price_difference cfg k b l =
     (if price_differs cfg b l
      then [(blank_difference PRICE_MISMATCH k ''warning'')
              \<lparr>pd_broker_avg := p_avg_entry b, pd_local_avg := p_avg_entry l,
               pd_broker_quantity := Some (p_quantity b), pd_local_quantity := Some (p_quantity l)\<rparr>]
      else [])"

fun compare_positions ::
  "psync_config \<Rightarrow> skey \<Rightarrow> position option \<Rightarrow> position option \<Rightarrow> position_difference list" where
  "compare_positions cfg k (Some b) None =
     [(blank_difference MISSING_LOCALLY k ''warning'')
        \<lparr>pd_broker_quantity := Some (p_quantity b), pd_broker_avg := p_avg_entry b, pd_broker_side := Some (p_side b)\<rparr>]"
| "compare_positions cfg k None (Some l) =
     [(blank_difference MISSING_ON_BROKER k ''critical'')
        \<lparr>pd_local_quantity := Some (p_quantity l), pd_local_avg := p_avg_entry l, pd_local_side := Some (p_side l)\<rparr>]"
| "compare_positions cfg k (Some b) (Some l) =
     side_difference k b l @ quantity_difference cfg k b l @ price_difference cfg k b l"
| "compare_positions cfg k None None = []"

definition position_map :: "position list \<Rightarrow> (skey, position) dict" where
  "position_map ps = dict_of (map (\<lambda>p. (symbol_key (p_symbol p), p)) ps)"

subsection \<open>Reconciling\<close>

text \<open>The map of the local positions leads to their places in the caller's list.\<close>

definition local_places :: "position list \<Rightarrow> (skey, nat) dict" where
  "local_places ls = dict_of (map (\<lambda>i. (symbol_key (p_symbol (ls ! i)), i)) [0..<length ls])"

type_synonym 'w rec_state = "(skey, nat) dict \<times> position list \<times> 'w"

definition reconcile_at ::
  "(skey \<times> position, 'w) callback list \<Rightarrow> skey \<Rightarrow> (position \<Rightarrow> position option) \<Rightarrow> 'w rec_state \<Rightarrow>
   nat \<times> 'w rec_state" where
  "reconcile_at cbs k f = (\<lambda>(m, ls, w).
     case dget m k of
       None \<Rightarrow> (0, (m, ls, w))
     | Some i \<Rightarrow>
         (case f (ls ! i) of
            None \<Rightarrow> (0, (m, ls, w))
          | Some p \<Rightarrow> (1, (m, ls[i := p], notify cbs (k, p) w))))"

fun reconcile_single ::
  "(skey \<times> position, 'w) callback list \<Rightarrow> position_difference \<Rightarrow> 'w rec_state \<Rightarrow> nat \<times> 'w rec_state" where
  "reconcile_single cbs d (m, ls, w) =
     (case pd_type d of
        MISSING_LOCALLY \<Rightarrow> (0, (m, ls, w))
      | MISSING_ON_BROKER \<Rightarrow>
          (case dget m (pd_symbol d) of
             None \<Rightarrow> (0, (m, ls, w)) | Some i \<Rightarrow> (1, (ddel m (pd_symbol d), ls, w)))
      | QUANTITY_MISMATCH \<Rightarrow>
          reconcile_at cbs (pd_symbol d)
            (\<lambda>p. map_option (\<lambda>q. p\<lparr>p_quantity := q\<rparr>) (pd_broker_quantity d)) (m, ls, w)
      | PRICE_MISMATCH \<Rightarrow>
          reconcile_at cbs (pd_symbol d)
            (\<lambda>p. map_option (\<lambda>a. p\<lparr>p_avg_entry := Some a\<rparr>) (pd_broker_avg d)) (m, ls, w)
      | SIDE_MISMATCH \<Rightarrow>
          reconcile_at cbs (pd_symbol d)
            (\<lambda>p. map_option (\<lambda>s. p\<lparr>p_side := s\<rparr>) (pd_broker_side d)) (m, ls, w))"

fun reconcile_all ::
  "(skey \<times> position, 'w) callback list \<Rightarrow> position_difference list \<Rightarrow> 'w rec_state \<Rightarrow> nat \<times> 'w rec_state" where
  "reconcile_all cbs [] st = (0, st)"
| "reconcile_all cbs (d # ds) st =
     (case reconcile_single cbs d st of (n, st1) \<Rightarrow>
      case reconcile_all cbs ds st1 of (m, st2) \<Rightarrow> (n + m, st2))"

subsection \<open>The synchronizer\<close>

record 'w synchronizer =
  ps_config :: psync_config
  ps_history :: "psync_result list"
  ps_last_sync :: "time option"
  ps_total_syncs :: nat
  ps_total_reconciled :: nat
  ps_on_difference :: "(position_difference, 'w) callback list"
  ps_on_reconciled :: "(skey \<times> position, 'w) callback list"
  ps_on_complete :: "(psync_result, 'w) callback list"

definition new_synchronizer :: "psync_config option \<Rightarrow> 'w synchronizer" where
  "new_synchronizer cfg =
     \<lparr>ps_config = (case cfg of None \<Rightarrow> default_psync_config | Some c \<Rightarrow> c), ps_history = [], ps_last_sync = None,
      ps_total_syncs = 0, ps_total_reconciled = 0, ps_on_difference = [], ps_on_reconciled = [],
      ps_on_complete = []\<rparr>"

definition add_to_history :: "int \<Rightarrow> psync_result list \<Rightarrow> psync_result \<Rightarrow> psync_result list" where
  "add_to_history n rs r =
     (let rs1 = rs @ [r] in if n < int (length rs1) then tl rs1 else rs1)"

text \<open>
  \<open>sync\<close>. \<open>syms\<close> enumerates the set of all symbols; \<open>t0\<close> to \<open>t3\<close> are the readings of the
  clock at the start, for the result's time stamp, for the time of the last run and at
  the end. The result in the history is the object that gets its duration at the end.
\<close>

definition differences_of ::
  "psync_config \<Rightarrow> position list \<Rightarrow> position list \<Rightarrow> skey \<Rightarrow> position_difference list" where
  "differences_of cfg bs ls k = compare_positions cfg k (dget (position_map bs) k) (dget (position_map ls) k)"

definition ps_sync ::
  "'w synchronizer \<Rightarrow> position list \<Rightarrow> position list \<Rightarrow> skey list \<Rightarrow> time \<Rightarrow> time \<Rightarrow> time \<Rightarrow> time \<Rightarrow> 'w \<Rightarrow>
   psync_result \<times> 'w synchronizer \<times> position list \<times> 'w" where
  "ps_sync s bs ls syms t0 t1 t2 t3 w =
     (let cfg = ps_config s;
          dss = map (differences_of cfg bs ls) syms;
          ds = concat dss;
          (n, m, ls1, w1) =
            (if pc_auto_reconcile cfg \<or> pc_reconcile_on_critical cfg \<and> is_critical ds
             then reconcile_all (ps_on_reconciled s) ds (local_places ls, ls, w)
             else (0, local_places ls, ls, w));
          w2 = fold (notify (ps_on_difference s)) ds w1;
          r = \<lparr>pr_timestamp = t1, pr_broker_count = length bs, pr_local_count = length ls,
               pr_matched = length (filter (\<lambda>d. d = []) dss), pr_differences = ds, pr_reconciled = n,
               pr_errors = [], pr_duration_ms = total_seconds (t3 - t0) * flt_int 1000\<rparr>;
          s1 = s\<lparr>ps_history := add_to_history (pc_max_log_entries cfg) (ps_history s) r,
                 ps_last_sync := Some t2, ps_total_syncs := ps_total_syncs s + 1,
                 ps_total_reconciled := ps_total_reconciled s + n\<rparr>
      in (r, s1, ls1, notify (ps_on_complete s) r w2))"

definition get_sync_history :: "'w synchronizer \<Rightarrow> int option \<Rightarrow> psync_result list" where
  "get_sync_history s limit = (case limit of None \<Rightarrow> ps_history s | Some n \<Rightarrow> slice_last n (ps_history s))"

definition get_latest_result :: "'w synchronizer \<Rightarrow> psync_result option" where
  "get_latest_result s = (if ps_history s = [] then None else Some (last (ps_history s)))"

definition clear_history :: "'w synchronizer \<Rightarrow> 'w synchronizer" where
  "clear_history s = s\<lparr>ps_history := [], ps_total_syncs := 0, ps_total_reconciled := 0\<rparr>"

definition on_difference :: "'w synchronizer \<Rightarrow> (position_difference, 'w) callback \<Rightarrow> 'w synchronizer" where
  "on_difference s h = s\<lparr>ps_on_difference := ps_on_difference s @ [h]\<rparr>"

definition on_reconciled :: "'w synchronizer \<Rightarrow> (skey \<times> position, 'w) callback \<Rightarrow> 'w synchronizer" where
  "on_reconciled s h = s\<lparr>ps_on_reconciled := ps_on_reconciled s @ [h]\<rparr>"

definition on_sync_complete :: "'w synchronizer \<Rightarrow> (psync_result, 'w) callback \<Rightarrow> 'w synchronizer" where
  "on_sync_complete s h = s\<lparr>ps_on_complete := ps_on_complete s @ [h]\<rparr>"

record psync_statistics =
  pst_total_syncs :: nat
  pst_total_reconciled :: nat
  pst_differences_found :: nat
  pst_positions_matched :: nat
  pst_average_duration :: flt
  pst_last_sync :: "time option"
  pst_history_entries :: nat
  pst_auto_reconcile :: bool

definition ps_get_statistics :: "'w synchronizer \<Rightarrow> psync_statistics" where
  "ps_get_statistics s =
     (let h = ps_history s;
          avg = (if h = [] then 0 else flt_sum (map pr_duration_ms h) / flt_int (int (length h)))
      in \<lparr>pst_total_syncs = ps_total_syncs s, pst_total_reconciled = ps_total_reconciled s,
          pst_differences_found = sum_list (map total_differences h),
          pst_positions_matched = sum_list (map pr_matched h),
          pst_average_duration = flt_round 2 avg, pst_last_sync = ps_last_sync s,
          pst_history_entries = length h, pst_auto_reconcile = pc_auto_reconcile (ps_config s)\<rparr>)"

section \<open>What a comparison tells\<close>

definition positions_agree :: "psync_config \<Rightarrow> position \<Rightarrow> position \<Rightarrow> bool" where
  "positions_agree cfg b l \<longleftrightarrow> p_side b = p_side l \<and> \<not> quantity_differs cfg b l \<and> \<not> price_differs cfg b l"

lemma compare_positions_both_Nil: "compare_positions cfg k (Some b) (Some l) = [] \<longleftrightarrow> positions_agree cfg b l"
  by (simp add: side_difference_def quantity_difference_def price_difference_def positions_agree_def)

lemma pd_simps [simp]: "pd_type (blank_difference t k sev) = t" "pd_symbol (blank_difference t k sev) = k"
  by (simp_all add: blank_difference_def)

lemma compare_positions_types:
  "d \<in> set (compare_positions cfg k bo lo) \<Longrightarrow>
   pd_symbol d = k \<and> (pd_type d = MISSING_LOCALLY \<longleftrightarrow> lo = None) \<and> (pd_type d = MISSING_ON_BROKER \<longleftrightarrow> bo = None)"
  by (cases "(cfg, k, bo, lo)" rule: compare_positions.cases)
    (auto simp: side_difference_def quantity_difference_def price_difference_def)

lemma position_map_dget_key: "dget (position_map ps) k = Some p \<Longrightarrow> symbol_key (p_symbol p) = k \<and> p \<in> set ps"
  by (auto simp: position_map_def dget_dict_of simp flip: rev_map dest!: map_of_SomeD)

lemma local_places_dget:
  assumes "dget (local_places ls) k = Some i" shows "i < length ls" "symbol_key (p_symbol (ls ! i)) = k"
  using assms by (auto simp: local_places_def dget_dict_of simp flip: rev_map dest!: map_of_SomeD)

text \<open>The two lookup maps agree: the place of a symbol holds its position.\<close>

lemma position_map_places: "dget (position_map ls) k = map_option (nth ls) (dget (local_places ls) k)"
proof (induction ls rule: rev_induct)
  case Nil
  then show ?case by (simp add: position_map_def local_places_def dict_of_def)
next
  case (snoc p ls)
  have "map (\<lambda>i. (symbol_key (p_symbol ((ls @ [p]) ! i)), i)) [0..<length ls] =
      map (\<lambda>i. (symbol_key (p_symbol (ls ! i)), i)) [0..<length ls]"
    by (intro map_cong) (simp_all add: nth_append)
  then have "local_places (ls @ [p]) = dset (local_places ls) (symbol_key (p_symbol p)) (length ls)"
    by (simp add: local_places_def dict_of_snoc del: map_eq_conv)
  moreover have "position_map (ls @ [p]) = dset (position_map ls) (symbol_key (p_symbol p)) p"
    by (simp add: position_map_def dict_of_snoc)
  moreover have "map_option (nth (ls @ [p])) (dget (local_places ls) k) = map_option (nth ls) (dget (local_places ls) k)"
    using local_places_dget(1) [of ls k] by (cases "dget (local_places ls) k") (auto simp: nth_append)
  ultimately show ?case using snoc.IH by simp
qed

section \<open>What reconciling does\<close>

definition aligned :: "psync_config \<Rightarrow> position \<Rightarrow> position \<Rightarrow> position" where
  "aligned cfg b l =
     l\<lparr>p_side := p_side b,
       p_quantity := (if quantity_differs cfg b l then p_quantity b else p_quantity l),
       p_avg_entry := (if price_differs cfg b l then p_avg_entry b else p_avg_entry l)\<rparr>"

definition align_at :: "psync_config \<Rightarrow> position list \<Rightarrow> (skey, nat) dict \<Rightarrow> skey \<Rightarrow> position list \<Rightarrow> position list" where
  "align_at cfg bs m k ls =
     (case (dget (position_map bs) k, dget m k) of
        (Some b, Some i) \<Rightarrow> ls[i := aligned cfg b (ls ! i)] | _ \<Rightarrow> ls)"

lemma aligned_symbol [simp]: "p_symbol (aligned cfg b l) = p_symbol l"
  by (simp add: aligned_def)

lemma aligned_if_agree: "positions_agree cfg b l \<Longrightarrow> aligned cfg b l = l"
  by (simp add: aligned_def positions_agree_def)

lemma reconcile_all_append:
  "reconcile_all cbs (ds @ es) st =
   (case reconcile_all cbs ds st of (n, st1) \<Rightarrow> case reconcile_all cbs es st1 of (m, st2) \<Rightarrow> (n + m, st2))"
  by (induction ds arbitrary: st) (auto split: prod.splits)

lemma reconcile_at_found:
  "dget m k = Some i \<Longrightarrow> f (ls ! i) = Some p \<Longrightarrow>
   reconcile_at cbs k f (m, ls, w) = (1, (m, ls[i := p], notify cbs (k, p) w))"
  by (simp add: reconcile_at_def)

lemma reconcile_side:
  assumes "dget m k = Some i" "i < length ls"
  shows "\<exists>w1. reconcile_all cbs (side_difference k b l) (m, ls, w) =
    (length (side_difference k b l), (m, if side_difference k b l = [] then ls else ls[i := (ls ! i)\<lparr>p_side := p_side b\<rparr>], w1))"
  using assms by (simp add: side_difference_def reconcile_at_found)

lemma reconcile_quantity:
  assumes "dget m k = Some i" "i < length ls"
  shows "\<exists>w1. reconcile_all cbs (quantity_difference cfg k b l) (m, ls, w) =
    (length (quantity_difference cfg k b l),
     (m, if quantity_differs cfg b l then ls[i := (ls ! i)\<lparr>p_quantity := p_quantity b\<rparr>] else ls, w1))"
  using assms by (simp add: quantity_difference_def reconcile_at_found)

lemma reconcile_price:
  assumes "dget m k = Some i" "i < length ls"
  shows "\<exists>w1. reconcile_all cbs (price_difference cfg k b l) (m, ls, w) =
    (length (price_difference cfg k b l),
     (m, if price_differs cfg b l then ls[i := (ls ! i)\<lparr>p_avg_entry := p_avg_entry b\<rparr>] else ls, w1))"
proof (cases "price_differs cfg b l")
  case True
  then obtain a where "p_avg_entry b = Some a" by (auto simp: price_differs_def split: option.splits)
  with True assms show ?thesis by (simp add: price_difference_def reconcile_at_found)
qed (simp add: price_difference_def)

text \<open>The differences of one symbol turn its local position into the aligned one.\<close>

lemma reconcile_symbol:
  assumes "dget m k = Some i" "i < length ls"
  shows "\<exists>w1. reconcile_all cbs (compare_positions cfg k (Some b) (Some (ls ! i))) (m, ls, w) =
    (length (compare_positions cfg k (Some b) (Some (ls ! i))), (m, ls[i := aligned cfg b (ls ! i)], w1))"
proof -
  let ?l = "ls ! i"
  define l1 where "l1 = (if side_difference k b ?l = [] then ls else ls[i := ?l\<lparr>p_side := p_side b\<rparr>])"
  define l2 where "l2 = (if quantity_differs cfg b ?l then l1[i := (l1 ! i)\<lparr>p_quantity := p_quantity b\<rparr>] else l1)"
  define l3 where "l3 = (if price_differs cfg b ?l then l2[i := (l2 ! i)\<lparr>p_avg_entry := p_avg_entry b\<rparr>] else l2)"
  have n: "i < length l1" "i < length l2" using assms(2) by (simp_all add: l1_def l2_def)
  have 1: "l1 = ls[i := ?l\<lparr>p_side := p_side b\<rparr>]" using assms(2) by (auto simp: l1_def side_difference_def)
  have 2: "l2 = ls[i := ?l\<lparr>p_side := p_side b, p_quantity := if quantity_differs cfg b ?l then p_quantity b else p_quantity ?l\<rparr>]"
    using assms(2) by (simp add: l2_def 1)
  have 3: "l3 = ls[i := aligned cfg b ?l]" using assms(2) by (simp add: l3_def 2 aligned_def)
  obtain w1 where s: "reconcile_all cbs (side_difference k b ?l) (m, ls, w) = (length (side_difference k b ?l), (m, l1, w1))"
    using reconcile_side [OF assms, of cbs b ?l w] unfolding l1_def by blast
  obtain w2 where q: "reconcile_all cbs (quantity_difference cfg k b ?l) (m, l1, w1) = (length (quantity_difference cfg k b ?l), (m, l2, w2))"
    using reconcile_quantity [OF assms(1) n(1), of cbs cfg b ?l w1] unfolding l2_def by blast
  obtain w3 where "reconcile_all cbs (price_difference cfg k b ?l) (m, l2, w2) = (length (price_difference cfg k b ?l), (m, l3, w3))"
    using reconcile_price [OF assms(1) n(2), of cbs cfg b ?l w2] unfolding l3_def by blast
  with s q show ?thesis by (simp add: reconcile_all_append 3)
qed

text \<open>How many differences a reconciliation counts: all but those missing locally.\<close>

definition fixable :: "position_difference list \<Rightarrow> nat" where
  "fixable ds = length (filter (\<lambda>d. pd_type d \<noteq> MISSING_LOCALLY) ds)"

lemma fixable_simps [simp]: "fixable [] = 0" "fixable (ds @ es) = fixable ds + fixable es"
  by (simp_all add: fixable_def)

lemma fixable_both: "fixable (compare_positions cfg k (Some b) (Some l)) = length (compare_positions cfg k (Some b) (Some l))"
proof -
  have "\<forall>d \<in> set (compare_positions cfg k (Some b) (Some l)). pd_type d \<noteq> MISSING_LOCALLY"
  proof
    fix d assume "d \<in> set (compare_positions cfg k (Some b) (Some l))"
    from compare_positions_types [OF this] show "pd_type d \<noteq> MISSING_LOCALLY" by (simp only: option.distinct simp_thms)
  qed
  then show ?thesis unfolding fixable_def by (simp only: filter_True)
qed

definition unchanged_at :: "skey list \<Rightarrow> position list \<Rightarrow> (skey, nat) dict \<Rightarrow> position list \<Rightarrow> bool" where
  "unchanged_at syms ls0 m ls \<longleftrightarrow>
     (\<forall>k \<in> set syms. dget m k = dget (local_places ls0) k \<and> (\<forall>i. dget m k = Some i \<longrightarrow> ls ! i = ls0 ! i)) \<and>
     length ls = length ls0"

lemma reconcile_symbols:
  assumes "distinct syms" "unchanged_at syms ls0 m ls"
  shows "\<exists>m1 w1. reconcile_all cbs (concat (map (differences_of cfg bs ls0) syms)) (m, ls, w) =
    (fixable (concat (map (differences_of cfg bs ls0) syms)), (m1, fold (align_at cfg bs (local_places ls0)) syms ls, w1))"
  using assms
proof (induction syms arbitrary: m ls w)
  case Nil
  then show ?case by simp
next
  case (Cons k syms)
  let ?ds = "differences_of cfg bs ls0 k" and ?es = "concat (map (differences_of cfg bs ls0) syms)"
  let ?bo = "dget (position_map bs) k" and ?io = "dget (local_places ls0) k"
  have d: "?ds = compare_positions cfg k ?bo (map_option (nth ls0) ?io)" by (simp add: differences_of_def position_map_places)
  from Cons.prems(2) have mk: "dget m k = ?io" and len: "length ls = length ls0" by (simp_all add: unchanged_at_def)
  have "\<exists>m1 w1. reconcile_all cbs ?ds (m, ls, w) = (fixable ?ds, (m1, align_at cfg bs (local_places ls0) k ls, w1)) \<and>
      unchanged_at syms ls0 m1 (align_at cfg bs (local_places ls0) k ls)"
  proof (cases ?io)
    case None
    then have "reconcile_all cbs ?ds (m, ls, w) = (fixable ?ds, (m, ls, w))"
      by (cases ?bo) (simp_all add: d fixable_def)
    moreover have "align_at cfg bs (local_places ls0) k ls = ls" by (simp add: align_at_def None split: option.split)
    ultimately show ?thesis using Cons.prems(2) by (auto simp: unchanged_at_def)
  next
    case (Some i)
    then have i: "i < length ls" "ls ! i = ls0 ! i"
      using local_places_dget(1) [OF Some] Cons.prems(2) mk len by (simp_all add: unchanged_at_def)
    show ?thesis
    proof (cases ?bo)
      case None
      then have "reconcile_all cbs ?ds (m, ls, w) = (fixable ?ds, (ddel m k, ls, w))"
        using Some mk by (simp add: d fixable_def)
      moreover have "align_at cfg bs (local_places ls0) k ls = ls" by (simp add: align_at_def None)
      moreover have "unchanged_at syms ls0 (ddel m k) ls"
        using Cons.prems by (auto simp: unchanged_at_def)
      ultimately show ?thesis by auto
    next
      fix b assume b: "?bo = Some b"
      have ds: "?ds = compare_positions cfg k (Some b) (Some (ls ! i))" using Some b i by (simp add: d)
      have a: "align_at cfg bs (local_places ls0) k ls = ls[i := aligned cfg b (ls ! i)]"
        using Some b by (simp add: align_at_def)
      have ne: "j \<noteq> i" if "k' \<in> set syms" "dget (local_places ls0) k' = Some j" for k' j
        using that local_places_dget(2) [OF that(2)] local_places_dget(2) [OF Some] Cons.prems(1) by auto
      have "ls[i := aligned cfg b (ls ! i)] ! j = ls0 ! j" if "k' \<in> set syms" "dget m k' = Some j" for k' j
      proof -
        have "dget (local_places ls0) k' = Some j" "ls ! j = ls0 ! j"
          using Cons.prems(2) that by (simp_all add: unchanged_at_def)
        with ne [OF that(1)] show ?thesis by (metis nth_list_update_neq)
      qed
      then have "unchanged_at syms ls0 m (ls[i := aligned cfg b (ls ! i)])"
        using Cons.prems(2) by (simp add: unchanged_at_def)
      with reconcile_symbol [OF mk [unfolded Some] i(1), of cbs cfg b w] show ?thesis
        unfolding a ds by (metis fixable_both)
    qed
  qed
  then obtain m1 w1 where r: "reconcile_all cbs ?ds (m, ls, w) = (fixable ?ds, (m1, align_at cfg bs (local_places ls0) k ls, w1))"
    "unchanged_at syms ls0 m1 (align_at cfg bs (local_places ls0) k ls)" by blast
  from Cons.IH [OF _ r(2), of w1] Cons.prems(1) r(1) show ?case by (auto simp: reconcile_all_append)
qed

text \<open>The local positions after all symbols are aligned.\<close>

lemma fold_align_nth:
  assumes "distinct syms" "i < length ls" "length ls = length ls0" "\<forall>j < length ls. p_symbol (ls ! j) = p_symbol (ls0 ! j)"
  shows "length (fold (align_at cfg bs (local_places ls0)) syms ls) = length ls \<and>
    fold (align_at cfg bs (local_places ls0)) syms ls ! i =
    (let k = symbol_key (p_symbol (ls0 ! i)) in
     if k \<in> set syms \<and> dget (local_places ls0) k = Some i
     then (case dget (position_map bs) k of None \<Rightarrow> ls ! i | Some b \<Rightarrow> aligned cfg b (ls ! i)) else ls ! i)"
  using assms
proof (induction syms arbitrary: ls)
  case Nil
  then show ?case by simp
next
  case (Cons k syms)
  let ?a = "align_at cfg bs (local_places ls0) k ls"
  have l: "length ?a = length ls" by (simp add: align_at_def split: option.split)
  have at: "?a ! j = (if dget (local_places ls0) k = Some j then (case dget (position_map bs) k of None \<Rightarrow> ls ! j
      | Some b \<Rightarrow> aligned cfg b (ls ! j)) else ls ! j)" if "j < length ls" for j
    using that by (auto simp: align_at_def split: option.split)
  then have "\<forall>j < length ?a. p_symbol (?a ! j) = p_symbol (ls0 ! j)"
    using Cons.prems(4) l by (auto split: option.split)
  from Cons.IH [OF _ _ _ this] Cons.prems l have ih: "length (fold (align_at cfg bs (local_places ls0)) syms ?a) = length ls"
    "fold (align_at cfg bs (local_places ls0)) syms ?a ! i =
      (let k = symbol_key (p_symbol (ls0 ! i)) in
       if k \<in> set syms \<and> dget (local_places ls0) k = Some i
       then (case dget (position_map bs) k of None \<Rightarrow> ?a ! i | Some b \<Rightarrow> aligned cfg b (?a ! i)) else ?a ! i)"
    by simp_all
  have k: "k = symbol_key (p_symbol (ls0 ! i))" if "dget (local_places ls0) k = Some i"
    using local_places_dget(2) [OF that] by simp
  show ?case using ih at [OF Cons.prems(2)] k Cons.prems(1) by (auto simp: Let_def split: option.split)
qed

section \<open>Properties\<close>

definition symbol_keys :: "position list \<Rightarrow> skey set" where
  "symbol_keys ps = set (map (\<lambda>p. symbol_key (p_symbol p)) ps)"

definition enumerates :: "skey list \<Rightarrow> position list \<Rightarrow> position list \<Rightarrow> bool" where
  "enumerates syms bs ls \<longleftrightarrow> distinct syms \<and> set syms = symbol_keys bs \<union> symbol_keys ls"

lemma position_map_None: "dget (position_map ps) k = None \<longleftrightarrow> k \<notin> symbol_keys ps"
  by (auto simp: position_map_def dget_dict_of map_of_eq_None_iff symbol_keys_def image_image simp flip: rev_map)

lemma ps_sync_result:
  assumes "ps_sync s bs ls syms t0 t1 t2 t3 w = (r, s1, ls1, w1)"
  shows "pr_differences r = concat (map (differences_of (ps_config s) bs ls) syms)"
    "pr_matched r = length (filter (\<lambda>k. differences_of (ps_config s) bs ls k = []) syms)"
    "ps_config s1 = ps_config s" "ps_total_syncs s1 = ps_total_syncs s + 1"
    "ps_history s1 = add_to_history (pc_max_log_entries (ps_config s)) (ps_history s) r"
  using assms by (auto simp: ps_sync_def Let_def filter_map o_def split: prod.splits)

lemma ps_sync_reconciled:
  assumes "ps_sync s bs ls syms t0 t1 t2 t3 w = (r, s1, ls1, w1)" "pc_auto_reconcile (ps_config s)" "distinct syms"
  shows "ls1 = fold (align_at (ps_config s) bs (local_places ls)) syms ls"
    "pr_reconciled r = fixable (concat (map (differences_of (ps_config s) bs ls) syms))"
    "ps_total_reconciled s1 = ps_total_reconciled s + pr_reconciled r"
proof -
  have u: "unchanged_at syms ls (local_places ls) ls" by (simp add: unchanged_at_def)
  from reconcile_symbols [OF assms(3) u, of "ps_on_reconciled s" "ps_config s" bs w] assms(1,2)
  show "ls1 = fold (align_at (ps_config s) bs (local_places ls)) syms ls"
    "pr_reconciled r = fixable (concat (map (differences_of (ps_config s) bs ls) syms))"
    "ps_total_reconciled s1 = ps_total_reconciled s + pr_reconciled r"
    by (auto simp: ps_sync_def Let_def split: prod.splits)
qed

lemma length_filter_card: "distinct ks \<Longrightarrow> length (filter P ks) = card {k \<in> set ks. P k}"
  by (metis distinct_card distinct_filter set_filter)

lemma count_one:
  assumes "distinct ks" "\<And>k. length (filter P (f k)) = (if Q k then 1 else 0)"
  shows "length (filter P (concat (map f ks))) = card {k \<in> set ks. Q k}"
proof -
  have "length (filter P (concat (map f ks))) = length (filter Q ks)"
    by (induction ks) (simp_all add: assms(2))
  also have "\<dots> = card {k \<in> set ks. Q k}" by (rule length_filter_card [OF assms(1)])
  finally show ?thesis .
qed

lemma compare_counts:
  "length (filter (\<lambda>d. pd_type d = MISSING_LOCALLY) (compare_positions cfg k bo lo)) = (if bo \<noteq> None \<and> lo = None then 1 else 0)"
  "length (filter (\<lambda>d. pd_type d = MISSING_ON_BROKER) (compare_positions cfg k bo lo)) = (if lo \<noteq> None \<and> bo = None then 1 else 0)"
  by (cases "(cfg, k, bo, lo)" rule: compare_positions.cases;
      simp add: side_difference_def quantity_difference_def price_difference_def)+

text \<open>A run over any enumeration of the symbols reports exactly the symbols that only one side
  knows, and counts as matched exactly those both know with equal side and with quantity and
  average price within the tolerances.\<close>

theorem sync_reports_exactly:
  assumes "ps_sync s bs ls syms t0 t1 t2 t3 w = (r, s1, ls1, w1)" "enumerates syms bs ls"
  shows "missing_locally r = card (symbol_keys bs - symbol_keys ls) \<and>
    missing_on_broker r = card (symbol_keys ls - symbol_keys bs) \<and>
    pr_matched r = card {k \<in> symbol_keys bs \<inter> symbol_keys ls.
      positions_agree (ps_config s) (the (dget (position_map bs) k)) (the (dget (position_map ls) k))}"
proof -
  let ?f = "differences_of (ps_config s) bs ls"
  from assms(2) have d: "distinct syms" and u: "set syms = symbol_keys bs \<union> symbol_keys ls" by (simp_all add: enumerates_def)
  note r = ps_sync_result [OF assms(1)]
  have "missing_locally r = card {k \<in> set syms. k \<in> symbol_keys bs \<and> k \<notin> symbol_keys ls}"
    unfolding missing_locally_def count_type_def r
    by (rule count_one [OF d]) (simp add: differences_of_def compare_counts position_map_None)
  moreover have "{k \<in> set syms. k \<in> symbol_keys bs \<and> k \<notin> symbol_keys ls} = symbol_keys bs - symbol_keys ls"
    using u by blast
  moreover have "missing_on_broker r = card {k \<in> set syms. k \<in> symbol_keys ls \<and> k \<notin> symbol_keys bs}"
    unfolding missing_on_broker_def count_type_def r
    by (rule count_one [OF d]) (simp add: differences_of_def compare_counts position_map_None)
  moreover have "{k \<in> set syms. k \<in> symbol_keys ls \<and> k \<notin> symbol_keys bs} = symbol_keys ls - symbol_keys bs"
    using u by blast
  moreover have "pr_matched r = card {k \<in> set syms. ?f k = []}"
    unfolding r(2) by (rule length_filter_card [OF d])
  moreover have "?f k = [] \<longleftrightarrow> k \<in> symbol_keys bs \<inter> symbol_keys ls \<and>
      positions_agree (ps_config s) (the (dget (position_map bs) k)) (the (dget (position_map ls) k))" if "k \<in> set syms" for k
    using that u position_map_None [of bs k] position_map_None [of ls k] compare_positions_both_Nil
    by (cases "dget (position_map bs) k"; cases "dget (position_map ls) k")
      (auto simp: differences_of_def simp del: compare_positions.simps(3))
  then have "{k \<in> set syms. ?f k = []} = {k \<in> symbol_keys bs \<inter> symbol_keys ls.
      positions_agree (ps_config s) (the (dget (position_map bs) k)) (the (dget (position_map ls) k))}"
    using u by auto
  ultimately show ?thesis by simp
qed

definition sample_position :: "order_side \<Rightarrow> rat \<Rightarrow> position" where
  "sample_position side q = (new_position sample_symbol side)\<lparr>p_quantity := Dec q, p_avg_entry := Some (Dec 10)\<rparr>"

theorem sync_reports_exactly_witness:
  "missing_on_broker (fst (ps_sync (new_synchronizer None) [] [sample_position BUY 5] [symbol_key sample_symbol] 0 0 0 0 ())) = 1"
proof -
  let ?bs = "[] :: position list" and ?ls = "[sample_position BUY 5]" and ?k = "symbol_key sample_symbol"
  obtain r s1 ls1 w1 where r: "ps_sync (new_synchronizer None) ?bs ?ls [?k] 0 0 0 0 () = (r, s1, ls1, w1)"
    by (metis surj_pair)
  have k: "symbol_keys ?ls = {?k}" "symbol_keys ?bs = {}"
    by (simp_all add: symbol_keys_def sample_position_def new_position_def)
  then have "missing_on_broker r = 1" using sync_reports_exactly [OF r] by (simp add: enumerates_def)
  then show ?thesis unfolding r by simp
qed

text \<open>C15. Automatic reconciliation gives each local position that the broker knows (the last one of
  its symbol) the broker's side, and the broker's quantity and price where they differ by more
  than the tolerance; every other local position is left as it is. The caller's list keeps
  its length: a position the broker does not have is counted as reconciled but stays.\<close>

theorem reconciliation_exact:
  assumes "ps_sync s bs ls syms t0 t1 t2 t3 w = (r, s1, ls1, w1)" "pc_auto_reconcile (ps_config s)" "enumerates syms bs ls"
  shows "length ls1 = length ls \<and>
    (\<forall>i < length ls. ls1 ! i =
       (case (dget (position_map bs) (symbol_key (p_symbol (ls ! i))),
              dget (local_places ls) (symbol_key (p_symbol (ls ! i))) = Some i) of
          (Some b, True) \<Rightarrow> aligned (ps_config s) b (ls ! i) | _ \<Rightarrow> ls ! i)) \<and>
    pr_reconciled r + missing_locally r = total_differences r"
proof -
  let ?ks = "local_places ls"
  from assms(3) have d: "distinct syms" and u: "set syms = symbol_keys bs \<union> symbol_keys ls" by (simp_all add: enumerates_def)
  note r = ps_sync_reconciled [OF assms(1,2) d] and rr = ps_sync_result(1) [OF assms(1)]
  have n: "ls1 ! i = (case (dget (position_map bs) (symbol_key (p_symbol (ls ! i))),
      dget ?ks (symbol_key (p_symbol (ls ! i))) = Some i) of
      (Some b, True) \<Rightarrow> aligned (ps_config s) b (ls ! i) | _ \<Rightarrow> ls ! i) \<and> length ls1 = length ls" if "i < length ls" for i
    using fold_align_nth [OF d that refl, of "ps_config s" bs] that u unfolding r(1)
    by (auto simp: Let_def symbol_keys_def split: option.split bool.split)
  moreover have "length (fold (align_at cfg bs m) ks js) = length js" for cfg m ks js
    by (induction ks arbitrary: js) (auto simp: align_at_def split: option.split)
  then have "length ls1 = length ls" unfolding r(1) .
  moreover have "fixable ds + length (filter (\<lambda>d. pd_type d = MISSING_LOCALLY) ds) = length ds" for ds
    unfolding fixable_def by (metis (no_types, lifting) add.commute filter_cong sum_length_filter_compl)
  ultimately show ?thesis unfolding r(2) missing_locally_def count_type_def total_differences_def rr by blast
qed

lemma aligned_agrees:
  assumes "0 \<le> pc_quantity_tolerance cfg" "0 \<le> pc_price_tolerance_pct cfg"
  shows "positions_agree cfg b (aligned cfg b l)"
proof -
  have "\<not> quantity_differs cfg b (aligned cfg b l)"
    using assms(1) by (auto simp: quantity_differs_def aligned_def dec_less_iff dec_le_iff)
  moreover have "\<not> price_differs cfg b (aligned cfg b l)"
  proof (cases "price_differs cfg b l")
    case True
    then show ?thesis using assms(2)
      by (auto simp: price_differs_def aligned_def flt_less_iff flt_le_iff abs_flt_def split: option.splits)
  next
    case False
    then have "p_avg_entry (aligned cfg b l) = p_avg_entry l" by (simp add: aligned_def)
    with False show ?thesis by (simp add: price_differs_def)
  qed
  ultimately show ?thesis by (simp add: positions_agree_def aligned_def)
qed

lemma local_places_cong:
  assumes "length ls1 = length ls" "\<forall>i < length ls. p_symbol (ls1 ! i) = p_symbol (ls ! i)"
  shows "local_places ls1 = local_places ls"
proof -
  have "map (\<lambda>i. (symbol_key (p_symbol (ls1 ! i)), i)) [0..<length ls] = map (\<lambda>i. (symbol_key (p_symbol (ls ! i)), i)) [0..<length ls]"
    using assms(2) by (intro map_cong) simp_all
  then show ?thesis by (simp add: local_places_def assms(1) del: map_eq_conv)
qed

text \<open>Reconciling once is enough: against the same broker positions the next run finds no
  difference in side, quantity or price any more, but every position that the broker does not
  have is reported again, since removing it from the lookup map does not remove it.\<close>

theorem second_sync_settled:
  assumes "ps_sync s bs ls syms t0 t1 t2 t3 w = (r, s1, ls1, w1)" "pc_auto_reconcile (ps_config s)" "enumerates syms bs ls"
    "0 \<le> pc_quantity_tolerance (ps_config s)" "0 \<le> pc_price_tolerance_pct (ps_config s)"
    "ps_sync s1 bs ls1 syms u0 u1 u2 u3 w1 = (r2, s2, ls2, w2)"
  shows "total_differences r2 = missing_locally r2 + missing_on_broker r2 \<and>
    missing_on_broker r2 = missing_on_broker r \<and> missing_locally r2 = missing_locally r"
proof -
  let ?cfg = "ps_config s"
  have d: "distinct syms" using assms(3) by (simp add: enumerates_def)
  note e = reconciliation_exact [OF assms(1-3)]
  have len: "length ls1 = length ls" using e by blast
  have at: "ls1 ! i = (case (dget (position_map bs) (symbol_key (p_symbol (ls ! i))),
      dget (local_places ls) (symbol_key (p_symbol (ls ! i))) = Some i) of
      (Some b, True) \<Rightarrow> aligned ?cfg b (ls ! i) | _ \<Rightarrow> ls ! i)" if "i < length ls" for i using e that by blast
  then have sy: "\<forall>i < length ls. p_symbol (ls1 ! i) = p_symbol (ls ! i)" by (auto split: option.split bool.split)
  have pl: "local_places ls1 = local_places ls" by (rule local_places_cong [OF len sy])
  have known: "dget (position_map ls1) k = None \<longleftrightarrow> dget (position_map ls) k = None" for k
    by (simp add: position_map_places pl)
  have agree: "positions_agree ?cfg b l" if "dget (position_map bs) k = Some b" "dget (position_map ls1) k = Some l" for k b l
  proof -
    from that(2) obtain i where i: "dget (local_places ls) k = Some i" "l = ls1 ! i" by (auto simp: position_map_places pl)
    have "l = aligned ?cfg b (ls ! i)" using at [OF local_places_dget(1) [OF i(1)]] local_places_dget(2) [OF i(1)] i that(1) by simp
    then show ?thesis using aligned_agrees [OF assms(4,5)] by simp
  qed
  note r2 = ps_sync_result [OF assms(6)] and r1 = ps_sync_result [OF assms(1)]
  have cfg: "ps_config s1 = ?cfg" using r1(3) .
  have one: "differences_of ?cfg bs ls1 k =
      (case (dget (position_map bs) k, dget (position_map ls1) k) of (Some b, Some l) \<Rightarrow> []
       | _ \<Rightarrow> compare_positions ?cfg k (dget (position_map bs) k) (dget (position_map ls1) k))" for k
    using agree compare_positions_both_Nil
    by (auto simp: differences_of_def simp del: compare_positions.simps(3) split: option.split)
  have "\<forall>x \<in> set (pr_differences r2). pd_type x = MISSING_LOCALLY \<or> pd_type x = MISSING_ON_BROKER"
  proof
    fix x assume "x \<in> set (pr_differences r2)"
    then obtain k where k: "x \<in> set (differences_of ?cfg bs ls1 k)" unfolding r2(1) cfg by auto
    show "pd_type x = MISSING_LOCALLY \<or> pd_type x = MISSING_ON_BROKER"
    proof (cases "dget (position_map bs) k = None \<or> dget (position_map ls1) k = None")
      case True
      with compare_positions_types k show ?thesis unfolding differences_of_def by blast
    next
      case False
      then obtain b l where "dget (position_map bs) k = Some b" "dget (position_map ls1) k = Some l" by auto
      with k show ?thesis unfolding one by simp
    qed
  qed
  moreover have "\<forall>x \<in> set ds. pd_type x = MISSING_LOCALLY \<or> pd_type x = MISSING_ON_BROKER \<Longrightarrow>
      length (filter (\<lambda>x. pd_type x = MISSING_LOCALLY) ds) + length (filter (\<lambda>x. pd_type x = MISSING_ON_BROKER) ds) = length ds" for ds
    by (induction ds) auto
  ultimately have "length (filter (\<lambda>x. pd_type x = MISSING_LOCALLY) (pr_differences r2)) +
      length (filter (\<lambda>x. pd_type x = MISSING_ON_BROKER) (pr_differences r2)) = length (pr_differences r2)" by blast
  moreover have "length (filter (\<lambda>x. pd_type x = t) (differences_of ?cfg bs ls1 k)) =
      length (filter (\<lambda>x. pd_type x = t) (differences_of ?cfg bs ls k))" if "t \<in> {MISSING_LOCALLY, MISSING_ON_BROKER}" for t k
    using that known [of k] by (auto simp: differences_of_def compare_counts)
  then have "count_type t r2 = count_type t r" if "t \<in> {MISSING_LOCALLY, MISSING_ON_BROKER}" for t
    using that unfolding count_type_def r2(1) r1(1) cfg by (induction syms) auto
  ultimately show ?thesis by (simp add: total_differences_def missing_locally_def missing_on_broker_def count_type_def)
qed

theorem second_sync_settled_witness:
  "missing_on_broker (fst (ps_sync (new_synchronizer (Some (default_psync_config\<lparr>pc_auto_reconcile := True\<rparr>)))
     [] [sample_position BUY 5] [symbol_key sample_symbol] 0 0 0 0 ())) =
   missing_on_broker (fst (case ps_sync (new_synchronizer (Some (default_psync_config\<lparr>pc_auto_reconcile := True\<rparr>)))
     [] [sample_position BUY 5] [symbol_key sample_symbol] 0 0 0 0 () of
     (r, s1, ls1, w1) \<Rightarrow> ps_sync s1 [] ls1 [symbol_key sample_symbol] 1 1 1 1 w1))"
proof -
  let ?s = "new_synchronizer (Some (default_psync_config\<lparr>pc_auto_reconcile := True\<rparr>)) :: unit synchronizer"
  let ?ls = "[sample_position BUY 5]" and ?k = "symbol_key sample_symbol"
  obtain r s1 ls1 w1 where r: "ps_sync ?s [] ?ls [?k] 0 0 0 0 () = (r, s1, ls1, w1)" by (metis surj_pair)
  obtain r2 s2 ls2 w2 where r2: "ps_sync s1 [] ls1 [?k] 1 1 1 1 w1 = (r2, s2, ls2, w2)" by (metis surj_pair)
  have "enumerates [?k] [] ?ls" by (simp add: enumerates_def symbol_keys_def sample_position_def new_position_def)
  moreover have "pc_auto_reconcile (ps_config ?s)" "0 \<le> pc_quantity_tolerance (ps_config ?s)" "0 \<le> pc_price_tolerance_pct (ps_config ?s)"
    by (simp_all add: new_synchronizer_def default_psync_config_def dec_le_iff flt_le_iff fr.r_nonneg)
  ultimately have "missing_on_broker r2 = missing_on_broker r"
    using second_sync_settled [OF r _ _ _ _ r2] by blast
  then show ?thesis unfolding r prod.case r2 fst_conv by (rule sym)
qed

theorem reconciliation_exact_witness:
  "p_quantity (fst (snd (snd (ps_sync (new_synchronizer (Some (default_psync_config\<lparr>pc_auto_reconcile := True\<rparr>)))
     [sample_position BUY 7] [sample_position BUY 5] [symbol_key sample_symbol] 0 0 0 0 ()))) ! 0) = Dec 7"
proof -
  let ?s = "new_synchronizer (Some (default_psync_config\<lparr>pc_auto_reconcile := True\<rparr>)) :: unit synchronizer"
  let ?b = "sample_position BUY 7" and ?l = "sample_position BUY 5" and ?k = "symbol_key sample_symbol"
  obtain r s1 ls1 w1 where r: "ps_sync ?s [?b] [?l] [?k] 0 0 0 0 () = (r, s1, ls1, w1)" by (metis surj_pair)
  have k: "symbol_key (p_symbol ?b) = ?k" "symbol_key (p_symbol ?l) = ?k" by (simp_all add: sample_position_def new_position_def)
  then have e: "enumerates [?k] [?b] [?l]" by (simp add: enumerates_def symbol_keys_def)
  have "pc_auto_reconcile (ps_config ?s)" by (simp add: new_synchronizer_def)
  from reconciliation_exact [OF r this e] k have "ls1 ! 0 = aligned (ps_config ?s) ?b ?l"
    by (simp add: position_map_def local_places_def dict_of_def)
  moreover have "quantity_differs (ps_config ?s) ?b ?l"
  proof -
    have "dec_rnd 7 = 7" "dec_rnd 5 = 5" "dec_rnd 2 = 2"
      using grid_exact [of 0] on_grid_of_int [of 0 7] on_grid_of_int [of 0 5] on_grid_of_int [of 0 2] by simp_all
    then show ?thesis
      by (simp add: quantity_differs_def sample_position_def new_position_def new_synchronizer_def default_psync_config_def dec_less_iff)
  qed
  ultimately show ?thesis unfolding r by (simp add: aligned_def sample_position_def)
qed

text \<open>Runs, each from the positions of the moment.\<close>

fun ps_runs ::
  "'w synchronizer \<Rightarrow> (position list \<times> position list \<times> skey list \<times> time \<times> time \<times> time \<times> time) list \<Rightarrow> 'w \<Rightarrow>
   psync_result list \<times> 'w synchronizer \<times> 'w" where
  "ps_runs s [] w = ([], s, w)"
| "ps_runs s ((bs, ls, syms, t0, t1, t2, t3) # xs) w =
     (case ps_sync s bs ls syms t0 t1 t2 t3 w of (r, s1, _, w1) \<Rightarrow>
      case ps_runs s1 xs w1 of (rs, s2, w2) \<Rightarrow> (r # rs, s2, w2))"

lemma add_to_history_fold:
  "0 \<le> n \<Longrightarrow> foldl (add_to_history n) [] rs = drop (length rs - nat n) rs"
proof (induction rs rule: rev_induct)
  case (snoc r rs)
  then have ih: "foldl (add_to_history n) [] rs = drop (length rs - nat n) rs" by simp
  have a: "add_to_history n hs r = (if nat n < Suc (length hs) then tl (hs @ [r]) else hs @ [r])" for hs
    using snoc.prems by (auto simp: add_to_history_def Let_def)
  show ?case
  proof (cases "length rs < nat n")
    case True
    then show ?thesis by (simp add: ih a)
  next
    case False
    then have "tl (drop (length rs - nat n) (rs @ [r])) = drop (Suc (length rs) - nat n) (rs @ [r])"
      by (simp add: tl_drop drop_Suc [symmetric] Suc_diff_le del: drop_append)
    with False show ?thesis by (simp add: ih a)
  qed
qed simp

lemma ps_runs_history:
  "ps_runs s xs w = (rs, s1, w1) \<Longrightarrow>
   ps_history s1 = foldl (add_to_history (pc_max_log_entries (ps_config s))) (ps_history s) rs \<and>
   ps_total_syncs s1 = ps_total_syncs s + length rs"
proof (induction s xs w arbitrary: rs s1 w1 rule: ps_runs.induct)
  case (2 s bs ls syms t0 t1 t2 t3 xs w)
  obtain r s2 ls2 w2 where r: "ps_sync s bs ls syms t0 t1 t2 t3 w = (r, s2, ls2, w2)" by (metis surj_pair)
  obtain rs' s3 w3 where rs: "ps_runs s2 xs w2 = (rs', s3, w3)" by (metis surj_pair)
  from "2.prems" r rs have e: "rs = r # rs'" "s1 = s3" by simp_all
  from "2.IH" [OF r [symmetric] refl refl rs] ps_sync_result(3-5) [OF r] show ?case by (simp add: e)
qed simp

text \<open>The history holds the last results up to its limit, in order, whatever the positions of each
  run; the number of runs counts all of them.\<close>

theorem history_keeps_last:
  assumes "ps_runs (new_synchronizer (Some cfg)) xs w = (rs, s1, w1)" "0 \<le> pc_max_log_entries cfg"
  shows "ps_history s1 = drop (length rs - nat (pc_max_log_entries cfg)) rs \<and> ps_total_syncs s1 = length rs"
  using ps_runs_history [OF assms(1)] add_to_history_fold [OF assms(2)] by (simp add: new_synchronizer_def)

theorem history_keeps_last_witness:
  "ps_total_syncs (fst (snd (ps_runs (new_synchronizer (Some default_psync_config)) [([], [], [], 0, 0, 0, 0)] ()))) = 1"
proof -
  obtain rs s1 w1 where r: "ps_runs (new_synchronizer (Some default_psync_config)) [([], [], [], 0, 0, 0, 0)] () = (rs, s1, w1)"
    by (metis surj_pair)
  moreover have "length rs = 1" using r by (auto split: prod.splits)
  moreover have "0 \<le> pc_max_log_entries default_psync_config" by (simp add: default_psync_config_def)
  ultimately show ?thesis using history_keeps_last by fastforce
qed

end
