(* ===== verification/Plugin_Loader.thy ===== *)
theory Plugin_Loader
  imports Py_Str "HOL-Library.Product_Lexorder" "HOL-Library.Sublist"
begin

section \<open>Plugins (\<open>src/plugins/interface.py\<close>, \<open>src/plugins/loader.py\<close>)\<close>

text \<open>
  The registry of plugins and the loader: versions and dependencies, the import sandbox,
  discovery, loading and the life cycle. A plugin is foreign code: its hooks are functions
  on its own data, of type \<open>'p\<close>, which return what they raise. A factory makes a new plugin at
  each call. Reading manifests and executing modules from files is outside the model; what
  it yields is an argument (\<open>cd_json\<close>, \<open>cd_toml\<close> and \<open>disk\<close>).
\<close>

datatype plugin_type =
    STRATEGY | INDICATOR | BROKER_ADAPTER | DATA_PROVIDER | RISK_MODEL | COMMISSION_MODEL
  | REPORT_GENERATOR | SLIPPAGE_MODEL | EXECUTION_MODEL | GENERAL

datatype plugin_state =
    DISCOVERED | LOADED | VALIDATED | INITIALIZED | PG_RUNNING | PAUSED | STOPPING | STOPPED | UNLOADED | PG_ERROR

record plugin_dependency =
  dp_name :: string
  dp_version_min :: "string option"
  dp_version_max :: "string option"
  dp_required :: bool

record plugin_metadata =
  md_name :: string
  md_version :: string
  md_type :: plugin_type
  md_dependencies :: "plugin_dependency list"
  md_entry_point :: "string option"

datatype dep_problem =
    Unknown_Plugin string
  | Dep_Not_Found string string
  | Version_Mismatch string string string

datatype plugin_exn =
    PluginLoadError
  | PluginInitError
  | PluginDependencyError dep_problem
  | PluginValidationError
  | Foreign exn

subsection \<open>Plugin objects\<close>

type_synonym 'p hook = "'p \<Rightarrow> exn option \<times> 'p"

record 'p plugin =
  on_load :: "'p hook"
  validate :: "'p \<Rightarrow> (exn + bool) \<times> 'p"
  on_init :: "'p hook"
  on_start :: "'p hook"
  on_pause :: "'p hook"
  on_resume :: "'p hook"
  on_stop :: "'p hook"
  on_unload :: "'p hook"
  pg_data :: 'p
  pg_state :: plugin_state

definition run_hook :: "('p plugin \<Rightarrow> 'p hook) \<Rightarrow> 'p plugin \<Rightarrow> exn option \<times> 'p plugin" where
  "run_hook h p = (case h p (pg_data p) of (r, d) \<Rightarrow> (r, p\<lparr>pg_data := d\<rparr>))"

subsection \<open>The import sandbox\<close>

definition default_allowed_modules :: "string list" where
  "default_allowed_modules =
     [''abc'', ''asyncio'', ''builtins'', ''collections'', ''collections.abc'',
      ''contextlib'', ''copy'', ''dataclasses'', ''datetime'', ''decimal'',
      ''enum'', ''functools'', ''hashlib'', ''inspect'', ''io'', ''itertools'',
      ''json'', ''logging'', ''math'', ''operator'', ''os.path'',
      ''pathlib'', ''pickle'', ''random'', ''re'', ''statistics'', ''string'',
      ''struct'', ''textwrap'', ''threading'', ''time'', ''traceback'',
      ''types'', ''typing'', ''uuid'', ''warnings'', ''weakref'',
      ''numpy'', ''pandas'',
      ''src'', ''src.data'', ''src.data.models'', ''src.engine'', ''src.engine.events'',
      ''src.engine.interfaces'', ''src.algorithms'', ''src.algorithms.indicators'',
      ''src.trading'', ''src.trading.models'', ''src.portfolio'',
      ''src.risk'', ''src.utils'', ''src.plugins'']"

text \<open>An empty set is falsy and stands for the default.\<close>

definition sandbox_allowed :: "string list option \<Rightarrow> string list" where
  "sandbox_allowed a =
     (case a of None \<Rightarrow> default_allowed_modules | Some [] \<Rightarrow> default_allowed_modules | Some ms \<Rightarrow> ms)"

text \<open>\<open>ImportSandbox.find_spec\<close>: no exception leaves the search to the next finder.\<close>

definition find_spec :: "string list \<Rightarrow> string \<Rightarrow> exn option" where
  "find_spec allowed fullname =
     (if list_ex (\<lambda>pre. fullname = pre \<or> starts_with (pre @ ''.'') fullname) allowed then None
      else Some ImportError)"

text \<open>
  An import statement under the sandbox: Python looks into \<open>sys.modules\<close> first and asks the
  finders only for a module that is not there.
\<close>

definition sandboxed_import :: "string list \<Rightarrow> string list \<Rightarrow> string \<Rightarrow> exn option" where
  "sandboxed_import sys_modules allowed fullname =
     (if fullname \<in> set sys_modules then None else find_spec allowed fullname)"

subsection \<open>Versions\<close>

text \<open>\<open>_VERSION_RE\<close>: three numbers without leading zeros, an optional pre-release and an optional build.\<close>

definition take_number :: "string \<Rightarrow> (nat \<times> string) option" where
  "take_number s =
     (let ds = takeWhile is_digit s in
      if ds = [] \<or> (hd ds = CHR ''0'' \<and> ds \<noteq> ''0'') then None
      else Some (nat (foldl (\<lambda>a c. a * 10 + digit_val c) 0 ds), dropWhile is_digit s))"

definition take_dot :: "string \<Rightarrow> string option" where
  "take_dot s = (case s of c # r \<Rightarrow> if c = CHR ''.'' then Some r else None | [] \<Rightarrow> None)"

definition ident_char :: "char \<Rightarrow> bool" where
  "ident_char c \<longleftrightarrow>
     is_digit c \<or> c = CHR ''-'' \<or>
     (let n = of_char c :: nat in 65 \<le> n \<and> n \<le> 90 \<or> 97 \<le> n \<and> n \<le> 122)"

definition identifiers :: "string \<Rightarrow> bool" where
  "identifiers s \<longleftrightarrow> list_all (\<lambda>i. i \<noteq> [] \<and> list_all ident_char i) (split_on (CHR ''.'') s)"

definition version_suffix :: "string \<Rightarrow> bool" where
  "version_suffix s =
     (let (pre, build) = (takeWhile (\<lambda>c. c \<noteq> CHR ''+'') s, dropWhile (\<lambda>c. c \<noteq> CHR ''+'') s)
      in (case pre of [] \<Rightarrow> True | c # r \<Rightarrow> c = CHR ''-'' \<and> identifiers r) \<and>
         (case build of [] \<Rightarrow> True | _ # r \<Rightarrow> identifiers r))"

definition parse_semver :: "string \<Rightarrow> (nat \<times> nat \<times> nat) option" where
  "parse_semver v =
     Option.bind (take_number (strip v)) (\<lambda>(a, r1). Option.bind (take_dot r1) (\<lambda>r2.
     Option.bind (take_number r2) (\<lambda>(b, r3). Option.bind (take_dot r3) (\<lambda>r4.
     Option.bind (take_number r4) (\<lambda>(c, r5).
       if version_suffix r5 then Some (a, b, c) else None)))))"

fun compare_from :: "nat list \<Rightarrow> nat list \<Rightarrow> int \<Rightarrow> int" where
  "compare_from (x # xs) (y # ys) d = (if x < y then - 1 else if y < x then 1 else compare_from xs ys d)"
| "compare_from _ _ d = d"

definition compare_versions :: "nat \<times> nat \<times> nat \<Rightarrow> nat \<times> nat \<times> nat \<Rightarrow> int" where
  "compare_versions = (\<lambda>(a1, a2, a3) (b1, b2, b3). compare_from [a1, a2, a3] [b1, b2, b3] (3 - 3))"

definition check_version_satisfied :: "string option \<Rightarrow> string option \<Rightarrow> string option \<Rightarrow> bool" where
  "check_version_satisfied actual minimum maximum =
     (case actual of
        None \<Rightarrow> minimum = None
      | Some v \<Rightarrow>
          (case parse_semver v of
             None \<Rightarrow> False
           | Some t \<Rightarrow>
               \<not> (case Option.bind minimum parse_semver of None \<Rightarrow> False | Some lo \<Rightarrow> compare_versions t lo < 0) \<and>
               \<not> (case Option.bind maximum parse_semver of None \<Rightarrow> False | Some hi \<Rightarrow> 0 < compare_versions t hi)))"

subsection \<open>The registry\<close>

record 'p registry =
  rg_discovered :: "(string, plugin_metadata) dict"
  rg_instances :: "(string, 'p plugin) dict"
  rg_factories :: "(string, exn + 'p plugin) dict"
  rg_errors :: "(string, dep_problem list) dict"

definition new_registry :: "'p registry" where
  "new_registry = \<lparr>rg_discovered = [], rg_instances = [], rg_factories = [], rg_errors = []\<rparr>"

definition register_discovered :: "'p registry \<Rightarrow> plugin_metadata \<Rightarrow> 'p registry" where
  "register_discovered r m =
     (if dget (rg_discovered r) (md_name m) \<noteq> None then r
      else r\<lparr>rg_discovered := dset (rg_discovered r) (md_name m) m\<rparr>)"

definition register_instance :: "'p registry \<Rightarrow> string \<Rightarrow> 'p plugin \<Rightarrow> 'p registry" where
  "register_instance r n p = r\<lparr>rg_instances := dset (rg_instances r) n p\<rparr>"

definition register_factory :: "'p registry \<Rightarrow> string \<Rightarrow> exn + 'p plugin \<Rightarrow> 'p registry" where
  "register_factory r n f = r\<lparr>rg_factories := dset (rg_factories r) n f\<rparr>"

definition set_error :: "'p registry \<Rightarrow> string \<Rightarrow> dep_problem list \<Rightarrow> 'p registry" where
  "set_error r n ps = r\<lparr>rg_errors := dset (rg_errors r) n ps\<rparr>"

definition clear_error :: "'p registry \<Rightarrow> string \<Rightarrow> 'p registry" where
  "clear_error r n = r\<lparr>rg_errors := ddel (rg_errors r) n\<rparr>"

definition get_metadata :: "'p registry \<Rightarrow> string \<Rightarrow> plugin_metadata option" where
  "get_metadata r n = dget (rg_discovered r) n"

definition get_instance :: "'p registry \<Rightarrow> string \<Rightarrow> 'p plugin option" where
  "get_instance r n = dget (rg_instances r) n"

definition is_loaded :: "'p registry \<Rightarrow> string \<Rightarrow> bool" where
  "is_loaded r n \<longleftrightarrow> dget (rg_instances r) n \<noteq> None"

definition list_discovered :: "'p registry \<Rightarrow> plugin_metadata list" where
  "list_discovered r = dvals (rg_discovered r)"

definition list_loaded :: "'p registry \<Rightarrow> string list" where
  "list_loaded r = dkeys (rg_instances r)"

definition list_by_type :: "'p registry \<Rightarrow> plugin_type \<Rightarrow> plugin_metadata list" where
  "list_by_type r t = filter (\<lambda>m. md_type m = t) (dvals (rg_discovered r))"

record registry_summary =
  rs_discovered :: nat
  rs_loaded :: nat
  rs_errors :: nat
  rs_names_loaded :: "string list"
  rs_errors_detail :: "(string, dep_problem list) dict"

definition registry_summary_of :: "'p registry \<Rightarrow> registry_summary" where
  "registry_summary_of r =
     \<lparr>rs_discovered = length (rg_discovered r), rs_loaded = length (list_loaded r), rs_errors = length (rg_errors r),
      rs_names_loaded = list_loaded r, rs_errors_detail = rg_errors r\<rparr>"

text \<open>\<open>stop_all\<close>: a plugin whose \<open>on_stop\<close> raises keeps its state.\<close>

fun stop_each :: "(string \<times> 'p plugin) list \<Rightarrow> nat \<times> (string \<times> 'p plugin) list" where
  "stop_each [] = (0, [])"
| "stop_each ((n, p) # ps) =
     (case stop_each ps of (k, qs) \<Rightarrow>
      case run_hook on_stop p of
        (None, q) \<Rightarrow> (k + 1, (n, q\<lparr>pg_state := STOPPED\<rparr>) # qs)
      | (Some e, q) \<Rightarrow> (k, (n, q) # qs))"

definition registry_stop_all :: "'p registry \<Rightarrow> nat \<times> 'p registry" where
  "registry_stop_all r = (case stop_each (rg_instances r) of (k, ps) \<Rightarrow> (k, r\<lparr>rg_instances := ps\<rparr>))"

definition registry_clear :: "'p registry \<Rightarrow> 'p registry" where
  "registry_clear r = new_registry"

subsection \<open>Discovery\<close>

text \<open>
  An entry of the plugin directory: what \<open>plugin.json\<close> and \<open>plugin.toml\<close> yield, where they
  exist (\<open>Some None\<close> for a file that is no valid manifest), and whether it has an \<open>__init__.py\<close>.
\<close>

record candidate =
  cd_name :: string
  cd_stem :: string
  cd_suffix :: string
  cd_is_dir :: bool
  cd_json :: "plugin_metadata option option"
  cd_toml :: "plugin_metadata option option"
  cd_has_init :: bool

definition bare_metadata :: "string \<Rightarrow> plugin_metadata" where
  "bare_metadata n =
     \<lparr>md_name = n, md_version = ''0.1.0'', md_type = GENERAL, md_dependencies = [], md_entry_point = None\<rparr>"

definition read_plugin_metadata :: "candidate \<Rightarrow> plugin_metadata option" where
  "read_plugin_metadata c =
     (if starts_with ''.'' (cd_name c) \<or> starts_with ''_'' (cd_name c) then None
      else if cd_is_dir c
      then (case cd_json c of
              Some m \<Rightarrow> m
            | None \<Rightarrow>
                (case cd_toml c of
                   Some m \<Rightarrow> m
                 | None \<Rightarrow> if cd_has_init c then Some (bare_metadata (cd_name c)) else None))
      else if cd_suffix c = ''.py'' then Some (bare_metadata (cd_stem c)) else None)"

definition discover_from_directory :: "candidate list \<Rightarrow> plugin_metadata list" where
  "discover_from_directory cs = List.map_filter read_plugin_metadata cs"

text \<open>
  An entry point: its name, what its import raises, what its factory makes, and the metadata
  of the plugin made (or what \<open>metadata\<close> raises). A factory that raises is skipped; what the
  import or \<open>metadata\<close> raises ends the scan.
\<close>

record 'p entry_point =
  ep_name :: string
  ep_import :: "exn option"
  ep_factory :: "exn + 'p plugin"
  ep_metadata :: "exn + plugin_metadata"

fun discover_from_entry_points ::
  "'p registry \<Rightarrow> 'p entry_point list \<Rightarrow> plugin_metadata list \<times> 'p registry" where
  "discover_from_entry_points r [] = ([], r)"
| "discover_from_entry_points r (e # es) =
     (if ep_import e \<noteq> None then ([], r)
      else case ep_factory e of
        Inl x \<Rightarrow> discover_from_entry_points r es
      | Inr p \<Rightarrow>
          (case ep_metadata e of
             Inl x \<Rightarrow> ([], r)
           | Inr m \<Rightarrow>
               (let rest = discover_from_entry_points (register_factory r (ep_name e) (ep_factory e)) es
                in (m\<lparr>md_entry_point := Some (ep_name e)\<rparr> # fst rest, snd rest))))"

definition discover ::
  "'p registry \<Rightarrow> candidate list option \<Rightarrow> 'p entry_point list \<Rightarrow> plugin_metadata list \<times> 'p registry" where
  "discover r dir eps =
     (let ms = (case dir of None \<Rightarrow> [] | Some cs \<Rightarrow> discover_from_directory cs);
          (es, r1) = discover_from_entry_points r eps
      in (ms @ es, foldl register_discovered r1 (ms @ es)))"

subsection \<open>Dependencies\<close>

definition check_dependency :: "'p registry \<Rightarrow> string \<Rightarrow> plugin_dependency \<Rightarrow> dep_problem list" where
  "check_dependency r name d =
     (case get_metadata r (dp_name d) of
        None \<Rightarrow> if dp_required d then [Dep_Not_Found (dp_name d) name] else []
      | Some m \<Rightarrow>
          if \<not> check_version_satisfied (Some (md_version m)) (dp_version_min d) (dp_version_max d)
          then [Version_Mismatch (dp_name d) name (md_version m)] else [])"

definition check_dependencies :: "'p registry \<Rightarrow> string \<Rightarrow> dep_problem list" where
  "check_dependencies r name =
     (case get_metadata r name of
        None \<Rightarrow> [Unknown_Plugin name]
      | Some m \<Rightarrow> concat (map (check_dependency r name) (md_dependencies m)))"

subsection \<open>Loading\<close>

text \<open>
  \<open>_find_plugin_class\<close>: of several classes the first whose metadata carry the plugin's name
  (a class whose metadata raise is passed over), else the first.
\<close>

definition find_plugin_class :: "('c \<Rightarrow> (exn + string) option) \<Rightarrow> string \<Rightarrow> 'c list \<Rightarrow> 'c option" where
  "find_plugin_class meta_name name cs =
     (case cs of
        [] \<Rightarrow> None
      | [c] \<Rightarrow> Some c
      | c # _ \<Rightarrow>
          (case find (\<lambda>c. meta_name c = Some (Inr name)) cs of Some c1 \<Rightarrow> Some c1 | None \<Rightarrow> Some c))"

text \<open>\<open>disk n\<close>: what each file found for the plugin \<open>n\<close> yields, the package before the module.\<close>

fun first_from_disk :: "(plugin_exn + 'p plugin option) list \<Rightarrow> plugin_exn + 'p plugin" where
  "first_from_disk [] = Inl PluginLoadError"
| "first_from_disk (Inl e # rs) = Inl e"
| "first_from_disk (Inr None # rs) = first_from_disk rs"
| "first_from_disk (Inr (Some p) # rs) = Inr p"

definition instantiate_plugin ::
  "(string \<Rightarrow> (plugin_exn + 'p plugin option) list) \<Rightarrow> 'p registry \<Rightarrow> plugin_metadata \<Rightarrow> plugin_exn + 'p plugin" where
  "instantiate_plugin disk r m =
     (case dget (rg_factories r) (md_name m) of
        Some (Inl e) \<Rightarrow> Inl (Foreign e)
      | Some (Inr p) \<Rightarrow> Inr p
      | None \<Rightarrow> first_from_disk (disk (md_name m)))"

definition initialize_plugin :: "'p plugin \<Rightarrow> plugin_exn + 'p plugin" where
  "initialize_plugin p =
     (case run_hook on_load (p\<lparr>pg_state := LOADED\<rparr>) of
        (Some e, _) \<Rightarrow> Inl PluginLoadError
      | (None, p0) \<Rightarrow>
          (let p1 = p0\<lparr>pg_state := VALIDATED\<rparr> in
           case validate p1 (pg_data p1) of
             (Inl e, _) \<Rightarrow> Inl PluginValidationError
           | (Inr ok, d) \<Rightarrow>
               if \<not> ok then Inl PluginValidationError
               else
                 (case run_hook on_init (p1\<lparr>pg_data := d, pg_state := INITIALIZED\<rparr>) of
                    (Some e, _) \<Rightarrow> Inl PluginInitError
                  | (None, p2) \<Rightarrow> Inr p2)))"

definition load_plugin ::
  "(string \<Rightarrow> (plugin_exn + 'p plugin option) list) \<Rightarrow> 'p registry \<Rightarrow> string \<Rightarrow>
   (plugin_exn + 'p plugin option) \<times> 'p registry" where
  "load_plugin disk r name =
     (case get_metadata r name of
        None \<Rightarrow> (Inr None, r)
      | Some m \<Rightarrow>
          (case check_dependencies r name of
             u # us \<Rightarrow> (Inl (PluginDependencyError u), set_error r name (u # us))
           | [] \<Rightarrow>
               (case and_then (instantiate_plugin disk r m) initialize_plugin of
                  Inl e \<Rightarrow> (Inl e, r)
                | Inr p \<Rightarrow> (Inr (Some p), register_instance r name p))))"

fun load_each ::
  "(string \<Rightarrow> (plugin_exn + 'p plugin option) list) \<Rightarrow> 'p registry \<Rightarrow> plugin_metadata list \<Rightarrow>
   (string, 'p plugin option) dict \<Rightarrow> (string, 'p plugin option) dict \<times> 'p registry" where
  "load_each disk r [] res = (res, r)"
| "load_each disk r (m # ms) res =
     (case load_plugin disk r (md_name m) of
        (Inl e, r1) \<Rightarrow> load_each disk r1 ms (dset res (md_name m) None)
      | (Inr p, r1) \<Rightarrow> load_each disk r1 ms (dset res (md_name m) p))"

definition load_all ::
  "(string \<Rightarrow> (plugin_exn + 'p plugin option) list) \<Rightarrow> 'p registry \<Rightarrow> (string, 'p plugin option) dict \<times> 'p registry" where
  "load_all disk r = load_each disk r (list_discovered r) []"

subsection \<open>The life cycle\<close>

text \<open>A hook runs, then the state is set: \<open>ok\<close> on success, \<open>bad\<close> (if any) on an exception.\<close>

definition run_transition ::
  "('p plugin \<Rightarrow> 'p hook) \<Rightarrow> plugin_state \<Rightarrow> plugin_state option \<Rightarrow> 'p registry \<Rightarrow> string \<Rightarrow> bool \<times> 'p registry" where
  "run_transition h ok bad r name =
     (case get_instance r name of
        None \<Rightarrow> (False, r)
      | Some p \<Rightarrow>
          (case run_hook h p of
             (None, q) \<Rightarrow> (True, register_instance r name (q\<lparr>pg_state := ok\<rparr>))
           | (Some e, q) \<Rightarrow>
               (False, register_instance r name
                  (case bad of None \<Rightarrow> q | Some s \<Rightarrow> q\<lparr>pg_state := s\<rparr>))))"

definition start_plugin :: "'p registry \<Rightarrow> string \<Rightarrow> bool \<times> 'p registry" where
  "start_plugin = run_transition on_start PG_RUNNING (Some PG_ERROR)"

definition pause_plugin :: "'p registry \<Rightarrow> string \<Rightarrow> bool \<times> 'p registry" where
  "pause_plugin = run_transition on_pause PAUSED None"

definition resume_plugin :: "'p registry \<Rightarrow> string \<Rightarrow> bool \<times> 'p registry" where
  "resume_plugin = run_transition on_resume PG_RUNNING None"

definition stop_plugin :: "'p registry \<Rightarrow> string \<Rightarrow> bool \<times> 'p registry" where
  "stop_plugin = run_transition on_stop STOPPED (Some PG_ERROR)"

fun start_each :: "'p registry \<Rightarrow> string list \<Rightarrow> nat \<times> 'p registry" where
  "start_each r [] = (0, r)"
| "start_each r (n # ns) =
     (case start_plugin r n of (ok, r1) \<Rightarrow>
      case start_each r1 ns of (k, r2) \<Rightarrow> (if ok then k + 1 else k, r2))"

definition start_all :: "'p registry \<Rightarrow> nat \<times> 'p registry" where
  "start_all r = start_each r (list_loaded r)"

definition unload_plugin :: "'p registry \<Rightarrow> string \<Rightarrow> bool \<times> 'p registry" where
  "unload_plugin r name =
     (case get_instance r name of
        None \<Rightarrow> (False, r)
      | Some p \<Rightarrow>
          (case (if pg_state p = PG_RUNNING \<or> pg_state p = PAUSED then run_hook on_stop p else (None, p)) of
             (Some e, q) \<Rightarrow> (False, register_instance r name q)
           | (None, q) \<Rightarrow>
               (case run_hook on_unload q of
                  (Some e, q1) \<Rightarrow> (False, register_instance r name q1)
                | (None, q1) \<Rightarrow>
                    (True, r\<lparr>rg_instances := ddel (rg_instances r) name,
                             rg_factories := ddel (rg_factories r) name\<rparr>))))"

section \<open>Versions\<close>

lemma nat_str_leading: "nat_str n \<noteq> ''0'' \<Longrightarrow> hd (nat_str n) \<noteq> CHR ''0''"
proof (induction n rule: nat_str.induct)
  case (1 n)
  show ?case
  proof (cases "n < 10")
    case True
    then have n: "nat_str n = [digit_char n]" by (simp add: nat_str.simps)
    have "digit_char n \<noteq> CHR ''0''"
    proof
      assume z: "digit_char n = CHR ''0''"
      then have "int n = 0" using True digit_char_props(2) [of n] by (simp add: digit_val_def)
      with z n 1(2) show False by simp
    qed
    then show ?thesis by (simp add: n)
  next
    case False
    have "nat_str (n div 10) \<noteq> ''0''"
    proof
      assume "nat_str (n div 10) = ''0''"
      also have "''0'' = nat_str 0" by code_simp
      finally have "n div 10 = 0" by (rule nat_str_inj)
      with False show False by simp
    qed
    from 1(1) [OF False this] False show ?thesis by (subst nat_str.simps) (simp add: hd_append)
  qed
qed

lemma take_number_nat_str:
  assumes "r = [] \<or> \<not> is_digit (hd r)" shows "take_number (nat_str n @ r) = Some (n, r)"
proof -
  have d: "\<forall>c \<in> set (nat_str n). is_digit c" using nat_str_digits by blast
  then have t: "takeWhile is_digit (nat_str n @ r) = nat_str n" "dropWhile is_digit (nat_str n @ r) = r"
    using assms by (cases r; simp add: takeWhile_append2 dropWhile_append2)+
  show ?thesis using nat_str_leading [of n] nat_str_val [of n] by (auto simp: take_number_def t Let_def)
qed

definition version_str :: "nat \<times> nat \<times> nat \<Rightarrow> string" where
  "version_str = (\<lambda>(a, b, c). nat_str a @ ''.'' @ nat_str b @ ''.'' @ nat_str c)"

lemma compare_versions_less:
  "compare_versions s t < 0 \<longleftrightarrow> s < t" "0 < compare_versions s t \<longleftrightarrow> t < s"
  by (cases s; cases t; auto simp: compare_versions_def less_prod_def)+

section \<open>The sandbox\<close>

lemma split_on_Cons: "split_on sep (c # s) = (if c = sep then [] # split_on sep s
    else (case split_on sep s of [] \<Rightarrow> [[c]] | w # ws \<Rightarrow> (c # w) # ws))"
  by simp

lemma split_on_append_sep: "split_on sep (a @ sep # b) = split_on sep a @ split_on sep b"
proof (induction a)
  case (Cons c a)
  then show ?case using split_on_nonempty [of sep a] by (auto split: list.splits)
qed simp

lemma join_split: "join_with [sep] (split_on sep s) = s"
proof (induction s)
  case (Cons c s)
  then show ?case by (cases "split_on sep s"; cases "tl (split_on sep s)") auto
qed simp

lemma join_with_append: "xs \<noteq> [] \<Longrightarrow> ys \<noteq> [] \<Longrightarrow> join_with w (xs @ ys) = join_with w xs @ w @ join_with w ys"
proof (induction xs)
  case (Cons x xs)
  then show ?case by (cases xs; cases ys) auto
qed simp

lemma dotted_prefix_iff:
  "name = pre \<or> starts_with (pre @ [sep]) name \<longleftrightarrow> prefix (split_on sep pre) (split_on sep name)"
proof
  assume "name = pre \<or> starts_with (pre @ [sep]) name"
  then show "prefix (split_on sep pre) (split_on sep name)"
  proof
    assume "starts_with (pre @ [sep]) name"
    then have "name = pre @ sep # drop (Suc (length pre)) name"
      unfolding starts_with_def by (metis append.assoc append_Cons append_Nil append_take_drop_id length_append_singleton)
    then show ?thesis by (metis prefixI split_on_append_sep)
  qed simp
next
  assume "prefix (split_on sep pre) (split_on sep name)"
  then obtain rest where r: "split_on sep name = split_on sep pre @ rest" by (auto simp: prefix_def)
  show "name = pre \<or> starts_with (pre @ [sep]) name"
  proof (cases rest)
    case Nil
    with r show ?thesis by (metis append_Nil2 join_split)
  next
    case (Cons w ws)
    then have "name = pre @ [sep] @ join_with [sep] rest"
      by (metis join_split join_with_append list.discI r split_on_nonempty)
    then show ?thesis by (simp add: starts_with_def)
  qed
qed

section \<open>Runs of the loader\<close>

text \<open>
  The calls of a loader over one registry; \<open>disk\<close> is what the plugin directory yields.
\<close>

datatype 'p pl_op =
    PL_Discover "candidate list option" "'p entry_point list"
  | PL_Load string
  | PL_Load_All
  | PL_Start string
  | PL_Pause string
  | PL_Resume string
  | PL_Stop string
  | PL_Start_All
  | PL_Stop_All
  | PL_Unload string
  | PL_Clear

fun pl_step :: "(string \<Rightarrow> (plugin_exn + 'p plugin option) list) \<Rightarrow> 'p registry \<Rightarrow> 'p pl_op \<Rightarrow> 'p registry" where
  "pl_step disk r (PL_Discover dir eps) = snd (discover r dir eps)"
| "pl_step disk r (PL_Load n) = snd (load_plugin disk r n)"
| "pl_step disk r PL_Load_All = snd (load_all disk r)"
| "pl_step disk r (PL_Start n) = snd (start_plugin r n)"
| "pl_step disk r (PL_Pause n) = snd (pause_plugin r n)"
| "pl_step disk r (PL_Resume n) = snd (resume_plugin r n)"
| "pl_step disk r (PL_Stop n) = snd (stop_plugin r n)"
| "pl_step disk r PL_Start_All = snd (start_all r)"
| "pl_step disk r PL_Stop_All = snd (registry_stop_all r)"
| "pl_step disk r (PL_Unload n) = snd (unload_plugin r n)"
| "pl_step disk r PL_Clear = registry_clear r"

text \<open>
  A loaded plugin has gone through its initialization, and its requirements are met: each
  required dependency has been discovered in a version within its bounds.
\<close>

definition settled :: "plugin_state \<Rightarrow> bool" where
  "settled s \<longleftrightarrow> s = INITIALIZED \<or> s = PG_RUNNING \<or> s = PAUSED \<or> s = STOPPED \<or> s = PG_ERROR"

definition requirement_met :: "'p registry \<Rightarrow> plugin_dependency \<Rightarrow> bool" where
  "requirement_met r d \<longleftrightarrow>
     (case get_metadata r (dp_name d) of
        None \<Rightarrow> \<not> dp_required d
      | Some m \<Rightarrow> dp_required d \<longrightarrow> check_version_satisfied (Some (md_version m)) (dp_version_min d) (dp_version_max d))"

definition loaded_ok :: "'p registry \<Rightarrow> string \<Rightarrow> 'p plugin \<Rightarrow> bool" where
  "loaded_ok r n p \<longleftrightarrow>
     settled (pg_state p) \<and>
     (case get_metadata r n of None \<Rightarrow> False | Some m \<Rightarrow> list_all (requirement_met r) (md_dependencies m))"

definition pl_inv :: "'p registry \<Rightarrow> bool" where
  "pl_inv r \<longleftrightarrow> dict_ok (rg_instances r) \<and> (\<forall>n p. get_instance r n = Some p \<longrightarrow> loaded_ok r n p)"

lemma pl_inv_new: "pl_inv new_registry"
  by (simp add: pl_inv_def new_registry_def get_instance_def)

text \<open>Discovering more plugins never takes a requirement away: what is known stays.\<close>

definition knows_more :: "'p registry \<Rightarrow> 'p registry \<Rightarrow> bool" where
  "knows_more r1 r \<longleftrightarrow> (\<forall>n m. get_metadata r n = Some m \<longrightarrow> get_metadata r1 n = Some m)"

lemma requirement_met_mono: "knows_more r1 r \<Longrightarrow> requirement_met r d \<Longrightarrow> requirement_met r1 d"
  by (cases "dp_required d") (auto simp: requirement_met_def knows_more_def split: option.splits)

lemma loaded_ok_mono:
  assumes "knows_more r1 r" "loaded_ok r n p" shows "loaded_ok r1 n p"
proof -
  from assms(2) obtain m where m: "settled (pg_state p)" "get_metadata r n = Some m" "list_all (requirement_met r) (md_dependencies m)"
    by (auto simp: loaded_ok_def split: option.splits)
  have "get_metadata r1 n = Some m" using assms(1) m(2) by (simp add: knows_more_def)
  moreover have "list_all (requirement_met r1) (md_dependencies m)"
    using m(3) requirement_met_mono [OF assms(1)] by (auto simp: list_all_iff)
  ultimately show ?thesis using m(1) by (simp add: loaded_ok_def)
qed

lemma pl_inv_discovered:
  assumes "pl_inv r" "rg_instances r1 = rg_instances r" "knows_more r1 r" shows "pl_inv r1"
  unfolding pl_inv_def get_instance_def assms(2)
  using assms(1) loaded_ok_mono [OF assms(3)] by (simp add: pl_inv_def get_instance_def)

lemma knows_more_trans: "knows_more r2 r1 \<Longrightarrow> knows_more r1 r \<Longrightarrow> knows_more r2 r"
  by (simp add: knows_more_def)

lemma register_discovered_frame:
  "rg_instances (register_discovered r m) = rg_instances r" "knows_more (register_discovered r m) r"
  by (simp_all add: register_discovered_def knows_more_def get_metadata_def)

lemma fold_discovered_frame:
  "rg_instances (foldl register_discovered r ms) = rg_instances r \<and> knows_more (foldl register_discovered r ms) r"
proof (induction ms arbitrary: r)
  case Nil
  then show ?case by (simp add: knows_more_def)
next
  case (Cons m ms)
  from Cons.IH [of "register_discovered r m"] register_discovered_frame [of r m] show ?case
    by (auto intro: knows_more_trans)
qed

lemma entry_points_frame:
  "rg_instances (snd (discover_from_entry_points r es)) = rg_instances r \<and>
   rg_discovered (snd (discover_from_entry_points r es)) = rg_discovered r"
  by (induction r es rule: discover_from_entry_points.induct)
    (auto simp: register_factory_def Let_def split: sum.split)

lemma discover_inv [inv_intros]: "pl_inv r \<Longrightarrow> pl_inv (snd (discover r dir eps))"
proof -
  assume i: "pl_inv r"
  define ms where "ms = (case dir of None \<Rightarrow> [] | Some cs \<Rightarrow> discover_from_directory cs)"
  obtain es r1 where e: "discover_from_entry_points r eps = (es, r1)" by (cases "discover_from_entry_points r eps")
  have d: "snd (discover r dir eps) = foldl register_discovered r1 (ms @ es)" by (simp add: discover_def Let_def e ms_def)
  have "knows_more r1 r" "rg_instances r1 = rg_instances r"
    using entry_points_frame [of r eps] e by (simp_all add: knows_more_def get_metadata_def)
  with fold_discovered_frame [of r1 "ms @ es"] show ?thesis
    unfolding d by (intro pl_inv_discovered [OF i]) (auto intro: knows_more_trans)
qed

lemma check_dependencies_met:
  assumes "check_dependencies r n = []"
  obtains m where "get_metadata r n = Some m" "list_all (requirement_met r) (md_dependencies m)"
proof (cases "get_metadata r n")
  case None
  with assms show ?thesis by (simp add: check_dependencies_def)
next
  case (Some m)
  have "requirement_met r d" if "d \<in> set (md_dependencies m)" for d
  proof -
    have "check_dependency r n d = []" using assms Some that by (simp add: check_dependencies_def)
    then show ?thesis by (auto simp: check_dependency_def requirement_met_def split: option.splits if_splits)
  qed
  with Some that show ?thesis by (simp add: list_all_iff)
qed

lemma check_dependencies_frame:
  assumes "rg_discovered r1 = rg_discovered r" shows "check_dependencies r1 n = check_dependencies r n"
proof -
  have "check_dependency r1 n = check_dependency r n" by (simp add: check_dependency_def get_metadata_def assms fun_eq_iff)
  then show ?thesis by (cases "dget (rg_discovered r) n") (simp_all add: check_dependencies_def get_metadata_def assms)
qed

lemma initialize_plugin_state: "initialize_plugin p = Inr q \<Longrightarrow> pg_state q = INITIALIZED"
  by (auto simp: initialize_plugin_def run_hook_def Let_def split: prod.splits option.splits sum.splits if_splits)

lemma loaded_ok_frame: "rg_discovered r1 = rg_discovered r \<Longrightarrow> loaded_ok r1 = loaded_ok r"
proof -
  assume d: "rg_discovered r1 = rg_discovered r"
  then have "requirement_met r1 = requirement_met r" by (simp add: requirement_met_def get_metadata_def fun_eq_iff)
  with d show "loaded_ok r1 = loaded_ok r" by (intro ext) (simp only: loaded_ok_def get_metadata_def)
qed

lemma pl_inv_put:
  assumes "pl_inv r" "rg_discovered r1 = rg_discovered r" "rg_instances r1 = dset (rg_instances r) n p" "loaded_ok r n p"
  shows "pl_inv r1"
  using assms(1,4) loaded_ok_frame [OF assms(2)] by (simp add: pl_inv_def get_instance_def assms(3))

lemma pl_inv_sub:
  assumes "pl_inv r" "rg_discovered r1 = rg_discovered r" "rg_instances r1 = ddel (rg_instances r) n"
  shows "pl_inv r1"
  using assms(1) loaded_ok_frame [OF assms(2)] by (simp add: pl_inv_def get_instance_def assms(3))

lemma load_plugin_cases:
  obtains (unknown) "get_metadata r n = None" "load_plugin disk r n = (Inr None, r)"
  | (unresolved) m u us where "get_metadata r n = Some m" "check_dependencies r n = u # us"
      "load_plugin disk r n = (Inl (PluginDependencyError u), set_error r n (u # us))"
  | (failed) m e where "get_metadata r n = Some m" "check_dependencies r n = []"
      "and_then (instantiate_plugin disk r m) initialize_plugin = Inl e" "load_plugin disk r n = (Inl e, r)"
  | (loaded) m p where "get_metadata r n = Some m" "check_dependencies r n = []"
      "and_then (instantiate_plugin disk r m) initialize_plugin = Inr p" "load_plugin disk r n = (Inr (Some p), register_instance r n p)"
proof (cases "get_metadata r n")
  case None
  then show ?thesis using unknown by (simp add: load_plugin_def)
next
  case (Some m)
  show ?thesis
  proof (cases "check_dependencies r n")
    case Nil
    then show ?thesis using failed [OF Some Nil] loaded [OF Some Nil] Some
      by (cases "and_then (instantiate_plugin disk r m) initialize_plugin") (simp_all add: load_plugin_def)
  next
    case (Cons u us)
    then show ?thesis using unresolved [OF Some Cons] Some by (simp add: load_plugin_def)
  qed
qed

lemma load_plugin_inv [inv_intros]:
  assumes "pl_inv r" shows "pl_inv (snd (load_plugin disk r n))"
proof (cases rule: load_plugin_cases [of r n disk])
  case unresolved
  then show ?thesis using assms by (simp add: pl_inv_discovered [OF assms] set_error_def knows_more_def get_metadata_def)
next
  case (loaded m p)
  from loaded(3) have "pg_state p = INITIALIZED" by (auto simp: and_then_Inr_iff dest: initialize_plugin_state)
  moreover from check_dependencies_met [OF loaded(2)] loaded(1) have "list_all (requirement_met r) (md_dependencies m)" by auto
  ultimately have "loaded_ok r n p" using loaded(1) by (simp add: loaded_ok_def settled_def)
  then show ?thesis unfolding loaded(4) snd_conv by (intro pl_inv_put [OF assms]) (simp_all add: register_instance_def)
qed (use assms in simp_all)

lemma load_each_inv: "pl_inv r \<Longrightarrow> pl_inv (snd (load_each disk r ms res))"
proof (induction disk r ms res rule: load_each.induct)
  case (2 disk r m ms res)
  obtain x r1 where l: "load_plugin disk r (md_name m) = (x, r1)" by (cases "load_plugin disk r (md_name m)")
  have "pl_inv r1" using load_plugin_inv [OF "2.prems", of disk "md_name m"] l by simp
  then show ?case using "2.IH" l by (cases x) simp_all
qed simp

lemma run_transition_inv [inv_intros]:
  assumes "pl_inv r" "settled ok" "\<forall>s. bad = Some s \<longrightarrow> settled s"
  shows "pl_inv (snd (run_transition h ok bad r n))"
proof (cases "get_instance r n")
  case None
  with assms show ?thesis by (simp add: run_transition_def)
next
  case (Some p)
  then have p: "loaded_ok r n p" using assms(1) by (simp add: pl_inv_def)
  obtain x q where q: "run_hook h p = (x, q)" by (cases "run_hook h p")
  then have "pg_state q = pg_state p" by (auto simp: run_hook_def split: prod.splits)
  with p assms(2,3) have "loaded_ok r n (q\<lparr>pg_state := ok\<rparr>)" "loaded_ok r n (case bad of None \<Rightarrow> q | Some s \<Rightarrow> q\<lparr>pg_state := s\<rparr>)"
    by (auto simp: loaded_ok_def split: option.splits)
  then show ?thesis
    using Some q by (auto simp: run_transition_def register_instance_def split: option.split intro!: pl_inv_put [OF assms(1), of _ n])
qed

lemma start_each_inv: "pl_inv r \<Longrightarrow> pl_inv (snd (start_each r ns))"
proof (induction r ns rule: start_each.induct)
  case (2 r n ns)
  obtain ok r1 where s: "start_plugin r n = (ok, r1)" by (cases "start_plugin r n")
  have "pl_inv r1" using run_transition_inv [OF "2.prems", of PG_RUNNING "Some PG_ERROR" on_start n] s
    by (simp add: start_plugin_def settled_def)
  with "2.IH" s have "pl_inv (snd (start_each r1 ns))" by simp
  then show ?case by (cases "start_each r1 ns") (simp add: s)
qed simp

text \<open>What \<open>stop_all\<close> makes of one plugin.\<close>

definition stopped :: "'p plugin \<Rightarrow> 'p plugin" where
  "stopped p = (case run_hook on_stop p of (None, q) \<Rightarrow> q\<lparr>pg_state := STOPPED\<rparr> | (Some e, q) \<Rightarrow> q)"

lemma stop_each_map: "snd (stop_each ps) = map (\<lambda>(n, p). (n, stopped p)) ps"
proof (induction ps)
  case (Cons x ps)
  obtain n p where "x = (n, p)" by (cases x)
  then show ?case using Cons by (auto simp: stopped_def split: prod.split option.split)
qed simp

lemma stopped_settled: "settled (pg_state p) \<Longrightarrow> settled (pg_state (stopped p))"
  by (auto simp: stopped_def run_hook_def settled_def split: prod.split option.split)

lemma loaded_ok_state: "loaded_ok r n p \<Longrightarrow> settled (pg_state q) \<Longrightarrow> loaded_ok r n q"
  by (simp add: loaded_ok_def)

lemma stop_all_instances: "rg_instances (snd (registry_stop_all r)) = map (\<lambda>(n, p). (n, stopped p)) (rg_instances r)"
  by (simp add: registry_stop_all_def split_beta stop_each_map)

lemma stop_all_inv [inv_intros]: assumes "pl_inv r" shows "pl_inv (snd (registry_stop_all r))"
proof -
  let ?r = "snd (registry_stop_all r)"
  have d: "rg_discovered ?r = rg_discovered r" by (simp add: registry_stop_all_def split_beta)
  have k: "dkeys (rg_instances ?r) = dkeys (rg_instances r)" by (simp add: stop_all_instances split_beta)
  have g: "get_instance ?r n = map_option stopped (get_instance r n)" for n
    unfolding get_instance_def stop_all_instances by (rule dget_map_values [of "\<lambda>_. stopped"])
  have "loaded_ok ?r n p" if p: "get_instance ?r n = Some p" for n p
  proof -
    from p g obtain p0 where p0: "get_instance r n = Some p0" "p = stopped p0" by auto
    then have "loaded_ok r n p0" using assms by (simp add: pl_inv_def)
    then show ?thesis unfolding loaded_ok_frame [OF d] p0(2)
      by (rule loaded_ok_state) (use \<open>loaded_ok r n p0\<close> in \<open>simp add: loaded_ok_def stopped_settled\<close>)
  qed
  then show ?thesis using assms k by (simp add: pl_inv_def dict_ok_def)
qed

lemma run_hook_state: "run_hook h p = (x, q) \<Longrightarrow> pg_state q = pg_state p"
  by (auto simp: run_hook_def split: prod.splits)

lemma unload_plugin_cases:
  obtains (absent) "get_instance r n = None" "unload_plugin r n = (False, r)"
  | (kept) p q where "get_instance r n = Some p" "pg_state q = pg_state p"
      "unload_plugin r n = (False, register_instance r n q)"
  | (gone) p where "get_instance r n = Some p"
      "unload_plugin r n = (True, r\<lparr>rg_instances := ddel (rg_instances r) n, rg_factories := ddel (rg_factories r) n\<rparr>)"
proof (cases "get_instance r n")
  case None
  then show ?thesis using absent by (simp add: unload_plugin_def)
next
  case (Some p)
  obtain x q where q: "(if pg_state p = PG_RUNNING \<or> pg_state p = PAUSED then run_hook on_stop p else (None, p)) = (x, q)"
    by (meson surj_pair)
  then have s: "pg_state q = pg_state p" by (auto dest: run_hook_state split: if_splits)
  show ?thesis
  proof (cases x)
    case (Some e)
    with \<open>get_instance r n = Some p\<close> q show ?thesis by (intro kept [OF _ s]) (auto simp: unload_plugin_def)
  next
    case None
    obtain y q1 where q1: "run_hook on_unload q = (y, q1)" by (cases "run_hook on_unload q")
    show ?thesis
    proof (cases y)
      case None
      with Some q q1 \<open>x = None\<close> show ?thesis by (intro gone) (auto simp: unload_plugin_def)
    next
      case (Some e)
      with \<open>get_instance r n = Some p\<close> q q1 \<open>x = None\<close> run_hook_state [OF q1] s show ?thesis
        by (intro kept [of p q1]) (auto simp: unload_plugin_def)
    qed
  qed
qed

lemma unload_plugin_inv [inv_intros]: assumes "pl_inv r" shows "pl_inv (snd (unload_plugin r n))"
proof (cases rule: unload_plugin_cases [of r n])
  case (kept p q)
  then have "loaded_ok r n q" using assms by (auto simp: pl_inv_def loaded_ok_def)
  then show ?thesis unfolding kept(3) snd_conv by (intro pl_inv_put [OF assms]) (simp_all add: register_instance_def)
next
  case (gone p)
  show ?thesis unfolding gone(2) snd_conv by (rule pl_inv_sub [OF assms]) simp_all
qed (use assms in simp)

lemma pl_step_inv: "pl_inv r \<Longrightarrow> pl_inv (pl_step disk r x)"
  by (cases x)
    (auto simp: load_all_def start_plugin_def pause_plugin_def resume_plugin_def stop_plugin_def start_all_def
      registry_clear_def settled_def pl_inv_new load_each_inv start_each_inv intro!: inv_intros)

interpretation plugins: run_system "pl_step disk" "\<lambda>_ _. True" pl_inv
  by unfold_locales (rule pl_step_inv)

section \<open>Properties\<close>

text \<open>
  A plugin directory with two modules for the witnesses: \<open>base\<close>, and \<open>extra\<close>, which requires
  version 1.2.0 of \<open>base\<close> or later.
\<close>

definition quiet_hook :: "unit hook" where
  "quiet_hook d = (None, d)"

definition quiet_plugin :: "unit plugin" where
  "quiet_plugin =
     \<lparr>on_load = quiet_hook, validate = (\<lambda>d. (Inr True, d)), on_init = quiet_hook, on_start = quiet_hook,
      on_pause = quiet_hook, on_resume = quiet_hook, on_stop = quiet_hook, on_unload = quiet_hook,
      pg_data = (), pg_state = DISCOVERED\<rparr>"

definition sample_disk :: "string \<Rightarrow> (plugin_exn + unit plugin option) list" where
  "sample_disk n = [Inr (Some quiet_plugin)]"

definition sample_candidate :: "string \<Rightarrow> plugin_metadata \<Rightarrow> candidate" where
  "sample_candidate n m =
     \<lparr>cd_name = n, cd_stem = n, cd_suffix = '''', cd_is_dir = True, cd_json = Some (Some m), cd_toml = None, cd_has_init = True\<rparr>"

definition base_md :: plugin_metadata where
  "base_md = (bare_metadata ''base'')\<lparr>md_version := ''1.2.3''\<rparr>"

definition extra_md :: plugin_metadata where
  "extra_md = (bare_metadata ''extra'')\<lparr>md_dependencies :=
     [\<lparr>dp_name = ''base'', dp_version_min = Some ''1.2.0'', dp_version_max = None, dp_required = True\<rparr>]\<rparr>"

definition sample_dir :: "candidate list" where
  "sample_dir = [sample_candidate ''extra'' extra_md, sample_candidate ''base'' base_md]"

lemmas sample_plugins =
  quiet_hook_def quiet_plugin_def sample_disk_def sample_candidate_def base_md_def extra_md_def sample_dir_def


lemma sample_run_loads:
  "get_instance (run_ops (pl_step sample_disk) new_registry [PL_Discover (Some sample_dir) [], PL_Load ''extra'']) ''extra'' \<noteq> None"
  by code_simp


lemma take_dot_dot: "take_dot (''.'' @ r) = Some r"
  by (simp add: take_dot_def)

lemma version_str_strip: "strip (version_str t) = version_str t"
  by (rule strip_id_all) (auto simp: version_str_def is_space_def dest!: nat_str_digits split: prod.splits simp: is_digit_def)

lemma parse_version_str: "parse_semver (version_str t) = Some t"
proof -
  obtain a b c where t: "t = (a, b, c)" by (cases t)
  have "take_number (version_str t) = Some (a, ''.'' @ nat_str b @ ''.'' @ nat_str c)"
    unfolding version_str_def t by (simp add: take_number_nat_str is_digit_def)
  moreover have "take_number (nat_str b @ ''.'' @ nat_str c) = Some (b, ''.'' @ nat_str c)"
    by (rule take_number_nat_str) (simp add: is_digit_def)
  moreover have "take_number (nat_str c) = Some (c, [])" using take_number_nat_str [of "[]" c] by simp
  ultimately show ?thesis
    by (simp only: parse_semver_def version_str_strip take_dot_dot Option.bind.simps prod.case)
      (simp add: version_suffix_def t)
qed

text \<open>The version check is the lexicographic order: for
  versions written as three numbers, the check succeeds exactly when the plugin's version lies
  between the minimum and the maximum, component by component from the left.\<close>

theorem version_check_exact:
  "check_version_satisfied (Some (version_str v)) (map_option version_str lo) (map_option version_str hi) \<longleftrightarrow>
   (case lo of None \<Rightarrow> True | Some l \<Rightarrow> l \<le> v) \<and> (case hi of None \<Rightarrow> True | Some h \<Rightarrow> v \<le> h)"
  by (cases lo; cases hi)
    (auto simp: check_version_satisfied_def parse_version_str compare_versions_less not_less)

text \<open>The sandbox admits exactly the allowed modules and
  what lies below them: an import passes when the dotted parts of some allowed name are the
  first dotted parts of the module's name, so json admits json.decoder but not jsonx.\<close>

theorem sandbox_exact:
  "find_spec allowed name = None \<longleftrightarrow>
   (\<exists>m \<in> set allowed. prefix (split_on (CHR ''.'') m) (split_on (CHR ''.'') name))"
  using dotted_prefix_iff [of name _ "CHR ''.''"] by (auto simp: find_spec_def list_ex_iff)

text \<open>Loading a plugin changes neither what is discovered nor the factories.\<close>

lemma load_plugin_frame [frame_simps]:
  "rg_discovered (snd (load_plugin disk r n)) = rg_discovered r"
  "rg_factories (snd (load_plugin disk r n)) = rg_factories r"
  by (cases rule: load_plugin_cases [of r n disk]; simp add: set_error_def register_instance_def)+

lemma load_plugin_same_known:
  assumes "rg_discovered r1 = rg_discovered r" "rg_factories r1 = rg_factories r"
  shows "fst (load_plugin disk r1 n) = fst (load_plugin disk r n)"
proof -
  have "check_dependencies r1 n = check_dependencies r n" by (rule check_dependencies_frame) (rule assms)
  moreover have "instantiate_plugin disk r1 = instantiate_plugin disk r" by (simp add: instantiate_plugin_def assms fun_eq_iff)
  ultimately show ?thesis by (simp add: load_plugin_def get_metadata_def assms split: option.split list.split sum.split)
qed

definition outcome :: "plugin_exn + 'p plugin option \<Rightarrow> 'p plugin option" where
  "outcome x = (case x of Inl e \<Rightarrow> None | Inr p \<Rightarrow> p)"

lemma load_each_Cons:
  "load_each disk r (m # ms) res =
   load_each disk (snd (load_plugin disk r (md_name m))) ms (dset res (md_name m) (outcome (fst (load_plugin disk r (md_name m)))))"
  by (simp add: outcome_def split: prod.split sum.split)

lemma load_each_exact:
  "dget (fst (load_each disk r ms res)) n =
     (if n \<in> md_name ` set ms then Some (outcome (fst (load_plugin disk r n))) else dget res n) \<and>
   rg_discovered (snd (load_each disk r ms res)) = rg_discovered r \<and>
   rg_factories (snd (load_each disk r ms res)) = rg_factories r"
proof (induction ms arbitrary: r res)
  case (Cons m ms)
  let ?r = "snd (load_plugin disk r (md_name m))"
  have "fst (load_plugin disk ?r n) = fst (load_plugin disk r n)"
    by (rule load_plugin_same_known) (rule load_plugin_frame)+
  with Cons.IH [of ?r] show ?case
    unfolding load_each_Cons by (auto simp: load_plugin_frame)
qed simp

lemma load_plugin_instances:
  "get_instance (snd (load_plugin disk r n)) k =
     (if k = n \<and> outcome (fst (load_plugin disk r n)) \<noteq> None then outcome (fst (load_plugin disk r n)) else get_instance r k)"
  by (cases rule: load_plugin_cases [of r n disk])
    (simp_all add: outcome_def get_instance_def set_error_def register_instance_def)

lemma load_each_instances:
  "get_instance (snd (load_each disk r ms res)) n =
     (if n \<in> md_name ` set ms \<and> outcome (fst (load_plugin disk r n)) \<noteq> None
      then outcome (fst (load_plugin disk r n)) else get_instance r n)"
proof (induction ms arbitrary: r res)
  case (Cons m ms)
  let ?r = "snd (load_plugin disk r (md_name m))"
  have "fst (load_plugin disk ?r n) = fst (load_plugin disk r n)"
    by (rule load_plugin_same_known) (rule load_plugin_frame)+
  with Cons.IH [of ?r] show ?case
    unfolding load_each_Cons by (auto simp: load_plugin_instances)
qed simp

text \<open>Loading all plugins is loading each of them by
  itself: the outcome for every discovered plugin, and whether it ends up loaded, is what
  load_plugin yields for it in the registry at the start. The order does not matter, a failure
  touches no other plugin, and a plugin is loaded even when one it requires fails to load, since
  requirements are checked against what is discovered.\<close>

theorem load_all_exact:
  "dget (fst (load_all disk r)) n =
     (if n \<in> md_name ` set (list_discovered r) then Some (outcome (fst (load_plugin disk r n))) else None) \<and>
   get_instance (snd (load_all disk r)) n =
     (if n \<in> md_name ` set (list_discovered r) \<and> outcome (fst (load_plugin disk r n)) \<noteq> None
      then outcome (fst (load_plugin disk r n)) else get_instance r n)"
  by (simp add: load_all_def load_each_exact load_each_instances)

text \<open>Unloading forgets how to make the plugin: a plugin
  that came from an entry point, with no file of its name in the plugin directory, is still
  listed as discovered after it was unloaded, but loading it again fails.\<close>

theorem unload_forgets_factory:
  assumes "unload_plugin r n = (True, r1)" "get_metadata r n = Some m" "md_name m = n" "check_dependencies r n = []" "disk n = []"
  shows "get_metadata r1 n = Some m \<and> load_plugin disk r1 n = (Inl PluginLoadError, r1)"
proof (cases rule: unload_plugin_cases [of r n])
  case (gone p)
  then have r1: "r1 = r\<lparr>rg_instances := ddel (rg_instances r) n, rg_factories := ddel (rg_factories r) n\<rparr>" using assms(1) by simp
  have "check_dependencies r1 n = []" using check_dependencies_frame [of r1 r n] assms(4) by (simp add: r1)
  then show ?thesis using assms(2,3,5) by (simp add: load_plugin_def instantiate_plugin_def get_metadata_def r1)
qed (use assms in simp_all)

definition sample_entry :: "unit entry_point" where
  "sample_entry =
     \<lparr>ep_name = ''base'', ep_import = None, ep_factory = Inr quiet_plugin, ep_metadata = Inr (bare_metadata ''base'')\<rparr>"

definition sample_loaded :: "unit registry" where
  "sample_loaded = run_ops (pl_step (\<lambda>_. [])) new_registry [PL_Discover None [sample_entry], PL_Load ''base'']"

lemma sample_unload:
  "fst (unload_plugin sample_loaded ''base'')"
  "get_metadata sample_loaded ''base'' = Some ((bare_metadata ''base'')\<lparr>md_entry_point := Some ''base''\<rparr>)"
  "check_dependencies sample_loaded ''base'' = []"
  by code_simp+

theorem unload_forgets_factory_witness:
  "\<exists>r1. unload_plugin sample_loaded ''base'' = (True, r1) \<and> load_plugin (\<lambda>_. []) r1 ''base'' = (Inl PluginLoadError, r1)"
proof -
  obtain r1 where u: "unload_plugin sample_loaded ''base'' = (True, r1)"
    using sample_unload(1) by (cases "unload_plugin sample_loaded ''base''") simp
  from unload_forgets_factory [OF u sample_unload(2) _ sample_unload(3), of "\<lambda>_. []"] u show ?thesis
    by (simp add: bare_metadata_def)
qed

end
