(* ===== verification/Live_Engine.thy ===== *)
theory Live_Engine
  imports Execution_Engine Risk_Manager Error_Handler
begin

section \<open>The live trading engine (\<open>src/trading/live_engine.py\<close>)\<close>

text \<open>
  The engine that trades through a real broker: life cycle, connection with retries under a
  circuit breaker, order submission with its guards, cancellation, fills, draw-down tracking,
  health checks and synchronization with the broker. It owns an execution engine and watches
  the same broker. The portfolio is an object it reads: a view holds what the attributes read
  by the code yield. What a coroutine awaits is one step with the broker's answer; the
  background loops are runs of the steps they repeat. Handlers are numbers, and the calls of
  handlers are logged; what they raise is caught.

  The order manager calls \<open>handle_fill\<close> while the execution engine works. It touches nothing
  the execution engine reads, so the model collects the fills in the engine's world
  (\<open>lw_fills\<close>) and handles them when the call returns.
\<close>

datatype trading_mode = PAPER | LIVE | WARMUP | STANDBY

datatype engine_health = HEALTHY | DEGRADED | CRITICAL | OFFLINE

record live_config =
  lc_broker_timeout :: flt
  lc_max_retry_attempts :: int
  lc_health_check_interval :: flt
  lc_position_sync_interval :: flt
  lc_order_sync_interval :: flt
  lc_max_pending_orders :: int
  lc_max_daily_trades :: int
  lc_max_daily_volume :: dec
  lc_loss_pct :: flt
  lc_cooldown :: flt
  lc_allow_partial_fills :: bool
  lc_auto_reconnect :: bool
  lc_reconnect_max_attempts :: nat
  lc_reconnect_delay :: flt
  lc_reconnect_backoff :: flt
  lc_max_position_size_pct :: flt
  lc_max_total_exposure_pct :: flt
  lc_max_drawdown_pct :: flt
  lc_max_concentration_pct :: flt
  lc_min_cash_buffer :: dec

definition default_live_config :: live_config where
  "default_live_config =
     \<lparr>lc_broker_timeout = flt_int 10, lc_max_retry_attempts = 3, lc_health_check_interval = flt_int 5,
      lc_position_sync_interval = flt_int 30, lc_order_sync_interval = flt_int 10, lc_max_pending_orders = 50,
      lc_max_daily_trades = 100, lc_max_daily_volume = dec_int 1000000, lc_loss_pct = flt_int 5,
      lc_cooldown = flt_int 300, lc_allow_partial_fills = True, lc_auto_reconnect = True,
      lc_reconnect_max_attempts = 10, lc_reconnect_delay = flt_int 1, lc_reconnect_backoff = flt_int 2,
      lc_max_position_size_pct = flt_int 10, lc_max_total_exposure_pct = flt_int 100,
      lc_max_drawdown_pct = flt_int 20, lc_max_concentration_pct = flt_int 25, lc_min_cash_buffer = dec_int 1000\<rparr>"

record live_stats =
  ls_session_start :: time
  ls_submitted :: nat
  ls_filled :: nat
  ls_rejected :: nat
  ls_cancelled :: nat
  ls_trades :: nat
  ls_volume :: dec
  ls_commission :: dec
  ls_slippage :: dec
  ls_net_pnl :: dec
  ls_peak :: dec
  ls_drawdown :: flt
  ls_connection_drops :: nat
  ls_last_error :: "string option"
  ls_last_error_time :: "time option"
  ls_breaker_active :: bool
  ls_breaker_triggered :: "time option"

definition new_live_stats :: "time \<Rightarrow> live_stats" where
  "new_live_stats now =
     \<lparr>ls_session_start = now, ls_submitted = 0, ls_filled = 0, ls_rejected = 0, ls_cancelled = 0, ls_trades = 0,
      ls_volume = 0, ls_commission = 0, ls_slippage = 0, ls_net_pnl = 0, ls_peak = 0, ls_drawdown = 0,
      ls_connection_drops = 0, ls_last_error = None, ls_last_error_time = None, ls_breaker_active = False,
      ls_breaker_triggered = None\<rparr>"

record live_stats_dict =
  ld_submitted :: nat
  ld_filled :: nat
  ld_rejected :: nat
  ld_cancelled :: nat
  ld_trades :: nat
  ld_volume :: flt
  ld_commission :: flt
  ld_slippage :: flt
  ld_net_pnl :: flt
  ld_peak :: flt
  ld_drawdown :: flt
  ld_connection_drops :: nat
  ld_breaker_active :: bool
  ld_last_error :: "string option"

definition live_stats_to_dict :: "live_stats \<Rightarrow> live_stats_dict" where
  "live_stats_to_dict s =
     \<lparr>ld_submitted = ls_submitted s, ld_filled = ls_filled s, ld_rejected = ls_rejected s,
      ld_cancelled = ls_cancelled s, ld_trades = ls_trades s, ld_volume = flt_of_dec (ls_volume s),
      ld_commission = flt_of_dec (ls_commission s), ld_slippage = flt_of_dec (ls_slippage s),
      ld_net_pnl = flt_of_dec (ls_net_pnl s), ld_peak = flt_of_dec (ls_peak s), ld_drawdown = ls_drawdown s,
      ld_connection_drops = ls_connection_drops s, ld_breaker_active = ls_breaker_active s,
      ld_last_error = ls_last_error s\<rparr>"

subsection \<open>The trade logger\<close>

datatype refusal =
    Not_Running
  | In_Warmup
  | Breaker_Active
  | Bad_Health engine_health
  | Daily_Trades_Reached int
  | Daily_Volume_Exceeded dec
  | Too_Many_Pending int
  | Risk_Refused risk_reason
  | Broker_Rejected

datatype log_entry =
    Log_Submitted time string string order_side order_type flt "flt option" "flt option"
  | Log_Filled time string string string order_side flt flt flt flt flt flt
  | Log_Rejected time string string refusal
  | Log_Error time string exn string

record trade_logger =
  tl_trades :: "log_entry list"
  tl_orders :: "log_entry list"
  tl_errors :: "log_entry list"
  tl_max :: nat

definition new_trade_logger :: trade_logger where
  "new_trade_logger = \<lparr>tl_trades = [], tl_orders = [], tl_errors = [], tl_max = 10000\<rparr>"

definition add_to_log :: "nat \<Rightarrow> 'a list \<Rightarrow> 'a \<Rightarrow> 'a list" where
  "add_to_log mx old x = (let l = old @ [x] in if mx < length l then tl l else l)"

text \<open>\<open>float(p) if p else None\<close>\<close>

definition opt_float :: "dec option \<Rightarrow> flt option" where
  "opt_float p = (case p of None \<Rightarrow> None | Some d \<Rightarrow> if d = 0 then None else Some (flt_of_dec d))"

definition log_order_submitted :: "trade_logger \<Rightarrow> order \<Rightarrow> time \<Rightarrow> trade_logger" where
  "log_order_submitted l x now =
     l\<lparr>tl_orders := add_to_log (tl_max l) (tl_orders l)
        (Log_Submitted now (o_id x) (symbol_str (o_symbol x)) (o_side x) (o_type x) (flt_of_dec (o_quantity x))
          (opt_float (o_limit_price x)) (opt_float (o_stop_price x)))\<rparr>"

definition log_order_fill :: "trade_logger \<Rightarrow> order \<Rightarrow> fill \<Rightarrow> time \<Rightarrow> trade_logger" where
  "log_order_fill l x f now =
     l\<lparr>tl_trades := add_to_log (tl_max l) (tl_trades l)
        (Log_Filled now (o_id x) (f_id f) (symbol_str (o_symbol x)) (o_side x) (flt_of_dec (f_quantity f))
          (flt_of_dec (f_price f)) (flt_of_dec (f_commission f)) (flt_of_dec (f_slippage f))
          (flt_of_dec (o_filled x)) (flt_of_dec (o_remaining x)))\<rparr>"

definition log_order_rejected :: "trade_logger \<Rightarrow> order \<Rightarrow> refusal \<Rightarrow> time \<Rightarrow> trade_logger" where
  "log_order_rejected l x reason now =
     l\<lparr>tl_orders := add_to_log (tl_max l) (tl_orders l)
        (Log_Rejected now (o_id x) (symbol_str (o_symbol x)) reason)\<rparr>"

definition log_error :: "trade_logger \<Rightarrow> string \<Rightarrow> exn \<Rightarrow> string \<Rightarrow> time \<Rightarrow> trade_logger" where
  "log_error l source e ctx now =
     l\<lparr>tl_errors := add_to_log (tl_max l) (tl_errors l) (Log_Error now source e ctx)\<rparr>"

definition get_recent_trades :: "trade_logger \<Rightarrow> int \<Rightarrow> log_entry list" where
  "get_recent_trades l n = slice_last n (tl_trades l)"

definition get_recent_orders :: "trade_logger \<Rightarrow> int \<Rightarrow> log_entry list" where
  "get_recent_orders l n = slice_last n (tl_orders l)"

definition get_recent_errors :: "trade_logger \<Rightarrow> int \<Rightarrow> log_entry list" where
  "get_recent_errors l n = slice_last n (tl_errors l)"

definition clear_logs :: "trade_logger \<Rightarrow> trade_logger" where
  "clear_logs l = l\<lparr>tl_trades := [], tl_orders := [], tl_errors := []\<rparr>"

subsection \<open>State\<close>

record le_world = ee_world +
  lw_fills :: "fill list"

text \<open>What the broker reports; the base class promises neither method.\<close>

record 'b broker_reports =
  rp_orders :: "'b \<Rightarrow> (exn + order list) \<times> 'b"
  rp_positions :: "'b \<Rightarrow> (exn + position list) \<times> 'b"

text \<open>
  The attributes of the portfolio that the engine reads. The library's \<open>Portfolio\<close> has no
  method \<open>get_cash\<close>.
\<close>

record portfolio_view =
  pv_total_value :: "exn + dec"
  pv_get_cash :: "exn + dec"

definition view_of :: "portfolio \<Rightarrow> portfolio_view" where
  "view_of pf = \<lparr>pv_total_value = Inr (total_value pf), pv_get_cash = Inl AttributeError\<rparr>"

datatype live_data =
    Mode_Data trading_mode
  | No_Data
  | Order_Data string string order_side flt order_type
  | Cancel_Data string string
  | Fill_Data string string string order_side flt flt flt flt
  | Health_Data engine_health engine_health

datatype handler_call =
    Order_Call nat oref
  | Fill_Call nat fill
  | Health_Call nat engine_health
  | Breaker_Call nat string

record 'b live_engine =
  le_portfolio :: portfolio_view
  le_engine :: "('b, unit le_world_ext) exec_engine"
  le_reports :: "'b broker_reports"
  le_config :: live_config
  le_mode :: trading_mode
  le_risk :: "(risk_manager \<times> portfolio) option"
  le_log :: trade_logger
  le_breaker :: breaker
  le_stats :: live_stats
  le_running :: bool
  le_health :: engine_health
  le_connected :: bool
  le_daily_trades :: int
  le_daily_volume :: dec
  le_daily_reset :: "time option"
  le_pending :: "(string, oref) dict"
  le_events :: "live_data event list"
  le_on_order :: "nat list"
  le_on_fill :: "nat list"
  le_on_error :: "nat list"
  le_on_health :: "nat list"
  le_on_breaker :: "nat list"
  le_calls :: "handler_call list"

text \<open>The callback \<open>handle_fill\<close> as the order manager sees it, and the hook of the breaker.\<close>

definition defer_fill :: "(fill, 'w le_world_scheme) callback" where
  "defer_fill f w = (w\<lparr>lw_fills := lw_fills w @ [f]\<rparr>, None)"

definition on_open_hook :: nat where
  "on_open_hook = 0"

definition live_breaker :: "live_config \<Rightarrow> breaker" where
  "live_breaker c =
     (new_breaker (default_breaker_config\<lparr>bc_failure_threshold := 5, bc_cooldown := lc_cooldown c\<rparr>) ''live_engine'')
       \<lparr>cb_on_open := [on_open_hook]\<rparr>"

definition own_engine ::
  "('b broker_ops \<times> 'b) option \<Rightarrow> commission_model \<Rightarrow> slippage_model \<Rightarrow> heap \<Rightarrow> nat \<Rightarrow>
   ('b, unit le_world_ext) exec_engine" where
  "own_engine br cm sm h n =
     (let e = engine_within (le_world.fields []) br cm sm h n
      in e\<lparr>ee_om := (ee_om e)\<lparr>om_on_fill := om_on_fill (ee_om e) @ [defer_fill]\<rparr>\<rparr>)"

definition new_live_engine ::
  "portfolio_view \<Rightarrow> ('b, unit le_world_ext) exec_engine \<Rightarrow> 'b broker_reports \<Rightarrow> live_config \<Rightarrow> trading_mode \<Rightarrow>
   time \<Rightarrow> 'b live_engine" where
  "new_live_engine pv e rp c mode now =
     \<lparr>le_portfolio = pv, le_engine = e, le_reports = rp, le_config = c, le_mode = mode, le_risk = None,
      le_log = new_trade_logger, le_breaker = live_breaker c, le_stats = new_live_stats now, le_running = False,
      le_health = OFFLINE, le_connected = False, le_daily_trades = 0, le_daily_volume = 0, le_daily_reset = None,
      le_pending = [], le_events = [], le_on_order = [], le_on_fill = [], le_on_error = [], le_on_health = [],
      le_on_breaker = [], le_calls = []\<rparr>"

subsection \<open>Events, errors and the breaker\<close>

definition le_emit :: "'b live_engine \<Rightarrow> event_type \<Rightarrow> live_data \<Rightarrow> time \<Rightarrow> 'b live_engine" where
  "le_emit e t d now =
     e\<lparr>le_events := le_events e @ [\<lparr>e_type = t, e_timestamp = now, e_data = d, e_symbol = None\<rparr>]\<rparr>"

definition le_error :: "'b live_engine \<Rightarrow> string \<Rightarrow> exn \<Rightarrow> string \<Rightarrow> time \<Rightarrow> 'b live_engine" where
  "le_error e source x ctx now = e\<lparr>le_log := log_error (le_log e) source x ctx now\<rparr>"

definition on_cb_open :: "'b live_engine \<Rightarrow> string \<Rightarrow> time \<Rightarrow> 'b live_engine" where
  "on_cb_open e name now =
     e\<lparr>le_stats := (le_stats e)\<lparr>ls_breaker_active := True, ls_breaker_triggered := Some now\<rparr>,
       le_calls := le_calls e @ map (\<lambda>h. Breaker_Call h name) (le_on_breaker e)\<rparr>"

text \<open>
  The breaker after an operation on it; \<open>_on_cb_open\<close> runs for every call of the hook that the
  operation has made.
\<close>

definition put_live_breaker :: "'b live_engine \<Rightarrow> breaker \<Rightarrow> time \<Rightarrow> 'b live_engine" where
  "put_live_breaker e b now =
     (let new_calls = drop (length (cb_calls (le_breaker e))) (cb_calls b)
      in foldl (\<lambda>e (h, name). if h = on_open_hook then on_cb_open e name now else e)
           (e\<lparr>le_breaker := b\<rparr>) new_calls)"

definition put_live_broker :: "'b live_engine \<Rightarrow> 'b \<Rightarrow> 'b live_engine" where
  "put_live_broker e b = e\<lparr>le_engine := put_broker (le_engine e) b\<rparr>"

subsection \<open>Connection\<close>

definition connect_broker :: "'b live_engine \<Rightarrow> time \<Rightarrow> bool \<times> 'b live_engine" where
  "connect_broker e now =
     (case ee_broker (le_engine e) of
        None \<Rightarrow> if le_mode e = LIVE then (False, e) else (True, e\<lparr>le_connected := True\<rparr>)
      | Some (ops, b) \<Rightarrow>
          (case br_connect ops b of (res, b1) \<Rightarrow>
           let e1 = put_live_broker e b1 in
           case res of
             Inr True \<Rightarrow> (True, e1\<lparr>le_connected := True, le_health := HEALTHY\<rparr>)
           | Inr False \<Rightarrow> (False, e1\<lparr>le_connected := False, le_health := CRITICAL\<rparr>)
           | Inl x \<Rightarrow>
               (let e2 = (if x = PyTimeoutError then e1 else le_error e1 ''broker.connect'' x [] now)
                in (False, e2\<lparr>le_connected := False, le_health := CRITICAL\<rparr>))))"

definition disconnect_broker :: "'b live_engine \<Rightarrow> time \<Rightarrow> 'b live_engine" where
  "disconnect_broker e now =
     (let e1 = (case ee_broker (le_engine e) of
                  None \<Rightarrow> e
                | Some (ops, b) \<Rightarrow>
                    (case br_disconnect ops b of
                       (None, b1) \<Rightarrow> put_live_broker e b1
                     | (Some x, b1) \<Rightarrow> le_error (put_live_broker e b1) ''broker.disconnect'' x [] now))
      in e1\<lparr>le_connected := False\<rparr>)"

definition do_single_reconnect :: "time \<Rightarrow> 'b live_engine \<Rightarrow> (exn + bool) \<times> 'b live_engine" where
  "do_single_reconnect now e =
     (case connect_broker e now of (ok, e1) \<Rightarrow> (if ok then Inr True else Inl ConnectionError, e1))"

definition reconnect_config :: "live_config \<Rightarrow> retry_config" where
  "reconnect_config c =
     \<lparr>rc_max_attempts = lc_reconnect_max_attempts c, rc_base_delay = lc_reconnect_delay c,
      rc_backoff = lc_reconnect_backoff c, rc_max_delay = flt_int 60, rc_jitter = True\<rparr>"

text \<open>\<open>clk\<close> and \<open>draw\<close> are the clock readings and the random numbers of the attempts.\<close>

definition count_drop :: "'b live_engine \<Rightarrow> 'b live_engine" where
  "count_drop e = e\<lparr>le_stats := (le_stats e)\<lparr>ls_connection_drops := ls_connection_drops (le_stats e) + 1\<rparr>\<rparr>"

definition after_retry :: "'b live_engine \<Rightarrow> breaker option \<Rightarrow> time \<Rightarrow> 'b live_engine" where
  "after_retry e cb now = (case cb of None \<Rightarrow> e | Some b \<Rightarrow> put_live_breaker e b now)"

definition reconnect_broker ::
  "'b live_engine \<Rightarrow> (nat \<Rightarrow> time \<times> time) \<Rightarrow> (nat \<Rightarrow> flt) \<Rightarrow> time \<Rightarrow> bool \<times> 'b live_engine" where
  "reconnect_broker e clk draw now =
     (if \<not> lc_auto_reconnect (le_config e) \<or> ee_broker (le_engine e) = None then (False, e)
      else
        case retry_async (reconnect_config (le_config e)) (\<lambda>_. False) (do_single_reconnect now) clk draw
               (Some (le_breaker e)) (count_drop e) of
          (Inr _, _, cb, e1) \<Rightarrow> (True, after_retry e1 cb now)
        | (Inl _, _, cb, e1) \<Rightarrow> (False, (after_retry e1 cb now)\<lparr>le_health := OFFLINE\<rparr>))"

subsection \<open>Fills\<close>

definition handle_fill :: "'b live_engine \<Rightarrow> fill \<Rightarrow> time \<Rightarrow> 'b live_engine" where
  "handle_fill e f now =
     (let found = (case dget (le_pending e) (f_order_id f) of
                     Some r \<Rightarrow> Some r
                   | None \<Rightarrow> get_order (ee_oms (le_engine e)) (f_order_id f));
          e1 = e\<lparr>le_pending := ddel (le_pending e) (f_order_id f)\<rparr>
      in case found of
           None \<Rightarrow> e1
         | Some r \<Rightarrow>
             (let st = le_stats e1;
                  e2 = e1\<lparr>le_log := log_order_fill (le_log e1) (ee_heap (le_engine e1) r) f now,
                          le_stats := st\<lparr>ls_filled := ls_filled st + 1, ls_volume := ls_volume st + f_quantity f,
                            ls_commission := ls_commission st + f_commission f,
                            ls_slippage := ls_slippage st + f_slippage f\<rparr>\<rparr>;
                  e3 = le_emit e2 ORDER_FILLED
                         (Fill_Data (f_order_id f) (f_id f) (symbol_str (f_symbol f)) (f_side f)
                           (flt_of_dec (f_quantity f)) (flt_of_dec (f_price f)) (flt_of_dec (f_commission f))
                           (flt_of_dec (f_slippage f))) now
              in e3\<lparr>le_calls := le_calls e3 @ map (\<lambda>h. Fill_Call h f) (le_on_fill e3)\<rparr>))"

text \<open>The execution engine after a call, with the fills of the call handled.\<close>

definition put_engine :: "'b live_engine \<Rightarrow> ('b, unit le_world_ext) exec_engine \<Rightarrow> time \<Rightarrow> 'b live_engine" where
  "put_engine e ee now =
     foldl (\<lambda>e f. handle_fill e f now)
       (e\<lparr>le_engine := ee\<lparr>ee_world := (ee_world ee)\<lparr>lw_fills := []\<rparr>\<rparr>\<rparr>) (lw_fills (ee_world ee))"

subsection \<open>Orders\<close>

text \<open>\<open>order.limit_price or d\<close>\<close>

definition limit_or :: "order \<Rightarrow> dec \<Rightarrow> dec" where
  "limit_or x d = (case o_limit_price x of None \<Rightarrow> d | Some p \<Rightarrow> if p = 0 then d else p)"

definition order_volume :: "order \<Rightarrow> dec" where
  "order_volume x = o_quantity x * limit_or x (dec_int 1)"

text \<open>
  The early returns of \<open>submit_order\<close>, in order. Asking the breaker may move it to half-open,
  and only when the earlier guards let the order pass.
\<close>

definition submit_guards :: "'b live_engine \<Rightarrow> order \<Rightarrow> time \<Rightarrow> refusal option \<times> 'b live_engine" where
  "submit_guards e x now =
     (if \<not> le_running e then (Some Not_Running, e)
      else if le_mode e = WARMUP then (Some In_Warmup, e)
      else case cb_is_active (le_breaker e) now of (active, b) \<Rightarrow>
        let e1 = put_live_breaker e b now; c = le_config e1 in
        if active then (Some Breaker_Active, e1)
        else if le_health e1 = CRITICAL \<or> le_health e1 = OFFLINE then (Some (Bad_Health (le_health e1)), e1)
        else if lc_max_daily_trades c \<le> le_daily_trades e1 then (Some (Daily_Trades_Reached (lc_max_daily_trades c)), e1)
        else if lc_max_daily_volume c < le_daily_volume e1 + order_volume x
        then (Some (Daily_Volume_Exceeded (lc_max_daily_volume c)), e1)
        else if lc_max_pending_orders c \<le> int (length (le_pending e1))
        then (Some (Too_Many_Pending (lc_max_pending_orders c)), e1)
        else (None, e1))"

definition risk_guard :: "'b live_engine \<Rightarrow> order \<Rightarrow> bool \<Rightarrow> exn + bool \<times> risk_reason" where
  "risk_guard e x check_risk =
     (case le_risk e of
        None \<Rightarrow> Inr (True, Risk_Passed)
      | Some (rm, pf) \<Rightarrow>
          if check_risk \<and> le_mode e = LIVE then check_order rm pf x (limit_or x (dec_int 100))
          else Inr (True, Risk_Passed))"

definition count_rejected :: "'b live_engine \<Rightarrow> 'b live_engine" where
  "count_rejected e = e\<lparr>le_stats := (le_stats e)\<lparr>ls_rejected := ls_rejected (le_stats e) + 1\<rparr>\<rparr>"

text \<open>
  \<open>submit_order\<close> on the order object \<open>r\<close>. What the risk manager raises reaches the caller. The
  execution engine catches what the broker raises, so its call returns.
\<close>

definition le_submit ::
  "'b live_engine \<Rightarrow> oref \<Rightarrow> bool \<Rightarrow> time \<Rightarrow> (exn + refusal option) \<times> 'b live_engine" where
  "le_submit e r check_risk now =
     (let x = ee_heap (le_engine e) r in
      case submit_guards e x now of
        (Some why, e1) \<Rightarrow> (Inr (Some why), e1)
      | (None, e1) \<Rightarrow>
          (case risk_guard e1 x check_risk of
             Inl exn \<Rightarrow> (Inl exn, e1)
           | Inr (passed, reason) \<Rightarrow>
               if \<not> passed
               then (Inr (Some (Risk_Refused reason)),
                     count_rejected (e1\<lparr>le_log := log_order_rejected (le_log e1) x (Risk_Refused reason) now\<rparr>))
               else
                 (case submit_order (le_engine e1) r now of (ok, ee) \<Rightarrow>
                  let e2 = put_engine e1 ee now; x2 = ee_heap ee r in
                  if ok
                  then
                    (let st = le_stats e2;
                         e3 = e2\<lparr>le_pending := dset (le_pending e2) (o_id x2) r,
                                 le_stats := st\<lparr>ls_submitted := ls_submitted st + 1\<rparr>,
                                 le_daily_trades := le_daily_trades e2 + 1,
                                 le_daily_volume := le_daily_volume e2 + order_volume x,
                                 le_log := log_order_submitted (le_log e2) x2 now\<rparr>;
                         e4 = le_emit e3 ORDER_SUBMITTED
                                (Order_Data (o_id x2) (symbol_str (o_symbol x2)) (o_side x2)
                                  (flt_of_dec (o_quantity x2)) (o_type x2)) now
                     in (Inr None, e4\<lparr>le_calls := le_calls e4 @ map (\<lambda>h. Order_Call h r) (le_on_order e4)\<rparr>))
                  else
                    (Inr (Some Broker_Rejected),
                     count_rejected (e2\<lparr>le_log := log_order_rejected (le_log e2) x2 Broker_Rejected now\<rparr>)))))"

definition cancel_live :: "'b live_engine \<Rightarrow> oref \<Rightarrow> time \<Rightarrow> bool \<times> 'b live_engine" where
  "cancel_live e r now =
     (let x = ee_heap (le_engine e) r in
      case ee_cancel_order (le_engine e) (o_id x) now of (ok, ee) \<Rightarrow>
      let e1 = put_engine e ee now in
      if ok
      then
        (let st = le_stats e1;
             e2 = e1\<lparr>le_pending := ddel (le_pending e1) (o_id x),
                     le_stats := st\<lparr>ls_cancelled := ls_cancelled st + 1\<rparr>\<rparr>
         in (True, le_emit e2 ORDER_CANCELLED (Cancel_Data (o_id x) (symbol_str (o_symbol x))) now))
      else (False, e1))"

definition le_cancel :: "'b live_engine \<Rightarrow> string \<Rightarrow> time \<Rightarrow> bool \<times> 'b live_engine" where
  "le_cancel e oid now =
     (case (case dget (le_pending e) oid of Some r \<Rightarrow> Some r | None \<Rightarrow> get_order (ee_oms (le_engine e)) oid) of
        None \<Rightarrow> (False, e)
      | Some r \<Rightarrow> cancel_live e r now)"

fun cancel_refs :: "'b live_engine \<Rightarrow> oref list \<Rightarrow> time \<Rightarrow> nat \<times> 'b live_engine" where
  "cancel_refs e [] now = (0, e)"
| "cancel_refs e (r # rs) now =
     (case cancel_live e r now of (ok, e1) \<Rightarrow>
      case cancel_refs e1 rs now of (n, e2) \<Rightarrow> (if ok then n + 1 else n, e2))"

definition le_cancel_all :: "'b live_engine \<Rightarrow> symbol option \<Rightarrow> time \<Rightarrow> nat \<times> 'b live_engine" where
  "le_cancel_all e sy now =
     cancel_refs e
       (filter (\<lambda>r. case sy of None \<Rightarrow> True | Some s \<Rightarrow> symbol_eq (o_symbol (ee_heap (le_engine e) r)) s)
         (dvals (le_pending e))) now"

subsection \<open>Life cycle\<close>

definition le_start :: "'b live_engine \<Rightarrow> time \<Rightarrow> bool \<times> 'b live_engine" where
  "le_start e now =
     (if le_running e then (True, e)
      else
        case connect_broker (e\<lparr>le_running := True, le_stats := (le_stats e)\<lparr>ls_session_start := now\<rparr>\<rparr>) now of
          (False, e1) \<Rightarrow> (False, e1\<lparr>le_running := False\<rparr>)
        | (True, e1) \<Rightarrow> (True, le_emit (e1\<lparr>le_health := HEALTHY\<rparr>) START (Mode_Data (le_mode e1)) now))"

definition le_stop :: "'b live_engine \<Rightarrow> time \<Rightarrow> 'b live_engine" where
  "le_stop e now =
     (if \<not> le_running e then e
      else
        (let e1 = e\<lparr>le_running := False\<rparr>;
             e2 = (if lc_auto_reconnect (le_config e1) \<and> le_pending e1 \<noteq> []
                   then snd (cancel_refs e1 (dvals (le_pending e1)) now) else e1);
             e3 = (disconnect_broker e2 now)\<lparr>le_health := OFFLINE\<rparr>
         in le_emit e3 STOP_EVENT (Mode_Data (le_mode e3)) now))"

definition le_pause :: "'b live_engine \<Rightarrow> time \<Rightarrow> 'b live_engine" where
  "le_pause e now =
     (if le_running e \<and> le_mode e = LIVE then le_emit (e\<lparr>le_mode := STANDBY\<rparr>) PAUSE No_Data now else e)"

definition le_resume :: "'b live_engine \<Rightarrow> time \<Rightarrow> 'b live_engine" where
  "le_resume e now =
     (if le_running e \<and> le_mode e = STANDBY then le_emit (e\<lparr>le_mode := LIVE\<rparr>) RESUME No_Data now else e)"

definition le_set_risk_manager :: "'b live_engine \<Rightarrow> risk_manager \<Rightarrow> portfolio \<Rightarrow> 'b live_engine" where
  "le_set_risk_manager e rm pf = e\<lparr>le_risk := Some (rm, pf)\<rparr>"

subsection \<open>Market data and draw-down\<close>

text \<open>The part of \<open>process_market_data\<close> after the execution engine has seen the tick.\<close>

definition track_drawdown :: "'b live_engine \<Rightarrow> dec \<Rightarrow> time \<Rightarrow> 'b live_engine" where
  "track_drawdown e current_value now =
     (let st = le_stats e;
          e1 = (if ls_peak st < current_value then e\<lparr>le_stats := st\<lparr>ls_peak := current_value\<rparr>\<rparr> else e);
          peak = ls_peak (le_stats e1)
      in if 0 < peak
         then
           (let dd = flt_of_dec ((peak - current_value) / peak * dec_int 100);
                e2 = e1\<lparr>le_stats := (le_stats e1)\<lparr>ls_drawdown := dd\<rparr>\<rparr>
            in if lc_loss_pct (le_config e2) \<le> dd then put_live_breaker e2 (cb_trip (le_breaker e2) now) now else e2)
         else e1)"

definition process_market_tick :: "'b live_engine \<Rightarrow> tick \<Rightarrow> string \<Rightarrow> time \<Rightarrow> 'b live_engine" where
  "process_market_tick e tk stamp now =
     (if \<not> le_running e then e
      else
        case process_tick (le_engine e) tk stamp now of
          (Some x, ee) \<Rightarrow> le_error (put_engine e ee now) ''market_data'' x [] now
        | (None, ee) \<Rightarrow>
            (let e1 = put_engine e ee now in
             case pv_total_value (le_portfolio e1) of
               Inl x \<Rightarrow> le_error e1 ''market_data'' x [] now
             | Inr v \<Rightarrow> track_drawdown e1 v now))"

subsection \<open>Risk control\<close>

datatype live_risk_reason =
    Live_Passed
  | Drawdown_Halt flt flt
  | Position_Pct flt flt
  | Cash_Below dec dec

definition check_order_risk :: "'b live_engine \<Rightarrow> order \<Rightarrow> dec \<Rightarrow> exn + bool \<times> live_risk_reason" where
  "check_order_risk e x price =
     and_then (pv_total_value (le_portfolio e)) (\<lambda>value.
       let c = le_config e; dd = ls_drawdown (le_stats e); pct = percent_of (o_quantity x * price) value in
       if lc_max_drawdown_pct c \<le> dd then Inr (False, Drawdown_Halt dd (lc_max_drawdown_pct c))
       else if 0 < value \<and> lc_max_position_size_pct c < pct
       then Inr (False, Position_Pct pct (lc_max_position_size_pct c))
       else if le_mode e = LIVE
       then and_then (pv_get_cash (le_portfolio e)) (\<lambda>cash.
              if cash < lc_min_cash_buffer c then Inr (False, Cash_Below cash (lc_min_cash_buffer c))
              else Inr (True, Live_Passed))
       else Inr (True, Live_Passed))"

subsection \<open>Background tasks\<close>

text \<open>
  One round of each loop. \<open>probe\<close> is what waiting for \<open>is_connected\<close> raises, if it does;
  \<open>raises h\<close> tells whether the health handler \<open>h\<close> raises.
\<close>

fun notify_health :: "'b live_engine \<Rightarrow> nat list \<Rightarrow> (nat \<Rightarrow> bool) \<Rightarrow> engine_health \<Rightarrow> time \<Rightarrow> 'b live_engine" where
  "notify_health e [] raises previous now = e"
| "notify_health e (h # hs) raises previous now =
     (let e1 = e\<lparr>le_calls := le_calls e @ [Health_Call h (le_health e)]\<rparr>
      in notify_health
           (if raises h then le_emit e1 WEBSOCKET_MESSAGE (Health_Data previous (le_health e1)) now else e1)
           hs raises previous now)"

definition health_check ::
  "'b live_engine \<Rightarrow> exn option \<Rightarrow> (nat \<Rightarrow> bool) \<Rightarrow> (nat \<Rightarrow> time \<times> time) \<Rightarrow> (nat \<Rightarrow> flt) \<Rightarrow> time \<Rightarrow> 'b live_engine" where
  "health_check e probe raises clk draw now =
     (let previous = le_health e;
          e1 = (case ee_broker (le_engine e) of
                  None \<Rightarrow> e\<lparr>le_health := HEALTHY, le_connected := True\<rparr>
                | Some (ops, b) \<Rightarrow>
                    (case probe of
                       Some x \<Rightarrow>
                         (let e0 = e\<lparr>le_health := DEGRADED\<rparr>
                          in if x = PyTimeoutError then e0 else le_error e0 ''health_check'' x [] now)
                     | None \<Rightarrow>
                         if br_is_connected ops b then e\<lparr>le_health := HEALTHY, le_connected := True\<rparr>
                         else
                           (let e0 = e\<lparr>le_health := DEGRADED, le_connected := False\<rparr>
                            in if lc_auto_reconnect (le_config e0) then snd (reconnect_broker e0 clk draw now) else e0)))
      in if previous \<noteq> le_health e1 then notify_health e1 (le_on_health e1) raises previous now else e1)"

definition positions_differ :: "position option \<Rightarrow> position option \<Rightarrow> bool" where
  "positions_differ loc brk =
     (case (loc, brk) of
        (None, None) \<Rightarrow> False
      | (Some l, Some b) \<Rightarrow> p_quantity l \<noteq> p_quantity b \<or> p_avg_entry l \<noteq> p_avg_entry b
      | _ \<Rightarrow> True)"

definition reconcile_position :: "'b live_engine \<Rightarrow> position \<Rightarrow> time \<Rightarrow> 'b live_engine" where
  "reconcile_position e bp now =
     le_error e ''position_reconciliation'' (OtherError 0) (ticker (p_symbol bp)) now"

definition sync_positions :: "'b live_engine \<Rightarrow> time \<Rightarrow> 'b live_engine" where
  "sync_positions e now =
     (case ee_broker (le_engine e) of
        None \<Rightarrow> e
      | Some (ops, b) \<Rightarrow>
          if \<not> le_connected e then e
          else
            case rp_positions (le_reports e) b of (res, b1) \<Rightarrow>
            let e1 = put_live_broker e b1 in
            case res of
              Inl x \<Rightarrow> le_error e1 ''position_sync'' x [] now
            | Inr bps \<Rightarrow>
                foldl (\<lambda>e bp.
                    if positions_differ (pm_get_position (ew_pm (ee_world (le_engine e))) (p_symbol bp)) (Some bp)
                    then reconcile_position e bp now else e) e1 bps)"

definition ended_status :: "order_status \<Rightarrow> bool" where
  "ended_status s \<longleftrightarrow> List.member [FILLED, CANCELLED, REJECTED, EXPIRED] s"

text \<open>The loop over the pending orders; the broker's orders are looked up by the local identifier.\<close>

definition apply_report :: "'b live_engine \<Rightarrow> string \<Rightarrow> oref \<Rightarrow> order \<Rightarrow> 'b live_engine" where
  "apply_report e oid r bo =
     (let ee = le_engine e in
      if o_status bo = o_status (ee_heap ee r) then e
      else
        (let e1 = e\<lparr>le_engine := ee\<lparr>ee_heap := set_status (ee_heap ee) r (o_status bo)\<rparr>\<rparr>
         in if ended_status (o_status bo) then e1\<lparr>le_pending := ddel (le_pending e1) oid\<rparr> else e1))"

fun sync_pending :: "'b live_engine \<Rightarrow> (string, order) dict \<Rightarrow> (string \<times> oref) list \<Rightarrow> 'b live_engine" where
  "sync_pending e m [] = e"
| "sync_pending e m ((oid, r) # ps) =
     sync_pending (case dget m oid of None \<Rightarrow> e | Some bo \<Rightarrow> apply_report e oid r bo) m ps"

definition broker_order_map :: "order list \<Rightarrow> (string, order) dict" where
  "broker_order_map xs =
     dict_of (List.map_filter
       (\<lambda>x. case o_broker_id x of None \<Rightarrow> None | Some i \<Rightarrow> if i = [] then None else Some (i, x)) xs)"

definition sync_orders :: "'b live_engine \<Rightarrow> time \<Rightarrow> 'b live_engine" where
  "sync_orders e now =
     (case ee_broker (le_engine e) of
        None \<Rightarrow> e
      | Some (ops, b) \<Rightarrow>
          if \<not> le_connected e \<or> le_pending e = [] then e
          else
            case rp_orders (le_reports e) b of (res, b1) \<Rightarrow>
            let e1 = put_live_broker e b1 in
            case res of
              Inl x \<Rightarrow> le_error e1 ''order_sync'' x [] now
            | Inr xs \<Rightarrow> sync_pending e1 (broker_order_map xs) (le_pending e1))"

definition daily_reset :: "'b live_engine \<Rightarrow> time \<Rightarrow> 'b live_engine" where
  "daily_reset e now = e\<lparr>le_daily_trades := 0, le_daily_volume := 0, le_daily_reset := Some now\<rparr>"

subsection \<open>Handlers and status\<close>

definition on_order :: "'b live_engine \<Rightarrow> nat \<Rightarrow> 'b live_engine" where
  "on_order e h = e\<lparr>le_on_order := le_on_order e @ [h]\<rparr>"

definition on_fill :: "'b live_engine \<Rightarrow> nat \<Rightarrow> 'b live_engine" where
  "on_fill e h = e\<lparr>le_on_fill := le_on_fill e @ [h]\<rparr>"

definition on_error :: "'b live_engine \<Rightarrow> nat \<Rightarrow> 'b live_engine" where
  "on_error e h = e\<lparr>le_on_error := le_on_error e @ [h]\<rparr>"

definition on_health_change :: "'b live_engine \<Rightarrow> nat \<Rightarrow> 'b live_engine" where
  "on_health_change e h = e\<lparr>le_on_health := le_on_health e @ [h]\<rparr>"

definition on_circuit_breaker :: "'b live_engine \<Rightarrow> nat \<Rightarrow> 'b live_engine" where
  "on_circuit_breaker e h = e\<lparr>le_on_breaker := le_on_breaker e @ [h]\<rparr>"

record live_status =
  lv_mode :: trading_mode
  lv_health :: engine_health
  lv_running :: bool
  lv_connected :: bool
  lv_breaker_active :: bool
  lv_pending :: nat
  lv_daily_trades :: int
  lv_daily_limit :: int
  lv_daily_volume :: flt
  lv_stats :: live_stats_dict
  lv_uptime :: int

definition le_get_status :: "'b live_engine \<Rightarrow> time \<Rightarrow> live_status \<times> 'b live_engine" where
  "le_get_status e now =
     (case cb_is_active (le_breaker e) now of (active, b) \<Rightarrow>
      let e1 = put_live_breaker e b now in
      (\<lparr>lv_mode = le_mode e1, lv_health = le_health e1, lv_running = le_running e1, lv_connected = le_connected e1,
        lv_breaker_active = active, lv_pending = length (le_pending e1), lv_daily_trades = le_daily_trades e1,
        lv_daily_limit = lc_max_daily_trades (le_config e1), lv_daily_volume = flt_of_dec (le_daily_volume e1),
        lv_stats = live_stats_to_dict (le_stats e1), lv_uptime = now - ls_session_start (le_stats e1)\<rparr>, e1))"

definition get_recent_activity :: "'b live_engine \<Rightarrow> int \<Rightarrow> log_entry list \<times> log_entry list \<times> log_entry list" where
  "get_recent_activity e n =
     (get_recent_trades (le_log e) n, get_recent_orders (le_log e) n, get_recent_errors (le_log e) n)"

text \<open>The mode named by a string of \<open>create_live_engine\<close>; an unknown name is paper trading.\<close>

definition mode_named :: "string \<Rightarrow> trading_mode" where
  "mode_named s =
     (case map_of [(''paper'', PAPER), (''live'', LIVE), (''warmup'', WARMUP), (''standby'', STANDBY)] (str_lower s) of
        None \<Rightarrow> PAPER | Some m \<Rightarrow> m)"

section \<open>Runs of the live engine\<close>

text \<open>
  The calls that can come from outside and the rounds of the background loops, in any order;
  \<open>LE_Portfolio\<close> is a change of the portfolio by its owner.
\<close>

datatype le_op =
    LE_Start time
  | LE_Stop time
  | LE_Pause time
  | LE_Resume time
  | LE_Submit oref bool time
  | LE_Cancel string time
  | LE_Cancel_All "symbol option" time
  | LE_Tick tick string time
  | LE_Health "exn option" "nat \<Rightarrow> bool" "nat \<Rightarrow> time \<times> time" "nat \<Rightarrow> flt" time
  | LE_Sync_Positions time
  | LE_Sync_Orders time
  | LE_Daily_Reset time
  | LE_Status time
  | LE_Portfolio portfolio_view

fun le_step :: "'b live_engine \<Rightarrow> le_op \<Rightarrow> 'b live_engine" where
  "le_step e (LE_Start t) = snd (le_start e t)"
| "le_step e (LE_Stop t) = le_stop e t"
| "le_step e (LE_Pause t) = le_pause e t"
| "le_step e (LE_Resume t) = le_resume e t"
| "le_step e (LE_Submit r chk t) = snd (le_submit e r chk t)"
| "le_step e (LE_Cancel oid t) = snd (le_cancel e oid t)"
| "le_step e (LE_Cancel_All sy t) = snd (le_cancel_all e sy t)"
| "le_step e (LE_Tick tk stamp t) = process_market_tick e tk stamp t"
| "le_step e (LE_Health probe raises clk draw t) = health_check e probe raises clk draw t"
| "le_step e (LE_Sync_Positions t) = sync_positions e t"
| "le_step e (LE_Sync_Orders t) = sync_orders e t"
| "le_step e (LE_Daily_Reset t) = daily_reset e t"
| "le_step e (LE_Status t) = snd (le_get_status e t)"
| "le_step e (LE_Portfolio pv) = e\<lparr>le_portfolio := pv\<rparr>"

subsection \<open>What most operations leave alone\<close>

text \<open>
  \<open>steady k e e'\<close>: nothing was submitted between \<open>e\<close> and \<open>e'\<close>: the configuration and the daily
  counts are the same, no order was added to the pending ones, and the statistics did not
  forget that the breaker opened. With \<open>k\<close>, the breaker was not touched either.
\<close>

definition steady :: "bool \<Rightarrow> 'b live_engine \<Rightarrow> 'b live_engine \<Rightarrow> bool" where
  "steady k e e' \<longleftrightarrow>
     le_config e' = le_config e \<and> le_daily_trades e' = le_daily_trades e \<and> le_daily_volume e' = le_daily_volume e \<and>
     length (le_pending e') \<le> length (le_pending e) \<and> (ls_breaker_active (le_stats e) \<longrightarrow> ls_breaker_active (le_stats e')) \<and>
     (k \<longrightarrow> le_breaker e' = le_breaker e)"

lemma steady_refl [simp]: "steady k e e"
  by (simp add: steady_def)

lemma steady_trans: "steady k e e1 \<Longrightarrow> steady k e1 e2 \<Longrightarrow> steady k e e2"
  by (auto simp: steady_def)

lemma steady_upd [simp]:
  "steady k e (e1\<lparr>le_engine := ee\<rparr>) = steady k e e1" "steady k e (e1\<lparr>le_mode := m\<rparr>) = steady k e e1"
  "steady k e (e1\<lparr>le_log := l\<rparr>) = steady k e e1" "steady False e (e1\<lparr>le_breaker := b\<rparr>) = steady False e e1"
  "steady k e (e1\<lparr>le_running := ok\<rparr>) = steady k e e1" "steady k e (e1\<lparr>le_health := h\<rparr>) = steady k e e1"
  "steady k e (e1\<lparr>le_connected := ok\<rparr>) = steady k e e1" "steady k e (e1\<lparr>le_events := ev\<rparr>) = steady k e e1"
  "steady k e (e1\<lparr>le_calls := cs\<rparr>) = steady k e e1" "steady k e (e1\<lparr>le_portfolio := pv\<rparr>) = steady k e e1"
  by (simp_all add: steady_def)

lemma steady_stats:
  "steady k e e1 \<Longrightarrow> (ls_breaker_active (le_stats e1) \<Longrightarrow> ls_breaker_active st) \<Longrightarrow> steady k e (e1\<lparr>le_stats := st\<rparr>)"
  by (auto simp: steady_def)

lemma steady_ddel: "steady k e e1 \<Longrightarrow> steady k e (e1\<lparr>le_pending := ddel (le_pending e1) oid\<rparr>)"
  using length_ddel_le [of oid "le_pending e1"] by (auto simp: steady_def)

lemma steady_foldl: "(\<And>e x. steady k e (f e x)) \<Longrightarrow> steady k e (foldl f e xs)"
proof (induction xs arbitrary: e)
  case (Cons x xs)
  then show ?case using steady_trans [of _ e "f e x"] by simp
qed simp

lemma steady_emit [simp]: "steady k e (le_emit e1 t d now) = steady k e e1"
  by (simp add: le_emit_def)

lemma steady_error [simp]: "steady k e (le_error e1 src x ctx now) = steady k e e1"
  by (simp add: le_error_def)

lemma steady_broker [simp]: "steady k e (put_live_broker e1 b) = steady k e e1"
  by (simp add: put_live_broker_def)

lemma steady_cb_open: "steady k e (on_cb_open e name now)"
  by (simp add: on_cb_open_def steady_stats)

lemma steady_breaker: "steady False e e1 \<Longrightarrow> steady False e (put_live_breaker e1 b now)"
  unfolding put_live_breaker_def Let_def
  by (rule steady_trans [of _ e "e1\<lparr>le_breaker := b\<rparr>"], simp, rule steady_foldl) (auto simp: steady_cb_open)

lemma steady_handle_fill: "steady k e (handle_fill e f now)"
  by (auto simp: handle_fill_def Let_def steady_ddel intro!: steady_stats split: option.split)

lemma steady_put_engine: "steady k e (put_engine e ee now)"
  unfolding put_engine_def
  by (rule steady_trans [of _ e "e\<lparr>le_engine := ee\<lparr>ee_world := (ee_world ee)\<lparr>lw_fills := []\<rparr>\<rparr>\<rparr>"], simp,
      rule steady_foldl, rule steady_handle_fill)

lemma steady_connect: "steady k e (snd (connect_broker e now))"
  by (auto simp: connect_broker_def Let_def split: option.split prod.split sum.split bool.split)

lemma steady_disconnect: "steady k e e1 \<Longrightarrow> steady k e (disconnect_broker e1 now)"
  by (auto simp: disconnect_broker_def Let_def split: option.split prod.split)

text \<open>Retrying a step that keeps the engine steady keeps it steady.\<close>

lemma retry_from_steady:
  assumes "\<And>w. steady q w (snd (fn w))"
  shows "steady q w (snd (snd (snd (retry_from c extra fn clk draw k n cb w))))"
proof (induction n arbitrary: k cb w)
  case (Suc n)
  obtain res cb1 w1 where p: "call_protected cb fn w (fst (clk k)) (snd (clk k)) = (res, cb1, w1)" by (metis prod_cases3)
  have w1: "steady q w w1"
    using p assms [of w] by (auto simp: call_protected_def cb_execute_def Let_def split: option.splits prod.splits if_splits)
  have "steady q w (snd (snd (snd (retry_from c extra fn clk draw (Suc k) n cb1 w1))))"
    using steady_trans [OF w1 Suc.IH] .
  with w1 show ?case by (auto simp: p Let_def split: sum.split prod.split)
qed simp

lemma steady_after_retry: "steady False e e1 \<Longrightarrow> steady False e (after_retry e1 cb now)"
  by (auto simp: after_retry_def steady_breaker split: option.split)

lemma steady_reconnect: "steady False e (snd (reconnect_broker e clk draw now))"
proof -
  obtain res ds cb e1 where r: "retry_async (reconnect_config (le_config e)) (\<lambda>_. False) (do_single_reconnect now) clk draw
      (Some (le_breaker e)) (count_drop e) = (res, ds, cb, e1)" by (metis prod_cases4)
  have "steady False w (snd (do_single_reconnect now w))" for w :: "'a live_engine"
    using steady_connect [of False w now] by (simp add: do_single_reconnect_def split_beta)
  from retry_from_steady [OF this, of "count_drop e"] r have "steady False (count_drop e) e1" by (metis retry_async_def snd_conv)
  moreover have "steady False e (count_drop e)" by (simp add: count_drop_def steady_stats)
  ultimately have "steady False e e1" using steady_trans by blast
  then show ?thesis by (cases res) (simp_all add: reconnect_broker_def r steady_after_retry)
qed

lemma steady_notify_health: "steady k e (notify_health e hs raises previous now)"
proof (induction hs arbitrary: e)
  case (Cons h hs)
  show ?case by (auto simp: Let_def intro!: steady_trans [OF _ Cons.IH])
qed simp

lemma steady_health_check: "steady False e (health_check e probe raises clk draw now)"
proof -
  have n: "steady False e e1 \<Longrightarrow> steady False e (notify_health e1 hs raises p now)" for e1 hs p
    using steady_trans steady_notify_health by blast
  have r: "steady False e e1 \<Longrightarrow> steady False e (snd (reconnect_broker e1 clk draw now))" for e1
    using steady_trans steady_reconnect by blast
  show ?thesis by (auto simp: health_check_def Let_def intro!: n r split: option.split)
qed

lemma steady_cancel_live: "steady k e (snd (cancel_live e r now))"
  by (auto simp: cancel_live_def Let_def split: prod.split intro!: steady_stats steady_ddel steady_put_engine)

lemma steady_cancel_refs: "steady k e (snd (cancel_refs e rs now))"
proof (induction rs arbitrary: e)
  case (Cons r rs)
  obtain ok e1 where c: "cancel_live e r now = (ok, e1)" by (cases "cancel_live e r now")
  have "steady k e e1" using steady_cancel_live [of k e r now] c by simp
  with steady_trans [OF this Cons.IH] show ?case by (simp add: c split_beta)
qed simp

lemma steady_track_drawdown: "steady False e e1 \<Longrightarrow> steady False e (track_drawdown e1 v now)"
  by (auto simp: track_drawdown_def Let_def intro!: steady_stats steady_breaker)

lemma steady_apply_report: "steady k e (apply_report e oid r bo)"
  by (auto simp: apply_report_def Let_def steady_def length_ddel_le)

lemma steady_sync_pending: "steady k e (sync_pending e m ps)"
proof (induction ps arbitrary: e)
  case (Cons p ps)
  obtain oid r where "p = (oid, r)" by (cases p)
  moreover have "steady k e (case dget m oid of None \<Rightarrow> e | Some bo \<Rightarrow> apply_report e oid r bo)"
    by (simp add: steady_apply_report split: option.split)
  ultimately show ?case using steady_trans [OF _ Cons.IH] by simp
qed simp

text \<open>Every step but a submission and the daily reset is steady.\<close>

lemma steady_sync_positions: "steady k e (sync_positions e now)"
proof -
  have "steady k e1 (foldl (\<lambda>e bp.
      if positions_differ (pm_get_position (ew_pm (ee_world (le_engine e))) (p_symbol bp)) (Some bp)
      then reconcile_position e bp now else e) e1 bps)" for e1 :: "'a live_engine" and bps
    by (rule steady_foldl) (simp add: reconcile_position_def)
  then have "steady k e e1 \<Longrightarrow> steady k e (foldl (\<lambda>e bp.
      if positions_differ (pm_get_position (ew_pm (ee_world (le_engine e))) (p_symbol bp)) (Some bp)
      then reconcile_position e bp now else e) e1 bps)" for e1 bps
    using steady_trans by blast
  then show ?thesis by (auto simp: sync_positions_def Let_def split: option.split prod.split sum.split)
qed

lemma steady_sync_orders: "steady k e (sync_orders e now)"
proof -
  have "steady k e e1 \<Longrightarrow> steady k e (sync_pending e1 m ps)" for e1 m ps
    using steady_trans steady_sync_pending by blast
  then show ?thesis by (auto simp: sync_orders_def Let_def split: option.split prod.split sum.split)
qed

lemma steady_start: "steady k e (snd (le_start e now))"
proof -
  let ?e = "e\<lparr>le_running := True, le_stats := (le_stats e)\<lparr>ls_session_start := now\<rparr>\<rparr>"
  have "steady k e ?e" by (simp add: steady_def)
  from steady_trans [OF this steady_connect, of now] show ?thesis
    by (cases "connect_broker ?e now") (auto simp: le_start_def split: bool.split)
qed

lemma steady_stop: "steady k e (le_stop e now)"
proof -
  have "steady k e e1 \<Longrightarrow> steady k e (snd (cancel_refs e1 rs now))" for e1 rs
    using steady_trans steady_cancel_refs by blast
  then show ?thesis by (auto simp: le_stop_def Let_def intro!: steady_disconnect)
qed

lemma steady_cancel: "steady k e (snd (le_cancel e oid now))"
  by (auto simp: le_cancel_def steady_cancel_live split: option.split)

lemma steady_tick: "steady False e (process_market_tick e tk stamp now)"
  by (auto simp: process_market_tick_def Let_def steady_put_engine intro!: steady_track_drawdown split: prod.split option.split sum.split)

lemma steady_status: "steady False e (snd (le_get_status e now))"
  by (simp add: le_get_status_def Let_def split_beta steady_breaker)

lemma steady_guards: "steady False e (snd (submit_guards e x now))"
  by (auto simp: submit_guards_def Let_def split_beta steady_breaker)

fun submits :: "le_op \<Rightarrow> bool" where
  "submits (LE_Submit r chk t) = True"
| "submits (LE_Daily_Reset t) = True"
| "submits _ = False"

lemma steady_step: "\<not> submits x \<Longrightarrow> steady False e (le_step e x)"
  by (cases x)
    (simp_all add: steady_start steady_stop le_pause_def le_resume_def steady_cancel le_cancel_all_def steady_cancel_refs
      steady_tick steady_health_check steady_sync_positions steady_sync_orders steady_status)

subsection \<open>Limits\<close>

definition within_limits :: "'b live_engine \<Rightarrow> bool" where
  "within_limits e \<longleftrightarrow>
     le_daily_trades e \<le> lc_max_daily_trades (le_config e) \<and>
     le_daily_volume e \<le> lc_max_daily_volume (le_config e) \<and>
     int (length (le_pending e)) \<le> lc_max_pending_orders (le_config e)"

lemma within_limits_steady: "within_limits e \<Longrightarrow> steady k e e' \<Longrightarrow> within_limits e'"
  by (auto simp: within_limits_def steady_def)

text \<open>Putting a breaker back changes the breaker, the statistics and the calls made, nothing else.\<close>

lemma put_live_breaker_shape: "\<exists>st cs. put_live_breaker e b now = e\<lparr>le_breaker := b, le_stats := st, le_calls := cs\<rparr>"
proof -
  have "\<exists>st cs. foldl (\<lambda>e (h, name). if h = on_open_hook then on_cb_open e name now else e) e xs =
      e\<lparr>le_stats := st, le_calls := cs\<rparr>" for e :: "'a live_engine" and xs
  proof (induction xs arbitrary: e)
    case Nil
    have "foldl (\<lambda>e (h, name). if h = on_open_hook then on_cb_open e name now else e) e [] =
        e\<lparr>le_stats := le_stats e, le_calls := le_calls e\<rparr>" by simp
    then show ?case by blast
  next
    case (Cons x xs)
    obtain h name where x: "x = (h, name)" by (cases x)
    show ?case
    proof (cases "h = on_open_hook")
      case True
      with Cons.IH [of "on_cb_open e name now"] x show ?thesis by (auto simp: on_cb_open_def)
    next
      case False
      with Cons.IH [of e] x show ?thesis by simp
    qed
  qed
  from this [of "e\<lparr>le_breaker := b\<rparr>"] show ?thesis by (simp add: put_live_breaker_def Let_def)
qed

lemma put_live_breaker_frame [simp]:
  "le_config (put_live_breaker e b now) = le_config e" "le_mode (put_live_breaker e b now) = le_mode e"
  "le_running (put_live_breaker e b now) = le_running e" "le_health (put_live_breaker e b now) = le_health e"
  "le_daily_trades (put_live_breaker e b now) = le_daily_trades e"
  "le_daily_volume (put_live_breaker e b now) = le_daily_volume e"
  "le_pending (put_live_breaker e b now) = le_pending e" "le_engine (put_live_breaker e b now) = le_engine e"
  "le_portfolio (put_live_breaker e b now) = le_portfolio e" "le_risk (put_live_breaker e b now) = le_risk e"
  "le_breaker (put_live_breaker e b now) = b" "le_connected (put_live_breaker e b now) = le_connected e"
  using put_live_breaker_shape [of e b now] by auto

lemma put_live_breaker_same: "put_live_breaker e (le_breaker e) now = e"
  by (simp add: put_live_breaker_def)

text \<open>An order passes the guards exactly when none of them stops it.\<close>

lemma guards_pass:
  "fst (submit_guards e x now) = None \<longleftrightarrow>
     le_running e \<and> le_mode e \<noteq> WARMUP \<and> \<not> fst (cb_is_active (le_breaker e) now) \<and>
     (le_health e = HEALTHY \<or> le_health e = DEGRADED) \<and>
     le_daily_trades e < lc_max_daily_trades (le_config e) \<and>
     le_daily_volume e + order_volume x \<le> lc_max_daily_volume (le_config e) \<and>
     int (length (le_pending e)) < lc_max_pending_orders (le_config e)"
  by (cases "cb_is_active (le_breaker e) now"; cases "le_health e")
    (simp_all add: submit_guards_def Let_def not_le not_less)

lemma guards_state: "fst (submit_guards e x now) = None \<Longrightarrow>
  snd (submit_guards e x now) = put_live_breaker e (snd (cb_is_active (le_breaker e) now)) now"
  by (auto simp: submit_guards_def Let_def split_beta split: if_splits)

lemma length_dset_Suc: "length (dset d k v) \<le> Suc (length d)"
  by (cases "dget d k") (simp_all add: length_dset_new length_dset_old)

lemma submit_refused: "fst (le_submit e r chk now) \<noteq> Inr None \<Longrightarrow> steady False e (snd (le_submit e r chk now))"
proof -
  obtain w e1 where g: "submit_guards e (ee_heap (le_engine e) r) now = (w, e1)" by (metis surj_pair)
  have s: "steady False e e1" using steady_guards [of e "ee_heap (le_engine e) r" now] g by simp
  have p: "steady False e (put_engine e1 ee now)" for ee using steady_trans [OF s steady_put_engine] .
  assume "fst (le_submit e r chk now) \<noteq> Inr None"
  with s p show ?thesis
    by (auto simp: le_submit_def g Let_def count_rejected_def split: option.split sum.split prod.split if_splits intro!: steady_stats)
qed

lemma submit_accepted:
  assumes "fst (le_submit e r chk now) = Inr None"
  obtains e2 oid where "steady False e e2" "fst (submit_guards e (ee_heap (le_engine e) r) now) = None"
    "le_config (snd (le_submit e r chk now)) = le_config e2"
    "le_daily_trades (snd (le_submit e r chk now)) = le_daily_trades e2 + 1"
    "le_daily_volume (snd (le_submit e r chk now)) = le_daily_volume e2 + order_volume (ee_heap (le_engine e) r)"
    "le_pending (snd (le_submit e r chk now)) = dset (le_pending e2) oid r"
    "ls_breaker_active (le_stats e2) \<longrightarrow> ls_breaker_active (le_stats (snd (le_submit e r chk now)))"
proof -
  obtain w e1 where g: "submit_guards e (ee_heap (le_engine e) r) now = (w, e1)" by (metis surj_pair)
  have s: "steady False e e1" using steady_guards [of e "ee_heap (le_engine e) r" now] g by simp
  have w: "w = None" using assms g by (auto simp: le_submit_def Let_def split: option.splits)
  obtain reason where k: "risk_guard e1 (ee_heap (le_engine e) r) chk = Inr (True, reason)"
    using assms g w by (auto simp: le_submit_def Let_def split: sum.splits if_splits prod.splits)
  obtain ok ee where o: "submit_order (le_engine e1) r now = (ok, ee)" by (metis surj_pair)
  have ok: ok using assms g w k o by (cases ok) (simp_all add: le_submit_def Let_def)
  have "steady False e (put_engine e1 ee now)" using steady_trans [OF s steady_put_engine] .
  with ok g w k o show ?thesis
    by (intro that [of "put_engine e1 ee now" "o_id (ee_heap ee r)"]) (simp_all add: le_submit_def Let_def le_emit_def)
qed

lemma le_step_limits:
  assumes "within_limits e" "0 \<le> lc_max_daily_trades (le_config e)" "0 \<le> lc_max_daily_volume (le_config e)"
  shows "within_limits (le_step e x) \<and> le_config (le_step e x) = le_config e"
proof (cases "submits x")
  case False
  then show ?thesis using steady_step [OF False, of e] within_limits_steady [OF assms(1)] by (auto simp: steady_def)
next
  case True
  then consider (reset) t where "x = LE_Daily_Reset t" | (submit) r chk t where "x = LE_Submit r chk t"
    by (cases x) auto
  then show ?thesis
  proof cases
    case reset
    with assms show ?thesis by (simp add: daily_reset_def within_limits_def)
  next
    case (submit r chk t)
    show ?thesis
    proof (cases "fst (le_submit e r chk t) = Inr None")
      case False
      with submit submit_refused [OF False] within_limits_steady [OF assms(1)] show ?thesis by (auto simp: steady_def)
    next
      case True
      then obtain e2 oid where a: "steady False e e2" "fst (submit_guards e (ee_heap (le_engine e) r) t) = None"
        "le_config (snd (le_submit e r chk t)) = le_config e2"
        "le_daily_trades (snd (le_submit e r chk t)) = le_daily_trades e2 + 1"
        "le_daily_volume (snd (le_submit e r chk t)) = le_daily_volume e2 + order_volume (ee_heap (le_engine e) r)"
        "le_pending (snd (le_submit e r chk t)) = dset (le_pending e2) oid r"
        by (rule submit_accepted)
      with guards_pass [of e "ee_heap (le_engine e) r" t] length_dset_Suc [of oid r "le_pending e2"] submit show ?thesis
        by (auto simp: within_limits_def steady_def)
    qed
  qed
qed

text \<open>The statistics never forget that the breaker opened.\<close>

lemma le_step_flag: "ls_breaker_active (le_stats e) \<Longrightarrow> ls_breaker_active (le_stats (le_step e x))"
proof (cases "submits x")
  case False
  assume "ls_breaker_active (le_stats e)"
  with steady_step [OF False, of e] show ?thesis by (simp add: steady_def)
next
  case True
  assume f: "ls_breaker_active (le_stats e)"
  from True consider (reset) t where "x = LE_Daily_Reset t" | (submit) r chk t where "x = LE_Submit r chk t"
    by (cases x) auto
  then show ?thesis
  proof cases
    case reset
    with f show ?thesis by (simp add: daily_reset_def)
  next
    case (submit r chk t)
    show ?thesis
    proof (cases "fst (le_submit e r chk t) = Inr None")
      case False
      with submit submit_refused [OF False] f show ?thesis by (simp add: steady_def)
    next
      case True
      then obtain e2 where "steady False e e2"
        "ls_breaker_active (le_stats e2) \<longrightarrow> ls_breaker_active (le_stats (snd (le_submit e r chk t)))"
        by (rule submit_accepted)
      with f submit show ?thesis by (simp add: steady_def)
    qed
  qed
qed

definition le_inv :: "'b live_engine \<Rightarrow> bool" where
  "le_inv e \<longleftrightarrow> within_limits e \<and> 0 \<le> lc_max_daily_trades (le_config e) \<and> 0 \<le> lc_max_daily_volume (le_config e)"

lemma le_step_inv: "le_inv e \<Longrightarrow> le_inv (le_step e x)"
  using le_step_limits [of e x] by (simp add: le_inv_def)

interpretation live: run_system le_step "\<lambda>_ _. True" le_inv
  by unfold_locales (rule le_step_inv)

interpretation mark: counting_system le_step "\<lambda>_ _. True" "\<lambda>_. True" "\<lambda>e. ls_breaker_active (le_stats e)"
  by unfold_locales (simp_all add: le_step_flag)

subsection \<open>An open breaker\<close>

text \<open>\<open>b\<close> has been open since before \<open>t\<close> and its cooldown has not passed at \<open>t\<close>.\<close>

definition blocking :: "breaker \<Rightarrow> time \<Rightarrow> bool" where
  "blocking b t \<longleftrightarrow> bs_state (cb_stats b) = OPEN \<and> \<not> cooldown_elapsed b t"

lemma blocking_query: "blocking b t \<Longrightarrow> cb_is_active b t = (True, b)"
  by (simp add: blocking_def cb_is_active_def)

lemma blocking_call: "blocking b t0 \<Longrightarrow> call_protected (Some b) fn w t0 t1 = (Inl CircuitBreakerOpenError, Some b, w)"
  by (simp add: call_protected_def cb_execute_def cb_begin_def blocking_query)

lemma blocking_retry:
  assumes "\<forall>k. blocking b (fst (clk k))"
  shows "\<exists>x. retry_async c extra fn clk draw (Some b) w = (Inl x, [], Some b, w)"
  using assms by (cases "rc_max_attempts c") (simp_all add: retry_async_def blocking_call)

lemma blocking_submit:
  assumes "blocking (le_breaker e) t"
  shows "\<exists>why \<in> {Not_Running, In_Warmup, Breaker_Active}. le_submit e r chk t = (Inr (Some why), e)"
  using assms by (auto simp: le_submit_def submit_guards_def Let_def blocking_query put_live_breaker_same)

lemma blocking_trip: "bs_state (cb_stats b) = OPEN \<Longrightarrow> cb_trip b t = b"
  by (simp add: cb_trip_def transition_to_open_def)

lemma blocking_track:
  assumes "bs_state (cb_stats (le_breaker e)) = OPEN" shows "le_breaker (track_drawdown e v t) = le_breaker e"
  using assms by (auto simp: track_drawdown_def Let_def blocking_trip)

lemma blocking_tick:
  assumes "bs_state (cb_stats (le_breaker e)) = OPEN" shows "le_breaker (process_market_tick e tk stamp t) = le_breaker e"
proof -
  have p: "le_breaker (put_engine e ee t) = le_breaker e" for ee
    using steady_put_engine [of True e ee t] by (simp add: steady_def)
  show ?thesis
    by (auto simp: process_market_tick_def Let_def le_error_def p assms blocking_track split: prod.split option.split sum.split)
qed

lemma blocking_reconnect:
  assumes "\<forall>k. blocking (le_breaker e) (fst (clk k))"
  shows "steady True e (snd (reconnect_broker e clk draw t))"
proof -
  obtain x where "retry_async (reconnect_config (le_config e)) (\<lambda>_. False) (do_single_reconnect t) clk draw
      (Some (le_breaker e)) (count_drop e) = (Inl x, [], Some (le_breaker e), count_drop e)"
    using blocking_retry [OF assms, of "reconnect_config (le_config e)" "\<lambda>_. False" "do_single_reconnect t" draw "count_drop e"]
    by (elim exE) (rule that)
  moreover have "after_retry (count_drop e) (Some (le_breaker e)) t = count_drop e"
    using put_live_breaker_same [of "count_drop e" t] by (simp add: after_retry_def count_drop_def)
  moreover have "steady True e (count_drop e)" by (simp add: count_drop_def steady_stats)
  ultimately show ?thesis by (simp add: reconnect_broker_def)
qed

lemma blocking_health:
  assumes "\<forall>k. blocking (le_breaker e) (fst (clk k))"
  shows "steady True e (health_check e probe raises clk draw t)"
proof -
  have n: "steady True e e1 \<Longrightarrow> steady True e (notify_health e1 hs raises p t)" for e1 hs p
    using steady_trans steady_notify_health by blast
  have "steady True e (snd (reconnect_broker (e\<lparr>le_health := DEGRADED, le_connected := False\<rparr>) clk draw t))"
    by (rule steady_trans [OF _ blocking_reconnect]) (use assms in simp_all)
  then show ?thesis by (auto simp: health_check_def Let_def intro!: n split: option.split)
qed

text \<open>The times at which an operation reads the clock satisfy \<open>P\<close>.\<close>

fun times_in :: "(time \<Rightarrow> bool) \<Rightarrow> le_op \<Rightarrow> bool" where
  "times_in P (LE_Start t) = P t"
| "times_in P (LE_Stop t) = P t"
| "times_in P (LE_Pause t) = P t"
| "times_in P (LE_Resume t) = P t"
| "times_in P (LE_Submit r chk t) = P t"
| "times_in P (LE_Cancel oid t) = P t"
| "times_in P (LE_Cancel_All sy t) = P t"
| "times_in P (LE_Tick tk stamp t) = P t"
| "times_in P (LE_Health probe raises clk draw t) = (P t \<and> (\<forall>k. P (fst (clk k)) \<and> P (snd (clk k))))"
| "times_in P (LE_Sync_Positions t) = P t"
| "times_in P (LE_Sync_Orders t) = P t"
| "times_in P (LE_Daily_Reset t) = P t"
| "times_in P (LE_Status t) = P t"
| "times_in P (LE_Portfolio pv) = True"

lemma times_in_mono: "times_in P x \<Longrightarrow> (\<And>t. P t \<Longrightarrow> Q t) \<Longrightarrow> times_in Q x"
  by (cases x) auto

lemma steady_breakerD: "steady True e e' \<Longrightarrow> le_breaker e' = le_breaker e"
  by (simp add: steady_def)

lemma blocking_step:
  assumes "times_in (blocking (le_breaker e)) x" "bs_state (cb_stats (le_breaker e)) = OPEN"
  shows "le_breaker (le_step e x) = le_breaker e"
proof (cases x)
  case (LE_Submit r chk t)
  with assms(1) blocking_submit [of e t r chk] show ?thesis by auto
next
  case (LE_Status t)
  with assms(1) show ?thesis by (simp add: le_get_status_def blocking_query put_live_breaker_same Let_def)
next
  case (LE_Tick tk stamp t)
  with assms(2) show ?thesis by (simp add: blocking_tick)
next
  case (LE_Health probe raises clk draw t)
  with assms(1) show ?thesis by (intro steady_breakerD) (simp add: blocking_health)
next
  case (LE_Daily_Reset t)
  then show ?thesis by (simp add: daily_reset_def)
qed (rule steady_breakerD, simp add: steady_start steady_stop le_pause_def le_resume_def steady_cancel le_cancel_all_def
       steady_cancel_refs steady_sync_positions steady_sync_orders)+

lemma blocking_run:
  assumes "\<forall>x \<in> set xs. times_in (blocking (le_breaker e)) x" "bs_state (cb_stats (le_breaker e)) = OPEN"
  shows "le_breaker (run_ops le_step e xs) = le_breaker e"
  using assms
proof (induction xs arbitrary: e)
  case (Cons x xs)
  have "le_breaker (le_step e x) = le_breaker e" using Cons.prems by (intro blocking_step) auto
  with Cons.IH [of "le_step e x"] Cons.prems show ?case by simp
qed simp

text \<open>A trip opens a breaker that is not open, and the clock of its cooldown starts.\<close>

lemma trip_opens:
  assumes "bs_state (cb_stats b) \<noteq> OPEN"
  shows "bs_state (cb_stats (cb_trip b t0)) = OPEN" "bs_opened_at (cb_stats (cb_trip b t0)) = Some t0"
    "cb_config (cb_trip b t0) = cb_config b"
  using assms by (simp_all add: cb_trip_def transition_to_open_def fire_def)

lemma trip_blocks:
  assumes "bs_state (cb_stats b) \<noteq> OPEN" "total_seconds (t - t0) < bc_cooldown (cb_config b)"
  shows "blocking (cb_trip b t0) t"
  using assms by (simp add: blocking_def trip_opens cooldown_elapsed_def not_le)

text \<open>Fills leave the portfolio and the peak alone.\<close>

lemma put_engine_frame:
  "le_portfolio (put_engine e ee t) = le_portfolio e \<and> ls_peak (le_stats (put_engine e ee t)) = ls_peak (le_stats e)"
proof -
  have h: "le_portfolio (handle_fill e f t) = le_portfolio e \<and> ls_peak (le_stats (handle_fill e f t)) = ls_peak (le_stats e)"
    for e :: "'a live_engine" and f
    by (simp add: handle_fill_def Let_def le_emit_def split: option.split)
  have "le_portfolio (foldl (\<lambda>e f. handle_fill e f t) e fs) = le_portfolio e \<and>
      ls_peak (le_stats (foldl (\<lambda>e f. handle_fill e f t) e fs)) = ls_peak (le_stats e)" for e :: "'a live_engine" and fs
    by (induction fs arbitrary: e) (simp_all add: h)
  then show ?thesis by (simp add: put_engine_def)
qed

lemma track_trips:
  assumes "peak = max (ls_peak (le_stats e)) v" "0 < peak"
    "lc_loss_pct (le_config e) \<le> flt_of_dec ((peak - v) / peak * dec_int 100)"
  shows "le_breaker (track_drawdown e v t) = cb_trip (le_breaker e) t"
proof (cases "ls_peak (le_stats e) < v")
  case True
  with assms(1) have "peak = v" by (simp add: max_absorb2)
  with True assms(2,3) show ?thesis by (simp add: track_drawdown_def)
next
  case False
  with assms(1) have "peak = ls_peak (le_stats e)" by (simp add: max_absorb1)
  with False assms(2,3) show ?thesis by (simp add: track_drawdown_def Let_def)
qed

subsection \<open>Order synchronization\<close>

text \<open>What a report says of a pending order, and when it ends it.\<close>

definition reported :: "(string, order) dict \<Rightarrow> string \<Rightarrow> order \<Rightarrow> order" where
  "reported m oid x = (case dget m oid of None \<Rightarrow> x | Some bo \<Rightarrow> x\<lparr>o_status := o_status bo\<rparr>)"

definition ended_by :: "(string, order) dict \<Rightarrow> string \<Rightarrow> order \<Rightarrow> bool" where
  "ended_by m oid x \<longleftrightarrow> (case dget m oid of None \<Rightarrow> False | Some bo \<Rightarrow> o_status bo \<noteq> o_status x \<and> ended_status (o_status bo))"

lemma apply_report_exact:
  "le_pending (apply_report e oid r bo) =
     (if o_status bo \<noteq> o_status (ee_heap (le_engine e) r) \<and> ended_status (o_status bo)
      then ddel (le_pending e) oid else le_pending e)"
  "ee_heap (le_engine (apply_report e oid r bo)) =
     (ee_heap (le_engine e))(r := (ee_heap (le_engine e) r)\<lparr>o_status := o_status bo\<rparr>)"
  by (auto simp: apply_report_def Let_def set_status_def fun_eq_iff)

lemma sync_pending_exact:
  assumes "distinct (map snd ps)"
  shows "le_pending (sync_pending e m ps) =
      filter (\<lambda>(oid, r). \<not> (\<exists>r1. (oid, r1) \<in> set ps \<and> ended_by m oid (ee_heap (le_engine e) r1))) (le_pending e) \<and>
    (\<forall>oid r. (oid, r) \<in> set ps \<longrightarrow>
      ee_heap (le_engine (sync_pending e m ps)) r = reported m oid (ee_heap (le_engine e) r)) \<and>
    (\<forall>r. r \<notin> snd ` set ps \<longrightarrow> ee_heap (le_engine (sync_pending e m ps)) r = ee_heap (le_engine e) r)"
  using assms
proof (induction ps arbitrary: e)
  case (Cons p ps)
  obtain oid r where p: "p = (oid, r)" by (cases p)
  let ?h = "ee_heap (le_engine e)"
  define e1 where "e1 = (case dget m oid of None \<Rightarrow> e | Some bo \<Rightarrow> apply_report e oid r bo)"
  have h1: "ee_heap (le_engine e1) = ?h(r := reported m oid (?h r))"
    by (auto simp: e1_def reported_def apply_report_exact split: option.split)
  have p1: "le_pending e1 = filter (\<lambda>(oid', r'). \<not> (oid' = oid \<and> ended_by m oid (?h r))) (le_pending e)"
    by (auto simp: e1_def ended_by_def apply_report_exact AList.delete_eq split: option.split intro!: filter_cong)
  have IH: "distinct (map snd ps)" "r \<notin> snd ` set ps" using Cons.prems p by (auto simp: image_iff)
  note I = Cons.IH [OF IH(1), of e1]
  have same: "ee_heap (le_engine e1) r1 = ?h r1" if "(oid', r1) \<in> set ps" for oid' r1
    using that IH(2) h1 by force
  have "le_pending (sync_pending e1 m ps) =
      filter (\<lambda>(oid', r'). \<not> (\<exists>r1. (oid', r1) \<in> set (p # ps) \<and> ended_by m oid' (?h r1))) (le_pending e)"
    using I same by (auto simp: p p1 intro!: filter_cong)
  moreover have "ee_heap (le_engine (sync_pending e1 m ps)) r' = reported m oid' (?h r')" if "(oid', r') \<in> set (p # ps)" for oid' r'
    using that I IH(2) h1 same by (auto simp: p)
  ultimately show ?case using I h1 by (auto simp: p simp flip: e1_def)
qed simp

section \<open>Paper trading through the live engine\<close>

text \<open>
  Without a broker the execution engine fills the orders itself. The invariant ties the three
  layers together: the pending orders of the live engine are the orders that the order manager
  knows and whose objects are pending, and the orders submitted are those filled, those cancelled
  and those still pending.
\<close>

definition paper_inv :: "'b live_engine \<Rightarrow> bool" where
  "paper_inv e \<longleftrightarrow>
     ee_core (le_engine e) \<and> om_on_fill (ee_om (le_engine e)) = [on_fill_cb, defer_fill] \<and>
     lw_fills (ee_world (le_engine e)) = [] \<and> dict_ok (le_pending e) \<and>
     (\<forall>oid r. dget (le_pending e) oid = Some r \<longleftrightarrow>
        dget (om_orders (ee_om (le_engine e))) oid = Some r \<and> o_status (ee_heap (le_engine e) r) = PENDING) \<and>
     (\<forall>oid r. dget (om_orders (ee_om (le_engine e))) oid = Some r \<longrightarrow> is_active (ee_heap (le_engine e) r) \<longrightarrow>
        o_status (ee_heap (le_engine e) r) = PENDING) \<and>
     ls_submitted (le_stats e) = ls_filled (le_stats e) + ls_cancelled (le_stats e) + length (le_pending e)"

lemma paper_invD:
  assumes "paper_inv e"
  shows "ee_core (le_engine e)" "om_on_fill (ee_om (le_engine e)) = [on_fill_cb, defer_fill]"
    "lw_fills (ee_world (le_engine e)) = []" "dict_ok (le_pending e)"
    "dget (le_pending e) oid = Some r \<longleftrightarrow>
        dget (om_orders (ee_om (le_engine e))) oid = Some r \<and> o_status (ee_heap (le_engine e) r) = PENDING"
    "dget (om_orders (ee_om (le_engine e))) oid = Some r \<Longrightarrow> is_active (ee_heap (le_engine e) r) \<Longrightarrow>
        o_status (ee_heap (le_engine e) r) = PENDING"
    "ls_submitted (le_stats e) = ls_filled (le_stats e) + ls_cancelled (le_stats e) + length (le_pending e)"
  using assms unfolding paper_inv_def by blast+

text \<open>\<open>untouched e e'\<close>: neither the execution engine nor the books of the orders changed.\<close>

definition untouched :: "'b live_engine \<Rightarrow> 'b live_engine \<Rightarrow> bool" where
  "untouched e e' \<longleftrightarrow>
     le_engine e' = le_engine e \<and> le_pending e' = le_pending e \<and>
     ls_submitted (le_stats e') = ls_submitted (le_stats e) \<and> ls_filled (le_stats e') = ls_filled (le_stats e) \<and>
     ls_cancelled (le_stats e') = ls_cancelled (le_stats e)"

lemma paper_inv_untouched: "paper_inv e \<Longrightarrow> untouched e e' \<Longrightarrow> paper_inv e'"
  by (simp add: paper_inv_def untouched_def)

lemma untouched_refl [simp]: "untouched e e"
  by (simp add: untouched_def)

lemma untouched_trans: "untouched e e1 \<Longrightarrow> untouched e1 e2 \<Longrightarrow> untouched e e2"
  by (simp add: untouched_def)

lemma untouched_upd [simp]:
  "untouched e (e1\<lparr>le_mode := m\<rparr>) = untouched e e1" "untouched e (e1\<lparr>le_log := l\<rparr>) = untouched e e1"
  "untouched e (e1\<lparr>le_breaker := b\<rparr>) = untouched e e1" "untouched e (e1\<lparr>le_running := ok\<rparr>) = untouched e e1"
  "untouched e (e1\<lparr>le_health := h\<rparr>) = untouched e e1" "untouched e (e1\<lparr>le_connected := ok\<rparr>) = untouched e e1"
  "untouched e (e1\<lparr>le_events := ev\<rparr>) = untouched e e1" "untouched e (e1\<lparr>le_calls := cs\<rparr>) = untouched e e1"
  "untouched e (e1\<lparr>le_portfolio := pv\<rparr>) = untouched e e1"
  "untouched e (le_emit e1 t d now) = untouched e e1" "untouched e (le_error e1 src x ctx now) = untouched e e1"
  by (simp_all add: untouched_def le_emit_def le_error_def)

lemma untouched_cb_open: "untouched e (on_cb_open e name now)"
  by (simp add: untouched_def on_cb_open_def)

lemma untouched_breaker: "untouched e e1 \<Longrightarrow> untouched e (put_live_breaker e1 b now)"
proof -
  have "untouched e1 (foldl (\<lambda>e (h, name). if h = on_open_hook then on_cb_open e name now else e) e1 xs)"
    for e1 :: "'a live_engine" and xs
  proof (induction xs arbitrary: e1)
    case (Cons x xs)
    obtain h name where x: "x = (h, name)" by (cases x)
    have "untouched e1 (if h = on_open_hook then on_cb_open e1 name now else e1)" by (simp add: untouched_cb_open)
    from untouched_trans [OF this Cons.IH] show ?case by (simp add: x)
  qed simp
  then have "untouched (e1\<lparr>le_breaker := b\<rparr>) (put_live_breaker e1 b now)" by (simp add: put_live_breaker_def Let_def)
  then show "untouched e e1 \<Longrightarrow> ?thesis" by (simp add: untouched_def)
qed

lemma untouched_stats:
  "untouched e e1 \<Longrightarrow> ls_submitted st = ls_submitted (le_stats e1) \<Longrightarrow> ls_filled st = ls_filled (le_stats e1) \<Longrightarrow>
   ls_cancelled st = ls_cancelled (le_stats e1) \<Longrightarrow> untouched e (e1\<lparr>le_stats := st\<rparr>)"
  by (simp add: untouched_def)

lemma untouched_track: "untouched e e1 \<Longrightarrow> untouched e (track_drawdown e1 v now)"
  by (auto simp: track_drawdown_def Let_def intro!: untouched_stats untouched_breaker)

lemma untouched_notify_health: "untouched e (notify_health e hs raises previous now)"
proof (induction hs arbitrary: e)
  case (Cons h hs)
  show ?case by (auto simp: Let_def intro!: untouched_trans [OF _ Cons.IH])
qed simp

text \<open>Without a broker nothing is connected to, asked or synchronized.\<close>

lemma untouched_no_broker:
  assumes "ee_broker (le_engine e) = None"
  shows "untouched e (snd (connect_broker e t))" "untouched e (disconnect_broker e t)"
    "untouched e (sync_positions e t)" "untouched e (sync_orders e t)"
    "untouched e (health_check e probe raises clk draw t)"
proof -
  show "untouched e (snd (connect_broker e t))" "untouched e (disconnect_broker e t)"
    "untouched e (sync_positions e t)" "untouched e (sync_orders e t)"
    using assms by (simp_all add: connect_broker_def disconnect_broker_def Let_def sync_positions_def sync_orders_def)
  have "untouched e (notify_health (e\<lparr>le_health := HEALTHY, le_connected := True\<rparr>) hs raises p t)" for hs p
    by (rule untouched_trans [OF _ untouched_notify_health]) simp
  then show "untouched e (health_check e probe raises clk draw t)"
    using assms by (simp add: health_check_def Let_def)
qed

text \<open>A submission leaves the order pending in all three layers.\<close>

lemma untouched_guards: "untouched e (snd (submit_guards e x now))"
  by (auto simp: submit_guards_def Let_def split_beta untouched_breaker)

definition fresh_order :: "'b live_engine \<Rightarrow> oref \<Rightarrow> bool" where
  "fresh_order e r \<longleftrightarrow>
     submittable (ee_heap (le_engine e) r) \<and>
     dget (om_orders (ee_om (le_engine e))) (o_id (ee_heap (le_engine e) r)) = None \<and>
     (\<forall>oid. dget (om_orders (ee_om (le_engine e))) oid \<noteq> Some r)"

lemma paper_inv_submit:
  assumes "paper_inv e" "fresh_order e r"
  shows "paper_inv (snd (le_submit e r chk t))"
proof -
  let ?x = "ee_heap (le_engine e) r"
  obtain w e1 where g: "submit_guards e ?x t = (w, e1)" by (metis surj_pair)
  have u: "untouched e e1" using untouched_guards [of e ?x t] g by simp
  note I1 = paper_inv_untouched [OF assms(1) u] and U = u [unfolded untouched_def]
  have c: "paper_inv (count_rejected (e1\<lparr>le_log := l\<rparr>))" for l
    by (rule paper_inv_untouched [OF I1]) (simp add: untouched_def count_rejected_def)
  have f1: "submittable (ee_heap (le_engine e1) r)" using assms(2) U by (simp add: fresh_order_def)
  obtain ee where S: "submit_order (le_engine e1) r t = (True, ee)" "ee_core ee"
    "ee_heap ee = set_status (ee_heap (le_engine e1)) r PENDING"
    "om_orders (ee_om ee) = dset (om_orders (ee_om (le_engine e1))) (o_id (ee_heap (le_engine e1) r)) r"
    "om_on_fill (ee_om ee) = om_on_fill (ee_om (le_engine e1))" "ee_world ee = ee_world (le_engine e1)"
    by (rule ee_core_submit [OF paper_invD(1) [OF I1] f1])
  have w: "ee\<lparr>ee_world := (ee_world ee)\<lparr>lw_fills := []\<rparr>\<rparr> = ee" "lw_fills (ee_world ee) = []"
    using paper_invD(3) [OF I1] S(6) by simp_all
  then have p: "put_engine e1 ee t = e1\<lparr>le_engine := ee\<rparr>" by (simp add: put_engine_def)
  have known: "dget (om_orders (ee_om (le_engine e1))) oid \<noteq> Some r"
    "dget (om_orders (ee_om (le_engine e1))) (o_id (ee_heap (le_engine e1) r)) = None" for oid
    using assms(2) U by (auto simp: fresh_order_def)
  then have new: "dget (le_pending e1) (o_id (ee_heap (le_engine e1) r)) = None"
    using paper_invD(5) [OF I1, of "o_id (ee_heap (le_engine e1) r)"] by (cases "dget (le_pending e1) (o_id (ee_heap (le_engine e1) r))") auto
  have acc: "paper_inv e'"
    if "le_engine e' = ee" "le_pending e' = dset (le_pending e1) (o_id (ee_heap (le_engine e1) r)) r"
      "ls_submitted (le_stats e') = ls_submitted (le_stats e1) + 1" "ls_filled (le_stats e') = ls_filled (le_stats e1)"
      "ls_cancelled (le_stats e') = ls_cancelled (le_stats e1)" for e'
  proof -
    have "dget (le_pending e') oid = Some r' \<longleftrightarrow>
        dget (om_orders (ee_om ee)) oid = Some r' \<and> o_status (ee_heap ee r') = PENDING" for oid r'
      using paper_invD(5) [OF I1, of oid r'] known by (auto simp: that S set_status_def)
    moreover have "o_status (ee_heap ee r') = PENDING"
      if "dget (om_orders (ee_om ee)) oid = Some r'" "is_active (ee_heap ee r')" for oid r'
      using paper_invD(6) [OF I1, of oid r'] that by (auto simp: S set_status_def split: if_splits)
    ultimately show ?thesis
      using S w paper_invD [OF I1] new by (simp add: paper_inv_def that length_dset_new)
  qed
  show ?thesis
  proof (cases w)
    case (Some why)
    with g I1 show ?thesis by (simp add: le_submit_def)
  next
    case None
    have x: "ee_heap (le_engine e1) r = ?x" "o_id (ee_heap ee r) = o_id ?x" using U by (simp_all add: S(3) set_status_def)
    show ?thesis
    proof (cases "risk_guard e1 ?x chk")
      case (Inl exn)
      with g None I1 show ?thesis by (simp add: le_submit_def)
    next
      case (Inr pr)
      obtain passed reason where pr: "pr = (passed, reason)" by (cases pr)
      show ?thesis
      proof (cases passed)
        case False
        with g None Inr pr c show ?thesis by (simp add: le_submit_def)
      next
        case True
        with g None Inr pr show ?thesis
          by (simp add: le_submit_def S(1) p Let_def le_emit_def) (rule acc; simp add: x)
      qed
    qed
  qed
qed


subsection \<open>Fills\<close>

lemma handle_fill_books:
  assumes "get_order (ee_oms (le_engine e)) (f_order_id f) \<noteq> None"
  shows "le_engine (handle_fill e f t) = le_engine e" "le_pending (handle_fill e f t) = ddel (le_pending e) (f_order_id f)"
    "ls_filled (le_stats (handle_fill e f t)) = ls_filled (le_stats e) + 1"
    "ls_submitted (le_stats (handle_fill e f t)) = ls_submitted (le_stats e)"
    "ls_cancelled (le_stats (handle_fill e f t)) = ls_cancelled (le_stats e)"
  using assms by (auto simp: handle_fill_def Let_def le_emit_def split: option.split)

lemma handle_fills_books:
  assumes "\<forall>f \<in> set fs. get_order (ee_oms (le_engine e)) (f_order_id f) \<noteq> None"
    and "distinct (map f_order_id fs)" "\<forall>f \<in> set fs. dget (le_pending e) (f_order_id f) \<noteq> None" "dict_ok (le_pending e)"
    and "e' = foldl (\<lambda>e f. handle_fill e f t) e fs"
  shows "le_engine e' = le_engine e \<and>
    (\<forall>oid. dget (le_pending e') oid = (if oid \<in> f_order_id ` set fs then None else dget (le_pending e) oid)) \<and>
    dict_ok (le_pending e') \<and> length (le_pending e') + length fs = length (le_pending e) \<and>
    ls_filled (le_stats e') = ls_filled (le_stats e) + length fs \<and>
    ls_submitted (le_stats e') = ls_submitted (le_stats e) \<and> ls_cancelled (le_stats e') = ls_cancelled (le_stats e)"
  using assms
proof (induction fs arbitrary: e)
  case (Cons f fs)
  define e1 where "e1 = handle_fill e f t"
  have "get_order (ee_oms (le_engine e)) (f_order_id f) \<noteq> None" using Cons.prems(1) by simp
  note H = handle_fill_books [OF this, of t, folded e1_def]
  have len: "Suc (length (le_pending e1)) = length (le_pending e)"
    using Cons.prems(3,4) length_ddel_present [of "le_pending e" "f_order_id f"] by (auto simp: H)
  have ne: "f_order_id g \<noteq> f_order_id f" if "g \<in> set fs" for g using Cons.prems(2) that by (auto simp: image_iff)
  have "le_engine e' = le_engine e1 \<and>
    (\<forall>oid. dget (le_pending e') oid = (if oid \<in> f_order_id ` set fs then None else dget (le_pending e1) oid)) \<and>
    dict_ok (le_pending e') \<and> length (le_pending e') + length fs = length (le_pending e1) \<and>
    ls_filled (le_stats e') = ls_filled (le_stats e1) + length fs \<and>
    ls_submitted (le_stats e') = ls_submitted (le_stats e1) \<and> ls_cancelled (le_stats e') = ls_cancelled (le_stats e1)"
    by (rule Cons.IH) (use Cons.prems ne in \<open>auto simp: H simp flip: e1_def\<close>)
  then show ?case using H len by auto
qed simp

text \<open>The fills collected in the world are those the order manager announced.\<close>

lemma collected_fills:
  "lw_fills (foldl (\<lambda>w f. notify [on_fill_cb, defer_fill] f w) w fs) = lw_fills w @ fs"
proof (induction fs arbitrary: w)
  case (Cons f fs)
  have "lw_fills (notify [on_fill_cb, defer_fill] f w) = lw_fills w @ [f]"
    by (simp add: defer_fill_def on_fill_cb_def split: sum.split prod.split)
  then show ?case by (simp add: Cons.IH del: notify.simps)
qed simp

text \<open>A tick: the orders that fill leave the pending orders, and each is counted once.\<close>

lemma paper_tick:
  assumes "paper_inv e" "process_tick (le_engine e) tk stamp t = (res, ee)"
  obtains rs where "res = None" "distinct rs"
    "set rs = {r \<in> waiting (le_engine e) (t_symbol tk). triggers (ee_heap (le_engine e) r) tk}"
    "\<forall>r. if r \<in> set rs then is_filled (ee_heap (le_engine (put_engine e ee t)) r)
         else ee_heap (le_engine (put_engine e ee t)) r = ee_heap (le_engine e) r"
    "ls_filled (le_stats (put_engine e ee t)) = ls_filled (le_stats e) + length rs"
    "paper_inv (put_engine e ee t)"
proof -
  let ?h = "ee_heap (le_engine e)" and ?m = "om_orders (ee_om (le_engine e))"
  note I = paper_invD [OF assms(1)]
  have core: "ee_core ee" using ee_core_tick [OF I(1), of tk stamp t] assms(2) by simp
  obtain rs fs where T: "res = None" "distinct rs"
    "set rs = {r \<in> waiting (le_engine e) (t_symbol tk). triggers (?h r) tk}"
    "list_all2 (fill_for (le_engine e) tk) rs fs"
    "ee_world ee = notify_all (le_engine e) fs ((ee_world (le_engine e))\<lparr>ew_pm :=
       pm_update_price (ew_pm (ee_world (le_engine e))) (t_symbol tk) (mid_price tk) (t_timestamp tk)\<rparr>)"
    "om_on_fill (ee_om ee) = om_on_fill (ee_om (le_engine e))"
    "\<forall>r. if r \<in> set rs then \<exists>p. ee_heap ee r = apply_fill (?h r) p (o_remaining (?h r)) t else ee_heap ee r = ?h r"
    "om_orders (ee_om ee) = ?m"
    using process_tick_core [OF I(1), of tk stamp t] assms(2) by auto
  have fs: "lw_fills (ee_world ee) = fs" using T(5) I(2,3) by (simp add: collected_fills del: notify.simps)
  have unf: "o_filled (?h r) = 0" if "r \<in> set rs" for r
    using that ee_coreD(6) [OF I(1)] T(3) by (auto simp: waiting_def)
  have filled: "is_filled (ee_heap ee r)" if "r \<in> set rs" for r
    using T(7) [rule_format, of r] that update_fill_whole(2) [OF unf [OF that]] by (auto simp: is_filled_def)
  have same: "ee_heap ee r = ?h r" if "r \<notin> set rs" for r using T(7) [rule_format, of r] that by simp
  have known: "dget ?m (o_id (?h r)) = Some r \<and> o_status (?h r) = PENDING" if "r \<in> set rs" for r
    using that T(3) om_invD(4) [OF ee_coreD(2) [OF I(1), unfolded ee_oms_def]] by (auto simp: waiting_def)
  have ids: "map f_order_id fs = map (\<lambda>r. o_id (?h r)) rs"
    using T(4) by (induction rule: list_all2_induct) (auto simp: fill_for_def frame_simps order_fill_def)
  have inj: "inj_on (\<lambda>r. o_id (?h r)) (set rs)"
    by (rule inj_onI) (metis known option.inject)
  define e0 where "e0 = e\<lparr>le_engine := ee\<lparr>ee_world := (ee_world ee)\<lparr>lw_fills := []\<rparr>\<rparr>\<rparr>"
  have p: "put_engine e ee t = foldl (\<lambda>e f. handle_fill e f t) e0 fs" by (simp add: put_engine_def fs e0_def)
  have fin: "f_order_id f \<in> (\<lambda>r. o_id (?h r)) ` set rs" if "f \<in> set fs" for f
    using that arg_cong [OF ids, of set] by auto
  have B: "le_engine (put_engine e ee t) = le_engine e0 \<and>
    (\<forall>oid. dget (le_pending (put_engine e ee t)) oid =
       (if oid \<in> f_order_id ` set fs then None else dget (le_pending e0) oid)) \<and>
    dict_ok (le_pending (put_engine e ee t)) \<and> length (le_pending (put_engine e ee t)) + length fs = length (le_pending e0) \<and>
    ls_filled (le_stats (put_engine e ee t)) = ls_filled (le_stats e0) + length fs \<and>
    ls_submitted (le_stats (put_engine e ee t)) = ls_submitted (le_stats e0) \<and>
    ls_cancelled (le_stats (put_engine e ee t)) = ls_cancelled (le_stats e0)"
  proof (rule handle_fills_books [OF _ _ _ _ p])
    show "\<forall>f \<in> set fs. get_order (ee_oms (le_engine e0)) (f_order_id f) \<noteq> None"
      using fin known by (fastforce simp: get_order_def ee_oms_def e0_def T(8))
    show "distinct (map f_order_id fs)" using T(2) inj by (simp add: ids distinct_map)
    show "\<forall>f \<in> set fs. dget (le_pending e0) (f_order_id f) \<noteq> None"
    proof
      fix f assume "f \<in> set fs"
      with fin obtain r where "r \<in> set rs" "f_order_id f = o_id (?h r)" by auto
      with known [of r] I(5) [of "f_order_id f" r] show "dget (le_pending e0) (f_order_id f) \<noteq> None" by (simp add: e0_def)
    qed
    show "dict_ok (le_pending e0)" using I(4) by (simp add: e0_def)
  qed
  have len: "length fs = length rs" using T(4) by (simp add: list_all2_lengthD)
  have ids_set: "f_order_id ` set fs = (\<lambda>r. o_id (?h r)) ` set rs"
    using arg_cong [OF ids, of set] by simp
  have P: "dget (le_pending (put_engine e ee t)) oid = Some r \<longleftrightarrow> dget ?m oid = Some r \<and> o_status (ee_heap ee r) = PENDING" for oid r
  proof (cases "r \<in> set rs")
    case True
    with known [of r] I(5) [of oid r] om_invD(4) [OF ee_coreD(2) [OF I(1), unfolded ee_oms_def], of oid r]
    have "dget (le_pending e) oid = Some r \<Longrightarrow> oid \<in> f_order_id ` set fs" by (auto simp: ids_set)
    then show ?thesis using B filled [OF True] by (auto simp: e0_def is_filled_def)
  next
    case False
    have "oid \<notin> f_order_id ` set fs" if "dget (le_pending e) oid = Some r"
    proof
      assume "oid \<in> f_order_id ` set fs"
      then obtain r' where "r' \<in> set rs" "oid = o_id (?h r')" by (auto simp: ids_set)
      with known [of r'] that I(5) [of oid r] False show False by auto
    qed
    then show ?thesis using B I(5) [of oid r] same [OF False] by (auto simp: e0_def)
  qed
  have A: "o_status (ee_heap ee r) = PENDING" if "dget ?m oid = Some r" "is_active (ee_heap ee r)" for oid r
    using I(6) [OF that(1)] that(2) filled [of r] same [of r] by (cases "r \<in> set rs") (auto simp: is_active_def is_filled_def)
  have eng: "le_engine (put_engine e ee t) = ee\<lparr>ee_world := (ee_world ee)\<lparr>lw_fills := []\<rparr>\<rparr>" using B by (simp add: e0_def)
  have "ee_core (ee\<lparr>ee_world := (ee_world ee)\<lparr>lw_fills := []\<rparr>\<rparr>)"
    using core by (simp add: ee_core_def ee_oms_def om_inv_def om_synced_def)
  then have "paper_inv (put_engine e ee t)"
    unfolding paper_inv_def eng using B P A T(6,8) I(2,7) len by (simp add: e0_def)
  moreover have "\<forall>r. if r \<in> set rs then is_filled (ee_heap (le_engine (put_engine e ee t)) r)
         else ee_heap (le_engine (put_engine e ee t)) r = ?h r"
    using filled same by (simp add: eng)
  ultimately show ?thesis using T(1-3) B len by (intro that) (simp_all add: e0_def)
qed

subsection \<open>Cancellations and the step\<close>

lemma paper_inv_cancel_live:
  assumes "paper_inv e"
  shows "paper_inv (snd (cancel_live e r t)) \<and> ee_broker (le_engine (snd (cancel_live e r t))) = None"
proof -
  note I = paper_invD [OF assms]
  let ?E = "le_engine e" and ?oid = "o_id (ee_heap (le_engine e) r)"
  have c: "ee_cancel_order ?E ?oid t = (fst (cancel_order (ee_oms ?E) ?oid t), put_oms ?E (snd (cancel_order (ee_oms ?E) ?oid t)))"
    using ee_coreD(1) [OF I(1)] by (simp add: ee_cancel_order_def live_broker_def split_beta Let_def)
  define ee where "ee = put_oms ?E (snd (cancel_order (ee_oms ?E) ?oid t))"
  note K = ee_core_cancel_order [OF I(1), of ?oid t, folded ee_def]
  have w: "ee\<lparr>ee_world := (ee_world ee)\<lparr>lw_fills := []\<rparr>\<rparr> = ee" "lw_fills (ee_world ee) = []"
    using K(2) I(3) by simp_all
  then have p: "put_engine e ee t = e\<lparr>le_engine := ee\<rparr>" by (simp add: put_engine_def)
  have "paper_inv (snd (cancel_live e r t))"
  proof (cases rule: cancel_orderE [of "ee_om ?E" "ee_heap ?E" "ee_world ?E" ?oid t])
    case refused
    then have "cancel_order (ee_oms ?E) ?oid t = (False, ee_oms ?E)" by (simp add: ee_oms_def)
    then have "cancel_live e r t = (False, put_engine e ?E t)" by (simp add: cancel_live_def c Let_def)
    moreover have "put_engine e ?E t = e" using I(3) by (simp add: put_engine_def)
    ultimately show ?thesis using assms by simp
  next
    case (cancelled r')
    then have co: "fst (cancel_order (ee_oms ?E) ?oid t)" "om_orders (ee_om ee) = om_orders (ee_om ?E)"
      "ee_heap ee = (ee_heap ?E)(r' := cancel (ee_heap ?E r') t)"
      by (simp_all add: ee_def ee_oms_def)
    define e' where "e' = snd (cancel_live e r t)"
    have e': "le_engine e' = ee" "le_pending e' = ddel (le_pending e) ?oid"
      "ls_submitted (le_stats e') = ls_submitted (le_stats e)" "ls_filled (le_stats e') = ls_filled (le_stats e)"
      "ls_cancelled (le_stats e') = ls_cancelled (le_stats e) + 1"
      using co(1) by (simp_all add: e'_def cancel_live_def c Let_def le_emit_def p flip: ee_def)
    have st: "\<not> is_active (cancel (ee_heap ?E r') t)" by (rule cancel_not_active)
    have pend: "dget (le_pending e) ?oid = Some r'"
      using I(5) [of ?oid r'] I(6) [OF cancelled(1,2)] cancelled(1) by simp
    have uniq: "oid = ?oid" if "dget (om_orders (ee_om ?E)) oid = Some r'" for oid
      using om_invD(4) [OF ee_coreD(2) [OF I(1), unfolded ee_oms_def]] that cancelled(1) by metis
    have P: "dget (le_pending e') oid = Some r1 \<longleftrightarrow>
        dget (om_orders (ee_om ee)) oid = Some r1 \<and> o_status (ee_heap ee r1) = PENDING" for oid r1
    proof (cases "r1 = r'")
      case True
      have "o_status (ee_heap ee r1) \<noteq> PENDING" using st True by (auto simp: co is_active_def)
      moreover have "dget (le_pending e') oid \<noteq> Some r1"
        using uniq [of oid] I(5) [of oid r1] True by (auto simp: e')
      ultimately show ?thesis by simp
    next
      case False
      then have "(dget (le_pending e') oid = Some r1) = (dget (le_pending e) oid = Some r1)"
        using pend by (auto simp: e')
      with False I(5) [of oid r1] show ?thesis by (simp add: co)
    qed
    have A: "o_status (ee_heap ee r1) = PENDING"
      if "dget (om_orders (ee_om ee)) oid = Some r1" "is_active (ee_heap ee r1)" for oid r1
      using I(6) [of oid r1] that st by (auto simp: co split: if_splits)
    have "paper_inv e'"
      unfolding paper_inv_def e' using K I(2,4,7) w(2) P A length_ddel_present [OF I(4) pend] by (simp add: e')
    then show ?thesis by (simp add: e'_def)
  qed
  then show ?thesis using paper_invD(1) ee_coreD(1) by blast
qed

lemma paper_inv_cancel_refs: "paper_inv e \<Longrightarrow> paper_inv (snd (cancel_refs e rs t))"
proof (induction rs arbitrary: e)
  case (Cons r rs)
  obtain ok e1 where c: "cancel_live e r t = (ok, e1)" by (cases "cancel_live e r t")
  have "paper_inv e1" using paper_inv_cancel_live [OF Cons.prems, of r t] c by simp
  with Cons.IH [of e1] show ?case by (simp add: c split_beta)
qed simp

fun paper_guard :: "'b live_engine \<Rightarrow> le_op \<Rightarrow> bool" where
  "paper_guard e (LE_Submit r chk t) = fresh_order e r"
| "paper_guard e _ = True"

lemma paper_inv_tick: "paper_inv e \<Longrightarrow> paper_inv (process_market_tick e tk stamp t)"
proof -
  assume i: "paper_inv e"
  obtain res ee where p: "process_tick (le_engine e) tk stamp t = (res, ee)" by (metis surj_pair)
  from paper_tick [OF i p] have q: "res = None" "paper_inv (put_engine e ee t)" by metis+
  have "paper_inv (track_drawdown (put_engine e ee t) v t)" for v
    by (rule paper_inv_untouched [OF q(2)]) (rule untouched_track, simp)
  moreover have "paper_inv (le_error (put_engine e ee t) src v ctx t)" for src v ctx
    by (rule paper_inv_untouched [OF q(2)]) simp
  ultimately show ?thesis using i p q(1) by (simp add: process_market_tick_def Let_def split: sum.split)
qed

lemma paper_step_inv: "paper_inv e \<Longrightarrow> paper_guard e x \<Longrightarrow> paper_inv (le_step e x)"
proof (cases x)
  case (LE_Start t)
  assume i: "paper_inv e"
  let ?e = "e\<lparr>le_running := True, le_stats := (le_stats e)\<lparr>ls_session_start := t\<rparr>\<rparr>"
  have "untouched e ?e" by (simp add: untouched_def)
  moreover have "untouched ?e (snd (connect_broker ?e t))"
    using ee_coreD(1) [OF paper_invD(1) [OF i]] by (intro untouched_no_broker) simp
  ultimately have "untouched e (snd (connect_broker ?e t))" by (rule untouched_trans)
  with i show ?thesis
    by (cases "connect_broker ?e t")
      (auto simp: LE_Start le_start_def split: bool.split intro: paper_inv_untouched [OF i] elim: paper_inv_untouched)
next
  case (LE_Stop t)
  assume i: "paper_inv e"
  define e1 where "e1 = e\<lparr>le_running := False\<rparr>"
  define e2 where "e2 = (if lc_auto_reconnect (le_config e1) \<and> le_pending e1 \<noteq> []
                   then snd (cancel_refs e1 (dvals (le_pending e1)) t) else e1)"
  define e3 where "e3 = (disconnect_broker e2 t)\<lparr>le_health := OFFLINE\<rparr>"
  have "paper_inv e1" unfolding e1_def by (rule paper_inv_untouched [OF i]) simp
  then have i2: "paper_inv e2" by (simp add: e2_def paper_inv_cancel_refs)
  have "untouched e2 e3"
    using untouched_no_broker(2) [OF ee_coreD(1) [OF paper_invD(1) [OF i2]]] by (simp add: e3_def)
  from paper_inv_untouched [OF i2, of "le_emit e3 STOP_EVENT (Mode_Data (le_mode e3)) t"] this
  have "paper_inv (le_emit e3 STOP_EVENT (Mode_Data (le_mode e3)) t)" by simp
  moreover have "le_step e x = (if le_running e then le_emit e3 STOP_EVENT (Mode_Data (le_mode e3)) t else e)"
    by (simp add: LE_Stop le_stop_def Let_def e1_def e2_def e3_def)
  ultimately show ?thesis using i by simp
next
  case (LE_Submit r chk t)
  assume "paper_inv e" "paper_guard e x"
  with LE_Submit show ?thesis by (simp add: paper_inv_submit)
next
  case (LE_Cancel oid t)
  assume "paper_inv e"
  with LE_Cancel paper_inv_cancel_live show ?thesis by (auto simp: le_cancel_def split: option.split)
next
  case (LE_Cancel_All sy t)
  assume "paper_inv e"
  with LE_Cancel_All show ?thesis by (simp add: le_cancel_all_def paper_inv_cancel_refs)
next
  case (LE_Tick tk stamp t)
  assume "paper_inv e"
  with LE_Tick show ?thesis by (simp add: paper_inv_tick)
next
  case (LE_Pause t)
  assume i: "paper_inv e"
  with LE_Pause show ?thesis by (auto simp: le_pause_def intro: paper_inv_untouched)
next
  case (LE_Resume t)
  assume i: "paper_inv e"
  with LE_Resume show ?thesis by (auto simp: le_resume_def intro: paper_inv_untouched)
next
  case (LE_Health probe raises clk draw t)
  assume i: "paper_inv e"
  with LE_Health show ?thesis
    using untouched_no_broker(5) [OF ee_coreD(1) [OF paper_invD(1) [OF i]]] by (auto intro: paper_inv_untouched)
next
  case (LE_Sync_Positions t)
  assume i: "paper_inv e"
  with LE_Sync_Positions show ?thesis
    using untouched_no_broker(3) [OF ee_coreD(1) [OF paper_invD(1) [OF i]]] by (auto intro: paper_inv_untouched)
next
  case (LE_Sync_Orders t)
  assume i: "paper_inv e"
  with LE_Sync_Orders show ?thesis
    using untouched_no_broker(4) [OF ee_coreD(1) [OF paper_invD(1) [OF i]]] by (auto intro: paper_inv_untouched)
next
  case (LE_Daily_Reset t)
  assume i: "paper_inv e"
  with LE_Daily_Reset show ?thesis by (auto simp: daily_reset_def untouched_def intro: paper_inv_untouched)
next
  case (LE_Status t)
  assume i: "paper_inv e"
  have "paper_inv (put_live_breaker e b t)" for b by (rule paper_inv_untouched [OF i]) (rule untouched_breaker, simp)
  with LE_Status show ?thesis by (simp add: le_get_status_def Let_def split_beta)
next
  case (LE_Portfolio pv)
  assume i: "paper_inv e"
  with LE_Portfolio show ?thesis by (auto intro: paper_inv_untouched)
qed

interpretation paper: run_system le_step paper_guard paper_inv
  by unfold_locales (rule paper_step_inv)

lemma paper_inv_new: "paper_inv (new_live_engine pv (own_engine None cm sm h n) rp c mode t0)"
  by (simp add: paper_inv_def new_live_engine_def own_engine_def engine_within_def ee_core_def ee_oms_def om_inv_def om_synced_def
      empty_manager_def le_world.defs new_live_stats_def Let_def)

section \<open>Properties\<close>

text \<open>C5. A draw-down at or beyond the loss limit halts trading. When a
  tick brings the portfolio that far below its peak while the breaker is not open, then
  whatever happens afterwards, every submission within the cooldown is refused and has no
  effect: reconnections, further ticks, pauses, resumptions and restarts do not shorten the halt.\<close>

theorem drawdown_halts_trading:
  fixes e :: "'b live_engine"
  defines "peak \<equiv> \<lambda>v. max (ls_peak (le_stats e)) v"
    and "cooling \<equiv> \<lambda>t0 t. total_seconds (t - t0) < bc_cooldown (cb_config (le_breaker e))"
  assumes "le_running e" "bs_state (cb_stats (le_breaker e)) \<noteq> OPEN"
    and "process_tick (le_engine e) tk stamp t0 = (None, ee)" "pv_total_value (le_portfolio e) = Inr v"
    and "0 < peak v" "lc_loss_pct (le_config e) \<le> flt_of_dec ((peak v - v) / peak v * dec_int 100)"
    and "\<forall>x \<in> set xs. times_in (cooling t0) x" "cooling t0 t"
  shows "\<exists>why \<in> {Not_Running, In_Warmup, Breaker_Active}.
    le_submit (run_ops le_step (process_market_tick e tk stamp t0) xs) r chk t =
      (Inr (Some why), run_ops le_step (process_market_tick e tk stamp t0) xs)"
proof -
  let ?e = "process_market_tick e tk stamp t0"
  have s: "steady True e (put_engine e ee t0)" by (rule steady_put_engine)
  then have "le_config (put_engine e ee t0) = le_config e" by (simp add: steady_def)
  then have "le_breaker (track_drawdown (put_engine e ee t0) v t0) = cb_trip (le_breaker (put_engine e ee t0)) t0"
    using assms(7,8) put_engine_frame [of e ee t0] by (intro track_trips [of "peak v"]) (simp_all add: peak_def)
  then have b: "le_breaker ?e = cb_trip (le_breaker e) t0"
    using assms(3,5,6) put_engine_frame [of e ee t0] steady_breakerD [OF s] by (simp add: process_market_tick_def)
  have blk: "blocking (le_breaker ?e) t" if "cooling t0 t" for t
    using that trip_blocks [OF assms(4)] by (simp add: b cooling_def)
  then have "\<forall>x \<in> set xs. times_in (blocking (le_breaker ?e)) x" using assms(9) times_in_mono by blast
  then have "le_breaker (run_ops le_step ?e xs) = le_breaker ?e"
    by (rule blocking_run) (simp add: b trip_opens assms(4))
  with blk [OF assms(10)] show ?thesis by (intro blocking_submit) simp
qed


text \<open>Pausing does not stop trading. After pause, which is
  documented to accept no new orders, an order that passes the guards and that the execution
  engine accepts is submitted, and without the risk check that would have preceded it in live
  mode: whatever risk manager is attached, it is not asked.\<close>

theorem paused_engine_accepts_orders:
  assumes "le_mode e = LIVE" "fst (submit_guards e (ee_heap (le_engine e) r) t) = None"
    and "fst (submit_order (le_engine e) r t)"
  shows "le_mode (le_pause e t0) = STANDBY \<and> fst (le_submit (le_pause e t0) r chk t) = Inr None"
proof -
  define p where "p = le_pause e t0"
  define x where "x = ee_heap (le_engine e) r"
  have g0: "le_running e" using assms(2) by (simp add: guards_pass)
  then have p: "le_mode p = STANDBY" "le_engine p = le_engine e" "le_breaker p = le_breaker e" "le_running p"
    "le_health p = le_health e" "le_daily_trades p = le_daily_trades e" "le_daily_volume p = le_daily_volume e"
    "le_pending p = le_pending e" "le_config p = le_config e"
    using assms(1) by (simp_all add: p_def le_pause_def le_emit_def)
  have "fst (submit_guards p x t) = None" using assms(2) by (simp add: guards_pass p x_def)
  then obtain p1 where g: "submit_guards p x t = (None, p1)" by (metis prod.collapse)
  with guards_state [of p x t] have p1: "le_mode p1 = STANDBY" "le_engine p1 = le_engine e" by (simp_all add: p)
  have "risk_guard p1 x chk = Inr (True, Risk_Passed)" by (simp add: risk_guard_def p1 split: option.split)
  moreover obtain ee where "submit_order (le_engine p1) r t = (True, ee)"
    using assms(3) p1(2) by (metis prod.collapse)
  ultimately have "fst (le_submit p r chk t) = Inr None" using g by (simp add: le_submit_def p(2) Let_def x_def)
  with p(1) show ?thesis by (simp add: p_def)
qed

text \<open>The statistics never clear the mark of the circuit breaker:
  once it has been set it stays set, even after the breaker has closed again.\<close>

theorem breaker_mark_never_cleared:
  "ls_breaker_active (le_stats e) \<Longrightarrow> ls_breaker_active (le_stats (run_ops le_step e xs))"
  using mark.run_count [of e xs] by simp


text \<open>C6. Paper trading keeps its books. After any run of a new engine
  without a broker, in which each order object is submitted once under a new identifier, the
  pending orders of the live engine are exactly the orders that its order manager knows and whose
  objects are pending, and every order submitted is counted once: as filled, as cancelled, or still
  pending.\<close>

theorem paper_books_balance:
  assumes "e0 = new_live_engine pv (own_engine None cm sm h n) rp c mode t0" "guarded_run le_step paper_guard e0 xs"
    and "e = run_ops le_step e0 xs"
  shows "(\<forall>oid r. dget (le_pending e) oid = Some r \<longleftrightarrow>
      dget (om_orders (ee_om (le_engine e))) oid = Some r \<and> o_status (ee_heap (le_engine e) r) = PENDING) \<and>
    ls_submitted (le_stats e) = ls_filled (le_stats e) + ls_cancelled (le_stats e) + length (le_pending e)"
proof -
  have "paper_inv e" unfolding assms(3) using paper.run_inv [OF _ assms(2)] paper_inv_new assms(1) by blast
  then show ?thesis using paper_invD(5,7) by blast
qed

text \<open>A market tick in paper trading. On a running engine reached by
  such a run, the waiting orders of the symbol that trigger are filled and leave the pending
  orders, each is counted as filled, and every other order object is unchanged.\<close>

theorem live_tick_fills:
  assumes "e0 = new_live_engine pv (own_engine None cm sm h n) rp c mode t0" "guarded_run le_step paper_guard e0 xs"
    and "e = run_ops le_step e0 xs" "le_running e" "e' = process_market_tick e tk stamp t"
  shows "\<exists>rs. distinct rs \<and>
    set rs = {r \<in> waiting (le_engine e) (t_symbol tk). triggers (ee_heap (le_engine e) r) tk} \<and>
    (\<forall>r. if r \<in> set rs then is_filled (ee_heap (le_engine e') r) \<and> (\<forall>oid. dget (le_pending e') oid \<noteq> Some r)
         else ee_heap (le_engine e') r = ee_heap (le_engine e) r) \<and>
    ls_filled (le_stats e') = ls_filled (le_stats e) + length rs"
proof -
  have i: "paper_inv e" unfolding assms(3) using paper.run_inv [OF _ assms(2)] paper_inv_new assms(1) by blast
  obtain res ee where p: "process_tick (le_engine e) tk stamp t = (res, ee)" by (metis surj_pair)
  obtain rs where R: "res = None" "distinct rs"
    "set rs = {r \<in> waiting (le_engine e) (t_symbol tk). triggers (ee_heap (le_engine e) r) tk}"
    "\<forall>r. if r \<in> set rs then is_filled (ee_heap (le_engine (put_engine e ee t)) r)
         else ee_heap (le_engine (put_engine e ee t)) r = ee_heap (le_engine e) r"
    "ls_filled (le_stats (put_engine e ee t)) = ls_filled (le_stats e) + length rs"
    "paper_inv (put_engine e ee t)" by (rule paper_tick [OF i p])
  have u: "untouched (put_engine e ee t) e'"
    using assms(4) p R(1) by (auto simp: assms(5) process_market_tick_def Let_def intro: untouched_track split: sum.split)
  have i': "paper_inv e'" unfolding assms(5) by (rule paper_inv_tick [OF i])
  have U: "le_engine e' = le_engine (put_engine e ee t)" "ls_filled (le_stats e') = ls_filled (le_stats (put_engine e ee t))"
    using u by (simp_all add: untouched_def)
  have gone: "dget (le_pending e') oid \<noteq> Some r" if "is_filled (ee_heap (le_engine e') r)" for oid r
    using that paper_invD(5) [OF i', of oid r] by (auto simp: is_filled_def)
  have "if r \<in> set rs then is_filled (ee_heap (le_engine e') r) \<and> (\<forall>oid. dget (le_pending e') oid \<noteq> Some r)
      else ee_heap (le_engine e') r = ee_heap (le_engine e) r" for r
    using R(4) [rule_format, of r] gone [of r] by (simp add: U(1))
  then show ?thesis by (intro exI [of _ rs] conjI allI R(2,3)) (simp_all only: U(2) R(5))
qed

subsection \<open>Concrete engines\<close>

definition sample_view :: "int \<Rightarrow> portfolio_view" where
  "sample_view v = \<lparr>pv_total_value = Inr (dec_int v), pv_get_cash = Inl AttributeError\<rparr>"

definition sample_orders :: heap where
  "sample_orders r = new_order sample_symbol BUY (Dec 5) MARKET None None DAY (nat_str r) None None 0"

definition silent_reports :: "unit broker_reports" where
  "silent_reports = \<lparr>rp_orders = (\<lambda>b. (Inl AttributeError, b)), rp_positions = (\<lambda>b. (Inl AttributeError, b))\<rparr>"

definition sample_own_engine :: "(unit, unit le_world_ext) exec_engine" where
  "sample_own_engine =
     own_engine None \<lparr>per_share = 0, min_per_order = 0, max_percent = 0, flat_fee = 0\<rparr>
       \<lparr>fixed_slippage = 0, percentage = 0, volume_impact = 0\<rparr> sample_orders 0"

definition sample_live :: "trading_mode \<Rightarrow> unit live_engine" where
  "sample_live mode = new_live_engine (sample_view 100) sample_own_engine silent_reports default_live_config mode 0"

definition sample_tick :: "tick" where
  "sample_tick = \<lparr>t_symbol = sample_symbol, t_timestamp = 4, bid_price = Dec 9, ask_price = Dec 10, bid_size = 0, ask_size = 0,
      last_price = None, last_size = None\<rparr>"

definition sample_run :: "le_op list" where
  "sample_run = [LE_Start 1, LE_Submit 7 True 2]"

definition started :: "unit live_engine" where
  "started = le_step (sample_live PAPER) (LE_Start 1)"

lemma started_fields:
  "le_running started" "le_mode started = PAPER" "le_health started = HEALTHY" "le_breaker started = live_breaker default_live_config"
  "le_config started = default_live_config" "le_daily_trades started = 0" "le_daily_volume started = 0" "le_pending started = []"
  "le_engine started = sample_own_engine" "le_risk started = None"
  by (simp_all add: started_def sample_live_def new_live_engine_def sample_own_engine_def own_engine_def engine_within_def Let_def
     le_start_def connect_broker_def le_emit_def)

lemma sample_own_fields:
  "ee_broker sample_own_engine = None" "om_orders (ee_om sample_own_engine) = []" "ee_heap sample_own_engine = sample_orders"
  "om_on_order (ee_om sample_own_engine) = []" "lw_fills (ee_world sample_own_engine) = []"
  "om_active (ee_om sample_own_engine) = []" "om_by_symbol (ee_om sample_own_engine) = []"
  by (simp_all add: sample_own_engine_def own_engine_def engine_within_def Let_def empty_manager_def le_world.defs)

lemma sample_volume: "\<not> lc_max_daily_volume default_live_config < 0 + order_volume (sample_orders r)"
proof -
  have "order_volume (sample_orders r) = Dec 5 * dec_int 1" by (simp add: order_volume_def sample_orders_def new_order_def limit_or_def)
  moreover have "\<not> lc_max_daily_volume default_live_config < 0 + Dec 5 * dec_int 1" by code_simp
  ultimately show ?thesis by simp
qed

lemma sample_run_ok: "guarded_run le_step paper_guard (sample_live PAPER) sample_run"
  by (simp add: sample_run_def fresh_order_def started_fields sample_own_fields submittable_def sample_orders_def is_active_def
     new_order_def priced_def flip: started_def del: le_step.simps)

lemma started_admits: "submit_guards started (sample_orders 7) 2 = (None, started)"
proof -
  have a: "cb_is_active (live_breaker default_live_config) 2 = (False, live_breaker default_live_config)"
    by (simp add: live_breaker_def new_breaker_def cb_is_active_def fresh_stats_def)
  have n: "fst (submit_guards started (sample_orders 7) 2) = None"
    using sample_volume [of 7] by (simp add: guards_pass a started_fields not_less) (simp add: default_live_config_def)
  from guards_state [OF n] a put_live_breaker_same [of started 2] have "snd (submit_guards started (sample_orders 7) 2) = started"
    by (simp add: started_fields)
  with n show ?thesis by (metis prod.collapse)
qed

lemma sample_live_submitted:
  defines "e \<equiv> run_ops le_step (sample_live PAPER) sample_run"
  shows "le_running e" "o_status (ee_heap (le_engine e) 7) = PENDING" "o_symbol (ee_heap (le_engine e) 7) = sample_symbol"
    "o_type (ee_heap (le_engine e) 7) = MARKET" "dget (om_orders (ee_om (le_engine e))) (nat_str 7) = Some 7"
proof -
  have e: "e = snd (le_submit started 7 True 2)"
    by (simp add: e_def sample_run_def flip: started_def) (simp add: started_def)
  show "le_running e" "o_status (ee_heap (le_engine e) 7) = PENDING" "o_symbol (ee_heap (le_engine e) 7) = sample_symbol"
    "o_type (ee_heap (le_engine e) 7) = MARKET" "dget (om_orders (ee_om (le_engine e))) (nat_str 7) = Some 7"
    by (simp_all add: e le_submit_def Let_def started_fields sample_own_fields started_admits risk_guard_def submit_order_def
        register_order_def ee_oms_def put_oms_def live_broker_def put_engine_def le_emit_def set_status_def)
      (simp_all add: sample_orders_def new_order_def)
qed


theorem paper_books_balance_witness:
  "dget (le_pending (run_ops le_step (sample_live PAPER) sample_run)) (nat_str 7) = Some 7"
  using paper_books_balance [OF sample_live_def [unfolded sample_own_engine_def] sample_run_ok refl] sample_live_submitted(2,5) by blast

theorem live_tick_fills_witness:
  "is_filled (ee_heap (le_engine (process_market_tick (run_ops le_step (sample_live PAPER) sample_run) sample_tick ''t'' 5)) 7)"
proof -
  let ?e = "run_ops le_step (sample_live PAPER) sample_run"
  from live_tick_fills [OF sample_live_def [unfolded sample_own_engine_def] sample_run_ok refl sample_live_submitted(1) refl,
      of sample_tick "''t''" 5] obtain rs where
    R: "set rs = {r \<in> waiting (le_engine ?e) (t_symbol sample_tick). triggers (ee_heap (le_engine ?e) r) sample_tick}"
    "\<forall>r. if r \<in> set rs then is_filled (ee_heap (le_engine (process_market_tick ?e sample_tick ''t'' 5)) r) \<and>
        (\<forall>oid. dget (le_pending (process_market_tick ?e sample_tick ''t'' 5)) oid \<noteq> Some r)
      else ee_heap (le_engine (process_market_tick ?e sample_tick ''t'' 5)) r = ee_heap (le_engine ?e) r" by blast
  have "7 \<in> waiting (le_engine ?e) (t_symbol sample_tick)"
    using sample_live_submitted by (auto simp: waiting_def sample_tick_def)
  moreover have "triggers (ee_heap (le_engine ?e) 7) sample_tick" using sample_live_submitted(4) by (simp add: triggers_def)
  ultimately have "7 \<in> set rs" unfolding R(1) by blast
  with R(2) [rule_format, of 7] show ?thesis by simp
qed


text \<open>An engine in live mode with a risk manager over an empty portfolio, which refuses the order.\<close>

definition careful :: "unit live_engine" where
  "careful = started\<lparr>le_mode := LIVE, le_risk := Some (new_risk_manager, new_portfolio 0 0)\<rparr>"

lemma careful_admits:
  "le_mode careful = LIVE" "ee_heap (le_engine careful) = sample_orders" "fst (submit_guards careful (sample_orders 7) 2) = None"
  using arg_cong [OF started_admits, of fst]
  by (simp_all add: guards_pass careful_def started_fields(9) sample_own_fields)

lemma careful_refuses: "fst (le_submit careful 7 True 2) \<noteq> Inr None"
proof -
  have l: "limit_or (sample_orders 7) (dec_int 100) = dec_int 100" by (simp add: limit_or_def sample_orders_def new_order_def)
  have "case check_order new_risk_manager (new_portfolio 0 0) (sample_orders 7) (dec_int 100) of
      Inr (passed, reason) \<Rightarrow> \<not> passed | Inl x \<Rightarrow> False" by code_simp
  then obtain reason where c: "check_order new_risk_manager (new_portfolio 0 0) (sample_orders 7) (dec_int 100) = Inr (False, reason)"
    by (auto split: sum.splits prod.splits)
  obtain e1 where g: "submit_guards careful (sample_orders 7) 2 = (None, e1)" using careful_admits(3) by (metis prod.collapse)
  with guards_state [OF careful_admits(3)] have "le_mode e1 = LIVE" "le_risk e1 = Some (new_risk_manager, new_portfolio 0 0)"
    by (simp_all add: careful_def)
  then have "risk_guard e1 (sample_orders 7) True = Inr (False, reason)" by (simp add: risk_guard_def l c)
  then show ?thesis using g careful_admits(2) by (simp add: le_submit_def Let_def)
qed

theorem paused_engine_accepts_orders_witness:
  "fst (le_submit careful 7 True 2) \<noteq> Inr None \<and> fst (le_submit (le_pause careful 1) 7 True 2) = Inr None"
proof -
  have "fst (submit_guards careful (ee_heap (le_engine careful) 7) 2) = None" by (simp add: careful_admits)
  moreover have "fst (submit_order (le_engine careful) 7 2)"
    by (simp add: careful_def started_fields submit_order_def live_broker_def ee_oms_def put_oms_def register_order_def
        sample_own_fields Let_def)
  ultimately show ?thesis using paused_engine_accepts_orders [OF careful_admits(1), of 7 2 1 True] careful_refuses by blast
qed

text \<open>An engine whose portfolio has fallen from 100 to 90.\<close>

definition fallen :: "unit live_engine" where
  "fallen = started\<lparr>le_portfolio := sample_view 90, le_stats := (le_stats started)\<lparr>ls_peak := dec_int 100\<rparr>\<rparr>"

lemma sample_core: "ee_core sample_own_engine"
  using paper_invD(1) [OF paper_inv_new] unfolding sample_own_engine_def by (simp add: new_live_engine_def)

theorem drawdown_halts_trading_witness:
  "fst (le_submit (run_ops le_step (process_market_tick fallen sample_tick ''t'' 5) [LE_Stop 1000005, LE_Start 2000005]) 7 True 3000005) \<noteq> Inr None"
proof -
  have E: "le_engine fallen = sample_own_engine" "le_running fallen" "le_breaker fallen = live_breaker default_live_config"
    "le_config fallen = default_live_config" "pv_total_value (le_portfolio fallen) = Inr (dec_int 90)"
    "ls_peak (le_stats fallen) = dec_int 100"
    by (simp_all add: fallen_def started_fields sample_view_def)
  have b: "bs_state (cb_stats (live_breaker default_live_config)) \<noteq> OPEN"
    "bc_cooldown (cb_config (live_breaker default_live_config)) = flt_int 300"
    by (simp_all add: live_breaker_def new_breaker_def fresh_stats_def default_live_config_def)
  obtain ee where p: "process_tick sample_own_engine sample_tick ''t'' 5 = (None, ee)"
    using process_tick_core [OF sample_core, of sample_tick "''t''" 5] by blast
  have m: "max (dec_int 100) (dec_int 90) = dec_int 100" unfolding max_def by (subst if_not_P) (code_simp, rule refl)
  have l: "flt_int 5 \<le> flt_of_dec ((dec_int 100 - dec_int 90) / dec_int 100 * dec_int 100)" by code_simp
  have g: "(0 :: dec) < dec_int 100" by code_simp
  have n: "(0 :: dec) < max (dec_int 100) (dec_int 90)"
    "lc_loss_pct default_live_config \<le>
       flt_of_dec ((max (dec_int 100) (dec_int 90) - dec_int 90) / max (dec_int 100) (dec_int 90) * dec_int 100)"
    unfolding m using l g by (simp_all add: default_live_config_def)
  have c: "total_seconds (1000005 - 5) < flt_int 300" "total_seconds (2000005 - 5) < flt_int 300" "total_seconds (3000005 - 5) < flt_int 300"
    by code_simp+
  have "\<exists>why \<in> {Not_Running, In_Warmup, Breaker_Active}.
      le_submit (run_ops le_step (process_market_tick fallen sample_tick ''t'' 5) [LE_Stop 1000005, LE_Start 2000005]) 7 True 3000005 =
        (Inr (Some why), run_ops le_step (process_market_tick fallen sample_tick ''t'' 5) [LE_Stop 1000005, LE_Start 2000005])"
  proof (rule drawdown_halts_trading [where ee = ee and v = "dec_int 90"])
    show "\<forall>x \<in> set [LE_Stop 1000005, LE_Start 2000005]. times_in (\<lambda>t. total_seconds (t - 5) < bc_cooldown (cb_config (le_breaker fallen))) x"
      using c by (simp add: E b)
    show "le_running fallen" by (rule E(2))
    show "bs_state (cb_stats (le_breaker fallen)) \<noteq> OPEN" unfolding E(3) by (rule b(1))
    show "process_tick (le_engine fallen) sample_tick ''t'' 5 = (None, ee)" unfolding E(1) by (rule p)
    show "pv_total_value (le_portfolio fallen) = Inr (dec_int 90)" by (rule E(5))
    show "0 < max (ls_peak (le_stats fallen)) (dec_int 90)" unfolding E(6) by (rule n(1))
    show "lc_loss_pct (le_config fallen) \<le>
        flt_of_dec ((max (ls_peak (le_stats fallen)) (dec_int 90) - dec_int 90) / max (ls_peak (le_stats fallen)) (dec_int 90) * dec_int 100)"
      unfolding E(4,6) by (rule n(2))
    show "total_seconds (3000005 - 5) < bc_cooldown (cb_config (le_breaker fallen))" unfolding E(3) b(2) by (rule c(3))
  qed
  then show ?thesis by auto
qed

definition tripped :: "unit live_engine" where
  "tripped = put_live_breaker started (cb_trip (live_breaker default_live_config) 5) 5"

theorem breaker_mark_never_cleared_witness:
  "bs_state (cb_stats (le_breaker (run_ops le_step tripped [LE_Status 400000000]))) = HALF_OPEN \<and>
   ls_breaker_active (le_stats (run_ops le_step tripped [LE_Status 400000000]))"
proof -
  let ?b = "cb_trip (live_breaker default_live_config) 5"
  have "ls_breaker_active (le_stats tripped)"
    by (simp add: tripped_def put_live_breaker_def started_fields cb_trip_def transition_to_open_def live_breaker_def new_breaker_def
        fresh_stats_def fire_def on_cb_open_def)
  moreover have "cooldown_elapsed ?b 400000000" by code_simp
  moreover have "bs_state (cb_stats ?b) = OPEN"
    by (rule trip_opens) (simp add: live_breaker_def new_breaker_def fresh_stats_def)
  ultimately show ?thesis
    using breaker_mark_never_cleared [of tripped "[LE_Status 400000000]"]
    by (simp add: le_get_status_def cb_is_active_def tripped_def Let_def transition_to_half_open_def fire_def)
qed

text \<open>A broker that knows one order under our identifier and one under its own.\<close>

definition synced_live :: "unit live_engine" where
  "synced_live = started\<lparr>
     le_engine := sample_own_engine\<lparr>ee_broker := Some
       (\<lparr>br_connect = (\<lambda>b. (Inr True, b)), br_disconnect = (\<lambda>b. (None, b)), br_is_connected = (\<lambda>b. True),
         br_submit = (\<lambda>b h r t. (Inr True, b, h)), br_cancel = (\<lambda>b h oid t. (Inr True, b, h))\<rparr>, ())\<rparr>,
     le_reports := silent_reports\<lparr>rp_orders := (\<lambda>b. (Inr [(sample_orders 7)\<lparr>o_broker_id := Some ''7'', o_status := FILLED\<rparr>,
         (sample_orders 8)\<lparr>o_broker_id := Some ''B8'', o_status := FILLED\<rparr>], b))\<rparr>,
     le_pending := [(''7'', 7), (''8'', 8)], le_connected := True\<rparr>"


end
