(* ===== verification/Time_Keeper.thy ===== *)
theory Time_Keeper
  imports Market_Data
begin

section \<open>Time keeping (\<open>src/engine/timekeeper.py\<close>)\<close>

text \<open>
  A moment is its number of microseconds since 1970-01-01 00:00 UTC. The zones of \<open>pytz\<close> are
  an argument: which names it knows, the offset of a zone from UTC at a moment, and the moment
  that a wall-clock reading without zone names in a zone. A wall-clock reading is the number of
  microseconds since 1970-01-01 00:00 of the local calendar. The range of years that
  \<open>datetime\<close> supports is not modelled.
\<close>

record pytz =
  pz_known :: "string \<Rightarrow> bool"
  pz_offset :: "string \<Rightarrow> time \<Rightarrow> int"
  pz_localize :: "string \<Rightarrow> int \<Rightarrow> time"

text \<open>\<open>pytz.timezone\<close> raises a subclass of \<open>KeyError\<close> for an unknown name.\<close>

definition timezone :: "pytz \<Rightarrow> string \<Rightarrow> exn + string" where
  "timezone pz name = (if pz_known pz name then Inr name else Inl KeyError)"

datatype moment = Naive int | Aware time

fun instant_in :: "pytz \<Rightarrow> string \<Rightarrow> moment \<Rightarrow> time" where
  "instant_in pz zone (Naive w) = pz_localize pz zone w"
| "instant_in pz zone (Aware t) = t"

datatype time_mode = TM_LIVE | TM_BACKTEST | TM_PAPER

record schedule =
  sd_id :: string
  sd_callback :: nat
  sd_next :: time
  sd_interval :: "int option"
  sd_timezone :: string
  sd_enabled :: bool

text \<open>
  Schedules are objects: the dictionary holds references into \<open>tk_objects\<close>, so a loop over a
  copy of the dictionary can meet an object that is no longer in it.
\<close>

record 'w time_keeper =
  tk_timezone :: string
  tk_mode :: time_mode
  tk_backtest :: bool
  tk_current :: time
  tk_start :: time
  tk_schedules :: "(string, nat) dict"
  tk_objects :: "schedule list"
  tk_running :: bool
  tk_stop_event :: bool
  tk_on_change :: "(time, 'w) callback list"
  tk_world :: 'w

definition new_time_keeper :: "pytz \<Rightarrow> string \<Rightarrow> bool \<Rightarrow> time_mode \<Rightarrow> time \<Rightarrow> 'w \<Rightarrow> exn + 'w time_keeper" where
  "new_time_keeper pz zone is_bt mode now w =
     and_then (timezone pz zone) (\<lambda>z.
       Inr \<lparr>tk_timezone = z, tk_mode = mode, tk_backtest = (is_bt \<or> mode = TM_BACKTEST), tk_current = now,
            tk_start = now, tk_schedules = [], tk_objects = [], tk_running = False, tk_stop_event = False,
            tk_on_change = [], tk_world = w\<rparr>)"

subsection \<open>The clock\<close>

definition notify_time_changed :: "'w time_keeper \<Rightarrow> 'w time_keeper" where
  "notify_time_changed k = k\<lparr>tk_world := notify (tk_on_change k) (tk_current k) (tk_world k)\<rparr>"

definition set_time :: "pytz \<Rightarrow> 'w time_keeper \<Rightarrow> moment \<Rightarrow> exn + 'w time_keeper" where
  "set_time pz k m =
     (if tk_backtest k then Inr (notify_time_changed (k\<lparr>tk_current := instant_in pz (tk_timezone k) m\<rparr>))
      else Inl RuntimeError)"

definition set_current_time :: "pytz \<Rightarrow> 'w time_keeper \<Rightarrow> moment \<Rightarrow> exn + 'w time_keeper" where
  "set_current_time pz k m =
     (if tk_backtest k then Inr (notify_time_changed (k\<lparr>tk_current := instant_in pz (tk_timezone k) m\<rparr>))
      else Inl RuntimeError)"

definition advance_time :: "'w time_keeper \<Rightarrow> int \<Rightarrow> exn + 'w time_keeper" where
  "advance_time k delta =
     (if tk_backtest k then Inr (notify_time_changed (k\<lparr>tk_current := tk_current k + delta\<rparr>))
      else Inl RuntimeError)"

text \<open>Reading the clock in live mode stores what was read; \<open>now\<close> is the clock of the system.\<close>

definition current_time :: "'w time_keeper \<Rightarrow> time \<Rightarrow> time \<times> 'w time_keeper" where
  "current_time k now =
     (let k1 = (if tk_backtest k then k else k\<lparr>tk_current := now\<rparr>) in (tk_current k1, k1))"

definition on_time_changed :: "'w time_keeper \<Rightarrow> (time, 'w) callback \<Rightarrow> 'w time_keeper" where
  "on_time_changed k cb = k\<lparr>tk_on_change := tk_on_change k @ [cb]\<rparr>"

subsection \<open>Schedules\<close>

definition schedule_task ::
  "pytz \<Rightarrow> 'w time_keeper \<Rightarrow> string \<Rightarrow> nat \<Rightarrow> moment \<Rightarrow> int option \<Rightarrow> string \<Rightarrow> exn + nat \<times> 'w time_keeper" where
  "schedule_task pz k sid cb due every zone =
     and_then (timezone pz zone) (\<lambda>z.
       let s = \<lparr>sd_id = sid, sd_callback = cb, sd_next = instant_in pz z due, sd_interval = every, sd_timezone = zone,
                sd_enabled = True\<rparr>;
           r = length (tk_objects k)
       in Inr (r, k\<lparr>tk_objects := tk_objects k @ [s], tk_schedules := dset (tk_schedules k) sid r\<rparr>))"

definition unschedule :: "'w time_keeper \<Rightarrow> string \<Rightarrow> 'w time_keeper" where
  "unschedule k sid = k\<lparr>tk_schedules := ddel (tk_schedules k) sid\<rparr>"

text \<open>
  One pass over a copy of the schedules. \<open>run c\<close> is what the callback \<open>c\<close> does to the keeper; an
  exception of it is logged. An interval of zero counts as none.
\<close>

definition recurs :: "int option \<Rightarrow> bool" where
  "recurs every = (case every of None \<Rightarrow> False | Some d \<Rightarrow> d \<noteq> 0)"

definition run_due ::
  "(nat \<Rightarrow> 'w time_keeper \<Rightarrow> 'w time_keeper \<times> exn option) \<Rightarrow> time \<Rightarrow> 'w time_keeper \<Rightarrow> string \<Rightarrow> nat \<Rightarrow>
   'w time_keeper" where
  "run_due run now k sid r =
     (let s = tk_objects k ! r in
      if sd_enabled s \<and> sd_next s \<le> now
      then
        (case run (sd_callback s) k of (k1, _) \<Rightarrow>
         let s1 = tk_objects k1 ! r in
         case sd_interval s1 of
           None \<Rightarrow> unschedule k1 sid
         | Some d \<Rightarrow>
             if d = 0 then unschedule k1 sid
             else k1\<lparr>tk_objects := (tk_objects k1)[r := s1\<lparr>sd_next := sd_next s1 + d\<rparr>]\<rparr>)
      else k)"

fun run_schedules ::
  "(nat \<Rightarrow> 'w time_keeper \<Rightarrow> 'w time_keeper \<times> exn option) \<Rightarrow> time \<Rightarrow> 'w time_keeper \<Rightarrow> (string \<times> nat) list \<Rightarrow>
   'w time_keeper" where
  "run_schedules run now k [] = k"
| "run_schedules run now k ((sid, r) # ps) = run_schedules run now (run_due run now k sid r) ps"

definition tk_round ::
  "(nat \<Rightarrow> 'w time_keeper \<Rightarrow> 'w time_keeper \<times> exn option) \<Rightarrow> 'w time_keeper \<Rightarrow> time \<Rightarrow> 'w time_keeper" where
  "tk_round run k clock =
     (case current_time k clock of (now, k1) \<Rightarrow> run_schedules run now k1 (tk_schedules k1))"

text \<open>The loop of \<open>run\<close>, one round for each reading of the clock, while it is not stopped.\<close>

fun tk_loop ::
  "(nat \<Rightarrow> 'w time_keeper \<Rightarrow> 'w time_keeper \<times> exn option) \<Rightarrow> 'w time_keeper \<Rightarrow> time list \<Rightarrow> 'w time_keeper" where
  "tk_loop run k [] = k"
| "tk_loop run k (t # ts) = (if tk_running k then tk_loop run (tk_round run k t) ts else k)"

definition tk_run ::
  "(nat \<Rightarrow> 'w time_keeper \<Rightarrow> 'w time_keeper \<times> exn option) \<Rightarrow> 'w time_keeper \<Rightarrow> time list \<Rightarrow> 'w time_keeper" where
  "tk_run run k ts = tk_loop run (k\<lparr>tk_stop_event := False, tk_running := True\<rparr>) ts"

definition tk_stop :: "'w time_keeper \<Rightarrow> 'w time_keeper" where
  "tk_stop k = k\<lparr>tk_running := False, tk_stop_event := True\<rparr>"

subsection \<open>Market hours\<close>

definition day_us :: int where
  "day_us = 86400000000"

text \<open>\<open>weekday\<close> of a wall-clock reading: Monday is 0; the day 0 was a Thursday.\<close>

definition weekday :: "int \<Rightarrow> int" where
  "weekday w = (w div day_us + 3) mod 7"

text \<open>\<open>replace(hour=h, minute=m, second=0, microsecond=0)\<close>\<close>

definition clock_us :: "int \<Rightarrow> int \<Rightarrow> int" where
  "clock_us h m = (h * 60 + m) * 60000000"

definition at_clock :: "int \<Rightarrow> int \<Rightarrow> int \<Rightarrow> exn + int" where
  "at_clock w h m =
     (if 0 \<le> h \<and> h \<le> 23 \<and> 0 \<le> m \<and> m \<le> 59 then Inr (w div day_us * day_us + clock_us h m) else Inl ValueError)"

text \<open>
  \<open>astimezone\<close> gives the wall-clock reading of the zone's offset at that moment; \<open>replace\<close> and
  additions of days keep this offset. Hours given by the caller are moments.
\<close>

definition is_market_open ::
  "pytz \<Rightarrow> 'w time_keeper \<Rightarrow> (int, time \<times> time) dict option \<Rightarrow> string \<Rightarrow> time \<Rightarrow> (exn + bool) \<times> 'w time_keeper" where
  "is_market_open pz k hours zone clock =
     (case current_time k clock of (now, k1) \<Rightarrow>
      (and_then (timezone pz zone) (\<lambda>z.
         let off = pz_offset pz z now; w = now + off in
         if 5 \<le> weekday w then Inr False
         else
           and_then (at_clock w 9 30) (\<lambda>open_w.
           and_then (at_clock w 16 0) (\<lambda>close_w.
             let hs = (case hours of None \<Rightarrow> [] | Some d \<Rightarrow> d);
                 (o_t, c_t) = (case dget hs (weekday w) of Some p \<Rightarrow> p | None \<Rightarrow> (open_w - off, close_w - off))
             in Inr (o_t \<le> now \<and> now \<le> c_t)))), k1))"

lemma weekday_next: "weekday (w + day_us) = (weekday w + 1) mod 7"
  by (simp add: weekday_def day_us_def) presburger

lemma weekday_range: "0 \<le> weekday w" "weekday w < 7"
  by (simp_all add: weekday_def)

function first_weekday :: "int \<Rightarrow> int" where
  "first_weekday w = (if 5 \<le> weekday w then first_weekday (w + day_us) else w)"
  by auto

termination
proof (relation "measure (\<lambda>w. nat ((7 - weekday w) mod 7))", simp)
  fix w
  assume "5 \<le> weekday w"
  then have "weekday w = 5 \<or> weekday w = 6" using weekday_range(2) [of w] by arith
  then show "(w + day_us, w) \<in> measure (\<lambda>w. nat ((7 - weekday w) mod 7))"
    by (auto simp: weekday_next)
qed

text \<open>The wall-clock reading of the next opening and its moment.\<close>

definition get_next_market_open ::
  "pytz \<Rightarrow> 'w time_keeper \<Rightarrow> string \<Rightarrow> int \<times> int \<Rightarrow> time \<Rightarrow> (exn + int \<times> time) \<times> 'w time_keeper" where
  "get_next_market_open pz k zone hm clock =
     (case current_time k clock of (now, k1) \<Rightarrow>
      (and_then (timezone pz zone) (\<lambda>z.
         let off = pz_offset pz z now; w = now + off; d = first_weekday w in
         and_then (at_clock d (fst hm) (snd hm)) (\<lambda>n.
           let n' = (if d = w \<and> n mod day_us < w mod day_us then first_weekday (n + day_us) else n)
           in Inr (n', n' - off))), k1))"

definition to_timezone :: "pytz \<Rightarrow> 'w time_keeper \<Rightarrow> moment \<Rightarrow> string \<Rightarrow> exn + time \<times> int" where
  "to_timezone pz k m zone =
     and_then (timezone pz zone) (\<lambda>z.
       let t = instant_in pz (tk_timezone k) m in Inr (t, t + pz_offset pz z t))"

section \<open>Lemmas\<close>

declare first_weekday.simps [simp del]

subsection \<open>The calendar\<close>

lemma add_days_div: "(w + k * day_us) div day_us = w div day_us + k"
  by (simp add: day_us_def)

lemma add_day_div: "(w + day_us) div day_us = w div day_us + 1"
  using add_days_div [of w 1] by simp

lemma first_weekday_work: "weekday (first_weekday w) < 5"
  by (induction w rule: first_weekday.induct) (subst first_weekday.simps, auto)

lemma first_weekday_clock: "first_weekday w mod day_us = w mod day_us"
  by (induction w rule: first_weekday.induct) (subst first_weekday.simps, simp)

lemma first_weekday_ge: "w \<le> first_weekday w"
proof (induction w rule: first_weekday.induct)
  case (1 w)
  then show ?case by (subst first_weekday.simps) (force simp: day_us_def)
qed

lemma first_weekday_least:
  "w div day_us \<le> d \<Longrightarrow> (d + 3) mod 7 < 5 \<Longrightarrow> first_weekday w div day_us \<le> d"
proof (induction w rule: first_weekday.induct)
  case (1 w)
  show ?case
  proof (cases "5 \<le> weekday w")
    case True
    then have "d \<noteq> w div day_us" using 1(3) by (auto simp: weekday_def)
    with 1(2) have "(w + day_us) div day_us \<le> d" by (simp add: add_day_div)
    with 1(1,3) True show ?thesis by (subst first_weekday.simps) simp
  next
    case False
    with 1(2) show ?thesis by (subst first_weekday.simps) simp
  qed
qed

lemma first_weekday_soon: "first_weekday w div day_us \<le> w div day_us + 2"
proof -
  have "\<exists>d. q \<le> d \<and> (d + 3) mod 7 < 5 \<and> d \<le> q + 2" for q :: int
    by presburger
  then show ?thesis using first_weekday_least order_trans by blast
qed

lemma first_weekday_same: "weekday w < 5 \<Longrightarrow> first_weekday w = w"
  by (subst first_weekday.simps) simp

lemma day_split: "w = w div day_us * day_us + w mod day_us"
  by simp

lemma clock_us_range:
  assumes "0 \<le> h" "h \<le> 23" "0 \<le> m" "m \<le> 59"
  shows "0 \<le> clock_us h m" "clock_us h m < day_us"
  using assms by (simp_all add: clock_us_def day_us_def)

lemma clock_div_mod:
  assumes "0 \<le> c" "c < day_us"
  shows "(d * day_us + c) div day_us = d" "(d * day_us + c) mod day_us = c"
  using assms by (simp_all add: day_us_def)

text \<open>The moments at which a market opens, on the wall clock of a fixed offset.\<close>

definition opens_at :: "int \<Rightarrow> int \<Rightarrow> bool" where
  "opens_at c x \<longleftrightarrow> weekday x < 5 \<and> x mod day_us = c"

lemma opens_atD: "opens_at c x \<Longrightarrow> x = x div day_us * day_us + c \<and> (x div day_us + 3) mod 7 < 5"
  using day_split [of x] by (auto simp: opens_at_def weekday_def)

lemma opens_at_first_weekday: "0 \<le> c \<Longrightarrow> c < day_us \<Longrightarrow> opens_at c (first_weekday w div day_us * day_us + c)"
  using first_weekday_work [of w] by (simp add: opens_at_def weekday_def clock_div_mod)

text \<open>The first opening on the day \<open>d\<close> or later.\<close>

lemma first_opening_from:
  assumes "0 \<le> c" "c < day_us" "opens_at c x" "w div day_us \<le> x div day_us"
  shows "first_weekday w div day_us * day_us + c \<le> x"
proof -
  have "first_weekday w div day_us \<le> x div day_us"
    using assms(3,4) by (intro first_weekday_least) (simp_all add: opens_atD)
  then have "first_weekday w div day_us * day_us \<le> x div day_us * day_us" by (simp add: day_us_def)
  with opens_atD [OF assms(3)] show ?thesis by linarith
qed

lemma div_le_self: "x \<le> y \<Longrightarrow> x div day_us \<le> y div day_us"
  by (simp add: day_us_def zdiv_mono1)

lemma day_order:
  fixes a b c s :: int
  shows "b < a \<Longrightarrow> 0 \<le> c \<Longrightarrow> s < day_us \<Longrightarrow> b * day_us + s \<le> a * day_us + c"
    and "a \<le> b + 3 \<Longrightarrow> c < s \<Longrightarrow> a * day_us + c < b * day_us + s + 3 * day_us"
    and "a \<le> b + 2 \<Longrightarrow> c < day_us \<Longrightarrow> 0 \<le> s \<Longrightarrow> a * day_us + c < b * day_us + s + 3 * day_us"
  by (simp_all add: day_us_def)

definition next_opening :: "int \<Rightarrow> int \<Rightarrow> int" where
  "next_opening w c =
     (let d = first_weekday w; n = d div day_us * day_us + c
      in if d = w \<and> n mod day_us < w mod day_us then first_weekday (n + day_us) else n)"

lemma next_opening_least:
  fixes w c :: int
  defines "d \<equiv> first_weekday w"
  defines "n \<equiv> d div day_us * day_us + c"
  defines "n' \<equiv> next_opening w c"
  assumes c: "0 \<le> c" "c < day_us"
  shows "opens_at c n'" "w \<le> n'" "n' < w + 3 * day_us" "opens_at c x \<Longrightarrow> w \<le> x \<Longrightarrow> n' \<le> x"
proof -
  have n'_if: "n' = (if d = w \<and> n mod day_us < w mod day_us then first_weekday (n + day_us) else n)"
    unfolding n'_def next_opening_def Let_def d_def n_def by (rule refl)
  have n: "opens_at c n" unfolding n_def d_def by (rule opens_at_first_weekday [OF c])
  have mod_n: "n mod day_us = c" and div_n: "n div day_us = d div day_us" using c by (simp_all add: n_def clock_div_mod)
  have w: "w = w div day_us * day_us + w mod day_us" by simp
  have wm: "0 \<le> w mod day_us" "w mod day_us < day_us" by (simp_all add: day_us_def)
  have dd: "w div day_us \<le> d div day_us" unfolding d_def by (intro div_le_self first_weekday_ge)
  have "opens_at c n' \<and> w \<le> n' \<and> n' < w + 3 * day_us \<and> (opens_at c x \<and> w \<le> x \<longrightarrow> n' \<le> x)"
  proof (cases "d = w \<and> c < w mod day_us")
    case True
    let ?m = "first_weekday (n + day_us)"
    have n'_m: "n' = ?m" using True mod_n by (simp add: n'_if)
    have "?m mod day_us = c" by (simp add: first_weekday_clock mod_n)
    then have m: "?m = ?m div day_us * day_us + c" using day_split [of ?m] by simp
    have start: "(n + day_us) div day_us = w div day_us + 1" using True by (simp add: add_day_div div_n)
    have lo: "w div day_us + 1 \<le> ?m div day_us"
      using div_le_self [OF first_weekday_ge [of "n + day_us"]] by (simp add: start)
    have hi: "?m div day_us \<le> w div day_us + 3" using first_weekday_soon [of "n + day_us"] by (simp add: start)
    have "w \<le> ?m" using day_order(1) [of "w div day_us" "?m div day_us" c "w mod day_us"] lo c wm m w by simp
    moreover have "?m < w + 3 * day_us"
      using day_order(2) [of "?m div day_us" "w div day_us" c "w mod day_us"] hi True m w by simp
    moreover have "?m \<le> x" if x: "opens_at c x" "w \<le> x"
    proof -
      have "w div day_us \<noteq> x div day_us"
      proof
        assume "w div day_us = x div day_us"
        then have "x = w div day_us * day_us + c" using opens_atD [OF x(1)] by simp
        with True x(2) w show False by linarith
      qed
      with div_le_self [OF x(2)] have "(n + day_us) div day_us \<le> x div day_us" by (simp add: start)
      from first_opening_from [OF c x(1) this] m show ?thesis by simp
    qed
    moreover have "opens_at c ?m"
      using first_weekday_work [of "n + day_us"] by (simp add: opens_at_def first_weekday_clock mod_n)
    ultimately show ?thesis by (simp add: n'_m)
  next
    case False
    then have n'_n: "n' = n" by (auto simp: n'_if mod_n)
    have hi: "d div day_us \<le> w div day_us + 2" unfolding d_def by (rule first_weekday_soon)
    have lo: "w div day_us + 1 \<le> d div day_us" if "d \<noteq> w"
    proof -
      have "d mod day_us = w mod day_us" unfolding d_def by (rule first_weekday_clock)
      with that have "d div day_us \<noteq> w div day_us" by (metis day_split)
      with dd show ?thesis by linarith
    qed
    have "w \<le> n"
    proof (cases "d = w")
      case True
      with False have "w mod day_us \<le> c" by simp
      with w have "w \<le> w div day_us * day_us + c" by linarith
      with True show ?thesis by (simp add: n_def)
    next
      case False
      with lo day_order(1) [of "w div day_us" "d div day_us" c "w mod day_us"] c wm w show ?thesis by (simp add: n_def)
    qed
    moreover have "n < w + 3 * day_us"
      using day_order(3) [of "d div day_us" "w div day_us" c "w mod day_us"] hi c wm w by (simp add: n_def)
    moreover have "n \<le> x" if "opens_at c x" "w \<le> x"
      unfolding n_def d_def using first_opening_from [OF c that(1) div_le_self [OF that(2)]] .
    ultimately show ?thesis by (simp add: n'_n n)
  qed
  then show "opens_at c n'" "w \<le> n'" "n' < w + 3 * day_us" "opens_at c x \<Longrightarrow> w \<le> x \<Longrightarrow> n' \<le> x" by auto
qed

subsection \<open>One round\<close>

text \<open>Callbacks that act on the world outside the keeper.\<close>

definition on_world :: "(nat \<Rightarrow> 'w \<Rightarrow> 'w) \<Rightarrow> nat \<Rightarrow> 'w time_keeper \<Rightarrow> 'w time_keeper \<times> exn option" where
  "on_world act c k = (k\<lparr>tk_world := act c (tk_world k)\<rparr>, None)"

definition is_due :: "time \<Rightarrow> schedule \<Rightarrow> bool" where
  "is_due now s \<longleftrightarrow> sd_enabled s \<and> sd_next s \<le> now"

definition bumped :: "schedule \<Rightarrow> schedule" where
  "bumped s = (case sd_interval s of None \<Rightarrow> s | Some d \<Rightarrow> s\<lparr>sd_next := sd_next s + d\<rparr>)"

lemma bumped_same: "\<not> recurs (sd_interval s) \<Longrightarrow> bumped s = s"
  by (auto simp: bumped_def recurs_def split: option.splits)

lemma bumped_fields [simp]: "sd_enabled (bumped s) = sd_enabled s" "sd_interval (bumped s) = sd_interval s"
  "sd_callback (bumped s) = sd_callback s" "sd_id (bumped s) = sd_id s"
  by (simp_all add: bumped_def split: option.splits)

text \<open>References that are in range and filed under the identifier of their object, so distinct.\<close>

definition tk_ok :: "'w time_keeper \<Rightarrow> bool" where
  "tk_ok k \<longleftrightarrow> dict_ok (tk_schedules k) \<and>
     (\<forall>(sid, r) \<in> set (tk_schedules k). r < length (tk_objects k) \<and> sd_id (tk_objects k ! r) = sid)"

definition due_list :: "time \<Rightarrow> schedule list \<Rightarrow> (string \<times> nat) list \<Rightarrow> (string \<times> nat) list" where
  "due_list now objs ps = filter (\<lambda>(_, r). is_due now (objs ! r)) ps"

definition ended_ids :: "time \<Rightarrow> schedule list \<Rightarrow> (string \<times> nat) list \<Rightarrow> string list" where
  "ended_ids now objs ps = map fst (filter (\<lambda>(_, r). \<not> recurs (sd_interval (objs ! r))) (due_list now objs ps))"

lemma run_due_on_world:
  "run_due (on_world act) now k sid r =
     (let s = tk_objects k ! r in
      if is_due now s
      then k\<lparr>tk_world := act (sd_callback s) (tk_world k), tk_objects := (tk_objects k)[r := bumped s],
             tk_schedules := (if recurs (sd_interval s) then tk_schedules k else ddel (tk_schedules k) sid)\<rparr>
      else k)"
  by (simp add: run_due_def on_world_def is_due_def Let_def bumped_def recurs_def unschedule_def split: option.splits)

lemma other_ref: "r \<notin> snd ` set ps \<Longrightarrow> (sid, r') \<in> set ps \<Longrightarrow> objs[r := s] ! r' = objs ! r'"
  by (metis image_eqI nth_list_update_neq snd_conv)

lemma due_list_update: "r \<notin> set (dvals ps) \<Longrightarrow> due_list now (objs[r := s]) ps = due_list now objs ps"
  unfolding due_list_def by (rule filter_cong) (auto simp: other_ref)

lemma ended_ids_update:
  assumes "r \<notin> set (dvals ps)"
  shows "ended_ids now (objs[r := s]) ps = ended_ids now objs ps"
proof -
  have "filter (\<lambda>(_, r'). \<not> recurs (sd_interval (objs[r := s] ! r'))) (due_list now objs ps) =
        filter (\<lambda>(_, r'). \<not> recurs (sd_interval (objs ! r'))) (due_list now objs ps)"
    by (rule filter_cong) (use assms in \<open>auto simp: due_list_def other_ref\<close>)
  then show ?thesis using assms by (simp add: ended_ids_def due_list_update)
qed

lemma map_update_refs:
  "r \<notin> set (dvals ps) \<Longrightarrow> map (\<lambda>(_, r'). f (objs[r := s] ! r')) (due_list now objs ps) = map (\<lambda>(_, r'). f (objs ! r')) (due_list now objs ps)"
  by (rule map_cong) (auto simp: due_list_def other_ref)

lemma run_schedules_on_world:
  assumes "distinct (dvals ps)" "\<forall>r \<in> set (dvals ps). r < length (tk_objects k)"
  shows "run_schedules (on_world act) now k ps =
    k\<lparr>tk_world := foldl (\<lambda>w c. act c w) (tk_world k) (map (\<lambda>(_, r). sd_callback (tk_objects k ! r)) (due_list now (tk_objects k) ps)),
      tk_objects := foldl (\<lambda>os (_, r). os[r := bumped (os ! r)]) (tk_objects k) (due_list now (tk_objects k) ps),
      tk_schedules := foldl ddel (tk_schedules k) (ended_ids now (tk_objects k) ps)\<rparr>"
  using assms
proof (induction ps arbitrary: k)
  case Nil
  then show ?case by (simp add: due_list_def ended_ids_def)
next
  case (Cons p ps)
  obtain sid r where p: "p = (sid, r)" by fastforce
  let ?k = "run_due (on_world act) now k sid r"
  have r: "r \<notin> set (dvals ps)" using Cons.prems(1) p by auto
  have "distinct (dvals ps)" "\<forall>r \<in> set (dvals ps). r < length (tk_objects ?k)"
    using Cons.prems by (simp_all add: run_due_on_world Let_def)
  note IH = Cons.IH [OF this]
  show ?case
  proof (cases "is_due now (tk_objects k ! r)")
    case True
    with r have *: "due_list now (tk_objects ?k) ps = due_list now (tk_objects k) ps"
      "ended_ids now (tk_objects ?k) ps = ended_ids now (tk_objects k) ps"
      "map (\<lambda>(_, r). sd_callback (tk_objects ?k ! r)) (due_list now (tk_objects k) ps) =
         map (\<lambda>(_, r). sd_callback (tk_objects k ! r)) (due_list now (tk_objects k) ps)"
      by (simp_all add: run_due_on_world Let_def due_list_update ended_ids_update map_update_refs)
    have d: "due_list now (tk_objects k) ((sid, r) # ps) = (sid, r) # due_list now (tk_objects k) ps"
      using True by (simp add: due_list_def)
    then have "ended_ids now (tk_objects k) ((sid, r) # ps) =
      (if recurs (sd_interval (tk_objects k ! r)) then [] else [sid]) @ ended_ids now (tk_objects k) ps"
      by (simp add: ended_ids_def)
    with d show ?thesis unfolding p run_schedules.simps IH * using True by (simp add: run_due_on_world Let_def)
  next
    case False
    then have d: "due_list now (tk_objects k) ((sid, r) # ps) = due_list now (tk_objects k) ps"
      by (simp add: due_list_def)
    then have "ended_ids now (tk_objects k) ((sid, r) # ps) = ended_ids now (tk_objects k) ps" by (simp add: ended_ids_def)
    with d False show ?thesis unfolding p run_schedules.simps IH by (simp add: run_due_on_world Let_def)
  qed
qed

lemma foldl_bump_length [simp]: "length (foldl (\<lambda>os (_, r). os[r := bumped (os ! r)]) os ps) = length os"
  by (induction ps arbitrary: os) auto

lemma foldl_bump_nth:
  "distinct (dvals ps) \<Longrightarrow> \<forall>r \<in> set (dvals ps). r < length os \<Longrightarrow>
   foldl (\<lambda>os (_, r). os[r := bumped (os ! r)]) os ps ! r' = (if r' \<in> set (dvals ps) then bumped (os ! r') else os ! r')"
proof (induction ps arbitrary: os)
  case (Cons p ps)
  obtain sid r where p: "p = (sid, r)" by fastforce
  with Cons.prems have "distinct (dvals ps)" "\<forall>r' \<in> set (dvals ps). r' < length (os[r := bumped (os ! r)])" by auto
  from Cons.IH [OF this] Cons.prems show ?case by (cases "r = r'") (auto simp: p)
qed simp

lemma dget_foldl_ddel: "dget (foldl ddel d ids) k = (if k \<in> set ids then None else dget d k)"
  by (induction ids arbitrary: d) auto

lemma foldl_map_pairs: "foldl (\<lambda>w c. f c w) w (map (\<lambda>(_, r). g r) ps) = foldl (\<lambda>w (_, r). f (g r) w) w ps"
  by (induction ps arbitrary: w) auto

lemma tk_okD:
  assumes "tk_ok k"
  shows "distinct (dvals (tk_schedules k))" "\<forall>r \<in> set (dvals (tk_schedules k)). r < length (tk_objects k)"
    "dict_ok (tk_schedules k)"
proof -
  have "dkeys (tk_schedules k) = map (\<lambda>r. sd_id (tk_objects k ! r)) (dvals (tk_schedules k))"
    using assms by (auto simp: tk_ok_def)
  then show "distinct (dvals (tk_schedules k))" using assms by (metis tk_ok_def dict_ok_def distinct_map)
qed (use assms in \<open>auto simp: tk_ok_def\<close>)

lemma current_time_frame [simp]:
  "tk_schedules (snd (current_time k t)) = tk_schedules k" "tk_objects (snd (current_time k t)) = tk_objects k"
  "tk_world (snd (current_time k t)) = tk_world k" "tk_running (snd (current_time k t)) = tk_running k"
  "tk_backtest (snd (current_time k t)) = tk_backtest k"
  "tk_ok (snd (current_time k t)) = tk_ok k"
  by (simp_all add: current_time_def tk_ok_def)

text \<open>What the loop over the schedules leaves of a schedule.\<close>

definition after_round :: "time \<Rightarrow> 'w time_keeper \<Rightarrow> string \<Rightarrow> nat option" where
  "after_round now k sid =
     (case dget (tk_schedules k) sid of
        None \<Rightarrow> None
      | Some r \<Rightarrow> if is_due now (tk_objects k ! r) \<and> \<not> recurs (sd_interval (tk_objects k ! r)) then None else Some r)"

lemma ended_ids_dget:
  assumes "dict_ok (tk_schedules k)"
  shows "(if sid \<in> set (ended_ids now (tk_objects k) (tk_schedules k)) then None else dget (tk_schedules k) sid) = after_round now k sid"
proof (cases "dget (tk_schedules k) sid")
  case None
  then show ?thesis by (simp add: after_round_def)
next
  case (Some r)
  have one: "(sid, r') \<in> set (tk_schedules k) \<longleftrightarrow> r' = r" for r'
    by (metis assms Some dict_ok_def map_of_eq_Some_iff option.inject)
  have "sid \<in> set (ended_ids now (tk_objects k) (tk_schedules k)) \<longleftrightarrow>
      (\<exists>r'. (sid, r') \<in> set (tk_schedules k) \<and> is_due now (tk_objects k ! r') \<and> \<not> recurs (sd_interval (tk_objects k ! r')))"
    unfolding ended_ids_def due_list_def by (auto intro!: image_eqI [where x = "(sid, _)"])
  then have "sid \<in> set (ended_ids now (tk_objects k) (tk_schedules k)) \<longleftrightarrow>
      is_due now (tk_objects k ! r) \<and> \<not> recurs (sd_interval (tk_objects k ! r))"
    unfolding one by simp
  with Some show ?thesis by (simp add: after_round_def)
qed

lemma tk_round_on_world:
  fixes clock :: time and k :: "'w time_keeper" and act :: "nat \<Rightarrow> 'w \<Rightarrow> 'w"
  assumes "tk_ok k"
  defines "now \<equiv> fst (current_time k clock)" and "k' \<equiv> tk_round (on_world act) k clock"
  shows "tk_world k' = foldl (\<lambda>w (_, r). act (sd_callback (tk_objects k ! r)) w) (tk_world k)
      (filter (\<lambda>(_, r). is_due now (tk_objects k ! r)) (tk_schedules k))"
    and "dget (tk_schedules k') sid = after_round now k sid"
    and "tk_objects k' ! r = (if r \<in> set (dvals (tk_schedules k)) \<and> is_due now (tk_objects k ! r)
      then bumped (tk_objects k ! r) else tk_objects k ! r)"
    and "length (tk_objects k') = length (tk_objects k)" "tk_running k' = tk_running k" "tk_backtest k' = tk_backtest k"
proof -
  obtain k1 where c: "current_time k clock = (now, k1)" unfolding now_def by (metis prod.collapse)
  then have k1: "k1 = snd (current_time k clock)" by simp
  let ?D = "due_list now (tk_objects k) (tk_schedules k)"
  have D: "distinct (dvals ?D)" "\<forall>r \<in> set (dvals ?D). r < length (tk_objects k)"
    using tk_okD [OF assms(1)] by (auto simp: due_list_def distinct_map inj_on_def)
  have r: "k' = k1\<lparr>tk_world := foldl (\<lambda>w c. act c w) (tk_world k) (map (\<lambda>(_, r). sd_callback (tk_objects k ! r)) ?D),
      tk_objects := foldl (\<lambda>os (_, r). os[r := bumped (os ! r)]) (tk_objects k) ?D,
      tk_schedules := foldl ddel (tk_schedules k) (ended_ids now (tk_objects k) (tk_schedules k))\<rparr>"
    unfolding k'_def tk_round_def c prod.case
    using run_schedules_on_world [of "tk_schedules k1" k1 act now] tk_okD [OF assms(1)] by (simp add: k1)
  show "tk_world k' = foldl (\<lambda>w (_, r). act (sd_callback (tk_objects k ! r)) w) (tk_world k)
      (filter (\<lambda>(_, r). is_due now (tk_objects k ! r)) (tk_schedules k))"
    by (simp add: r foldl_map_pairs) (simp add: due_list_def)
  show "dget (tk_schedules k') sid = after_round now k sid"
    using ended_ids_dget [OF tk_okD(3) [OF assms(1)], of sid now] by (simp add: r dget_foldl_ddel)
  show "tk_objects k' ! r = (if r \<in> set (dvals (tk_schedules k)) \<and> is_due now (tk_objects k ! r)
      then bumped (tk_objects k ! r) else tk_objects k ! r)"
    by (simp add: r foldl_bump_nth [OF D]) (force simp: due_list_def)
  show "length (tk_objects k') = length (tk_objects k)" "tk_running k' = tk_running k" "tk_backtest k' = tk_backtest k"
    by (simp_all add: r k1)
qed

subsection \<open>Calls on the keeper, from outside and from callbacks\<close>

datatype keeper_action =
    K_Set moment
  | K_Advance int
  | K_Schedule string nat moment "int option" string
  | K_Unschedule string
  | K_Stop

fun keeper_call :: "pytz \<Rightarrow> 'w time_keeper \<Rightarrow> keeper_action \<Rightarrow> exn + 'w time_keeper" where
  "keeper_call pz k (K_Set m) = set_time pz k m"
| "keeper_call pz k (K_Advance d) = advance_time k d"
| "keeper_call pz k (K_Schedule sid cb m every zone) =
     and_then (schedule_task pz k sid cb m every zone) (\<lambda>(_, k1). Inr k1)"
| "keeper_call pz k (K_Unschedule sid) = Inr (unschedule k sid)"
| "keeper_call pz k K_Stop = Inr (tk_stop k)"

text \<open>A callback that makes the calls of a script until one raises.\<close>

fun run_script :: "pytz \<Rightarrow> 'w time_keeper \<Rightarrow> keeper_action list \<Rightarrow> 'w time_keeper \<times> exn option" where
  "run_script pz k [] = (k, None)"
| "run_script pz k (x # xs) =
     (case keeper_call pz k x of Inl e \<Rightarrow> (k, Some e) | Inr k1 \<Rightarrow> run_script pz k1 xs)"

datatype keeper_op = Keeper_Call keeper_action | Keeper_Round time

fun keeper_step :: "pytz \<Rightarrow> (nat \<Rightarrow> keeper_action list) \<Rightarrow> 'w time_keeper \<Rightarrow> keeper_op \<Rightarrow> 'w time_keeper" where
  "keeper_step pz script k (Keeper_Call x) = (case keeper_call pz k x of Inl _ \<Rightarrow> k | Inr k1 \<Rightarrow> k1)"
| "keeper_step pz script k (Keeper_Round t) = tk_round (\<lambda>c k. run_script pz k (script c)) k t"

text \<open>Objects stay, keep their identifiers, and are never taken back.\<close>

definition keeps_objects :: "'w time_keeper \<Rightarrow> 'w time_keeper \<Rightarrow> bool" where
  "keeps_objects k k' \<longleftrightarrow> length (tk_objects k) \<le> length (tk_objects k') \<and>
     (\<forall>r < length (tk_objects k). sd_id (tk_objects k' ! r) = sd_id (tk_objects k ! r)) \<and> (tk_ok k \<longrightarrow> tk_ok k')"

lemma keeps_objects_refl: "keeps_objects k k"
  by (simp add: keeps_objects_def)

lemma keeps_objects_trans: "keeps_objects k k1 \<Longrightarrow> keeps_objects k1 k2 \<Longrightarrow> keeps_objects k k2"
  by (auto simp: keeps_objects_def)

lemma tk_ok_schedule:
  assumes "tk_ok k" "sd_id s = sid"
  shows "tk_ok (k\<lparr>tk_objects := tk_objects k @ [s], tk_schedules := dset (tk_schedules k) sid (length (tk_objects k))\<rparr>)"
proof -
  let ?d = "dset (tk_schedules k) sid (length (tk_objects k))"
  have ok: "dict_ok ?d" using assms(1) by (simp add: tk_ok_def)
  have d: "distinct (map fst ?d)" "distinct (map fst (tk_schedules k))"
    using ok assms(1) by (simp_all add: dict_ok_def tk_ok_def)
  have get: "(sid', r) \<in> set ?d \<longleftrightarrow> (if sid' = sid then r = length (tk_objects k) else (sid', r) \<in> set (tk_schedules k))" for sid' r
    unfolding map_of_eq_Some_iff [OF d(1), symmetric] map_of_eq_Some_iff [OF d(2), symmetric] by auto
  have "r < length (tk_objects k @ [s]) \<and> sd_id ((tk_objects k @ [s]) ! r) = sid'" if "(sid', r) \<in> set ?d" for sid' r
    using that assms unfolding get by (auto simp: tk_ok_def nth_append split: if_splits)
  with ok show ?thesis by (auto simp: tk_ok_def)
qed

lemma tk_ok_unschedule: "tk_ok k \<Longrightarrow> tk_ok (unschedule k sid)"
  using dict_ok_ddel [of "tk_schedules k" sid] by (auto simp: unschedule_def tk_ok_def AList.delete_eq)

lemma sd_id_bump: "sd_id (os[r := (os ! r)\<lparr>sd_next := n\<rparr>] ! r') = sd_id (os ! r')"
  by (cases "r < length os"; cases "r = r'") (simp_all add: list_update_beyond)

lemma tk_ok_bump: "tk_ok k \<Longrightarrow> tk_ok (k\<lparr>tk_objects := (tk_objects k)[r := (tk_objects k ! r)\<lparr>sd_next := n\<rparr>]\<rparr>)"
  by (simp add: tk_ok_def sd_id_bump)

lemma keeper_call_keeps: "keeper_call pz k x = Inr k1 \<Longrightarrow> keeps_objects k k1"
proof (cases x)
  case (K_Schedule sid cb m every zone)
  assume "keeper_call pz k x = Inr k1"
  then show ?thesis using K_Schedule
    by (auto simp: keeps_objects_def schedule_task_def and_then_Inr_iff Let_def nth_append intro!: tk_ok_schedule)
next
  case (K_Unschedule sid)
  assume "keeper_call pz k x = Inr k1"
  then show ?thesis using K_Unschedule tk_ok_unschedule [of k sid] by (auto simp: keeps_objects_def unschedule_def)
qed (auto simp: keeps_objects_def set_time_def advance_time_def notify_time_changed_def tk_stop_def tk_ok_def split: if_splits)

lemma run_script_keeps: "keeps_objects k (fst (run_script pz k xs))"
proof (induction xs arbitrary: k)
  case (Cons x xs)
  show ?case
  proof (cases "keeper_call pz k x")
    case (Inl e)
    then show ?thesis by (simp add: keeps_objects_refl)
  next
    case (Inr k1)
    with keeps_objects_trans [OF keeper_call_keeps [OF this] Cons.IH] show ?thesis by simp
  qed
qed (simp add: keeps_objects_refl)

lemma run_due_keeps:
  assumes "\<And>c k. keeps_objects k (fst (run c k))"
  shows "keeps_objects k (run_due run now k sid r)"
proof -
  let ?k = "fst (run (sd_callback (tk_objects k ! r)) k)"
  have "keeps_objects ?k (unschedule ?k sid)"
    using tk_ok_unschedule [of ?k sid] by (simp add: keeps_objects_def) (simp add: unschedule_def)
  moreover have "keeps_objects ?k (?k\<lparr>tk_objects := (tk_objects ?k)[r := (tk_objects ?k ! r)\<lparr>sd_next := n\<rparr>]\<rparr>)" for n
    using tk_ok_bump [of ?k r n] by (simp add: keeps_objects_def sd_id_bump)
  ultimately have "keeps_objects k (unschedule ?k sid)"
    "keeps_objects k (?k\<lparr>tk_objects := (tk_objects ?k)[r := (tk_objects ?k ! r)\<lparr>sd_next := n\<rparr>]\<rparr>)" for n
    using keeps_objects_trans [OF assms] by blast+
  then show ?thesis using keeps_objects_refl [of k]
    by (simp add: run_due_def Let_def case_prod_beta split: option.split)
qed

lemma run_schedules_keeps:
  assumes "\<And>c k. keeps_objects k (fst (run c k))"
  shows "keeps_objects k (run_schedules run now k ps)"
proof (induction ps arbitrary: k)
  case (Cons p ps)
  obtain sid r where p: "p = (sid, r)" by fastforce
  show ?case unfolding p run_schedules.simps by (rule keeps_objects_trans [OF run_due_keeps [OF assms] Cons.IH])
qed (simp add: keeps_objects_refl)

lemma keeper_step_ok: "tk_ok k \<Longrightarrow> tk_ok (keeper_step pz script k x)"
proof (cases x)
  case (Keeper_Call c)
  assume "tk_ok k"
  then show ?thesis using Keeper_Call keeper_call_keeps by (auto simp: keeps_objects_def split: sum.splits)
next
  case (Keeper_Round t)
  assume "tk_ok k"
  obtain now k1 where c: "current_time k t = (now, k1)" by fastforce
  with \<open>tk_ok k\<close> have "tk_ok k1" by (metis current_time_frame(6) snd_conv)
  moreover have "keeps_objects k1 (run_schedules (\<lambda>c k. run_script pz k (script c)) now k1 (tk_schedules k1))"
    by (rule run_schedules_keeps) (rule run_script_keeps)
  ultimately show ?thesis unfolding keeper_step.simps Keeper_Round tk_round_def c by (simp add: keeps_objects_def)
qed

interpretation keeper: run_system "keeper_step pz script" "\<lambda>_ _. True" tk_ok for pz script
  by unfold_locales (rule keeper_step_ok)

subsection \<open>A recurring task over many rounds\<close>

text \<open>How often a task that is next due at \<open>n\<close> and recurs after \<open>d\<close> runs in rounds at the given times.\<close>

fun due_rounds :: "int \<Rightarrow> int \<Rightarrow> time list \<Rightarrow> nat" where
  "due_rounds n d [] = 0"
| "due_rounds n d (t # ts) = (if n \<le> t then Suc (due_rounds (n + d) d ts) else due_rounds n d ts)"

lemma due_rounds_not_early:
  "0 < d \<Longrightarrow> \<forall>t \<in> set ts. t \<le> T \<Longrightarrow> 0 < due_rounds n d ts \<Longrightarrow> n + d * (int (due_rounds n d ts) - 1) \<le> T"
proof (induction ts arbitrary: n)
  case (Cons t ts)
  show ?case
  proof (cases "n \<le> t \<and> 0 < due_rounds (n + d) d ts")
    case True
    with Cons.IH [of "n + d"] Cons.prems show ?thesis by (simp add: algebra_simps)
  next
    case False
    with Cons show ?thesis by (auto split: if_splits)
  qed
qed simp

lemma due_rounds_enough:
  "0 < d \<Longrightarrow> (T - n) div d < int (length (filter (\<lambda>t. T \<le> t) ts)) \<Longrightarrow> T < n + d * int (due_rounds n d ts)"
proof (induction ts arbitrary: n)
  case Nil
  then show ?case by (auto simp: div_less_iff_less_mult not_less pos_imp_zdiv_neg_iff)
next
  case (Cons t ts)
  have s: "(T - (n + d)) div d = (T - n) div d - 1"
    using div_add_self2 [of d "T - (n + d)"] Cons.prems(1) by simp
  show ?case
  proof (cases "n \<le> t")
    case True
    with Cons.prems s have "(T - (n + d)) div d < int (length (filter (\<lambda>t. T \<le> t) ts))" by (auto split: if_splits)
    from Cons.IH [OF Cons.prems(1) this] True show ?thesis by (simp add: algebra_simps)
  next
    case False
    show ?thesis
    proof (cases "T \<le> t")
      case True
      have "0 \<le> d * int (due_rounds n d (t # ts))" using Cons.prems(1) by simp
      with True False show ?thesis by linarith
    next
      case F: False
      with False Cons show ?thesis by simp
    qed
  qed
qed

definition log_call :: "nat \<Rightarrow> nat list \<Rightarrow> nat list" where
  "log_call c w = w @ [c]"

lemma foldl_log_call: "foldl (\<lambda>w (_, r). log_call (f r) w) w ps = w @ map (\<lambda>(_, r). f r) ps"
  by (induction ps arbitrary: w) (auto simp: log_call_def)

text \<open>The task \<open>sid\<close> with its object \<open>r\<close>: enabled, recurring after \<open>d\<close>, and the only user of its callback.\<close>

definition recurring :: "nat list time_keeper \<Rightarrow> string \<Rightarrow> nat \<Rightarrow> int \<Rightarrow> bool" where
  "recurring k sid r d \<longleftrightarrow> tk_ok k \<and> \<not> tk_backtest k \<and> dget (tk_schedules k) sid = Some r \<and> 0 < d \<and>
     sd_enabled (tk_objects k ! r) \<and> sd_interval (tk_objects k ! r) = Some d \<and>
     (\<forall>sid' r'. dget (tk_schedules k) sid' = Some r' \<longrightarrow> r' \<noteq> r \<longrightarrow> sd_callback (tk_objects k ! r') \<noteq> sd_callback (tk_objects k ! r))"

lemma on_world_keeps: "keeps_objects k (fst (on_world act c k))"
  by (simp add: on_world_def keeps_objects_def tk_ok_def)

lemma tk_round_ok: "tk_ok k \<Longrightarrow> tk_ok (tk_round (on_world act) k t)"
  using run_schedules_keeps [of "on_world act", OF on_world_keeps]
  by (simp add: tk_round_def keeps_objects_def split: prod.split) (metis current_time_frame(6) snd_conv)

lemma length_filter_one:
  "distinct xs \<Longrightarrow> length (filter (\<lambda>y. y = x \<and> P y) xs) = (if x \<in> set xs \<and> P x then 1 else 0)"
  by (induction xs) auto

lemma recurring_round:
  fixes t :: time
  assumes "recurring k sid r d"
  defines "k' \<equiv> tk_round (on_world log_call) k t" and "s \<equiv> tk_objects k ! r"
  shows "recurring k' sid r d"
    and "tk_objects k' ! r = (if sd_next s \<le> t then s\<lparr>sd_next := sd_next s + d\<rparr> else s)"
    and "count_list (tk_world k') (sd_callback s) = count_list (tk_world k) (sd_callback s) + (if sd_next s \<le> t then 1 else 0)"
proof -
  note R = assms(1) [unfolded recurring_def]
  have ok: "tk_ok k" using R by simp
  have now: "fst (current_time k t) = t" using R by (simp add: current_time_def)
  note round = tk_round_on_world [OF ok, where clock = t and act = log_call, unfolded now, folded k'_def]
  have r: "(sid, r) \<in> set (tk_schedules k)" using R by (simp add: map_of_SomeD)
  then have rv: "r \<in> set (dvals (tk_schedules k))" by force
  have due: "is_due t s \<longleftrightarrow> sd_next s \<le> t" using R by (simp add: is_due_def s_def)
  show obj: "tk_objects k' ! r = (if sd_next s \<le> t then s\<lparr>sd_next := sd_next s + d\<rparr> else s)"
    using R rv due by (simp add: round(3) bumped_def flip: s_def)
  have kept: "dget (tk_schedules k') sid' = Some r' \<Longrightarrow> dget (tk_schedules k) sid' = Some r'" for sid' r'
    by (auto simp: round(2) after_round_def split: option.splits if_splits)
  have cb: "sd_callback (tk_objects k' ! r') = sd_callback (tk_objects k ! r')" for r' by (simp add: round(3))
  have fields: "sd_enabled (tk_objects k' ! r')= sd_enabled (tk_objects k ! r')"
    "sd_interval (tk_objects k' ! r') = sd_interval (tk_objects k ! r')" for r' by (simp_all add: round(3))
  have "dget (tk_schedules k') sid = Some r" using R by (simp add: round(2) after_round_def recurs_def)
  moreover have "sd_callback (tk_objects k' ! r') \<noteq> sd_callback (tk_objects k' ! r)"
    if "dget (tk_schedules k') sid' = Some r'" "r' \<noteq> r" for sid' r'
    using R kept [OF that(1)] that(2) unfolding cb by blast
  ultimately show "recurring k' sid r d"
    using R tk_round_ok [OF ok, of log_call t, folded k'_def] round(6) unfolding recurring_def fields by auto
  have only: "sd_callback (tk_objects k ! snd p) = sd_callback s \<longleftrightarrow> p = (sid, r)" if "p \<in> set (tk_schedules k)" for p
  proof
    assume same: "sd_callback (tk_objects k ! snd p) = sd_callback s"
    have "dget (tk_schedules k) (fst p) = Some (snd p)" using that tk_okD(3) [OF ok] by (simp add: dict_ok_def)
    with R same have "snd p = r" unfolding s_def by blast
    with that r tk_okD(1) [OF ok] show "p = (sid, r)" by (auto simp: distinct_map inj_on_def)
  qed (simp add: s_def)
  have "count_list (map (\<lambda>(_, r). sd_callback (tk_objects k ! r)) (filter (\<lambda>(_, r). is_due t (tk_objects k ! r)) (tk_schedules k)))
      (sd_callback s) = length (filter (\<lambda>p. p = (sid, r) \<and> is_due t (tk_objects k ! snd p)) (tk_schedules k))"
    unfolding count_list_eq_length_filter filter_map length_map filter_filter comp_def
    by (rule arg_cong [where f = length], rule filter_cong) (auto simp: eq_commute [of "sd_callback s"] only [of "(_, _)", simplified])
  also have "\<dots> = (if sd_next s \<le> t then 1 else 0)"
    using tk_okD(1) [OF ok] r due by (subst length_filter_one) (auto simp: distinct_map s_def)
  finally show "count_list (tk_world k') (sd_callback s) = count_list (tk_world k) (sd_callback s) + (if sd_next s \<le> t then 1 else 0)"
    by (simp add: round(1) foldl_log_call)
qed

lemma recurring_loop:
  fixes ts :: "time list"
  assumes "recurring k sid r d" "tk_running k"
  defines "k' \<equiv> tk_loop (on_world log_call) k ts" and "s \<equiv> tk_objects k ! r"
  defines "m \<equiv> due_rounds (sd_next s) d ts"
  shows "dget (tk_schedules k') sid = Some r \<and> sd_next (tk_objects k' ! r) = sd_next s + d * int m \<and>
    count_list (tk_world k') (sd_callback s) = count_list (tk_world k) (sd_callback s) + m"
  using assms(1,2) unfolding k'_def s_def m_def
proof (induction ts arbitrary: k)
  case Nil
  then show ?case by (simp add: recurring_def)
next
  case (Cons t ts)
  let ?k = "tk_round (on_world log_call) k t"
  note step = recurring_round [OF Cons.prems(1), of t]
  have ok: "tk_ok k" using Cons.prems(1) by (simp add: recurring_def)
  have "tk_running ?k" using Cons.prems(2) by (simp add: tk_round_on_world(5) [OF ok])
  from Cons.IH [OF step(1) this] step(2,3) Cons.prems(2) show ?case by (auto simp: algebra_simps)
qed

section \<open>Properties of the time keeper\<close>


text \<open>One round of the loop calls exactly the tasks that are enabled and due, each once and in
  the order of the dictionary; it moves those that recur on by their interval, drops the others
  that ran, and leaves all other schedules as they were. The callbacks act on the world outside
  the keeper.\<close>

theorem round_runs_exactly_due:
  fixes k :: "'w time_keeper"
  assumes "tk_ok k" "now = fst (current_time k clock)" "k' = tk_round (on_world act) k clock"
  defines "due \<equiv> \<lambda>r. sd_enabled (tk_objects k ! r) \<and> sd_next (tk_objects k ! r) \<le> now"
  shows "tk_world k' = foldl (\<lambda>w (_, r). act (sd_callback (tk_objects k ! r)) w) (tk_world k)
           (filter (\<lambda>(_, r). due r) (tk_schedules k)) \<and>
    (\<forall>sid. dget (tk_schedules k') sid =
       (case dget (tk_schedules k) sid of
          None \<Rightarrow> None
        | Some r \<Rightarrow> if due r \<and> \<not> recurs (sd_interval (tk_objects k ! r)) then None else Some r)) \<and>
    (\<forall>sid r. dget (tk_schedules k) sid = Some r \<longrightarrow> tk_objects k' ! r =
       (if due r then bumped (tk_objects k ! r) else tk_objects k ! r))"
proof -
  have "r \<in> set (dvals (tk_schedules k))" if "dget (tk_schedules k) sid = Some r" for sid r
    using that by (rule dget_in_dvals)
  then show ?thesis unfolding assms(2,3) due_def is_due_def [symmetric]
    using tk_round_on_world [OF assms(1), of act clock] by (simp add: after_round_def)
qed

text \<open>C19. A recurring task is never early and no run of it is skipped. After any rounds of the loop,
  the task has run as often as its next time says, its last run was due by the latest reading
  of the clock, and once there were enough rounds at or after a moment all its runs due by that
  moment have happened: a task that has fallen behind catches up one run for each round.\<close>

theorem recurring_task_catches_up:
  fixes k :: "nat list time_keeper"
  assumes "recurring k sid r d" "k' = tk_run (on_world log_call) k ts" "s = tk_objects k ! r"
    and "m = count_list (tk_world k') (sd_callback s) - count_list (tk_world k) (sd_callback s)"
  shows "sd_next (tk_objects k' ! r) = sd_next s + d * int m \<and>
    ((\<forall>t \<in> set ts. t \<le> T) \<longrightarrow> 0 < m \<longrightarrow> sd_next s + d * (int m - 1) \<le> T) \<and>
    ((T - sd_next s) div d < int (length (filter (\<lambda>t. T \<le> t) ts)) \<longrightarrow> T < sd_next (tk_objects k' ! r))"
proof -
  let ?k = "k\<lparr>tk_stop_event := False, tk_running := True\<rparr>"
  have "recurring ?k sid r d" using assms(1) by (simp add: recurring_def tk_ok_def)
  from recurring_loop [OF this, of ts] have "sd_next (tk_objects k' ! r) = sd_next s + d * int (due_rounds (sd_next s) d ts)"
    "m = due_rounds (sd_next s) d ts"
    by (simp_all add: assms tk_run_def)
  moreover have "0 < d" using assms(1) by (simp add: recurring_def)
  ultimately show ?thesis using due_rounds_not_early due_rounds_enough by simp
qed

text \<open>C20. get_next_market_open finds the first opening that is not before the current wall-clock time
  of the market: on a working day, at the opening time, and less than three days away. The
  moment it returns shows this time on the market's wall clock exactly when the market's offset
  from UTC is still the present one.\<close>

theorem next_market_open_first:
  assumes "pz_known pz zone" "0 \<le> h" "h \<le> 23" "0 \<le> m" "m \<le> 59" "now = fst (current_time k clock)"
  defines "w \<equiv> now + pz_offset pz zone now"
  defines "opens \<equiv> \<lambda>x. weekday x < 5 \<and> x mod day_us = clock_us h m"
  shows "\<exists>n t. get_next_market_open pz k zone (h, m) clock = (Inr (n, t), snd (current_time k clock)) \<and>
    opens n \<and> w \<le> n \<and> n < w + 3 * day_us \<and> (\<forall>x. opens x \<longrightarrow> w \<le> x \<longrightarrow> n \<le> x) \<and>
    (t + pz_offset pz zone t = n \<longleftrightarrow> pz_offset pz zone t = pz_offset pz zone now)"
proof -
  let ?off = "pz_offset pz zone now"
  note first = next_opening_least [OF clock_us_range [OF assms(2-5)], where w = w, unfolded opens_at_def]
  have "get_next_market_open pz k zone (h, m) clock = (Inr (next_opening w (clock_us h m), next_opening w (clock_us h m) - ?off),
      snd (current_time k clock))"
    using assms(1-5)
    by (simp add: get_next_market_open_def timezone_def at_clock_def next_opening_def Let_def assms(6) w_def split: prod.split)
  then obtain n where "get_next_market_open pz k zone (h, m) clock = (Inr (n, n - ?off), snd (current_time k clock))"
    "opens n" "w \<le> n" "n < w + 3 * day_us" "\<forall>x. opens x \<longrightarrow> w \<le> x \<longrightarrow> n \<le> x"
    using first unfolding opens_def by blast
  then show ?thesis by (intro exI [of _ n] exI [of _ "n - ?off"] conjI) (assumption | simp)+
qed

lemma keeper_call_objects: "keeper_call pz k x = Inr k1 \<Longrightarrow> \<exists>ys. tk_objects k1 = tk_objects k @ ys"
  by (cases x) (auto simp: set_time_def advance_time_def notify_time_changed_def tk_stop_def unschedule_def schedule_task_def
      and_then_Inr_iff Let_def split: if_splits)

lemma run_script_objects: "\<exists>ys. tk_objects (fst (run_script pz k xs)) = tk_objects k @ ys"
proof (induction xs arbitrary: k)
  case (Cons x xs)
  show ?case
  proof (cases "keeper_call pz k x")
    case (Inr k1)
    with keeper_call_objects [OF Inr] Cons.IH [of k1] show ?thesis by auto
  qed simp
qed simp

text \<open>A task that runs once cannot schedule itself again: whatever calls its callback makes on the
  keeper, also one that schedules a new task under the same identifier, after the round the
  identifier is not scheduled, since the loop removes it after the callback has returned.\<close>

theorem one_shot_cannot_reschedule:
  assumes "tk_schedules k = [(sid, r)]" "r < length (tk_objects k)" "sd_enabled (tk_objects k ! r)"
    and "sd_next (tk_objects k ! r) \<le> fst (current_time k clock)" "\<not> recurs (sd_interval (tk_objects k ! r))"
  shows "dget (tk_schedules (keeper_step pz script k (Keeper_Round clock))) sid = None"
proof -
  obtain now k1 where c: "current_time k clock = (now, k1)" by fastforce
  then have k1: "k1 = snd (current_time k clock)" by simp
  let ?k = "fst (run_script pz k1 (script (sd_callback (tk_objects k ! r))))"
  have f: "tk_objects k1 = tk_objects k" "tk_schedules k1 = [(sid, r)]" using assms(1) by (simp_all add: k1)
  obtain ys where "tk_objects ?k = tk_objects k @ ys"
    using run_script_objects [of pz k1 "script (sd_callback (tk_objects k ! r))"] f by metis
  then have i: "\<not> recurs (sd_interval (tk_objects ?k ! r))" using assms(2,5) by (simp add: nth_append)
  have d: "sd_enabled (tk_objects k1 ! r) \<and> sd_next (tk_objects k1 ! r) \<le> now" using assms(3,4) c f by simp
  have "keeper_step pz script k (Keeper_Round clock) = run_due (\<lambda>c k. run_script pz k (script c)) now k1 sid r"
    by (simp add: tk_round_def c f)
  also have "\<dots> = unschedule ?k sid" using d i
    by (simp add: run_due_def Let_def case_prod_beta f recurs_def split: option.splits)
  finally show ?thesis by (simp add: unschedule_def)
qed

text \<open>The clock belongs to the keeper only in a backtest: there, setting and advancing it always
  works, it then reads what the last setting and the advances since then add up to, whatever the
  system's clock says, and the listeners hear of every change once and in order. Outside a
  backtest both raise, and it reads the system's clock.\<close>

theorem clock_exact:
  fixes k :: "'w time_keeper"
  shows "if tk_backtest k
    then \<exists>k1 k2. set_time pz k m = Inr k1 \<and> advance_time k1 d = Inr k2 \<and>
      fst (current_time k2 now) = instant_in pz (tk_timezone k) m + d \<and>
      tk_world k2 = notify (tk_on_change k) (instant_in pz (tk_timezone k) m + d)
        (notify (tk_on_change k) (instant_in pz (tk_timezone k) m) (tk_world k))
    else set_time pz k m = Inl RuntimeError \<and> set_current_time pz k m = Inl RuntimeError \<and>
      advance_time k d = Inl RuntimeError \<and> fst (current_time k now) = now"
  by (simp add: set_time_def set_current_time_def advance_time_def current_time_def notify_time_changed_def)

section \<open>Concrete keepers\<close>

definition utc_only :: pytz where
  "utc_only = \<lparr>pz_known = (\<lambda>z. z = ''UTC''), pz_offset = (\<lambda>_ _. 0), pz_localize = (\<lambda>_ w. w)\<rparr>"

definition sample_schedule :: "string \<Rightarrow> nat \<Rightarrow> int option \<Rightarrow> schedule" where
  "sample_schedule sid cb every =
     \<lparr>sd_id = sid, sd_callback = cb, sd_next = 5, sd_interval = every, sd_timezone = ''UTC'', sd_enabled = True\<rparr>"

definition sample_keeper :: "nat list time_keeper" where
  "sample_keeper = \<lparr>tk_timezone = ''UTC'', tk_mode = TM_LIVE, tk_backtest = False, tk_current = 0, tk_start = 0,
     tk_schedules = [(''poll'', 0), (''once'', 1)], tk_objects = [sample_schedule ''poll'' 7 (Some 10), sample_schedule ''once'' 8 None],
     tk_running = False, tk_stop_event = False, tk_on_change = [], tk_world = []\<rparr>"

lemma sample_keeper_ok: "tk_ok sample_keeper"
  by (simp add: tk_ok_def sample_keeper_def dict_ok_def sample_schedule_def)


theorem round_runs_exactly_due_witness:
  "tk_world (tk_round (on_world log_call) sample_keeper 6) = [7, 8] \<and>
   dget (tk_schedules (tk_round (on_world log_call) sample_keeper 6)) ''once'' = None"
  using round_runs_exactly_due [OF sample_keeper_ok refl refl, where clock = 6 and act = log_call]
  by (auto simp: sample_keeper_def current_time_def sample_schedule_def log_call_def recurs_def)

lemma sample_recurring: "recurring sample_keeper ''poll'' 0 10"
  using sample_keeper_ok by (simp add: recurring_def) (simp add: sample_keeper_def sample_schedule_def)

theorem recurring_task_catches_up_witness:
  "26 < sd_next (tk_objects (tk_run (on_world log_call) sample_keeper [27, 28, 29]) ! 0)"
proof -
  have s: "tk_objects sample_keeper ! 0 = sample_schedule ''poll'' 7 (Some 10)" by (simp add: sample_keeper_def)
  show ?thesis using recurring_task_catches_up [OF sample_recurring refl s [symmetric] refl, of "[27, 28, 29]" 26]
    by (simp add: sample_schedule_def)
qed

theorem next_market_open_first_witness:
  "\<exists>n t. get_next_market_open utc_only sample_keeper ''UTC'' (9, 30) 5 = (Inr (n, t), snd (current_time sample_keeper 5)) \<and>
     weekday n < 5 \<and> n mod day_us = clock_us 9 30 \<and> 5 \<le> n \<and> n < 5 + 3 * day_us"
  using next_market_open_first [of utc_only "''UTC''" 9 30 "fst (current_time sample_keeper 5)" sample_keeper 5]
  by (auto simp: utc_only_def sample_keeper_def current_time_def)

theorem one_shot_cannot_reschedule_witness:
  "dget (tk_schedules (keeper_step utc_only (\<lambda>_. [K_Schedule ''once'' 8 (Aware 50) None ''UTC''])
     (sample_keeper\<lparr>tk_schedules := [(''once'', 1)]\<rparr>) (Keeper_Round 6))) ''once'' = None"
  by (rule one_shot_cannot_reschedule [where r = "Suc 0"]) (simp_all add: sample_keeper_def sample_schedule_def current_time_def recurs_def)

text \<open>A zone that is five hours behind until a moment and four from then on, as in New York on
  9 March 2025: asked on Saturday, the next opening comes out an hour late on Monday's clock.\<close>

definition new_york :: pytz where
  "new_york = \<lparr>pz_known = (\<lambda>_. True), pz_offset = (\<lambda>_ t. if t < 1741503600000000 then - 18000000000 else - 14400000000),
     pz_localize = (\<lambda>_ w. w + 18000000000)\<rparr>"

lemma next_open_late_after_change:
  "\<exists>t. fst (get_next_market_open new_york sample_keeper ''US/Eastern'' (9, 30) 1741446000000000) =
       Inr (20157 * day_us + clock_us 9 30, t) \<and>
     t + pz_offset new_york ''US/Eastern'' t = 20157 * day_us + clock_us 10 30"
  by (simp add: get_next_market_open_def current_time_def sample_keeper_def timezone_def new_york_def Let_def at_clock_def
      first_weekday.simps [of "1741428000000000"] first_weekday.simps [of "1741514400000000"] first_weekday.simps [of "1741600800000000"]
      weekday_def day_us_def clock_us_def)

end
