(* ===== verification/Strategy.thy ===== *)
theory Strategy
  imports Portfolio Event_Bus
begin

section \<open>Strategies and their manager (\<open>src/algorithms/strategy.py\<close>, \<open>strategy_manager.py\<close>)\<close>

text \<open>
  The class of a strategy is code of its author: an argument that gives what the constructor
  and each hook do to the attributes of the strategy, and what they raise. A hook reads the
  portfolio; it does not change the portfolio, the bus or other strategies itself. Classes are
  numbers, and \<open>code\<close> says what they do.
\<close>

datatype strategy_state = INITIALIZED | RUNNING | PAUSED | STOPPED

datatype param = P_Int int | P_Float flt | P_Dec dec | P_Str string

record strategy_config =
  sg_name :: string
  sg_symbols :: "symbol list"
  sg_parameters :: "(string, param) dict"
  sg_enabled :: bool

definition config_get :: "strategy_config \<Rightarrow> string \<Rightarrow> param option \<Rightarrow> param option" where
  "config_get c k d = (case dget (sg_parameters c) k of None \<Rightarrow> d | Some v \<Rightarrow> Some v)"

record 'u strategy =
  st_id :: string
  st_class :: nat
  st_config :: strategy_config
  st_state :: strategy_state
  st_data :: "(skey, bar list) dict"
  st_ticks :: "(skey, tick) dict"
  st_order_handlers :: "nat list"
  st_fill_handlers :: "nat list"
  st_user :: 'u

type_synonym 'u hook = "portfolio \<Rightarrow> 'u strategy \<Rightarrow> 'u strategy \<times> exn option"

record 'u strategy_class =
  sc_init :: "strategy_config \<Rightarrow> exn + 'u"
  sc_on_start :: "'u hook"
  sc_on_pause :: "'u hook"
  sc_on_resume :: "'u hook"
  sc_on_stop :: "'u hook"
  sc_on_bar :: "bar \<Rightarrow> 'u hook"
  sc_on_tick :: "tick \<Rightarrow> 'u hook"
  sc_on_fill :: "fill \<Rightarrow> 'u hook"

text \<open>The hooks that a class inherits do nothing.\<close>

definition no_hook :: "'u hook" where
  "no_hook pf s = (s, None)"

definition new_strategy :: "nat \<Rightarrow> nat \<Rightarrow> strategy_config \<Rightarrow> 'u \<Rightarrow> 'u strategy" where
  "new_strategy n cls cfg u =
     \<lparr>st_id = ''STRAT_'' @ nat_str n, st_class = cls, st_config = cfg, st_state = INITIALIZED,
      st_data = dict_of (map (\<lambda>s. (symbol_key s, [])) (sg_symbols cfg)), st_ticks = [], st_order_handlers = [],
      st_fill_handlers = [], st_user = u\<rparr>"

definition is_running :: "'u strategy \<Rightarrow> bool" where
  "is_running s \<longleftrightarrow> st_state s = RUNNING"

subsection \<open>Handling of market data\<close>

definition keep_last :: "nat \<Rightarrow> 'a list \<Rightarrow> 'a list" where
  "keep_last n xs = (if n < length xs then tl xs else xs)"

definition store_bar :: "'u strategy \<Rightarrow> bar \<Rightarrow> 'u strategy" where
  "store_bar s b =
     (case dget (st_data s) (symbol_key (b_symbol b)) of
        None \<Rightarrow> s
      | Some bs \<Rightarrow> s\<lparr>st_data := dset (st_data s) (symbol_key (b_symbol b)) (keep_last 1000 (bs @ [b]))\<rparr>)"

definition strat_on_bar :: "'u strategy_class \<Rightarrow> portfolio \<Rightarrow> 'u strategy \<Rightarrow> bar \<Rightarrow> 'u strategy \<times> exn option" where
  "strat_on_bar c pf s b = (if \<not> is_running s then (s, None) else sc_on_bar c b pf (store_bar s b))"

definition strat_on_tick :: "'u strategy_class \<Rightarrow> portfolio \<Rightarrow> 'u strategy \<Rightarrow> tick \<Rightarrow> 'u strategy \<times> exn option" where
  "strat_on_tick c pf s t =
     (if \<not> is_running s then (s, None)
      else sc_on_tick c t pf (s\<lparr>st_ticks := dset (st_ticks s) (symbol_key (t_symbol t)) t\<rparr>))"

text \<open>The fill handlers are not guarded: the first exception stops them. The list of those called is returned.\<close>

fun call_fill_handlers :: "(nat \<Rightarrow> fill \<Rightarrow> exn option) \<Rightarrow> nat list \<Rightarrow> fill \<Rightarrow> nat list \<times> exn option" where
  "call_fill_handlers call [] f = ([], None)"
| "call_fill_handlers call (h # hs) f =
     (case call h f of
        Some x \<Rightarrow> ([h], Some x)
      | None \<Rightarrow> (case call_fill_handlers call hs f of (called, res) \<Rightarrow> (h # called, res)))"

definition strat_on_fill ::
  "'u strategy_class \<Rightarrow> (nat \<Rightarrow> fill \<Rightarrow> exn option) \<Rightarrow> portfolio \<Rightarrow> 'u strategy \<Rightarrow> fill \<Rightarrow>
   'u strategy \<times> nat list \<times> exn option" where
  "strat_on_fill c call pf s f =
     (case sc_on_fill c f pf s of
        (s1, Some x) \<Rightarrow> (s1, [], Some x)
      | (s1, None) \<Rightarrow> (s1, call_fill_handlers call (st_fill_handlers s1) f))"

subsection \<open>Trading methods\<close>

text \<open>
  \<open>submit_order\<close> of a running strategy builds the order and then names \<open>EventType.ORDER\<close>. The
  result is the order; publishing it is the step of the bus that \<open>event_type_attr\<close> decides.
\<close>

definition strat_order ::
  "'u strategy \<Rightarrow> symbol \<Rightarrow> order_side \<Rightarrow> dec \<Rightarrow> order_type \<Rightarrow> dec option \<Rightarrow> dec option \<Rightarrow> string \<Rightarrow> time \<Rightarrow> order" where
  "strat_order s sy side q ty lp sp oid now = new_order sy side q ty lp sp DAY oid None (Some (st_id s)) now"

definition strat_submit ::
  "'u strategy \<Rightarrow> symbol \<Rightarrow> order_side \<Rightarrow> dec \<Rightarrow> order_type \<Rightarrow> dec option \<Rightarrow> dec option \<Rightarrow> string \<Rightarrow> time \<Rightarrow>
   exn + (event_type \<times> order) option" where
  "strat_submit s sy side q ty lp sp oid now =
     (if \<not> is_running s then Inr None
      else
        let x = strat_order s sy side q ty lp sp oid now in
        and_then (event_type_attr ''ORDER'') (\<lambda>t. Inr (Some (t, x))))"

definition buy_market :: "'u strategy \<Rightarrow> symbol \<Rightarrow> dec \<Rightarrow> string \<Rightarrow> time \<Rightarrow> exn + (event_type \<times> order) option" where
  "buy_market s sy q oid now = strat_submit s sy BUY q MARKET None None oid now"

definition sell_market :: "'u strategy \<Rightarrow> symbol \<Rightarrow> dec \<Rightarrow> string \<Rightarrow> time \<Rightarrow> exn + (event_type \<times> order) option" where
  "sell_market s sy q oid now = strat_submit s sy SELL q MARKET None None oid now"

definition buy_limit :: "'u strategy \<Rightarrow> symbol \<Rightarrow> dec \<Rightarrow> dec \<Rightarrow> string \<Rightarrow> time \<Rightarrow> exn + (event_type \<times> order) option" where
  "buy_limit s sy q p oid now = strat_submit s sy BUY q LIMIT (Some p) None oid now"

definition sell_limit :: "'u strategy \<Rightarrow> symbol \<Rightarrow> dec \<Rightarrow> dec \<Rightarrow> string \<Rightarrow> time \<Rightarrow> exn + (event_type \<times> order) option" where
  "sell_limit s sy q p oid now = strat_submit s sy SELL q LIMIT (Some p) None oid now"

subsection \<open>Data access\<close>

definition get_bars :: "'u strategy \<Rightarrow> symbol \<Rightarrow> int \<Rightarrow> bar list" where
  "get_bars s sy n =
     (case dget (st_data s) (symbol_key sy) of None \<Rightarrow> [] | Some bs \<Rightarrow> if bs = [] then [] else slice_last n bs)"

text \<open>\<open>Tick\<close> has no attribute \<open>price\<close>.\<close>

definition get_latest_price :: "'u strategy \<Rightarrow> symbol \<Rightarrow> exn + dec option" where
  "get_latest_price s sy =
     (case dget (st_ticks s) (symbol_key sy) of
        Some t \<Rightarrow> Inl AttributeError
      | None \<Rightarrow>
          (case dget (st_data s) (symbol_key sy) of
             None \<Rightarrow> Inr None
           | Some bs \<Rightarrow> if bs = [] then Inr None else Inr (Some (b_close (last bs)))))"

definition strat_get_position :: "portfolio \<Rightarrow> symbol \<Rightarrow> dec" where
  "strat_get_position pf sy = (case pf_get_position pf sy of None \<Rightarrow> 0 | Some p \<Rightarrow> p_quantity p)"

definition strat_on_order :: "'u strategy \<Rightarrow> nat \<Rightarrow> 'u strategy" where
  "strat_on_order s h = s\<lparr>st_order_handlers := st_order_handlers s @ [h]\<rparr>"

definition on_fill_event :: "'u strategy \<Rightarrow> nat \<Rightarrow> 'u strategy" where
  "on_fill_event s h = s\<lparr>st_fill_handlers := st_fill_handlers s @ [h]\<rparr>"

definition strat_param :: "'u strategy \<Rightarrow> string \<Rightarrow> param option \<Rightarrow> param option" where
  "strat_param s k d = config_get (st_config s) k d"

definition set_param :: "'u strategy \<Rightarrow> string \<Rightarrow> param \<Rightarrow> 'u strategy" where
  "set_param s k v = s\<lparr>st_config := (st_config s)\<lparr>sg_parameters := dset (sg_parameters (st_config s)) k v\<rparr>\<rparr>"

record strategy_summary =
  ss_id :: string
  ss_name :: string
  ss_state :: strategy_state
  ss_symbols :: "string list"
  ss_parameters :: "(string, param) dict"

definition strat_get_summary :: "'u strategy \<Rightarrow> strategy_summary" where
  "strat_get_summary s =
     \<lparr>ss_id = st_id s, ss_name = sg_name (st_config s), ss_state = st_state s,
      ss_symbols = map ticker (sg_symbols (st_config s)), ss_parameters = sg_parameters (st_config s)\<rparr>"

subsection \<open>The manager, the bus and the strategy objects\<close>

datatype market_payload = Bar_Payload bar | Tick_Payload tick | No_Payload

text \<open>
  \<open>sw_objects\<close> holds the strategy objects by their identifiers, also those the manager no longer
  knows; \<open>sw_registry\<close> says which strategy, symbol and kind of data a handler of the bus, its
  index, belongs to.
\<close>

record 'u strategy_world =
  sw_objects :: "(string, 'u strategy) dict"
  sw_counter :: nat
  sw_bus :: "market_payload event_bus"
  sw_registry :: "(string \<times> symbol \<times> event_type) list"
  sw_portfolio :: portfolio
  sm_strategies :: "string list"
  sm_configs :: "string list"
  sm_classes :: "(string, nat) dict"

type_synonym 'u strategy_code = "nat \<Rightarrow> 'u strategy_class"

definition new_strategy_manager :: "portfolio \<Rightarrow> market_payload event_bus \<Rightarrow> nat \<Rightarrow> 'u strategy_world" where
  "new_strategy_manager pf b n =
     \<lparr>sw_objects = [], sw_counter = n, sw_bus = b, sw_registry = [], sw_portfolio = pf, sm_strategies = [],
      sm_configs = [], sm_classes = []\<rparr>"

definition put_strategy :: "'u strategy_world \<Rightarrow> string \<Rightarrow> 'u strategy \<Rightarrow> 'u strategy_world" where
  "put_strategy w sid s = w\<lparr>sw_objects := dset (sw_objects w) sid s\<rparr>"

text \<open>One handler for bars and one for ticks for each symbol of the configuration.\<close>

definition add_handler :: "'u strategy_world \<Rightarrow> string \<Rightarrow> symbol \<Rightarrow> event_type \<Rightarrow> 'u strategy_world" where
  "add_handler w sid sy t =
     w\<lparr>sw_bus := subscribe (sw_bus w) t (length (sw_registry w)) False, sw_registry := sw_registry w @ [(sid, sy, t)]\<rparr>"

definition subscribe_to_events :: "'u strategy_world \<Rightarrow> string \<Rightarrow> 'u strategy \<Rightarrow> 'u strategy_world" where
  "subscribe_to_events w sid s =
     foldl (\<lambda>w sy. add_handler (add_handler w sid sy BAR) sid sy TICK) w (sg_symbols (st_config s))"

text \<open>\<open>start\<close> of the strategy: what the hook raises comes before the subscription.\<close>

definition strat_start ::
  "'u strategy_code \<Rightarrow> 'u strategy_world \<Rightarrow> string \<Rightarrow> 'u strategy \<Rightarrow> 'u strategy_world \<times> exn option" where
  "strat_start code w sid s =
     (if st_state s = STOPPED then (w, None)
      else
        (case sc_on_start (code (st_class s)) (sw_portfolio w) (s\<lparr>st_state := RUNNING\<rparr>) of
           (s1, Some x) \<Rightarrow> (put_strategy w sid s1, Some x)
         | (s1, None) \<Rightarrow> (subscribe_to_events (put_strategy w sid s1) sid s1, None)))"

definition strat_pause ::
  "'u strategy_code \<Rightarrow> 'u strategy_world \<Rightarrow> string \<Rightarrow> 'u strategy \<Rightarrow> 'u strategy_world \<times> exn option" where
  "strat_pause code w sid s =
     (if is_running s
      then (case sc_on_pause (code (st_class s)) (sw_portfolio w) (s\<lparr>st_state := PAUSED\<rparr>) of
              (s1, r) \<Rightarrow> (put_strategy w sid s1, r))
      else (w, None))"

definition strat_resume ::
  "'u strategy_code \<Rightarrow> 'u strategy_world \<Rightarrow> string \<Rightarrow> 'u strategy \<Rightarrow> 'u strategy_world \<times> exn option" where
  "strat_resume code w sid s =
     (if st_state s = PAUSED
      then (case sc_on_resume (code (st_class s)) (sw_portfolio w) (s\<lparr>st_state := RUNNING\<rparr>) of
              (s1, r) \<Rightarrow> (put_strategy w sid s1, r))
      else (w, None))"

definition strat_stop ::
  "'u strategy_code \<Rightarrow> 'u strategy_world \<Rightarrow> string \<Rightarrow> 'u strategy \<Rightarrow> 'u strategy_world \<times> exn option" where
  "strat_stop code w sid s =
     (case sc_on_stop (code (st_class s)) (sw_portfolio w) (s\<lparr>st_state := STOPPED\<rparr>) of
        (s1, r) \<Rightarrow> (put_strategy w sid s1, r))"

subsection \<open>Operations of the manager\<close>

definition register_strategy_class :: "'u strategy_world \<Rightarrow> string \<Rightarrow> nat \<Rightarrow> 'u strategy_world" where
  "register_strategy_class w name cls = w\<lparr>sm_classes := dset (sm_classes w) name cls\<rparr>"

text \<open>The base constructor takes the next number of the counter before the class does its own part.\<close>

definition construct ::
  "'u strategy_code \<Rightarrow> 'u strategy_world \<Rightarrow> nat \<Rightarrow> strategy_config \<Rightarrow> (exn + string) \<times> 'u strategy_world" where
  "construct code w cls cfg =
     (let n = sw_counter w; w1 = w\<lparr>sw_counter := n + 1\<rparr> in
      case sc_init (code cls) cfg of
        Inl x \<Rightarrow> (Inl x, w1)
      | Inr u \<Rightarrow> (let s = new_strategy n cls cfg u in (Inr (st_id s), put_strategy w1 (st_id s) s)))"

definition create_strategy ::
  "'u strategy_code \<Rightarrow> 'u strategy_world \<Rightarrow> string \<Rightarrow> strategy_config \<Rightarrow> (exn + string option) \<times> 'u strategy_world" where
  "create_strategy code w name cfg =
     (case dget (sm_classes w) name of
        None \<Rightarrow> (Inr None, w)
      | Some cls \<Rightarrow>
          (case construct code w cls cfg of
             (Inl x, w1) \<Rightarrow> (Inl x, w1)
           | (Inr sid, w1) \<Rightarrow>
               (Inr (Some sid),
                w1\<lparr>sm_strategies := set_add sid (sm_strategies w1), sm_configs := set_add sid (sm_configs w1)\<rparr>)))"

definition sm_add_strategy :: "'u strategy_world \<Rightarrow> string \<Rightarrow> 'u strategy_world" where
  "sm_add_strategy w sid = w\<lparr>sm_strategies := set_add sid (sm_strategies w)\<rparr>"

text \<open>The strategy objects that the manager knows, in the order of its dictionary.\<close>

definition managed :: "'u strategy_world \<Rightarrow> (string \<times> 'u strategy) list" where
  "managed w = List.map_filter (\<lambda>sid. map_option (Pair sid) (dget (sw_objects w) sid)) (sm_strategies w)"

definition sm_get_strategy :: "'u strategy_world \<Rightarrow> string \<Rightarrow> 'u strategy option" where
  "sm_get_strategy w sid = (if List.member (sm_strategies w) sid then dget (sw_objects w) sid else None)"

definition get_all_strategies :: "'u strategy_world \<Rightarrow> 'u strategy list" where
  "get_all_strategies w = dvals (managed w)"

definition get_running_strategies :: "'u strategy_world \<Rightarrow> 'u strategy list" where
  "get_running_strategies w = filter is_running (dvals (managed w))"

definition remove_strategy :: "'u strategy_code \<Rightarrow> 'u strategy_world \<Rightarrow> string \<Rightarrow> (exn + bool) \<times> 'u strategy_world" where
  "remove_strategy code w sid =
     (case sm_get_strategy w sid of
        None \<Rightarrow> (Inr False, w)
      | Some s \<Rightarrow>
          (case strat_stop code w sid s of
             (w1, Some x) \<Rightarrow> (Inl x, w1)
           | (w1, None) \<Rightarrow>
               (let w2 = w1\<lparr>sm_strategies := removeAll sid (sm_strategies w1)\<rparr> in
                if List.member (sm_configs w2) sid
                then (Inr True, w2\<lparr>sm_configs := removeAll sid (sm_configs w2)\<rparr>)
                else (Inl KeyError, w2))))"

definition on_strategy ::
  "('u strategy_world \<Rightarrow> string \<Rightarrow> 'u strategy \<Rightarrow> 'u strategy_world \<times> exn option) \<Rightarrow> 'u strategy_world \<Rightarrow> string \<Rightarrow>
   (exn + bool) \<times> 'u strategy_world" where
  "on_strategy act w sid =
     (case sm_get_strategy w sid of
        None \<Rightarrow> (Inr False, w)
      | Some s \<Rightarrow> (case act w sid s of (w1, None) \<Rightarrow> (Inr True, w1) | (w1, Some x) \<Rightarrow> (Inl x, w1)))"

definition start_strategy :: "'u strategy_code \<Rightarrow> 'u strategy_world \<Rightarrow> string \<Rightarrow> (exn + bool) \<times> 'u strategy_world" where
  "start_strategy code w sid = on_strategy (strat_start code) w sid"

definition stop_strategy :: "'u strategy_code \<Rightarrow> 'u strategy_world \<Rightarrow> string \<Rightarrow> (exn + bool) \<times> 'u strategy_world" where
  "stop_strategy code w sid = on_strategy (strat_stop code) w sid"

definition pause_strategy :: "'u strategy_code \<Rightarrow> 'u strategy_world \<Rightarrow> string \<Rightarrow> (exn + bool) \<times> 'u strategy_world" where
  "pause_strategy code w sid = on_strategy (strat_pause code) w sid"

definition resume_strategy :: "'u strategy_code \<Rightarrow> 'u strategy_world \<Rightarrow> string \<Rightarrow> (exn + bool) \<times> 'u strategy_world" where
  "resume_strategy code w sid = on_strategy (strat_resume code) w sid"

text \<open>The loops of \<open>start_all\<close>, \<open>stop_all\<close> and \<open>pause_all\<close>: an exception ends them.\<close>

fun each_strategy ::
  "('u strategy \<Rightarrow> bool) \<Rightarrow> ('u strategy_world \<Rightarrow> string \<Rightarrow> 'u strategy \<Rightarrow> 'u strategy_world \<times> exn option) \<Rightarrow> string list \<Rightarrow>
   nat \<Rightarrow> 'u strategy_world \<Rightarrow> (exn + nat) \<times> 'u strategy_world" where
  "each_strategy P act [] n w = (Inr n, w)"
| "each_strategy P act (sid # sids) n w =
     (case dget (sw_objects w) sid of
        None \<Rightarrow> each_strategy P act sids n w
      | Some s \<Rightarrow>
          if P s
          then (case act w sid s of
                  (w1, Some x) \<Rightarrow> (Inl x, w1)
                | (w1, None) \<Rightarrow> each_strategy P act sids (n + 1) w1)
          else each_strategy P act sids n w)"

definition start_all :: "'u strategy_code \<Rightarrow> 'u strategy_world \<Rightarrow> (exn + nat) \<times> 'u strategy_world" where
  "start_all code w = each_strategy (\<lambda>s. \<not> is_running s) (strat_start code) (sm_strategies w) 0 w"

definition stop_all :: "'u strategy_code \<Rightarrow> 'u strategy_world \<Rightarrow> (exn + nat) \<times> 'u strategy_world" where
  "stop_all code w = each_strategy (\<lambda>_. True) (strat_stop code) (sm_strategies w) 0 w"

definition pause_all :: "'u strategy_code \<Rightarrow> 'u strategy_world \<Rightarrow> (exn + nat) \<times> 'u strategy_world" where
  "pause_all code w = each_strategy is_running (strat_pause code) (sm_strategies w) 0 w"

record manager_summary =
  ms_total :: nat
  ms_running :: nat
  ms_classes :: "string list"
  ms_strategies :: "(string \<times> strategy_summary) list"

definition sm_get_summary :: "'u strategy_world \<Rightarrow> manager_summary" where
  "sm_get_summary w =
     \<lparr>ms_total = length (sm_strategies w), ms_running = length (get_running_strategies w),
      ms_classes = dkeys (sm_classes w), ms_strategies = map (\<lambda>(sid, s). (sid, strat_get_summary s)) (managed w)\<rparr>"

subsection \<open>Events\<close>

text \<open>
  What a handler of the bus does with an event: bars travel in events of type \<open>BAR\<close> and ticks
  in events of type \<open>TICK\<close>.
\<close>

definition run_handler ::
  "'u strategy_code \<Rightarrow> portfolio \<Rightarrow> (string \<times> symbol \<times> event_type) list \<Rightarrow> hid \<Rightarrow> market_payload event \<Rightarrow>
   (string, 'u strategy) dict \<Rightarrow> (string, 'u strategy) dict \<times> exn option" where
  "run_handler code pf reg h e objs =
     (if h < length reg
      then
        (case reg ! h of (sid, sy, t) \<Rightarrow>
         case dget objs sid of
           None \<Rightarrow> (objs, None)
         | Some s \<Rightarrow>
             (case e_data e of
                Bar_Payload b \<Rightarrow>
                  if t = BAR \<and> symbol_eq (b_symbol b) sy
                  then (case strat_on_bar (code (st_class s)) pf s b of (s1, r) \<Rightarrow> (dset objs sid s1, r))
                  else (objs, None)
              | Tick_Payload k \<Rightarrow>
                  if t = TICK \<and> symbol_eq (t_symbol k) sy
                  then (case strat_on_tick (code (st_class s)) pf s k of (s1, r) \<Rightarrow> (dset objs sid s1, r))
                  else (objs, None)
              | No_Payload \<Rightarrow> (objs, None)))
      else (objs, None))"

definition strategy_emit :: "'u strategy_code \<Rightarrow> 'u strategy_world \<Rightarrow> market_payload event \<Rightarrow> 'u strategy_world" where
  "strategy_emit code w e =
     w\<lparr>sw_objects := fst (emit (run_handler code (sw_portfolio w) (sw_registry w)) (sw_bus w) e (sw_objects w))\<rparr>"

section \<open>Lemmas\<close>

subsection \<open>What an event does to one strategy\<close>

definition deliver_bar :: "'u strategy_code \<Rightarrow> portfolio \<Rightarrow> bar \<Rightarrow> 'u strategy \<Rightarrow> 'u strategy" where
  "deliver_bar code pf b s = fst (strat_on_bar (code (st_class s)) pf s b)"

definition bar_match :: "string \<Rightarrow> symbol \<Rightarrow> string \<times> symbol \<times> event_type \<Rightarrow> bool" where
  "bar_match sid sy entry \<longleftrightarrow> (case entry of (sid', sy', t) \<Rightarrow> sid' = sid \<and> t = BAR \<and> symbol_eq sy sy')"

text \<open>How many handlers for bars of the symbol \<open>sy\<close> the strategy \<open>sid\<close> has subscribed.\<close>

definition bar_handlers :: "'u strategy_world \<Rightarrow> string \<Rightarrow> symbol \<Rightarrow> nat" where
  "bar_handlers w sid sy = length (filter (bar_match sid sy) (sw_registry w))"

text \<open>The handlers on the bus are those of the registry, in order, and there are no global ones.\<close>

definition wired :: "'u strategy_world \<Rightarrow> bool" where
  "wired w \<longleftrightarrow> eb_global (sw_bus w) = [] \<and>
     (\<forall>t \<in> {BAR, TICK}. handlers_of (eb_handlers (sw_bus w)) t =
        filter (\<lambda>i. snd (snd (sw_registry w ! i)) = t) [0..<length (sw_registry w)])"

lemma run_handler_bar:
  assumes "h < length reg" "e_data e = Bar_Payload b"
  shows "dget (fst (run_handler code pf reg h e objs)) sid =
    (if bar_match sid (b_symbol b) (reg ! h) then map_option (deliver_bar code pf b) (dget objs sid) else dget objs sid)"
  using assms by (auto simp: run_handler_def bar_match_def deliver_bar_def split: prod.splits option.splits)

lemma foldl_handlers_bar:
  assumes "\<forall>h \<in> set hs. h < length reg" "e_data e = Bar_Payload b"
  shows "dget (foldl (\<lambda>objs h. fst (run_handler code pf reg h e objs)) objs hs) sid =
    map_option (deliver_bar code pf b ^^ length (filter (\<lambda>h. bar_match sid (b_symbol b) (reg ! h)) hs)) (dget objs sid)"
  using assms
proof (induction hs arbitrary: objs)
  case Nil
  then show ?case by (cases "dget objs sid") simp_all
next
  case (Cons h hs)
  then show ?case
    by (auto simp: run_handler_bar option.map_comp comp_def funpow_swap1 simp del: funpow.simps(2) simp: funpow_Suc_right)
qed

lemma filter_nth_length: "length (filter (\<lambda>i. P (xs ! i)) [0..<length xs]) = length (filter P xs)"
proof -
  have "filter P xs = filter P (map ((!) xs) [0..<length xs])" by (simp add: map_nth)
  then show ?thesis by (simp add: filter_map comp_def)
qed

lemma emit_bar:
  assumes "wired w" "e_type e = BAR" "e_data e = Bar_Payload b"
  shows "dget (sw_objects (strategy_emit code w e)) sid =
    map_option (deliver_bar code (sw_portfolio w) b ^^ bar_handlers w sid (b_symbol b)) (dget (sw_objects w) sid)"
proof -
  let ?hs = "filter (\<lambda>i. snd (snd (sw_registry w ! i)) = BAR) [0..<length (sw_registry w)]"
  have hs: "handlers_of (eb_handlers (sw_bus w)) (e_type e) @ eb_global (sw_bus w) = ?hs"
    using assms(1,2) by (simp add: wired_def)
  have "length (filter (\<lambda>h. bar_match sid (b_symbol b) (sw_registry w ! h)) ?hs) =
      length (filter (\<lambda>h. bar_match sid (b_symbol b) (sw_registry w ! h)) [0..<length (sw_registry w)])"
    by (simp add: filter_filter) (rule arg_cong [where f = length], rule filter_cong, auto simp: bar_match_def)
  also have "\<dots> = bar_handlers w sid (b_symbol b)" by (simp add: bar_handlers_def filter_nth_length)
  finally show ?thesis
    using foldl_handlers_bar [of ?hs "sw_registry w" e b code "sw_portfolio w" "sw_objects w" sid] assms(3)
    by (simp add: strategy_emit_def emit_spec hs)
qed

subsection \<open>Subscriptions\<close>

lemma strategy_emit_frame [simp]:
  "sw_registry (strategy_emit code w e) = sw_registry w" "sw_bus (strategy_emit code w e) = sw_bus w"
  "sw_portfolio (strategy_emit code w e) = sw_portfolio w" "sm_strategies (strategy_emit code w e) = sm_strategies w"
  by (simp_all add: strategy_emit_def)

lemma wired_add_handler: "wired w \<Longrightarrow> wired (add_handler w sid sy t)"
  by (auto simp: wired_def add_handler_def subscribe_def nth_append intro!: filter_cong)

lemma wired_subscribe: "wired w \<Longrightarrow> wired (subscribe_to_events w sid s)"
proof -
  have "wired w \<Longrightarrow> wired (foldl (\<lambda>w sy. add_handler (add_handler w sid sy BAR) sid sy TICK) w sys)" for sys
    by (induction sys arbitrary: w) (auto intro: wired_add_handler)
  then show "wired w \<Longrightarrow> wired (subscribe_to_events w sid s)" by (simp add: subscribe_to_events_def)
qed

lemma wired_cong: "sw_bus w' = sw_bus w \<Longrightarrow> sw_registry w' = sw_registry w \<Longrightarrow> wired w' = wired w"
  by (simp add: wired_def)

lemma put_strategy_frame [simp]:
  "sw_registry (put_strategy w sid s) = sw_registry w" "sw_bus (put_strategy w sid s) = sw_bus w"
  "sw_portfolio (put_strategy w sid s) = sw_portfolio w" "sm_strategies (put_strategy w sid s) = sm_strategies w"
  "sm_configs (put_strategy w sid s) = sm_configs w"
  "dget (sw_objects (put_strategy w sid s)) sid' = (if sid' = sid then Some s else dget (sw_objects w) sid')"
  by (simp_all add: put_strategy_def)

lemma subscribe_registry:
  "sw_registry (subscribe_to_events w sid s) =
     sw_registry w @ concat (map (\<lambda>sy. [(sid, sy, BAR), (sid, sy, TICK)]) (sg_symbols (st_config s)))"
proof -
  have "sw_registry (foldl (\<lambda>w sy. add_handler (add_handler w sid sy BAR) sid sy TICK) w sys) =
      sw_registry w @ concat (map (\<lambda>sy. [(sid, sy, BAR), (sid, sy, TICK)]) sys)" for sys
    by (induction sys arbitrary: w) (simp_all add: add_handler_def)
  then show ?thesis by (simp add: subscribe_to_events_def)
qed

lemma subscribe_frame [simp]:
  "sw_objects (subscribe_to_events w sid s) = sw_objects w" "sw_portfolio (subscribe_to_events w sid s) = sw_portfolio w"
  "sm_strategies (subscribe_to_events w sid s) = sm_strategies w" "sm_configs (subscribe_to_events w sid s) = sm_configs w"
proof -
  have "sw_objects (foldl (\<lambda>w sy. add_handler (add_handler w sid sy BAR) sid sy TICK) w sys) = sw_objects w \<and>
      sw_portfolio (foldl (\<lambda>w sy. add_handler (add_handler w sid sy BAR) sid sy TICK) w sys) = sw_portfolio w \<and>
      sm_strategies (foldl (\<lambda>w sy. add_handler (add_handler w sid sy BAR) sid sy TICK) w sys) = sm_strategies w \<and>
      sm_configs (foldl (\<lambda>w sy. add_handler (add_handler w sid sy BAR) sid sy TICK) w sys) = sm_configs w" for sys
    by (induction sys arbitrary: w) (simp_all add: add_handler_def)
  then show "sw_objects (subscribe_to_events w sid s) = sw_objects w" "sw_portfolio (subscribe_to_events w sid s) = sw_portfolio w"
    "sm_strategies (subscribe_to_events w sid s) = sm_strategies w" "sm_configs (subscribe_to_events w sid s) = sm_configs w"
    by (simp_all add: subscribe_to_events_def)
qed

lemma bar_handlers_subscribe:
  "bar_handlers (subscribe_to_events w sid s) sid' sy =
     bar_handlers w sid' sy + (if sid' = sid then length (filter (symbol_eq sy) (sg_symbols (st_config s))) else 0)"
proof -
  have "length (filter (bar_match sid' sy) (concat (map (\<lambda>sy. [(sid, sy, BAR), (sid, sy, TICK)]) sys))) =
      (if sid' = sid then length (filter (symbol_eq sy) sys) else 0)" for sys
    by (induction sys) (auto simp: bar_match_def)
  then show ?thesis by (simp add: bar_handlers_def subscribe_registry)
qed

subsection \<open>Runs of the manager\<close>

datatype manager_op =
    SM_Register string nat
  | SM_Create string strategy_config
  | SM_Construct nat strategy_config
  | SM_Add string
  | SM_Remove string
  | SM_Start string
  | SM_Stop string
  | SM_Pause string
  | SM_Resume string
  | SM_Start_All
  | SM_Stop_All
  | SM_Pause_All
  | SM_Event "market_payload event"

fun manager_step :: "'u strategy_code \<Rightarrow> 'u strategy_world \<Rightarrow> manager_op \<Rightarrow> 'u strategy_world" where
  "manager_step code w (SM_Register name cls) = register_strategy_class w name cls"
| "manager_step code w (SM_Create name cfg) = snd (create_strategy code w name cfg)"
| "manager_step code w (SM_Construct cls cfg) = snd (construct code w cls cfg)"
| "manager_step code w (SM_Add sid) = sm_add_strategy w sid"
| "manager_step code w (SM_Remove sid) = snd (remove_strategy code w sid)"
| "manager_step code w (SM_Start sid) = snd (start_strategy code w sid)"
| "manager_step code w (SM_Stop sid) = snd (stop_strategy code w sid)"
| "manager_step code w (SM_Pause sid) = snd (pause_strategy code w sid)"
| "manager_step code w (SM_Resume sid) = snd (resume_strategy code w sid)"
| "manager_step code w SM_Start_All = snd (start_all code w)"
| "manager_step code w SM_Stop_All = snd (stop_all code w)"
| "manager_step code w SM_Pause_All = snd (pause_all code w)"
| "manager_step code w (SM_Event e) = strategy_emit code w e"

lemma wired_put [simp]: "wired (put_strategy w sid s) = wired w"
  by (rule wired_cong) simp_all

lemma wired_start: "wired w \<Longrightarrow> wired (fst (strat_start code w sid s))"
  by (auto simp: strat_start_def intro: wired_subscribe split: prod.splits option.splits)

lemma wired_pause: "wired w \<Longrightarrow> wired (fst (strat_pause code w sid s))"
  by (auto simp: strat_pause_def split: prod.splits)

lemma wired_resume: "wired w \<Longrightarrow> wired (fst (strat_resume code w sid s))"
  by (auto simp: strat_resume_def split: prod.splits)

lemma wired_stop: "wired w \<Longrightarrow> wired (fst (strat_stop code w sid s))"
  by (auto simp: strat_stop_def split: prod.splits)

lemma wired_each:
  assumes "\<And>w sid s. wired w \<Longrightarrow> wired (fst (act w sid s))"
  shows "wired w \<Longrightarrow> wired (snd (each_strategy P act sids n w))"
proof (induction sids arbitrary: n w)
  case (Cons sid sids)
  show ?case
  proof (cases "dget (sw_objects w) sid")
    case (Some s)
    with Cons assms [of w sid s] show ?thesis by (auto split: prod.splits option.splits)
  qed (use Cons in simp)
qed simp

lemma wired_on_strategy:
  assumes "\<And>w sid s. wired w \<Longrightarrow> wired (fst (act w sid s))"
  shows "wired w \<Longrightarrow> wired (snd (on_strategy act w sid))"
  using assms by (auto simp: on_strategy_def split: option.splits prod.splits) (metis fst_conv)+

lemma wired_construct: "wired w \<Longrightarrow> wired (snd (construct code w cls cfg))"
  by (auto simp: construct_def Let_def wired_def put_strategy_def split: sum.splits)

lemma wired_remove: "wired w \<Longrightarrow> wired (snd (remove_strategy code w sid))"
  using wired_stop [of w code sid]
  by (auto simp: remove_strategy_def Let_def wired_def split: option.splits prod.splits) (metis fst_conv)+

lemma wired_step: "wired w \<Longrightarrow> wired (manager_step code w x)"
proof (cases x)
  case (SM_Create name cfg)
  assume w: "wired w"
  then have "wired w1" if "construct code w cls cfg = (r, w1)" for cls r w1
    using wired_construct [OF w, of code cls cfg] that by simp
  then show ?thesis using w SM_Create
    by (auto simp: create_strategy_def wired_def split: option.splits sum.splits prod.splits)
qed (simp_all add: register_strategy_class_def sm_add_strategy_def start_strategy_def stop_strategy_def pause_strategy_def
    resume_strategy_def start_all_def stop_all_def pause_all_def wired_construct wired_remove wired_on_strategy wired_each wired_start
    wired_stop wired_pause wired_resume, simp_all add: wired_def)

interpretation manager: run_system "manager_step code" "\<lambda>_ _. True" wired for code
  by unfold_locales (rule wired_step)

lemma wired_new: "wired (new_strategy_manager pf empty_bus n)"
  by (simp add: wired_def new_strategy_manager_def empty_bus_def handlers_of_def)

lemma wired_run: "wired (run_ops (manager_step code) (new_strategy_manager pf empty_bus n) xs)"
  by (rule manager.run_inv) (simp_all add: wired_new)

subsection \<open>The history of bars\<close>

lemma slice_last_snoc: "slice_last 1000 (slice_last 1000 xs @ [b]) = slice_last 1000 (xs @ [b])"
proof -
  have "length xs - (length xs - 1000 + 999) + (length xs - 1000) = length xs - 999" by arith
  then show ?thesis by (simp add: slice_last_def)
qed

lemma keep_last_slice: "length xs \<le> 1000 \<Longrightarrow> keep_last 1000 (xs @ [b]) = slice_last 1000 (xs @ [b])"
  by (cases "length xs = 1000") (auto simp: keep_last_def slice_last_def drop_Suc Suc_diff_le tl_append split: list.split)

lemma slice_last_le: "length (slice_last 1000 xs) \<le> 1000"
  by (simp add: slice_last_length)

text \<open>Code whose \<open>on_bar\<close> leaves the history and the state of the strategy to the base class.\<close>

definition leaves_base :: "'u strategy_code \<Rightarrow> bool" where
  "leaves_base code \<longleftrightarrow> (\<forall>c b pf s. let s1 = fst (sc_on_bar (code c) b pf s) in
     st_data s1 = st_data s \<and> st_state s1 = st_state s)"

definition history :: "symbol \<Rightarrow> 'u strategy \<Rightarrow> bar list option" where
  "history sy s = dget (st_data s) (symbol_key sy)"

lemma deliver_history:
  assumes "leaves_base code" "is_running s" "history sy s = Some (slice_last 1000 xs)"
  shows "is_running (deliver_bar code pf b s)"
    and "history sy (deliver_bar code pf b s) = Some (slice_last 1000 (xs @ (if symbol_eq (b_symbol b) sy then [b] else [])))"
proof -
  have d: "st_data (deliver_bar code pf b s) = st_data (store_bar s b)" "st_state (deliver_bar code pf b s) = st_state (store_bar s b)"
    using assms(1,2) by (simp_all add: deliver_bar_def strat_on_bar_def leaves_base_def Let_def)
  show "is_running (deliver_bar code pf b s)"
    using assms(2) d(2) by (simp add: is_running_def store_bar_def split: option.splits)
  show "history sy (deliver_bar code pf b s) = Some (slice_last 1000 (xs @ (if symbol_eq (b_symbol b) sy then [b] else [])))"
    using assms(3) d(1) slice_last_le [of xs]
    by (auto simp: history_def store_bar_def symbol_eq_def keep_last_slice slice_last_snoc split: option.splits)
qed

lemma deliver_history_many:
  assumes "leaves_base code" "is_running s" "history sy s = Some (slice_last 1000 xs)"
  shows "is_running ((deliver_bar code pf b ^^ k) s) \<and>
    history sy ((deliver_bar code pf b ^^ k) s) =
      Some (slice_last 1000 (xs @ (if symbol_eq (b_symbol b) sy then replicate k b else [])))"
proof (induction k)
  case (Suc k)
  let ?ys = "xs @ (if symbol_eq (b_symbol b) sy then replicate k b else [])"
  from Suc deliver_history [OF assms(1), where s = "(deliver_bar code pf b ^^ k) s" and sy = sy and xs = ?ys and pf = pf and b = b] show ?case
    by (auto simp: replicate_append_same simp flip: replicate_Suc)
qed (use assms in simp)

lemma bar_handlers_key: "symbol_eq sy sy' \<Longrightarrow> bar_handlers w sid sy = bar_handlers w sid sy'"
  by (simp add: bar_handlers_def bar_match_def [abs_def] symbol_eq_def)

definition bar_event :: "bar \<Rightarrow> market_payload event" where
  "bar_event b = \<lparr>e_type = BAR, e_timestamp = b_timestamp b, e_data = Bar_Payload b, e_symbol = Some (symbol_str (b_symbol b))\<rparr>"

lemma bar_event_fields [simp]: "e_type (bar_event b) = BAR" "e_data (bar_event b) = Bar_Payload b"
  by (simp_all add: bar_event_def)

section \<open>Properties of strategies\<close>

text \<open>An event with a bar runs the bar handler of a strategy once for each handler the strategy has
  subscribed for the bar's symbol, and touches no other strategy, whatever the hooks do and
  raise, after any run of the manager.\<close>

theorem bars_reach_strategies:
  assumes "w = run_ops (manager_step code) (new_strategy_manager pf empty_bus n) xs"
    and "e_type e = BAR" "e_data e = Bar_Payload b"
  shows "dget (sw_objects (manager_step code w (SM_Event e))) sid =
    map_option ((\<lambda>s. fst (strat_on_bar (code (st_class s)) (sw_portfolio w) s b)) ^^ bar_handlers w sid (b_symbol b))
      (dget (sw_objects w) sid)"
  using emit_bar [OF wired_run assms(2,3), of code code pf n xs sid] unfolding assms(1) deliver_bar_def [abs_def] by simp

text \<open>C24. The history of a running strategy for a symbol is the last thousand bars of what its handlers
  were given: each bar of the symbol counts as many times as the strategy has handlers for the
  symbol, and bars of other symbols leave it alone.\<close>

theorem history_window:
  fixes w :: "'u strategy_world"
  assumes "w = run_ops (manager_step code) (new_strategy_manager pf empty_bus n) xs" "leaves_base code"
    and "dget (sw_objects w) sid = Some s" "is_running s" "dget (st_data s) (symbol_key sy) = Some old" "length old \<le> 1000"
    and "w' = run_ops (manager_step code) w (map (SM_Event \<circ> bar_event) bs)"
  shows "\<exists>s'. dget (sw_objects w') sid = Some s' \<and> dget (st_data s') (symbol_key sy) =
    Some (slice_last 1000 (old @ concat (map (replicate (bar_handlers w sid sy)) (filter (\<lambda>b. symbol_eq (b_symbol b) sy) bs))))"
proof -
  have "\<exists>s'. dget (sw_objects (run_ops (manager_step code) w (map (SM_Event \<circ> bar_event) bs))) sid = Some s' \<and>
      history sy s' = Some (slice_last 1000
        (old @ concat (map (replicate (bar_handlers w sid sy)) (filter (\<lambda>b. symbol_eq (b_symbol b) sy) bs))))"
    if "wired w" "dget (sw_objects w) sid = Some s" "is_running s" "history sy s = Some (slice_last 1000 old)" for w s old
    using that
  proof (induction bs arbitrary: w s old)
    case (Cons b bs)
    let ?w = "strategy_emit code w (bar_event b)" and ?k = "bar_handlers w sid (b_symbol b)"
    let ?old = "old @ (if symbol_eq (b_symbol b) sy then replicate ?k b else [])"
    have "wired ?w" using Cons.prems(1) by (simp add: wired_def)
    moreover have "dget (sw_objects ?w) sid = Some ((deliver_bar code (sw_portfolio w) b ^^ ?k) s)"
      using emit_bar [OF Cons.prems(1), of "bar_event b" b code sid] Cons.prems(2) by simp
    moreover note deliver_history_many [OF assms(2) Cons.prems(3,4), where pf = "sw_portfolio w" and b = b and k = ?k]
    ultimately obtain s' where "dget (sw_objects (run_ops (manager_step code) ?w (map (SM_Event \<circ> bar_event) bs))) sid = Some s'"
      "history sy s' = Some (slice_last 1000
        (?old @ concat (map (replicate (bar_handlers ?w sid sy)) (filter (\<lambda>b. symbol_eq (b_symbol b) sy) bs))))"
      using Cons.IH [of ?w "(deliver_bar code (sw_portfolio w) b ^^ ?k) s" ?old] by blast
    moreover have "bar_handlers ?w sid sy = bar_handlers w sid sy" by (simp add: bar_handlers_def)
    moreover have "symbol_eq (b_symbol b) sy \<Longrightarrow> ?k = bar_handlers w sid sy" by (rule bar_handlers_key)
    ultimately show ?case by (cases "symbol_eq (b_symbol b) sy") (simp_all add: comp_def)
  qed simp
  moreover have "wired w" unfolding assms(1) by (rule wired_run)
  moreover have "history sy s = Some (slice_last 1000 old)" using assms(5,6) by (simp add: history_def slice_last_def)
  ultimately show ?thesis using assms(3,4) unfolding assms(7) history_def by blast
qed

text \<open>Each call of start that gets through subscribes again, also for a strategy that is paused or
  already running; pausing, resuming and stopping leave the subscriptions alone. A strategy
  that was paused and then started, as start_all does, therefore sees every bar twice.\<close>

theorem start_subscribes_again:
  assumes "sm_get_strategy w sid = Some s" "st_state s \<noteq> STOPPED"
    and "sc_on_start (code (st_class s)) (sw_portfolio w) (s\<lparr>st_state := RUNNING\<rparr>) = (s1, None)"
  shows "bar_handlers (snd (start_strategy code w sid)) sid sy =
      bar_handlers w sid sy + length (filter (symbol_eq sy) (sg_symbols (st_config s1))) \<and>
    bar_handlers (snd (pause_strategy code w sid)) sid sy = bar_handlers w sid sy \<and>
    bar_handlers (snd (resume_strategy code w sid)) sid sy = bar_handlers w sid sy \<and>
    bar_handlers (snd (stop_strategy code w sid)) sid sy = bar_handlers w sid sy"
proof -
  have start: "start_strategy code w sid = (Inr True, subscribe_to_events (put_strategy w sid s1) sid s1)"
    using assms by (simp add: start_strategy_def on_strategy_def strat_start_def)
  have "bar_handlers (put_strategy w sid s2) sid sy = bar_handlers w sid sy" for s2 by (simp add: bar_handlers_def)
  then show ?thesis using assms(1)
    by (simp add: start bar_handlers_subscribe pause_strategy_def resume_strategy_def stop_strategy_def on_strategy_def
        strat_pause_def strat_resume_def strat_stop_def split: prod.split option.split)
qed


text \<open>Removing a strategy that was added with add_strategy stops it and takes it out of the manager,
  and then raises KeyError, since only create_strategy stores a configuration.\<close>

theorem removing_added_strategy_raises:
  assumes "sm_get_strategy w sid = Some s" "sid \<notin> set (sm_configs w)"
    and "sc_on_stop (code (st_class s)) (sw_portfolio w) (s\<lparr>st_state := STOPPED\<rparr>) = (s1, None)"
  shows "\<exists>w'. remove_strategy code w sid = (Inl KeyError, w') \<and> sid \<notin> set (sm_strategies w') \<and>
    dget (sw_objects w') sid = Some s1"
  using assms by (simp add: remove_strategy_def strat_stop_def Let_def List.member_iff)

section \<open>A concrete manager\<close>

definition logging_class :: "bar list strategy_class" where
  "logging_class = \<lparr>sc_init = (\<lambda>_. Inr []), sc_on_start = no_hook, sc_on_pause = no_hook, sc_on_resume = no_hook,
     sc_on_stop = no_hook, sc_on_bar = (\<lambda>b pf s. (s\<lparr>st_user := st_user s @ [b]\<rparr>, None)), sc_on_tick = (\<lambda>_. no_hook),
     sc_on_fill = (\<lambda>_. no_hook)\<rparr>"

definition logging_code :: "bar list strategy_code" where
  "logging_code = (\<lambda>_. logging_class)"

definition sample_config :: strategy_config where
  "sample_config = \<lparr>sg_name = ''log'', sg_symbols = [sample_symbol], sg_parameters = [], sg_enabled = True\<rparr>"

definition sample_sid :: string where
  "sample_sid = ''STRAT_'' @ nat_str 7"

definition sample_bar :: "time \<Rightarrow> bar" where
  "sample_bar t = \<lparr>b_symbol = sample_symbol, b_timestamp = t, b_open = 1, b_high = 1, b_low = 1, b_close = 1, b_volume = 1,
     b_resolution = RMinute\<rparr>"

definition sample_start :: "manager_op list" where
  "sample_start = [SM_Register ''log'' 0, SM_Create ''log'' sample_config, SM_Start sample_sid]"

definition sample_manager :: "bar list strategy_world" where
  "sample_manager = run_ops (manager_step logging_code) (new_strategy_manager (new_portfolio (dec_int 100) 0) empty_bus 7) sample_start"

lemma sample_manager_facts:
  "dget (sw_objects sample_manager) sample_sid = Some ((new_strategy 7 0 sample_config [])\<lparr>st_state := RUNNING\<rparr>)"
  "sm_strategies sample_manager = [sample_sid]" "sm_configs sample_manager = [sample_sid]"
  "bar_handlers sample_manager sample_sid sample_symbol = 1"
  by (simp_all add: sample_manager_def sample_start_def register_strategy_class_def create_strategy_def construct_def Let_def
      new_strategy_manager_def logging_code_def logging_class_def start_strategy_def on_strategy_def sm_get_strategy_def
      put_strategy_def set_add_def strat_start_def no_hook_def subscribe_to_events_def add_handler_def sample_config_def
      new_strategy_def bar_handlers_def bar_match_def sample_sid_def)

lemma sample_get: "sm_get_strategy sample_manager sample_sid = Some ((new_strategy 7 0 sample_config [])\<lparr>st_state := RUNNING\<rparr>)"
  by (simp add: sm_get_strategy_def sample_manager_facts)

lemma sample_leaves: "leaves_base logging_code"
  by (simp add: leaves_base_def logging_code_def logging_class_def Let_def)

theorem bars_reach_strategies_witness:
  "map_option st_user (dget (sw_objects (manager_step logging_code sample_manager (SM_Event (bar_event (sample_bar 5))))) sample_sid) =
     Some [sample_bar 5]"
  using bars_reach_strategies [OF sample_manager_def bar_event_fields, of "sample_bar 5" sample_sid]
  by (simp add: sample_manager_facts sample_bar_def strat_on_bar_def is_running_def logging_code_def logging_class_def store_bar_def
      new_strategy_def split: option.split)

theorem history_window_witness:
  "\<exists>s'. dget (sw_objects (run_ops (manager_step logging_code) sample_manager
       (map (SM_Event \<circ> bar_event) [sample_bar 5, sample_bar 6]))) sample_sid = Some s' \<and>
     dget (st_data s') (symbol_key sample_symbol) = Some [sample_bar 5, sample_bar 6]"
proof -
  let ?s = "(new_strategy 7 0 sample_config [])\<lparr>st_state := RUNNING\<rparr>"
  have "is_running ?s" "dget (st_data ?s) (symbol_key sample_symbol) = Some []" "length [] \<le> 1000"
    by (simp_all add: is_running_def new_strategy_def sample_config_def dict_of_def)
  note history_window [OF sample_manager_def sample_leaves sample_manager_facts(1) this refl, of "[sample_bar 5, sample_bar 6]"]
  then show ?thesis by (simp add: sample_manager_facts sample_bar_def slice_last_def)
qed

theorem start_subscribes_again_witness:
  "bar_handlers (snd (start_strategy logging_code sample_manager sample_sid)) sample_sid sample_symbol = 2"
proof -
  have "sc_on_start (logging_code (st_class ((new_strategy 7 0 sample_config [])\<lparr>st_state := RUNNING\<rparr>))) (sw_portfolio sample_manager)
      ((new_strategy 7 0 sample_config [])\<lparr>st_state := RUNNING, st_state := RUNNING\<rparr>) =
      ((new_strategy 7 0 sample_config [])\<lparr>st_state := RUNNING\<rparr>, None)"
    by (simp add: logging_code_def logging_class_def no_hook_def)
  then show ?thesis
    using start_subscribes_again [OF sample_get, where code = logging_code and sy = sample_symbol
        and ?s1.0 = "(new_strategy 7 0 sample_config [])\<lparr>st_state := RUNNING\<rparr>"]
    by (simp add: sample_manager_facts new_strategy_def sample_config_def)
qed

definition sample_added :: "bar list strategy_world" where
  "sample_added = run_ops (manager_step logging_code) (new_strategy_manager (new_portfolio (dec_int 100) 0) empty_bus 7)
     [SM_Construct 0 sample_config, SM_Add sample_sid]"

theorem removing_added_strategy_raises_witness:
  "fst (remove_strategy logging_code sample_added sample_sid) = Inl KeyError"
proof -
  let ?s = "new_strategy 7 0 sample_config []"
  have "sm_get_strategy sample_added sample_sid = Some ?s" "sample_sid \<notin> set (sm_configs sample_added)"
    by (simp_all add: sample_added_def construct_def logging_code_def logging_class_def put_strategy_def new_strategy_manager_def
        sm_add_strategy_def set_add_def sm_get_strategy_def Let_def)
      (simp add: new_strategy_def sample_sid_def)
  moreover have "sc_on_stop (logging_code (st_class ?s)) (sw_portfolio sample_added) (?s\<lparr>st_state := STOPPED\<rparr>) = (?s\<lparr>st_state := STOPPED\<rparr>, None)"
    by (simp add: logging_code_def logging_class_def no_hook_def)
  ultimately show ?thesis using removing_added_strategy_raises by fastforce
qed

end
