(* ===== verification/Performance.thy ===== *)
theory Performance
  imports Portfolio
begin

section \<open>Performance figures (\<open>src/portfolio/metrics.py\<close>, \<open>src/backtesting/results.py\<close>)\<close>

text \<open>
  The functions of numpy and of the math module are an argument: mean, sample and population
  deviation, covariance, percentile, square root and power. Times of bars and snapshots are
  numbers of microseconds; the month of a moment is an argument too.
\<close>

record numpy =
  np_mean :: "flt list \<Rightarrow> flt"
  np_std1 :: "flt list \<Rightarrow> flt"
  np_var :: "flt list \<Rightarrow> flt"
  np_cov01 :: "flt list \<Rightarrow> flt list \<Rightarrow> flt"
  np_percentile :: "flt list \<Rightarrow> flt \<Rightarrow> flt"
  m_sqrt :: "flt \<Rightarrow> flt"
  m_pow :: "flt \<Rightarrow> flt \<Rightarrow> flt"

subsection \<open>Returns and ratios\<close>

fun returns_from :: "flt \<Rightarrow> flt list \<Rightarrow> exn + flt list" where
  "returns_from prev [] = Inr []"
| "returns_from prev (v # vs) =
     and_then (flt_div (v - prev) prev) (\<lambda>r. and_then (returns_from v vs) (\<lambda>rs. Inr (r # rs)))"

definition calculate_returns :: "flt list \<Rightarrow> exn + flt list" where
  "calculate_returns curve = (case curve of v # w # vs \<Rightarrow> returns_from v (w # vs) | _ \<Rightarrow> Inr [])"

definition calculate_sharpe_ratio :: "numpy \<Rightarrow> flt list \<Rightarrow> flt \<Rightarrow> int \<Rightarrow> flt" where
  "calculate_sharpe_ratio np returns rf periods =
     (if length returns < 2 then 0
      else
        (let excess = map (\<lambda>r. r - rf) returns; m = np_mean np excess; s = np_std1 np excess
         in if s = 0 then 0 else (m * flt_int periods) / (s * m_sqrt np (flt_int periods))))"

subsection \<open>Draw-down\<close>

record dd_scan =
  ds_peak :: flt
  ds_peak_idx :: nat
  ds_max :: flt
  ds_start :: nat
  ds_end :: nat

definition dd_step :: "dd_scan \<Rightarrow> nat \<Rightarrow> flt \<Rightarrow> exn + dd_scan" where
  "dd_step s i v =
     (let s1 = (if ds_peak s < v then s\<lparr>ds_peak := v, ds_peak_idx := i\<rparr> else s) in
      and_then (flt_div (ds_peak s1 - v) (ds_peak s1)) (\<lambda>dd.
        Inr (if ds_max s1 < dd then s1\<lparr>ds_max := dd, ds_start := ds_peak_idx s1, ds_end := i\<rparr> else s1)))"

fun dd_loop :: "dd_scan \<Rightarrow> nat \<Rightarrow> flt list \<Rightarrow> exn + dd_scan" where
  "dd_loop s i [] = Inr s"
| "dd_loop s i (v # vs) = and_then (dd_step s i v) (\<lambda>s1. dd_loop s1 (Suc i) vs)"

definition calculate_max_drawdown :: "flt list \<Rightarrow> exn + flt \<times> int" where
  "calculate_max_drawdown curve =
     (if length curve < 2 then Inr (0, 0)
      else
        and_then (dd_loop \<lparr>ds_peak = hd curve, ds_peak_idx = 0, ds_max = 0, ds_start = 0, ds_end = 0\<rparr> 0 curve)
          (\<lambda>s. Inr (ds_max s * flt_int 100, int (ds_end s) - int (ds_start s))))"

subsection \<open>Trades\<close>

definition winning :: "trade list \<Rightarrow> trade list" where
  "winning ts = filter (\<lambda>t. 0 < net_pnl t) ts"

definition losing :: "trade list \<Rightarrow> trade list" where
  "losing ts = filter (\<lambda>t. net_pnl t < 0) ts"

definition float_pnl :: "trade list \<Rightarrow> flt" where
  "float_pnl ts = flt_sum (map (\<lambda>t. flt_of_dec (net_pnl t)) ts)"

definition profit_factor_of :: "trade list \<Rightarrow> flt" where
  "profit_factor_of ts =
     (let gross_profit = float_pnl (winning ts); gross_loss = \<bar>float_pnl (losing ts)\<bar>
      in if gross_loss = 0 then (if 0 < gross_profit then gross_profit else 0) else gross_profit / gross_loss)"

definition calculate_trade_metrics :: "trade list option \<Rightarrow> flt \<times> flt \<times> flt" where
  "calculate_trade_metrics trades =
     (case trades of
        None \<Rightarrow> (0, 0, 0)
      | Some ts \<Rightarrow>
          if ts = [] then (0, 0, 0)
          else
            (let n = int (length ts) in
             (int_ratio (int (length (winning ts))) n * flt_int 100, profit_factor_of ts, float_pnl ts / flt_int n)))"

subsection \<open>All figures\<close>

record performance_metrics =
  mt_total_return :: flt
  mt_annualized :: flt
  mt_volatility :: flt
  mt_sharpe :: flt
  mt_max_drawdown :: flt
  mt_drawdown_duration :: int
  mt_win_rate :: flt
  mt_profit_factor :: flt
  mt_avg_trade :: flt
  mt_calmar :: flt

definition calculate_metrics ::
  "numpy \<Rightarrow> snapshot list \<Rightarrow> flt \<Rightarrow> trade list option \<Rightarrow> exn + performance_metrics option" where
  "calculate_metrics np snaps rf trades =
     (if length snaps < 2 then Inr None
      else
        (let curve = map (\<lambda>s. flt_of_dec (sn_total_value s)) snaps in
         and_then (calculate_returns curve) (\<lambda>returns.
           if returns = [] then Inr None
           else
             and_then (flt_div (last curve - hd curve) (hd curve)) (\<lambda>growth.
               let total_return = growth * flt_int 100;
                   days = (sn_timestamp (last snaps) - sn_timestamp (hd snaps)) div 86400000000;
                   years = flt_int days / Flt (36525 / 100);
                   annualized = (if 0 < days then (m_pow np (last curve / hd curve) (1 / years) - 1) * flt_int 100 else total_return);
                   volatility = (if 1 < length returns then np_std1 np returns * m_sqrt np (flt_int 252) * flt_int 100 else 0)
               in and_then (calculate_max_drawdown curve) (\<lambda>(max_dd, dur).
                    case calculate_trade_metrics trades of (wr, pf, avg) \<Rightarrow>
                    Inr (Some
                      \<lparr>mt_total_return = total_return, mt_annualized = annualized, mt_volatility = volatility,
                       mt_sharpe = calculate_sharpe_ratio np returns rf 252, mt_max_drawdown = max_dd,
                       mt_drawdown_duration = dur, mt_win_rate = wr, mt_profit_factor = pf, mt_avg_trade = avg,
                       mt_calmar = (if 0 < max_dd then annualized / max_dd else 0)\<rparr>))))))"

definition calculate_var :: "numpy \<Rightarrow> flt list \<Rightarrow> flt \<Rightarrow> flt" where
  "calculate_var np returns confidence =
     (if returns = [] then 0 else np_percentile np returns ((1 - confidence) * flt_int 100))"

definition calculate_beta :: "numpy \<Rightarrow> flt list \<Rightarrow> flt list \<Rightarrow> flt" where
  "calculate_beta np rs bs =
     (if length rs \<noteq> length bs \<or> length rs < 2 then 0
      else if np_var np bs = 0 then 0 else np_cov01 np rs bs / np_var np bs)"

definition calculate_alpha :: "numpy \<Rightarrow> flt list \<Rightarrow> flt list \<Rightarrow> flt \<Rightarrow> flt" where
  "calculate_alpha np rs bs rf =
     (let beta = calculate_beta np rs bs
      in (np_mean np rs - (rf + beta * (np_mean np bs - rf))) * flt_int 252)"

section \<open>Results of a backtest\<close>

record backtest_results =
  br_start :: time
  br_end :: time
  br_initial :: dec
  br_final :: dec
  br_snapshots :: "snapshot list"
  br_trades :: "trade list"

text \<open>\<open>__post_init__\<close>: a final value of zero is replaced by that of the last snapshot or the initial cash.\<close>

definition new_results :: "time \<Rightarrow> time \<Rightarrow> dec \<Rightarrow> dec \<Rightarrow> snapshot list \<Rightarrow> trade list \<Rightarrow> backtest_results" where
  "new_results t0 t1 cash final snaps trades =
     \<lparr>br_start = t0, br_end = t1, br_initial = cash,
      br_final = (if final = 0 then (if snaps = [] then cash else sn_total_value (last snaps)) else final),
      br_snapshots = snaps, br_trades = trades\<rparr>"

definition res_total_return :: "backtest_results \<Rightarrow> dec" where
  "res_total_return r = br_final r - br_initial r"

definition res_total_return_percent :: "backtest_results \<Rightarrow> exn + flt" where
  "res_total_return_percent r =
     (if br_initial r = 0 then Inr 0
      else and_then (flt_div (flt_of_dec (res_total_return r)) (flt_of_dec (br_initial r))) (\<lambda>x. Inr (x * flt_int 100)))"

definition res_total_trades :: "backtest_results \<Rightarrow> nat" where
  "res_total_trades r = length (br_trades r)"

definition res_winning :: "backtest_results \<Rightarrow> nat" where
  "res_winning r = length (winning (br_trades r))"

definition res_losing :: "backtest_results \<Rightarrow> nat" where
  "res_losing r = length (losing (br_trades r))"

definition res_win_rate :: "backtest_results \<Rightarrow> flt" where
  "res_win_rate r =
     (if res_total_trades r = 0 then 0
      else int_ratio (int (res_winning r)) (int (res_total_trades r)) * flt_int 100)"

definition res_avg_trade :: "backtest_results \<Rightarrow> exn + dec" where
  "res_avg_trade r =
     (if res_total_trades r = 0 then Inr 0
      else dec_div (dec_sum (map net_pnl (br_trades r))) (dec_int (int (res_total_trades r))))"

definition res_equity :: "backtest_results \<Rightarrow> flt list" where
  "res_equity r = map (\<lambda>s. flt_of_dec (sn_total_value s)) (br_snapshots r)"

definition res_max_drawdown :: "backtest_results \<Rightarrow> exn + flt" where
  "res_max_drawdown r =
     (if br_snapshots r = [] then Inr 0 else and_then (calculate_max_drawdown (res_equity r)) (\<lambda>(d, _). Inr d))"

definition res_sharpe :: "numpy \<Rightarrow> backtest_results \<Rightarrow> exn + flt" where
  "res_sharpe np r =
     (if length (br_snapshots r) < 2 then Inr 0
      else and_then (calculate_returns (res_equity r)) (\<lambda>rs.
             Inr (if rs = [] then 0 else calculate_sharpe_ratio np rs 0 252)))"

definition res_profit_factor :: "backtest_results \<Rightarrow> flt" where
  "res_profit_factor r = profit_factor_of (br_trades r)"

fun drawdowns_from :: "flt \<Rightarrow> flt list \<Rightarrow> exn + flt list" where
  "drawdowns_from peak [] = Inr []"
| "drawdowns_from peak (v # vs) =
     (let p = (if peak < v then v else peak) in
      and_then (flt_div (p - v) p) (\<lambda>d. and_then (drawdowns_from p vs) (\<lambda>ds. Inr (d * flt_int 100 # ds))))"

definition get_drawdown_series :: "backtest_results \<Rightarrow> exn + flt list" where
  "get_drawdown_series r =
     (if br_snapshots r = [] then Inr [] else drawdowns_from (hd (res_equity r)) (res_equity r))"

fun group_trades :: "trade list \<Rightarrow> (string, trade list) dict \<Rightarrow> (string, trade list) dict" where
  "group_trades [] d = d"
| "group_trades (t # ts) d =
     (let k = ticker (tr_symbol t) in
      group_trades ts (dset d k ((case dget d k of None \<Rightarrow> [] | Some l \<Rightarrow> l) @ [t])))"

definition get_trades_by_symbol :: "backtest_results \<Rightarrow> (string, trade list) dict" where
  "get_trades_by_symbol r = group_trades (br_trades r) []"

text \<open>The first and the last value of each month, in the order of the months' first snapshots.\<close>

fun month_values :: "(time \<Rightarrow> string) \<Rightarrow> snapshot list \<Rightarrow> (string, dec \<times> dec) dict \<Rightarrow> (string, dec \<times> dec) dict" where
  "month_values month [] d = d"
| "month_values month (s # ss) d =
     (let k = month (sn_timestamp s); v = sn_total_value s in
      month_values month ss (dset d k (case dget d k of None \<Rightarrow> (v, v) | Some (a, _) \<Rightarrow> (a, v))))"

fun month_returns :: "(string \<times> dec \<times> dec) list \<Rightarrow> exn + (string \<times> flt) list" where
  "month_returns [] = Inr []"
| "month_returns ((k, a, b) # ms) =
     (if a \<noteq> 0 \<and> b \<noteq> 0 \<and> 0 < a
      then and_then (flt_div (flt_of_dec b) (flt_of_dec a)) (\<lambda>q.
             and_then (month_returns ms) (\<lambda>rest. Inr ((k, (q - 1) * flt_int 100) # rest)))
      else month_returns ms)"

definition get_monthly_returns :: "(time \<Rightarrow> string) \<Rightarrow> backtest_results \<Rightarrow> exn + (string \<times> flt) list" where
  "get_monthly_returns month r = month_returns (month_values month (br_snapshots r) [])"

record trade_record =
  rec_id :: string
  rec_symbol :: string
  rec_entry_time :: time
  rec_exit_time :: time
  rec_side :: string
  rec_quantity :: dec
  rec_entry_price :: dec
  rec_exit_price :: dec
  rec_realized :: dec
  rec_commission :: dec
  rec_slippage :: dec

definition rec_gross_pnl :: "trade_record \<Rightarrow> dec" where
  "rec_gross_pnl t = rec_realized t + rec_commission t + rec_slippage t"

definition rec_net_pnl :: "trade_record \<Rightarrow> dec" where
  "rec_net_pnl t = rec_realized t - rec_commission t - rec_slippage t"

section \<open>Lemmas\<close>

subsection \<open>Floats\<close>

lemma flt_self_drop: "0 < v \<Longrightarrow> (v - v) / v = (0 :: flt)"
  by (simp add: flt_eq_iff fr.r_0)

lemma flt_int_100: "fval (flt_int 100) = 100"
  by simp (code_simp)

lemma drop_bounds:
  assumes "is_float p" "0 < v" "v \<le> p"
  shows "0 \<le> (p - v) / p" "(p - v) / p \<le> (1 :: flt)"
proof -
  have p: "0 < fval p" "fval v \<le> fval p" "0 < fval v" using assms by (simp_all add: py_num_simps)
  have lo: "0 \<le> flt_rnd (fval p - fval v)" using p by (intro fr.r_nonneg) simp
  have hi: "flt_rnd (fval p - fval v) \<le> fval p" using p assms(1) by (intro fr.r_le) (simp_all add: is_float_def)
  have one: "flt_rnd 1 = 1" by code_simp
  show "0 \<le> (p - v) / p" using lo p by (simp add: flt_le_iff fr.r_nonneg)
  show "(p - v) / p \<le> 1" unfolding flt_le_iff fval_simps using hi p by (intro fr.r_le [OF one]) simp
qed

lemma percent_mono: "x \<le> y \<Longrightarrow> x * flt_int 100 \<le> y * flt_int 100"
  unfolding flt_le_iff fval_simps(5) flt_int_100 by (rule fr.r_mono) simp

lemma percent_bounds:
  assumes "0 \<le> x" "x \<le> 1"
  shows "0 \<le> x * flt_int 100" "x * flt_int 100 \<le> flt_int 100"
proof -
  have "flt_rnd 100 = 100" by code_simp
  with assms show "0 \<le> x * flt_int 100" "x * flt_int 100 \<le> flt_int 100"
    unfolding flt_le_iff fval_simps(5) flt_int_100
    by (simp_all add: py_num_simps fr.r_nonneg fr.r_le)
qed

subsection \<open>The scan for the largest draw-down\<close>

definition run_max :: "flt list \<Rightarrow> nat \<Rightarrow> flt" where
  "run_max xs j = Max (set (take (Suc j) xs))"

lemma run_max_0: "xs \<noteq> [] \<Longrightarrow> run_max xs 0 = hd xs"
  by (cases xs) (simp_all add: run_max_def)

lemma run_max_Suc: "Suc j < length xs \<Longrightarrow> run_max xs (Suc j) = max (run_max xs j) (xs ! Suc j)"
proof -
  assume j: "Suc j < length xs"
  then have "take (Suc j) xs \<noteq> []" by auto
  with j show ?thesis
    unfolding run_max_def take_Suc_conv_app_nth [OF j] by (simp add: max.commute del: take_eq_Nil)
qed

lemma run_max_ge: "k \<le> j \<Longrightarrow> j < length xs \<Longrightarrow> xs ! k \<le> run_max xs j"
  unfolding run_max_def by (rule Max_ge) (auto simp: in_set_conv_nth intro!: exI [of _ k])

text \<open>The draw-down at the position \<open>j\<close> of the curve.\<close>

definition drop_at :: "flt list \<Rightarrow> nat \<Rightarrow> flt" where
  "drop_at xs j = (run_max xs j - xs ! j) / run_max xs j"

text \<open>What the scan knows after the first \<open>n\<close> values.\<close>

definition dd_inv :: "flt list \<Rightarrow> nat \<Rightarrow> dd_scan \<Rightarrow> bool" where
  "dd_inv xs n s \<longleftrightarrow> 0 < n \<and> n \<le> length xs \<and> ds_peak s = run_max xs (n - 1) \<and> ds_peak_idx s < n \<and>
     xs ! ds_peak_idx s = ds_peak s \<and> ds_start s \<le> ds_end s \<and> ds_end s < n \<and>
     xs ! ds_start s = run_max xs (ds_end s) \<and> ds_max s = drop_at xs (ds_end s) \<and> (\<forall>j < n. drop_at xs j \<le> ds_max s)"

lemma dd_step_inv:
  assumes "dd_inv xs n s" "n < length xs" "\<forall>x \<in> set xs. 0 < x"
  shows "\<exists>s1. dd_step s n (xs ! n) = Inr s1 \<and> dd_inv xs (Suc n) s1"
proof -
  note I = assms(1) [unfolded dd_inv_def]
  have m: "run_max xs n = (if ds_peak s < xs ! n then xs ! n else ds_peak s)"
    using run_max_Suc [of "n - 1" xs] I assms(2) by (auto simp: max_def)
  have "xs ! n \<le> run_max xs n" using assms(2) by (intro run_max_ge) auto
  moreover have "0 < xs ! n" using assms(2,3) by simp
  ultimately have pos: "fval (run_max xs n) \<noteq> 0" by (simp add: py_num_simps)
  let ?s = "if ds_peak s < xs ! n then s\<lparr>ds_peak := xs ! n, ds_peak_idx := n\<rparr> else s"
  have p: "ds_peak ?s = run_max xs n" "ds_peak_idx ?s < Suc n" "xs ! ds_peak_idx ?s = ds_peak ?s"
    "ds_max ?s = ds_max s" "ds_start ?s = ds_start s" "ds_end ?s = ds_end s" using I m by auto
  let ?t = "if ds_max s < drop_at xs n then ?s\<lparr>ds_max := drop_at xs n, ds_start := ds_peak_idx ?s, ds_end := n\<rparr> else ?s"
  have "dd_step s n (xs ! n) = Inr ?t"
    using pos p by (simp add: dd_step_def Let_def flt_div_def drop_at_def)
  moreover have "dd_inv xs (Suc n) ?t"
  proof (cases "ds_max s < drop_at xs n")
    case True
    with I p assms(2) show ?thesis by (auto simp: dd_inv_def less_Suc_eq)
  next
    case False
    with I p assms(2) show ?thesis by (auto simp: dd_inv_def less_Suc_eq not_less)
  qed
  ultimately show ?thesis by blast
qed

lemma dd_loop_inv:
  assumes "dd_inv xs n s" "\<forall>x \<in> set xs. 0 < x"
  shows "\<exists>s1. dd_loop s n (drop n xs) = Inr s1 \<and> dd_inv xs (length xs) s1"
  using assms(1)
proof (induction "length xs - n" arbitrary: n s)
  case 0
  then show ?case by (auto simp: dd_inv_def)
next
  case (Suc k)
  then have n: "n < length xs" by simp
  from dd_step_inv [OF Suc.prems n assms(2)] obtain s1 where s1: "dd_step s n (xs ! n) = Inr s1" "dd_inv xs (Suc n) s1" by blast
  moreover have "drop n xs = xs ! n # drop (Suc n) xs" using n by (simp add: Cons_nth_drop_Suc)
  ultimately show ?case using Suc.hyps(1) [of "Suc n" s1] Suc.hyps(2) by simp
qed

lemma max_drawdown_scan:
  assumes "2 \<le> length xs" "\<forall>x \<in> set xs. 0 < x"
  shows "\<exists>s. calculate_max_drawdown xs = Inr (ds_max s * flt_int 100, int (ds_end s) - int (ds_start s)) \<and> dd_inv xs (length xs) s"
proof -
  let ?s = "\<lparr>ds_peak = hd xs, ds_peak_idx = 0, ds_max = 0, ds_start = 0, ds_end = 0\<rparr>"
  obtain v vs where xs: "xs = v # vs" using assms(1) by (cases xs) auto
  have v: "0 < v" "fval v \<noteq> 0" using assms(2) by (auto simp: xs py_num_simps)
  then have d: "drop_at xs 0 = 0" by (simp add: drop_at_def run_max_0 xs flt_self_drop)
  have "dd_step ?s 0 v = Inr ?s" using v by (simp add: dd_step_def flt_div_def flt_self_drop xs)
  moreover have "dd_inv xs 1 ?s" using d by (simp add: dd_inv_def run_max_0 xs)
  moreover from dd_loop_inv [OF this assms(2)] obtain s where "dd_loop ?s 1 (drop 1 xs) = Inr s" "dd_inv xs (length xs) s" by blast
  ultimately show ?thesis using assms(1) by (auto simp: calculate_max_drawdown_def xs)
qed

lemma drawdowns_step:
  assumes "m = (if peak < v then v else peak)" "fval m \<noteq> 0"
  shows "drawdowns_from peak (v # vs) =
    and_then (drawdowns_from m vs) (\<lambda>ds. Inr ((m - v) / m * flt_int 100 # ds))"
  using assms(2) by (simp add: Let_def flt_div_def flip: assms(1))

lemma drawdowns_from_run:
  assumes "\<forall>x \<in> set xs. 0 < x" "0 < n" "n \<le> length xs"
  shows "drawdowns_from (run_max xs (n - 1)) (drop n xs) = Inr (map (\<lambda>j. drop_at xs j * flt_int 100) [n..<length xs])"
  using assms(2,3)
proof (induction "length xs - n" arbitrary: n)
  case (Suc k)
  then have n: "n < length xs" by simp
  then have d: "drop n xs = xs ! n # drop (Suc n) xs" by (simp add: Cons_nth_drop_Suc)
  have m: "run_max xs n = (if run_max xs (n - 1) < xs ! n then xs ! n else run_max xs (n - 1))"
    using run_max_Suc [of "n - 1" xs] n Suc.prems(1) by (auto simp: max_def)
  have "xs ! n \<le> run_max xs n" "0 < xs ! n" using n assms(1) by (auto intro: run_max_ge)
  then have "fval (run_max xs n) \<noteq> 0" by (simp add: py_num_simps)
  from drawdowns_step [OF m this] Suc.hyps(1) [of "Suc n"] Suc.hyps(2) n show ?case
    by (simp add: d drop_at_def upt_conv_Cons del: drawdowns_from.simps)
qed simp

lemma drawdowns_from_all:
  assumes "xs \<noteq> []" "\<forall>x \<in> set xs. 0 < x"
  shows "drawdowns_from (hd xs) xs = Inr (map (\<lambda>j. drop_at xs j * flt_int 100) [0..<length xs])"
proof -
  have xs: "xs = hd xs # drop 1 xs" using assms(1) by (cases xs) auto
  have "0 < hd xs" using assms by (cases xs) auto
  then have "fval (hd xs) \<noteq> 0" by (simp add: py_num_simps)
  note step = drawdowns_step [OF _ this, of "hd xs" "hd xs" "drop 1 xs", simplified if_cancel, OF refl]
  have "drawdowns_from (hd xs) xs = drawdowns_from (hd xs) (hd xs # drop 1 xs)" by (rule arg_cong [OF xs])
  also have "\<dots> = and_then (drawdowns_from (run_max xs (1 - 1)) (drop 1 xs)) (\<lambda>ds. Inr ((hd xs - hd xs) / hd xs * flt_int 100 # ds))"
    unfolding step using assms(1) by (simp add: run_max_0)
  also have "\<dots> = Inr (drop_at xs 0 * flt_int 100 # map (\<lambda>j. drop_at xs j * flt_int 100) [1..<length xs])"
    using drawdowns_from_run [OF assms(2), of 1] assms(1)
    by (simp add: drop_at_def run_max_0 hd_conv_nth Suc_leI)
  also have "\<dots> = Inr (map (\<lambda>j. drop_at xs j * flt_int 100) [0..<length xs])"
    using assms(1) by (simp add: upt_conv_Cons)
  finally show ?thesis .
qed

lemma int_ratio_bounds:
  assumes "0 \<le> a" "a \<le> n" "0 < n"
  shows "0 \<le> int_ratio a n" "int_ratio a n \<le> 1"
proof -
  have "flt_rnd 1 = 1" by code_simp
  with assms show "0 \<le> int_ratio a n" "int_ratio a n \<le> 1"
    by (simp_all add: int_ratio_def py_num_simps fr.r_nonneg fr.r_le)
qed

section \<open>Properties of the figures\<close>

text \<open>C23. For a curve of positive values, calculate_max_drawdown finds the largest relative fall from a
  running maximum: its figure is the fall from a peak to a later trough, the peak is the highest
  value up to the trough, no value of the curve lies further below its running maximum, and the
  duration is the distance from that peak to that trough.\<close>

theorem max_drawdown_exact:
  assumes "2 \<le> length curve" "\<forall>x \<in> set curve. 0 < x"
  defines "peak \<equiv> \<lambda>k. Max (set (take (Suc k) curve))"
  shows "\<exists>i j. i \<le> j \<and> j < length curve \<and>
    calculate_max_drawdown curve = Inr ((curve ! i - curve ! j) / curve ! i * flt_int 100, int j - int i) \<and>
    curve ! i = peak j \<and> (\<forall>k < length curve. (peak k - curve ! k) / peak k \<le> (curve ! i - curve ! j) / curve ! i)"
proof -
  obtain s where "calculate_max_drawdown curve = Inr (ds_max s * flt_int 100, int (ds_end s) - int (ds_start s))"
    and I: "dd_inv curve (length curve) s" using max_drawdown_scan [OF assms(1,2)] by blast
  moreover have "\<forall>k < length curve. drop_at curve k \<le> drop_at curve (ds_end s)" using I by (metis dd_inv_def)
  moreover have "ds_start s \<le> ds_end s" "ds_end s < length curve" "ds_max s = drop_at curve (ds_end s)"
    "curve ! ds_start s = run_max curve (ds_end s)" using I by (simp_all add: dd_inv_def)
  ultimately show ?thesis
    by - (rule exI [of _ "ds_start s"], rule exI [of _ "ds_end s"], simp add: drop_at_def run_max_def peak_def)
qed

text \<open>The report is consistent: with at least two snapshots of positive value, the largest draw-down
  is the maximum of the series of draw-downs, which has an entry for each snapshot, and lies
  between 0 and 100 per cent.\<close>

theorem drawdown_report_consistent:
  assumes "2 \<le> length (br_snapshots r)" "\<forall>x \<in> set (res_equity r). 0 < x"
  shows "\<exists>d ds. res_max_drawdown r = Inr d \<and> get_drawdown_series r = Inr ds \<and>
    length ds = length (br_snapshots r) \<and> d = Max (set ds) \<and> 0 \<le> d \<and> d \<le> flt_int 100"
proof -
  let ?xs = "res_equity r"
  let ?ds = "map (\<lambda>j. drop_at ?xs j * flt_int 100) [0..<length ?xs]"
  have len: "length ?xs = length (br_snapshots r)" by (simp add: res_equity_def)
  then have ne: "?xs \<noteq> []" "br_snapshots r \<noteq> []" using assms(1) by auto
  obtain s where s: "calculate_max_drawdown ?xs = Inr (ds_max s * flt_int 100, int (ds_end s) - int (ds_start s))"
    "dd_inv ?xs (length ?xs) s" using max_drawdown_scan [of ?xs] assms len by auto
  have e: "ds_end s < length ?xs" "ds_max s = drop_at ?xs (ds_end s)" "\<forall>j < length ?xs. drop_at ?xs j \<le> ds_max s"
    "ds_start s < length ?xs" "?xs ! ds_start s = run_max ?xs (ds_end s)"
    using s(2) by (auto simp: dd_inv_def)
  have "is_float (?xs ! ds_start s)" "0 < ?xs ! ds_end s" using e(1,4) assms(2) by (simp_all add: res_equity_def)
  moreover have "?xs ! ds_end s \<le> ?xs ! ds_start s" using run_max_ge [of "ds_end s" "ds_end s" ?xs] e(1,5) by simp
  ultimately have b: "0 \<le> ds_max s" "ds_max s \<le> 1" using drop_bounds e(2,5) by (auto simp: drop_at_def)
  have "Max (set ?ds) = ds_max s * flt_int 100"
    using e by (intro Max_eqI) (auto intro: percent_mono)
  moreover have "get_drawdown_series r = Inr ?ds"
    using drawdowns_from_all [OF ne(1) assms(2)] ne(2) by (simp add: get_drawdown_series_def)
  moreover have "res_max_drawdown r = Inr (ds_max s * flt_int 100)" using s(1) assms(1) by (auto simp: res_max_drawdown_def)
  ultimately show ?thesis using percent_bounds [OF b] len by auto
qed

text \<open>The two computations of the trade figures agree: the win rate and the profit factor of the
  results are those of calculate_trade_metrics on the same trades, also without trades, and the
  win rate is between 0 and 100 per cent.\<close>

theorem trade_figures_agree:
  "fst (calculate_trade_metrics (Some (br_trades r))) = res_win_rate r \<and>
   fst (snd (calculate_trade_metrics (Some (br_trades r)))) = res_profit_factor r \<and>
   0 \<le> res_win_rate r \<and> res_win_rate r \<le> flt_int 100"
proof (cases "br_trades r = []")
  case True
  have "profit_factor_of [] = 0"
    by (simp add: profit_factor_of_def winning_def losing_def float_pnl_def flt_sum_def py_num_simps)
  moreover have "0 \<le> flt_int 100" by code_simp
  ultimately show ?thesis using True
    by (simp add: calculate_trade_metrics_def res_win_rate_def res_total_trades_def res_profit_factor_def)
next
  case False
  let ?a = "int (length (winning (br_trades r)))" and ?n = "int (length (br_trades r))"
  have "0 \<le> ?a" "?a \<le> ?n" "0 < ?n" using False by (simp_all add: winning_def length_filter_le)
  from percent_bounds [OF int_ratio_bounds [OF this]] False show ?thesis
    by (simp add: calculate_trade_metrics_def res_win_rate_def res_total_trades_def res_profit_factor_def res_winning_def Let_def)
qed

section \<open>A concrete curve\<close>

definition sample_snapshot :: "int \<Rightarrow> snapshot" where
  "sample_snapshot v = \<lparr>sn_timestamp = v, sn_cash = dec_int v, sn_positions_value = 0, sn_total_value = dec_int v, sn_unrealized = 0,
     sn_realized = 0\<rparr>"

definition sample_curve :: "flt list" where
  "sample_curve = [flt_int 2, flt_int 4, flt_int 3]"

theorem max_drawdown_exact_witness:
  "\<exists>i j. i \<le> j \<and> j < length sample_curve \<and> calculate_max_drawdown sample_curve =
     Inr ((sample_curve ! i - sample_curve ! j) / sample_curve ! i * flt_int 100, int j - int i)"
proof -
  have "0 < flt_int 2" "0 < flt_int 4" "0 < flt_int 3" by code_simp+
  then have "2 \<le> length sample_curve" "\<forall>x \<in> set sample_curve. 0 < x" by (simp_all add: sample_curve_def)
  from max_drawdown_exact [OF this] show ?thesis by blast
qed

theorem drawdown_report_consistent_witness:
  "\<exists>d. res_max_drawdown (new_results 0 9 (dec_int 4) 0 [sample_snapshot 4, sample_snapshot 3] []) = Inr d \<and> 0 \<le> d \<and> d \<le> flt_int 100"
proof -
  let ?r = "new_results 0 9 (dec_int 4) 0 [sample_snapshot 4, sample_snapshot 3] []"
  have "0 < flt_of_dec (dec_int 4)" "0 < flt_of_dec (dec_int 3)" by code_simp+
  then have "\<forall>x \<in> set (res_equity ?r). 0 < x" by (simp add: new_results_def res_equity_def sample_snapshot_def)
  moreover have "2 \<le> length (br_snapshots ?r)" by (simp add: new_results_def)
  ultimately show ?thesis using drawdown_report_consistent [of ?r] by blast
qed

end
