(* ===== verification/Backtest.thy ===== *)
theory Backtest
  imports Strategy Time_Keeper Performance Simulated_Broker
begin

section \<open>Backtesting (\<open>src/backtesting/engine.py\<close>, \<open>src/backtesting/optimization.py\<close>)\<close>

text \<open>
  The engine owns a portfolio, a strategy manager with a bus of its own, a time keeper, an
  execution engine with a simulated broker, and an order and a position manager of its own.
  The strategies read the engine's portfolio object until \<open>reset\<close> gives the engine a new one;
  \<open>bt_shared\<close> says whether it is still the same. \<open>clk n\<close> is the system's clock at the \<open>n\<close>-th
  snapshot of a run.
\<close>

record backtest_config =
  bc_start :: time
  bc_end :: time
  bc_symbols :: "symbol list"
  bc_resolution :: resolution
  bc_cash :: dec
  bc_commission :: dec
  bc_slippage :: flt
  bc_fill_probability :: flt

definition make_backtest_config :: "backtest_config \<Rightarrow> exn + backtest_config" where
  "make_backtest_config c = (if bc_end c \<le> bc_start c then Inl ValueError else Inr c)"

record 'u backtest =
  bt_config :: backtest_config
  bt_keeper :: "unit time_keeper"
  bt_portfolio :: portfolio
  bt_shared :: bool
  bt_positions :: position_manager
  bt_engine :: "(sim_broker, unit) exec_engine"
  bt_strategies :: "'u strategy_world"
  bt_data :: "(skey, bar list) dict"
  bt_index :: "(skey, nat) dict"
  bt_results :: "backtest_results option"

definition utc_keeper :: "time \<Rightarrow> unit time_keeper" where
  "utc_keeper now = \<lparr>tk_timezone = ''UTC'', tk_mode = TM_BACKTEST, tk_backtest = True, tk_current = now, tk_start = now,
     tk_schedules = [], tk_objects = [], tk_running = False, tk_stop_event = False, tk_on_change = [], tk_world = ()\<rparr>"

definition default_commission :: commission_model where
  "default_commission = \<lparr>per_share = 0, min_per_order = 0, max_percent = 1, flat_fee = 0\<rparr>"

definition default_slippage :: slippage_model where
  "default_slippage = \<lparr>fixed_slippage = 0, percentage = 0, volume_impact = 0\<rparr>"

definition new_backtest :: "backtest_config \<Rightarrow> heap \<Rightarrow> nat \<Rightarrow> time \<Rightarrow> 'u backtest" where
  "new_backtest c h n now =
     (let pf = new_portfolio (bc_cash c) now in
      \<lparr>bt_config = c, bt_keeper = utc_keeper now, bt_portfolio = pf, bt_shared = True, bt_positions = empty_pm,
       bt_engine = new_engine (Some (sim_ops, new_sim_broker (bc_fill_probability c) 0 0)) default_commission default_slippage h 0,
       bt_strategies = new_strategy_manager pf empty_bus n, bt_data = [], bt_index = [], bt_results = None\<rparr>)"

definition load_historical_data :: "'u backtest \<Rightarrow> symbol \<Rightarrow> bar list \<Rightarrow> 'u backtest" where
  "load_historical_data bt sy data =
     (let c = bt_config bt;
          bars = sort_key b_timestamp (filter (\<lambda>b. bc_start c \<le> b_timestamp b \<and> b_timestamp b \<le> bc_end c) data)
      in bt\<lparr>bt_data := dset (bt_data bt) (symbol_key sy) bars, bt_index := dset (bt_index bt) (symbol_key sy) 0\<rparr>)"

definition bt_register_strategy :: "'u backtest \<Rightarrow> string \<Rightarrow> nat \<Rightarrow> 'u backtest" where
  "bt_register_strategy bt name cls = bt\<lparr>bt_strategies := register_strategy_class (bt_strategies bt) name cls\<rparr>"

definition bt_add_strategy ::
  "'u strategy_code \<Rightarrow> 'u backtest \<Rightarrow> string \<Rightarrow> (string, param) dict \<Rightarrow> (exn + string option) \<times> 'u backtest" where
  "bt_add_strategy code bt name ps =
     (case create_strategy code (bt_strategies bt) name
             \<lparr>sg_name = name, sg_symbols = bc_symbols (bt_config bt), sg_parameters = ps, sg_enabled = True\<rparr> of
        (r, w) \<Rightarrow> (r, bt\<lparr>bt_strategies := w\<rparr>))"

subsection \<open>A run\<close>

definition put_portfolio :: "'u backtest \<Rightarrow> portfolio \<Rightarrow> 'u backtest" where
  "put_portfolio bt pf =
     (let bt1 = bt\<lparr>bt_portfolio := pf\<rparr>
      in if bt_shared bt then bt1\<lparr>bt_strategies := (bt_strategies bt)\<lparr>sw_portfolio := pf\<rparr>\<rparr> else bt1)"

definition get_all_timestamps :: "'u backtest \<Rightarrow> time list" where
  "get_all_timestamps bt = sort (remdups (concat (map (map b_timestamp) (dvals (bt_data bt)))))"

text \<open>One symbol at one timestamp: the bar under the cursor, if it is of this moment.\<close>

definition process_symbol :: "'u strategy_code \<Rightarrow> time \<Rightarrow> 'u backtest \<Rightarrow> symbol \<Rightarrow> 'u backtest" where
  "process_symbol code ts bt sy =
     (let k = symbol_key sy;
          bars = (case dget (bt_data bt) k of None \<Rightarrow> [] | Some bs \<Rightarrow> bs);
          i = (case dget (bt_index bt) k of None \<Rightarrow> 0 | Some i \<Rightarrow> i)
      in if i < length bars \<and> b_timestamp (bars ! i) = ts
         then
           (let b = bars ! i;
                e = \<lparr>e_type = BAR, e_timestamp = ts, e_data = Bar_Payload b, e_symbol = Some (symbol_str sy)\<rparr>
            in bt\<lparr>bt_index := dset (bt_index bt) k (i + 1),
                  bt_strategies := strategy_emit code (bt_strategies bt) e,
                  bt_positions := pm_update_price (bt_positions bt) sy (b_close b) ts\<rparr>)
         else bt)"

definition process_timestamp :: "'u strategy_code \<Rightarrow> 'u backtest \<Rightarrow> time \<Rightarrow> 'u backtest" where
  "process_timestamp code bt ts = foldl (process_symbol code ts) bt (bc_symbols (bt_config bt))"

definition bt_tick :: "pytz \<Rightarrow> 'u strategy_code \<Rightarrow> 'u backtest \<Rightarrow> time \<Rightarrow> time \<Rightarrow> exn + 'u backtest" where
  "bt_tick pz code bt ts now =
     and_then (set_current_time pz (bt_keeper bt) (Aware ts)) (\<lambda>k.
       let bt1 = process_timestamp code (bt\<lparr>bt_keeper := k\<rparr>) ts
       in Inr (put_portfolio bt1 (snd (take_snapshot (bt_portfolio bt1) now))))"

fun bt_loop ::
  "pytz \<Rightarrow> 'u strategy_code \<Rightarrow> (nat \<Rightarrow> time) \<Rightarrow> nat \<Rightarrow> time list \<Rightarrow> 'u backtest \<Rightarrow> (exn + unit) \<times> 'u backtest" where
  "bt_loop pz code clk n [] bt = (Inr (), bt)"
| "bt_loop pz code clk n (ts # tss) bt =
     (case bt_tick pz code bt ts (clk n) of
        Inl x \<Rightarrow> (Inl x, bt)
      | Inr bt1 \<Rightarrow> bt_loop pz code clk (Suc n) tss bt1)"

definition generate_results :: "'u backtest \<Rightarrow> backtest_results" where
  "generate_results bt =
     (let c = bt_config bt; pf = bt_portfolio bt
      in new_results (bc_start c) (bc_end c) (bc_cash c) (total_value pf) (pf_snapshots pf) (get_trades (bt_positions bt) None))"

definition connect_sim :: "'u backtest \<Rightarrow> 'u backtest" where
  "connect_sim bt =
     (case ee_broker (bt_engine bt) of
        None \<Rightarrow> bt
      | Some (ops, b) \<Rightarrow> bt\<lparr>bt_engine := ee_start (put_broker (bt_engine bt) (snd (br_connect ops b)))\<rparr>)"

definition disconnect_sim :: "'u backtest \<Rightarrow> 'u backtest" where
  "disconnect_sim bt =
     (let e = ee_stop (bt_engine bt) in
      case ee_broker e of
        None \<Rightarrow> bt\<lparr>bt_engine := e\<rparr>
      | Some (ops, b) \<Rightarrow> bt\<lparr>bt_engine := put_broker e (snd (br_disconnect ops b))\<rparr>)"

text \<open>\<open>run\<close>; what a hook raises while strategies are started or stopped reaches the caller.\<close>

definition bt_run :: "pytz \<Rightarrow> 'u strategy_code \<Rightarrow> (nat \<Rightarrow> time) \<Rightarrow> 'u backtest \<Rightarrow> (exn + backtest_results) \<times> 'u backtest" where
  "bt_run pz code clk bt =
     (let bt0 = connect_sim bt in
      case start_all code (bt_strategies bt0) of
        (Inl x, w) \<Rightarrow> (Inl x, bt0\<lparr>bt_strategies := w\<rparr>)
      | (Inr _, w) \<Rightarrow>
          (let bt1 = bt0\<lparr>bt_strategies := w\<rparr>; tss = get_all_timestamps bt1; c = bt_config bt1 in
           if tss = [] then (Inr (new_results (bc_start c) (bc_end c) (bc_cash c) 0 [] []), bt1)
           else
             (case bt_loop pz code clk 0 tss bt1 of
                (Inl x, bt2) \<Rightarrow> (Inl x, bt2)
              | (Inr _, bt2) \<Rightarrow>
                  (case stop_all code (bt_strategies bt2) of
                     (Inl x, w) \<Rightarrow> (Inl x, bt2\<lparr>bt_strategies := w\<rparr>)
                   | (Inr _, w) \<Rightarrow>
                       (let bt3 = disconnect_sim (bt2\<lparr>bt_strategies := w\<rparr>); r = generate_results bt3
                        in (Inr r, bt3\<lparr>bt_results := Some r\<rparr>))))))"

definition bt_get_results :: "'u backtest \<Rightarrow> backtest_results option" where
  "bt_get_results bt = bt_results bt"

definition bt_reset :: "'u backtest \<Rightarrow> time \<Rightarrow> 'u backtest" where
  "bt_reset bt now =
     bt\<lparr>bt_portfolio := new_portfolio (bc_cash (bt_config bt)) now, bt_shared := False,
        bt_index := dict_of (map (\<lambda>s. (symbol_key s, 0)) (bc_symbols (bt_config bt))), bt_results := None, bt_data := []\<rparr>"

subsection \<open>Optimization\<close>

record opt_result =
  op_parameters :: "(string, param) dict"
  op_results :: backtest_results
  op_score :: flt

text \<open>\<open>itertools.product\<close>: the last factor varies fastest.\<close>

fun cartesian :: "'a list list \<Rightarrow> 'a list list" where
  "cartesian [] = [[]]"
| "cartesian (xs # xss) = concat (map (\<lambda>x. map ((#) x) (cartesian xss)) xs)"

definition parameter_combinations :: "(string, param list) dict \<Rightarrow> (string, param) dict list" where
  "parameter_combinations grid = map (zip (dkeys grid)) (cartesian (dvals grid))"

text \<open>
  The engine of one combination: loaded with all data, with the class registered and the
  strategy added. \<open>fresh n\<close> gives the counter of strategies before the \<open>n\<close>-th engine.
\<close>

definition bt_prepare ::
  "'u strategy_code \<Rightarrow> backtest_config \<Rightarrow> heap \<Rightarrow> nat \<Rightarrow> time \<Rightarrow> (symbol \<times> bar list) list \<Rightarrow> nat \<Rightarrow> (string, param) dict \<Rightarrow>
   (exn + string option) \<times> 'u backtest" where
  "bt_prepare code c h n now data cls ps =
     bt_add_strategy code
       (bt_register_strategy (foldl (\<lambda>bt (sy, bars). load_historical_data bt sy bars) (new_backtest c h n now) data)
          ''strategy'' cls)
       ''strategy'' ps"

text \<open>
  The loop of \<open>optimize\<close>: \<open>evaluate i ps\<close> is the outcome of the \<open>i\<close>-th run, \<open>None\<close> when the
  strategy could not be created. The first of several best scores is kept.
\<close>

fun optimize_loop ::
  "(nat \<Rightarrow> (string, param) dict \<Rightarrow> exn + backtest_results option) \<Rightarrow> (backtest_results \<Rightarrow> exn + flt) \<Rightarrow> nat \<Rightarrow>
   (string, param) dict list \<Rightarrow> opt_result list \<Rightarrow> opt_result option \<Rightarrow> (exn + opt_result option) \<times> opt_result list" where
  "optimize_loop evaluate score i [] rs best = (Inr best, rs)"
| "optimize_loop evaluate score i (ps # pss) rs best =
     (case evaluate i ps of
        Inl x \<Rightarrow> (Inl x, rs)
      | Inr None \<Rightarrow> optimize_loop evaluate score (Suc i) pss rs best
      | Inr (Some r) \<Rightarrow>
          (case score r of
             Inl x \<Rightarrow> (Inl x, rs)
           | Inr s \<Rightarrow>
               (let x = \<lparr>op_parameters = ps, op_results = r, op_score = s\<rparr> in
                optimize_loop evaluate score (Suc i) pss (rs @ [x])
                  (case best of None \<Rightarrow> Some x | Some b \<Rightarrow> if op_score b < s then Some x else Some b))))"

definition evaluate_parameters ::
  "pytz \<Rightarrow> 'u strategy_code \<Rightarrow> backtest_config \<Rightarrow> heap \<Rightarrow> (nat \<Rightarrow> nat) \<Rightarrow> (nat \<Rightarrow> nat \<Rightarrow> time) \<Rightarrow> (symbol \<times> bar list) list \<Rightarrow> nat \<Rightarrow>
   nat \<Rightarrow> (string, param) dict \<Rightarrow> exn + backtest_results option" where
  "evaluate_parameters pz code c h fresh clk data cls i ps =
     (case bt_prepare code c h (fresh i) (clk i 0) data cls ps of
        (Inl x, _) \<Rightarrow> Inl x
      | (Inr None, _) \<Rightarrow> Inr None
      | (Inr (Some _), bt) \<Rightarrow> and_then (fst (bt_run pz code (clk i) bt)) (\<lambda>r. Inr (Some r)))"

definition optimize ::
  "(nat \<Rightarrow> (string, param) dict \<Rightarrow> exn + backtest_results option) \<Rightarrow> (backtest_results \<Rightarrow> exn + flt) \<Rightarrow>
   (string, param list) dict \<Rightarrow> opt_result list \<Rightarrow> (exn + opt_result option) \<times> opt_result list" where
  "optimize evaluate score grid rs = optimize_loop evaluate score 0 (parameter_combinations grid) rs None"

text \<open>\<open>[:n]\<close> of a list; \<open>sorted\<close> with \<open>reverse=True\<close>, which keeps the order of equal elements.\<close>

definition slice_first :: "int \<Rightarrow> 'a list \<Rightarrow> 'a list" where
  "slice_first n xs = (if 0 \<le> n then take (nat n) xs else take (length xs - nat (- n)) xs)"

definition get_top_results :: "opt_result list \<Rightarrow> int \<Rightarrow> opt_result list" where
  "get_top_results rs n = slice_first n (rev (sort_key op_score (rev rs)))"

text \<open>
  Scores, returns and Sharpe ratios of the results that have the parameter, grouped by its value
  and averaged. Values of different types count as different here.
\<close>

definition sensitivity_row :: "numpy \<Rightarrow> opt_result \<Rightarrow> exn + flt \<times> flt \<times> flt" where
  "sensitivity_row np x =
     and_then (res_total_return_percent (op_results x)) (\<lambda>ret.
     and_then (res_sharpe np (op_results x)) (\<lambda>sh. Inr (op_score x, ret, sh)))"

fun sensitivity_groups ::
  "numpy \<Rightarrow> string \<Rightarrow> opt_result list \<Rightarrow> (param, (flt \<times> flt \<times> flt) list) dict \<Rightarrow> exn + (param, (flt \<times> flt \<times> flt) list) dict" where
  "sensitivity_groups np name [] d = Inr d"
| "sensitivity_groups np name (x # xs) d =
     (case dget (op_parameters x) name of
        None \<Rightarrow> sensitivity_groups np name xs d
      | Some v \<Rightarrow>
          and_then (sensitivity_row np x) (\<lambda>row.
            sensitivity_groups np name xs (dset d v ((case dget d v of None \<Rightarrow> [] | Some l \<Rightarrow> l) @ [row]))))"

record sensitivity =
  sv_score :: flt
  sv_return :: flt
  sv_sharpe :: flt
  sv_count :: nat

definition flt_mean :: "flt list \<Rightarrow> flt" where
  "flt_mean xs = flt_sum xs / flt_int (int (length xs))"

definition analyze_parameter_sensitivity :: "numpy \<Rightarrow> opt_result list \<Rightarrow> string \<Rightarrow> exn + (param, sensitivity) dict" where
  "analyze_parameter_sensitivity np xs name =
     and_then (sensitivity_groups np name xs []) (\<lambda>d.
       Inr (map (\<lambda>(v, rows). (v, \<lparr>sv_score = flt_mean (map fst rows), sv_return = flt_mean (map (fst \<circ> snd) rows),
              sv_sharpe = flt_mean (map (snd \<circ> snd) rows), sv_count = length rows\<rparr>)) d))"

section \<open>Lemmas\<close>

subsection \<open>The portfolio of a backtest\<close>

text \<open>Nothing moves the portfolio: the cash is the initial one, there are no positions and no trades.\<close>

definition idle :: "dec \<Rightarrow> 'u backtest \<Rightarrow> bool" where
  "idle c bt \<longleftrightarrow> bc_cash (bt_config bt) = c \<and> pf_cash (bt_portfolio bt) = c \<and> pf_positions (bt_portfolio bt) = [] \<and>
     (\<forall>s \<in> set (pf_snapshots (bt_portfolio bt)). sn_total_value s = c) \<and> bt_positions bt = empty_pm"

lemma idle_total_value: "idle c bt \<Longrightarrow> dec_rnd (dval c) = dval c \<Longrightarrow> total_value (bt_portfolio bt) = c"
  by (simp add: idle_def total_value_def positions_value_def held_def dec_eq_iff)

lemma process_symbol_frame [simp]:
  "bt_config (process_symbol code ts bt sy) = bt_config bt" "bt_portfolio (process_symbol code ts bt sy) = bt_portfolio bt"
  "bt_keeper (process_symbol code ts bt sy) = bt_keeper bt" "bt_data (process_symbol code ts bt sy) = bt_data bt"
  "bt_shared (process_symbol code ts bt sy) = bt_shared bt"
  by (simp_all add: process_symbol_def Let_def)

lemma foldl_process_frame [simp]:
  "bt_config (foldl (process_symbol code ts) bt sys) = bt_config bt" "bt_portfolio (foldl (process_symbol code ts) bt sys) = bt_portfolio bt"
  "bt_keeper (foldl (process_symbol code ts) bt sys) = bt_keeper bt" "bt_data (foldl (process_symbol code ts) bt sys) = bt_data bt"
  "bt_shared (foldl (process_symbol code ts) bt sys) = bt_shared bt"
  by (induction sys arbitrary: bt) simp_all

lemma idle_foldl: "idle c bt \<Longrightarrow> idle c (foldl (process_symbol code ts) bt sys)"
proof (induction sys arbitrary: bt)
  case (Cons sy sys)
  have "bt_positions (process_symbol code ts bt sy) = empty_pm"
    using Cons.prems by (simp add: process_symbol_def idle_def Let_def pm_update_price_def pm_get_position_def empty_pm_def)
  then have "idle c (process_symbol code ts bt sy)" using Cons.prems by (simp add: idle_def)
  then show ?case using Cons.IH by simp
qed simp

lemma put_portfolio_frame [simp]:
  "bt_config (put_portfolio bt pf) = bt_config bt" "bt_portfolio (put_portfolio bt pf) = pf"
  "bt_positions (put_portfolio bt pf) = bt_positions bt" "bt_data (put_portfolio bt pf) = bt_data bt"
  "bt_index (put_portfolio bt pf) = bt_index bt" "bt_keeper (put_portfolio bt pf) = bt_keeper bt"
  "sw_objects (bt_strategies (put_portfolio bt pf)) = sw_objects (bt_strategies bt)"
  "sw_registry (bt_strategies (put_portfolio bt pf)) = sw_registry (bt_strategies bt)"
  "sw_bus (bt_strategies (put_portfolio bt pf)) = sw_bus (bt_strategies bt)"
  "sm_strategies (bt_strategies (put_portfolio bt pf)) = sm_strategies (bt_strategies bt)"
  by (simp_all add: put_portfolio_def Let_def)

lemma idle_tick:
  assumes "idle c bt" "dec_rnd (dval c) = dval c" "bt_tick pz code bt ts now = Inr bt1"
  shows "idle c bt1"
proof -
  obtain k where k: "bt1 = (let bt2 = process_timestamp code (bt\<lparr>bt_keeper := k\<rparr>) ts
      in put_portfolio bt2 (snd (take_snapshot (bt_portfolio bt2) now)))"
    using assms(3) by (auto simp: bt_tick_def and_then_Inr_iff Let_def)
  let ?bt = "process_timestamp code (bt\<lparr>bt_keeper := k\<rparr>) ts"
  have i: "idle c ?bt" unfolding process_timestamp_def using assms(1) by (intro idle_foldl) (simp add: idle_def)
  from idle_total_value [OF this assms(2)] i show ?thesis
    by (simp add: k Let_def idle_def take_snapshot_def)
qed

lemma idle_loop:
  "idle c bt \<Longrightarrow> dec_rnd (dval c) = dval c \<Longrightarrow> bt_loop pz code clk n tss bt = (Inr u, bt1) \<Longrightarrow> idle c bt1"
  by (induction tss arbitrary: n bt) (auto split: sum.splits intro: idle_tick)

text \<open>The setup of an engine: loading data, registering classes and adding strategies.\<close>

datatype setup_op =
    Load_Data symbol "bar list"
  | Register_Class string nat
  | Add_Strategy string "(string, param) dict"

fun setup_step :: "'u strategy_code \<Rightarrow> 'u backtest \<Rightarrow> setup_op \<Rightarrow> 'u backtest" where
  "setup_step code bt (Load_Data sy data) = load_historical_data bt sy data"
| "setup_step code bt (Register_Class name cls) = bt_register_strategy bt name cls"
| "setup_step code bt (Add_Strategy name ps) = snd (bt_add_strategy code bt name ps)"

lemma idle_setup: "idle c bt \<Longrightarrow> idle c (setup_step code bt x)"
  by (cases x) (simp_all add: idle_def load_historical_data_def bt_register_strategy_def bt_add_strategy_def Let_def split: prod.split)

interpretation setup_idle: run_system "setup_step code" "\<lambda>_ _. True" "idle c" for code c
  by unfold_locales (rule idle_setup)

lemma idle_new: "idle (bc_cash c) (new_backtest c h n now)"
  by (simp add: idle_def new_backtest_def Let_def new_portfolio_def)

lemma connect_sim_frame [simp]:
  "bt_config (connect_sim bt) = bt_config bt" "bt_portfolio (connect_sim bt) = bt_portfolio bt" "bt_data (connect_sim bt) = bt_data bt"
  "bt_index (connect_sim bt) = bt_index bt" "bt_positions (connect_sim bt) = bt_positions bt"
  "bt_strategies (connect_sim bt) = bt_strategies bt" "bt_keeper (connect_sim bt) = bt_keeper bt"
  by (simp_all add: connect_sim_def split: option.split)

lemma disconnect_sim_frame [simp]:
  "bt_config (disconnect_sim bt) = bt_config bt" "bt_portfolio (disconnect_sim bt) = bt_portfolio bt"
  "bt_positions (disconnect_sim bt) = bt_positions bt" "bt_strategies (disconnect_sim bt) = bt_strategies bt"
  by (simp_all add: disconnect_sim_def Let_def split: option.split)

text \<open>What a run that returns has been through.\<close>

lemma bt_run_cases:
  assumes "bt_run pz code clk bt = (Inr r, bt')"
  obtains (no_data) n w where "start_all code (bt_strategies bt) = (Inr n, w)" "get_all_timestamps bt = []"
      "r = new_results (bc_start (bt_config bt)) (bc_end (bt_config bt)) (bc_cash (bt_config bt)) 0 [] []"
      "bt' = (connect_sim bt)\<lparr>bt_strategies := w\<rparr>"
  | (all) n w m w' bt2 where "start_all code (bt_strategies bt) = (Inr n, w)"
      "bt_loop pz code clk 0 (get_all_timestamps bt) ((connect_sim bt)\<lparr>bt_strategies := w\<rparr>) = (Inr (), bt2)"
      "stop_all code (bt_strategies bt2) = (Inr m, w')" "get_all_timestamps bt \<noteq> []"
      "r = generate_results (disconnect_sim (bt2\<lparr>bt_strategies := w'\<rparr>))"
      "bt' = (disconnect_sim (bt2\<lparr>bt_strategies := w'\<rparr>))\<lparr>bt_results := Some r\<rparr>"
  using assms
  by (auto simp: bt_run_def Let_def get_all_timestamps_def split: prod.splits sum.splits if_splits)

subsection \<open>The cursor of a symbol\<close>

text \<open>Where the cursor of a list of bars ends after the given timestamps.\<close>

fun cursor :: "bar list \<Rightarrow> nat \<Rightarrow> time list \<Rightarrow> nat" where
  "cursor bs i [] = i"
| "cursor bs i (t # ts) = cursor bs (if i < length bs \<and> b_timestamp (bs ! i) = t then Suc i else i) ts"

lemma cursor_ge: "i \<le> cursor bs i ts"
  by (induction ts arbitrary: i) (auto intro: Suc_leD)

lemma cursor_le: "i \<le> length bs \<Longrightarrow> cursor bs i ts \<le> length bs"
  by (induction ts arbitrary: i) auto

text \<open>Bars with different times, all among the timestamps, are all reached.\<close>

lemma cursor_reaches_end:
  assumes "sorted_wrt (<) (map b_timestamp bs)" "sorted_wrt (<) ts" "i \<le> length bs"
    and "\<forall>b \<in> set (drop i bs). b_timestamp b \<in> set ts"
  shows "cursor bs i ts = length bs"
  using assms(2-4)
proof (induction ts arbitrary: i)
  case Nil
  then show ?case by (cases "drop i bs") auto
next
  case (Cons t ts)
  show ?case
  proof (cases "i < length bs \<and> b_timestamp (bs ! i) = t")
    case True
    have "b_timestamp b \<in> set ts" if b: "b \<in> set (drop (Suc i) bs)" for b
    proof -
      from b obtain n where "n < length bs - Suc i" "b = drop (Suc i) bs ! n" by (metis in_set_conv_nth length_drop)
      then obtain j where j: "j < length bs" "i < j" "b = bs ! j" by (intro that [of "Suc i + n"]) auto
      then have "b_timestamp (bs ! i) < b_timestamp b" using assms(1) by (simp add: sorted_wrt_iff_nth_less)
      moreover have "b \<in> set (drop i bs)" using b True by (metis Cons_nth_drop_Suc list.set_intros(2))
      ultimately show ?thesis using Cons.prems(3) True by fastforce
    qed
    with True Cons show ?thesis by simp
  next
    case False
    have "b_timestamp b \<in> set ts" if b: "b \<in> set (drop i bs)" for b
    proof -
      from b obtain n where "n < length bs - i" "b = drop i bs ! n" by (metis in_set_conv_nth length_drop)
      then obtain j where j: "j < length bs" "i \<le> j" "b = bs ! j" by (intro that [of "i + n"]) auto
      then have i: "bs ! i \<in> set (drop i bs)" by (metis Cons_nth_drop_Suc list.set_intros(1) order_le_less_trans)
      have le: "b_timestamp (bs ! i) \<le> b_timestamp b"
        using assms(1) j by (cases "i = j") (simp_all add: sorted_wrt_iff_nth_less order_le_less)
      have "b_timestamp (bs ! i) \<in> set (t # ts)" using Cons.prems(3) i by blast
      moreover have "b_timestamp (bs ! i) \<noteq> t" using False j by auto
      ultimately have "t < b_timestamp (bs ! i)" using Cons.prems(1) by auto
      with le Cons.prems(3) b show ?thesis by fastforce
    qed
    with False Cons show ?thesis by auto
  qed
qed

text \<open>Two neighbouring bars of the same time stop the cursor at the second.\<close>

lemma cursor_stalls:
  assumes "sorted_wrt (<) ts" "Suc i < length bs" "b_timestamp (bs ! i) = b_timestamp (bs ! Suc i)"
  shows "j \<le> i \<or> (j = Suc i \<and> (\<forall>t \<in> set ts. b_timestamp (bs ! i) < t)) \<Longrightarrow> cursor bs j ts \<le> Suc i"
  using assms(1)
proof (induction ts arbitrary: j)
  case (Cons t ts)
  show ?case
  proof (cases "j = i \<and> b_timestamp (bs ! i) = t")
    case True
    with Cons.prems(2) have "\<forall>t' \<in> set ts. b_timestamp (bs ! i) < t'" by auto
    with True Cons assms(2) show ?thesis by auto
  next
    case False
    show ?thesis
    proof (cases "j = Suc i")
      case True
      with Cons.prems have "\<forall>t' \<in> set (t # ts). b_timestamp (bs ! i) < t'" by auto
      with True Cons assms(3) show ?thesis by auto
    next
      case j: False
      with Cons.prems(1) have "j \<le> i" by auto
      with False have "(if j < length bs \<and> b_timestamp (bs ! j) = t then Suc j else j) \<le> i" by (cases "j = i") auto
      with Cons show ?thesis by auto
    qed
  qed
qed auto

lemma timestamps_sorted: "sorted_wrt (<) (get_all_timestamps bt)"
  by (simp add: get_all_timestamps_def strict_sorted_iff)

lemma timestamps_complete:
  "dget (bt_data bt) k = Some bs \<Longrightarrow> b \<in> set bs \<Longrightarrow> b_timestamp b \<in> set (get_all_timestamps bt)"
  using dget_in_dvals [of "bt_data bt" k bs] by (auto simp: get_all_timestamps_def)

subsection \<open>What a run delivers to one strategy\<close>

text \<open>Every bar is stored under its own symbol.\<close>

definition labelled :: "'u backtest \<Rightarrow> bool" where
  "labelled bt \<longleftrightarrow> (\<forall>k bs. dget (bt_data bt) k = Some bs \<longrightarrow> (\<forall>b \<in> set bs. symbol_key (b_symbol b) = k))"

lemma labelledD: "labelled bt \<Longrightarrow> dget (bt_data bt) k = Some bs \<Longrightarrow> b \<in> set bs \<Longrightarrow> symbol_key (b_symbol b) = k"
  unfolding labelled_def by blast

text \<open>
  The strategy \<open>sid\<close> runs with \<open>m\<close> handlers for the bars of \<open>sy\<close>, has seen the bars \<open>xs\<close> of it,
  and the cursor of the symbol stands at \<open>i\<close>.
\<close>

definition following :: "'u backtest \<Rightarrow> string \<Rightarrow> symbol \<Rightarrow> nat \<Rightarrow> bar list \<Rightarrow> nat \<Rightarrow> bool" where
  "following bt sid sy m xs i \<longleftrightarrow> wired (bt_strategies bt) \<and> labelled bt \<and> bar_handlers (bt_strategies bt) sid sy = m \<and>
     (\<exists>s. dget (sw_objects (bt_strategies bt)) sid = Some s \<and> is_running s \<and> history sy s = Some (slice_last 1000 xs)) \<and>
     dget (bt_index bt) (symbol_key sy) = Some i"

lemma following_process:
  assumes "leaves_base code" "following bt sid sy m xs i" "dget (bt_data bt) (symbol_key sy) = Some bs"
  shows "if symbol_eq sy' sy \<and> i < length bs \<and> b_timestamp (bs ! i) = ts
    then following (process_symbol code ts bt sy') sid sy m (xs @ replicate m (bs ! i)) (Suc i)
    else following (process_symbol code ts bt sy') sid sy m xs i"
proof -
  let ?k = "symbol_key sy'" and ?w = "bt_strategies bt"
  let ?bars = "case dget (bt_data bt) ?k of None \<Rightarrow> [] | Some bs \<Rightarrow> bs"
  let ?j = "case dget (bt_index bt) ?k of None \<Rightarrow> 0 | Some i \<Rightarrow> i"
  obtain s where F: "wired ?w" "labelled bt" "bar_handlers ?w sid sy = m" "dget (sw_objects ?w) sid = Some s" "is_running s"
    "history sy s = Some (slice_last 1000 xs)" "dget (bt_index bt) (symbol_key sy) = Some i"
    using assms(2) by (auto simp: following_def)
  show ?thesis
  proof (cases "?j < length ?bars \<and> b_timestamp (?bars ! ?j) = ts")
    case False
    then have "process_symbol code ts bt sy' = bt" by (simp only: process_symbol_def Let_def if_False)
    with False F(7) assms(2,3) show ?thesis by (auto simp: symbol_eq_def)
  next
    case True
    define b where "b = ?bars ! ?j"
    define j where "j = ?j"
    let ?e = "\<lparr>e_type = BAR, e_timestamp = ts, e_data = Bar_Payload b, e_symbol = Some (symbol_str sy')\<rparr>"
    let ?w' = "strategy_emit code ?w ?e" and ?n = "bar_handlers ?w sid (b_symbol b)"
    have p: "process_symbol code ts bt sy' = bt\<lparr>bt_index := dset (bt_index bt) ?k (j + 1), bt_strategies := ?w',
        bt_positions := pm_update_price (bt_positions bt) sy' (b_close b) ts\<rparr>"
      using True by (simp only: process_symbol_def Let_def if_True simp_thms b_def j_def)
    from True obtain bs' where d: "dget (bt_data bt) ?k = Some bs'" by (cases "dget (bt_data bt) ?k") simp_all
    with True have "b \<in> set bs'" by (simp add: b_def)
    with d have "symbol_key (b_symbol b) = ?k" by (rule labelledD [OF F(2)])
    then have eq: "symbol_eq (b_symbol b) sy \<longleftrightarrow> symbol_eq sy' sy" by (simp add: symbol_eq_def)
    have n: "symbol_eq sy' sy \<Longrightarrow> ?n = m" using bar_handlers_key [of "b_symbol b" sy ?w sid] F(3) eq by simp
    have w': "wired ?w'" "bar_handlers ?w' sid sy = m" "labelled (process_symbol code ts bt sy')"
      using F(1,2,3) by (simp_all add: wired_def bar_handlers_def labelled_def)
    let ?s' = "(deliver_bar code (sw_portfolio ?w) b ^^ ?n) s"
    have s': "dget (sw_objects ?w') sid = Some ?s'" using emit_bar [OF F(1), of ?e b code sid] F(4) by simp
    note h = deliver_history_many [OF assms(1) F(5,6), where pf = "sw_portfolio ?w" and b = b and k = ?n, unfolded eq]
    show ?thesis
    proof (cases "symbol_eq sy' sy")
      case same: True
      then have "?bars = bs" "j = i" using assms(3) F(7) by (simp_all add: symbol_eq_def j_def)
      moreover from this have "b = bs ! i" by (simp add: b_def j_def)
      moreover have "following (process_symbol code ts bt sy') sid sy m (xs @ replicate m b) (Suc j)"
        using h s' w' same n unfolding following_def p by (simp add: symbol_eq_def)
      ultimately show ?thesis using same True by (simp add: j_def)
    next
      case False
      then have "following (process_symbol code ts bt sy') sid sy m xs i"
        using h s' w' F(7) unfolding following_def p by (simp add: symbol_eq_def)
      with False show ?thesis by simp
    qed
  qed
qed

lemma following_symbols:
  assumes "leaves_base code" "distinct (map symbol_key sys)"
  shows "following bt sid sy m xs i \<Longrightarrow> dget (bt_data bt) (symbol_key sy) = Some bs \<Longrightarrow>
    following (foldl (process_symbol code ts) bt sys) sid sy m
      (if (\<exists>sy' \<in> set sys. symbol_eq sy' sy) \<and> i < length bs \<and> b_timestamp (bs ! i) = ts then xs @ replicate m (bs ! i) else xs)
      (if (\<exists>sy' \<in> set sys. symbol_eq sy' sy) \<and> i < length bs \<and> b_timestamp (bs ! i) = ts then Suc i else i)"
  using assms(2)
proof (induction sys arbitrary: bt xs i)
  case (Cons sy' sys)
  note step = following_process [OF assms(1) Cons.prems(1,2), of sy' ts]
  let ?bt = "process_symbol code ts bt sy'"
  show ?case
  proof (cases "symbol_eq sy' sy")
    case True
    then have none: "\<not> (\<exists>sy' \<in> set sys. symbol_eq sy' sy)" using Cons.prems(3) by (auto simp: symbol_eq_def image_iff)
    then have "following (foldl (process_symbol code ts) ?bt sys) sid sy m xs' i'" if "following ?bt sid sy m xs' i'" for xs' i'
      using Cons.IH [OF that] Cons.prems by simp
    with step True show ?thesis by (simp split: if_splits)
  next
    case False
    with step have "following ?bt sid sy m xs i" by simp
    from Cons.IH [OF this] Cons.prems(2,3) False show ?thesis by simp
  qed
qed simp

lemma following_cong:
  assumes "following bt sid sy m xs i"
    and "sw_objects (bt_strategies bt') = sw_objects (bt_strategies bt)" "sw_registry (bt_strategies bt') = sw_registry (bt_strategies bt)"
      "sw_bus (bt_strategies bt') = sw_bus (bt_strategies bt)" "bt_data bt' = bt_data bt" "bt_index bt' = bt_index bt"
  shows "following bt' sid sy m xs i"
  using assms by (simp add: following_def labelled_def bar_handlers_def wired_def)

text \<open>A tick never raises in a backtest, and moves the cursor of the symbol when its next bar is due.\<close>

definition hits :: "bar list \<Rightarrow> nat \<Rightarrow> time \<Rightarrow> bool" where
  "hits bs i ts \<longleftrightarrow> i < length bs \<and> b_timestamp (bs ! i) = ts"

lemma following_tick:
  assumes "leaves_base code" "distinct (map symbol_key (bc_symbols (bt_config bt)))" "\<exists>sy' \<in> set (bc_symbols (bt_config bt)). symbol_eq sy' sy"
    and "following bt sid sy m xs i" "dget (bt_data bt) (symbol_key sy) = Some bs" "tk_backtest (bt_keeper bt)"
  obtains bt1 where "bt_tick pz code bt ts now = Inr bt1"
    "following bt1 sid sy m (if hits bs i ts then xs @ replicate m (bs ! i) else xs) (if hits bs i ts then Suc i else i)"
    "bt_data bt1 = bt_data bt" "bt_config bt1 = bt_config bt" "tk_backtest (bt_keeper bt1)"
proof -
  define k where "k = notify_time_changed ((bt_keeper bt)\<lparr>tk_current := instant_in pz (tk_timezone (bt_keeper bt)) (Aware ts)\<rparr>)"
  have k: "set_current_time pz (bt_keeper bt) (Aware ts) = Inr k" "tk_backtest k"
    using assms(6) by (simp_all add: set_current_time_def k_def notify_time_changed_def)
  let ?bt = "process_timestamp code (bt\<lparr>bt_keeper := k\<rparr>) ts"
  have "following (bt\<lparr>bt_keeper := k\<rparr>) sid sy m xs i" by (rule following_cong [OF assms(4)]) simp_all
  from following_symbols [OF assms(1) _ this, of "bc_symbols (bt_config bt)" bs ts] assms(2,3,5)
  have f: "following ?bt sid sy m (if hits bs i ts then xs @ replicate m (bs ! i) else xs) (if hits bs i ts then Suc i else i)"
    by (simp add: process_timestamp_def hits_def)
  show ?thesis
  proof (rule that)
    show "bt_tick pz code bt ts now = Inr (put_portfolio ?bt (snd (take_snapshot (bt_portfolio ?bt) now)))"
      by (simp add: bt_tick_def k Let_def)
  qed (rule following_cong [OF f], simp_all add: process_timestamp_def k)
qed

lemma following_loop:
  assumes "leaves_base code" "distinct (map symbol_key (bc_symbols (bt_config bt)))" "\<exists>sy' \<in> set (bc_symbols (bt_config bt)). symbol_eq sy' sy"
    and "following bt sid sy m xs i" "dget (bt_data bt) (symbol_key sy) = Some bs" "tk_backtest (bt_keeper bt)"
  shows "\<exists>bt'. bt_loop pz code clk n tss bt = (Inr (), bt') \<and>
    following bt' sid sy m (xs @ concat (map (replicate m) (take (cursor bs i tss - i) (drop i bs)))) (cursor bs i tss)"
  using assms(2-6)
proof (induction tss arbitrary: bt xs i n)
  case (Cons ts tss)
  obtain bt1 where bt1: "bt_tick pz code bt ts (clk n) = Inr bt1"
    "following bt1 sid sy m (if hits bs i ts then xs @ replicate m (bs ! i) else xs) (if hits bs i ts then Suc i else i)"
    "bt_data bt1 = bt_data bt" "bt_config bt1 = bt_config bt" "tk_backtest (bt_keeper bt1)"
    using following_tick [OF assms(1) Cons.prems, of pz ts "clk n"] by blast
  show ?case
  proof (cases "hits bs i ts")
    case True
    with bt1 have f: "following bt1 sid sy m (xs @ replicate m (bs ! i)) (Suc i)" by simp
    have "i < length bs" using True by (simp add: hits_def)
    then have "drop i bs = bs ! i # drop (Suc i) bs" by (simp add: Cons_nth_drop_Suc)
    moreover have "cursor bs (Suc i) tss - i = Suc (cursor bs (Suc i) tss - Suc i)" using cursor_ge [of "Suc i" bs tss] by simp
    ultimately show ?thesis
      using Cons.IH [of bt1 "xs @ replicate m (bs ! i)" "Suc i" "Suc n"] Cons.prems bt1 f True by (simp add: hits_def)
  next
    case False
    with bt1 have f: "following bt1 sid sy m xs i" by simp
    moreover have "cursor bs i (ts # tss) = cursor bs i tss" using False by (auto simp: hits_def)
    ultimately show ?thesis using Cons.IH [of bt1 xs i "Suc n"] Cons.prems bt1 by simp
  qed
qed simp

subsection \<open>What the setup establishes\<close>

text \<open>An engine that is set up and has not run: bars sorted, under their symbol, cursors at the start.\<close>

definition ready :: "'u backtest \<Rightarrow> bool" where
  "ready bt \<longleftrightarrow> wired (bt_strategies bt) \<and> labelled bt \<and> tk_backtest (bt_keeper bt) \<and>
     (\<forall>k bs. dget (bt_data bt) k = Some bs \<longrightarrow> dget (bt_index bt) k = Some 0 \<and> sorted (map b_timestamp bs))"

lemma readyD: "ready bt \<Longrightarrow> dget (bt_data bt) k = Some bs \<Longrightarrow> dget (bt_index bt) k = Some 0 \<and> sorted (map b_timestamp bs)"
  unfolding ready_def by blast

fun own_bars :: "setup_op \<Rightarrow> bool" where
  "own_bars (Load_Data sy data) \<longleftrightarrow> (\<forall>b \<in> set data. symbol_eq (b_symbol b) sy)"
| "own_bars _ \<longleftrightarrow> True"

lemma ready_setup: "ready bt \<Longrightarrow> own_bars x \<Longrightarrow> ready (setup_step code bt x)"
proof (cases x)
  case (Load_Data sy data)
  assume "ready bt" "own_bars x"
  then show ?thesis unfolding Load_Data
    by (simp add: ready_def load_historical_data_def Let_def labelled_def symbol_eq_def del: split_paired_All)
next
  case (Register_Class name cls)
  assume "ready bt"
  then show ?thesis unfolding Register_Class
    by (simp add: ready_def labelled_def bt_register_strategy_def register_strategy_class_def wired_def del: split_paired_All)
next
  case (Add_Strategy name ps)
  assume r: "ready bt"
  let ?cfg = "\<lparr>sg_name = name, sg_symbols = bc_symbols (bt_config bt), sg_parameters = ps, sg_enabled = True\<rparr>"
  have "wired (snd (create_strategy code (bt_strategies bt) name ?cfg))"
    using wired_step [of "bt_strategies bt" code "SM_Create name ?cfg"] r by (simp add: ready_def)
  with r show ?thesis unfolding Add_Strategy
    by (auto simp add: ready_def labelled_def bt_add_strategy_def simp del: split_paired_All split: prod.splits)
qed

interpretation setup_ready: run_system "setup_step code" "\<lambda>_. own_bars" ready for code
  by unfold_locales (rule ready_setup)

lemma ready_new: "ready (new_backtest c h n now)"
  by (simp add: ready_def new_backtest_def Let_def wired_new labelled_def utc_keeper_def)

lemma guarded_run_const: "guarded_run step (\<lambda>_. P) s xs \<longleftrightarrow> list_all P xs"
  by (induction xs arbitrary: s) auto

lemma ready_run: "list_all own_bars xs \<Longrightarrow> ready (run_ops (setup_step code) (new_backtest c h n now) xs)"
  by (rule setup_ready.run_inv) (simp_all add: ready_new guarded_run_const)

lemma setup_config: "bt_config (run_ops (setup_step code) bt xs) = bt_config bt"
proof (induction xs arbitrary: bt)
  case (Cons x xs)
  then show ?case
    by (cases x) (simp_all add: load_historical_data_def bt_register_strategy_def bt_add_strategy_def Let_def split: prod.split)
qed simp

text \<open>Code whose \<open>on_stop\<close> raises nothing and leaves the history alone.\<close>

definition quiet_stop :: "'u strategy_code \<Rightarrow> bool" where
  "quiet_stop code \<longleftrightarrow> (\<forall>c pf s. snd (sc_on_stop (code c) pf s) = None \<and> st_data (fst (sc_on_stop (code c) pf s)) = st_data s)"

lemma each_stop:
  assumes "quiet_stop code"
  shows "\<exists>m w'. each_strategy (\<lambda>_. True) (strat_stop code) sids k w = (Inr m, w') \<and>
    map_option st_data (dget (sw_objects w') sid) = map_option st_data (dget (sw_objects w) sid)"
proof (induction sids arbitrary: k w)
  case (Cons x sids)
  show ?case
  proof (cases "dget (sw_objects w) x")
    case (Some s)
    obtain s1 r where hook: "sc_on_stop (code (st_class s)) (sw_portfolio w) (s\<lparr>st_state := STOPPED\<rparr>) = (s1, r)"
      by (cases "sc_on_stop (code (st_class s)) (sw_portfolio w) (s\<lparr>st_state := STOPPED\<rparr>)")
    have "snd (sc_on_stop (code (st_class s)) (sw_portfolio w) (s\<lparr>st_state := STOPPED\<rparr>)) = None \<and>
        st_data (fst (sc_on_stop (code (st_class s)) (sw_portfolio w) (s\<lparr>st_state := STOPPED\<rparr>))) = st_data (s\<lparr>st_state := STOPPED\<rparr>)"
      using assms unfolding quiet_stop_def by blast
    then have s1: "r = None" "st_data s1 = st_data s" by (simp_all add: hook)
    have "map_option st_data (dget (sw_objects (put_strategy w x s1)) sid) = map_option st_data (dget (sw_objects w) sid)"
      using Some s1 by (simp add: put_strategy_def)
    then show ?thesis using Cons.IH [of "k + 1" "put_strategy w x s1"] Some hook s1 by (simp add: strat_stop_def)
  qed (use Cons in simp)
qed simp

lemma run_history:
  assumes "bt = run_ops (setup_step code) (new_backtest c h n now) xs" "list_all own_bars xs" "leaves_base code" "quiet_stop code"
    and "distinct (map symbol_key (bc_symbols c))" "\<exists>sy' \<in> set (bc_symbols c). symbol_eq sy' sy"
    and "start_all code (bt_strategies bt) = (Inr k, w)"
    and "dget (sw_objects w) sid = Some s" "is_running s" "dget (st_data s) (symbol_key sy) = Some []"
    and "dget (bt_data bt) (symbol_key sy) = Some bs"
  shows "\<exists>r bt'. bt_run pz code clk bt = (Inr r, bt') \<and>
    (\<exists>s'. dget (sw_objects (bt_strategies bt')) sid = Some s' \<and> dget (st_data s') (symbol_key sy) =
      Some (slice_last 1000 (concat (map (replicate (bar_handlers w sid sy)) (take (cursor bs 0 (get_all_timestamps bt)) bs)))))"
proof (cases "get_all_timestamps bt = []")
  case True
  let ?bt = "(connect_sim bt)\<lparr>bt_strategies := w\<rparr>"
  have "get_all_timestamps ?bt = []" using True by (simp add: get_all_timestamps_def)
  with assms(7-10) True show ?thesis by (simp add: bt_run_def Let_def slice_last_def)
next
  case False
  let ?bt = "(connect_sim bt)\<lparr>bt_strategies := w\<rparr>"
  have cfg: "bt_config bt = c" using assms(1) by (simp add: setup_config) (simp add: new_backtest_def Let_def)
  have r: "ready bt" unfolding assms(1) by (rule ready_run [OF assms(2)])
  have "wired (snd (start_all code (bt_strategies bt)))" using r unfolding start_all_def ready_def by (intro wired_each wired_start) auto
  then have "wired w" using assms(7) by simp
  then have "following ?bt sid sy (bar_handlers w sid sy) [] 0"
    using readyD [OF r assms(11)] r assms(8-10) by (simp add: following_def ready_def labelled_def history_def slice_last_def)
  from following_loop [OF assms(3) _ _ this, of bs pz clk 0 "get_all_timestamps bt"] assms(5,6,11) r cfg
  obtain bt2 where loop: "bt_loop pz code clk 0 (get_all_timestamps bt) ?bt = (Inr (), bt2)"
    "following bt2 sid sy (bar_handlers w sid sy) (concat (map (replicate (bar_handlers w sid sy))
      (take (cursor bs 0 (get_all_timestamps bt)) bs))) (cursor bs 0 (get_all_timestamps bt))"
    by (auto simp: ready_def)
  from each_stop [OF assms(4), of "sm_strategies (bt_strategies bt2)" 0 "bt_strategies bt2" sid]
  obtain m w' where stop: "stop_all code (bt_strategies bt2) = (Inr m, w')"
    "map_option st_data (dget (sw_objects w') sid) = map_option st_data (dget (sw_objects (bt_strategies bt2)) sid)"
    unfolding stop_all_def by blast
  obtain s2 where "dget (sw_objects (bt_strategies bt2)) sid = Some s2" "dget (st_data s2) (symbol_key sy) =
      Some (slice_last 1000 (concat (map (replicate (bar_handlers w sid sy)) (take (cursor bs 0 (get_all_timestamps bt)) bs))))"
    using loop(2) by (auto simp: following_def history_def)
  with stop(2) obtain s' where s': "dget (sw_objects w') sid = Some s'" "dget (st_data s') (symbol_key sy) =
      Some (slice_last 1000 (concat (map (replicate (bar_handlers w sid sy)) (take (cursor bs 0 (get_all_timestamps bt)) bs))))"
    by auto
  have "get_all_timestamps ?bt = get_all_timestamps bt" by (simp add: get_all_timestamps_def)
  with False loop(1) stop(1) assms(7) s' show ?thesis by (simp add: bt_run_def Let_def)
qed

subsection \<open>The best result\<close>

definition better :: "opt_result option \<Rightarrow> opt_result \<Rightarrow> opt_result option" where
  "better best x = (case best of None \<Rightarrow> Some x | Some b \<Rightarrow> if op_score b < op_score x then Some x else Some b)"

lemma optimize_loop_best:
  "optimize_loop evaluate score i pss rs best = (Inr b, rs') \<Longrightarrow> \<exists>new. rs' = rs @ new \<and> b = foldl better best new"
proof (induction pss arbitrary: i rs best)
  case (Cons ps pss)
  then obtain q where q: "evaluate i ps = Inr q" by (auto split: sum.splits)
  show ?case
  proof (cases q)
    case None
    with Cons q show ?thesis by simp
  next
    case (Some r)
    with Cons.prems q obtain s where s: "score r = Inr s" by (auto split: sum.splits)
    let ?x = "\<lparr>op_parameters = ps, op_results = r, op_score = s\<rparr>"
    have "better best ?x = (case best of None \<Rightarrow> Some ?x | Some b \<Rightarrow> if op_score b < s then Some ?x else Some b)"
      by (simp add: better_def cong: option.case_cong)
    with Cons.prems q Some s have "optimize_loop evaluate score (Suc i) pss (rs @ [?x]) (better best ?x) = (Inr b, rs')"
      by (simp add: Let_def)
    from Cons.IH [OF this] show ?thesis by auto
  qed
qed simp

lemma last_insort_key:
  "sorted (map f zs) \<Longrightarrow> last (insort_key f x zs) = (if zs = [] \<or> f (last zs) < f x then x else last zs)"
proof (induction zs)
  case (Cons z zs)
  show ?case
  proof (cases "f x \<le> f z")
    case True
    with Cons.prems have "f x \<le> f (last (z # zs))" by (cases zs rule: rev_cases) auto
    with True show ?thesis by (auto simp: not_less)
  next
    case False
    have "insort_key f x zs \<noteq> []" by (cases zs) auto
    with False Cons show ?thesis by auto
  qed
qed simp

lemma foldl_better: "xs \<noteq> [] \<Longrightarrow> foldl better None xs = Some (last (sort_key op_score (rev xs)))"
proof (induction xs rule: rev_induct)
  case (snoc x xs)
  show ?case
  proof (cases "xs = []")
    case False
    then have "sort_key op_score (rev xs) \<noteq> []" by (metis length_0_conv length_rev length_sort)
    with snoc False show ?thesis by (simp add: last_insort_key) (simp add: better_def)
  qed (simp add: better_def)
qed simp

lemma length_cartesian: "length (cartesian xss) = prod_list (map length xss)"
  by (induction xss) (simp_all add: length_concat comp_def sum_list_triv)

lemma set_cartesian: "set (cartesian xss) = {xs. list_all2 (\<lambda>x l. x \<in> set l) xs xss}"
  by (induction xss) (auto simp: list_all2_Cons2)

section \<open>Properties of a backtest\<close>


text \<open>C21. A strategy of a backtest sees every bar of a symbol once for each handler it has, in the order
  of time, when no two bars of the symbol have the same time: what it holds at the end of the
  run is the last thousand of them. The run returns, since only the hooks could raise.\<close>

theorem backtest_history:
  assumes "bt = run_ops (setup_step code) (new_backtest c h n now) xs" "list_all own_bars xs" "leaves_base code" "quiet_stop code"
    and "distinct (map symbol_key (bc_symbols c))" "\<exists>sy' \<in> set (bc_symbols c). symbol_eq sy' sy"
    and "start_all code (bt_strategies bt) = (Inr k, w)"
    and "dget (sw_objects w) sid = Some s" "is_running s" "dget (st_data s) (symbol_key sy) = Some []"
    and "dget (bt_data bt) (symbol_key sy) = Some bs" "distinct (map b_timestamp bs)"
  shows "\<exists>r bt' s'. bt_run pz code clk bt = (Inr r, bt') \<and> dget (sw_objects (bt_strategies bt')) sid = Some s' \<and>
    dget (st_data s') (symbol_key sy) = Some (slice_last 1000 (concat (map (replicate (bar_handlers w sid sy)) bs)))"
proof -
  have "sorted (map b_timestamp bs)" using readyD [OF ready_run [OF assms(2)]] assms(1,11) by blast
  then have "sorted_wrt (<) (map b_timestamp bs)" using assms(12) by (simp add: strict_sorted_iff)
  then have "cursor bs 0 (get_all_timestamps bt) = length bs"
    using timestamps_complete [OF assms(11)] by (intro cursor_reaches_end timestamps_sorted) auto
  then show ?thesis using run_history [OF assms(1-11), of pz clk] by auto
qed

text \<open>Two bars of a symbol with the same time stop the symbol for the rest of the run: the second of
  them and all later bars never reach any strategy.\<close>

theorem duplicate_timestamp_stalls:
  assumes "bt = run_ops (setup_step code) (new_backtest c h n now) xs" "list_all own_bars xs" "leaves_base code" "quiet_stop code"
    and "distinct (map symbol_key (bc_symbols c))" "\<exists>sy' \<in> set (bc_symbols c). symbol_eq sy' sy"
    and "start_all code (bt_strategies bt) = (Inr k, w)"
    and "dget (sw_objects w) sid = Some s" "is_running s" "dget (st_data s) (symbol_key sy) = Some []"
    and "dget (bt_data bt) (symbol_key sy) = Some bs" "Suc i < length bs" "b_timestamp (bs ! i) = b_timestamp (bs ! Suc i)"
  shows "\<exists>r bt' s' j. bt_run pz code clk bt = (Inr r, bt') \<and> dget (sw_objects (bt_strategies bt')) sid = Some s' \<and> j \<le> Suc i \<and>
    dget (st_data s') (symbol_key sy) = Some (slice_last 1000 (concat (map (replicate (bar_handlers w sid sy)) (take j bs))))"
proof -
  have "cursor bs 0 (get_all_timestamps bt) \<le> Suc i"
    using cursor_stalls [OF timestamps_sorted assms(12,13), of 0] by simp
  then show ?thesis using run_history [OF assms(1-11), of pz clk] by blast
qed


section \<open>A concrete backtest\<close>

definition sample_bt_config :: backtest_config where
  "sample_bt_config = \<lparr>bc_start = 0, bc_end = 100, bc_symbols = [sample_symbol], bc_resolution = RMinute, bc_cash = dec_int 100,
     bc_commission = 0, bc_slippage = 0, bc_fill_probability = 1\<rparr>"

definition sample_setup :: "bar list \<Rightarrow> setup_op list" where
  "sample_setup bs = [Load_Data sample_symbol bs, Register_Class ''log'' 0, Add_Strategy ''log'' []]"

definition sample_bt :: "bar list \<Rightarrow> bar list backtest" where
  "sample_bt bs = run_ops (setup_step logging_code) (new_backtest sample_bt_config (\<lambda>_. sample_order) 7 0) (sample_setup bs)"

definition sample_strategy :: "bar list strategy" where
  "sample_strategy = (new_strategy 7 0 \<lparr>sg_name = ''log'', sg_symbols = [sample_symbol], sg_parameters = [], sg_enabled = True\<rparr> [])
     \<lparr>st_state := RUNNING\<rparr>"

definition sample_started :: "bar list \<Rightarrow> bar list strategy_world" where
  "sample_started bs = snd (start_all logging_code (bt_strategies (sample_bt bs)))"

lemmas sample_bt_unfold = sample_started_def sample_bt_def sample_setup_def new_backtest_def load_historical_data_def
  bt_register_strategy_def register_strategy_class_def bt_add_strategy_def create_strategy_def construct_def Let_def
  new_strategy_manager_def logging_code_def logging_class_def sample_bt_config_def put_strategy_def set_add_def
  start_all_def strat_start_def no_hook_def new_strategy_def is_running_def subscribe_to_events_def add_handler_def

lemma sample_started_facts:
  "start_all logging_code (bt_strategies (sample_bt bs)) = (Inr 1, sample_started bs)"
  "dget (sw_objects (sample_started bs)) sample_sid = Some sample_strategy"
  "bar_handlers (sample_started bs) sample_sid sample_symbol = 1"
  by (simp_all add: sample_bt_unfold sample_strategy_def sample_sid_def bar_handlers_def bar_match_def)

lemma sample_strategy_facts: "is_running sample_strategy" "dget (st_data sample_strategy) (symbol_key sample_symbol) = Some []"
  by (simp_all add: sample_strategy_def is_running_def new_strategy_def dict_of_def)

lemma sample_bt_data:
  "dget (bt_data (sample_bt bs)) (symbol_key sample_symbol) =
     Some (sort_key b_timestamp (filter (\<lambda>b. 0 \<le> b_timestamp b \<and> b_timestamp b \<le> 100) bs))"
  by (simp add: sample_bt_unfold)

lemma sample_quiet: "quiet_stop logging_code"
  by (simp add: quiet_stop_def logging_code_def logging_class_def no_hook_def)

lemma sample_symbols: "distinct (map symbol_key (bc_symbols sample_bt_config))"
  "\<exists>sy' \<in> set (bc_symbols sample_bt_config). symbol_eq sy' sample_symbol"
  by (simp_all add: sample_bt_config_def symbol_eq_def)

lemma sample_own: "\<forall>b \<in> set bs. b_symbol b = sample_symbol \<Longrightarrow> list_all own_bars (sample_setup bs)"
  by (simp add: sample_setup_def symbol_eq_def)

lemma slice_last_short [simp]: "length xs \<le> 1000 \<Longrightarrow> slice_last 1000 xs = xs"
  by (simp add: slice_last_def)

lemma concat_singles [simp]: "concat (map (replicate (Suc 0)) xs) = xs"
  by (induction xs) simp_all

theorem backtest_history_witness:
  "\<exists>r bt' s'. bt_run utc_only logging_code int (sample_bt [sample_bar 6, sample_bar 5]) = (Inr r, bt') \<and>
     dget (sw_objects (bt_strategies bt')) sample_sid = Some s' \<and>
     dget (st_data s') (symbol_key sample_symbol) = Some [sample_bar 5, sample_bar 6]"
proof -
  let ?bs = "[sample_bar 6, sample_bar 5]"
  have own: "list_all own_bars (sample_setup ?bs)" by (rule sample_own) (simp add: sample_bar_def)
  have data: "dget (bt_data (sample_bt ?bs)) (symbol_key sample_symbol) = Some [sample_bar 5, sample_bar 6]"
    "distinct (map b_timestamp [sample_bar 5, sample_bar 6])"
    by (simp_all add: sample_bt_data sample_bar_def)
  from backtest_history [OF sample_bt_def own sample_leaves sample_quiet sample_symbols sample_started_facts(1,2)
      sample_strategy_facts data, of utc_only int]
  show ?thesis by (simp add: sample_started_facts)
qed

theorem duplicate_timestamp_stalls_witness:
  "\<exists>r bt' s' j. bt_run utc_only logging_code int (sample_bt [sample_bar 5, sample_bar 5, sample_bar 6]) = (Inr r, bt') \<and>
     dget (sw_objects (bt_strategies bt')) sample_sid = Some s' \<and> j \<le> 1 \<and>
     dget (st_data s') (symbol_key sample_symbol) = Some (take j [sample_bar 5, sample_bar 5, sample_bar 6])"
proof -
  let ?bs = "[sample_bar 5, sample_bar 5, sample_bar 6]"
  have own: "list_all own_bars (sample_setup ?bs)" by (rule sample_own) (simp add: sample_bar_def)
  have data: "dget (bt_data (sample_bt ?bs)) (symbol_key sample_symbol) = Some ?bs"
    by (simp add: sample_bt_data sample_bar_def)
  have dup: "Suc 0 < length ?bs" "b_timestamp (?bs ! 0) = b_timestamp (?bs ! Suc 0)" by simp_all
  have short: "slice_last 1000 (concat (map (replicate (bar_handlers (sample_started ?bs) sample_sid sample_symbol)) (take j ?bs))) = take j ?bs" for j
    by (simp add: sample_started_facts)
  from duplicate_timestamp_stalls [OF sample_bt_def own sample_leaves sample_quiet sample_symbols sample_started_facts(1,2)
      sample_strategy_facts data dup, of utc_only int, unfolded short]
  show ?thesis by simp
qed


end
