(* ===== verification/Trading_Engine.thy ===== *)
theory Trading_Engine
  imports Time_Keeper Event_Bus
begin

section \<open>The engine that hosts an algorithm (\<open>src/engine/engine.py\<close>)\<close>

text \<open>
  The parts of the engine are abstract classes (\<open>engine/interfaces.py\<close>): an algorithm, a data
  feed, a transaction handler, a result handler, a portfolio and a risk manager. An object is a
  number, and what the methods of the objects do to the world is a record of functions. The
  coroutines \<open>start\<close>, \<open>initialize\<close> and \<open>stop\<close> suspend while the feed connects or disconnects;
  what follows is a step of its own, and other calls may come in between.
\<close>

record i_symbol =
  iy_ticker :: string
  iy_security :: string
  iy_exchange :: string
  iy_currency :: string

datatype i_status = IS_PENDING | IS_SUBMITTED | IS_PARTIAL | IS_FILLED | IS_CANCELLED | IS_REJECTED | IS_EXPIRED

datatype i_order_type = IT_MARKET | IT_LIMIT | IT_STOP | IT_STOP_LIMIT | IT_TRAILING_STOP

record i_order =
  io_id :: string
  io_symbol :: i_symbol
  io_type :: i_order_type
  io_side :: string
  io_quantity :: dec
  io_price :: "dec option"
  io_stop_price :: "dec option"
  io_status :: i_status

record order_event =
  oe_order_id :: string
  oe_symbol :: i_symbol
  oe_status :: i_status
  oe_timestamp :: time
  oe_filled :: dec
  oe_price :: "dec option"
  oe_commission :: dec
  oe_message :: string

text \<open>The data of an event: none, an \<open>OrderEvent\<close>, or any other object.\<close>

datatype engine_payload = No_Data | Order_Data order_event | Other_Data nat

record 'w engine_parts =
  ep_construct :: "nat \<Rightarrow> 'w \<Rightarrow> 'w \<times> (exn + nat)"
  ep_initialize :: "nat \<Rightarrow> 'w \<Rightarrow> 'w \<times> exn option"
  ep_on_data :: "nat \<Rightarrow> engine_payload \<Rightarrow> 'w \<Rightarrow> 'w \<times> exn option"
  ep_on_order_event :: "nat \<Rightarrow> order_event \<Rightarrow> 'w \<Rightarrow> 'w \<times> exn option"
  ep_on_warmup_finished :: "nat \<Rightarrow> 'w \<Rightarrow> 'w \<times> exn option"
  ep_terminate :: "nat \<Rightarrow> string \<Rightarrow> 'w \<Rightarrow> 'w \<times> exn option"
  ep_set_algorithm :: "nat \<Rightarrow> nat \<Rightarrow> 'w \<Rightarrow> 'w \<times> exn option"
  ep_set_cash :: "nat \<Rightarrow> dec \<Rightarrow> 'w \<Rightarrow> 'w \<times> exn option"
  ep_process_fill :: "nat \<Rightarrow> order_event \<Rightarrow> 'w \<Rightarrow> 'w \<times> exn option"
  ep_within_limits :: "nat \<Rightarrow> nat option \<Rightarrow> 'w \<Rightarrow> 'w \<times> (exn + bool)"
  ep_process_order :: "nat \<Rightarrow> i_order \<Rightarrow> 'w \<Rightarrow> 'w \<times> (exn + order_event)"
  ep_cancel_order :: "nat \<Rightarrow> string \<Rightarrow> 'w \<Rightarrow> 'w \<times> (exn + order_event)"
  ep_connect :: "nat \<Rightarrow> 'w \<Rightarrow> 'w \<times> exn option"
  ep_disconnect :: "nat \<Rightarrow> 'w \<Rightarrow> 'w \<times> exn option"
  ep_is_connected :: "nat \<Rightarrow> 'w \<Rightarrow> 'w \<times> (exn + bool)"
  ep_others :: "hid \<Rightarrow> engine_payload event \<Rightarrow> 'w \<Rightarrow> 'w \<times> exn option"

datatype engine_state =
  ES_IDLE | ES_INITIALIZING | ES_WARMUP | ES_RUNNING | ES_PAUSED | ES_STOPPING | ES_STOPPED | ES_ERROR

datatype engine_task = Task_Keeper | Task_Bus | Task_Feed

text \<open>A suspended coroutine with the feed it waits for.\<close>

datatype engine_wait = Wait_Start nat | Wait_Initialize nat | Wait_Stop nat

record 'w engine =
  en_class :: "nat option"
  en_algorithm :: "nat option"
  en_feed :: "nat option"
  en_transactions :: "nat option"
  en_result_handler :: "nat option"
  en_portfolio :: "nat option"
  en_risk :: "nat option"
  en_backtest :: bool
  en_start_date :: "moment option"
  en_state :: engine_state
  en_bus :: "engine_payload event_bus"
  en_handler :: hid
  en_keeper :: "unit time_keeper"
  en_warmup_period :: int
  en_warming :: bool
  en_running :: bool
  en_tasks :: "(engine_task \<times> bool) list"
  en_waiting :: "engine_wait list"
  en_world :: 'w

subsection \<open>Events\<close>

text \<open>The engine's three handlers are the numbers from \<open>en_handler\<close>; all others belong to somebody else.\<close>

definition setup_event_handlers :: "'w engine \<Rightarrow> 'w engine" where
  "setup_event_handlers e =
     (let h = en_handler e
      in e\<lparr>en_bus := subscribe (subscribe (subscribe (en_bus e) TICK h False) BAR (h + 1) False) ORDER_FILLED (h + 2) False\<rparr>)"

definition engine_on_data :: "'w engine_parts \<Rightarrow> 'w engine \<Rightarrow> engine_payload event \<Rightarrow> 'w \<Rightarrow> 'w \<times> exn option" where
  "engine_on_data code e ev w =
     (case en_algorithm e of
        None \<Rightarrow> (w, None)
      | Some a \<Rightarrow> if \<not> en_warming e then ep_on_data code a (e_data ev) w else (w, None))"

text \<open>Statements in sequence: an exception skips the rest.\<close>

definition then_do :: "'w \<times> exn option \<Rightarrow> ('w \<Rightarrow> 'w \<times> exn option) \<Rightarrow> 'w \<times> exn option" where
  "then_do m f = (case m of (w, Some x) \<Rightarrow> (w, Some x) | (w, None) \<Rightarrow> f w)"

definition if_part :: "nat option \<Rightarrow> (nat \<Rightarrow> 'w \<Rightarrow> 'w \<times> exn option) \<Rightarrow> 'w \<Rightarrow> 'w \<times> exn option" where
  "if_part p f w = (case p of None \<Rightarrow> (w, None) | Some n \<Rightarrow> f n w)"

definition engine_on_order_filled :: "'w engine_parts \<Rightarrow> 'w engine \<Rightarrow> engine_payload event \<Rightarrow> 'w \<Rightarrow> 'w \<times> exn option" where
  "engine_on_order_filled code e ev w =
     (case e_data ev of
        Order_Data x \<Rightarrow>
          then_do (if_part (en_algorithm e) (\<lambda>a. ep_on_order_event code a x) w)
            (if_part (en_portfolio e) (\<lambda>p. ep_process_fill code p x))
      | _ \<Rightarrow> (w, None))"

definition engine_handler ::
  "'w engine_parts \<Rightarrow> 'w engine \<Rightarrow> hid \<Rightarrow> engine_payload event \<Rightarrow> 'w \<Rightarrow> 'w \<times> exn option" where
  "engine_handler code e h =
     (if h = en_handler e \<or> h = en_handler e + 1 then engine_on_data code e
      else if h = en_handler e + 2 then engine_on_order_filled code e
      else ep_others code h)"

definition publish :: "'w engine_parts \<Rightarrow> 'w engine \<Rightarrow> engine_payload event \<Rightarrow> 'w engine" where
  "publish code e ev = e\<lparr>en_world := fst (emit (engine_handler code e) (en_bus e) ev (en_world e))\<rparr>"

text \<open>An event of the engine itself, stamped by the time keeper; \<open>now\<close> is the clock of the system.\<close>

definition announce :: "'w engine_parts \<Rightarrow> 'w engine \<Rightarrow> event_type \<Rightarrow> engine_payload \<Rightarrow> time \<Rightarrow> 'w engine" where
  "announce code e t d now =
     (case current_time (en_keeper e) now of
        (ts, k) \<Rightarrow> publish code (e\<lparr>en_keeper := k\<rparr>) \<lparr>e_type = t, e_timestamp = ts, e_data = d, e_symbol = None\<rparr>)"

definition new_engine_object ::
  "pytz \<Rightarrow> string \<Rightarrow> nat option \<Rightarrow> nat option \<Rightarrow> nat option \<Rightarrow> nat option \<Rightarrow> nat option \<Rightarrow> nat option \<Rightarrow> bool \<Rightarrow> moment option \<Rightarrow>
   engine_payload event_bus \<Rightarrow> hid \<Rightarrow> time \<Rightarrow> 'w \<Rightarrow> exn + 'w engine" where
  "new_engine_object pz zone cls feed th rh pf rm is_bt start_date bus h now w =
     and_then (new_time_keeper pz zone is_bt TM_LIVE now ()) (\<lambda>k.
       Inr (setup_event_handlers
         \<lparr>en_class = cls, en_algorithm = None, en_feed = feed, en_transactions = th, en_result_handler = rh, en_portfolio = pf,
          en_risk = rm, en_backtest = is_bt, en_start_date = start_date, en_state = ES_IDLE, en_bus = bus, en_handler = h,
          en_keeper = k, en_warmup_period = 0, en_warming = False, en_running = False, en_tasks = [], en_waiting = [],
          en_world = w\<rparr>))"

subsection \<open>Initialization\<close>

text \<open>The part of \<open>initialize\<close> after the feed is connected.\<close>

definition initialize_parts :: "'w engine_parts \<Rightarrow> 'w engine \<Rightarrow> 'w engine \<times> exn option" where
  "initialize_parts code e =
     (let (e1, r1) =
        (case en_class e of
           None \<Rightarrow> (e, None)
         | Some c \<Rightarrow>
             (case ep_construct code c (en_world e) of
                (w, Inl x) \<Rightarrow> (e\<lparr>en_world := w\<rparr>, Some x)
              | (w, Inr a) \<Rightarrow>
                  (case then_do (ep_initialize code a w) (if_part (en_result_handler e) (\<lambda>h. ep_set_algorithm code h a)) of
                     (w1, r) \<Rightarrow> (e\<lparr>en_algorithm := Some a, en_world := w1\<rparr>, r))))
      in case r1 of
           Some x \<Rightarrow> (e1, Some x)
         | None \<Rightarrow>
             (case if_part (en_portfolio e1) (\<lambda>p. ep_set_cash code p (dec_int 100000)) (en_world e1) of
                (w, r) \<Rightarrow> (e1\<lparr>en_world := w\<rparr>, r)))"

text \<open>The result of \<open>initialize\<close>, whose \<open>except\<close> covers all of it.\<close>

definition initialize_finish :: "'w engine_parts \<Rightarrow> 'w engine \<Rightarrow> exn option \<Rightarrow> 'w engine \<times> bool" where
  "initialize_finish code e r =
     (case r of
        Some x \<Rightarrow> (e\<lparr>en_state := ES_ERROR\<rparr>, False)
      | None \<Rightarrow>
          (case initialize_parts code e of
             (e1, Some x) \<Rightarrow> (e1\<lparr>en_state := ES_ERROR\<rparr>, False)
           | (e1, None) \<Rightarrow> (e1, True)))"

definition engine_initialize :: "'w engine_parts \<Rightarrow> 'w engine \<Rightarrow> 'w engine \<times> bool option" where
  "engine_initialize code e =
     (let e1 = e\<lparr>en_state := ES_INITIALIZING\<rparr>
      in case en_feed e of
           None \<Rightarrow> (case initialize_finish code e1 None of (e2, ok) \<Rightarrow> (e2, Some ok))
         | Some f \<Rightarrow> (e1\<lparr>en_waiting := en_waiting e1 @ [Wait_Initialize f]\<rparr>, None))"

subsection \<open>Start and stop\<close>

definition warmup :: "pytz \<Rightarrow> 'w engine_parts \<Rightarrow> 'w engine \<Rightarrow> int \<Rightarrow> time \<Rightarrow> 'w engine \<times> exn option" where
  "warmup pz code e period now =
     (if \<not> en_backtest e then (e, None)
      else
        (let e1 = announce code (e\<lparr>en_warming := True, en_warmup_period := period, en_state := ES_WARMUP\<rparr>) WARMUP_STARTED No_Data now;
             m = (case en_start_date e of None \<Rightarrow> Naive (now - period) | Some (Naive d) \<Rightarrow> Naive (d - period) | Some (Aware t) \<Rightarrow> Aware (t - period))
         in case set_time pz (en_keeper e1) m of
              Inl x \<Rightarrow> (e1, Some x)
            | Inr k \<Rightarrow>
                (let e2 = announce code (e1\<lparr>en_keeper := k, en_warming := False, en_state := ES_RUNNING\<rparr>) WARMUP_FINISHED No_Data now
                 in case if_part (en_algorithm e2) (ep_on_warmup_finished code) (en_world e2) of
                      (w, r) \<Rightarrow> (e2\<lparr>en_world := w\<rparr>, r))))"

text \<open>The part of \<open>start\<close> after \<open>initialize\<close>, which awaits nothing.\<close>

definition start_finish :: "pytz \<Rightarrow> 'w engine_parts \<Rightarrow> 'w engine \<Rightarrow> bool \<Rightarrow> time \<Rightarrow> 'w engine \<times> exn option" where
  "start_finish pz code e ok now =
     (if \<not> ok then (e, None)
      else
        (case (if en_backtest e then warmup pz code e (en_warmup_period e) now else (e, None)) of
           (e1, Some x) \<Rightarrow> (e1, Some x)
         | (e1, None) \<Rightarrow>
             (let e2 = announce code (e1\<lparr>en_state := ES_RUNNING, en_running := True\<rparr>) START No_Data now
              in (e2\<lparr>en_tasks := en_tasks e2 @ [(Task_Keeper, False), (Task_Bus, False)] @
                     (if en_feed e2 = None then [] else [(Task_Feed, False)])\<rparr>, None))))"

definition engine_start :: "pytz \<Rightarrow> 'w engine_parts \<Rightarrow> 'w engine \<Rightarrow> time \<Rightarrow> 'w engine \<times> exn option" where
  "engine_start pz code e now =
     (if en_state e = ES_RUNNING \<or> en_state e = ES_WARMUP then (e, None)
      else
        (let e1 = e\<lparr>en_state := ES_INITIALIZING\<rparr>
         in case en_feed e of
              None \<Rightarrow> (case initialize_finish code e1 None of (e2, ok) \<Rightarrow> start_finish pz code e2 ok now)
            | Some f \<Rightarrow> (e1\<lparr>en_waiting := en_waiting e1 @ [Wait_Start f]\<rparr>, None)))"

definition stop_finish :: "'w engine_parts \<Rightarrow> 'w engine \<Rightarrow> exn option \<Rightarrow> time \<Rightarrow> 'w engine \<times> exn option" where
  "stop_finish code e r now =
     (case r of
        Some x \<Rightarrow> (e, Some x)
      | None \<Rightarrow>
          (case if_part (en_algorithm e) (\<lambda>a. ep_terminate code a ''Engine stopped'') (en_world e) of
             (w, Some x) \<Rightarrow> (e\<lparr>en_world := w\<rparr>, Some x)
           | (w, None) \<Rightarrow>
               (announce code
                  (e\<lparr>en_world := w, en_bus := bus_stop (en_bus e), en_keeper := tk_stop (en_keeper e), en_state := ES_STOPPED\<rparr>)
                  STOP_EVENT No_Data now, None)))"

definition engine_stop :: "'w engine_parts \<Rightarrow> 'w engine \<Rightarrow> time \<Rightarrow> 'w engine \<times> exn option" where
  "engine_stop code e now =
     (if en_state e = ES_STOPPED then (e, None)
      else
        (let e1 = e\<lparr>en_state := ES_STOPPING, en_running := False, en_tasks := map (\<lambda>(t, c). (t, True)) (en_tasks e)\<rparr>
         in case en_feed e of
              None \<Rightarrow> stop_finish code e1 None now
            | Some f \<Rightarrow> (e1\<lparr>en_waiting := en_waiting e1 @ [Wait_Stop f]\<rparr>, None)))"

text \<open>The feed answers the coroutine that has waited at position \<open>i\<close>, which goes on.\<close>

definition feed_answers :: "pytz \<Rightarrow> 'w engine_parts \<Rightarrow> 'w engine \<Rightarrow> nat \<Rightarrow> time \<Rightarrow> 'w engine \<times> exn option" where
  "feed_answers pz code e i now =
     (if i < length (en_waiting e)
      then
        (let e1 = e\<lparr>en_waiting := take i (en_waiting e) @ drop (Suc i) (en_waiting e)\<rparr>
         in case en_waiting e ! i of
              Wait_Start f \<Rightarrow>
                (case ep_connect code f (en_world e1) of
                   (w, r) \<Rightarrow>
                     (case initialize_finish code (e1\<lparr>en_world := w\<rparr>) r of (e2, ok) \<Rightarrow> start_finish pz code e2 ok now))
            | Wait_Initialize f \<Rightarrow>
                (case ep_connect code f (en_world e1) of (w, r) \<Rightarrow> (fst (initialize_finish code (e1\<lparr>en_world := w\<rparr>) r), None))
            | Wait_Stop f \<Rightarrow>
                (case ep_disconnect code f (en_world e1) of (w, r) \<Rightarrow> stop_finish code (e1\<lparr>en_world := w\<rparr>) r now))
      else (e, None))"

text \<open>A task that was created and not cancelled begins: the time keeper and the bus start to run.\<close>

definition task_begins :: "'w engine \<Rightarrow> nat \<Rightarrow> 'w engine" where
  "task_begins e i =
     (if i < length (en_tasks e) \<and> \<not> snd (en_tasks e ! i)
      then
        (case fst (en_tasks e ! i) of
           Task_Keeper \<Rightarrow> e\<lparr>en_keeper := tk_run (\<lambda>_ k. (k, None)) (en_keeper e) []\<rparr>
         | Task_Bus \<Rightarrow> e\<lparr>en_bus := bus_start (en_bus e)\<rparr>
         | Task_Feed \<Rightarrow> e)
      else e)"

text \<open>One round of \<open>_run_data_feed\<close>; what it raises is caught.\<close>

definition feed_round :: "'w engine_parts \<Rightarrow> 'w engine \<Rightarrow> 'w engine" where
  "feed_round code e =
     (if \<not> en_running e then e
      else
        (case en_feed e of
           None \<Rightarrow> e
         | Some f \<Rightarrow>
             (case ep_is_connected code f (en_world e) of
                (w, Inr False) \<Rightarrow> e\<lparr>en_world := fst (ep_connect code f w)\<rparr>
              | (w, _) \<Rightarrow> e\<lparr>en_world := w\<rparr>)))"

definition engine_pause :: "'w engine \<Rightarrow> 'w engine" where
  "engine_pause e = (if en_state e = ES_RUNNING then e\<lparr>en_state := ES_PAUSED\<rparr> else e)"

definition engine_resume :: "'w engine \<Rightarrow> 'w engine" where
  "engine_resume e = (if en_state e = ES_PAUSED then e\<lparr>en_state := ES_RUNNING\<rparr> else e)"

subsection \<open>Orders\<close>

definition engine_submit_order :: "'w engine_parts \<Rightarrow> 'w engine \<Rightarrow> i_order \<Rightarrow> time \<Rightarrow> 'w engine \<times> exn option" where
  "engine_submit_order code e order now =
     (if en_state e \<noteq> ES_RUNNING then (e, None)
      else
        (let (w, r) = (case en_risk e of None \<Rightarrow> (en_world e, Inr True) | Some m \<Rightarrow> ep_within_limits code m (en_portfolio e) (en_world e));
             e1 = e\<lparr>en_world := w\<rparr>
         in case r of
              Inl x \<Rightarrow> (e1, Some x)
            | Inr ok \<Rightarrow>
                if \<not> ok then (e1, None)
                else
                  (case en_transactions e of
                     None \<Rightarrow> (e1, None)
                   | Some t \<Rightarrow>
                       (case ep_process_order code t order w of
                          (w1, Inl x) \<Rightarrow> (e1\<lparr>en_world := w1\<rparr>, Some x)
                        | (w1, Inr ev) \<Rightarrow> (announce code (e1\<lparr>en_world := w1\<rparr>) ORDER_SUBMITTED (Order_Data ev) now, None)))))"

definition engine_cancel_order :: "'w engine_parts \<Rightarrow> 'w engine \<Rightarrow> string \<Rightarrow> time \<Rightarrow> 'w engine \<times> exn option" where
  "engine_cancel_order code e oid now =
     (case en_transactions e of
        None \<Rightarrow> (e, None)
      | Some t \<Rightarrow>
          (case ep_cancel_order code t oid (en_world e) of
             (w, Inl x) \<Rightarrow> (e\<lparr>en_world := w\<rparr>, Some x)
           | (w, Inr ev) \<Rightarrow> (announce code (e\<lparr>en_world := w\<rparr>) ORDER_CANCELLED (Order_Data ev) now, None)))"

definition engine_is_running :: "'w engine \<Rightarrow> bool" where
  "engine_is_running e \<longleftrightarrow> en_running e \<and> en_state e = ES_RUNNING"

text \<open>The setters.\<close>

datatype engine_part = Set_Class nat | Set_Feed nat | Set_Transactions nat | Set_Result_Handler nat | Set_Portfolio nat

fun set_part :: "'w engine \<Rightarrow> engine_part \<Rightarrow> 'w engine" where
  "set_part e (Set_Class c) = e\<lparr>en_class := Some c\<rparr>"
| "set_part e (Set_Feed f) = e\<lparr>en_feed := Some f\<rparr>"
| "set_part e (Set_Transactions t) = e\<lparr>en_transactions := Some t\<rparr>"
| "set_part e (Set_Result_Handler h) = e\<lparr>en_result_handler := Some h\<rparr>"
| "set_part e (Set_Portfolio p) = e\<lparr>en_portfolio := Some p\<rparr>"

definition set_warmup_period :: "'w engine \<Rightarrow> int \<Rightarrow> 'w engine" where
  "set_warmup_period e period = e\<lparr>en_warmup_period := period\<rparr>"

section \<open>Lemmas\<close>

subsection \<open>Operations and their runs\<close>

datatype engine_op =
    EO_Start time
  | EO_Initialize
  | EO_Warmup int time
  | EO_Stop time
  | EO_Answer nat time
  | EO_Task nat
  | EO_Feed_Round
  | EO_Pause
  | EO_Resume
  | EO_Submit i_order time
  | EO_Cancel string time
  | EO_Event "engine_payload event"
  | EO_Set engine_part
  | EO_Warmup_Period int

fun engine_step :: "pytz \<Rightarrow> 'w engine_parts \<Rightarrow> 'w engine \<Rightarrow> engine_op \<Rightarrow> 'w engine" where
  "engine_step pz code e (EO_Start now) = fst (engine_start pz code e now)"
| "engine_step pz code e EO_Initialize = fst (engine_initialize code e)"
| "engine_step pz code e (EO_Warmup period now) = fst (warmup pz code e period now)"
| "engine_step pz code e (EO_Stop now) = fst (engine_stop code e now)"
| "engine_step pz code e (EO_Answer i now) = fst (feed_answers pz code e i now)"
| "engine_step pz code e (EO_Task i) = task_begins e i"
| "engine_step pz code e EO_Feed_Round = feed_round code e"
| "engine_step pz code e EO_Pause = engine_pause e"
| "engine_step pz code e EO_Resume = engine_resume e"
| "engine_step pz code e (EO_Submit x now) = fst (engine_submit_order code e x now)"
| "engine_step pz code e (EO_Cancel oid now) = fst (engine_cancel_order code e oid now)"
| "engine_step pz code e (EO_Event ev) = publish code e ev"
| "engine_step pz code e (EO_Set p) = set_part e p"
| "engine_step pz code e (EO_Warmup_Period period) = set_warmup_period e period"

subsection \<open>What announcing and initializing leave alone\<close>

lemma publish_frame [simp]:
  "en_state (publish code e ev) = en_state e" "en_running (publish code e ev) = en_running e"
  "en_tasks (publish code e ev) = en_tasks e" "en_warming (publish code e ev) = en_warming e"
  "en_keeper (publish code e ev) = en_keeper e" "en_backtest (publish code e ev) = en_backtest e"
  "en_bus (publish code e ev) = en_bus e" "en_handler (publish code e ev) = en_handler e"
  "en_feed (publish code e ev) = en_feed e" "en_waiting (publish code e ev) = en_waiting e"
  "en_algorithm (publish code e ev) = en_algorithm e" "en_class (publish code e ev) = en_class e" "en_portfolio (publish code e ev) = en_portfolio e"
  "en_result_handler (publish code e ev) = en_result_handler e" "en_risk (publish code e ev) = en_risk e" "en_transactions (publish code e ev) = en_transactions e"
  "en_warmup_period (publish code e ev) = en_warmup_period e"
  by (simp_all add: publish_def)

lemma announce_frame [simp]:
  "en_state (announce code e t d now) = en_state e" "en_running (announce code e t d now) = en_running e"
  "en_tasks (announce code e t d now) = en_tasks e" "en_warming (announce code e t d now) = en_warming e"
  "tk_backtest (en_keeper (announce code e t d now)) = tk_backtest (en_keeper e)" "en_backtest (announce code e t d now) = en_backtest e"
  "en_bus (announce code e t d now) = en_bus e" "en_handler (announce code e t d now) = en_handler e"
  "en_feed (announce code e t d now) = en_feed e" "en_waiting (announce code e t d now) = en_waiting e"
  "en_algorithm (announce code e t d now) = en_algorithm e" "en_class (announce code e t d now) = en_class e" "en_portfolio (announce code e t d now) = en_portfolio e"
  "en_result_handler (announce code e t d now) = en_result_handler e" "en_risk (announce code e t d now) = en_risk e" "en_transactions (announce code e t d now) = en_transactions e"
  "en_warmup_period (announce code e t d now) = en_warmup_period e"
  by (simp_all add: announce_def current_time_def Let_def)

lemma initialize_parts_frame [simp]:
  "en_running (fst (initialize_parts code e)) = en_running e" "en_tasks (fst (initialize_parts code e)) = en_tasks e"
  "en_warming (fst (initialize_parts code e)) = en_warming e" "en_keeper (fst (initialize_parts code e)) = en_keeper e"
  "en_backtest (fst (initialize_parts code e)) = en_backtest e" "en_bus (fst (initialize_parts code e)) = en_bus e"
  "en_handler (fst (initialize_parts code e)) = en_handler e" "en_feed (fst (initialize_parts code e)) = en_feed e"
  "en_state (fst (initialize_parts code e)) = en_state e" "en_waiting (fst (initialize_parts code e)) = en_waiting e"
  by (auto simp: initialize_parts_def Let_def split: option.splits prod.splits sum.splits)

lemma initialize_finish_frame [simp]:
  "en_running (fst (initialize_finish code e r)) = en_running e" "en_tasks (fst (initialize_finish code e r)) = en_tasks e"
  "en_warming (fst (initialize_finish code e r)) = en_warming e" "en_keeper (fst (initialize_finish code e r)) = en_keeper e"
  "en_backtest (fst (initialize_finish code e r)) = en_backtest e" "en_bus (fst (initialize_finish code e r)) = en_bus e"
  "en_handler (fst (initialize_finish code e r)) = en_handler e" "en_feed (fst (initialize_finish code e r)) = en_feed e"
  "en_waiting (fst (initialize_finish code e r)) = en_waiting e"
  using initialize_parts_frame [of code e]
  by (cases "initialize_parts code e"; simp add: initialize_finish_def split: option.split)+

subsection \<open>The invariant\<close>

text \<open>
  Exactly while the engine is marked as running it has a background task that is not cancelled;
  no operation ends while it is warming up; its three handlers stay on the bus.
\<close>

definition live_task :: "'w engine \<Rightarrow> bool" where
  "live_task e \<longleftrightarrow> (\<exists>x \<in> set (en_tasks e). \<not> snd x)"

definition own_handlers :: "'w engine \<Rightarrow> event_type \<Rightarrow> hid list" where
  "own_handlers e t = (let h = en_handler e in if t = TICK then [h] else if t = BAR then [h + 1] else if t = ORDER_FILLED then [h + 2] else [])"

definition engine_inv :: "'w engine \<Rightarrow> bool" where
  "engine_inv e \<longleftrightarrow> (en_running e \<longleftrightarrow> live_task e) \<and> \<not> en_warming e \<and> tk_backtest (en_keeper e) = en_backtest e \<and>
     eb_global (en_bus e) = [] \<and> (\<forall>t. handlers_of (eb_handlers (en_bus e)) t = own_handlers e t)"

lemma inv_new:
  "new_engine_object pz zone cls feed th rh pf rm is_bt sd empty_bus h now w = Inr e \<Longrightarrow> engine_inv e"
  by (auto simp: new_engine_object_def and_then_Inr_iff new_time_keeper_def setup_event_handlers_def Let_def engine_inv_def
      live_task_def own_handlers_def subscribe_def empty_bus_def handlers_of_def)

lemma inv_cong:
  "engine_inv e \<Longrightarrow> en_running e' = en_running e \<Longrightarrow> en_tasks e' = en_tasks e \<Longrightarrow> en_warming e' = en_warming e \<Longrightarrow>
   tk_backtest (en_keeper e') = tk_backtest (en_keeper e) \<Longrightarrow> en_backtest e' = en_backtest e \<Longrightarrow>
   eb_global (en_bus e') = eb_global (en_bus e) \<Longrightarrow> eb_handlers (en_bus e') = eb_handlers (en_bus e) \<Longrightarrow>
   en_handler e' = en_handler e \<Longrightarrow> engine_inv e'"
  by (simp add: engine_inv_def live_task_def own_handlers_def Let_def)

lemma warmup_frame:
  assumes "tk_backtest (en_keeper e) = en_backtest e" "\<not> en_warming e"
  shows "en_running (fst (warmup pz code e period now)) = en_running e" "en_tasks (fst (warmup pz code e period now)) = en_tasks e"
    "en_warming (fst (warmup pz code e period now)) = en_warming e"
    "tk_backtest (en_keeper (fst (warmup pz code e period now))) = tk_backtest (en_keeper e)"
    "en_backtest (fst (warmup pz code e period now)) = en_backtest e" "en_bus (fst (warmup pz code e period now)) = en_bus e"
    "en_handler (fst (warmup pz code e period now)) = en_handler e" "en_feed (fst (warmup pz code e period now)) = en_feed e"
    "en_waiting (fst (warmup pz code e period now)) = en_waiting e"
  using assms
  by (auto simp: warmup_def Let_def set_time_def notify_time_changed_def split: prod.split)

lemma inv_warmup: "engine_inv e \<Longrightarrow> engine_inv (fst (warmup pz code e period now))"
  by (rule inv_cong) (simp_all add: warmup_frame engine_inv_def)

lemma inv_start_finish:
  assumes "engine_inv e"
  shows "engine_inv (fst (start_finish pz code e ok now))"
proof (cases ok)
  case True
  define r where "r = (if en_backtest e then warmup pz code e (en_warmup_period e) now else (e, None))"
  have i: "engine_inv (fst r)" using assms inv_warmup [OF assms] by (simp add: r_def)
  obtain e1 x where r: "r = (e1, x)" by (cases r)
  show ?thesis
  proof (cases x)
    case None
    with r have "start_finish pz code e ok now = (let e2 = announce code (e1\<lparr>en_state := ES_RUNNING, en_running := True\<rparr>) START No_Data now
        in (e2\<lparr>en_tasks := en_tasks e2 @ [(Task_Keeper, False), (Task_Bus, False)] @
             (if en_feed e2 = None then [] else [(Task_Feed, False)])\<rparr>, None))"
      using True unfolding start_finish_def r_def [symmetric] by simp
    then show ?thesis using i r by (simp add: Let_def engine_inv_def live_task_def own_handlers_def)
  next
    case (Some y)
    with r have "start_finish pz code e ok now = (e1, Some y)" using True unfolding start_finish_def r_def [symmetric] by simp
    with i r show ?thesis by simp
  qed
qed (use assms in \<open>simp add: start_finish_def\<close>)

lemma inv_initialize_finish: "engine_inv e \<Longrightarrow> engine_inv (fst (initialize_finish code e r))"
  by (rule inv_cong) simp_all

lemma inv_stop_finish: "engine_inv e \<Longrightarrow> engine_inv (fst (stop_finish code e r now))"
  by (auto simp: stop_finish_def bus_stop_def tk_stop_def split: option.split prod.split elim: inv_cong)

lemma inv_step: "engine_inv e \<Longrightarrow> engine_inv (engine_step pz code e x)"
proof (cases x)
  case (EO_Start now)
  assume i: "engine_inv e"
  then have "engine_inv (e\<lparr>en_state := ES_INITIALIZING\<rparr>)" by (rule inv_cong) simp_all
  from inv_start_finish [OF inv_initialize_finish [OF this]] i show ?thesis
    by (auto simp: EO_Start engine_start_def Let_def split: option.split prod.split elim: inv_cong)
      (metis fst_conv)
next
  case EO_Initialize
  assume i: "engine_inv e"
  then have "engine_inv (e\<lparr>en_state := ES_INITIALIZING\<rparr>)" by (rule inv_cong) simp_all
  from inv_initialize_finish [OF this] i show ?thesis
    by (auto simp: EO_Initialize engine_initialize_def Let_def split: option.split prod.split elim: inv_cong) (metis fst_conv)
next
  case (EO_Stop now)
  assume i: "engine_inv e"
  then have j: "engine_inv (e\<lparr>en_state := ES_STOPPING, en_running := False, en_tasks := map (\<lambda>(t, c). (t, True)) (en_tasks e)\<rparr>)"
    by (auto simp: engine_inv_def live_task_def own_handlers_def)
  from inv_stop_finish [OF j, of code None now] i show ?thesis
    by (auto simp: EO_Stop engine_stop_def Let_def split: option.split intro!: inv_cong [OF j])
next
  case (EO_Answer k now)
  assume i: "engine_inv e"
  have c: "engine_inv (e\<lparr>en_waiting := ws, en_world := w\<rparr>)" for ws w by (rule inv_cong [OF i]) simp_all
  show ?thesis
    using i inv_start_finish [OF inv_initialize_finish [OF c]] inv_initialize_finish [OF c] inv_stop_finish [OF c]
    by (auto simp: EO_Answer feed_answers_def Let_def split: engine_wait.split prod.split) (metis fst_conv)
next
  case (EO_Set p)
  assume "engine_inv e"
  then show ?thesis unfolding EO_Set by (cases p) (auto elim: inv_cong)
qed (auto simp: task_begins_def feed_round_def engine_pause_def engine_resume_def engine_submit_order_def engine_cancel_order_def
    Let_def set_warmup_period_def tk_run_def bus_start_def inv_warmup split: option.split prod.split sum.split engine_task.split bool.split
    elim!: inv_cong)

interpretation engine: run_system "engine_step pz code" "\<lambda>_ _. True" engine_inv for pz code
  by unfold_locales (rule inv_step)

lemma inv_run: "engine_inv e \<Longrightarrow> engine_inv (run_ops (engine_step pz code) e xs)"
  by (rule engine.run_inv) simp_all

section \<open>Properties of the engine\<close>

text \<open>C27. Under any interleaving of calls and of answers of the feed, the engine is marked as running
  exactly while it has a background task that is not cancelled, and no call leaves it warming up.\<close>

theorem engine_running_iff_tasks:
  assumes "new_engine_object pz zone cls feed th rh pf rm is_bt sd empty_bus h now w = Inr e0"
    and "e = run_ops (engine_step pz code) e0 xs"
  shows "(en_running e \<longleftrightarrow> (\<exists>x \<in> set (en_tasks e). \<not> snd x)) \<and> \<not> en_warming e"
  using inv_run [OF inv_new [OF assms(1)], of pz code xs] assms(2) by (simp add: engine_inv_def live_task_def)


text \<open>Starting a paused engine initializes it once more: the algorithm is constructed anew, the
  portfolio gets its initial cash again, and a second set of background tasks joins the first,
  which keeps running.\<close>

theorem start_of_paused_engine:
  assumes "en_state e = ES_PAUSED" "en_feed e = None" "\<not> en_backtest e" "en_class e = Some c" "en_portfolio e = Some p" "en_result_handler e = None"
    and "ep_construct code c (en_world e) = (w1, Inr a)" "ep_initialize code a w1 = (w2, None)" "ep_set_cash code p (dec_int 100000) w2 = (w3, None)"
    and "e' = engine_step pz code e (EO_Start now)"
  shows "en_algorithm e' = Some a \<and> en_state e' = ES_RUNNING \<and> en_tasks e' = en_tasks e @ [(Task_Keeper, False), (Task_Bus, False)]"
  using assms
  by (simp add: engine_start_def Let_def initialize_finish_def initialize_parts_def then_do_def if_part_def start_finish_def)

text \<open>A stop that comes while start waits for the feed does not stop the engine: when the feed has
  answered both, the engine runs, with tasks that nothing has cancelled.\<close>

theorem stop_during_start_is_lost:
  assumes "en_state e = ES_IDLE" "en_feed e = Some f" "en_class e = None" "en_algorithm e = None" "en_portfolio e = None"
    and "\<not> en_backtest e" "en_waiting e = []"
    and "\<And>w. snd (ep_connect code f w) = None" "\<And>w. snd (ep_disconnect code f w) = None"
    and "e' = run_ops (engine_step pz code) e [EO_Start t0, EO_Stop t1, EO_Answer 1 t2, EO_Answer 0 t3]"
  shows "en_state e' = ES_RUNNING \<and> engine_is_running e' \<and> (Task_Feed, False) \<in> set (en_tasks e') \<and> en_waiting e' = []"
proof -
  have "\<exists>g. \<forall>w. ep_connect code f w = (g w, None)" by (rule exI [of _ "\<lambda>w. fst (ep_connect code f w)"]) (simp add: prod_eq_iff assms(8))
  moreover have "\<exists>g. \<forall>w. ep_disconnect code f w = (g w, None)"
    by (rule exI [of _ "\<lambda>w. fst (ep_disconnect code f w)"]) (simp add: prod_eq_iff assms(9))
  ultimately obtain g g' where c: "\<And>w. ep_connect code f w = (g w, None)" "\<And>w. ep_disconnect code f w = (g' w, None)" by blast
  define e1 where "e1 = engine_step pz code e (EO_Start t0)"
  have e1: "e1 = e\<lparr>en_state := ES_INITIALIZING, en_waiting := [Wait_Start f]\<rparr>"
    unfolding e1_def using assms(1,2,7) by (simp add: engine_start_def Let_def)
  define e2 where "e2 = engine_step pz code e1 (EO_Stop t1)"
  have e2: "en_state e2 = ES_STOPPING" "en_feed e2 = Some f" "en_class e2 = None" "en_algorithm e2 = None" "en_portfolio e2 = None"
    "\<not> en_backtest e2" "en_waiting e2 = [Wait_Start f, Wait_Stop f]"
    unfolding e2_def e1 using assms(2-6) by (simp_all add: engine_stop_def Let_def)
  define e3 where "e3 = engine_step pz code e2 (EO_Answer 1 t2)"
  have e3: "en_state e3 = ES_STOPPED" "en_feed e3 = Some f" "en_class e3 = None" "en_portfolio e3 = None"
    "\<not> en_backtest e3" "en_waiting e3 = [Wait_Start f]"
    unfolding e3_def using e2 by (simp_all add: feed_answers_def Let_def c stop_finish_def if_part_def)
  have "e' = engine_step pz code e3 (EO_Answer 0 t3)" unfolding assms(10) by (simp add: e1_def e2_def e3_def)
  moreover have "initialize_finish code e3' None = (e3', True)" if "en_class e3' = None" "en_portfolio e3' = None" for e3'
    using that by (simp add: initialize_finish_def initialize_parts_def if_part_def)
  ultimately show ?thesis
    using e3 by (simp add: feed_answers_def Let_def c start_finish_def engine_is_running_def)
qed

text \<open>A stop that is not disturbed cancels every task, terminates the algorithm and ends in the state
  STOPPED; stopping once more changes nothing, and no order is accepted afterwards.\<close>

theorem stop_is_complete:
  assumes "en_feed e = None" "en_algorithm e = Some a" "ep_terminate code a ''Engine stopped'' (en_world e) = (w1, None)"
    and "e1 = engine_step pz code e (EO_Stop now)" "en_state e \<noteq> ES_STOPPED"
  shows "en_state e1 = ES_STOPPED \<and> \<not> en_running e1 \<and> list_all snd (en_tasks e1) \<and> map fst (en_tasks e1) = map fst (en_tasks e) \<and>
    \<not> eb_running (en_bus e1) \<and> engine_step pz code e1 (EO_Stop now') = e1 \<and> engine_step pz code e1 (EO_Submit x now') = e1"
  using assms
  by (simp add: engine_stop_def stop_finish_def if_part_def Let_def engine_submit_order_def bus_stop_def list_all_iff split: prod.splits)

section \<open>A concrete engine\<close>

text \<open>Parts that log their calls.\<close>

definition logged :: "string \<Rightarrow> string list \<Rightarrow> string list \<times> exn option" where
  "logged name w = (w @ [name], None)"

definition logging_parts :: "string list engine_parts" where
  "logging_parts =
     \<lparr>ep_construct = (\<lambda>c w. (w @ [''construct''], Inr 5)), ep_initialize = (\<lambda>_. logged ''initialize''),
      ep_on_data = (\<lambda>_ _. logged ''on_data''), ep_on_order_event = (\<lambda>_ _. logged ''on_order_event''),
      ep_on_warmup_finished = (\<lambda>_. logged ''on_warmup_finished''), ep_terminate = (\<lambda>_ _. logged ''terminate''),
      ep_set_algorithm = (\<lambda>_ _. logged ''set_algorithm''), ep_set_cash = (\<lambda>_ _. logged ''set_cash''),
      ep_process_fill = (\<lambda>_ _. logged ''process_fill''), ep_within_limits = (\<lambda>_ _ w. (w, Inr True)),
      ep_process_order = (\<lambda>_ _ w. (w, Inl RuntimeError)), ep_cancel_order = (\<lambda>_ _ w. (w, Inl RuntimeError)),
      ep_connect = (\<lambda>_. logged ''connect''), ep_disconnect = (\<lambda>_. logged ''disconnect''),
      ep_is_connected = (\<lambda>_ w. (w, Inr True)), ep_others = (\<lambda>_ _ w. (w, None))\<rparr>"

definition logging_engine :: "nat option \<Rightarrow> nat option \<Rightarrow> nat option \<Rightarrow> string list engine" where
  "logging_engine cls feed pf =
     setup_event_handlers
       \<lparr>en_class = cls, en_algorithm = None, en_feed = feed, en_transactions = None, en_result_handler = None, en_portfolio = pf,
        en_risk = None, en_backtest = False, en_start_date = None, en_state = ES_IDLE, en_bus = empty_bus, en_handler = 0,
        en_keeper = \<lparr>tk_timezone = ''UTC'', tk_mode = TM_LIVE, tk_backtest = False, tk_current = 0, tk_start = 0, tk_schedules = [],
          tk_objects = [], tk_running = False, tk_stop_event = False, tk_on_change = [], tk_world = ()\<rparr>,
        en_warmup_period = 0, en_warming = False, en_running = False, en_tasks = [], en_waiting = [], en_world = []\<rparr>"

lemma new_logging_engine:
  "new_engine_object utc_only ''UTC'' cls feed None None pf None False None empty_bus 0 0 [] = Inr (logging_engine cls feed pf)"
  by (simp add: logging_engine_def new_engine_object_def new_time_keeper_def timezone_def utc_only_def)

lemma logging_engine_fields [simp]:
  "en_class (logging_engine cls feed pf) = cls" "en_feed (logging_engine cls feed pf) = feed"
  "en_portfolio (logging_engine cls feed pf) = pf" "en_algorithm (logging_engine cls feed pf) = None"
  "en_state (logging_engine cls feed pf) = ES_IDLE" "en_waiting (logging_engine cls feed pf) = []"
  "en_tasks (logging_engine cls feed pf) = []" "en_world (logging_engine cls feed pf) = []"
  "\<not> en_backtest (logging_engine cls feed pf)" "en_result_handler (logging_engine cls feed pf) = None"
  by (simp_all add: logging_engine_def setup_event_handlers_def Let_def)

theorem engine_running_iff_tasks_witness:
  "\<not> en_warming (run_ops (engine_step utc_only logging_parts) (logging_engine None (Some 3) None) [EO_Start 1, EO_Stop 2, EO_Answer 0 3])"
  using engine_running_iff_tasks [OF new_logging_engine refl] by blast

text \<open>The engine started and paused.\<close>

definition paused_engine :: "string list engine" where
  "paused_engine = run_ops (engine_step utc_only logging_parts) (logging_engine (Some 0) None (Some 1)) [EO_Start 1, EO_Pause]"

lemma paused_engine_facts:
  "en_state paused_engine = ES_PAUSED" "en_algorithm paused_engine = Some 5" "en_feed paused_engine = None"
  "en_class paused_engine = Some 0" "en_portfolio paused_engine = Some 1" "\<not> en_backtest paused_engine"
  "en_tasks paused_engine = [(Task_Keeper, False), (Task_Bus, False)]" "en_result_handler paused_engine = None"
  by (simp_all add: paused_engine_def engine_start_def Let_def initialize_finish_def initialize_parts_def then_do_def if_part_def
      start_finish_def engine_pause_def logging_parts_def logged_def)


theorem start_of_paused_engine_witness:
  "length (en_tasks (engine_step utc_only logging_parts paused_engine (EO_Start 9))) = 4"
proof -
  have "ep_construct logging_parts 0 (en_world paused_engine) = (en_world paused_engine @ [''construct''], Inr 5)"
    "ep_initialize logging_parts 5 (en_world paused_engine @ [''construct'']) =
       ((en_world paused_engine @ [''construct'']) @ [''initialize''], None)"
    "ep_set_cash logging_parts 1 (dec_int 100000) ((en_world paused_engine @ [''construct'']) @ [''initialize'']) =
       (((en_world paused_engine @ [''construct'']) @ [''initialize'']) @ [''set_cash''], None)"
    by (simp_all add: logging_parts_def logged_def)
  from start_of_paused_engine [OF paused_engine_facts(1,3,6,4,5,8) this refl, of utc_only 9] show ?thesis
    by (simp only: paused_engine_facts) simp
qed

theorem stop_during_start_is_lost_witness:
  "engine_is_running (run_ops (engine_step utc_only logging_parts) (logging_engine None (Some 3) None)
     [EO_Start 1, EO_Stop 2, EO_Answer 1 3, EO_Answer 0 4])"
  using stop_during_start_is_lost [of "logging_engine None (Some 3) None" 3 logging_parts _ utc_only 1 2 3 4]
  by (simp add: logging_parts_def logged_def)

theorem stop_is_complete_witness:
  "en_state (engine_step utc_only logging_parts paused_engine (EO_Stop 9)) = ES_STOPPED"
proof -
  have "ep_terminate logging_parts 5 ''Engine stopped'' (en_world paused_engine) = (en_world paused_engine @ [''terminate''], None)"
    by (simp add: logging_parts_def logged_def)
  from stop_is_complete [OF paused_engine_facts(3,2) this refl, of utc_only 9] show ?thesis
    by (simp only: paused_engine_facts) simp
qed

end
