(* ===== verification/Indicators.thy ===== *)
theory Indicators
  imports Py_Num Py_Str
begin

section \<open>Technical indicators (\<open>src/algorithms/indicators.py\<close>)\<close>

text \<open>
  The mean and the population deviation of \<open>numpy\<close> are arguments. Periods are positive: with
  a period of zero the buffer of values stays empty.
\<close>

record np_stats =
  ns_mean :: "flt list \<Rightarrow> flt"
  ns_std :: "flt list \<Rightarrow> flt"

subsection \<open>The base class and the averages\<close>

record indicator =
  in_period :: nat
  in_name :: string
  in_values :: "flt list"
  in_result :: "dec option"

record ema = indicator +
  em_value :: "flt option"

record rsi = indicator +
  rs_prev :: "flt option"
  rs_gain :: flt
  rs_loss :: flt

record atr = indicator +
  tr_prev :: "flt option"
  tr_atr :: flt

definition is_ready :: "'a indicator_scheme \<Rightarrow> bool" where
  "is_ready x \<longleftrightarrow> in_period x \<le> length (in_values x)"

definition push_value :: "'a indicator_scheme \<Rightarrow> flt \<Rightarrow> 'a indicator_scheme" where
  "push_value x v = x\<lparr>in_values := deque_append (in_period x * 2) (in_values x) v\<rparr>"

text \<open>\<open>update\<close>: \<open>calc\<close> is \<open>_calculate\<close> of the class, which may change its state.\<close>

definition update_with ::
  "('a indicator_scheme \<Rightarrow> dec \<times> 'a indicator_scheme) \<Rightarrow> 'a indicator_scheme \<Rightarrow> flt \<Rightarrow> dec option \<times> 'a indicator_scheme" where
  "update_with calc x v =
     (let x1 = push_value x v
      in if is_ready x1 then (case calc x1 of (r, x2) \<Rightarrow> (Some r, x2\<lparr>in_result := Some r\<rparr>)) else (None, x1))"

definition last_period :: "'a indicator_scheme \<Rightarrow> flt list" where
  "last_period x = slice_last (int (in_period x)) (in_values x)"

definition new_sma :: "nat \<Rightarrow> indicator" where
  "new_sma p = \<lparr>in_period = p, in_name = ''SMA'' @ nat_str p, in_values = [], in_result = None\<rparr>"

definition sma_calculate :: "np_stats \<Rightarrow> 'a indicator_scheme \<Rightarrow> dec \<times> 'a indicator_scheme" where
  "sma_calculate np x = (dec_of_flt_str (ns_mean np (last_period x)), x)"

definition new_ema :: "nat \<Rightarrow> ema" where
  "new_ema p = \<lparr>in_period = p, in_name = ''EMA'' @ nat_str p, in_values = [], in_result = None, em_value = None\<rparr>"

definition ema_calculate :: "np_stats \<Rightarrow> ema \<Rightarrow> dec \<times> ema" where
  "ema_calculate np x =
     (let values = last_period x;
          e = (case em_value x of
                 None \<Rightarrow> ns_mean np values
               | Some prev \<Rightarrow>
                   (let k = flt_int 2 / flt_int (int (in_period x) + 1) in last values * k + prev * (flt_int 1 - k)))
      in (dec_of_flt_str e, x\<lparr>em_value := Some e\<rparr>))"

subsection \<open>The relative strength index\<close>

definition new_rsi :: "nat \<Rightarrow> rsi" where
  "new_rsi p =
     \<lparr>in_period = p, in_name = ''RSI'' @ nat_str p, in_values = [], in_result = None, rs_prev = None, rs_gain = 0, rs_loss = 0\<rparr>"

fun gains_losses :: "flt list \<Rightarrow> (flt \<times> flt) list" where
  "gains_losses (v # w # vs) =
     (let change = w - v in (if 0 < change then (change, 0) else (0, \<bar>change\<bar>)) # gains_losses (w # vs))"
| "gains_losses _ = []"

definition rsi_averages :: "np_stats \<Rightarrow> rsi \<Rightarrow> flt \<times> flt" where
  "rsi_averages np x =
     (let values = in_values x in
      case rs_prev x of
        None \<Rightarrow>
          (let gl = gains_losses values; p = int (in_period x); tiny = Flt (flt_rnd (1 / 10000))
           in (if gl = [] then tiny else ns_mean np (slice_last p (map fst gl)),
               if gl = [] then tiny else ns_mean np (slice_last p (map snd gl))))
      | Some prev \<Rightarrow>
          (let change = last values - prev; gain = max change 0; loss = \<bar>min change 0\<bar>;
               alpha = flt_int 1 / flt_int (int (in_period x))
           in (rs_gain x * (flt_int 1 - alpha) + gain * alpha, rs_loss x * (flt_int 1 - alpha) + loss * alpha)))"

definition rsi_calculate :: "np_stats \<Rightarrow> rsi \<Rightarrow> dec \<times> rsi" where
  "rsi_calculate np x =
     (if length (in_values x) < 2 then (dec_int 50, x)
      else
        (case rsi_averages np x of
           (g, l) \<Rightarrow>
             (let x1 = x\<lparr>rs_gain := g, rs_loss := l, rs_prev := Some (last (in_values x))\<rparr>
              in if fval l = 0 then (dec_int 100, x1)
                 else (dec_of_flt_str (flt_int 100 - flt_int 100 / (flt_int 1 + g / l)), x1))))"

subsection \<open>The average true range\<close>

definition new_atr :: "nat \<Rightarrow> atr" where
  "new_atr p =
     \<lparr>in_period = p, in_name = ''ATR'' @ nat_str p, in_values = [], in_result = None, tr_prev = None, tr_atr = 0\<rparr>"

definition true_range :: "atr \<Rightarrow> flt \<Rightarrow> flt \<Rightarrow> flt" where
  "true_range x h l =
     (case tr_prev x of
        None \<Rightarrow> h - l
      | Some c \<Rightarrow> max (max (h - l) \<bar>h - c\<bar>) \<bar>l - c\<bar>)"

definition update_with_ohlc :: "np_stats \<Rightarrow> atr \<Rightarrow> dec \<Rightarrow> dec \<Rightarrow> dec \<Rightarrow> dec option \<times> atr" where
  "update_with_ohlc np x high low close =
     (let tr = true_range x (flt_of_dec high) (flt_of_dec low)
      in update_with (sma_calculate np) (x\<lparr>tr_prev := Some (flt_of_dec close)\<rparr>) tr)"

subsection \<open>All indicators and their manager\<close>

datatype any_indicator = Ind_SMA indicator | Ind_EMA ema | Ind_RSI rsi | Ind_ATR atr

fun update_price :: "np_stats \<Rightarrow> any_indicator \<Rightarrow> dec \<Rightarrow> dec option \<times> any_indicator" where
  "update_price np (Ind_SMA x) p = (case update_with (sma_calculate np) x (flt_of_dec p) of (r, y) \<Rightarrow> (r, Ind_SMA y))"
| "update_price np (Ind_EMA x) p = (case update_with (ema_calculate np) x (flt_of_dec p) of (r, y) \<Rightarrow> (r, Ind_EMA y))"
| "update_price np (Ind_RSI x) p = (case update_with (rsi_calculate np) x (flt_of_dec p) of (r, y) \<Rightarrow> (r, Ind_RSI y))"
| "update_price np (Ind_ATR x) p = (case update_with (sma_calculate np) x (flt_of_dec p) of (r, y) \<Rightarrow> (r, Ind_ATR y))"

definition reset_base :: "'a indicator_scheme \<Rightarrow> 'a indicator_scheme" where
  "reset_base x = x\<lparr>in_values := [], in_result := None\<rparr>"

fun reset_indicator :: "any_indicator \<Rightarrow> any_indicator" where
  "reset_indicator (Ind_SMA x) = Ind_SMA (reset_base x)"
| "reset_indicator (Ind_EMA x) = Ind_EMA ((reset_base x)\<lparr>em_value := None\<rparr>)"
| "reset_indicator (Ind_RSI x) = Ind_RSI ((reset_base x)\<lparr>rs_prev := None, rs_gain := 0, rs_loss := 0\<rparr>)"
| "reset_indicator (Ind_ATR x) = Ind_ATR ((reset_base x)\<lparr>tr_prev := None, tr_atr := 0\<rparr>)"

fun indicator_value :: "any_indicator \<Rightarrow> dec option" where
  "indicator_value (Ind_SMA x) = in_result x"
| "indicator_value (Ind_EMA x) = in_result x"
| "indicator_value (Ind_RSI x) = in_result x"
| "indicator_value (Ind_ATR x) = in_result x"

type_synonym indicator_manager = "(string, any_indicator) dict"

definition im_add :: "indicator_manager \<Rightarrow> string \<Rightarrow> any_indicator \<Rightarrow> indicator_manager" where
  "im_add m name x = dset m name x"

definition im_get :: "indicator_manager \<Rightarrow> string \<Rightarrow> any_indicator option" where
  "im_get m name = dget m name"

definition im_update_all :: "np_stats \<Rightarrow> indicator_manager \<Rightarrow> dec \<Rightarrow> (string, dec option) dict \<times> indicator_manager" where
  "im_update_all np m p =
     (map (\<lambda>(n, x). (n, fst (update_price np x p))) m, map (\<lambda>(n, x). (n, snd (update_price np x p))) m)"

definition im_get_all_values :: "indicator_manager \<Rightarrow> (string, dec option) dict" where
  "im_get_all_values m = map (\<lambda>(n, x). (n, indicator_value x)) m"

definition im_reset_all :: "indicator_manager \<Rightarrow> indicator_manager" where
  "im_reset_all m = map (\<lambda>(n, x). (n, reset_indicator x)) m"

subsection \<open>MACD\<close>

record macd =
  md_fast :: ema
  md_slow :: ema
  md_signal_period :: nat
  md_line :: "dec option"
  md_signal :: "dec option"
  md_histogram :: "dec option"
  md_values :: "flt list"

definition new_macd :: "nat \<Rightarrow> nat \<Rightarrow> nat \<Rightarrow> macd" where
  "new_macd f s p =
     \<lparr>md_fast = new_ema f, md_slow = new_ema s, md_signal_period = p, md_line = None, md_signal = None, md_histogram = None,
      md_values = []\<rparr>"

definition macd_ready :: "macd \<Rightarrow> bool" where
  "macd_ready m \<longleftrightarrow> is_ready (md_fast m) \<and> is_ready (md_slow m)"

definition value_or_zero :: "dec option \<Rightarrow> flt" where
  "value_or_zero v = (case v of None \<Rightarrow> 0 | Some d \<Rightarrow> if dval d = 0 then 0 else flt_of_dec d)"

definition macd_update :: "np_stats \<Rightarrow> macd \<Rightarrow> dec \<Rightarrow> macd" where
  "macd_update np m p =
     (let m1 = m\<lparr>md_fast := snd (update_with (ema_calculate np) (md_fast m) (flt_of_dec p)),
                 md_slow := snd (update_with (ema_calculate np) (md_slow m) (flt_of_dec p))\<rparr>
      in if macd_ready m1
         then
           (let v = value_or_zero (in_result (md_fast m1)) - value_or_zero (in_result (md_slow m1));
                line = dec_of_flt_str v; sp = md_signal_period m1;
                m2 = m1\<lparr>md_line := Some line, md_values := deque_append (sp * 2) (md_values m1) v\<rparr>;
                m3 = (if sp \<le> length (md_values m2)
                      then m2\<lparr>md_signal := Some (dec_of_flt_str (ns_mean np (slice_last (int sp) (md_values m2))))\<rparr> else m2)
            in case md_signal m3 of
                 None \<Rightarrow> m3
               | Some s \<Rightarrow> if dval s = 0 then m3 else m3\<lparr>md_histogram := Some (line - s)\<rparr>)
         else m1)"

subsection \<open>Bollinger bands\<close>

record bollinger =
  bb_period :: nat
  bb_num_std :: flt
  bb_values :: "flt list"
  bb_middle :: "dec option"
  bb_upper :: "dec option"
  bb_lower :: "dec option"

definition new_bollinger :: "nat \<Rightarrow> flt \<Rightarrow> bollinger" where
  "new_bollinger p k = \<lparr>bb_period = p, bb_num_std = k, bb_values = [], bb_middle = None, bb_upper = None, bb_lower = None\<rparr>"

definition bb_ready :: "bollinger \<Rightarrow> bool" where
  "bb_ready b \<longleftrightarrow> bb_period b \<le> length (bb_values b)"

definition bb_update :: "np_stats \<Rightarrow> bollinger \<Rightarrow> dec \<Rightarrow> bollinger" where
  "bb_update np b p =
     (let b1 = b\<lparr>bb_values := deque_append (bb_period b * 2) (bb_values b) (flt_of_dec p)\<rparr>
      in if bb_ready b1
         then
           (let values = slice_last (int (bb_period b1)) (bb_values b1); m = ns_mean np values; s = ns_std np values
            in b1\<lparr>bb_middle := Some (dec_of_flt_str m), bb_upper := Some (dec_of_flt_str (m + s * bb_num_std b1)),
                  bb_lower := Some (dec_of_flt_str (m - s * bb_num_std b1))\<rparr>)
         else b1)"

definition percent_b :: "bollinger \<Rightarrow> dec \<Rightarrow> exn + dec option" where
  "percent_b b price =
     (if \<not> bb_ready b \<or> map_option dval (bb_upper b) = map_option dval (bb_lower b) then Inr None
      else
        (case (bb_upper b, bb_lower b) of
           (Some u, Some l) \<Rightarrow>
             and_then (flt_div (flt_of_dec price - flt_of_dec l) (flt_of_dec u - flt_of_dec l)) (\<lambda>x. Inr (Some (dec_of_flt_str x)))
         | _ \<Rightarrow> Inl TypeError))"

section \<open>Lemmas\<close>

subsection \<open>The buffer\<close>

lemma slice_last_n: "0 < p \<Longrightarrow> slice_last (int p) xs = last_n p xs"
  by (simp add: slice_last_def last_n_def)

lemma last_n_last_n: "m \<le> n \<Longrightarrow> last_n m (last_n n xs) = last_n m xs"
  by (auto simp: last_n_def intro: arg_cong2 [where f = drop])

lemma length_last_n: "length (last_n n xs) = min n (length xs)"
  by (simp add: last_n_def)

lemma push_last_n:
  "in_values x = last_n (in_period x * 2) vs \<Longrightarrow> in_values (push_value x v) = last_n (in_period x * 2) (vs @ [v])"
  using map_deque_append [of id "in_period x * 2" "in_values x" v] by (simp add: push_value_def last_n_snoc)

lemma push_value_period [simp]: "in_period (push_value x v) = in_period x"
  by (simp add: push_value_def)

lemma ready_last_n: "in_values x = last_n (in_period x * 2) vs \<Longrightarrow> is_ready x \<longleftrightarrow> in_period x \<le> length vs"
  by (auto simp: is_ready_def length_last_n)

lemma last_period_last_n: "in_values x = last_n (in_period x * 2) vs \<Longrightarrow> 0 < in_period x \<Longrightarrow> last_period x = last_n (in_period x) vs"
  by (simp add: last_period_def slice_last_n last_n_last_n)

text \<open>What an average holds after it was fed the values \<open>vs\<close>.\<close>

definition averages :: "np_stats \<Rightarrow> nat \<Rightarrow> flt list \<Rightarrow> 'a indicator_scheme \<Rightarrow> bool" where
  "averages np p vs x \<longleftrightarrow> in_period x = p \<and> in_values x = last_n (p * 2) vs \<and>
     in_result x = (if length vs < p then None else Some (dec_of_flt_str (ns_mean np (last_n p vs))))"

lemma averages_update:
  assumes "averages np p vs x" "0 < p"
  shows "averages np p (vs @ [v]) (snd (update_with (sma_calculate np) x v))"
    and "fst (update_with (sma_calculate np) x v) = in_result (snd (update_with (sma_calculate np) x v))"
proof -
  have x: "in_period x = p" "in_values x = last_n (in_period x * 2) vs"
    "in_result x = (if length vs < p then None else Some (dec_of_flt_str (ns_mean np (last_n p vs))))"
    using assms(1) by (simp_all add: averages_def)
  let ?x = "push_value x v"
  have v: "in_values ?x = last_n (in_period ?x * 2) (vs @ [v])" using push_last_n [OF x(2)] by simp
  have "is_ready ?x \<longleftrightarrow> p \<le> Suc (length vs)" using ready_last_n [OF v] x(1) by simp
  moreover have "last_period ?x = last_n p (vs @ [v])" using last_period_last_n [OF v] x(1) assms(2) by simp
  moreover have "in_result ?x = in_result x" by (simp add: push_value_def)
  ultimately show "averages np p (vs @ [v]) (snd (update_with (sma_calculate np) x v))"
    and "fst (update_with (sma_calculate np) x v) = in_result (snd (update_with (sma_calculate np) x v))"
    using v x(1,3) by (auto simp: update_with_def Let_def sma_calculate_def averages_def)
qed

subsection \<open>Floats and their decimals\<close>

lemma is_float_ops [simp]: "is_float (x + y)" "is_float (x - y)" "is_float (x * y)" "is_float (x / y)" for x y :: flt
  by (simp_all add: is_float_def fr.r_idem)

lemma read_back: "is_float f \<Longrightarrow> flt_rnd (dval (dec_of_flt_str f)) = fval f"
  using dec_of_flt_str_reads_back [of f] by (simp add: is_float_def flt_of_dec_def flt_eq_iff)

lemma decimal_mono: "is_float x \<Longrightarrow> is_float y \<Longrightarrow> x \<le> y \<Longrightarrow> dec_of_flt_str x \<le> dec_of_flt_str y"
  using fr.r_le_cancel [of "dval (dec_of_flt_str x)" "dval (dec_of_flt_str y)"] read_back [of x] read_back [of y]
  by (cases "x = y") (simp, auto simp: dec_le_iff flt_le_iff flt_eq_iff)

lemma flt_rnd_consts: "flt_rnd 100 = 100" "flt_rnd 1 = 1" "flt_rnd 2 = 2"
  by code_simp+

lemma decimal_hundred: "dec_of_flt_str (Flt 100) = dec_int 100"
  by code_simp

lemma decimal_zero: "dec_of_flt_str (Flt 0) = dec_int 0"
  by code_simp

lemma decimal_range:
  assumes "is_float f" "0 \<le> fval f" "fval f \<le> 100"
  shows "dec_int 0 \<le> dec_of_flt_str f" "dec_of_flt_str f \<le> dec_int 100"
proof -
  have "is_float (Flt 0)" "is_float (Flt 100)" by (simp_all add: is_float_def flt_rnd_consts)
  with assms show "dec_int 0 \<le> dec_of_flt_str f" "dec_of_flt_str f \<le> dec_int 100"
    using decimal_mono [of "Flt 0" f] decimal_mono [of f "Flt 100"] by (simp_all add: decimal_hundred decimal_zero flt_le_iff)
qed

subsection \<open>The strength index\<close>

definition np_nonneg :: "np_stats \<Rightarrow> bool" where
  "np_nonneg np \<longleftrightarrow> (\<forall>xs. (\<forall>x \<in> set xs. 0 \<le> x) \<longrightarrow> 0 \<le> ns_mean np xs)"

lemma gains_losses_nonneg: "gl \<in> set (gains_losses vs) \<Longrightarrow> 0 \<le> fst gl \<and> 0 \<le> snd gl"
  by (induction vs rule: gains_losses.induct) (auto simp: Let_def py_num_simps split: if_splits)

lemma slice_last_subset: "set (slice_last n xs) \<subseteq> set xs"
  by (auto simp: slice_last_def dest: in_set_dropD)

lemma strength_range:
  assumes "0 \<le> g" "0 < l"
  shows "dec_int 0 \<le> dec_of_flt_str (flt_int 100 - flt_int 100 / (flt_int 1 + g / l)) \<and>
    dec_of_flt_str (flt_int 100 - flt_int 100 / (flt_int 1 + g / l)) \<le> dec_int 100"
proof -
  have gl: "0 \<le> fval g" "0 < fval l" using assms by (simp_all add: py_num_simps)
  let ?q = "flt_rnd (fval g / fval l)"
  let ?d = "flt_rnd (1 + ?q)"
  have "0 \<le> ?q" using gl by (intro fr.r_nonneg) simp
  then have d: "1 \<le> ?d" by (intro fr.r_ge flt_rnd_consts) simp
  let ?e = "flt_rnd (100 / ?d)"
  have e: "0 \<le> ?e" "?e \<le> 100" using d by (auto intro!: fr.r_nonneg fr.r_le flt_rnd_consts simp: pos_divide_le_eq)
  have "0 \<le> flt_rnd (100 - ?e)" "flt_rnd (100 - ?e) \<le> 100" using e by (auto intro!: fr.r_nonneg fr.r_le flt_rnd_consts)
  moreover have "fval (flt_int 100 - flt_int 100 / (flt_int 1 + g / l)) = flt_rnd (100 - ?e)"
    by (simp add: flt_rnd_consts)
  ultimately show ?thesis using decimal_range [OF is_float_ops(2)] by metis
qed

text \<open>Both averages of the index stay non-negative and its value between 0 and 100.\<close>

definition rsi_ok :: "rsi \<Rightarrow> bool" where
  "rsi_ok x \<longleftrightarrow> 0 < in_period x \<and> 0 \<le> rs_gain x \<and> 0 \<le> rs_loss x \<and>
     (\<forall>r. in_result x = Some r \<longrightarrow> dec_int 0 \<le> r \<and> r \<le> dec_int 100)"

lemma smoothed_nonneg:
  assumes "0 \<le> a" "0 \<le> b" "0 < p"
  shows "0 \<le> a * (flt_int 1 - flt_int 1 / flt_int (int p)) + b * (flt_int 1 / flt_int (int p))"
proof -
  have "1 \<le> flt_rnd (of_nat p)" using assms(3) by (intro fr.r_ge flt_rnd_consts) simp
  then have al: "0 \<le> flt_rnd (1 / flt_rnd (of_nat p))" "flt_rnd (1 / flt_rnd (of_nat p)) \<le> 1"
    by (auto intro!: fr.r_nonneg fr.r_le flt_rnd_consts simp: pos_divide_le_eq)
  then have "0 \<le> flt_rnd (1 - flt_rnd (1 / flt_rnd (of_nat p)))" by (intro fr.r_nonneg) simp
  moreover have "0 \<le> fval a" "0 \<le> fval b" using assms(1,2) by (simp_all add: py_num_simps)
  ultimately have "0 \<le> flt_rnd (fval a * flt_rnd (1 - flt_rnd (1 / flt_rnd (of_nat p))))"
    "0 \<le> flt_rnd (fval b * flt_rnd (1 / flt_rnd (of_nat p)))" using al(1) by (simp_all add: fr.r_nonneg)
  then show ?thesis by (simp add: flt_le_iff flt_rnd_consts zero_flt_def fr.r_nonneg)
qed

lemma rsi_averages_nonneg:
  assumes "np_nonneg np" "rsi_ok x" "rsi_averages np x = (g, l)"
  shows "0 \<le> g" "0 \<le> l"
proof -
  have tiny: "0 \<le> Flt (flt_rnd (1 / 10000))" by (simp add: flt_le_iff zero_flt_def fr.r_nonneg)
  have m: "0 \<le> ns_mean np (slice_last p (map fst (gains_losses vs)))" "0 \<le> ns_mean np (slice_last p (map snd (gains_losses vs)))" for p vs
  proof -
    have "\<forall>x \<in> set (slice_last p (map fst (gains_losses vs))). 0 \<le> x" "\<forall>x \<in> set (slice_last p (map snd (gains_losses vs))). 0 \<le> x"
      by (auto dest!: subsetD [OF slice_last_subset] dest: gains_losses_nonneg)
    then show "0 \<le> ns_mean np (slice_last p (map fst (gains_losses vs)))" "0 \<le> ns_mean np (slice_last p (map snd (gains_losses vs)))"
      using assms(1) by (simp_all add: np_nonneg_def)
  qed
  have z: "0 \<le> max a 0" for a :: flt by (rule max.cobounded2)
  have z': "0 \<le> \<bar>a\<bar>" for a :: flt by (simp add: py_num_simps)
  have "0 \<le> g \<and> 0 \<le> l"
    using assms(2,3) smoothed_nonneg tiny m z z'
    by (auto simp: rsi_averages_def Let_def rsi_ok_def split: option.splits if_splits)
  then show "0 \<le> g" "0 \<le> l" by auto
qed

lemma rsi_ok_update:
  assumes "np_nonneg np" "rsi_ok x"
  shows "rsi_ok (snd (update_with (rsi_calculate np) x v))"
proof -
  let ?x = "push_value x v"
  have ok: "rsi_ok ?x" using assms(2) by (simp add: rsi_ok_def push_value_def)
  show ?thesis
  proof (cases "is_ready ?x")
    case True
    have half: "dec_int 0 \<le> dec_int 50 \<and> dec_int 50 \<le> dec_int 100" "dec_int 0 \<le> dec_int 100 \<and> dec_int 100 \<le> dec_int 100"
      by (simp_all add: py_num_simps)
    show ?thesis
    proof (cases "length (in_values ?x) < 2")
      case True
      with \<open>is_ready ?x\<close> ok half show ?thesis by (simp add: update_with_def Let_def rsi_calculate_def rsi_ok_def)
    next
      case False
      obtain g l where gl: "rsi_averages np ?x = (g, l)" by (cases "rsi_averages np ?x")
      note n = rsi_averages_nonneg [OF assms(1) ok gl]
      have "fval l \<noteq> 0 \<Longrightarrow> 0 < l" using n(2) by (simp add: py_num_simps)
      with False True gl n ok half strength_range [OF n(1), of l] show ?thesis
        by (auto simp: update_with_def Let_def rsi_calculate_def rsi_ok_def)
    qed
  next
    case False
    with ok show ?thesis by (simp add: update_with_def Let_def)
  qed
qed

section \<open>Properties of indicators\<close>

definition feed :: "('a \<Rightarrow> dec \<Rightarrow> 'b \<times> 'a) \<Rightarrow> 'a \<Rightarrow> dec list \<Rightarrow> 'a" where
  "feed upd x ps = foldl (\<lambda>x p. snd (upd x p)) x ps"

text \<open>A moving average is the mean of the last prices, as many as its period says, and has no value
  before there are so many; the longer buffer behind it never shows.\<close>

theorem moving_average_exact:
  assumes "0 < p"
  shows "indicator_value (feed (update_price np) (Ind_SMA (new_sma p)) ps) =
    (if length ps < p then None else Some (dec_of_flt_str (ns_mean np (last_n p (map flt_of_dec ps)))))"
proof -
  have "\<exists>x. feed (update_price np) (Ind_SMA (new_sma p)) ps = Ind_SMA x \<and> averages np p (map flt_of_dec ps) x"
  proof (induction ps rule: rev_induct)
    case Nil
    then show ?case by (simp add: feed_def averages_def new_sma_def last_n_def assms)
  next
    case (snoc v ps)
    then obtain x where x: "feed (update_price np) (Ind_SMA (new_sma p)) ps = Ind_SMA x" "averages np p (map flt_of_dec ps) x" by blast
    from averages_update(1) [OF x(2) assms, of "flt_of_dec v"] x(1) show ?case
      by (cases "update_with (sma_calculate np) x (flt_of_dec v)") (simp add: feed_def)
  qed
  then show ?thesis by (auto simp: averages_def)
qed

text \<open>C28. The relative strength index lies between 0 and 100 for all prices, when the mean of
  non-negative numbers is not negative.\<close>

theorem rsi_in_range:
  assumes "0 < p" "\<forall>xs. (\<forall>x \<in> set xs. 0 \<le> x) \<longrightarrow> 0 \<le> ns_mean np xs"
    and "indicator_value (feed (update_price np) (Ind_RSI (new_rsi p)) ps) = Some r"
  shows "dec_int 0 \<le> r \<and> r \<le> dec_int 100"
proof -
  have np: "np_nonneg np" using assms(2) by (simp add: np_nonneg_def)
  have "\<exists>x. feed (update_price np) (Ind_RSI (new_rsi p)) ps = Ind_RSI x \<and> rsi_ok x"
  proof (induction ps rule: rev_induct)
    case Nil
    then show ?case using assms(1) by (simp add: feed_def rsi_ok_def new_rsi_def)
  next
    case (snoc v ps)
    then obtain x where x: "feed (update_price np) (Ind_RSI (new_rsi p)) ps = Ind_RSI x" "rsi_ok x" by blast
    from rsi_ok_update [OF np x(2), of "flt_of_dec v"] x(1) show ?case
      by (cases "update_with (rsi_calculate np) x (flt_of_dec v)") (simp add: feed_def)
  qed
  with assms(3) show ?thesis by (auto simp: rsi_ok_def)
qed

text \<open>The bands enclose the average of the last prices, and the position of a price between them is
  computed without an exception: it is undefined exactly when the bands coincide.\<close>

theorem bollinger_bands_ordered:
  assumes "0 < p" "0 \<le> k" "\<forall>xs. 0 \<le> ns_std np xs \<and> is_float (ns_mean np xs)" "p \<le> length ps"
    and "b = foldl (bb_update np) (new_bollinger p k) ps"
  shows "\<exists>l m u. bb_lower b = Some l \<and> bb_middle b = Some m \<and> bb_upper b = Some u \<and> l \<le> m \<and> m \<le> u \<and>
    m = dec_of_flt_str (ns_mean np (last_n p (map flt_of_dec ps))) \<and>
    (\<exists>r. percent_b b price = Inr r \<and> (r = None \<longleftrightarrow> dval u = dval l))"
proof -
  have v: "bb_period (foldl (bb_update np) (new_bollinger p k) qs) = p \<and> bb_num_std (foldl (bb_update np) (new_bollinger p k) qs) = k \<and>
      bb_values (foldl (bb_update np) (new_bollinger p k) qs) = last_n (p * 2) (map flt_of_dec qs)" for qs
  proof (induction qs rule: rev_induct)
    case Nil
    then show ?case by (simp add: new_bollinger_def last_n_def)
  next
    case (snoc q qs)
    then show ?case using map_deque_append [of id "p * 2" "last_n (p * 2) (map flt_of_dec qs)" "flt_of_dec q"]
      by (simp add: bb_update_def Let_def last_n_snoc)
  qed
  obtain qs q where ps: "ps = qs @ [q]" using assms(1,4) by (cases ps rule: rev_cases) auto
  let ?vs = "last_n p (map flt_of_dec ps)"
  let ?m = "ns_mean np ?vs" and ?t = "ns_std np ?vs * k"
  have "bb_values b = last_n (p * 2) (map flt_of_dec ps)" "bb_period b = p" using v [of ps] assms(5) by auto
  then have ready: "bb_ready b" using assms(4) by (simp add: bb_ready_def length_last_n)
  have bands: "bb_lower b = Some (dec_of_flt_str (?m - ?t))" "bb_middle b = Some (dec_of_flt_str ?m)"
    "bb_upper b = Some (dec_of_flt_str (?m + ?t))"
  proof -
    let ?b = "foldl (bb_update np) (new_bollinger p k) qs"
    have "deque_append (p * 2) (bb_values ?b) (flt_of_dec q) = last_n (p * 2) (map flt_of_dec ps)"
      using map_deque_append [of id "p * 2" "bb_values ?b" "flt_of_dec q"] v [of qs] by (simp add: ps last_n_snoc)
    moreover have "p \<le> length (last_n (p * 2) (map flt_of_dec ps))" using assms(4) by (simp add: length_last_n)
    ultimately show "bb_lower b = Some (dec_of_flt_str (?m - ?t))" "bb_middle b = Some (dec_of_flt_str ?m)"
      "bb_upper b = Some (dec_of_flt_str (?m + ?t))"
      using v [of qs] assms(1) unfolding assms(5)
      by (simp_all add: ps bb_update_def Let_def bb_ready_def slice_last_n last_n_last_n)
  qed
  have "0 \<le> fval k" "0 \<le> fval (ns_std np ?vs)" using assms(2,3) by (simp_all add: flt_le_iff zero_flt_def)
  then have t: "0 \<le> fval ?t" by (simp add: fr.r_nonneg)
  have m: "flt_rnd (fval ?m) = fval ?m" using assms(3) by (simp add: is_float_def)
  have "?m - ?t \<le> ?m" "?m \<le> ?m + ?t"
    unfolding flt_le_iff fval_simps(3,4) using t by (auto intro!: fr.r_le fr.r_ge m)
  then have order: "dec_of_flt_str (?m - ?t) \<le> dec_of_flt_str ?m" "dec_of_flt_str ?m \<le> dec_of_flt_str (?m + ?t)"
    using assms(3) by (simp_all add: decimal_mono)
  let ?u = "dec_of_flt_str (?m + ?t)" and ?l = "dec_of_flt_str (?m - ?t)"
  have "\<exists>r. percent_b b price = Inr r \<and> (r = None \<longleftrightarrow> dval ?u = dval ?l)"
  proof (cases "dval ?u = dval ?l")
    case False
    have rb: "flt_of_dec ?u = ?m + ?t" "flt_of_dec ?l = ?m - ?t" by (simp_all add: dec_of_flt_str_reads_back fr.r_idem)
    have "?m + ?t \<noteq> ?m - ?t" using False by metis
    then have "fval (?m + ?t) - fval (?m - ?t) \<noteq> 0" by (simp only: flt_eq_iff right_minus_eq not_False_eq_True)
    then have "fval (flt_of_dec ?u - flt_of_dec ?l) \<noteq> 0" unfolding rb fval_simps(4) [of "?m + ?t"] fr.r_eq_0_iff .
    with False ready bands show ?thesis by (simp add: percent_b_def flt_div_def del: fval_simps)
  qed (use ready bands in \<open>simp add: percent_b_def\<close>)
  with bands order show ?thesis by blast
qed

section \<open>Concrete indicators\<close>

text \<open>The mean as the statistics of the language have it, and no deviation.\<close>

definition plain_stats :: np_stats where
  "plain_stats = \<lparr>ns_mean = (\<lambda>xs. Flt (flt_rnd (sum_list (map fval xs) / of_nat (length xs)))), ns_std = (\<lambda>_. 0)\<rparr>"

theorem moving_average_exact_witness:
  "indicator_value (feed (update_price plain_stats) (Ind_SMA (new_sma 2)) [dec_int 1, dec_int 3, dec_int 5]) = Some (dec_int 4)"
proof -
  have f: "fval (flt_of_dec (dec_int 3)) = 3" "fval (flt_of_dec (dec_int 5)) = 5" "flt_rnd 4 = 4" "dec_of_flt_str (Flt 4) = dec_int 4"
    by code_simp+
  have "ns_mean plain_stats (last_n 2 (map flt_of_dec [dec_int 1, dec_int 3, dec_int 5])) = Flt 4"
    unfolding plain_stats_def by (simp add: last_n_def f del: fval_simps)
  then have "dec_of_flt_str (ns_mean plain_stats (last_n 2 (map flt_of_dec [dec_int 1, dec_int 3, dec_int 5]))) = dec_int 4"
    by (simp only: f)
  then show ?thesis using moving_average_exact [of 2 plain_stats "[dec_int 1, dec_int 3, dec_int 5]"] by simp
qed

lemma plain_mean_nonneg: "\<forall>x \<in> set xs. 0 \<le> x \<Longrightarrow> 0 \<le> ns_mean plain_stats xs"
  by (auto simp: plain_stats_def flt_le_iff zero_flt_def intro!: fr.r_nonneg divide_nonneg_nonneg sum_list_nonneg)

theorem rsi_in_range_witness:
  "\<exists>r. indicator_value (feed (update_price plain_stats) (Ind_RSI (new_rsi 2)) [dec_int 1, dec_int 3]) = Some r \<and>
     dec_int 0 \<le> r \<and> r \<le> dec_int 100"
proof -
  have "0 < flt_of_dec (dec_int 3) - flt_of_dec (dec_int 1)" by code_simp
  then have "indicator_value (feed (update_price plain_stats) (Ind_RSI (new_rsi 2)) [dec_int 1, dec_int 3]) = Some (dec_int 100)"
    by (simp add: feed_def new_rsi_def update_with_def push_value_def deque_append_def is_ready_def rsi_calculate_def
        rsi_averages_def slice_last_def Let_def) (simp add: plain_stats_def zero_flt_def)
  moreover from rsi_in_range [OF _ _ this] have "dec_int 0 \<le> dec_int 100 \<and> dec_int 100 \<le> dec_int 100"
    using plain_mean_nonneg by simp
  ultimately show ?thesis by blast
qed

theorem bollinger_bands_ordered_witness:
  "\<exists>l u. bb_lower (foldl (bb_update plain_stats) (new_bollinger 1 1) [dec_int 4]) = Some l \<and>
     bb_upper (foldl (bb_update plain_stats) (new_bollinger 1 1) [dec_int 4]) = Some u \<and> l \<le> u"
proof -
  have "\<forall>xs. 0 \<le> ns_std plain_stats xs \<and> is_float (ns_mean plain_stats xs)"
    by (simp add: plain_stats_def is_float_def fr.r_idem)
  moreover have "0 \<le> (1 :: flt)" by (simp add: py_num_simps)
  ultimately obtain l m u where "bb_lower (foldl (bb_update plain_stats) (new_bollinger 1 1) [dec_int 4]) = Some l"
    "bb_upper (foldl (bb_update plain_stats) (new_bollinger 1 1) [dec_int 4]) = Some u" "l \<le> m" "m \<le> u"
    using bollinger_bands_ordered [of 1 1 plain_stats "[dec_int 4]" "foldl (bb_update plain_stats) (new_bollinger 1 1) [dec_int 4]" 0]
    by auto
  then show ?thesis by (blast intro: order_trans)
qed

end
