(* ===== verification/Latency_Monitor.thy ===== *)
theory Latency_Monitor
  imports Market_Data
begin

section \<open>Latency monitoring (\<open>src/monitoring/latency_monitor.py\<close>)\<close>

text \<open>
  Samples in a bounded window with cached statistics, counters and gauges, thresholds with a
  cooldown, and the monitor that turns them into alerts. The readings of the clock are
  arguments; alert handlers act on an abstract world and what they raise is caught. The locks
  guard single calls and do not appear.
\<close>

subsection \<open>The functions of the module \<open>statistics\<close>\<close>

text \<open>\<open>mean\<close> adds exactly and rounds once; \<open>median\<close> averages the two middle values as floats.\<close>

definition stat_mean :: "flt list \<Rightarrow> flt" where
  "stat_mean xs = Flt (flt_rnd (sum_list (map fval xs) / of_nat (length xs)))"

definition stat_median :: "flt list \<Rightarrow> flt" where
  "stat_median xs =
     (let s = sort xs; n = length s; i = n div 2
      in if odd n then s ! i else (s ! (i - 1) + s ! i) / flt_int 2)"

fun bit_length :: "nat \<Rightarrow> nat" where
  "bit_length n = (if n = 0 then 0 else Suc (bit_length (n div 2)))"

declare bit_length.simps [simp del]

text \<open>\<open>math.isqrt\<close>, digit by digit in base four.\<close>

fun isqrt :: "nat \<Rightarrow> nat" where
  "isqrt n =
     (if n = 0 then 0
      else (let r = 2 * isqrt (n div 4) in if (r + 1) * (r + 1) \<le> n then r + 1 else r))"

declare isqrt.simps [simp del]

text \<open>The root of the fraction \<open>n/m\<close>, rounded down and made odd when it is not exact.\<close>

definition isqrt_odd :: "nat \<Rightarrow> nat \<Rightarrow> nat" where
  "isqrt_odd n m = (let a = isqrt (n div m) in if a * a * m \<noteq> n \<and> even a then a + 1 else a)"

definition sqrt_of_frac :: "nat \<Rightarrow> nat \<Rightarrow> flt" where
  "sqrt_of_frac n m =
     (let q = (int (bit_length n) - int (bit_length m) - 109) div 2
      in if 0 \<le> q then Flt (flt_rnd (of_nat (isqrt_odd n (m * 2 ^ nat (2 * q)) * 2 ^ nat q)))
         else Flt (flt_rnd (of_nat (isqrt_odd (n * 2 ^ nat (- 2 * q)) m) / 2 ^ nat (- q))))"

definition stat_stdev :: "flt list \<Rightarrow> flt" where
  "stat_stdev xs =
     (let qs = map fval xs; c = sum_list qs / of_nat (length qs);
          mss = sum_list (map (\<lambda>x. (x - c) ^ 2) qs) / of_nat (length qs - 1); (n, m) = quotient_of mss
      in sqrt_of_frac (nat n) (nat m))"

subsection \<open>Latency samples\<close>

type_synonym meta = "(string, string option) dict"

record sample =
  sp_latency :: flt
  sp_timestamp :: time
  sp_metadata :: meta

record lat_stats =
  ss_count :: nat
  ss_mean :: flt
  ss_median :: flt
  ss_std :: flt
  ss_min :: flt
  ss_max :: flt
  ss_p95 :: flt
  ss_p99 :: flt

record calculator =
  ca_window :: nat
  ca_max_history :: nat
  ca_samples :: "sample list"
  ca_history :: "sample list"
  ca_cached :: "lat_stats option"
  ca_last :: time
  ca_ttl :: int

definition datetime_min :: time where
  "datetime_min = - 62135596800000000"

definition new_calculator :: "nat \<Rightarrow> nat \<Rightarrow> calculator" where
  "new_calculator window history =
     \<lparr>ca_window = window, ca_max_history = history, ca_samples = [], ca_history = [], ca_cached = None,
      ca_last = datetime_min, ca_ttl = 1000000\<rparr>"

definition add_sample :: "calculator \<Rightarrow> flt \<Rightarrow> meta option \<Rightarrow> time \<Rightarrow> calculator" where
  "add_sample c latency md now =
     (let s = \<lparr>sp_latency = latency, sp_timestamp = now, sp_metadata = (case md of None \<Rightarrow> [] | Some m \<Rightarrow> m)\<rparr>
      in c\<lparr>ca_samples := deque_append (ca_window c) (ca_samples c) s,
           ca_history := deque_append (ca_max_history c) (ca_history c) s, ca_cached := None\<rparr>)"

text \<open>A decorated call: its outcome is passed on and its duration recorded, also when it raised.\<close>

definition elapsed_ms :: "flt \<Rightarrow> flt \<Rightarrow> flt" where
  "elapsed_ms t0 t1 = (t1 - t0) * flt_int 1000"

definition ca_record :: "calculator \<Rightarrow> string \<Rightarrow> exn + 'r \<Rightarrow> flt \<Rightarrow> flt \<Rightarrow> time \<Rightarrow> (exn + 'r) \<times> calculator" where
  "ca_record c fname outcome t0 t1 now = (outcome, add_sample c (elapsed_ms t0 t1) (Some [(''function'', Some fname)]) now)"

definition percentile_of :: "flt list \<Rightarrow> nat \<Rightarrow> flt" where
  "percentile_of xs p =
     (if xs = [] then 0
      else (let s = sort xs; i = flt_trunc (int_ratio (int (length s * p)) 100)
            in s ! nat (min i (int (length s) - 1))))"

definition zero_stats :: lat_stats where
  "zero_stats = \<lparr>ss_count = 0, ss_mean = 0, ss_median = 0, ss_std = 0, ss_min = 0, ss_max = 0, ss_p95 = 0, ss_p99 = 0\<rparr>"

definition stats_of :: "flt list \<Rightarrow> lat_stats" where
  "stats_of xs =
     \<lparr>ss_count = length xs, ss_mean = stat_mean xs, ss_median = stat_median xs,
      ss_std = (if 1 < length xs then stat_stdev xs else 0), ss_min = Min (set xs), ss_max = Max (set xs),
      ss_p95 = percentile_of xs 95, ss_p99 = percentile_of xs 99\<rparr>"

definition ca_get_statistics :: "calculator \<Rightarrow> time \<Rightarrow> lat_stats \<times> calculator" where
  "ca_get_statistics c now =
     (case ca_cached c of
        Some s \<Rightarrow>
          if now - ca_last c < ca_ttl c then (s, c)
          else if ca_samples c = [] then (zero_stats, c)
          else (let s = stats_of (map sp_latency (ca_samples c)) in (s, c\<lparr>ca_cached := Some s, ca_last := now\<rparr>))
      | None \<Rightarrow>
          if ca_samples c = [] then (zero_stats, c)
          else (let s = stats_of (map sp_latency (ca_samples c)) in (s, c\<lparr>ca_cached := Some s, ca_last := now\<rparr>)))"

definition get_recent_samples :: "calculator \<Rightarrow> int \<Rightarrow> sample list" where
  "get_recent_samples c count = slice_last count (ca_samples c)"

definition ca_clear :: "calculator \<Rightarrow> calculator" where
  "ca_clear c = c\<lparr>ca_samples := [], ca_history := [], ca_cached := None\<rparr>"

subsection \<open>Counters, gauges and latencies by name\<close>

record metrics =
  mx_calculators :: "(string, calculator) dict"
  mx_counters :: "(string, int) dict"
  mx_gauges :: "(string, flt) dict"

definition new_metrics :: metrics where
  "new_metrics = \<lparr>mx_calculators = [], mx_counters = [], mx_gauges = []\<rparr>"

definition mx_record_latency :: "metrics \<Rightarrow> string \<Rightarrow> flt \<Rightarrow> meta option \<Rightarrow> time \<Rightarrow> metrics" where
  "mx_record_latency m name latency md now =
     (let c = (case dget (mx_calculators m) name of None \<Rightarrow> new_calculator 1000 10000 | Some c \<Rightarrow> c)
      in m\<lparr>mx_calculators := dset (mx_calculators m) name (add_sample c latency md now)\<rparr>)"

definition mx_get_counter :: "metrics \<Rightarrow> string \<Rightarrow> int" where
  "mx_get_counter m name = (case dget (mx_counters m) name of None \<Rightarrow> 0 | Some n \<Rightarrow> n)"

definition mx_record_counter :: "metrics \<Rightarrow> string \<Rightarrow> int \<Rightarrow> metrics" where
  "mx_record_counter m name k = m\<lparr>mx_counters := dset (mx_counters m) name (mx_get_counter m name + k)\<rparr>"

definition mx_record_gauge :: "metrics \<Rightarrow> string \<Rightarrow> flt \<Rightarrow> metrics" where
  "mx_record_gauge m name v = m\<lparr>mx_gauges := dset (mx_gauges m) name v\<rparr>"

definition mx_record_throughput :: "metrics \<Rightarrow> string \<Rightarrow> int \<Rightarrow> flt \<Rightarrow> metrics" where
  "mx_record_throughput m name count window =
     mx_record_gauge m (name @ ''_throughput'') (if 0 < window then flt_int count / window else 0)"

definition mx_get_gauge :: "metrics \<Rightarrow> string \<Rightarrow> flt option" where
  "mx_get_gauge m name = dget (mx_gauges m) name"

definition mx_get_latency_stats :: "metrics \<Rightarrow> string \<Rightarrow> time \<Rightarrow> lat_stats option \<times> metrics" where
  "mx_get_latency_stats m name now =
     (case dget (mx_calculators m) name of
        None \<Rightarrow> (None, m)
      | Some c \<Rightarrow>
          (case ca_get_statistics c now of
             (s, c1) \<Rightarrow> (Some s, m\<lparr>mx_calculators := dset (mx_calculators m) name c1\<rparr>)))"

record all_metrics =
  al_latency :: "(string, lat_stats) dict"
  al_counters :: "(string, int) dict"
  al_gauges :: "(string, flt) dict"

text \<open>\<open>clk name\<close> is the clock when the statistics of the name are taken.\<close>

definition mx_get_all :: "metrics \<Rightarrow> (string \<Rightarrow> time) \<Rightarrow> all_metrics \<times> metrics" where
  "mx_get_all m clk =
     (\<lparr>al_latency = map (\<lambda>(n, c). (n, fst (ca_get_statistics c (clk n)))) (mx_calculators m),
       al_counters = mx_counters m, al_gauges = mx_gauges m\<rparr>,
      m\<lparr>mx_calculators := map (\<lambda>(n, c). (n, snd (ca_get_statistics c (clk n)))) (mx_calculators m)\<rparr>)"

definition mx_reset_counter :: "metrics \<Rightarrow> string \<Rightarrow> metrics" where
  "mx_reset_counter m name = m\<lparr>mx_counters := dset (mx_counters m) name 0\<rparr>"

definition mx_clear :: "metrics \<Rightarrow> metrics" where
  "mx_clear m = m\<lparr>mx_calculators := [], mx_counters := [], mx_gauges := []\<rparr>"

subsection \<open>Thresholds\<close>

datatype metric_type = MT_LATENCY | MT_THROUGHPUT | MT_ERROR_RATE | MT_MEMORY | MT_CPU | MT_CUSTOM

datatype alert_severity = SEV_INFO | SEV_WARNING | SEV_CRITICAL | SEV_EMERGENCY

record threshold =
  th_metric :: string
  th_warning :: "flt option"
  th_critical :: "flt option"
  th_emergency :: "flt option"
  th_direction :: string
  th_cooldown :: flt
  th_last :: "time option"

definition meets :: "(flt \<Rightarrow> flt \<Rightarrow> bool) \<Rightarrow> flt \<Rightarrow> flt option \<Rightarrow> bool" where
  "meets P v level = (case level of None \<Rightarrow> False | Some l \<Rightarrow> P v l)"

definition triggered_by :: "threshold \<Rightarrow> flt \<Rightarrow> alert_severity option" where
  "triggered_by t v =
     (if th_direction t = ''above'' then
        (if meets (\<ge>) v (th_emergency t) then Some SEV_EMERGENCY
         else if meets (\<ge>) v (th_critical t) then Some SEV_CRITICAL
         else if meets (\<ge>) v (th_warning t) then Some SEV_WARNING else None)
      else if th_direction t = ''below'' then
        (if meets (\<le>) v (th_emergency t) then Some SEV_EMERGENCY
         else if meets (\<le>) v (th_critical t) then Some SEV_CRITICAL
         else if meets (\<le>) v (th_warning t) then Some SEV_WARNING else None)
      else if th_direction t = ''equals'' then
        (if meets (\<lambda>x l. fval x = fval l) v (th_emergency t) then Some SEV_EMERGENCY else None)
      else None)"

definition th_check :: "threshold \<Rightarrow> flt \<Rightarrow> time \<Rightarrow> alert_severity option \<times> threshold" where
  "th_check t v now =
     (if (case th_last t of None \<Rightarrow> False | Some l \<Rightarrow> total_seconds (now - l) < th_cooldown t) then (None, t)
      else
        (case triggered_by t v of
           None \<Rightarrow> (None, t)
         | Some s \<Rightarrow> (Some s, t\<lparr>th_last := Some now\<rparr>)))"

text \<open>\<open>getattr(threshold, severity.name.lower(), threshold.warning)\<close>.\<close>

definition level_of :: "threshold \<Rightarrow> alert_severity \<Rightarrow> flt option" where
  "level_of t s = (case s of SEV_EMERGENCY \<Rightarrow> th_emergency t | SEV_CRITICAL \<Rightarrow> th_critical t | _ \<Rightarrow> th_warning t)"

definition create_latency_threshold :: "string \<Rightarrow> flt \<Rightarrow> flt \<Rightarrow> flt \<Rightarrow> threshold" where
  "create_latency_threshold name w c e =
     \<lparr>th_metric = name, th_warning = Some w, th_critical = Some c, th_emergency = Some e, th_direction = ''above'',
      th_cooldown = flt_int 60, th_last = None\<rparr>"

definition create_throughput_threshold :: "string \<Rightarrow> flt \<Rightarrow> flt \<Rightarrow> threshold" where
  "create_throughput_threshold name w c =
     \<lparr>th_metric = name, th_warning = Some w, th_critical = Some c, th_emergency = None, th_direction = ''below'',
      th_cooldown = flt_int 30, th_last = None\<rparr>"

subsection \<open>The monitor\<close>

text \<open>The text of a message is the kind of the metric with the numbers it prints.\<close>

datatype alert_message = Latency_Alert string flt "flt option" | Gauge_Alert string flt "flt option"

record alert =
  at_severity :: alert_severity
  at_metric :: string
  at_value :: flt
  at_threshold :: "flt option"
  at_message :: alert_message
  at_time :: time
  at_acknowledged :: bool
  at_resolved :: bool

record 'w monitor =
  mo_metrics :: metrics
  mo_thresholds :: "(string, threshold) dict"
  mo_alerts :: "alert list"
  mo_handlers :: "nat list"
  mo_running :: bool
  mo_task :: bool
  mo_interval :: flt
  mo_timers :: "(string, flt) dict"
  mo_world :: 'w

definition new_monitor :: "flt \<Rightarrow> 'w \<Rightarrow> 'w monitor" where
  "new_monitor interval w =
     \<lparr>mo_metrics = new_metrics, mo_thresholds = [], mo_alerts = [], mo_handlers = [], mo_running = False, mo_task = False,
      mo_interval = interval, mo_timers = [], mo_world = w\<rparr>"

definition mo_record_latency :: "'w monitor \<Rightarrow> string \<Rightarrow> flt \<Rightarrow> meta option \<Rightarrow> time \<Rightarrow> 'w monitor" where
  "mo_record_latency m name latency md now = m\<lparr>mo_metrics := mx_record_latency (mo_metrics m) name latency md now\<rparr>"

definition mo_record_counter :: "'w monitor \<Rightarrow> string \<Rightarrow> int \<Rightarrow> 'w monitor" where
  "mo_record_counter m name k = m\<lparr>mo_metrics := mx_record_counter (mo_metrics m) name k\<rparr>"

definition mo_record_gauge :: "'w monitor \<Rightarrow> string \<Rightarrow> flt \<Rightarrow> 'w monitor" where
  "mo_record_gauge m name v = m\<lparr>mo_metrics := mx_record_gauge (mo_metrics m) name v\<rparr>"

definition start_timer :: "'w monitor \<Rightarrow> string \<Rightarrow> flt \<Rightarrow> 'w monitor" where
  "start_timer m name t0 = m\<lparr>mo_timers := dset (mo_timers m) name t0\<rparr>"

definition stop_timer :: "'w monitor \<Rightarrow> string \<Rightarrow> meta option \<Rightarrow> flt \<Rightarrow> time \<Rightarrow> flt \<times> 'w monitor" where
  "stop_timer m name md t1 now =
     (case dget (mo_timers m) name of
        None \<Rightarrow> (0, m)
      | Some t0 \<Rightarrow>
          (elapsed_ms t0 t1,
           mo_record_latency (m\<lparr>mo_timers := ddel (mo_timers m) name\<rparr>) name (elapsed_ms t0 t1) md now))"

text \<open>Leaving the context of \<open>time_operation\<close>, entered at \<open>t0\<close>; \<open>err\<close> is the text of what was raised.\<close>

definition timer_exit :: "'w monitor \<Rightarrow> string \<Rightarrow> flt \<Rightarrow> string option \<Rightarrow> flt \<Rightarrow> time \<Rightarrow> 'w monitor" where
  "timer_exit m name t0 err t1 now = mo_record_latency m name (elapsed_ms t0 t1) (Some [(''error'', err)]) now"

definition add_threshold :: "'w monitor \<Rightarrow> threshold \<Rightarrow> 'w monitor" where
  "add_threshold m t = m\<lparr>mo_thresholds := dset (mo_thresholds m) (th_metric t) t\<rparr>"

definition remove_threshold :: "'w monitor \<Rightarrow> string \<Rightarrow> 'w monitor" where
  "remove_threshold m name = m\<lparr>mo_thresholds := ddel (mo_thresholds m) name\<rparr>"

definition add_alert_handler :: "'w monitor \<Rightarrow> nat \<Rightarrow> 'w monitor" where
  "add_alert_handler m h = m\<lparr>mo_handlers := mo_handlers m @ [h]\<rparr>"

definition remove_alert_handler :: "'w monitor \<Rightarrow> nat \<Rightarrow> 'w monitor" where
  "remove_alert_handler m h = m\<lparr>mo_handlers := remove1 h (mo_handlers m)\<rparr>"

text \<open>
  One threshold of \<open>_check_thresholds\<close>: first the mean latency of the metric, then its gauge, with
  four readings of the clock \<open>rd\<close> for the two checks and the two alerts.
\<close>

definition make_alert :: "(string \<Rightarrow> flt \<Rightarrow> flt option \<Rightarrow> alert_message) \<Rightarrow> threshold \<Rightarrow> string \<Rightarrow> alert_severity \<Rightarrow> flt \<Rightarrow> time \<Rightarrow> alert" where
  "make_alert msg t name s v now =
     \<lparr>at_severity = s, at_metric = name, at_value = v, at_threshold = level_of t s, at_message = msg name v (level_of t s),
      at_time = now, at_acknowledged = False, at_resolved = False\<rparr>"

definition check_value ::
  "(string \<Rightarrow> flt \<Rightarrow> flt option \<Rightarrow> alert_message) \<Rightarrow> string \<Rightarrow> flt option \<Rightarrow> time \<Rightarrow> time \<Rightarrow> threshold \<Rightarrow> alert list \<times> threshold" where
  "check_value msg name value t1 t2 t =
     (case value of
        None \<Rightarrow> ([], t)
      | Some v \<Rightarrow>
          (case th_check t v t1 of
             (None, t') \<Rightarrow> ([], t')
           | (Some s, t') \<Rightarrow> ([make_alert msg t' name s v t2], t')))"

definition check_threshold :: "all_metrics \<Rightarrow> string \<Rightarrow> (nat \<Rightarrow> time) \<Rightarrow> nat \<Rightarrow> threshold \<Rightarrow> alert list \<times> threshold" where
  "check_threshold al name rd n t =
     (case check_value Latency_Alert name (map_option ss_mean (dget (al_latency al) name)) (rd n) (rd (n + 1)) t of
        (as1, t1) \<Rightarrow>
          (case check_value Gauge_Alert name (dget (al_gauges al) name) (rd (n + 2)) (rd (n + 3)) t1 of
             (as2, t2) \<Rightarrow> (as1 @ as2, t2)))"

fun check_each :: "all_metrics \<Rightarrow> (nat \<Rightarrow> time) \<Rightarrow> nat \<Rightarrow> (string, threshold) dict \<Rightarrow> alert list \<times> (string, threshold) dict" where
  "check_each al rd n [] = ([], [])"
| "check_each al rd n ((name, t) # ts) =
     (case check_threshold al name rd n t of
        (as1, t1) \<Rightarrow> (case check_each al rd (n + 4) ts of (as2, ts2) \<Rightarrow> (as1 @ as2, (name, t1) # ts2)))"

definition check_thresholds :: "'w monitor \<Rightarrow> (string \<Rightarrow> time) \<Rightarrow> (nat \<Rightarrow> time) \<Rightarrow> alert list \<times> 'w monitor" where
  "check_thresholds m clk rd =
     (case mx_get_all (mo_metrics m) clk of
        (al, mx) \<Rightarrow>
          (case check_each al rd 0 (mo_thresholds m) of
             (alerts, ts) \<Rightarrow>
               (alerts, m\<lparr>mo_metrics := mx, mo_thresholds := ts,
                          mo_alerts := foldl (deque_append 1000) (mo_alerts m) alerts\<rparr>)))"

fun notify_alerts :: "(nat \<Rightarrow> (alert, 'w) callback) \<Rightarrow> nat list \<Rightarrow> alert list \<Rightarrow> 'w \<Rightarrow> 'w" where
  "notify_alerts code hs [] w = w"
| "notify_alerts code hs (a # alerts) w = notify_alerts code hs alerts (notify (map code hs) a w)"

text \<open>One round of the loop; the loop itself takes the readings of its rounds.\<close>

definition monitor_round ::
  "(nat \<Rightarrow> (alert, 'w) callback) \<Rightarrow> 'w monitor \<Rightarrow> (string \<Rightarrow> time) \<times> (nat \<Rightarrow> time) \<Rightarrow> 'w monitor" where
  "monitor_round code m rds =
     (case check_thresholds m (fst rds) (snd rds) of
        (alerts, m1) \<Rightarrow> m1\<lparr>mo_world := notify_alerts code (mo_handlers m1) alerts (mo_world m1)\<rparr>)"

fun monitor_loop ::
  "(nat \<Rightarrow> (alert, 'w) callback) \<Rightarrow> ((string \<Rightarrow> time) \<times> (nat \<Rightarrow> time)) list \<Rightarrow> 'w monitor \<Rightarrow> 'w monitor" where
  "monitor_loop code [] m = m"
| "monitor_loop code (r # rs) m = (if mo_running m then monitor_loop code rs (monitor_round code m r) else m)"

definition mo_start :: "'w monitor \<Rightarrow> 'w monitor" where
  "mo_start m = (if mo_running m then m else m\<lparr>mo_running := True, mo_task := True\<rparr>)"

definition mo_stop :: "'w monitor \<Rightarrow> 'w monitor" where
  "mo_stop m = (if \<not> mo_running m then m else m\<lparr>mo_running := False\<rparr>)"

text \<open>The statistics of one metric, or of all when no name is given.\<close>

definition mo_get_statistics ::
  "'w monitor \<Rightarrow> string option \<Rightarrow> (string \<Rightarrow> time) \<Rightarrow> (lat_stats option + all_metrics) \<times> 'w monitor" where
  "mo_get_statistics m name clk =
     (case name of
        Some (c # cs) \<Rightarrow>
          (case mx_get_latency_stats (mo_metrics m) (c # cs) (clk (c # cs)) of (s, mx) \<Rightarrow> (Inl s, m\<lparr>mo_metrics := mx\<rparr>))
      | _ \<Rightarrow> (case mx_get_all (mo_metrics m) clk of (al, mx) \<Rightarrow> (Inr al, m\<lparr>mo_metrics := mx\<rparr>)))"

definition get_alerts :: "'w monitor \<Rightarrow> alert_severity option \<Rightarrow> bool \<Rightarrow> int \<Rightarrow> alert list" where
  "get_alerts m sev unresolved limit =
     (let as1 = (case sev of None \<Rightarrow> mo_alerts m | Some s \<Rightarrow> filter (\<lambda>a. at_severity a = s) (mo_alerts m));
          as2 = (if unresolved then filter (\<lambda>a. \<not> at_resolved a) as1 else as1)
      in slice_last limit as2)"

text \<open>Both search the first alert with the moment.\<close>

fun mark_first :: "(alert \<Rightarrow> alert) \<Rightarrow> time \<Rightarrow> alert list \<Rightarrow> (alert list) option" where
  "mark_first f t [] = None"
| "mark_first f t (a # as1) =
     (if at_time a = t then Some (f a # as1) else map_option ((#) a) (mark_first f t as1))"

definition acknowledge_alert :: "'w monitor \<Rightarrow> time \<Rightarrow> bool \<times> 'w monitor" where
  "acknowledge_alert m t =
     (case mark_first (\<lambda>a. a\<lparr>at_acknowledged := True\<rparr>) t (mo_alerts m) of
        None \<Rightarrow> (False, m)
      | Some as1 \<Rightarrow> (True, m\<lparr>mo_alerts := as1\<rparr>))"

definition resolve_alert :: "'w monitor \<Rightarrow> time \<Rightarrow> bool \<times> 'w monitor" where
  "resolve_alert m t =
     (case mark_first (\<lambda>a. a\<lparr>at_resolved := True\<rparr>) t (mo_alerts m) of
        None \<Rightarrow> (False, m)
      | Some as1 \<Rightarrow> (True, m\<lparr>mo_alerts := as1\<rparr>))"

record latency_chart =
  ch_current :: flt
  ch_p95 :: flt
  ch_p99 :: flt

record dashboard =
  db_healthy :: bool
  db_charts :: "(string, latency_chart) dict"
  db_counters :: "(string, int) dict"
  db_gauges :: "(string, flt) dict"
  db_alerts :: "alert list"
  db_total :: nat
  db_active :: nat
  db_acknowledged :: nat
  db_emergency :: nat
  db_critical :: nat
  db_warning :: nat

definition count_alerts :: "(alert \<Rightarrow> bool) \<Rightarrow> 'w monitor \<Rightarrow> nat" where
  "count_alerts P m = length (filter P (mo_alerts m))"

definition get_dashboard_data :: "'w monitor \<Rightarrow> (string \<Rightarrow> time) \<Rightarrow> dashboard \<times> 'w monitor" where
  "get_dashboard_data m clk =
     (case mx_get_all (mo_metrics m) clk of
        (al, mx) \<Rightarrow>
          (let active = get_alerts m None True 10
           in (\<lparr>db_healthy = (active = []),
                db_charts = map (\<lambda>(n, s). (n, \<lparr>ch_current = ss_mean s, ch_p95 = ss_p95 s, ch_p99 = ss_p99 s\<rparr>))
                  (filter (\<lambda>(n, s). 0 < ss_count s) (al_latency al)),
                db_counters = al_counters al, db_gauges = al_gauges al, db_alerts = active,
                db_total = length (mo_alerts m), db_active = length active, db_acknowledged = count_alerts at_acknowledged m,
                db_emergency = count_alerts (\<lambda>a. at_severity a = SEV_EMERGENCY) m,
                db_critical = count_alerts (\<lambda>a. at_severity a = SEV_CRITICAL) m,
                db_warning = count_alerts (\<lambda>a. at_severity a = SEV_WARNING) m\<rparr>, m\<lparr>mo_metrics := mx\<rparr>)))"

text \<open>The global instance.\<close>

definition get_monitor :: "'w \<Rightarrow> 'w monitor option \<Rightarrow> 'w monitor \<times> 'w monitor option" where
  "get_monitor w g = (case g of None \<Rightarrow> (let m = new_monitor (flt_int 5) w in (m, Some m)) | Some m \<Rightarrow> (m, Some m))"

section \<open>Lemmas\<close>

subsection \<open>Square roots\<close>

text \<open>\<open>isqrt\<close> is the integer part of the square root.\<close>

lemma isqrt_spec: "isqrt n * isqrt n \<le> n \<and> n < Suc (isqrt n) * Suc (isqrt n)"
proof (induction n rule: isqrt.induct)
  case (1 n)
  show ?case
  proof (cases "n = 0")
    case False
    define k where "k = isqrt (n div 4)"
    have k: "k * k \<le> n div 4" "n div 4 < (k + 1) * (k + 1)" using 1 False by (simp_all add: k_def)
    have i: "isqrt n = (if (2 * k + 1) * (2 * k + 1) \<le> n then 2 * k + 1 else 2 * k)"
      using False by (subst isqrt.simps) (simp add: k_def Let_def)
    have n: "4 * (n div 4) \<le> n" "n < 4 * (n div 4) + 4" by presburger+
    have "4 * (k * k) \<le> n" using k(1) n(1) by linarith
    moreover have "n < 4 * ((k + 1) * (k + 1))" using k(2) n(2) by (simp only: less_eq_Suc_le)
    ultimately show ?thesis using i by (auto simp: algebra_simps not_le)
  qed (simp add: isqrt.simps)
qed

subsection \<open>The window of samples\<close>

datatype calculator_op = CA_Add flt "meta option" time | CA_Query time | CA_Clear

fun calculator_step :: "calculator \<Rightarrow> calculator_op \<Rightarrow> calculator" where
  "calculator_step c (CA_Add l md now) = add_sample c l md now"
| "calculator_step c (CA_Query now) = snd (ca_get_statistics c now)"
| "calculator_step c CA_Clear = ca_clear c"

text \<open>The latencies added since the samples were last cleared.\<close>

fun live_step :: "flt list \<Rightarrow> calculator_op \<Rightarrow> flt list" where
  "live_step xs (CA_Add l md now) = xs @ [l]"
| "live_step xs (CA_Query now) = xs"
| "live_step xs CA_Clear = []"

text \<open>The cached statistics are always those of the window.\<close>

definition fresh_cache :: "calculator \<Rightarrow> bool" where
  "fresh_cache c \<longleftrightarrow> (\<forall>s. ca_cached c = Some s \<longrightarrow> ca_samples c \<noteq> [] \<and> s = stats_of (map sp_latency (ca_samples c)))"

lemma fresh_statistics:
  "fresh_cache c \<Longrightarrow> fst (ca_get_statistics c now) =
     (if ca_samples c = [] then zero_stats else stats_of (map sp_latency (ca_samples c)))"
  by (auto simp: ca_get_statistics_def fresh_cache_def Let_def split: option.split)

lemma get_statistics_frame [simp]:
  "ca_samples (snd (ca_get_statistics c now)) = ca_samples c" "ca_window (snd (ca_get_statistics c now)) = ca_window c"
  by (simp_all add: ca_get_statistics_def Let_def split: option.split)

lemma fresh_step: "fresh_cache c \<Longrightarrow> fresh_cache (calculator_step c x)"
  by (cases x) (auto simp: fresh_cache_def add_sample_def ca_clear_def ca_get_statistics_def Let_def split: option.splits if_splits)

interpretation calculator: run_system calculator_step "\<lambda>_ _. True" fresh_cache
  by unfold_locales (rule fresh_step)

lemma run_window:
  "map sp_latency (ca_samples (run_ops calculator_step c xs)) = last_n (ca_window c) (foldl live_step ls xs)"
  if "map sp_latency (ca_samples c) = last_n (ca_window c) ls"
  using that
proof (induction xs arbitrary: c ls)
  case (Cons x xs)
  have "map sp_latency (ca_samples (calculator_step c x)) = last_n (ca_window c) (live_step ls x) \<and>
      ca_window (calculator_step c x) = ca_window c"
    using Cons.prems by (cases x) (simp_all add: add_sample_def ca_clear_def Let_def map_deque_append last_n_snoc, simp add: last_n_def)
  with Cons.IH [of "calculator_step c x" "live_step ls x"] show ?case by simp
qed simp

subsection \<open>Ranks\<close>

lemma trunc_ratio:
  assumes "k < 2 ^ 40"
  shows "flt_trunc (int_ratio (int k) 100) = int (k div 100)"
proof -
  let ?x = "rat_of_nat k / 100" and ?f = "rat_of_nat (k div 100)"
  have k: "k = 100 * (k div 100) + k mod 100" by simp
  have lt: "k mod 100 \<le> 99" by (simp add: less_Suc_eq_le [symmetric])
  have "rat_of_nat k = 100 * ?f + rat_of_nat (k mod 100)" using k by (metis of_nat_add of_nat_mult of_nat_numeral)
  then have x: "?x = ?f + rat_of_nat (k mod 100) / 100" by (simp add: add_divide_distrib)
  have "rat_of_nat (k mod 100) \<le> 99" using lt by (metis of_nat_le_iff of_nat_numeral)
  then have hi: "?x \<le> ?f + 99 / 100" using x by (simp add: field_simps)
  have lo: "?f \<le> ?x" using x by simp
  have "representable 2 53 ?f" unfolding representable_def
    by (rule exI [of _ "int (k div 100)"], rule exI [of _ 0]) (use assms in simp)
  then have f: "flt_rnd ?f = ?f" by (intro rnd_exact) simp_all
  have r_lo: "?f \<le> flt_rnd ?x" using fr.r_mono [OF lo] f by simp
  have "\<bar>flt_rnd ?x - ?x\<bar> \<le> \<bar>?x\<bar> * rat_of_nat 2 powi (1 - int 53) / 2" by (rule rnd_error) simp_all
  also have "\<dots> = ?x / 2 ^ 53" by (simp add: power_int_def power_one_over)
  also have "\<dots> < 1 / 100"
  proof -
    have "rat_of_nat k < 2 ^ 40" using assms by (metis of_nat_less_iff of_nat_numeral of_nat_power)
    then show ?thesis by simp
  qed
  finally have "flt_rnd ?x < ?f + 1" using hi by linarith
  with r_lo have "\<lfloor>flt_rnd ?x\<rfloor> = int (k div 100)" by (simp add: floor_eq_iff)
  moreover have "0 \<le> flt_rnd ?x" by (rule fr.r_nonneg) simp
  ultimately show ?thesis by (simp add: flt_trunc_def int_ratio_def)
qed

lemma percentile_nth:
  assumes "xs \<noteq> []" "p < 100" "length xs < 2 ^ 30"
  shows "percentile_of xs p = sort xs ! (length xs * p div 100)" "length xs * p div 100 < length xs"
proof -
  have "length xs * p \<le> length xs * 100" using assms(2) by simp
  also have "\<dots> < 2 ^ 40" using assms(3) by simp
  finally have t: "flt_trunc (int_ratio (int (length xs * p)) 100) = int (length xs * p div 100)" by (rule trunc_ratio)
  have "length xs * p < length xs * 100" using assms(1,2) by simp
  then show less: "length xs * p div 100 < length xs" by (simp add: div_less_iff_less_mult)
  then have "min (int (length xs * p div 100)) (int (length xs) - 1) = int (length xs * p div 100)" by simp
  then show "percentile_of xs p = sort xs ! (length xs * p div 100)"
    unfolding percentile_of_def using assms(1) t by (simp add: Let_def del: of_nat_mult)
qed

lemma count_sorted:
  assumes "sorted s" "i < length s"
  shows "i < length (filter (\<lambda>x. x \<le> s ! i) s)" "length (filter (\<lambda>x. x < s ! i) s) \<le> i"
proof -
  have s: "s = take (Suc i) s @ drop (Suc i) s" "s = take i s @ drop i s" by simp_all
  have "filter (\<lambda>x. x \<le> s ! i) (take (Suc i) s) = take (Suc i) s"
    using assms by (intro filter_True) (auto simp: in_set_conv_nth intro!: sorted_nth_mono)
  then show "i < length (filter (\<lambda>x. x \<le> s ! i) s)" using assms(2)
    by (subst (2) s(1)) (simp only: filter_append length_append, simp)
  have "filter (\<lambda>x. x < s ! i) (drop i s) = []"
    using assms by (intro filter_False) (auto simp: in_set_conv_nth not_less intro!: sorted_nth_mono)
  then show "length (filter (\<lambda>x. x < s ! i) s) \<le> i" using assms(2) length_filter_le [of "\<lambda>x. x < s ! i" "take i s"]
    by (subst (2) s(2)) (simp only: filter_append length_append, simp)
qed

lemma count_sort: "length (filter P (sort xs)) = length (filter P xs)"
  by (simp add: filter_sort)

subsection \<open>Order of the statistics\<close>

lemma flt_rnd_2: "flt_rnd 2 = 2"
  by code_simp

lemma midpoint_bounds:
  assumes "is_float a" "is_float b" "a \<le> b"
  shows "a \<le> (a + b) / flt_int 2" "(a + b) / flt_int 2 \<le> b"
proof -
  have ab: "fval a \<le> fval b" using assms(3) by (simp add: flt_le_iff)
  have "2 * fval a \<le> flt_rnd (fval a + fval b)" using ab by (intro fr.r_ge is_float_double assms(1)) simp
  then show "a \<le> (a + b) / flt_int 2"
    unfolding flt_le_iff fval_simps of_int_numeral flt_rnd_2 using assms(1) by (intro fr.r_ge) (simp_all add: is_float_def)
  have "flt_rnd (fval a + fval b) \<le> 2 * fval b" using ab by (intro fr.r_le is_float_double assms(2)) simp
  then show "(a + b) / flt_int 2 \<le> b"
    unfolding flt_le_iff fval_simps of_int_numeral flt_rnd_2 using assms(2) by (intro fr.r_le) (simp_all add: is_float_def)
qed

lemma mean_bounds:
  assumes "xs \<noteq> []" "is_float lo" "is_float hi" "\<forall>x \<in> set xs. lo \<le> x \<and> x \<le> hi"
  shows "lo \<le> stat_mean xs" "stat_mean xs \<le> hi"
proof -
  have "of_nat (length xs) * fval lo \<le> sum_list (map fval xs) \<and> sum_list (map fval xs) \<le> of_nat (length xs) * fval hi"
    using assms(4) by (induction xs) (auto simp: flt_le_iff algebra_simps)
  moreover have "0 < rat_of_nat (length xs)" using assms(1) by simp
  ultimately have "fval lo \<le> sum_list (map fval xs) / of_nat (length xs)" "sum_list (map fval xs) / of_nat (length xs) \<le> fval hi"
    by (simp_all add: pos_le_divide_eq pos_divide_le_eq mult.commute)
  then show "lo \<le> stat_mean xs" "stat_mean xs \<le> hi"
    using assms(2,3) by (simp_all add: stat_mean_def flt_le_iff is_float_def fr.r_ge fr.r_le)
qed

lemma median_bounds:
  assumes "xs \<noteq> []" "\<forall>x \<in> set xs. is_float x \<and> lo \<le> x \<and> x \<le> hi"
  shows "lo \<le> stat_median xs" "stat_median xs \<le> hi"
proof -
  have mem: "sort xs ! i \<in> set xs" if "i < length xs" for i using that by (metis length_sort nth_mem set_sort)
  have len: "0 < length xs" using assms(1) by simp
  have "lo \<le> stat_median xs \<and> stat_median xs \<le> hi"
  proof (cases "odd (length xs)")
    case True
    then have "stat_median xs = sort xs ! (length xs div 2)" by (simp add: stat_median_def Let_def)
    moreover have "length xs div 2 < length xs" using len by simp
    ultimately show ?thesis using mem assms(2) by metis
  next
    case False
    let ?a = "sort xs ! (length xs div 2 - 1)" and ?b = "sort xs ! (length xs div 2)"
    have i: "length xs div 2 < length xs" using len by simp
    then have j: "length xs div 2 - 1 < length xs" by linarith
    have "?a \<le> ?b" using i by (intro sorted_nth_mono) auto
    moreover have "is_float ?a" "is_float ?b" "lo \<le> ?a" "?b \<le> hi" using mem i j assms(2) by metis+
    ultimately have "lo \<le> (?a + ?b) / flt_int 2" "(?a + ?b) / flt_int 2 \<le> hi"
      using midpoint_bounds [of ?a ?b] by (meson order_trans)+
    moreover have "stat_median xs = (?a + ?b) / flt_int 2" using False by (simp add: stat_median_def Let_def)
    ultimately show ?thesis by simp
  qed
  then show "lo \<le> stat_median xs" "stat_median xs \<le> hi" by auto
qed

subsection \<open>Checks of a threshold\<close>

fun alert_times :: "threshold \<Rightarrow> (flt \<times> time) list \<Rightarrow> time list" where
  "alert_times t [] = []"
| "alert_times t ((v, now) # xs) =
     (case th_check t v now of (r, t1) \<Rightarrow> (if r = None then [] else [now]) @ alert_times t1 xs)"

text \<open>Every two alerts in a row are a cooldown apart, the first from the last one before.\<close>

lemma alert_times_spaced:
  "successively (\<lambda>a b. \<not> total_seconds (b - a) < th_cooldown t) ((case th_last t of None \<Rightarrow> [] | Some l \<Rightarrow> [l]) @ alert_times t xs)"
proof (induction xs arbitrary: t)
  case Nil
  then show ?case by (simp split: option.split)
next
  case (Cons x xs)
  obtain v now where x: "x = (v, now)" by (cases x)
  show ?case
  proof (cases "fst (th_check t v now)")
    case None
    then have "th_check t v now = (None, t)" by (auto simp: th_check_def split: if_splits option.splits)
    with Cons show ?thesis by (simp add: x)
  next
    case (Some s)
    then have c: "th_check t v now = (Some s, t\<lparr>th_last := Some now\<rparr>)"
      and l: "\<not> (case th_last t of None \<Rightarrow> False | Some l \<Rightarrow> total_seconds (now - l) < th_cooldown t)"
      by (auto simp: th_check_def split: if_splits option.splits)
    from Cons.IH [of "t\<lparr>th_last := Some now\<rparr>"] c l show ?thesis by (auto simp: x split: option.splits)
  qed
qed

lemma alert_times_none:
  "th_last t = None \<Longrightarrow> alert_times t xs = [] \<longleftrightarrow> (\<forall>(v, now) \<in> set xs. triggered_by t v = None)"
proof (induction xs)
  case (Cons x xs)
  then show ?case by (cases x) (auto simp: th_check_def split: option.splits)
qed simp

subsection \<open>Marking alerts\<close>

datatype alert_mark = Ack time | Resolve time

fun mark_step :: "'w monitor \<Rightarrow> alert_mark \<Rightarrow> 'w monitor" where
  "mark_step m (Ack t) = snd (acknowledge_alert m t)"
| "mark_step m (Resolve t) = snd (resolve_alert m t)"

lemma mark_first_nth:
  assumes "mark_first f t as1 = Some bs" "\<And>a. at_time (f a) = at_time a"
  shows "length bs = length as1 \<and> map at_time bs = map at_time as1 \<and>
    (\<forall>i j. i < j \<longrightarrow> j < length as1 \<longrightarrow> at_time (as1 ! i) = at_time (as1 ! j) \<longrightarrow> bs ! j = as1 ! j)"
  using assms(1)
proof (induction as1 arbitrary: bs)
  case (Cons a as1)
  show ?case
  proof (cases "at_time a = t")
    case True
    with Cons.prems have "bs = f a # as1" by simp
    then show ?thesis using assms(2) by (auto simp: nth_Cons split: nat.split)
  next
    case False
    with Cons.prems obtain cs where cs: "mark_first f t as1 = Some cs" "bs = a # cs" by auto
    have ne: "i < j \<longrightarrow> j < length (a # as1) \<longrightarrow> at_time ((a # as1) ! i) = at_time ((a # as1) ! j) \<longrightarrow> bs ! j = (a # as1) ! j" for i j
    proof (intro impI)
      assume i: "i < j" "j < length (a # as1)" "at_time ((a # as1) ! i) = at_time ((a # as1) ! j)"
      then obtain j' where j: "j = Suc j'" by (cases j) auto
      show "bs ! j = (a # as1) ! j"
      proof (cases i)
        case 0
        have "cs ! j' = as1 ! j'" if "at_time (as1 ! j') \<noteq> t" "j' < length as1" "mark_first f t as1 = Some cs" for j' cs
          using that by (induction as1 arbitrary: j' cs) (auto simp: nth_Cons split: if_splits nat.splits)
        then show ?thesis using i 0 False cs j by simp
      next
        case (Suc i')
        then show ?thesis using Cons.IH [OF cs(1)] i cs(2) j by simp
      qed
    qed
    then show ?thesis using Cons.IH [OF cs(1)] cs(2) by auto
  qed
qed simp

lemma mark_step_nth:
  "length (mo_alerts (mark_step m x)) = length (mo_alerts m) \<and>
   map at_time (mo_alerts (mark_step m x)) = map at_time (mo_alerts m) \<and>
   (\<forall>i j. i < j \<longrightarrow> j < length (mo_alerts m) \<longrightarrow> at_time (mo_alerts m ! i) = at_time (mo_alerts m ! j) \<longrightarrow>
      mo_alerts (mark_step m x) ! j = mo_alerts m ! j)"
  by (cases x) (auto simp: acknowledge_alert_def resolve_alert_def dest!: mark_first_nth split: option.splits)

section \<open>Properties of the monitor\<close>

text \<open>C29. Whatever was asked before, the statistics are those of the last samples of the window since it
  was cleared: the cached ones are never stale.\<close>

theorem latency_statistics_exact:
  "fst (ca_get_statistics (run_ops calculator_step (new_calculator window history) xs) now) =
     (let ls = last_n window (foldl live_step [] xs) in if ls = [] then zero_stats else stats_of ls)"
proof -
  let ?c = "run_ops calculator_step (new_calculator window history) xs"
  have "fresh_cache ?c" by (rule calculator.run_inv) (simp_all add: fresh_cache_def new_calculator_def)
  moreover have "map sp_latency (ca_samples ?c) = last_n window (foldl live_step [] xs)"
    using run_window [of "new_calculator window history" "[]" xs] by (simp add: new_calculator_def last_n_def)
  ultimately show ?thesis using fresh_statistics [of ?c now] by (metis map_is_Nil_conv)
qed

text \<open>The statistics of a window are ordered, and the percentiles are samples with the right rank: at
  least so many percent of the samples are not above them, and at most so many are below.\<close>

theorem latency_statistics_ordered:
  assumes "xs \<noteq> []" "\<forall>x \<in> set xs. is_float x" "length xs < 2 ^ 30" "s = stats_of xs"
  shows "ss_min s \<le> ss_mean s \<and> ss_mean s \<le> ss_max s \<and> ss_min s \<le> ss_median s \<and> ss_median s \<le> ss_max s \<and>
    ss_min s \<le> ss_p95 s \<and> ss_p95 s \<le> ss_p99 s \<and> ss_p99 s \<le> ss_max s \<and> ss_p95 s \<in> set xs \<and> ss_p99 s \<in> set xs \<and>
    95 * length xs < 100 * length (filter (\<lambda>x. x \<le> ss_p95 s) xs) \<and> 100 * length (filter (\<lambda>x. x < ss_p95 s) xs) \<le> 95 * length xs \<and>
    99 * length xs < 100 * length (filter (\<lambda>x. x \<le> ss_p99 s) xs) \<and> 100 * length (filter (\<lambda>x. x < ss_p99 s) xs) \<le> 99 * length xs"
proof -
  let ?lo = "Min (set xs)" and ?hi = "Max (set xs)"
  have band: "\<forall>x \<in> set xs. ?lo \<le> x \<and> x \<le> ?hi" by simp
  have mm: "?lo \<in> set xs" "?hi \<in> set xs" using assms(1) by (simp_all add: Min_in Max_in)
  then have "is_float ?lo" "is_float ?hi" using assms(2) by blast+
  from mean_bounds [OF assms(1) this band] have mean: "?lo \<le> stat_mean xs" "stat_mean xs \<le> ?hi" .
  have "\<forall>x \<in> set xs. is_float x \<and> ?lo \<le> x \<and> x \<le> ?hi" using band assms(2) by blast
  from median_bounds [OF assms(1) this] have med: "?lo \<le> stat_median xs" "stat_median xs \<le> ?hi" .
  have rank: "percentile_of xs p \<in> set xs \<and> p * length xs < 100 * length (filter (\<lambda>x. x \<le> percentile_of xs p) xs) \<and>
      100 * length (filter (\<lambda>x. x < percentile_of xs p) xs) \<le> p * length xs" if "p < 100" for p
  proof -
    note n = percentile_nth [OF assms(1) that assms(3)]
    let ?i = "length xs * p div 100"
    have "Suc ?i \<le> length (filter (\<lambda>x. x \<le> percentile_of xs p) xs)" "length (filter (\<lambda>x. x < percentile_of xs p) xs) \<le> ?i"
      using count_sorted [of "sort xs" ?i] n by (simp_all add: count_sort Suc_le_eq)
    then have "100 * Suc ?i \<le> 100 * length (filter (\<lambda>x. x \<le> percentile_of xs p) xs)"
      "100 * length (filter (\<lambda>x. x < percentile_of xs p) xs) \<le> 100 * ?i" by (simp_all only: mult_le_mono2)
    moreover have "p * length xs < 100 * Suc ?i" "100 * ?i \<le> p * length xs" by (simp_all add: mult.commute dividend_less_times_div)
    moreover have "percentile_of xs p \<in> set xs" using n by (metis length_sort nth_mem set_sort)
    ultimately show ?thesis by (meson less_le_trans order_trans)
  qed
  have "length xs * 95 div 100 \<le> length xs * 99 div 100" by (intro div_le_mono) simp
  then have p: "percentile_of xs 95 \<le> percentile_of xs 99"
    using percentile_nth [OF assms(1) _ assms(3), of 95] percentile_nth [OF assms(1) _ assms(3), of 99]
    by (simp add: sorted_nth_mono)
  show ?thesis unfolding assms(4) stats_of_def lat_stats.simps using mean med p rank [of 95] rank [of 99] band by simp
qed

text \<open>Two alerts of a threshold in a row are at least its cooldown apart, and the first value that
  meets a level raises an alert: no alert comes exactly when no value meets any level.\<close>

theorem threshold_cooldown:
  assumes "th_last t = None"
  shows "successively (\<lambda>a b. \<not> total_seconds (b - a) < th_cooldown t) (alert_times t xs) \<and>
    (alert_times t xs = [] \<longleftrightarrow> (\<forall>(v, now) \<in> set xs. triggered_by t v = None))"
  using alert_times_spaced [of t xs] alert_times_none [OF assms, of xs] assms by simp

text \<open>Alerts are marked by their time and only the first of that time is found: when two alerts share
  a time, the second is never acknowledged or resolved, and the system counts as degraded for good.\<close>

theorem shared_time_alert_unreachable:
  assumes "i < j" "j < length (mo_alerts m)" "at_time (mo_alerts m ! i) = at_time (mo_alerts m ! j)"
    and "\<not> at_resolved (mo_alerts m ! j)" "m' = run_ops mark_step m xs"
  shows "mo_alerts m' ! j = mo_alerts m ! j \<and> \<not> db_healthy (fst (get_dashboard_data m' clk))"
proof -
  have "length (mo_alerts (run_ops mark_step m xs)) = length (mo_alerts m) \<and> mo_alerts (run_ops mark_step m xs) ! j = mo_alerts m ! j"
    using assms(1-3)
  proof (induction xs arbitrary: m)
    case (Cons x xs)
    note s = mark_step_nth [of m x]
    have "at_time (mo_alerts (mark_step m x) ! k) = at_time (mo_alerts m ! k)" if "k < length (mo_alerts m)" for k
      using s that by (metis nth_map)
    with s Cons show ?case by simp
  qed simp
  then have m': "length (mo_alerts m') = length (mo_alerts m)" "mo_alerts m' ! j = mo_alerts m ! j" using assms(5) by auto
  then have "mo_alerts m ! j \<in> set (filter (\<lambda>a. \<not> at_resolved a) (mo_alerts m'))"
    using assms(2,4) nth_mem [of j "mo_alerts m'"] by simp
  then have "filter (\<lambda>a. \<not> at_resolved a) (mo_alerts m') \<noteq> []" by force
  then have "get_alerts m' None True 10 \<noteq> []" by (simp add: get_alerts_def slice_last_Nil)
  with m' show ?thesis by (simp add: get_dashboard_data_def Let_def split: prod.split)
qed

text \<open>The dashboard counts at most ten active alerts, however many there are.\<close>

theorem dashboard_active_capped:
  "db_active (fst (get_dashboard_data m clk)) = min 10 (count_alerts (\<lambda>a. \<not> at_resolved a) m) \<and>
   (db_healthy (fst (get_dashboard_data m clk)) \<longleftrightarrow> count_alerts (\<lambda>a. \<not> at_resolved a) m = 0)"
  by (simp add: get_dashboard_data_def Let_def get_alerts_def slice_last_length slice_last_Nil count_alerts_def split: prod.split)

section \<open>Concrete measurements\<close>

definition sample_latencies :: "flt list" where
  "sample_latencies = [flt_int 4, flt_int 1, flt_int 2]"

theorem latency_statistics_ordered_witness:
  "ss_min (stats_of sample_latencies) \<le> ss_p95 (stats_of sample_latencies) \<and> ss_p95 (stats_of sample_latencies) \<in> set sample_latencies"
proof -
  have "sample_latencies \<noteq> []" "\<forall>x \<in> set sample_latencies. is_float x" "length sample_latencies < 2 ^ 30"
    by (simp_all add: sample_latencies_def is_float_def flt_int_def fr.r_idem)
  from latency_statistics_ordered [OF this refl] show ?thesis by blast
qed

definition sample_threshold :: threshold where
  "sample_threshold = create_latency_threshold ''order'' (flt_int 100) (flt_int 500) (flt_int 1000)"

lemma sample_threshold_times:
  "alert_times sample_threshold [(flt_int 600, 0), (flt_int 600, 59000000), (flt_int 600, 60000000)] = [0, 60000000]"
  by code_simp

theorem threshold_cooldown_witness:
  "successively (\<lambda>a b. \<not> total_seconds (b - a) < th_cooldown sample_threshold) [0, 60000000]"
  using threshold_cooldown [of sample_threshold "[(flt_int 600, 0), (flt_int 600, 59000000), (flt_int 600, 60000000)]"]
  unfolding sample_threshold_times by (simp add: sample_threshold_def create_latency_threshold_def)

definition sample_alert :: "string \<Rightarrow> alert" where
  "sample_alert name = make_alert Latency_Alert sample_threshold name SEV_CRITICAL (flt_int 600) 5"

definition sample_monitor :: "unit monitor" where
  "sample_monitor = (new_monitor (flt_int 5) ())\<lparr>mo_alerts := [sample_alert ''a'', sample_alert ''b'']\<rparr>"

theorem shared_time_alert_unreachable_witness:
  "\<not> at_acknowledged (mo_alerts (run_ops mark_step sample_monitor [Ack 5, Ack 5, Resolve 5]) ! 1) \<and>
   \<not> db_healthy (fst (get_dashboard_data (run_ops mark_step sample_monitor [Ack 5, Ack 5, Resolve 5]) (\<lambda>_. 0)))"
proof -
  have "0 < (1::nat)" "1 < length (mo_alerts sample_monitor)" "at_time (mo_alerts sample_monitor ! 0) = at_time (mo_alerts sample_monitor ! 1)"
    "\<not> at_resolved (mo_alerts sample_monitor ! 1)" "\<not> at_acknowledged (mo_alerts sample_monitor ! 1)"
    by (simp_all add: sample_monitor_def sample_alert_def make_alert_def)
  with shared_time_alert_unreachable [OF this(1-4) refl, of "[Ack 5, Ack 5, Resolve 5]" "\<lambda>_. 0"] show ?thesis by simp
qed

end
