(* ===== verification/Data_Feed.thy ===== *)
theory Data_Feed
  imports Event_Bus Py_Str
begin

section \<open>Data feeds (\<open>src/data/feed.py\<close>, the rest of \<open>src/data/models.py\<close>)\<close>

text \<open>
  The base classes of data feeds: callbacks and publication on the bus, the bounded buffer of a
  streaming feed, a cache with a time to live, and the aggregator that turns ticks into bars.
  Connecting and fetching belong to the concrete feeds. Data objects are built with the default of
  their field \<open>data_type\<close>.
\<close>

subsection \<open>Market data\<close>

datatype data_type = DT_TICK | DT_BAR | DT_QUOTE | DT_TRADE | DT_ORDER_BOOK | DT_FUNDAMENTAL | DT_NEWS

fun data_type_name :: "data_type \<Rightarrow> string" where
  "data_type_name DT_TICK = ''TICK''"
| "data_type_name DT_BAR = ''BAR''"
| "data_type_name DT_QUOTE = ''QUOTE''"
| "data_type_name DT_TRADE = ''TRADE''"
| "data_type_name DT_ORDER_BOOK = ''ORDER_BOOK''"
| "data_type_name DT_FUNDAMENTAL = ''FUNDAMENTAL''"
| "data_type_name DT_NEWS = ''NEWS''"

record base_data =
  bd_symbol :: symbol
  bd_timestamp :: time

record quote = base_data +
  qt_bid_price :: dec
  qt_bid_size :: dec
  qt_ask_price :: dec
  qt_ask_size :: dec

record market_trade = base_data +
  mt_price :: dec
  mt_size :: dec
  mt_side :: string
  mt_trade_id :: string

record book_level =
  bl_price :: dec
  bl_size :: dec
  bl_order_count :: "int option"

record order_book = base_data +
  ob_bids :: "book_level list"
  ob_asks :: "book_level list"

record fundamental = base_data +
  fu_pe_ratio :: "flt option"
  fu_eps :: "dec option"
  fu_market_cap :: "dec option"
  fu_dividend_yield :: "flt option"
  fu_book_value :: "dec option"

record news = base_data +
  nw_headline :: string
  nw_content :: string
  nw_source :: string
  nw_sentiment :: "flt option"

datatype feed_data =
    FD_Tick tick
  | FD_Bar bar
  | FD_Quote quote
  | FD_Trade market_trade
  | FD_Book order_book
  | FD_Fundamental fundamental
  | FD_News news

fun fd_type :: "feed_data \<Rightarrow> data_type" where
  "fd_type (FD_Tick x) = DT_TICK"
| "fd_type (FD_Bar x) = DT_BAR"
| "fd_type (FD_Quote x) = DT_QUOTE"
| "fd_type (FD_Trade x) = DT_TRADE"
| "fd_type (FD_Book x) = DT_ORDER_BOOK"
| "fd_type (FD_Fundamental x) = DT_FUNDAMENTAL"
| "fd_type (FD_News x) = DT_NEWS"

fun fd_symbol :: "feed_data \<Rightarrow> symbol" where
  "fd_symbol (FD_Tick x) = t_symbol x"
| "fd_symbol (FD_Bar x) = b_symbol x"
| "fd_symbol (FD_Quote x) = bd_symbol x"
| "fd_symbol (FD_Trade x) = bd_symbol x"
| "fd_symbol (FD_Book x) = bd_symbol x"
| "fd_symbol (FD_Fundamental x) = bd_symbol x"
| "fd_symbol (FD_News x) = bd_symbol x"

fun fd_time :: "feed_data \<Rightarrow> time" where
  "fd_time (FD_Tick x) = t_timestamp x"
| "fd_time (FD_Bar x) = b_timestamp x"
| "fd_time (FD_Quote x) = bd_timestamp x"
| "fd_time (FD_Trade x) = bd_timestamp x"
| "fd_time (FD_Book x) = bd_timestamp x"
| "fd_time (FD_Fundamental x) = bd_timestamp x"
| "fd_time (FD_News x) = bd_timestamp x"

subsection \<open>Callbacks, the bus and the buffer\<close>

text \<open>A callback is a number; \<open>code\<close> says what it does, and what it raises is caught.\<close>

record 'w data_feed =
  df_name :: string
  df_callbacks :: "(data_type, nat list) dict"
  df_bus :: "feed_data event_bus"
  df_running :: bool
  df_stream_task :: bool
  df_buffer :: "feed_data list"
  df_buffer_task :: bool
  df_world :: 'w

definition new_feed :: "string \<Rightarrow> feed_data event_bus \<Rightarrow> 'w \<Rightarrow> 'w data_feed" where
  "new_feed name bus w =
     \<lparr>df_name = name, df_callbacks = [], df_bus = bus, df_running = False, df_stream_task = False, df_buffer = [],
      df_buffer_task = False, df_world = w\<rparr>"

definition feed_callbacks :: "'w data_feed \<Rightarrow> data_type \<Rightarrow> nat list" where
  "feed_callbacks f t = (case dget (df_callbacks f) t of None \<Rightarrow> [] | Some cs \<Rightarrow> cs)"

definition register_callback :: "nat \<Rightarrow> 'w data_feed \<Rightarrow> data_type \<Rightarrow> 'w data_feed" where
  "register_callback c f t = f\<lparr>df_callbacks := dset (df_callbacks f) t (feed_callbacks f t @ [c])\<rparr>"

definition feed_on_data :: "'w data_feed \<Rightarrow> nat \<Rightarrow> data_type option \<Rightarrow> 'w data_feed" where
  "feed_on_data f c t =
     (case t of
        Some dt \<Rightarrow> register_callback c f dt
      | None \<Rightarrow> foldl (register_callback c) f
          [DT_TICK, DT_BAR, DT_QUOTE, DT_TRADE, DT_ORDER_BOOK, DT_FUNDAMENTAL, DT_NEWS])"

fun data_event_type :: "data_type \<Rightarrow> event_type option" where
  "data_event_type DT_TICK = Some TICK"
| "data_event_type DT_BAR = Some BAR"
| "data_event_type DT_TRADE = Some TRADE"
| "data_event_type DT_QUOTE = Some QUOTE"
| "data_event_type _ = None"

definition emit_data ::
  "(nat \<Rightarrow> (feed_data, 'w) callback) \<Rightarrow> (hid \<Rightarrow> feed_data event \<Rightarrow> 'w \<Rightarrow> 'w \<times> exn option) \<Rightarrow> 'w data_feed \<Rightarrow> feed_data \<Rightarrow> 'w data_feed" where
  "emit_data code run f d =
     (let w1 = notify (map code (feed_callbacks f (fd_type d))) d (df_world f)
      in case data_event_type (fd_type d) of
           None \<Rightarrow> f\<lparr>df_world := w1\<rparr>
         | Some t \<Rightarrow>
             f\<lparr>df_world := fst (emit run (df_bus f)
                \<lparr>e_type = t, e_timestamp = fd_time d, e_data = d, e_symbol = Some (symbol_str (fd_symbol d))\<rparr> w1)\<rparr>)"

definition start_streaming :: "'w data_feed \<Rightarrow> 'w data_feed" where
  "start_streaming f = f\<lparr>df_running := True, df_stream_task := True, df_buffer_task := True\<rparr>"

definition stop_streaming :: "'w data_feed \<Rightarrow> 'w data_feed" where
  "stop_streaming f = f\<lparr>df_running := False, df_stream_task := False, df_buffer_task := False\<rparr>"

text \<open>A full buffer drops what comes; a round of the loop hands on the oldest element.\<close>

definition buffer_data :: "'w data_feed \<Rightarrow> feed_data \<Rightarrow> 'w data_feed" where
  "buffer_data f d = (if length (df_buffer f) < 10000 then f\<lparr>df_buffer := df_buffer f @ [d]\<rparr> else f)"

definition buffer_round ::
  "(nat \<Rightarrow> (feed_data, 'w) callback) \<Rightarrow> (hid \<Rightarrow> feed_data event \<Rightarrow> 'w \<Rightarrow> 'w \<times> exn option) \<Rightarrow> 'w data_feed \<Rightarrow> 'w data_feed" where
  "buffer_round code run f =
     (if \<not> df_running f \<or> \<not> df_buffer_task f then f
      else (case df_buffer f of [] \<Rightarrow> f | d # ds \<Rightarrow> emit_data code run (f\<lparr>df_buffer := ds\<rparr>) d))"

subsection \<open>The cache\<close>

record 'd data_cache =
  dc_max :: int
  dc_ttl :: int
  dc_cache :: "(string, 'd) dict"
  dc_stamps :: "(string, time) dict"

definition new_data_cache :: "int \<Rightarrow> int \<Rightarrow> 'd data_cache" where
  "new_data_cache m ttl = \<lparr>dc_max = m, dc_ttl = ttl, dc_cache = [], dc_stamps = []\<rparr>"

definition cache_key_of :: "symbol \<Rightarrow> data_type \<Rightarrow> resolution option \<Rightarrow> string" where
  "cache_key_of sy dt res =
     ticker sy @ '':'' @ data_type_name dt @ (case res of None \<Rightarrow> [] | Some r \<Rightarrow> '':'' @ resolution_value r)"

definition drop_key :: "'d data_cache \<Rightarrow> string \<Rightarrow> 'd data_cache" where
  "drop_key c k = c\<lparr>dc_cache := ddel (dc_cache c) k, dc_stamps := ddel (dc_stamps c) k\<rparr>"

definition dc_get :: "'d data_cache \<Rightarrow> symbol \<Rightarrow> data_type \<Rightarrow> resolution option \<Rightarrow> time \<Rightarrow> 'd option \<times> 'd data_cache" where
  "dc_get c sy dt res now =
     (let k = cache_key_of sy dt res in
      case dget (dc_cache c) k of
        None \<Rightarrow> (None, c)
      | Some d \<Rightarrow>
          (case dget (dc_stamps c) k of
             None \<Rightarrow> (Some d, c)
           | Some t \<Rightarrow> if of_int (dc_ttl c) < fval (total_seconds (now - t)) then (None, drop_key c k) else (Some d, c)))"

text \<open>\<open>min\<close> over the keys returns the first one with the smallest timestamp.\<close>

definition oldest_key :: "(string, time) dict \<Rightarrow> exn + string" where
  "oldest_key d =
     (case d of
        [] \<Rightarrow> Inl ValueError
      | x # xs \<Rightarrow> Inr (fst (foldl (\<lambda>b y. if snd y < snd b then y else b) x xs)))"

definition dc_set ::
  "'d data_cache \<Rightarrow> symbol \<Rightarrow> data_type \<Rightarrow> 'd \<Rightarrow> resolution option \<Rightarrow> time \<Rightarrow> exn + 'd data_cache" where
  "dc_set c sy dt d res now =
     (let k = cache_key_of sy dt res in
      and_then
        (if dc_max c \<le> int (length (dc_cache c)) \<and> dget (dc_cache c) k = None
         then and_then (oldest_key (dc_stamps c)) (\<lambda>old. Inr (drop_key c old))
         else Inr c)
        (\<lambda>c1. Inr (c1\<lparr>dc_cache := dset (dc_cache c1) k d, dc_stamps := dset (dc_stamps c1) k now\<rparr>)))"

definition dc_clear :: "'d data_cache \<Rightarrow> symbol option \<Rightarrow> 'd data_cache" where
  "dc_clear c sy =
     (case sy of
        Some s \<Rightarrow> foldl drop_key c (filter (starts_with (ticker s @ '':'')) (dkeys (dc_cache c)))
      | None \<Rightarrow> c\<lparr>dc_cache := [], dc_stamps := []\<rparr>)"

definition dc_get_stats :: "'d data_cache \<Rightarrow> nat \<times> int \<times> int" where
  "dc_get_stats c = (length (dc_cache c), dc_max c, dc_ttl c)"

subsection \<open>Aggregating ticks into bars\<close>

text \<open>
  Times are wall-clock readings, so the start of a period is a multiple of its length. The
  dictionary of buffers keeps the symbol object that created an entry.
\<close>

record aggregator =
  ag_resolution :: resolution
  ag_buffers :: "(skey, symbol \<times> tick list) dict"
  ag_last :: "(skey, time) dict"

definition new_aggregator :: "resolution \<Rightarrow> aggregator" where
  "new_aggregator r = \<lparr>ag_resolution = r, ag_buffers = [], ag_last = []\<rparr>"

fun period_start :: "resolution \<Rightarrow> time \<Rightarrow> time" where
  "period_start RMinute t = t - t mod 60000000"
| "period_start RHour t = t - t mod 3600000000"
| "period_start RDaily t = t - t mod 86400000000"
| "period_start _ t = t"

definition create_bar :: "resolution \<Rightarrow> symbol \<Rightarrow> time \<Rightarrow> tick list \<Rightarrow> bar" where
  "create_bar r sy ts ticks =
     (let prices = map mid_price ticks
      in bar_post_init
           \<lparr>b_symbol = sy, b_timestamp = ts, b_open = hd prices, b_high = Max (set prices), b_low = Min (set prices),
            b_close = last prices, b_volume = dec_sum (map (\<lambda>t. bid_size t + ask_size t) ticks), b_resolution = r\<rparr>)"

definition ag_buffer :: "aggregator \<Rightarrow> symbol \<Rightarrow> symbol \<times> tick list" where
  "ag_buffer a sy = (case dget (ag_buffers a) (symbol_key sy) of None \<Rightarrow> (sy, []) | Some b \<Rightarrow> b)"

definition put_buffer :: "aggregator \<Rightarrow> symbol \<Rightarrow> tick list \<Rightarrow> aggregator" where
  "put_buffer a sy ticks = a\<lparr>ag_buffers := dset (ag_buffers a) (symbol_key sy) (fst (ag_buffer a sy), ticks)\<rparr>"

definition add_tick :: "aggregator \<Rightarrow> tick \<Rightarrow> bar option \<times> aggregator" where
  "add_tick a t =
     (let sy = t_symbol t; k = symbol_key sy; r = ag_resolution a; ps = period_start r (t_timestamp t);
          buf = snd (ag_buffer a sy);
          append = (put_buffer a sy (buf @ [t]))\<lparr>ag_last := dset (ag_last a) k (t_timestamp t)\<rparr>
      in case dget (ag_last a) k of
           None \<Rightarrow> (None, append)
         | Some l \<Rightarrow>
             (let lp = period_start r l
              in if lp < ps \<and> buf \<noteq> []
                 then (Some (create_bar r sy lp buf), (put_buffer a sy [t])\<lparr>ag_last := dset (ag_last a) k (t_timestamp t)\<rparr>)
                 else (None, append)))"

text \<open>\<open>flush\<close> of some symbols; \<open>now\<close> is read for a symbol without a last time.\<close>

fun flush_each :: "time \<Rightarrow> symbol list \<Rightarrow> aggregator \<Rightarrow> bar list \<times> aggregator" where
  "flush_each now [] a = ([], a)"
| "flush_each now (sy # sys) a =
     (case ag_buffer a sy of
        (_, []) \<Rightarrow> flush_each now sys (put_buffer a sy [])
      | (_, ticks) \<Rightarrow>
          (let l = (case dget (ag_last a) (symbol_key sy) of None \<Rightarrow> now | Some l \<Rightarrow> l);
               b = create_bar (ag_resolution a) sy (period_start (ag_resolution a) l) ticks
           in case flush_each now sys (put_buffer a sy []) of (bs, a1) \<Rightarrow> (b # bs, a1)))"

definition ag_flush :: "aggregator \<Rightarrow> symbol option \<Rightarrow> time \<Rightarrow> bar list \<times> aggregator" where
  "ag_flush a sy now =
     flush_each now (case sy of Some s \<Rightarrow> [s] | None \<Rightarrow> map fst (dvals (ag_buffers a))) a"

section \<open>Lemmas\<close>

subsection \<open>Runs of equal periods\<close>

text \<open>The maximal runs of neighbours with the same image.\<close>

fun runs :: "('a \<Rightarrow> 'b) \<Rightarrow> 'a list \<Rightarrow> 'a list list" where
  "runs f [] = []"
| "runs f (x # xs) = (case runs f xs of [] \<Rightarrow> [[x]] | g # gs \<Rightarrow> if f x = f (hd g) then (x # g) # gs else [x] # g # gs)"

lemma runs_Nil [simp]: "runs f xs = [] \<longleftrightarrow> xs = []"
  by (cases xs) (auto split: list.split)

lemma hd_runs: "xs \<noteq> [] \<Longrightarrow> hd (hd (runs f xs)) = hd xs"
  by (cases xs) (auto split: list.split)

lemma runs_nonempty: "g \<in> set (runs f xs) \<Longrightarrow> g \<noteq> []"
  by (induction xs arbitrary: g) (auto split: list.splits if_splits)

lemma runs_same: "g \<in> set (runs f xs) \<Longrightarrow> x \<in> set g \<Longrightarrow> f x = f (hd g)"
  by (induction xs arbitrary: g x) (auto split: list.splits if_splits)

lemma runs_snoc:
  "runs f (xs @ [x]) =
     (if xs \<noteq> [] \<and> f (last xs) = f x then butlast (runs f xs) @ [last (runs f xs) @ [x]] else runs f xs @ [[x]])"
proof (induction xs)
  case (Cons y ys)
  show ?case
  proof (cases "ys = []")
    case False
    then obtain g gs where g: "runs f ys = g # gs" by (cases "runs f ys") auto
    have "g \<noteq> []" using runs_nonempty [of g f ys] g by simp
    with Cons False g show ?thesis by (auto split: list.split)
  qed simp
qed simp

lemma last_runs: "xs \<noteq> [] \<Longrightarrow> last (last (runs f xs)) = last xs \<and> last (runs f xs) \<noteq> []"
  by (induction xs rule: rev_induct) (auto simp: runs_snoc)

lemma last_runs_image: "xs \<noteq> [] \<Longrightarrow> f (hd (last (runs f xs))) = f (last xs)"
  using last_runs [of xs f] runs_same [of "last (runs f xs)" f xs "last xs"]
  by (metis last_in_set runs_Nil)

subsection \<open>The aggregator\<close>

lemma period_start_mono: "s \<le> t \<Longrightarrow> period_start r s \<le> period_start r t"
proof -
  assume st: "s \<le> t"
  have "m * (s div m) \<le> m * (t div m)" if "0 < m" for m :: int
    using that st by (intro mult_left_mono zdiv_mono1) auto
  then have "s - s mod m \<le> t - t mod m" if "0 < m" for m :: int
    using that by (simp add: minus_mod_eq_mult_div)
  with st show ?thesis by (cases r) simp_all
qed

definition tick_period :: "resolution \<Rightarrow> tick \<Rightarrow> time" where
  "tick_period r t = period_start r (t_timestamp t)"

definition ticks_of :: "symbol \<Rightarrow> tick list \<Rightarrow> tick list" where
  "ticks_of sy ts = filter (\<lambda>t. symbol_eq (t_symbol t) sy) ts"

definition bar_of :: "resolution \<Rightarrow> symbol \<Rightarrow> tick list \<Rightarrow> bar" where
  "bar_of r sy g = create_bar r sy (tick_period r (hd g)) g"

definition add_ticks :: "aggregator \<Rightarrow> tick list \<Rightarrow> bar list \<times> aggregator" where
  "add_ticks a ts =
     foldl (\<lambda>(bs, a) t. case add_tick a t of (b, a1) \<Rightarrow> (bs @ (case b of None \<Rightarrow> [] | Some x \<Rightarrow> [x]), a1)) ([], a) ts"

lemma add_ticks_snoc:
  "add_ticks a (ts @ [t]) =
     (fst (add_ticks a ts) @ (case fst (add_tick (snd (add_ticks a ts)) t) of None \<Rightarrow> [] | Some x \<Rightarrow> [x]),
      snd (add_tick (snd (add_ticks a ts)) t))"
  by (simp add: add_ticks_def split: prod.split)

lemma create_bar_symbol [simp]: "b_symbol (create_bar r sy ts g) = sy"
  by (simp add: create_bar_def Let_def frame_simps)

text \<open>What the aggregator knows of a symbol after the ticks.\<close>

definition aggregates :: "resolution \<Rightarrow> symbol \<Rightarrow> tick list \<Rightarrow> bar list \<Rightarrow> aggregator \<Rightarrow> bool" where
  "aggregates r sy ts bs a \<longleftrightarrow> ag_resolution a = r \<and>
     dget (ag_last a) (symbol_key sy) = (if ts = [] then None else Some (t_timestamp (last ts))) \<and>
     snd (ag_buffer a sy) = (if ts = [] then [] else last (runs (tick_period r) ts)) \<and>
     filter (\<lambda>b. symbol_eq (b_symbol b) sy) bs = map (bar_of r sy) (butlast (runs (tick_period r) ts))"

lemma ag_buffer_key: "symbol_key sy' = symbol_key sy \<Longrightarrow> snd (ag_buffer a sy') = snd (ag_buffer a sy)"
  by (simp add: ag_buffer_def split: option.split)

lemma ag_buffer_put:
  "snd (ag_buffer (put_buffer a sy' ts) sy) = (if symbol_eq sy' sy then ts else snd (ag_buffer a sy))"
  by (auto simp: put_buffer_def ag_buffer_def symbol_eq_def)

lemma put_buffer_frame [simp]:
  "ag_last (put_buffer a sy ts) = ag_last a" "ag_resolution (put_buffer a sy ts) = ag_resolution a"
  by (simp_all add: put_buffer_def)

lemma ag_buffer_last [simp]: "ag_buffer (a\<lparr>ag_last := l\<rparr>) sy = ag_buffer a sy"
  by (simp add: ag_buffer_def)

lemma aggregates_other:
  assumes "aggregates r sy ts bs a" "\<not> symbol_eq (t_symbol t) sy"
  shows "aggregates r sy ts (bs @ (case fst (add_tick a t) of None \<Rightarrow> [] | Some x \<Rightarrow> [x])) (snd (add_tick a t))"
proof -
  have "symbol_key sy \<noteq> symbol_key (t_symbol t)" using assms(2) by (auto simp: symbol_eq_def)
  with assms show ?thesis
    by (auto simp: aggregates_def add_tick_def Let_def ag_buffer_put split: option.split)
qed

lemma aggregates_tick:
  assumes "aggregates r sy ts bs a" "t_symbol t = sy" "ts \<noteq> [] \<Longrightarrow> t_timestamp (last ts) \<le> t_timestamp t"
  shows "aggregates r sy (ts @ [t]) (bs @ (case fst (add_tick a t) of None \<Rightarrow> [] | Some x \<Rightarrow> [x])) (snd (add_tick a t))"
proof (cases "ts = []")
  case True
  with assms(1,2) show ?thesis by (simp add: aggregates_def add_tick_def Let_def ag_buffer_put)
next
  case False
  let ?P = "tick_period r" and ?g = "last (runs (tick_period r) ts)"
  have a: "ag_resolution a = r" "dget (ag_last a) (symbol_key sy) = Some (t_timestamp (last ts))" "snd (ag_buffer a sy) = ?g"
    "filter (\<lambda>b. symbol_eq (b_symbol b) sy) bs = map (bar_of r sy) (butlast (runs ?P ts))"
    using assms(1) False by (simp_all add: aggregates_def)
  have g: "?g \<noteq> []" "?P (hd ?g) = ?P (last ts)" using last_runs [of ts ?P] last_runs_image [of ts ?P] False by auto
  have le: "?P (last ts) \<le> ?P t" using assms(3) False by (simp add: tick_period_def period_start_mono)
  have runs: "runs ?P ts = butlast (runs ?P ts) @ [?g]" using False by simp
  show ?thesis
  proof (cases "?P (last ts) = ?P t")
    case True
    then have "\<not> period_start r (t_timestamp (last ts)) < period_start r (t_timestamp t)" by (simp add: tick_period_def)
    with a assms(2) have "add_tick a t = (None, (put_buffer a sy (?g @ [t]))\<lparr>ag_last := dset (ag_last a) (symbol_key sy) (t_timestamp t)\<rparr>)"
      by (simp add: add_tick_def Let_def)
    with a True False show ?thesis by (simp add: aggregates_def runs_snoc ag_buffer_put)
  next
    case other: False
    with le have "period_start r (t_timestamp (last ts)) < period_start r (t_timestamp t)" by (simp add: tick_period_def)
    with a g assms(2) have "add_tick a t = (Some (create_bar r sy (?P (last ts)) ?g),
        (put_buffer a sy [t])\<lparr>ag_last := dset (ag_last a) (symbol_key sy) (t_timestamp t)\<rparr>)"
      by (simp add: add_tick_def Let_def tick_period_def)
    moreover have "map (bar_of r sy) (runs ?P ts) = map (bar_of r sy) (butlast (runs ?P ts)) @ [create_bar r sy (?P (last ts)) ?g]"
      using g(2) by (subst runs) (simp add: bar_of_def)
    ultimately show ?thesis using a False other by (simp add: aggregates_def runs_snoc ag_buffer_put butlast_append)
  qed
qed

lemma aggregates_run:
  assumes "\<forall>t \<in> set ts. symbol_eq (t_symbol t) sy \<longrightarrow> t_symbol t = sy" "sorted (map t_timestamp (ticks_of sy ts))"
  shows "aggregates r sy (ticks_of sy ts) (fst (add_ticks (new_aggregator r) ts)) (snd (add_ticks (new_aggregator r) ts))"
  using assms
proof (induction ts rule: rev_induct)
  case Nil
  then show ?case by (simp add: ticks_of_def add_ticks_def aggregates_def new_aggregator_def ag_buffer_def)
next
  case (snoc t ts)
  have s: "sorted (map t_timestamp (ticks_of sy ts))" using snoc.prems(2) by (auto simp: ticks_of_def sorted_append split: if_splits)
  with snoc have IH: "aggregates r sy (ticks_of sy ts) (fst (add_ticks (new_aggregator r) ts)) (snd (add_ticks (new_aggregator r) ts))" by simp
  show ?case
  proof (cases "symbol_eq (t_symbol t) sy")
    case True
    then have sy: "t_symbol t = sy" using snoc.prems(1) by simp
    have "ticks_of sy (ts @ [t]) = ticks_of sy ts @ [t]" using True by (simp add: ticks_of_def)
    moreover have "ticks_of sy ts \<noteq> [] \<Longrightarrow> t_timestamp (last (ticks_of sy ts)) \<le> t_timestamp t"
      using snoc.prems(2) True last_in_set [of "ticks_of sy ts"] by (auto simp: ticks_of_def sorted_append)
    ultimately show ?thesis using aggregates_tick [OF IH sy] by (simp add: add_ticks_snoc)
  next
    case False
    then have "ticks_of sy (ts @ [t]) = ticks_of sy ts" by (simp add: ticks_of_def)
    then show ?thesis using aggregates_other [OF IH False] by (simp add: add_ticks_snoc)
  qed
qed

subsection \<open>The cache\<close>

lemma dkeys_dset: "dkeys (dset d k v) = (if k \<in> set (dkeys d) then dkeys d else dkeys d @ [k])"
  by (simp add: update_keys)

lemma dkeys_ddel: "dkeys (ddel d k) = removeAll k (dkeys d)"
  by (simp add: delete_keys)

definition cache_ok :: "'d data_cache \<Rightarrow> bool" where
  "cache_ok c \<longleftrightarrow> 0 < dc_max c \<and> dict_ok (dc_cache c) \<and> dkeys (dc_stamps c) = dkeys (dc_cache c) \<and> int (length (dc_cache c)) \<le> dc_max c"

lemma cache_ok_drop: "cache_ok c \<Longrightarrow> cache_ok (drop_key c k)"
  using length_ddel_le [of k "dc_cache c"] by (auto simp: cache_ok_def drop_key_def dkeys_ddel)

lemma cache_ok_drops: "cache_ok c \<Longrightarrow> cache_ok (foldl drop_key c ks)"
  by (induction ks arbitrary: c) (simp_all add: cache_ok_drop)

lemma oldest_key_in: "oldest_key d = Inr k \<Longrightarrow> k \<in> set (dkeys d)"
proof -
  have "fst (foldl (\<lambda>b y. if snd y < snd b then y else b) x xs) \<in> set (dkeys (x # xs))" for x :: "string \<times> time" and xs
    by (induction xs arbitrary: x) auto
  then show "oldest_key d = Inr k \<Longrightarrow> k \<in> set (dkeys d)" by (auto simp: oldest_key_def split: list.splits)
qed

lemma dc_set_ok:
  assumes "cache_ok c"
  shows "\<exists>c'. dc_set c sy dt d res now = Inr c' \<and> cache_ok c' \<and>
    dget (dc_cache c') (cache_key_of sy dt res) = Some d \<and> dget (dc_stamps c') (cache_key_of sy dt res) = Some now"
proof -
  let ?k = "cache_key_of sy dt res"
  define c1 where "c1 = (if dc_max c \<le> int (length (dc_cache c)) \<and> dget (dc_cache c) ?k = None
      then drop_key c (projr (oldest_key (dc_stamps c))) else c)"
  have room: "cache_ok c1 \<and> (dget (dc_cache c1) ?k = None \<longrightarrow> int (length (dc_cache c1)) < dc_max c1) \<and>
      dc_set c sy dt d res now = Inr (c1\<lparr>dc_cache := dset (dc_cache c1) ?k d, dc_stamps := dset (dc_stamps c1) ?k now\<rparr>)"
  proof (cases "dc_max c \<le> int (length (dc_cache c)) \<and> dget (dc_cache c) ?k = None")
    case True
    then have "dc_cache c \<noteq> []" using assms by (auto simp: cache_ok_def)
    then have "dkeys (dc_stamps c) \<noteq> []" using assms by (auto simp: cache_ok_def)
    then obtain old where old: "oldest_key (dc_stamps c) = Inr old" by (cases "dc_stamps c") (auto simp: oldest_key_def)
    from oldest_key_in [OF this] assms have "old \<in> set (dkeys (dc_cache c))" unfolding cache_ok_def by metis
    then obtain v where "dget (dc_cache c) old = Some v" using dget_None_iff [of "dc_cache c" old] by auto
    then have "Suc (length (ddel (dc_cache c) old)) = length (dc_cache c)"
      using assms by (intro length_ddel_present) (auto simp: cache_ok_def)
    then show ?thesis using True old assms cache_ok_drop [OF assms, of old]
      by (auto simp: c1_def dc_set_def Let_def drop_key_def cache_ok_def)
  next
    case False
    then show ?thesis using assms by (auto simp: c1_def dc_set_def Let_def)
  qed
  have "cache_ok (c1\<lparr>dc_cache := dset (dc_cache c1) ?k d, dc_stamps := dset (dc_stamps c1) ?k now\<rparr>)"
    using room length_dset_new [of "dc_cache c1" ?k d] length_dset_old [of "dc_cache c1" ?k _ d]
    by (cases "dget (dc_cache c1) ?k") (auto simp: cache_ok_def dkeys_dset)
  with room show ?thesis by auto
qed

datatype 'd cache_op =
    DC_Get symbol data_type "resolution option" time
  | DC_Set symbol data_type 'd "resolution option" time
  | DC_Clear "symbol option"

fun data_cache_step :: "'d data_cache \<Rightarrow> 'd cache_op \<Rightarrow> 'd data_cache" where
  "data_cache_step c (DC_Get sy dt res now) = snd (dc_get c sy dt res now)"
| "data_cache_step c (DC_Set sy dt d res now) = (case dc_set c sy dt d res now of Inl x \<Rightarrow> c | Inr c' \<Rightarrow> c')"
| "data_cache_step c (DC_Clear sy) = dc_clear c sy"

lemma cache_ok_step: "cache_ok c \<Longrightarrow> cache_ok (data_cache_step c x)"
proof (cases x)
  case (DC_Set sy dt d res now)
  assume "cache_ok c"
  from dc_set_ok [OF this, of sy dt d res now] show ?thesis by (auto simp: DC_Set)
next
  case (DC_Get sy dt res now)
  assume "cache_ok c"
  then show ?thesis by (auto simp: DC_Get dc_get_def Let_def cache_ok_drop split: option.split)
next
  case (DC_Clear sy)
  assume "cache_ok c"
  then show ?thesis by (cases sy) (simp_all add: DC_Clear dc_clear_def cache_ok_drops, simp add: cache_ok_def)
qed

interpretation feed_cache: run_system data_cache_step "\<lambda>_ _. True" cache_ok
  by unfold_locales (rule cache_ok_step)

section \<open>Properties of feeds\<close>

text \<open>C32. The aggregator makes exactly one bar of each period that has ticks of a symbol, whatever ticks of
  other symbols come in between: what it returned and what a final flush returns are the bars of the
  maximal runs of ticks in the same period, in order, when the times of the symbol do not decrease.\<close>

theorem aggregator_partitions_ticks:
  assumes "\<forall>t \<in> set ts. symbol_eq (t_symbol t) sy \<longrightarrow> t_symbol t = sy" "sorted (map t_timestamp (ticks_of sy ts))"
    and "add_ticks (new_aggregator r) ts = (bs, a)"
  shows "filter (\<lambda>b. symbol_eq (b_symbol b) sy) bs @ fst (ag_flush a (Some sy) now) =
    map (\<lambda>g. create_bar r sy (period_start r (t_timestamp (hd g))) g)
      (runs (\<lambda>t. period_start r (t_timestamp t)) (ticks_of sy ts))"
proof -
  let ?ts = "ticks_of sy ts" and ?P = "tick_period r"
  have A: "aggregates r sy ?ts bs a" using aggregates_run [OF assms(1,2), of r] assms(3) by simp
  have "filter (\<lambda>b. symbol_eq (b_symbol b) sy) bs @ fst (ag_flush a (Some sy) now) = map (bar_of r sy) (runs ?P ?ts)"
  proof (cases "?ts = []")
    case True
    then show ?thesis using A by (auto simp: aggregates_def ag_flush_def split: prod.split)
  next
    case False
    let ?g = "last (runs ?P ?ts)"
    have g: "?g \<noteq> []" "?P (hd ?g) = ?P (last ?ts)" using last_runs [of ?ts ?P] last_runs_image [of ?ts ?P] False by auto
    obtain x xs where x: "?g = x # xs" using g(1) by (cases ?g) auto
    have "ag_buffer a sy = (fst (ag_buffer a sy), x # xs)" using A False x by (simp add: aggregates_def prod_eq_iff)
    then have "fst (ag_flush a (Some sy) now) = [bar_of r sy ?g]"
      using A False g x by (auto simp: ag_flush_def aggregates_def bar_of_def tick_period_def Let_def split: prod.split)
    moreover have "map (bar_of r sy) (runs ?P ?ts) = map (bar_of r sy) (butlast (runs ?P ?ts)) @ [bar_of r sy ?g]"
      using False by (cases "runs ?P ?ts" rule: rev_cases) simp_all
    ultimately show ?thesis using A by (simp add: aggregates_def)
  qed
  then show ?thesis by (simp add: bar_of_def [abs_def] tick_period_def [abs_def])
qed

text \<open>A tick that comes late, from a period before the last one, is put into the current bar and moves
  the clock of the symbol back: the next tick of the current period then closes a bar that is dated
  to the period of the late tick and mixes both periods.\<close>

theorem late_tick_misdates_bar:
  assumes "dget (ag_last a) (symbol_key sy) = Some l" "snd (ag_buffer a sy) = buf" "buf \<noteq> []"
    and "t_symbol late = sy" "t_symbol t = sy" "ag_resolution a = r"
    and "period_start r (t_timestamp late) < period_start r l" "period_start r (t_timestamp t) = period_start r l"
  shows "fst (add_tick (snd (add_tick a late)) t) = Some (create_bar r sy (period_start r (t_timestamp late)) (buf @ [late]))"
  using assms by (simp add: add_tick_def Let_def ag_buffer_put)

text \<open>The cache never grows beyond its size, a set never fails, and what was set is returned until it
  expires or is evicted; an expired entry is removed by the get that finds it.\<close>

theorem data_cache_bounded:
  assumes "0 < m" "c = run_ops data_cache_step (new_data_cache m ttl) xs"
  shows "int (length (dc_cache c)) \<le> m \<and> dkeys (dc_stamps c) = dkeys (dc_cache c) \<and>
    (\<exists>c'. dc_set c sy dt d res t0 = Inr c' \<and> int (length (dc_cache c')) \<le> m \<and>
      fst (dc_get c' sy dt res t1) = (if of_int (dc_ttl c') < fval (total_seconds (t1 - t0)) then None else Some d))"
proof -
  have "dc_max (run_ops data_cache_step c0 ys) = dc_max c0" for c0 :: "'a data_cache" and ys
  proof (induction ys arbitrary: c0)
    case (Cons y ys)
    have drops: "dc_max (foldl drop_key c1 ks) = dc_max c1" for c1 :: "'a data_cache" and ks
      by (induction ks arbitrary: c1) (simp_all add: drop_key_def)
    have "dc_max (data_cache_step c0 y) = dc_max c0"
      by (cases y) (auto simp: dc_get_def dc_set_def dc_clear_def Let_def drops and_then_Inr_iff drop_key_def
          split: option.split sum.split if_splits)
    with Cons show ?case by simp
  qed simp
  then have m: "dc_max c = m" using assms(2) by (simp add: new_data_cache_def)
  have "cache_ok c" unfolding assms(2) by (rule feed_cache.run_inv) (use assms(1) in \<open>simp_all add: cache_ok_def new_data_cache_def\<close>)
  moreover from dc_set_ok [OF this, of sy dt d res t0] obtain c' where c': "dc_set c sy dt d res t0 = Inr c'" "cache_ok c'"
    "dget (dc_cache c') (cache_key_of sy dt res) = Some d" "dget (dc_stamps c') (cache_key_of sy dt res) = Some t0" by blast
  moreover have "dc_max c' = dc_max c" using c'(1)
    by (auto simp: dc_set_def Let_def and_then_Inr_iff drop_key_def split: if_splits)
  ultimately show ?thesis using m by (auto simp: cache_ok_def dc_get_def Let_def)
qed

definition sample_tick_at :: "time \<Rightarrow> tick" where
  "sample_tick_at t =
     \<lparr>t_symbol = sample_symbol, t_timestamp = t, bid_price = Dec 10, ask_price = Dec 12, bid_size = 1, ask_size = 1,
      last_price = None, last_size = None\<rparr>"

definition sample_ticks :: "tick list" where
  "sample_ticks = map sample_tick_at [0, 30000000, 70000000]"

theorem aggregator_partitions_ticks_witness:
  "length (filter (\<lambda>b. symbol_eq (b_symbol b) sample_symbol) (fst (add_ticks (new_aggregator RMinute) sample_ticks)) @
     fst (ag_flush (snd (add_ticks (new_aggregator RMinute) sample_ticks)) (Some sample_symbol) 0)) = 2"
proof -
  have "\<forall>t \<in> set sample_ticks. symbol_eq (t_symbol t) sample_symbol \<longrightarrow> t_symbol t = sample_symbol"
    "sorted (map t_timestamp (ticks_of sample_symbol sample_ticks))"
    by (simp_all add: sample_ticks_def sample_tick_at_def ticks_of_def symbol_eq_def)
  from aggregator_partitions_ticks [OF this prod.collapse [symmetric], of RMinute 0] show ?thesis
    by (simp add: sample_ticks_def sample_tick_at_def ticks_of_def symbol_eq_def)
qed

theorem data_cache_bounded_witness:
  "length (dc_cache (run_ops data_cache_step (new_data_cache 1 300)
     [DC_Set sample_symbol DT_TICK (0::nat) None 0, DC_Set sample_symbol DT_BAR 1 (Some RMinute) 1])) \<le> 1"
  using data_cache_bounded [of 1, OF _ refl, of 300 "[DC_Set sample_symbol DT_TICK (0::nat) None 0, DC_Set sample_symbol DT_BAR 1 (Some RMinute) 1]"]
  by simp

theorem late_tick_misdates_bar_witness:
  "fst (add_tick (snd (add_tick (snd (add_ticks (new_aggregator RMinute) [sample_tick_at 70000000])) (sample_tick_at 30000000))) (sample_tick_at 80000000)) =
     Some (create_bar RMinute sample_symbol 0 [sample_tick_at 70000000, sample_tick_at 30000000])"
proof -
  let ?a = "snd (add_ticks (new_aggregator RMinute) [sample_tick_at 70000000])"
  have "dget (ag_last ?a) (symbol_key sample_symbol) = Some 70000000" "snd (ag_buffer ?a sample_symbol) = [sample_tick_at 70000000]"
    "ag_resolution ?a = RMinute"
    by (simp_all add: add_ticks_def add_tick_def Let_def new_aggregator_def sample_tick_at_def ag_buffer_def put_buffer_def)
  from late_tick_misdates_bar [OF this(1,2) _ _ _ this(3), of "sample_tick_at 30000000" "sample_tick_at 80000000"] show ?thesis
    by (simp add: sample_tick_at_def)
qed

end
