(* ===== verification/Websocket_Feed.thy ===== *)
theory Websocket_Feed
  imports Data_Feed
begin

section \<open>WebSocket feeds (\<open>src/data/websocket_feed.py\<close>)\<close>

text \<open>
  A connection is used by several coroutines at once: the callers of \<open>connect\<close>, \<open>disconnect\<close>,
  \<open>send_message\<close> and \<open>ping\<close>, and the tasks of its message loops. The model keeps, for each
  coroutine that is suspended, the place where it is; a step either starts a call or resumes one
  of them. The lock of \<open>asyncio\<close> is not reentrant. The socket is a number, the task
  that reads it has the same one. What the client library answers is part of the step; a send or
  ping is one step, and so is the end of a cancelled task. Calls of handlers are logged in order:
  what they raise is caught.
\<close>

datatype ws_state = WS_DISCONNECTED | WS_CONNECTING | WS_CONNECTED | WS_RECONNECTING | WS_ERROR

text \<open>\<open>ConnectionClosed\<close> and \<open>ConnectionClosedOK\<close> of the client library, or another exception.\<close>

datatype ws_failure = WS_Closed | WS_Raised exn

fun is_connection_failure :: "ws_failure \<Rightarrow> bool" where
  "is_connection_failure WS_Closed = True"
| "is_connection_failure (WS_Raised x) = (x = ConnectionError)"

text \<open>
  Where a coroutine is suspended. The flag says that it holds the lock of the connection.
  \<open>In_Lock\<close>: \<open>connect\<close> waits for the lock; \<open>In_Dial\<close>: it waits for the client library;
  \<open>In_Sleep\<close> and \<open>In_Close\<close>: \<open>_handle_connection_loss\<close> sleeps or closes the old socket;
  \<open>Out_Lock\<close>, \<open>Out_Task\<close>, \<open>Out_Close\<close>: \<open>disconnect\<close> waits for the lock, the task, the socket.
\<close>

datatype ws_point = In_Lock bool | In_Dial | In_Sleep bool | In_Close bool | Out_Lock | Out_Task | Out_Close

fun holds_lock :: "ws_point \<Rightarrow> bool" where
  "holds_lock (In_Lock h) = h"
| "holds_lock In_Dial = True"
| "holds_lock (In_Sleep h) = h"
| "holds_lock (In_Close h) = h"
| "holds_lock Out_Lock = False"
| "holds_lock Out_Task = True"
| "holds_lock Out_Close = True"

text \<open>A suspended coroutine: the message task it belongs to, if any, and the place.\<close>

type_synonym ws_act = "nat option \<times> ws_point"

datatype 'm ws_call = Message_Call nat 'm | Error_Call nat ws_failure

record 'm ws_conn =
  ws_st :: ws_state
  ws_socket :: "nat option"
  ws_task :: "nat option"
  ws_attempts :: nat
  ws_last_ping :: time
  ws_message_handlers :: "nat list"
  ws_error_handlers :: "nat list"
  ws_locked :: bool
  ws_loops :: "nat list"
  ws_acts :: "ws_act list"
  ws_fresh :: nat
  ws_log :: "'m ws_call list"

definition new_ws_conn :: "time \<Rightarrow> 'm ws_conn" where
  "new_ws_conn now =
     \<lparr>ws_st = WS_DISCONNECTED, ws_socket = None, ws_task = None, ws_attempts = 0, ws_last_ping = now,
      ws_message_handlers = [], ws_error_handlers = [], ws_locked = False, ws_loops = [], ws_acts = [], ws_fresh = 0,
      ws_log = []\<rparr>"

definition ws_is_connected :: "'m ws_conn \<Rightarrow> bool" where
  "ws_is_connected c \<longleftrightarrow> ws_st c = WS_CONNECTED"

definition add_message_handler :: "'m ws_conn \<Rightarrow> nat \<Rightarrow> 'm ws_conn" where
  "add_message_handler c h = c\<lparr>ws_message_handlers := ws_message_handlers c @ [h]\<rparr>"

definition add_error_handler :: "'m ws_conn \<Rightarrow> nat \<Rightarrow> 'm ws_conn" where
  "add_error_handler c h = c\<lparr>ws_error_handlers := ws_error_handlers c @ [h]\<rparr>"

definition suspend :: "nat option \<Rightarrow> ws_point \<Rightarrow> 'm ws_conn \<Rightarrow> 'm ws_conn" where
  "suspend owner p c = c\<lparr>ws_acts := ws_acts c @ [(owner, p)]\<rparr>"

definition release :: "bool \<Rightarrow> 'm ws_conn \<Rightarrow> 'm ws_conn" where
  "release held c = (if held then c\<lparr>ws_locked := False\<rparr> else c)"

subsection \<open>Connecting\<close>

text \<open>The body of \<open>connect\<close> up to the call of the client library; the lock has been free.\<close>

definition connect_locked :: "nat option \<Rightarrow> 'm ws_conn \<Rightarrow> 'm ws_conn" where
  "connect_locked owner c =
     (if ws_st c = WS_CONNECTING \<or> ws_st c = WS_CONNECTED then c
      else suspend owner In_Dial (c\<lparr>ws_locked := True, ws_st := WS_CONNECTING\<rparr>))"

definition ws_connect :: "nat option \<Rightarrow> bool \<Rightarrow> 'm ws_conn \<Rightarrow> 'm ws_conn" where
  "ws_connect owner held c = (if ws_locked c then suspend owner (In_Lock held) c else connect_locked owner c)"

text \<open>The pause before an attempt, in seconds.\<close>

definition backoff :: "nat \<Rightarrow> flt" where
  "backoff attempt = 1 * flt_int (2 ^ (attempt - 1))"

definition handle_connection_loss :: "nat option \<Rightarrow> bool \<Rightarrow> 'm ws_conn \<Rightarrow> 'm ws_conn" where
  "handle_connection_loss owner held c =
     (if ws_st c = WS_DISCONNECTED then release held c
      else if ws_attempts c < 5
      then suspend owner (In_Sleep held) (c\<lparr>ws_st := WS_RECONNECTING, ws_attempts := ws_attempts c + 1\<rparr>)
      else release held (c\<lparr>ws_st := WS_ERROR\<rparr>))"

definition ws_handle_error :: "nat option \<Rightarrow> bool \<Rightarrow> ws_failure \<Rightarrow> 'm ws_conn \<Rightarrow> 'm ws_conn" where
  "ws_handle_error owner held x c =
     (let c1 = c\<lparr>ws_log := ws_log c @ map (\<lambda>h. Error_Call h x) (ws_error_handlers c)\<rparr>
      in if is_connection_failure x then handle_connection_loss owner held c1 else release held c1)"

text \<open>The rest of \<open>connect\<close>, when the client library has answered; the lock is held.\<close>

definition dial_answered :: "nat option \<Rightarrow> ws_failure option \<Rightarrow> time \<Rightarrow> 'm ws_conn \<Rightarrow> 'm ws_conn" where
  "dial_answered owner r now c =
     (case r of
        None \<Rightarrow>
          c\<lparr>ws_locked := False, ws_socket := Some (ws_fresh c), ws_st := WS_CONNECTED, ws_attempts := 0, ws_last_ping := now,
            ws_task := Some (ws_fresh c), ws_loops := ws_loops c @ [ws_fresh c], ws_fresh := ws_fresh c + 1\<rparr>
      | Some x \<Rightarrow> ws_handle_error owner True x (c\<lparr>ws_st := WS_ERROR\<rparr>))"

subsection \<open>Disconnecting\<close>

text \<open>
  Cancelling the task ends it, except while it closes the old socket: the bare \<open>except\<close> there
  swallows the cancellation, and the task goes on to call \<open>connect\<close>, whose lock \<open>disconnect\<close> holds.
\<close>

definition cancel_task :: "'m ws_conn \<Rightarrow> 'm ws_conn" where
  "cancel_task c =
     (case ws_task c of
        None \<Rightarrow> c
      | Some k \<Rightarrow>
          c\<lparr>ws_loops := removeAll k (ws_loops c),
            ws_socket := (if List.member (ws_acts c) (Some k, In_Close False) then None else ws_socket c),
            ws_acts := map (\<lambda>a. if a = (Some k, In_Close False) then (Some k, In_Lock False) else a)
              (filter (\<lambda>a. fst a = Some k \<longrightarrow> a = (Some k, In_Close False)) (ws_acts c))\<rparr>)"

definition task_busy :: "'m ws_conn \<Rightarrow> bool" where
  "task_busy c = (case ws_task c of None \<Rightarrow> False | Some k \<Rightarrow> List.member (map fst (ws_acts c)) (Some k))"

definition close_socket :: "nat option \<Rightarrow> 'm ws_conn \<Rightarrow> 'm ws_conn" where
  "close_socket owner c = (case ws_socket c of None \<Rightarrow> c\<lparr>ws_locked := False\<rparr> | Some s \<Rightarrow> suspend owner Out_Close c)"

definition disconnect_locked :: "nat option \<Rightarrow> 'm ws_conn \<Rightarrow> 'm ws_conn" where
  "disconnect_locked owner c =
     (if ws_st c = WS_DISCONNECTED then c
      else (let c1 = cancel_task (c\<lparr>ws_locked := True, ws_st := WS_DISCONNECTED\<rparr>)
            in if task_busy c1 then suspend owner Out_Task c1 else close_socket owner c1))"

definition ws_disconnect :: "'m ws_conn \<Rightarrow> 'm ws_conn" where
  "ws_disconnect c = (if ws_locked c then suspend None Out_Lock c else disconnect_locked None c)"

subsection \<open>Sending, pinging and receiving\<close>

definition ws_usable :: "'m ws_conn \<Rightarrow> bool" where
  "ws_usable c \<longleftrightarrow> ws_is_connected c \<and> ws_socket c \<noteq> None"

text \<open>The value is that of \<open>send_message\<close> when it returns; after a failure it returns False,
  possibly later.\<close>

definition ws_send :: "'m ws_conn \<Rightarrow> ws_failure option \<Rightarrow> bool \<times> 'm ws_conn" where
  "ws_send c r =
     (if \<not> ws_usable c then (False, c)
      else (case r of None \<Rightarrow> (True, c) | Some x \<Rightarrow> (False, ws_handle_error None False x c)))"

definition ws_ping :: "'m ws_conn \<Rightarrow> ws_failure option \<Rightarrow> time \<Rightarrow> bool \<times> 'm ws_conn" where
  "ws_ping c r now =
     (if \<not> ws_usable c then (False, c)
      else (case r of None \<Rightarrow> (True, c\<lparr>ws_last_ping := now\<rparr>) | Some x \<Rightarrow> (False, ws_handle_error None False x c)))"

text \<open>The message loop of a socket gets a message, which is not always JSON, or ends: normally
  when the peer has closed the connection properly.\<close>

definition ws_receive :: "'m ws_conn \<Rightarrow> nat \<Rightarrow> 'm option \<Rightarrow> time \<Rightarrow> 'm ws_conn" where
  "ws_receive c k d now =
     (if \<not> List.member (ws_loops c) k then c
      else (case d of
        None \<Rightarrow> c
      | Some x \<Rightarrow> c\<lparr>ws_last_ping := now, ws_log := ws_log c @ map (\<lambda>h. Message_Call h x) (ws_message_handlers c)\<rparr>))"

definition loop_ends :: "'m ws_conn \<Rightarrow> nat \<Rightarrow> ws_failure option \<Rightarrow> 'm ws_conn" where
  "loop_ends c k r =
     (if \<not> List.member (ws_loops c) k then c
      else (let c1 = c\<lparr>ws_loops := removeAll k (ws_loops c)\<rparr>
            in case r of
                 None \<Rightarrow> c1
               | Some WS_Closed \<Rightarrow> handle_connection_loss (Some k) False c1
               | Some (WS_Raised x) \<Rightarrow> ws_handle_error (Some k) False (WS_Raised x) c1))"

subsection \<open>Resuming\<close>

text \<open>
  The coroutine in place \<open>i\<close> goes on. Who waits for the lock goes on only when it is free, who
  waits for the task only when the task has ended; \<open>r\<close> is the answer to a call of \<open>connect\<close>.
\<close>

definition resume :: "'m ws_conn \<Rightarrow> nat \<Rightarrow> ws_failure option \<Rightarrow> time \<Rightarrow> 'm ws_conn" where
  "resume c i r now =
     (if length (ws_acts c) \<le> i then c
      else (let owner = fst (ws_acts c ! i); c1 = c\<lparr>ws_acts := take i (ws_acts c) @ drop (Suc i) (ws_acts c)\<rparr>
            in case snd (ws_acts c ! i) of
                 In_Lock h \<Rightarrow> if ws_locked c then c else connect_locked owner c1
               | In_Dial \<Rightarrow> dial_answered owner r now c1
               | In_Sleep h \<Rightarrow>
                   if ws_socket c = None then ws_connect owner h c1 else suspend owner (In_Close h) c1
               | In_Close h \<Rightarrow> ws_connect owner h (c1\<lparr>ws_socket := None\<rparr>)
               | Out_Lock \<Rightarrow> if ws_locked c then c else disconnect_locked owner c1
               | Out_Task \<Rightarrow> if task_busy c then c else close_socket owner c1
               | Out_Close \<Rightarrow> c1\<lparr>ws_socket := None, ws_locked := False\<rparr>))"

datatype 'm ws_op =
    Call_Connect
  | Call_Disconnect
  | Call_Send "ws_failure option"
  | Call_Ping "ws_failure option" time
  | Receive nat "'m option" time
  | Loop_Ends nat "ws_failure option"
  | Resume_Act nat "ws_failure option" time

fun ws_step :: "'m ws_conn \<Rightarrow> 'm ws_op \<Rightarrow> 'm ws_conn" where
  "ws_step c Call_Connect = ws_connect None False c"
| "ws_step c Call_Disconnect = ws_disconnect c"
| "ws_step c (Call_Send r) = snd (ws_send c r)"
| "ws_step c (Call_Ping r now) = snd (ws_ping c r now)"
| "ws_step c (Receive k d now) = ws_receive c k d now"
| "ws_step c (Loop_Ends k r) = loop_ends c k r"
| "ws_step c (Resume_Act i r now) = resume c i r now"

definition ws_connection_info :: "'m ws_conn \<Rightarrow> ws_state \<times> time \<times> nat \<times> bool" where
  "ws_connection_info c = (ws_st c, ws_last_ping c, ws_attempts c, ws_is_connected c)"

subsection \<open>The manager of connections\<close>

text \<open>
  The manager calls a connection while it holds its own lock, and waits until the call returns;
  \<open>mg_call\<close> is the call it waits in. Another call that finds the lock taken waits: it is a step
  taken later. Connections are used only by the manager, so a suspended coroutine of a connection
  that is not of its message tasks belongs to the call. Results are logged as the calls return.
\<close>

datatype mg_call = Adding string | Removing string | Sending string | Broadcasting string "string list" nat | Stopping

datatype mg_result =
    Added string bool
  | Removed string
  | Subscribed symbol string bool
  | Unsubscribed symbol
  | Sent string bool
  | Broadcast_To nat
  | Stopped

datatype 'm ws_payload = Message_Payload string 'm time | Error_Payload string ws_failure time

record 'm ws_manager =
  mg_conns :: "(string, 'm ws_conn) dict"
  mg_subs :: "(skey, symbol \<times> string list) dict"
  mg_call :: "mg_call option"
  mg_results :: "mg_result list"
  mg_events :: "'m ws_payload event list"

definition new_ws_manager :: "'m ws_manager" where
  "new_ws_manager = \<lparr>mg_conns = [], mg_subs = [], mg_call = None, mg_results = [], mg_events = []\<rparr>"

definition mg_handle_message :: "string \<Rightarrow> 'm \<Rightarrow> time \<Rightarrow> 'm ws_payload event list" where
  "mg_handle_message cid d now =
     [\<lparr>e_type = WEBSOCKET_MESSAGE, e_timestamp = now, e_data = Message_Payload cid d now, e_symbol = None\<rparr>]"

definition mg_handle_error :: "string \<Rightarrow> ws_failure \<Rightarrow> time \<Rightarrow> 'm ws_payload event list" where
  "mg_handle_error cid x now =
     [\<lparr>e_type = WEBSOCKET_ERROR, e_timestamp = now, e_data = Error_Payload cid x now, e_symbol = None\<rparr>]"

text \<open>
  Both default handlers of a connection are coroutine functions. The connection awaits what an
  error handler returns, but not what a message handler returns: calling it only makes a coroutine
  whose body \<open>mg_handle_message\<close> never runs.
\<close>

fun handler_effect :: "string \<Rightarrow> time \<Rightarrow> 'm ws_call \<Rightarrow> 'm ws_payload event list" where
  "handler_effect cid now (Message_Call h d) = (let unawaited = mg_handle_message cid d now in [])"
| "handler_effect cid now (Error_Call h x) = mg_handle_error cid x now"

definition put_conn :: "'m ws_manager \<Rightarrow> string \<Rightarrow> 'm ws_conn \<Rightarrow> time \<Rightarrow> 'm ws_manager" where
  "put_conn m cid c now =
     (let seen = (case dget (mg_conns m) cid of None \<Rightarrow> 0 | Some c0 \<Rightarrow> length (ws_log c0))
      in m\<lparr>mg_conns := dset (mg_conns m) cid c,
           mg_events := mg_events m @ concat (map (handler_effect cid now) (drop seen (ws_log c)))\<rparr>)"

definition finish_call :: "'m ws_manager \<Rightarrow> mg_result \<Rightarrow> 'm ws_manager" where
  "finish_call m r = m\<lparr>mg_call := None, mg_results := mg_results m @ [r]\<rparr>"

text \<open>The call of the manager in a connection has not returned.\<close>

definition in_call :: "'m ws_conn \<Rightarrow> bool" where
  "in_call c \<longleftrightarrow> List.member (map fst (ws_acts c)) None"

definition call_open :: "'m ws_manager \<Rightarrow> string \<Rightarrow> bool" where
  "call_open m cid = (case dget (mg_conns m) cid of None \<Rightarrow> False | Some c \<Rightarrow> in_call c)"

definition drop_subscriber :: "string \<Rightarrow> (skey, symbol \<times> string list) dict \<Rightarrow> (skey, symbol \<times> string list) dict" where
  "drop_subscriber cid d =
     filter (\<lambda>e. snd (snd e) \<noteq> []) (map (\<lambda>(k, v). (k, fst v, removeAll cid (snd v))) d)"

text \<open>The loop of \<open>broadcast_to_symbol\<close>; \<open>out\<close> says what the library answers to each send.\<close>

fun broadcast_from ::
  "'m ws_manager \<Rightarrow> string list \<Rightarrow> nat \<Rightarrow> (string \<Rightarrow> ws_failure option) \<Rightarrow> time \<Rightarrow> 'm ws_manager" where
  "broadcast_from m [] n out now = finish_call m (Broadcast_To n)"
| "broadcast_from m (cid # cids) n out now =
     (case dget (mg_conns m) cid of
        None \<Rightarrow> broadcast_from m cids n out now
      | Some c \<Rightarrow>
          (case ws_send c (out cid) of
             (ok, c1) \<Rightarrow>
               (let m1 = put_conn m cid c1 now
                in if in_call c1 then m1\<lparr>mg_call := Some (Broadcasting cid cids n)\<rparr>
                   else broadcast_from m1 cids (if ok then n + 1 else n) out now)))"

text \<open>What the manager does when the call it waits in has returned.\<close>

definition settle :: "'m ws_manager \<Rightarrow> (string \<Rightarrow> ws_failure option) \<Rightarrow> time \<Rightarrow> 'm ws_manager" where
  "settle m out now =
     (case mg_call m of
        None \<Rightarrow> m
      | Some (Adding cid) \<Rightarrow>
          if call_open m cid then m
          else (case dget (mg_conns m) cid of
                  None \<Rightarrow> m
                | Some c \<Rightarrow>
                    if ws_is_connected c then finish_call m (Added cid True)
                    else finish_call (m\<lparr>mg_conns := ddel (mg_conns m) cid\<rparr>) (Added cid False))
      | Some (Removing cid) \<Rightarrow>
          if call_open m cid then m
          else finish_call (m\<lparr>mg_subs := drop_subscriber cid (mg_subs m), mg_conns := ddel (mg_conns m) cid\<rparr>) (Removed cid)
      | Some (Sending cid) \<Rightarrow> if call_open m cid then m else finish_call m (Sent cid False)
      | Some (Broadcasting cid cids n) \<Rightarrow> if call_open m cid then m else broadcast_from m cids n out now
      | Some Stopping \<Rightarrow>
          if \<exists>c \<in> set (dvals (mg_conns m)). in_call c then m
          else finish_call (m\<lparr>mg_conns := [], mg_subs := []\<rparr>) Stopped)"

definition add_connection :: "'m ws_manager \<Rightarrow> string \<Rightarrow> time \<Rightarrow> 'm ws_manager" where
  "add_connection m cid now =
     (if mg_call m \<noteq> None then m
      else if dget (mg_conns m) cid \<noteq> None then finish_call m (Added cid False)
      else (let c = add_error_handler (add_message_handler (new_ws_conn now) 0) 0
            in (put_conn m cid (ws_connect None False c) now)\<lparr>mg_call := Some (Adding cid)\<rparr>))"

definition remove_connection :: "'m ws_manager \<Rightarrow> string \<Rightarrow> time \<Rightarrow> 'm ws_manager" where
  "remove_connection m cid now =
     (if mg_call m \<noteq> None then m
      else (case dget (mg_conns m) cid of
              None \<Rightarrow> finish_call m (Removed cid)
            | Some c \<Rightarrow> settle ((put_conn m cid (ws_disconnect c) now)\<lparr>mg_call := Some (Removing cid)\<rparr>) (\<lambda>_. None) now))"

definition subscribers :: "'m ws_manager \<Rightarrow> symbol \<Rightarrow> string list" where
  "subscribers m sy = (case dget (mg_subs m) (symbol_key sy) of None \<Rightarrow> [] | Some v \<Rightarrow> snd v)"

definition subscribe_symbol :: "'m ws_manager \<Rightarrow> symbol \<Rightarrow> string \<Rightarrow> 'm ws_manager" where
  "subscribe_symbol m sy cid =
     (if mg_call m \<noteq> None then m
      else if dget (mg_conns m) cid = None then finish_call m (Subscribed sy cid False)
      else (let k = symbol_key sy; s0 = (case dget (mg_subs m) k of None \<Rightarrow> sy | Some v \<Rightarrow> fst v)
            in finish_call (m\<lparr>mg_subs := dset (mg_subs m) k (s0, set_add cid (subscribers m sy))\<rparr>) (Subscribed sy cid True)))"

text \<open>An empty connection id counts as none.\<close>

definition unsubscribe_symbol :: "'m ws_manager \<Rightarrow> symbol \<Rightarrow> string option \<Rightarrow> 'm ws_manager" where
  "unsubscribe_symbol m sy cid =
     (if mg_call m \<noteq> None then m
      else (case dget (mg_subs m) (symbol_key sy) of
              None \<Rightarrow> finish_call m (Unsubscribed sy)
            | Some v \<Rightarrow>
                (let rest = (case cid of None \<Rightarrow> [] | Some i \<Rightarrow> if i = [] then [] else removeAll i (snd v))
                 in finish_call
                      (m\<lparr>mg_subs := (if rest = [] then ddel (mg_subs m) (symbol_key sy)
                                     else dset (mg_subs m) (symbol_key sy) (fst v, rest))\<rparr>) (Unsubscribed sy))))"

definition send_to_connection :: "'m ws_manager \<Rightarrow> string \<Rightarrow> ws_failure option \<Rightarrow> time \<Rightarrow> 'm ws_manager" where
  "send_to_connection m cid r now =
     (if mg_call m \<noteq> None then m
      else (case dget (mg_conns m) cid of
              None \<Rightarrow> finish_call m (Sent cid False)
            | Some c \<Rightarrow>
                (case ws_send c r of
                   (ok, c1) \<Rightarrow>
                     (let m1 = put_conn m cid c1 now
                      in if in_call c1 then m1\<lparr>mg_call := Some (Sending cid)\<rparr> else finish_call m1 (Sent cid ok)))))"

definition broadcast_to_symbol ::
  "'m ws_manager \<Rightarrow> symbol \<Rightarrow> (string \<Rightarrow> ws_failure option) \<Rightarrow> time \<Rightarrow> 'm ws_manager" where
  "broadcast_to_symbol m sy out now = (if mg_call m \<noteq> None then m else broadcast_from m (subscribers m sy) 0 out now)"

definition mg_shutdown :: "'m ws_manager \<Rightarrow> time \<Rightarrow> 'm ws_manager" where
  "mg_shutdown m now =
     (if mg_call m \<noteq> None then m
      else settle (m\<lparr>mg_conns := map (\<lambda>(k, c). (k, ws_disconnect c)) (mg_conns m), mg_call := Some Stopping\<rparr>) (\<lambda>_. None) now)"

text \<open>A step of a connection that is not a call from outside; then the waiting call may go on.\<close>

fun is_call :: "'m ws_op \<Rightarrow> bool" where
  "is_call (Receive k d now) = False"
| "is_call (Loop_Ends k r) = False"
| "is_call (Resume_Act i r now) = False"
| "is_call x = True"

definition mg_connection_step ::
  "'m ws_manager \<Rightarrow> string \<Rightarrow> 'm ws_op \<Rightarrow> (string \<Rightarrow> ws_failure option) \<Rightarrow> time \<Rightarrow> 'm ws_manager" where
  "mg_connection_step m cid x out now =
     (case dget (mg_conns m) cid of
        None \<Rightarrow> m
      | Some c \<Rightarrow> if is_call x then m else settle (put_conn m cid (ws_step c x) now) out now)"

definition get_connection_status :: "'m ws_manager \<Rightarrow> (string, ws_state \<times> time \<times> nat \<times> bool) dict" where
  "get_connection_status m = map (\<lambda>(k, c). (k, ws_connection_info c)) (mg_conns m)"

definition get_subscriptions :: "'m ws_manager \<Rightarrow> (string, string list) dict" where
  "get_subscriptions m = dict_of (map (\<lambda>(k, v). (ticker (fst v), snd v)) (mg_subs m))"

subsection \<open>The feed\<close>

record 'm ws_feed =
  wf_manager :: "'m ws_manager"
  wf_symbols :: "(skey, symbol \<times> string) dict"

definition new_ws_feed :: "'m ws_feed" where
  "new_ws_feed = \<lparr>wf_manager = new_ws_manager, wf_symbols = []\<rparr>"

definition connected_ids :: "'m ws_manager \<Rightarrow> string list" where
  "connected_ids m = map fst (filter (\<lambda>(k, info). fst info = WS_CONNECTED) (get_connection_status m))"

definition wf_is_connected :: "'m ws_feed \<Rightarrow> bool" where
  "wf_is_connected f = list_ex (\<lambda>(k, info). fst info = WS_CONNECTED) (get_connection_status (wf_manager f))"

text \<open>\<open>hsh\<close> stands for Python's hash of a string.\<close>

definition connection_for_symbol :: "(string \<Rightarrow> int) \<Rightarrow> 'm ws_feed \<Rightarrow> symbol \<Rightarrow> string option" where
  "connection_for_symbol hsh f sy =
     (let ids = connected_ids (wf_manager f)
      in if ids = [] then None else Some (ids ! nat (hsh (ticker sy) mod int (length ids))))"

text \<open>Both calls start when the manager's lock is free; nothing in them suspends then.\<close>

definition feed_subscribe_symbol :: "(string \<Rightarrow> int) \<Rightarrow> 'm ws_feed \<Rightarrow> symbol \<Rightarrow> 'm ws_feed" where
  "feed_subscribe_symbol hsh f sy =
     (case connection_for_symbol hsh f sy of
        None \<Rightarrow> f
      | Some cid \<Rightarrow>
          if cid = [] then f
          else f\<lparr>wf_manager := subscribe_symbol (wf_manager f) sy cid,
                 wf_symbols := dset (wf_symbols f) (symbol_key sy)
                   (case dget (wf_symbols f) (symbol_key sy) of None \<Rightarrow> sy | Some v \<Rightarrow> fst v, cid)\<rparr>)"

definition wf_subscribe :: "(string \<Rightarrow> int) \<Rightarrow> 'm ws_feed \<Rightarrow> symbol list \<Rightarrow> 'm ws_feed" where
  "wf_subscribe hsh f sys = (if mg_call (wf_manager f) \<noteq> None then f else foldl (feed_subscribe_symbol hsh) f sys)"

definition feed_unsubscribe_symbol :: "'m ws_feed \<Rightarrow> symbol \<Rightarrow> 'm ws_feed" where
  "feed_unsubscribe_symbol f sy =
     (case dget (wf_symbols f) (symbol_key sy) of
        None \<Rightarrow> f
      | Some v \<Rightarrow>
          if snd v = [] then f
          else f\<lparr>wf_manager := unsubscribe_symbol (wf_manager f) sy (Some (snd v)),
                 wf_symbols := ddel (wf_symbols f) (symbol_key sy)\<rparr>)"

definition wf_unsubscribe :: "'m ws_feed \<Rightarrow> symbol list \<Rightarrow> 'm ws_feed" where
  "wf_unsubscribe f sys = (if mg_call (wf_manager f) \<noteq> None then f else foldl feed_unsubscribe_symbol f sys)"

definition wf_disconnect :: "'m ws_feed \<Rightarrow> time \<Rightarrow> 'm ws_feed" where
  "wf_disconnect f now = f\<lparr>wf_manager := mg_shutdown (wf_manager f) now\<rparr>"

definition wf_get_history :: "'m ws_feed \<Rightarrow> symbol \<Rightarrow> time \<Rightarrow> time \<Rightarrow> exn + unit" where
  "wf_get_history f sy t0 t1 = Inl NotImplementedError"

definition wf_status ::
  "'m ws_feed \<Rightarrow> bool \<times> (string, ws_state \<times> time \<times> nat \<times> bool) dict \<times> (string, string list) dict \<times> nat" where
  "wf_status f =
     (wf_is_connected f, get_connection_status (wf_manager f), get_subscriptions (wf_manager f), length (wf_symbols f))"

section \<open>Lemmas on a connection\<close>

text \<open>
  The lock is held by exactly one coroutine when it is taken; a connection that says CONNECTING is
  waiting for the client library; the counter of attempts stays in its bound.
\<close>

definition holders :: "'m ws_conn \<Rightarrow> nat" where
  "holders c = length (filter (\<lambda>a. holds_lock (snd a)) (ws_acts c))"

definition dialing :: "'m ws_conn \<Rightarrow> bool" where
  "dialing c \<longleftrightarrow> In_Dial \<in> set (map snd (ws_acts c))"

definition ws_ok :: "'m ws_conn \<Rightarrow> bool" where
  "ws_ok c \<longleftrightarrow> holders c = (if ws_locked c then 1 else 0) \<and> ws_attempts c \<le> 5 \<and>
     (ws_st c = WS_CONNECTING \<longrightarrow> dialing c)"

definition forget :: "nat \<Rightarrow> 'm ws_conn \<Rightarrow> 'm ws_conn" where
  "forget i c = c\<lparr>ws_acts := take i (ws_acts c) @ drop (Suc i) (ws_acts c)\<rparr>"

lemma holders_suspend [simp]: "holders (suspend owner p c) = holders c + (if holds_lock p then 1 else 0)"
  by (simp add: holders_def suspend_def)

lemma holders_update [simp]:
  "holders (c\<lparr>ws_locked := l\<rparr>) = holders c" "holders (c\<lparr>ws_st := s\<rparr>) = holders c" "holders (c\<lparr>ws_socket := k\<rparr>) = holders c"
  "holders (c\<lparr>ws_attempts := n\<rparr>) = holders c" "holders (c\<lparr>ws_loops := ks\<rparr>) = holders c" "holders (c\<lparr>ws_log := lg\<rparr>) = holders c"
  "holders (c\<lparr>ws_last_ping := t\<rparr>) = holders c" "holders (c\<lparr>ws_task := tk\<rparr>) = holders c" "holders (c\<lparr>ws_fresh := f\<rparr>) = holders c"
  by (simp_all add: holders_def)

lemma dialing_suspend [simp]: "dialing (suspend owner p c) \<longleftrightarrow> dialing c \<or> p = In_Dial"
  by (auto simp: dialing_def suspend_def)

lemma dialing_update [simp]:
  "dialing (c\<lparr>ws_locked := l\<rparr>) = dialing c" "dialing (c\<lparr>ws_st := s\<rparr>) = dialing c" "dialing (c\<lparr>ws_socket := k\<rparr>) = dialing c"
  "dialing (c\<lparr>ws_attempts := n\<rparr>) = dialing c" "dialing (c\<lparr>ws_loops := ks\<rparr>) = dialing c" "dialing (c\<lparr>ws_log := lg\<rparr>) = dialing c"
  "dialing (c\<lparr>ws_last_ping := t\<rparr>) = dialing c"
  by (simp_all add: dialing_def)

lemma suspend_fields [simp]:
  "ws_st (suspend owner p c) = ws_st c" "ws_locked (suspend owner p c) = ws_locked c" "ws_attempts (suspend owner p c) = ws_attempts c"
  "ws_socket (suspend owner p c) = ws_socket c" "ws_fresh (suspend owner p c) = ws_fresh c" "ws_task (suspend owner p c) = ws_task c"
  "ws_loops (suspend owner p c) = ws_loops c" "ws_acts (suspend owner p c) = ws_acts c @ [(owner, p)]"
  "ws_log (suspend owner p c) = ws_log c"
  by (simp_all add: suspend_def)

lemma forget_fields [simp]:
  "ws_st (forget i c) = ws_st c" "ws_locked (forget i c) = ws_locked c" "ws_attempts (forget i c) = ws_attempts c"
  "ws_socket (forget i c) = ws_socket c" "ws_fresh (forget i c) = ws_fresh c"
  by (simp_all add: forget_def)

lemma list_split_at: "i < length xs \<Longrightarrow> xs = take i xs @ xs ! i # drop (Suc i) xs"
  by (simp add: id_take_nth_drop)

lemma holders_forget:
  assumes "i < length (ws_acts c)"
  shows "holders c = holders (forget i c) + (if holds_lock (snd (ws_acts c ! i)) then 1 else 0)"
proof -
  have "filter P xs = filter P (take i xs) @ filter P [xs ! i] @ filter P (drop (Suc i) xs)" if "i < length xs" for P and xs :: "ws_act list"
    by (subst list_split_at [OF that]) simp
  from this [OF assms] show ?thesis by (simp add: holders_def forget_def)
qed

lemma acts_forget:
  assumes "i < length (ws_acts c)"
  shows "set (ws_acts c) = insert (ws_acts c ! i) (set (ws_acts (forget i c)))"
  by (subst list_split_at [OF assms]) (simp add: forget_def)

text \<open>Three forms of the lock's state: free, held by a coroutine that is suspended, and held by the
  one that runs.\<close>

definition ws_running :: "bool \<Rightarrow> 'm ws_conn \<Rightarrow> bool" where
  "ws_running held c \<longleftrightarrow> holders c + (if held then 1 else 0) = (if ws_locked c then 1 else 0) \<and> ws_attempts c \<le> 5 \<and>
     (ws_st c = WS_CONNECTING \<longrightarrow> dialing c)"

lemma ws_running_False: "ws_running False c \<longleftrightarrow> ws_ok c"
  by (simp add: ws_running_def ws_ok_def)

lemma connect_locked_ok: "ws_ok c \<Longrightarrow> \<not> ws_locked c \<Longrightarrow> ws_ok (connect_locked owner c)"
  by (simp add: ws_ok_def connect_locked_def)

lemma connect_ok: "ws_running held c \<Longrightarrow> ws_ok (ws_connect owner held c)"
  by (cases "ws_locked c") (auto simp: ws_connect_def ws_running_def ws_ok_def connect_locked_def split: if_splits)

lemma connection_loss_ok: "ws_running held c \<Longrightarrow> ws_ok (handle_connection_loss owner held c)"
  by (auto simp: handle_connection_loss_def ws_running_def ws_ok_def release_def split: if_splits)

lemma handle_error_ok: "ws_running held c \<Longrightarrow> ws_ok (ws_handle_error owner held x c)"
proof -
  assume "ws_running held c"
  then have r: "ws_running held (c\<lparr>ws_log := l\<rparr>)" for l by (simp add: ws_running_def)
  then have "ws_ok (release held (c\<lparr>ws_log := l\<rparr>))" for l by (cases held) (auto simp: ws_running_def ws_ok_def release_def split: if_splits)
  with r show ?thesis by (auto simp: ws_handle_error_def Let_def intro: connection_loss_ok)
qed

lemma dial_answered_ok:
  assumes "holders c = 0" "ws_locked c" "ws_attempts c \<le> 5"
  shows "ws_ok (dial_answered owner r now c)"
proof (cases r)
  case None
  with assms show ?thesis by (simp add: dial_answered_def ws_ok_def)
next
  case (Some x)
  have "ws_running True (c\<lparr>ws_st := WS_ERROR\<rparr>)" using assms by (simp add: ws_running_def)
  from handle_error_ok [OF this] Some show ?thesis by (simp add: dial_answered_def)
qed

lemma close_socket_ok:
  "holders c = 0 \<Longrightarrow> ws_locked c \<Longrightarrow> ws_attempts c \<le> 5 \<Longrightarrow> ws_st c \<noteq> WS_CONNECTING \<Longrightarrow> ws_ok (close_socket owner c)"
  by (simp add: close_socket_def ws_ok_def split: option.split)

lemma cancel_task_fields [simp]:
  "ws_st (cancel_task c) = ws_st c" "ws_locked (cancel_task c) = ws_locked c" "ws_attempts (cancel_task c) = ws_attempts c"
  "ws_fresh (cancel_task c) = ws_fresh c" "ws_task (cancel_task c) = ws_task c"
  by (simp_all add: cancel_task_def split: option.split)

lemma holders_zero_iff: "holders c = 0 \<longleftrightarrow> (\<forall>a \<in> set (ws_acts c). \<not> holds_lock (snd a))"
  by (simp add: holders_def filter_empty_conv)

lemma acts_cancel_task: "set (ws_acts (cancel_task c)) \<subseteq> insert (ws_task c, In_Lock False) (set (ws_acts c))"
proof (cases "ws_task c")
  case None
  then show ?thesis by (auto simp: cancel_task_def)
next
  case (Some k)
  have "set (map (\<lambda>a. if a = x then y else a) (filter P xs)) \<subseteq> insert y (set xs)" for x y :: ws_act and P and xs
    by (induction xs) auto
  moreover have "ws_acts (cancel_task c) = map (\<lambda>a. if a = (Some k, In_Close False) then (Some k, In_Lock False) else a)
      (filter (\<lambda>a. fst a = Some k \<longrightarrow> a = (Some k, In_Close False)) (ws_acts c))"
    by (simp add: cancel_task_def Some)
  ultimately show ?thesis unfolding Some by (simp only:)
qed

lemma holders_cancel_task: "holders c = 0 \<Longrightarrow> holders (cancel_task c) = 0"
  using acts_cancel_task [of c] unfolding holders_zero_iff by fastforce

lemma disconnect_locked_ok:
  assumes "ws_ok c" "\<not> ws_locked c"
  shows "ws_ok (disconnect_locked owner c)"
proof -
  let ?c = "cancel_task (c\<lparr>ws_locked := True, ws_st := WS_DISCONNECTED\<rparr>)"
  have h: "holders ?c = 0" using assms by (intro holders_cancel_task) (simp add: ws_ok_def)
  then have "ws_ok (suspend owner Out_Task ?c)" "ws_ok (close_socket owner ?c)"
    using assms by (simp_all add: ws_ok_def close_socket_ok [unfolded ws_ok_def])
  with assms(1) show ?thesis by (simp add: disconnect_locked_def Let_def)
qed

lemma resume_eq:
  assumes "i < length (ws_acts c)" "ws_acts c ! i = (owner, p)"
  shows "resume c i r now =
    (case p of
       In_Lock h \<Rightarrow> if ws_locked c then c else connect_locked owner (forget i c)
     | In_Dial \<Rightarrow> dial_answered owner r now (forget i c)
     | In_Sleep h \<Rightarrow>
         if ws_socket c = None then ws_connect owner h (forget i c) else suspend owner (In_Close h) (forget i c)
     | In_Close h \<Rightarrow> ws_connect owner h ((forget i c)\<lparr>ws_socket := None\<rparr>)
     | Out_Lock \<Rightarrow> if ws_locked c then c else disconnect_locked owner (forget i c)
     | Out_Task \<Rightarrow> if task_busy c then c else close_socket owner (forget i c)
     | Out_Close \<Rightarrow> (forget i c)\<lparr>ws_socket := None, ws_locked := False\<rparr>)"
  using assms by (cases p) (simp_all add: resume_def Let_def forget_def)

lemma ws_ok_forget:
  assumes "ws_ok c" "i < length (ws_acts c)"
  shows "ws_attempts c \<le> 5" "holds_lock (snd (ws_acts c ! i)) \<Longrightarrow> ws_locked c \<and> holders (forget i c) = 0"
    "\<not> holds_lock (snd (ws_acts c ! i)) \<Longrightarrow> ws_ok (forget i c)"
    "snd (ws_acts c ! i) \<noteq> In_Dial \<Longrightarrow> ws_running (holds_lock (snd (ws_acts c ! i))) (forget i c)"
    "ws_st c = WS_CONNECTING \<Longrightarrow> snd (ws_acts c ! i) = In_Dial \<or> dialing (forget i c)"
proof -
  have d: "dialing c \<longleftrightarrow> snd (ws_acts c ! i) = In_Dial \<or> dialing (forget i c)"
    using acts_forget [OF assms(2)] by (auto simp: dialing_def)
  show "ws_attempts c \<le> 5" "ws_st c = WS_CONNECTING \<Longrightarrow> snd (ws_acts c ! i) = In_Dial \<or> dialing (forget i c)"
    using assms(1) d by (simp_all add: ws_ok_def)
  show "holds_lock (snd (ws_acts c ! i)) \<Longrightarrow> ws_locked c \<and> holders (forget i c) = 0"
    "\<not> holds_lock (snd (ws_acts c ! i)) \<Longrightarrow> ws_ok (forget i c)"
    "snd (ws_acts c ! i) \<noteq> In_Dial \<Longrightarrow> ws_running (holds_lock (snd (ws_acts c ! i))) (forget i c)"
    using assms(1) holders_forget [OF assms(2)] d by (auto simp: ws_ok_def ws_running_def split: if_splits)
qed

lemma resume_ok:
  assumes "ws_ok c"
  shows "ws_ok (resume c i r now)"
proof (cases "i < length (ws_acts c)")
  case True
  obtain owner p where a: "ws_acts c ! i = (owner, p)" by (cases "ws_acts c ! i")
  note f = ws_ok_forget [OF assms True, unfolded a snd_conv]
  show ?thesis
  proof (cases p)
    case (In_Lock h)
    then show ?thesis using f assms holders_forget [OF True] a
      by (cases h) (auto simp: resume_eq [OF True a] intro: connect_locked_ok)
  next
    case In_Dial
    then show ?thesis using f by (simp add: resume_eq [OF True a] dial_answered_ok)
  next
    case (In_Sleep h)
    then have "ws_running h (forget i c)" using f(4) by simp
    then show ?thesis using In_Sleep
      by (auto simp: resume_eq [OF True a] connect_ok) (auto simp: ws_running_def ws_ok_def split: if_splits)
  next
    case (In_Close h)
    then have "ws_running h ((forget i c)\<lparr>ws_socket := None\<rparr>)" using f(4) by (simp add: ws_running_def)
    then show ?thesis using In_Close by (simp add: resume_eq [OF True a] connect_ok)
  next
    case Out_Lock
    then show ?thesis using f assms by (auto simp: resume_eq [OF True a] intro: disconnect_locked_ok)
  next
    case Out_Task
    then show ?thesis using f assms
      by (auto simp: resume_eq [OF True a] close_socket_def ws_ok_def split: option.split)
  next
    case Out_Close
    then show ?thesis using f by (auto simp: resume_eq [OF True a] ws_ok_def)
  qed
qed (simp add: resume_def assms)

lemma ws_step_ok: "ws_ok c \<Longrightarrow> ws_ok (ws_step c x)"
proof (cases x)
  case Call_Disconnect
  assume "ws_ok c"
  then show ?thesis unfolding Call_Disconnect
    by (auto simp: ws_disconnect_def disconnect_locked_ok) (auto simp: ws_ok_def)
next
  case (Receive k d now)
  assume "ws_ok c"
  then show ?thesis by (auto simp: Receive ws_receive_def ws_ok_def split: option.split)
next
  case (Loop_Ends k r)
  assume "ws_ok c"
  then have c1: "ws_ok (c\<lparr>ws_loops := removeAll k (ws_loops c)\<rparr>)" by (simp add: ws_ok_def)
  then have r: "ws_running False (c\<lparr>ws_loops := removeAll k (ws_loops c)\<rparr>)" by (simp add: ws_running_False)
  from \<open>ws_ok c\<close> c1 show ?thesis
    by (auto simp: Loop_Ends loop_ends_def Let_def intro!: handle_error_ok [OF r] connection_loss_ok [OF r]
        split: option.split ws_failure.split)
next
  case Call_Connect
  assume "ws_ok c"
  then show ?thesis by (simp add: Call_Connect connect_ok ws_running_False)
next
  case (Call_Send r)
  assume "ws_ok c"
  then show ?thesis by (cases r) (simp_all add: Call_Send ws_send_def handle_error_ok ws_running_False)
next
  case (Call_Ping r now)
  assume "ws_ok c"
  moreover from this have "ws_ok (c\<lparr>ws_last_ping := now\<rparr>)" by (simp add: ws_ok_def)
  ultimately show ?thesis by (cases r) (simp_all add: Call_Ping ws_ping_def handle_error_ok ws_running_False)
qed (simp add: resume_ok)

interpretation websocket: run_system ws_step "\<lambda>_ _. True" ws_ok
  by unfold_locales (rule ws_step_ok)

subsection \<open>A lock that is never released\<close>

text \<open>A coroutine that holds the lock and is on the way to take it again.\<close>

definition jam_points :: "ws_point set" where
  "jam_points = {In_Sleep True, In_Close True, In_Lock True}"

definition jammed :: "nat option \<Rightarrow> 'm ws_conn \<Rightarrow> bool" where
  "jammed owner c \<longleftrightarrow> ws_ok c \<and> ws_locked c \<and> (ws_st c = WS_RECONNECTING \<or> ws_st c = WS_ERROR) \<and>
     (\<exists>p \<in> jam_points. (owner, p) \<in> set (ws_acts c))"

lemma jam_points_hold: "p \<in> jam_points \<Longrightarrow> holds_lock p"
  by (auto simp: jam_points_def)

lemma jammed_forget:
  assumes "jammed owner c" "i < length (ws_acts c)" "\<not> (fst (ws_acts c ! i) = owner \<and> snd (ws_acts c ! i) \<in> jam_points)"
  shows "\<not> holds_lock (snd (ws_acts c ! i)) \<and> (\<exists>p \<in> jam_points. (owner, p) \<in> set (ws_acts (forget i c)))"
proof -
  obtain p where p: "p \<in> jam_points" "(owner, p) \<in> set (ws_acts c)" using assms(1) by (auto simp: jammed_def)
  have "(owner, p) \<noteq> ws_acts c ! i" using p(1) assms(3) by (metis fst_conv snd_conv)
  with p acts_forget [OF assms(2)] have m: "(owner, p) \<in> set (ws_acts (forget i c))" by auto
  then have "holders (forget i c) \<noteq> 0" using jam_points_hold [OF p(1)] by (metis holders_zero_iff snd_conv)
  with holders_forget [OF assms(2)] assms(1) have "\<not> holds_lock (snd (ws_acts c ! i))"
    by (auto simp: jammed_def ws_ok_def split: if_splits)
  with m p(1) show ?thesis by auto
qed

lemma jammed_resume:
  assumes "jammed owner c"
  shows "jammed owner (resume c i r now) \<and> ws_fresh (resume c i r now) = ws_fresh c"
proof (cases "i < length (ws_acts c)")
  case True
  obtain ow p where a: "ws_acts c ! i = (ow, p)" by (cases "ws_acts c ! i")
  have ok: "ws_ok (resume c i r now)" using assms resume_ok by (auto simp: jammed_def)
  have l: "ws_locked c" "ws_st c = WS_RECONNECTING \<or> ws_st c = WS_ERROR" using assms by (auto simp: jammed_def)
  show ?thesis
  proof (cases "ow = owner \<and> p \<in> jam_points")
    case True': True
    then have "p = In_Sleep True \<or> p = In_Close True \<or> p = In_Lock True" by (auto simp: jam_points_def)
    with True' show ?thesis using ok l assms
      by (elim disjE) (auto simp: resume_eq [OF True a] jammed_def jam_points_def ws_connect_def)
  next
    case False
    with jammed_forget [OF assms True] a obtain q where q: "\<not> holds_lock p" "q \<in> jam_points" "(owner, q) \<in> set (ws_acts (forget i c))" by auto
    then show ?thesis using ok l assms
      by (cases p) (auto simp: resume_eq [OF True a] jammed_def ws_connect_def simp del: split_paired_Ex)
  qed
qed (use assms in \<open>simp add: resume_def\<close>)

lemma jammed_step:
  assumes "jammed owner c"
  shows "jammed owner (ws_step c x) \<and> ws_fresh (ws_step c x) = ws_fresh c"
proof -
  have l: "ws_locked c" "ws_st c = WS_RECONNECTING \<or> ws_st c = WS_ERROR" "ws_ok (ws_step c x)"
    using assms ws_step_ok by (auto simp: jammed_def)
  then have u: "\<not> ws_usable c" by (auto simp: ws_usable_def ws_is_connected_def)
  obtain p where p: "p \<in> jam_points" "(owner, p) \<in> set (ws_acts c)" using assms by (auto simp: jammed_def)
  have s: "jammed owner (ws_step c x) \<and> ws_fresh (ws_step c x) = ws_fresh c"
    if "set (ws_acts c) \<subseteq> set (ws_acts (ws_step c x))" "ws_locked (ws_step c x)"
      "ws_st (ws_step c x) = WS_RECONNECTING \<or> ws_st (ws_step c x) = WS_ERROR" "ws_fresh (ws_step c x) = ws_fresh c"
    using that p l(3) by (auto simp: jammed_def)
  show ?thesis
  proof (cases x)
    case (Resume_Act i r now)
    then show ?thesis using jammed_resume [OF assms] by simp
  next
    case (Loop_Ends k r)
    show ?thesis
      by (rule s) (use l(1,2) in \<open>auto simp: Loop_Ends loop_ends_def Let_def handle_connection_loss_def ws_handle_error_def release_def
          split: option.split ws_failure.split\<close>)
  qed (rule s; use l(1,2) u in \<open>auto simp: ws_connect_def ws_disconnect_def ws_send_def ws_ping_def ws_receive_def split: option.split\<close>)+
qed

lemma jammed_run:
  assumes "jammed owner c"
  shows "jammed owner (run_ops ws_step c xs) \<and> ws_fresh (run_ops ws_step c xs) = ws_fresh c"
  using assms
proof (induction xs arbitrary: c)
  case (Cons x xs)
  from Cons.IH [of "ws_step c x"] jammed_step [OF Cons.prems, of x] show ?case by simp
qed simp

lemma dial_failure_jams:
  assumes "ws_ok c" "i < length (ws_acts c)" "ws_acts c ! i = (owner, In_Dial)" "ws_attempts c < 5" "is_connection_failure x"
  shows "jammed owner (resume c i (Some x) now) \<and> ws_fresh (resume c i (Some x) now) = ws_fresh c"
proof -
  have ok: "ws_ok (resume c i (Some x) now)" by (rule resume_ok [OF assms(1)])
  have "ws_locked c" using ws_ok_forget(2) [OF assms(1,2)] assms(3) by simp
  then show ?thesis using ok assms
    by (simp add: jammed_def resume_eq [OF assms(2,3)] dial_answered_def ws_handle_error_def handle_connection_loss_def jam_points_def)
qed

section \<open>Lemmas on the manager\<close>

lemma in_call_suspend [simp]: "in_call (suspend owner p c) \<longleftrightarrow> in_call c \<or> owner = None"
  by (auto simp: in_call_def suspend_def)

lemma in_call_update [simp]:
  "in_call (c\<lparr>ws_locked := l\<rparr>) = in_call c" "in_call (c\<lparr>ws_st := s\<rparr>) = in_call c" "in_call (c\<lparr>ws_socket := k\<rparr>) = in_call c"
  "in_call (c\<lparr>ws_attempts := n\<rparr>) = in_call c" "in_call (c\<lparr>ws_loops := ks\<rparr>) = in_call c" "in_call (c\<lparr>ws_log := lg\<rparr>) = in_call c"
  "in_call (c\<lparr>ws_last_ping := t\<rparr>) = in_call c" "in_call (c\<lparr>ws_task := tk\<rparr>) = in_call c" "in_call (c\<lparr>ws_fresh := f\<rparr>) = in_call c"
  by (simp_all add: in_call_def)

text \<open>A step that is not a call never adds a coroutine of the caller.\<close>

lemma in_call_task [simp]:
  "in_call (ws_connect (Some k) held c) = in_call c"
  "in_call (handle_connection_loss (Some k) held c) = in_call c"
  "in_call (ws_handle_error (Some k) held x c) = in_call c"
  "in_call (dial_answered (Some k) r now c) = in_call c"
  "in_call (close_socket (Some k) c) = in_call c"
  by (simp_all add: ws_connect_def connect_locked_def handle_connection_loss_def release_def ws_handle_error_def Let_def
      dial_answered_def close_socket_def split: option.split)

lemma in_call_cancel: "in_call (cancel_task c) \<Longrightarrow> in_call c"
proof (cases "ws_task c")
  case (Some k)
  assume "in_call (cancel_task c)"
  then obtain p where "(None, p) \<in> set (ws_acts (cancel_task c))" by (auto simp: in_call_def)
  then show ?thesis using acts_cancel_task [of c] Some by (auto simp: in_call_def intro: rev_image_eqI)
qed (simp add: cancel_task_def)

lemma in_call_disconnect: "in_call (disconnect_locked (Some k) c) \<Longrightarrow> in_call c"
  by (auto simp: disconnect_locked_def Let_def dest: in_call_cancel split: if_splits)

lemma in_call_forget: "in_call (forget i c) \<Longrightarrow> in_call c"
  by (auto simp: in_call_def forget_def dest!: in_set_takeD in_set_dropD intro: rev_image_eqI)

lemma in_call_resume:
  assumes "in_call (resume c i r now)"
  shows "in_call c"
proof (cases "i < length (ws_acts c)")
  case True
  obtain owner p where a: "ws_acts c ! i = (owner, p)" by (cases "ws_acts c ! i")
  show ?thesis
  proof (cases owner)
    case None
    then show ?thesis using a nth_mem [OF True] by (auto simp: in_call_def intro: rev_image_eqI)
  next
    case (Some k)
    then show ?thesis using assms
      by (cases p) (auto simp: resume_eq [OF True a] connect_locked_def dest: in_call_forget in_call_disconnect split: if_splits)
  qed
qed (use assms in \<open>simp add: resume_def\<close>)

lemma in_call_step: "\<not> is_call x \<Longrightarrow> in_call (ws_step c x) \<Longrightarrow> in_call c"
  by (cases x) (auto simp: ws_receive_def loop_ends_def Let_def dest: in_call_resume split: option.splits ws_failure.splits if_splits)

text \<open>
  A suspended coroutine of a caller belongs to the call that the manager waits in, and the
  subscriptions name connections the manager has, each at most once, and are not empty.
\<close>

fun call_names :: "mg_call option \<Rightarrow> string \<Rightarrow> bool" where
  "call_names None cid = False"
| "call_names (Some (Adding a)) cid = (a = cid)"
| "call_names (Some (Removing a)) cid = (a = cid)"
| "call_names (Some (Sending a)) cid = (a = cid)"
| "call_names (Some (Broadcasting a as n)) cid = (a = cid)"
| "call_names (Some Stopping) cid = True"

definition conns_ok :: "mg_call option \<Rightarrow> (string, 'm ws_conn) dict \<Rightarrow> bool" where
  "conns_ok call conns \<longleftrightarrow> dict_ok conns \<and> (\<forall>cid c. dget conns cid = Some c \<longrightarrow> ws_ok c \<and> (in_call c \<longrightarrow> call_names call cid))"

definition subs_ok :: "(string, 'm ws_conn) dict \<Rightarrow> (skey, symbol \<times> string list) dict \<Rightarrow> bool" where
  "subs_ok conns subs \<longleftrightarrow> (\<forall>v \<in> set (dvals subs). snd v \<noteq> [] \<and> distinct (snd v) \<and> (\<forall>x \<in> set (snd v). dget conns x \<noteq> None))"

definition not_yet_subscribed :: "mg_call option \<Rightarrow> (skey, symbol \<times> string list) dict \<Rightarrow> bool" where
  "not_yet_subscribed call subs \<longleftrightarrow> (\<forall>cid. call = Some (Adding cid) \<longrightarrow> (\<forall>v \<in> set (dvals subs). cid \<notin> set (snd v)))"

definition mg_ok :: "'m ws_manager \<Rightarrow> bool" where
  "mg_ok m \<longleftrightarrow> conns_ok (mg_call m) (mg_conns m) \<and> subs_ok (mg_conns m) (mg_subs m) \<and>
     not_yet_subscribed (mg_call m) (mg_subs m)"

lemma conns_ok_put: "conns_ok call conns \<Longrightarrow> ws_ok c \<Longrightarrow> (in_call c \<Longrightarrow> call_names call cid) \<Longrightarrow> conns_ok call (dset conns cid c)"
  by (auto simp: conns_ok_def)

lemma conns_ok_del: "conns_ok call conns \<Longrightarrow> conns_ok call (ddel conns cid)"
  by (auto simp: conns_ok_def)

lemma conns_ok_call:
  "conns_ok call conns \<Longrightarrow> (\<And>cid c. dget conns cid = Some c \<Longrightarrow> in_call c \<Longrightarrow> call_names call' cid) \<Longrightarrow> conns_ok call' conns"
  by (auto simp: conns_ok_def)

lemma conns_ok_None: "conns_ok None conns \<Longrightarrow> conns_ok call conns"
  by (auto simp: conns_ok_def)

lemma conns_okD: "conns_ok call conns \<Longrightarrow> dget conns cid = Some c \<Longrightarrow> ws_ok c"
  by (auto simp: conns_ok_def)

lemma conns_idleD: "conns_ok None conns \<Longrightarrow> dget conns cid = Some c \<Longrightarrow> \<not> in_call c"
  by (auto simp: conns_ok_def)

lemma subs_ok_put [simp]: "subs_ok conns subs \<Longrightarrow> subs_ok (dset conns cid c) subs"
  by (auto simp: subs_ok_def)

lemma subs_ok_del: "subs_ok conns subs \<Longrightarrow> (\<And>v. v \<in> set (dvals subs) \<Longrightarrow> cid \<notin> set (snd v)) \<Longrightarrow> subs_ok (ddel conns cid) subs"
  unfolding subs_ok_def by (metis dget_ddel)

lemma put_conn_fields [simp]:
  "mg_conns (put_conn m cid c now) = dset (mg_conns m) cid c" "mg_subs (put_conn m cid c now) = mg_subs m"
  "mg_call (put_conn m cid c now) = mg_call m" "mg_results (put_conn m cid c now) = mg_results m"
  by (simp_all add: put_conn_def Let_def)

lemma finish_call_fields [simp]:
  "mg_conns (finish_call m r) = mg_conns m" "mg_subs (finish_call m r) = mg_subs m" "mg_call (finish_call m r) = None"
  "mg_results (finish_call m r) = mg_results m @ [r]"
  by (simp_all add: finish_call_def)

lemma not_yet_None [simp]: "not_yet_subscribed None subs"
  by (simp add: not_yet_subscribed_def)

lemma mg_ok_finish:
  "mg_ok (finish_call m r) \<longleftrightarrow> conns_ok None (mg_conns m) \<and> subs_ok (mg_conns m) (mg_subs m)"
  by (simp add: mg_ok_def)

lemma mg_ok_put:
  assumes "mg_ok m" "ws_ok c" "in_call c \<Longrightarrow> call_names (mg_call m) cid"
  shows "mg_ok (put_conn m cid c now)"
  using assms conns_ok_put [of "mg_call m" "mg_conns m" c cid] by (simp add: mg_ok_def)

lemma send_ok: "ws_ok c \<Longrightarrow> ws_ok (snd (ws_send c r))"
  using ws_step_ok [of c "Call_Send r"] by simp

lemma broadcast_from_ok:
  "conns_ok None (mg_conns m) \<Longrightarrow> subs_ok (mg_conns m) (mg_subs m) \<Longrightarrow> mg_ok (broadcast_from m cids n out now)"
proof (induction m cids n out now rule: broadcast_from.induct)
  case (2 m cid cids n out now)
  show ?case
  proof (cases "dget (mg_conns m) cid")
    case None
    with 2 show ?thesis by simp
  next
    case (Some c)
    obtain s c1 where s: "ws_send c (out cid) = (s, c1)" by (cases "ws_send c (out cid)")
    have ok: "ws_ok c1" using send_ok [of c "out cid"] conns_okD [OF 2(3) Some] s by simp
    have sub: "subs_ok (dset (mg_conns m) cid c1) (mg_subs m)" using 2(4) by (rule subs_ok_put)
    show ?thesis
    proof (cases "in_call c1")
      case True
      have "conns_ok (Some (Broadcasting cid cids n)) (dset (mg_conns m) cid c1)"
        by (rule conns_ok_put [OF conns_ok_None [OF 2(3)] ok]) simp
      with True sub Some s show ?thesis by (simp add: Let_def mg_ok_def not_yet_subscribed_def)
    next
      case False
      have "conns_ok None (dset (mg_conns m) cid c1)" using conns_ok_put [OF 2(3) ok] False by simp
      with 2(2) [OF Some s [symmetric] refl] False sub Some s show ?thesis by (simp add: Let_def)
    qed
  qed
qed (simp add: mg_ok_finish)

lemma drop_subscriber_vals:
  "set (dvals (drop_subscriber cid subs)) = {(fst v, removeAll cid (snd v)) |v. v \<in> set (dvals subs) \<and> removeAll cid (snd v) \<noteq> []}"
  by (force simp: drop_subscriber_def image_iff)

lemma drop_subscriber_ok: "subs_ok conns subs \<Longrightarrow> subs_ok (ddel conns cid) (drop_subscriber cid subs)"
  unfolding subs_ok_def drop_subscriber_vals by (auto simp: distinct_removeAll)

lemma settle_ok:
  assumes "mg_ok m"
  shows "mg_ok (settle m out now)"
proof -
  have c: "conns_ok (mg_call m) (mg_conns m)" "subs_ok (mg_conns m) (mg_subs m)" using assms by (simp_all add: mg_ok_def)
  have idle: "conns_ok None (mg_conns m)" if "mg_call m = Some call" "\<not> call_open m cid" "\<And>cid'. call_names (Some call) cid' \<Longrightarrow> cid' = cid" for call cid
    by (rule conns_ok_call [OF c(1)]) (use that c(1) in \<open>fastforce simp: conns_ok_def call_open_def\<close>)
  show ?thesis
  proof (cases "mg_call m")
    case None
    with assms show ?thesis by (simp add: settle_def)
  next
    case (Some call)
    show ?thesis
    proof (cases call)
      case (Adding cid)
      have "subs_ok (ddel (mg_conns m) cid) (mg_subs m)"
        by (rule subs_ok_del [OF c(2)]) (use assms Some Adding in \<open>auto simp: mg_ok_def not_yet_subscribed_def\<close>)
      then show ?thesis using assms c idle [OF Some] Some Adding
        by (auto simp: settle_def mg_ok_finish conns_ok_del split: option.split)
    next
      case (Removing cid)
      then show ?thesis using assms idle [OF Some] Some drop_subscriber_ok [OF c(2), of cid]
        by (simp add: settle_def mg_ok_finish conns_ok_del)
    next
      case (Sending cid)
      then show ?thesis using assms c idle [OF Some] Some by (simp add: settle_def mg_ok_finish)
    next
      case (Broadcasting cid cids n)
      then show ?thesis using assms c idle [OF Some] Some by (simp add: settle_def broadcast_from_ok)
    next
      case Stopping
      then show ?thesis using assms Some by (simp add: settle_def mg_ok_finish) (simp add: conns_ok_def subs_ok_def)
    qed
  qed
qed

datatype 'm mg_op =
    M_Add string time
  | M_Remove string time
  | M_Subscribe symbol string
  | M_Unsubscribe symbol "string option"
  | M_Send string "ws_failure option" time
  | M_Broadcast symbol "string \<Rightarrow> ws_failure option" time
  | M_Shutdown time
  | M_Conn string "'m ws_op" "string \<Rightarrow> ws_failure option" time

fun mg_step :: "'m ws_manager \<Rightarrow> 'm mg_op \<Rightarrow> 'm ws_manager" where
  "mg_step m (M_Add cid now) = add_connection m cid now"
| "mg_step m (M_Remove cid now) = remove_connection m cid now"
| "mg_step m (M_Subscribe sy cid) = subscribe_symbol m sy cid"
| "mg_step m (M_Unsubscribe sy cid) = unsubscribe_symbol m sy cid"
| "mg_step m (M_Send cid r now) = send_to_connection m cid r now"
| "mg_step m (M_Broadcast sy out now) = broadcast_to_symbol m sy out now"
| "mg_step m (M_Shutdown now) = mg_shutdown m now"
| "mg_step m (M_Conn cid x out now) = mg_connection_step m cid x out now"

lemma mg_ok_set_call:
  "mg_ok m \<Longrightarrow> (\<And>cid c. dget (mg_conns m) cid = Some c \<Longrightarrow> in_call c \<Longrightarrow> call_names call cid) \<Longrightarrow> not_yet_subscribed call (mg_subs m) \<Longrightarrow>
   mg_ok (m\<lparr>mg_call := call\<rparr>)"
  by (auto simp: mg_ok_def conns_ok_def)

lemma mg_connD: "mg_ok m \<Longrightarrow> dget (mg_conns m) cid = Some c \<Longrightarrow> ws_ok c"
  unfolding mg_ok_def using conns_okD by blast

lemma mg_subsD: "mg_ok m \<Longrightarrow> v \<in> set (dvals (mg_subs m)) \<Longrightarrow> snd v \<noteq> [] \<and> distinct (snd v) \<and> (\<forall>x \<in> set (snd v). dget (mg_conns m) x \<noteq> None)"
  unfolding mg_ok_def subs_ok_def by blast

lemma add_connection_ok:
  assumes "mg_ok m"
  shows "mg_ok (add_connection m cid now)"
proof (cases "mg_call m = None \<and> dget (mg_conns m) cid = None")
  case True
  let ?c = "ws_connect None False (add_error_handler (add_message_handler (new_ws_conn now) 0) 0) :: 'a ws_conn"
  have "ws_ok ?c"
    by (rule connect_ok) (simp add: ws_running_def new_ws_conn_def add_error_handler_def add_message_handler_def holders_def)
  then have "conns_ok (Some (Adding cid)) (dset (mg_conns m) cid ?c)"
    using assms True by (intro conns_ok_put [OF conns_ok_None]) (simp_all add: mg_ok_def)
  moreover have "not_yet_subscribed (Some (Adding cid)) (mg_subs m)"
    using mg_subsD [OF assms] True unfolding not_yet_subscribed_def by blast
  ultimately show ?thesis using assms True by (simp add: add_connection_def Let_def mg_ok_def)
next
  case False
  then show ?thesis using assms by (auto simp: add_connection_def mg_ok_finish) (simp_all add: mg_ok_def)
qed

lemma remove_connection_ok:
  assumes "mg_ok m"
  shows "mg_ok (remove_connection m cid now)"
proof (cases "mg_call m = None \<and> dget (mg_conns m) cid \<noteq> None")
  case True
  then obtain c where c: "dget (mg_conns m) cid = Some c" by auto
  have "ws_ok (ws_disconnect c)" using ws_step_ok [of c Call_Disconnect] mg_connD [OF assms c] by simp
  then have "conns_ok (Some (Removing cid)) (dset (mg_conns m) cid (ws_disconnect c))"
    using assms True by (intro conns_ok_put [OF conns_ok_None]) (simp_all add: mg_ok_def)
  then have "mg_ok ((put_conn m cid (ws_disconnect c) now)\<lparr>mg_call := Some (Removing cid)\<rparr>)"
    using assms by (simp add: mg_ok_def not_yet_subscribed_def)
  with True c settle_ok show ?thesis by (simp add: remove_connection_def)
next
  case False
  then show ?thesis using assms by (auto simp: remove_connection_def mg_ok_finish split: option.split) (simp_all add: mg_ok_def)
qed

lemma subscribers_ok:
  assumes "mg_ok m"
  shows "distinct (subscribers m sy) \<and> (\<forall>x \<in> set (subscribers m sy). dget (mg_conns m) x \<noteq> None)"
proof (cases "dget (mg_subs m) (symbol_key sy)")
  case (Some v)
  from mg_subsD [OF assms dget_in_dvals [OF Some]] Some show ?thesis by (simp add: subscribers_def)
qed (simp add: subscribers_def)

lemma subs_ok_set:
  "subs_ok conns subs \<Longrightarrow> ids \<noteq> [] \<Longrightarrow> distinct ids \<Longrightarrow> (\<forall>x \<in> set ids. dget conns x \<noteq> None) \<Longrightarrow> subs_ok conns (dset subs k (s, ids))"
  using dvals_dset_subset [of k "(s, ids)" subs] unfolding subs_ok_def by (metis (no_types, lifting) insertE snd_conv subsetD)

lemma subs_ok_remove: "subs_ok conns subs \<Longrightarrow> subs_ok conns (ddel subs k)"
  using dvals_ddel_subset [of k subs] unfolding subs_ok_def by (meson subsetD)

lemma set_add_distinct: "distinct xs \<Longrightarrow> distinct (set_add x xs)"
  by (simp add: set_add_def)

lemma set_add_set: "set (set_add x xs) = insert x (set xs)"
  by (auto simp: set_add_def)

lemma subscribe_symbol_ok: "mg_ok m \<Longrightarrow> mg_ok (subscribe_symbol m sy cid)"
proof (cases "mg_call m = None \<and> dget (mg_conns m) cid \<noteq> None")
  case True
  assume ok: "mg_ok m"
  have "set_add cid (subscribers m sy) \<noteq> []" by (auto simp: set_add_def)
  with ok True show ?thesis using subscribers_ok [OF ok, of sy]
    by (auto simp: subscribe_symbol_def Let_def mg_ok_finish set_add_distinct set_add_set intro!: subs_ok_set) (simp_all add: mg_ok_def)
qed (auto simp: subscribe_symbol_def mg_ok_finish, simp_all add: mg_ok_def)

lemma unsubscribe_symbol_ok:
  assumes "mg_ok m"
  shows "mg_ok (unsubscribe_symbol m sy cid)"
proof (cases "mg_call m = None \<and> dget (mg_subs m) (symbol_key sy) \<noteq> None")
  case True
  then obtain v where v: "dget (mg_subs m) (symbol_key sy) = Some v" by auto
  have "distinct (snd v)" "\<forall>x \<in> set (snd v). dget (mg_conns m) x \<noteq> None" using subscribers_ok [OF assms, of sy] v by (simp_all add: subscribers_def)
  with True v assms show ?thesis
    by (auto simp: unsubscribe_symbol_def Let_def mg_ok_finish distinct_removeAll split: option.split intro!: subs_ok_set subs_ok_remove)
      (simp_all add: mg_ok_def)
qed (use assms in \<open>auto simp: unsubscribe_symbol_def mg_ok_finish split: option.split, simp_all add: mg_ok_def\<close>)

lemma send_to_connection_ok:
  assumes "mg_ok m"
  shows "mg_ok (send_to_connection m cid r now)"
proof (cases "mg_call m = None \<and> dget (mg_conns m) cid \<noteq> None")
  case True
  then obtain c where c: "dget (mg_conns m) cid = Some c" by auto
  obtain s c1 where s: "ws_send c r = (s, c1)" by (cases "ws_send c r")
  have ok: "ws_ok c1" using send_ok [of c r] mg_connD [OF assms c] s by simp
  have "conns_ok (Some (Sending cid)) (dset (mg_conns m) cid c1)" using assms True ok by (intro conns_ok_put [OF conns_ok_None]) (simp_all add: mg_ok_def)
  moreover have "\<not> in_call c1 \<Longrightarrow> conns_ok None (dset (mg_conns m) cid c1)" using assms True ok by (intro conns_ok_put) (simp_all add: mg_ok_def)
  ultimately show ?thesis using True c s assms
    by (auto simp: send_to_connection_def Let_def mg_ok_finish) (simp_all add: mg_ok_def not_yet_subscribed_def)
next
  case False
  then show ?thesis using assms by (auto simp: send_to_connection_def mg_ok_finish split: option.split) (simp_all add: mg_ok_def)
qed

lemma mg_shutdown_ok:
  assumes "mg_ok m"
  shows "mg_ok (mg_shutdown m now)"
proof (cases "mg_call m = None")
  case True
  have "ws_ok (ws_disconnect c)" if "ws_ok c" for c :: "'a ws_conn" using ws_step_ok [OF that, of Call_Disconnect] by simp
  then have "mg_ok (m\<lparr>mg_conns := map (\<lambda>(k, c). (k, ws_disconnect c)) (mg_conns m), mg_call := Some Stopping\<rparr>)"
    using assms True
    by (auto simp: mg_ok_def conns_ok_def dget_map_values subs_ok_def not_yet_subscribed_def dict_ok_def comp_def case_prod_beta)
  with settle_ok True show ?thesis by (simp add: mg_shutdown_def)
qed (use assms in \<open>simp add: mg_shutdown_def\<close>)

lemma mg_connection_step_ok:
  assumes "mg_ok m"
  shows "mg_ok (mg_connection_step m cid x out now)"
proof (cases "dget (mg_conns m) cid")
  case (Some c)
  have "ws_ok (ws_step c x)" by (rule ws_step_ok [OF mg_connD [OF assms Some]])
  then have "mg_ok (put_conn m cid (ws_step c x) now)" if "\<not> is_call x"
    using that in_call_step [OF that] assms Some by (intro mg_ok_put) (auto simp: mg_ok_def conns_ok_def)
  then show ?thesis using Some assms by (auto simp: mg_connection_step_def intro: settle_ok)
qed (use assms in \<open>simp add: mg_connection_step_def\<close>)

lemma broadcast_to_symbol_ok: "mg_ok m \<Longrightarrow> mg_ok (broadcast_to_symbol m sy out now)"
  using broadcast_from_ok [of m] by (cases "mg_call m") (simp_all add: broadcast_to_symbol_def, simp add: mg_ok_def)

lemma mg_step_ok: "mg_ok m \<Longrightarrow> mg_ok (mg_step m x)"
  by (cases x)
    (simp_all add: add_connection_ok remove_connection_ok subscribe_symbol_ok unsubscribe_symbol_ok send_to_connection_ok
      mg_shutdown_ok mg_connection_step_ok broadcast_to_symbol_ok)

interpretation ws_manager: run_system mg_step "\<lambda>_ _. True" mg_ok
  by unfold_locales (rule mg_step_ok)

lemma mg_ok_new: "mg_ok new_ws_manager"
  by (simp add: mg_ok_def new_ws_manager_def conns_ok_def subs_ok_def)

section \<open>Properties of WebSocket feeds\<close>

text \<open>Whatever calls and answers come in whatever order, the lock of a connection is held by at most
  one coroutine, the attempts stay within their bound, and CONNECTING is only said while the client
  library is being asked.\<close>

theorem websocket_lock_exclusive:
  assumes "c = run_ops ws_step (new_ws_conn now) xs"
  shows "length (filter (\<lambda>a. holds_lock (snd a)) (ws_acts c)) = (if ws_locked c then 1 else 0) \<and> ws_attempts c \<le> 5 \<and>
    (ws_st c = WS_CONNECTING \<longrightarrow> (\<exists>owner. (owner, In_Dial) \<in> set (ws_acts c)))"
proof -
  have "ws_ok c" unfolding assms by (rule websocket.run_inv) (simp_all add: ws_ok_def new_ws_conn_def holders_def)
  then show ?thesis by (auto simp: ws_ok_def holders_def dialing_def)
qed

text \<open>\<open>connect\<close> handles a refused connection while it holds its lock, and the reconnection it tries
  calls \<open>connect\<close> again: from then on the lock is never free, no connection is ever made, and no
  call of \<open>connect\<close> or \<open>disconnect\<close> gets through.\<close>

theorem refused_connect_deadlocks:
  assumes "c = run_ops ws_step (new_ws_conn now) xs" "i < length (ws_acts c)" "snd (ws_acts c ! i) = In_Dial" "ws_attempts c < 5"
    and "is_connection_failure x" "c2 = run_ops ws_step (resume c i (Some x) t) ys"
  shows "ws_locked c2 \<and> ws_fresh c2 = ws_fresh c \<and> (ws_st c2 = WS_RECONNECTING \<or> ws_st c2 = WS_ERROR) \<and>
    ws_disconnect c2 = suspend None Out_Lock c2 \<and> ws_connect None False c2 = suspend None (In_Lock False) c2"
proof -
  have ok: "ws_ok c" unfolding assms(1) by (rule websocket.run_inv) (simp_all add: ws_ok_def new_ws_conn_def holders_def)
  obtain owner where "ws_acts c ! i = (owner, In_Dial)" using assms(3) by (cases "ws_acts c ! i") auto
  from dial_failure_jams [OF ok assms(2) this assms(4,5), of t] jammed_run [of owner "resume c i (Some x) t" ys]
  have "jammed owner c2" "ws_fresh c2 = ws_fresh c" by (simp_all add: assms(6))
  then show ?thesis by (simp add: jammed_def ws_disconnect_def ws_connect_def)
qed

lemma dkeys_dset_old: "dget d k = Some v \<Longrightarrow> dkeys (dset d k w) = dkeys d"
  using dget_None_iff [of d k] by (simp add: update_keys)

definition mg_jammed :: "'m ws_manager \<Rightarrow> string \<Rightarrow> bool" where
  "mg_jammed m cid \<longleftrightarrow> mg_call m = Some (Adding cid) \<and> (\<exists>c. dget (mg_conns m) cid = Some c \<and> jammed None c)"

lemma jammed_in_call: "jammed None c \<Longrightarrow> in_call c"
  by (auto simp: jammed_def in_call_def intro: rev_image_eqI)

lemma mg_jammed_step:
  assumes "mg_jammed m cid"
  shows "mg_jammed (mg_step m x) cid \<and> mg_results (mg_step m x) = mg_results m \<and> mg_subs (mg_step m x) = mg_subs m \<and>
    dkeys (mg_conns (mg_step m x)) = dkeys (mg_conns m)"
proof (cases x)
  case (M_Conn cid' y out now)
  show ?thesis
  proof (cases "dget (mg_conns m) cid' = None \<or> is_call y")
    case True
    then show ?thesis using assms by (auto simp: M_Conn mg_connection_step_def split: option.split)
  next
    case False
    then obtain c where c: "dget (mg_conns m) cid' = Some c" "\<not> is_call y" by auto
    let ?m = "put_conn m cid' (ws_step c y) now"
    have j: "mg_jammed ?m cid" using assms c jammed_step [of None c y] by (auto simp: mg_jammed_def)
    then have "call_open ?m cid" using jammed_in_call by (auto simp: mg_jammed_def call_open_def)
    with j have "settle ?m out now = ?m" by (simp add: settle_def mg_jammed_def)
    with j c show ?thesis using dkeys_dset_old [OF c(1)] by (simp add: M_Conn mg_connection_step_def)
  qed
qed (use assms in \<open>auto simp: mg_jammed_def add_connection_def remove_connection_def subscribe_symbol_def unsubscribe_symbol_def
  send_to_connection_def broadcast_to_symbol_def mg_shutdown_def\<close>)

lemma mg_jammed_run:
  assumes "mg_jammed m cid"
  shows "mg_jammed (run_ops mg_step m xs) cid \<and> mg_results (run_ops mg_step m xs) = mg_results m \<and>
    mg_subs (run_ops mg_step m xs) = mg_subs m \<and> dkeys (mg_conns (run_ops mg_step m xs)) = dkeys (mg_conns m)"
  using assms
proof (induction xs arbitrary: m)
  case (Cons x xs)
  from Cons.IH [of "mg_step m x"] mg_jammed_step [OF Cons.prems, of x] show ?case by simp
qed simp

text \<open>C31. When the first attempt to connect a new connection is refused, the call that adds it never returns, and
  with it the manager's lock: whatever is called afterwards, no call returns, nothing can be
  subscribed, removed or shut down, and the broken connection stays registered.\<close>

theorem refused_connection_jams_manager:
  assumes "mg_call m = None" "dget (mg_conns m) cid = None" "is_connection_failure x"
    and "m1 = mg_connection_step (add_connection m cid t) cid (Resume_Act 0 (Some x) t1) out t1" "m2 = run_ops mg_step m1 xs"
  shows "mg_call m2 = Some (Adding cid) \<and> mg_results m2 = mg_results m \<and> mg_subs m2 = mg_subs m \<and>
    dkeys (mg_conns m2) = dkeys (mg_conns m) @ [cid]"
proof -
  let ?new = "add_error_handler (add_message_handler (new_ws_conn t) 0) 0 :: 'a ws_conn"
  let ?c = "ws_connect None False ?new"
  have c: "?c = suspend None In_Dial (?new\<lparr>ws_locked := True, ws_st := WS_CONNECTING\<rparr>)" "ws_acts ?new = []" "ws_attempts ?new = 0"
    by (simp_all add: ws_connect_def connect_locked_def new_ws_conn_def add_error_handler_def add_message_handler_def)
  have ok: "ws_ok ?c"
    by (rule connect_ok) (simp add: ws_running_def new_ws_conn_def add_error_handler_def add_message_handler_def holders_def)
  have j: "jammed None (resume ?c 0 (Some x) t1)"
    using dial_failure_jams [OF ok, of 0 None x t1] assms(3) by (simp add: c)
  have a: "mg_conns (add_connection m cid t) = dset (mg_conns m) cid ?c" "mg_call (add_connection m cid t) = Some (Adding cid)"
    "mg_results (add_connection m cid t) = mg_results m" "mg_subs (add_connection m cid t) = mg_subs m"
    using assms(1,2) by (simp_all add: add_connection_def Let_def)
  let ?m = "put_conn (add_connection m cid t) cid (resume ?c 0 (Some x) t1) t1"
  have jm: "mg_jammed ?m cid" using j a by (simp add: mg_jammed_def)
  have "call_open ?m cid" using jammed_in_call [OF j] by (simp add: call_open_def)
  with a have "settle ?m out t1 = ?m" by (simp add: settle_def)
  then have m1: "m1 = ?m" unfolding assms(4) mg_connection_step_def a by simp
  have "dkeys (dset (mg_conns m) cid ?c) = dkeys (mg_conns m) @ [cid]" using assms(2) dget_None_iff [of "mg_conns m" cid] by (simp add: update_keys)
  then have "dkeys (mg_conns ?m) = dkeys (mg_conns m) @ [cid]" using dkeys_dset_old [of "dset (mg_conns m) cid ?c" cid ?c] a by simp
  with mg_jammed_run [OF jm, of xs] a show ?thesis by (simp add: assms(5) m1 mg_jammed_def)
qed

text \<open>C34. Subscriptions name connections that the manager has, each once, and none is empty, whatever
  calls and connection events come in whatever order.\<close>

theorem subscriptions_name_connections:
  assumes "m = run_ops mg_step new_ws_manager xs" "dget (mg_subs m) k = Some v"
  shows "snd v \<noteq> [] \<and> distinct (snd v) \<and> set (snd v) \<subseteq> set (dkeys (mg_conns m))"
proof -
  have "mg_ok m" unfolding assms(1) by (rule ws_manager.run_inv [OF mg_ok_new]) simp
  from mg_subsD [OF this dget_in_dvals [OF assms(2)]] show ?thesis
    using dget_None_iff [of "mg_conns m"] by blast
qed

definition ws_established :: "'m ws_conn \<Rightarrow> nat \<Rightarrow> bool" where
  "ws_established c k \<longleftrightarrow> ws_st c = WS_CONNECTED \<and> ws_socket c = Some k \<and> ws_task c = Some k \<and> ws_loops c = [k] \<and> ws_acts c = [] \<and>
     ws_attempts c = 0 \<and> \<not> ws_locked c \<and> k < ws_fresh c"

text \<open>A sender and the message loop both see that the socket is closed; both reconnect, and the
  second one throws away the socket that the first one has made. The connection says CONNECTED,
  has no socket, and no call but \<open>disconnect\<close> changes that.\<close>

theorem double_loss_loses_socket:
  assumes "ws_established c k"
    and "c1 = run_ops ws_step c [Call_Send (Some WS_Closed), Loop_Ends k (Some WS_Closed), Resume_Act 0 None t, Resume_Act 1 None t,
      Resume_Act 1 None t, Resume_Act 0 None t, Resume_Act 0 None t, Loop_Ends (ws_fresh c) None]"
    and "Call_Disconnect \<notin> set xs"
  shows "ws_st c1 = WS_CONNECTED \<and> ws_socket c1 = None \<and> run_ops ws_step c1 xs = c1"
proof -
  note defs = ws_send_def ws_usable_def ws_is_connected_def ws_handle_error_def handle_connection_loss_def loop_ends_def Let_def
    suspend_def resume_def ws_connect_def connect_locked_def dial_answered_def release_def
  have c1: "ws_st c1 = WS_CONNECTED" "ws_socket c1 = None" "ws_acts c1 = []" "ws_loops c1 = []" "\<not> ws_locked c1"
    using assms(1) unfolding assms(2) ws_established_def by (simp_all add: defs)
  then have "ws_step c1 x = c1" if "x \<noteq> Call_Disconnect" for x
    using that by (cases x) (simp_all add: defs ws_ping_def ws_receive_def)
  then have "run_ops ws_step c1 xs = c1" using assms(3) by (induction xs) auto
  with c1 show ?thesis by simp
qed

text \<open>A send that failed is still waiting to reconnect when \<open>disconnect\<close> is called and returns; then
  it wakes up and connects again.\<close>

theorem reconnects_after_disconnect:
  assumes "ws_established c k"
    and "c1 = run_ops ws_step c [Call_Send (Some WS_Closed), Call_Disconnect, Resume_Act 1 None t]"
  shows "ws_st c1 = WS_DISCONNECTED \<and> ws_acts c1 = [(None, In_Sleep False)] \<and>
    ws_st (run_ops ws_step c1 [Resume_Act 0 None t, Resume_Act 0 None t]) = WS_CONNECTED"
  using assms(1) unfolding assms(2) ws_established_def
  by (simp add: ws_send_def ws_usable_def ws_is_connected_def ws_handle_error_def handle_connection_loss_def Let_def
    suspend_def resume_def ws_connect_def connect_locked_def dial_answered_def release_def ws_disconnect_def disconnect_locked_def
    cancel_task_def task_busy_def close_socket_def)

definition sample_ws_conn :: "nat ws_conn" where
  "sample_ws_conn = run_ops ws_step (new_ws_conn 0) [Call_Connect]"

lemma sample_ws_conn_dialing:
  "ws_acts sample_ws_conn = [(None, In_Dial)]" "ws_attempts sample_ws_conn = 0"
  by (simp_all add: sample_ws_conn_def new_ws_conn_def ws_connect_def connect_locked_def suspend_def)

theorem websocket_lock_exclusive_witness:
  "length (filter (\<lambda>a. holds_lock (snd a)) (ws_acts sample_ws_conn)) = (if ws_locked sample_ws_conn then 1 else 0)"
  using websocket_lock_exclusive [OF sample_ws_conn_def] by blast

theorem refused_connect_deadlocks_witness:
  "ws_locked (run_ops ws_step (resume sample_ws_conn 0 (Some (WS_Raised ConnectionError)) 1) [Resume_Act 0 None 2, Call_Disconnect])"
  using refused_connect_deadlocks [OF sample_ws_conn_def _ _ _ _ refl,
      of 0 "WS_Raised ConnectionError" 1 "[Resume_Act 0 None 2, Call_Disconnect]"]
  by (simp add: sample_ws_conn_dialing)

theorem refused_connection_jams_manager_witness:
  "mg_call (run_ops mg_step (mg_connection_step (add_connection (new_ws_manager :: nat ws_manager) ''a'' 0) ''a''
     (Resume_Act 0 (Some (WS_Raised ConnectionError)) 1) (\<lambda>_. None) 1) [M_Shutdown 2]) = Some (Adding ''a'')"
  using refused_connection_jams_manager [OF _ _ _ refl refl, of "new_ws_manager :: nat ws_manager" "''a''" "WS_Raised ConnectionError" 0 1
      "\<lambda>_. None" "[M_Shutdown 2]"]
  by (simp add: new_ws_manager_def)

definition sample_ws_ops :: "nat mg_op list" where
  "sample_ws_ops = [M_Add ''a'' 0, M_Conn ''a'' (Resume_Act 0 None 1) (\<lambda>_. None) 1, M_Subscribe sample_symbol ''a'']"

lemma sample_ws_subs:
  "dget (mg_subs (run_ops mg_step new_ws_manager sample_ws_ops)) (symbol_key sample_symbol) = Some (sample_symbol, [''a''])"
  by (simp add: sample_ws_ops_def new_ws_manager_def add_connection_def Let_def ws_connect_def connect_locked_def suspend_def
      new_ws_conn_def add_error_handler_def add_message_handler_def put_conn_def mg_connection_step_def resume_def dial_answered_def
      settle_def call_open_def in_call_def ws_is_connected_def finish_call_def subscribe_symbol_def subscribers_def set_add_def)

theorem subscriptions_name_connections_witness:
  "''a'' \<in> set (dkeys (mg_conns (run_ops mg_step new_ws_manager sample_ws_ops)))"
  using subscriptions_name_connections [OF refl sample_ws_subs] by simp

definition sample_established :: "nat ws_conn" where
  "sample_established = run_ops ws_step (new_ws_conn 0) [Call_Connect, Resume_Act 0 None 1]"

lemma sample_established_ok: "ws_established sample_established 0"
  by (simp add: ws_established_def sample_established_def new_ws_conn_def ws_connect_def connect_locked_def suspend_def resume_def
      dial_answered_def)

theorem double_loss_loses_socket_witness:
  "ws_socket (run_ops ws_step sample_established [Call_Send (Some WS_Closed), Loop_Ends 0 (Some WS_Closed), Resume_Act 0 None 9,
     Resume_Act 1 None 9, Resume_Act 1 None 9, Resume_Act 0 None 9, Resume_Act 0 None 9, Loop_Ends (ws_fresh sample_established) None]) = None"
  using double_loss_loses_socket [OF sample_established_ok refl, of "[]" 9] by simp

theorem reconnects_after_disconnect_witness:
  "ws_st (run_ops ws_step sample_established [Call_Send (Some WS_Closed), Call_Disconnect, Resume_Act 1 None 3]) = WS_DISCONNECTED"
  using reconnects_after_disconnect [OF sample_established_ok refl, of 3] by simp

end
