(* ===== verification/Rest_Api.thy ===== *)
theory Rest_Api
  imports Market_Data Py_Str
begin

section \<open>JSON, numbers from text, and HTTP\<close>

text \<open>
  What the adapters of web services use of Python and of the HTTP client: parsed JSON with the
  operations of Python on it, \<open>Decimal\<close> and \<open>float\<close> of a text, and a server as a function from a
  request and its state to an answer. \<open>NaN\<close> and infinities, which the services do not send, count as
  texts that are no numbers.
\<close>

subsection \<open>Numbers from text\<close>

definition is_letter :: "char \<Rightarrow> bool" where
  "is_letter c \<longleftrightarrow> (let n = of_char c :: nat in 65 \<le> n \<and> n \<le> 90 \<or> 97 \<le> n \<and> n \<le> 122)"

text \<open>\<open>str.isalpha\<close> on ASCII texts.\<close>

definition is_alpha :: "string \<Rightarrow> bool" where
  "is_alpha s \<longleftrightarrow> s \<noteq> [] \<and> list_all is_letter s"

definition digits_value :: "string \<Rightarrow> int" where
  "digits_value s = foldl (\<lambda>a c. a * 10 + digit_val c) 0 s"

text \<open>Digits with at most one point: the number without the point, and the count of decimals.\<close>

definition parse_mantissa :: "string \<Rightarrow> (int \<times> nat) option" where
  "parse_mantissa s =
     (case split_first CHR ''.'' s of
        None \<Rightarrow> if s \<noteq> [] \<and> list_all is_digit s then Some (digits_value s, 0) else None
      | Some (a, b) \<Rightarrow>
          if a @ b \<noteq> [] \<and> list_all is_digit (a @ b) then Some (digits_value (a @ b), length b) else None)"

definition take_sign :: "string \<Rightarrow> rat \<times> string" where
  "take_sign s =
     (case s of
        [] \<Rightarrow> (1, [])
      | c # cs \<Rightarrow> if c = CHR ''-'' then (-1, cs) else if c = CHR ''+'' then (1, cs) else (1, s))"

definition parse_exponent :: "string \<Rightarrow> int option" where
  "parse_exponent s =
     (case take_sign s of
        (sg, ds) \<Rightarrow> if ds \<noteq> [] \<and> list_all is_digit ds then Some (if sg = -1 then - digits_value ds else digits_value ds) else None)"

definition ten_to :: "int \<Rightarrow> rat" where
  "ten_to n = (if 0 \<le> n then 10 ^ nat n else 1 / 10 ^ nat (- n))"

text \<open>A decimal numeral with an optional exponent. Underscores are dropped, spaces around it stripped.\<close>

definition parse_number :: "string \<Rightarrow> rat option" where
  "parse_number text =
     (case take_sign (filter (\<lambda>c. c \<noteq> CHR ''_'') (strip text)) of
        (sg, s) \<Rightarrow>
          (case split_first CHR ''e'' (replace_char CHR ''E'' CHR ''e'' s) of
             None \<Rightarrow> (case parse_mantissa s of None \<Rightarrow> None | Some (m, k) \<Rightarrow> Some (sg * of_int m / 10 ^ k))
           | Some (a, b) \<Rightarrow>
               (case parse_mantissa a of
                  None \<Rightarrow> None
                | Some (m, k) \<Rightarrow>
                    (case parse_exponent b of None \<Rightarrow> None | Some e \<Rightarrow> Some (sg * of_int m / 10 ^ k * ten_to e)))))"

definition dec_of_text :: "string \<Rightarrow> exn + dec" where
  "dec_of_text s = (case parse_number s of None \<Rightarrow> Inl DecimalInvalidOperation | Some x \<Rightarrow> Inr (Dec x))"

definition flt_of_text :: "string \<Rightarrow> exn + flt" where
  "flt_of_text s = (case parse_number s of None \<Rightarrow> Inl ValueError | Some x \<Rightarrow> Inr (Flt (flt_rnd x)))"

text \<open>\<open>int\<close> of a decimal truncates towards zero.\<close>

definition dec_trunc :: "dec \<Rightarrow> int" where
  "dec_trunc d = (if 0 \<le> dval d then \<lfloor>dval d\<rfloor> else \<lceil>dval d\<rceil>)"

subsection \<open>JSON\<close>

datatype json =
    JNull
  | JBool bool
  | JInt int
  | JFloat flt
  | JStr string
  | JList "json list"
  | JDict "(string \<times> json) list"

text \<open>\<open>data[key]\<close>\<close>

fun j_item :: "json \<Rightarrow> string \<Rightarrow> exn + json" where
  "j_item (JDict d) k = (case dget d k of None \<Rightarrow> Inl KeyError | Some x \<Rightarrow> Inr x)"
| "j_item _ k = Inl TypeError"

text \<open>\<open>data[i]\<close>\<close>

fun j_index :: "json \<Rightarrow> nat \<Rightarrow> exn + json" where
  "j_index (JList xs) i = (if i < length xs then Inr (xs ! i) else Inl IndexError)"
| "j_index (JStr s) i = (if i < length s then Inr (JStr [s ! i]) else Inl IndexError)"
| "j_index (JDict d) i = Inl KeyError"
| "j_index _ i = Inl TypeError"

text \<open>\<open>data.get(key, default)\<close>\<close>

fun j_get :: "json \<Rightarrow> string \<Rightarrow> json \<Rightarrow> exn + json" where
  "j_get (JDict d) k x0 = Inr (case dget d k of None \<Rightarrow> x0 | Some x \<Rightarrow> x)"
| "j_get _ k x0 = Inl AttributeError"

text \<open>\<open>key in data\<close>\<close>

fun j_has :: "json \<Rightarrow> string \<Rightarrow> exn + bool" where
  "j_has (JDict d) k = Inr (dget d k \<noteq> None)"
| "j_has (JList xs) k = Inr (List.member xs (JStr k))"
| "j_has (JStr s) k = Inr (list_ex (\<lambda>i. take (length k) (drop i s) = k) [0..<Suc (length s)])"
| "j_has _ k = Inl TypeError"

fun j_truthy :: "json \<Rightarrow> bool" where
  "j_truthy JNull = False"
| "j_truthy (JBool b) = b"
| "j_truthy (JInt n) = (n \<noteq> 0)"
| "j_truthy (JFloat x) = (fval x \<noteq> 0)"
| "j_truthy (JStr s) = (s \<noteq> [])"
| "j_truthy (JList xs) = (xs \<noteq> [])"
| "j_truthy (JDict d) = (d \<noteq> [])"

text \<open>Iteration over the value.\<close>

fun j_iter :: "json \<Rightarrow> exn + json list" where
  "j_iter (JList xs) = Inr xs"
| "j_iter (JDict d) = Inr (map (\<lambda>e. JStr (fst e)) d)"
| "j_iter (JStr s) = Inr (map (\<lambda>c. JStr [c]) s)"
| "j_iter _ = Inl TypeError"

text \<open>\<open>Decimal(str(x))\<close> and \<open>Decimal(x)\<close>; a float becomes its shortest numeral or its exact value.\<close>

fun j_dec_str :: "json \<Rightarrow> exn + dec" where
  "j_dec_str (JInt n) = Inr (Dec (of_int n))"
| "j_dec_str (JFloat x) = Inr (dec_of_flt_str x)"
| "j_dec_str (JStr s) = dec_of_text s"
| "j_dec_str _ = Inl DecimalInvalidOperation"

fun j_dec :: "json \<Rightarrow> exn + dec" where
  "j_dec (JBool b) = Inr (if b then Dec 1 else Dec 0)"
| "j_dec (JInt n) = Inr (Dec (of_int n))"
| "j_dec (JFloat x) = Inr (Dec (fval x))"
| "j_dec (JStr s) = dec_of_text s"
| "j_dec (JList xs) = Inl ValueError"
| "j_dec _ = Inl TypeError"

fun j_float :: "json \<Rightarrow> exn + flt" where
  "j_float (JBool b) = Inr (if b then 1 else 0)"
| "j_float (JInt n) = Inr (flt_int n)"
| "j_float (JFloat x) = Inr x"
| "j_float (JStr s) = flt_of_text s"
| "j_float _ = Inl TypeError"

fun j_int :: "json \<Rightarrow> exn + int" where
  "j_int (JBool b) = Inr (if b then 1 else 0)"
| "j_int (JInt n) = Inr n"
| "j_int (JFloat x) = Inr (flt_trunc x)"
| "j_int (JStr s) = (case parse_int s of None \<Rightarrow> Inl ValueError | Some n \<Rightarrow> Inr n)"
| "j_int _ = Inl TypeError"

text \<open>
  A field that the code stores as it comes and that the service sends as a text. Another value is
  taken for a \<open>TypeError\<close>, where the code would store it and fail later or never.
\<close>

fun j_text :: "json \<Rightarrow> exn + string" where
  "j_text (JStr s) = Inr s"
| "j_text _ = Inl TypeError"

text \<open>A list comprehension whose expression may raise.\<close>

fun map_exn :: "('a \<Rightarrow> 'e + 'b) \<Rightarrow> 'a list \<Rightarrow> 'e + 'b list" where
  "map_exn f [] = Inr []"
| "map_exn f (x # xs) = and_then (f x) (\<lambda>y. and_then (map_exn f xs) (\<lambda>ys. Inr (y # ys)))"

lemma map_exn_ok: "(\<And>x. x \<in> set xs \<Longrightarrow> f x = Inr (g x)) \<Longrightarrow> map_exn f xs = Inr (map g xs)"
  by (induction xs) auto

lemma map_exn_length: "map_exn f xs = Inr ys \<Longrightarrow> length ys = length xs"
  by (induction xs arbitrary: ys) (auto simp: and_then_Inr_iff)

lemma map_exn_nth: "map_exn f xs = Inr ys \<Longrightarrow> i < length xs \<Longrightarrow> f (xs ! i) = Inr (ys ! i)"
  by (induction xs arbitrary: ys i) (auto simp: and_then_Inr_iff nth_Cons split: nat.split)

text \<open>A dictionary that stores each value under its own identifier.\<close>

definition keyed_by :: "('v \<Rightarrow> 'k) \<Rightarrow> ('k, 'v) dict \<Rightarrow> bool" where
  "keyed_by f d \<longleftrightarrow> dict_ok d \<and> (\<forall>k x. dget d k = Some x \<longrightarrow> f x = k)"

lemma keyed_by_Nil [simp]: "keyed_by f []"
  by (simp add: keyed_by_def)

lemma keyed_by_dict_of [simp]: "keyed_by f (dict_of (map (\<lambda>x. (f x, x)) xs))"
  by (auto simp: keyed_by_def dget_dict_of dest!: map_of_SomeD)

lemma keyed_by_dset: "keyed_by f d \<Longrightarrow> f x = k \<Longrightarrow> keyed_by f (dset d k x)"
  by (simp add: keyed_by_def)

lemma keyed_byD: "keyed_by f d \<Longrightarrow> dget d k = Some x \<Longrightarrow> f x = k"
  by (simp add: keyed_by_def)

text \<open>An optional conversion: \<open>f(x) if cond else None\<close>.\<close>

definition if_exn :: "bool \<Rightarrow> 'e + 'a \<Rightarrow> 'e + 'a option" where
  "if_exn b m = (if b then and_then m (\<lambda>x. Inr (Some x)) else Inr None)"

definition opt_dec :: "json \<Rightarrow> string \<Rightarrow> exn + dec option" where
  "opt_dec d k = and_then (j_get d k JNull) (\<lambda>x. if_exn (j_truthy x) (j_dec_str x))"

definition get_dec :: "json \<Rightarrow> string \<Rightarrow> exn + dec" where
  "get_dec d k = and_then (j_get d k (JInt 0)) j_dec_str"

subsection \<open>HTTP\<close>

text \<open>What a request carries: texts of numbers are values that carry the number.\<close>

datatype payload =
    P_Str string
  | P_Dec dec
  | P_Flt flt
  | P_Int int
  | P_Bool bool
  | P_Time time
  | P_Dict "(string \<times> payload) list"

record http_request =
  hq_method :: string
  hq_url :: string
  hq_headers :: "(string, string) dict"
  hq_params :: "(string, payload) dict"
  hq_body :: "(string, payload) dict"

text \<open>\<open>hs_json\<close> is what \<open>response.json()\<close> returns or raises.\<close>

record http_response =
  hs_status :: int
  hs_headers :: "(string, string) dict"
  hs_json :: "exn + json"

text \<open>The client library raises \<open>client_error\<close>, \<open>PyTimeoutError\<close> or, for a status, \<open>HttpError\<close>.\<close>

definition client_error :: exn where
  "client_error = OtherError 1"

definition is_client_error :: "exn \<Rightarrow> bool" where
  "is_client_error e \<longleftrightarrow> (case e of OtherError n \<Rightarrow> n = 1 | HttpError c \<Rightarrow> True | _ \<Rightarrow> False)"

type_synonym 's server = "http_request \<Rightarrow> 's \<Rightarrow> (exn + http_response) \<times> 's"

definition raise_for_status :: "http_response \<Rightarrow> exn + http_response" where
  "raise_for_status r = (if 400 \<le> hs_status r then Inl (HttpError (hs_status r)) else Inr r)"

text \<open>A server that also keeps the requests it has had.\<close>

definition recorded :: "'s server \<Rightarrow> ('s \<times> http_request list) server" where
  "recorded srv rq w = (case srv rq (fst w) of (r, s) \<Rightarrow> (r, (s, snd w @ [rq])))"

text \<open>Sequencing of computations that act on the state of the server.\<close>

definition bind_s :: "('s \<Rightarrow> ('e + 'a) \<times> 's) \<Rightarrow> ('a \<Rightarrow> 's \<Rightarrow> ('e + 'b) \<times> 's) \<Rightarrow> 's \<Rightarrow> ('e + 'b) \<times> 's" where
  "bind_s m f s = (case m s of (Inl e, s1) \<Rightarrow> (Inl e, s1) | (Inr x, s1) \<Rightarrow> f x s1)"

definition pure_s :: "'e + 'a \<Rightarrow> 's \<Rightarrow> ('e + 'a) \<times> 's" where
  "pure_s m s = (m, s)"

lemma bind_s_simps [simp]:
  "m s = (Inl e, s1) \<Longrightarrow> bind_s m f s = (Inl e, s1)" "m s = (Inr x, s1) \<Longrightarrow> bind_s m f s = f x s1"
  by (simp_all add: bind_s_def)

end
