(* ===== verification/Oanda_Broker.thy ===== *)
theory Oanda_Broker
  imports Rest_Api Trading_Engine
begin

section \<open>The OANDA adapter (\<open>src/adapters/oanda_broker.py\<close>)\<close>

text \<open>
  The server is a function from a request and its state to an answer; a call of the adapter takes
  the server's state along. The pauses between attempts have no effect here. \<open>ts\<close> stands for
  \<open>datetime.fromtimestamp\<close>, which depends on the local time zone. Errors that the broker catches
  and logs are values it drops.
\<close>

datatype oanda_environment = OE_LIVE | OE_PRACTICE | OE_SANDBOX

fun environment_url :: "oanda_environment \<Rightarrow> string" where
  "environment_url OE_LIVE = ''https://api-fxtrade.oanda.com''"
| "environment_url OE_PRACTICE = ''https://api-fxpractice.oanda.com''"
| "environment_url OE_SANDBOX = ''https://api-sandbox.oanda.com''"

datatype oanda_timeframe = TF_M1 | TF_M5 | TF_M15 | TF_M30 | TF_H1 | TF_H4 | TF_D1 | TF_W1

fun timeframe_value :: "oanda_timeframe \<Rightarrow> string" where
  "timeframe_value TF_M1 = ''M1''"
| "timeframe_value TF_M5 = ''M5''"
| "timeframe_value TF_M15 = ''M15''"
| "timeframe_value TF_M30 = ''M30''"
| "timeframe_value TF_H1 = ''H1''"
| "timeframe_value TF_H4 = ''H4''"
| "timeframe_value TF_D1 = ''D1''"
| "timeframe_value TF_W1 = ''W1''"

record oanda_config =
  oc_api_key :: string
  oc_account_id :: string
  oc_environment :: oanda_environment
  oc_timeout :: int
  oc_retry_attempts :: nat
  oc_retry_delay :: flt

definition oanda_headers :: "oanda_config \<Rightarrow> (string, string) dict" where
  "oanda_headers c =
     [(''Authorization'', ''Bearer '' @ oc_api_key c), (''Content-Type'', ''application/json''), (''Accept-Datetime-Format'', ''UNIX'')]"

subsection \<open>Answers\<close>

record oanda_account =
  oa_id :: string
  oa_currency :: string
  oa_balance :: dec
  oa_unrealized :: dec
  oa_realized :: dec
  oa_margin_used :: dec
  oa_margin_available :: dec
  oa_open_positions :: json
  oa_open_orders :: json
  oa_updated :: time

definition account_from_response :: "(flt \<Rightarrow> exn + time) \<Rightarrow> json \<Rightarrow> exn + oanda_account" where
  "account_from_response ts d =
     and_then (and_then (j_item d ''id'') j_text) (\<lambda>i.
     and_then (and_then (j_item d ''currency'') j_text) (\<lambda>cur.
     and_then (and_then (j_item d ''balance'') j_dec_str) (\<lambda>bal.
     and_then (and_then (j_item d ''unrealizedPL'') j_dec_str) (\<lambda>upl.
     and_then (and_then (j_item d ''realizedPL'') j_dec_str) (\<lambda>rpl.
     and_then (and_then (j_item d ''marginUsed'') j_dec_str) (\<lambda>mu.
     and_then (and_then (j_item d ''marginAvailable'') j_dec_str) (\<lambda>ma.
     and_then (j_item d ''openPositionCount'') (\<lambda>np.
     and_then (j_item d ''openOrderCount'') (\<lambda>no.
     and_then (and_then (and_then (j_item d ''lastTransactionID'') j_float) ts) (\<lambda>t.
     Inr \<lparr>oa_id = i, oa_currency = cur, oa_balance = bal, oa_unrealized = upl, oa_realized = rpl, oa_margin_used = mu,
          oa_margin_available = ma, oa_open_positions = np, oa_open_orders = no, oa_updated = t\<rparr>))))))))))"

record oanda_position =
  op_instrument :: string
  op_side :: string
  op_units :: dec
  op_avg_price :: dec
  op_current_price :: dec
  op_unrealized :: dec
  op_margin_used :: dec

definition side_item :: "json \<Rightarrow> string \<Rightarrow> string \<Rightarrow> exn + json" where
  "side_item d side k = and_then (j_item d side) (\<lambda>x. j_item x k)"

definition side_units :: "json \<Rightarrow> string \<Rightarrow> exn + dec" where
  "side_units d side = and_then (side_item d side ''units'') (\<lambda>u. if u = JStr ''0'' then Inr (Dec 0) else j_dec u)"

definition position_from_response :: "json \<Rightarrow> exn + oanda_position" where
  "position_from_response d =
     and_then (side_units d ''long'') (\<lambda>lu.
     and_then (side_units d ''short'') (\<lambda>su.
     and_then
       (if 0 < dval lu
        then and_then (and_then (side_item d ''long'' ''averagePrice'') j_dec_str) (\<lambda>p. Inr (''long'', lu, p))
        else if dval su < 0
        then and_then (and_then (side_item d ''short'' ''averagePrice'') j_dec_str) (\<lambda>p. Inr (''short'', \<bar>su\<bar>, p))
        else Inr (''flat'', Dec 0, Dec 0)) (\<lambda>(side, units, avg).
     (let from = (if side = ''long'' then ''long'' else ''short'') in
     and_then (and_then (j_item d ''instrument'') j_text) (\<lambda>ins.
     and_then (and_then (side_item d from ''averagePrice'') j_dec_str) (\<lambda>cp.
     and_then (and_then (side_item d from ''unrealizedPL'') j_dec_str) (\<lambda>pl.
     and_then (and_then (side_item d from ''marginUsed'') j_dec_str) (\<lambda>mu.
     Inr \<lparr>op_instrument = ins, op_side = side, op_units = units, op_avg_price = avg, op_current_price = cp,
          op_unrealized = pl, op_margin_used = mu\<rparr>))))))))"

record oanda_order =
  oo_id :: string
  oo_instrument :: string
  oo_type :: string
  oo_side :: string
  oo_units :: dec
  oo_price :: "dec option"
  oo_stop_loss :: "dec option"
  oo_take_profit :: "dec option"
  oo_status :: string
  oo_create_time :: "time option"
  oo_cancel_time :: "time option"
  oo_fill_time :: "time option"

definition time_if_present :: "(flt \<Rightarrow> exn + time) \<Rightarrow> json \<Rightarrow> string \<Rightarrow> exn + time option" where
  "time_if_present ts d k = and_then (j_has d k) (\<lambda>h. if_exn h (and_then (and_then (j_item d k) j_float) ts))"

definition nested_price :: "json \<Rightarrow> string \<Rightarrow> exn + dec option" where
  "nested_price d k =
     and_then (j_has d k) (\<lambda>h. if_exn h (and_then (and_then (j_item d k) (\<lambda>x. j_item x ''price'')) j_dec_str))"

definition order_from_response :: "(flt \<Rightarrow> exn + time) \<Rightarrow> json \<Rightarrow> exn + oanda_order" where
  "order_from_response ts d =
     and_then (and_then (j_item d ''units'') j_dec_str) (\<lambda>units.
     and_then (and_then (j_item d ''id'') j_text) (\<lambda>i.
     and_then (and_then (j_item d ''instrument'') j_text) (\<lambda>ins.
     and_then (and_then (j_get d ''type'' (JStr ''MARKET'')) j_text) (\<lambda>ty.
     and_then (and_then (j_has d ''price'') (\<lambda>h.
       if h then and_then (j_item d ''price'') (\<lambda>p. if_exn (j_truthy p) (j_dec_str p)) else Inr None)) (\<lambda>price.
     and_then (nested_price d ''stopLossOnFill'') (\<lambda>sl.
     and_then (nested_price d ''takeProfitOnFill'') (\<lambda>tp.
     and_then (and_then (j_get d ''state'' (JStr ''PENDING'')) j_text) (\<lambda>st.
     and_then (time_if_present ts d ''createTime'') (\<lambda>ct.
     and_then (time_if_present ts d ''cancelTime'') (\<lambda>xt.
     and_then (time_if_present ts d ''fillTime'') (\<lambda>ft.
     Inr \<lparr>oo_id = i, oo_instrument = ins, oo_type = ty, oo_side = (if 0 < dval units then ''buy'' else ''sell''),
          oo_units = \<bar>units\<bar>, oo_price = price, oo_stop_loss = sl, oo_take_profit = tp, oo_status = st,
          oo_create_time = ct, oo_cancel_time = xt, oo_fill_time = ft\<rparr>)))))))))))"

subsection \<open>The client\<close>

text \<open>
  The loop of \<open>_request\<close> with \<open>n\<close> attempts left. An error of the client library, which includes a
  status that is an error, ends it in the last attempt only; any other exception ends it at once. A
  rate-limited attempt never raises, whatever attempt it is.
\<close>

definition request_failed :: exn where
  "request_failed = OtherError 2"

fun oanda_attempts :: "'s server \<Rightarrow> flt \<Rightarrow> http_request \<Rightarrow> nat \<Rightarrow> 's \<Rightarrow> (exn + json) \<times> 's" where
  "oanda_attempts srv delay rq 0 s = (Inl request_failed, s)"
| "oanda_attempts srv delay rq (Suc n) s =
     (case srv rq s of
        (r, s1) \<Rightarrow>
          (case r of
             Inr a \<Rightarrow>
               if hs_status a = 429
               then (case (case dget (hs_headers a) ''Retry-After'' of
                             None \<Rightarrow> Inr (flt_trunc delay)
                           | Some x \<Rightarrow> j_int (JStr x)) of
                       Inl e \<Rightarrow> (Inl e, s1)
                     | Inr pause \<Rightarrow> oanda_attempts srv delay rq n s1)
               else (case and_then (raise_for_status a) hs_json of
                       Inr x \<Rightarrow> (Inr x, s1)
                     | Inl e \<Rightarrow> if is_client_error e \<and> n \<noteq> 0 then oanda_attempts srv delay rq n s1 else (Inl e, s1))
           | Inl e \<Rightarrow> if is_client_error e \<and> n \<noteq> 0 then oanda_attempts srv delay rq n s1 else (Inl e, s1)))"

text \<open>Without a session \<open>self._session.request\<close> raises in the first attempt.\<close>

definition oanda_request ::
  "'s server \<Rightarrow> oanda_config \<Rightarrow> bool \<Rightarrow> string \<Rightarrow> string \<Rightarrow> (string, payload) dict \<Rightarrow> (string, payload) dict \<Rightarrow> 's \<Rightarrow> (exn + json) \<times> 's" where
  "oanda_request srv c session meth endpoint params body s =
     (if oc_retry_attempts c = 0 then (Inl request_failed, s)
      else if \<not> session then (Inl AttributeError, s)
      else oanda_attempts srv (oc_retry_delay c)
             \<lparr>hq_method = meth, hq_url = environment_url (oc_environment c) @ endpoint, hq_headers = oanda_headers c,
              hq_params = params, hq_body = body\<rparr> (oc_retry_attempts c) s)"

definition account_path :: "oanda_config \<Rightarrow> string \<Rightarrow> string" where
  "account_path c rest = ''/v3/accounts/'' @ oc_account_id c @ rest"

definition oc_get_account ::
  "'s server \<Rightarrow> (flt \<Rightarrow> exn + time) \<Rightarrow> oanda_config \<Rightarrow> bool \<Rightarrow> 's \<Rightarrow> (exn + oanda_account) \<times> 's" where
  "oc_get_account srv ts c session =
     bind_s (oanda_request srv c session ''GET'' (account_path c []) [] [])
       (\<lambda>r. pure_s (and_then (j_item r ''account'') (account_from_response ts)))"

definition oc_get_positions :: "'s server \<Rightarrow> oanda_config \<Rightarrow> bool \<Rightarrow> 's \<Rightarrow> (exn + oanda_position list) \<times> 's" where
  "oc_get_positions srv c session =
     bind_s (oanda_request srv c session ''GET'' (account_path c ''/positions'') [] [])
       (\<lambda>r. pure_s (and_then (and_then (j_item r ''positions'') j_iter) (map_exn position_from_response)))"

definition oc_get_orders ::
  "'s server \<Rightarrow> (flt \<Rightarrow> exn + time) \<Rightarrow> oanda_config \<Rightarrow> bool \<Rightarrow> 's \<Rightarrow> (exn + oanda_order list) \<times> 's" where
  "oc_get_orders srv ts c session =
     bind_s (oanda_request srv c session ''GET'' (account_path c ''/orders'') [] [])
       (\<lambda>r. pure_s (and_then (and_then (j_get r ''orders'' (JList [])) j_iter) (map_exn (order_from_response ts))))"

definition truthy_flt :: "flt option \<Rightarrow> bool" where
  "truthy_flt x = (case x of None \<Rightarrow> False | Some v \<Rightarrow> fval v \<noteq> 0)"

definition protection :: "flt option \<Rightarrow> flt option \<Rightarrow> (string, payload) dict" where
  "protection sl tp =
     (if truthy_flt sl then [(''stopLossOnFill'', P_Dict [(''price'', P_Flt (the sl))])] else []) @
     (if truthy_flt tp then [(''takeProfitOnFill'', P_Dict [(''price'', P_Flt (the tp))])] else [])"

definition create_market_order ::
  "'s server \<Rightarrow> (flt \<Rightarrow> exn + time) \<Rightarrow> oanda_config \<Rightarrow> bool \<Rightarrow> string \<Rightarrow> int \<Rightarrow> flt option \<Rightarrow> flt option \<Rightarrow> 's \<Rightarrow> (exn + oanda_order) \<times> 's" where
  "create_market_order srv ts c session ins units sl tp =
     bind_s (oanda_request srv c session ''POST'' (account_path c ''/orders'') []
         [(''order'', P_Dict ([(''type'', P_Str ''MARKET''), (''instrument'', P_Str ins), (''units'', P_Str (int_str units))] @ protection sl tp))])
       (\<lambda>r. pure_s (and_then (j_item r ''orderCreateTransaction'') (order_from_response ts)))"

definition create_limit_order ::
  "'s server \<Rightarrow> (flt \<Rightarrow> exn + time) \<Rightarrow> oanda_config \<Rightarrow> bool \<Rightarrow> string \<Rightarrow> int \<Rightarrow> flt \<Rightarrow> flt option \<Rightarrow> flt option \<Rightarrow> 's \<Rightarrow> (exn + oanda_order) \<times> 's" where
  "create_limit_order srv ts c session ins units price sl tp =
     bind_s (oanda_request srv c session ''POST'' (account_path c ''/orders'') []
         [(''order'', P_Dict ([(''type'', P_Str ''LIMIT''), (''instrument'', P_Str ins), (''units'', P_Str (int_str units)),
                             (''price'', P_Flt price)] @ protection sl tp))])
       (\<lambda>r. pure_s (and_then (j_item r ''orderCreateTransaction'') (order_from_response ts)))"

definition request_succeeds :: "(exn + json) \<times> 's \<Rightarrow> bool \<times> 's" where
  "request_succeeds rs = (case fst rs of Inl e \<Rightarrow> False | Inr x \<Rightarrow> True, snd rs)"

definition oc_cancel_order :: "'s server \<Rightarrow> oanda_config \<Rightarrow> bool \<Rightarrow> string \<Rightarrow> 's \<Rightarrow> bool \<times> 's" where
  "oc_cancel_order srv c session oid s =
     request_succeeds (oanda_request srv c session ''PUT'' (account_path c (''/orders/'' @ oid @ ''/cancel'')) [] [] s)"

definition oc_close_position :: "'s server \<Rightarrow> oanda_config \<Rightarrow> bool \<Rightarrow> string \<Rightarrow> 's \<Rightarrow> bool \<times> 's" where
  "oc_close_position srv c session ins s =
     request_succeeds (oanda_request srv c session ''PUT'' (account_path c (''/positions/'' @ ins @ ''/close'')) [] [] s)"

definition oc_get_pricing :: "'s server \<Rightarrow> oanda_config \<Rightarrow> bool \<Rightarrow> string list \<Rightarrow> 's \<Rightarrow> (exn + json) \<times> 's" where
  "oc_get_pricing srv c session inss =
     bind_s (oanda_request srv c session ''GET'' (account_path c ''/pricing'') [(''instruments'', P_Str (join_with '','' inss))] [])
       (\<lambda>r. pure_s (j_item r ''prices''))"

definition oc_get_candles ::
  "'s server \<Rightarrow> oanda_config \<Rightarrow> bool \<Rightarrow> string \<Rightarrow> oanda_timeframe \<Rightarrow> int \<Rightarrow> time option \<Rightarrow> time option \<Rightarrow> 's \<Rightarrow> (exn + json) \<times> 's" where
  "oc_get_candles srv c session ins tf count t0 t1 =
     bind_s (oanda_request srv c session ''GET'' (''/v3/instruments/'' @ ins @ ''/candles'')
         ([(''price'', P_Str ''MBA''), (''granularity'', P_Str (timeframe_value tf)), (''count'', P_Int count)] @
          (case t0 of None \<Rightarrow> [] | Some t \<Rightarrow> [(''from'', P_Time t)]) @ (case t1 of None \<Rightarrow> [] | Some t \<Rightarrow> [(''to'', P_Time t)])) [])
       (\<lambda>r. pure_s (j_get r ''candles'' (JList [])))"

subsection \<open>The broker\<close>

record oanda_engine_order = i_order +
  io_created_at :: "time option"

datatype position_side = PS_LONG | PS_SHORT | PS_FLAT

record i_position =
  ip_symbol :: i_symbol
  ip_side :: position_side
  ip_quantity :: dec
  ip_avg_entry_price :: dec
  ip_unrealized :: dec
  ip_realized :: dec
  ip_market_price :: "dec option"

record oanda_broker =
  ob_config :: oanda_config
  ob_session :: bool
  ob_account :: "oanda_account option"
  ob_positions :: "(string, oanda_position) dict"
  ob_orders :: "(string, oanda_order) dict"
  ob_result_handlers :: "nat list"
  ob_connected :: bool
  ob_on_order_filled :: "nat option"
  ob_on_position_opened :: "nat option"
  ob_on_position_closed :: "nat option"

definition new_oanda_broker :: "oanda_config \<Rightarrow> oanda_broker" where
  "new_oanda_broker c =
     \<lparr>ob_config = c, ob_session = False, ob_account = None, ob_positions = [], ob_orders = [], ob_result_handlers = [],
      ob_connected = False, ob_on_order_filled = None, ob_on_position_opened = None, ob_on_position_closed = None\<rparr>"

definition create_oanda_broker :: "string \<Rightarrow> string \<Rightarrow> oanda_environment \<Rightarrow> int \<Rightarrow> oanda_broker" where
  "create_oanda_broker key account env timeout =
     new_oanda_broker \<lparr>oc_api_key = key, oc_account_id = account, oc_environment = env, oc_timeout = timeout, oc_retry_attempts = 3,
                      oc_retry_delay = flt_int 1\<rparr>"

subsubsection \<open>Conversions\<close>

definition symbol_to_oanda :: "i_symbol \<Rightarrow> string" where
  "symbol_to_oanda sy =
     (let t = iy_ticker sy
      in if CHR ''_'' \<in> set t then t
         else if length t = 6 \<and> is_alpha t then take 3 t @ ''_'' @ drop 3 t
         else t @ ''_USD'')"

definition oanda_to_symbol :: "string \<Rightarrow> i_symbol" where
  "oanda_to_symbol ins =
     \<lparr>iy_ticker = filter (\<lambda>c. c \<noteq> CHR ''_'') ins, iy_security = ''EQUITY'', iy_exchange = [], iy_currency = ''USD''\<rparr>"

definition i_symbol_eq :: "i_symbol \<Rightarrow> i_symbol \<Rightarrow> bool" where
  "i_symbol_eq a b \<longleftrightarrow> (iy_ticker a, iy_security a, iy_exchange a) = (iy_ticker b, iy_security b, iy_exchange b)"

definition oanda_order_type :: "string \<Rightarrow> i_order_type" where
  "oanda_order_type t =
     (case map_of [(''MARKET'', IT_MARKET), (''LIMIT'', IT_LIMIT), (''STOP'', IT_STOP)] t of None \<Rightarrow> IT_MARKET | Some x \<Rightarrow> x)"

definition oanda_order_status :: "string \<Rightarrow> i_status" where
  "oanda_order_status t =
     (case map_of
        [(''PENDING'', IS_PENDING), (''FOK'', IS_PENDING), (''GTC'', IS_PENDING), (''GFD'', IS_PENDING), (''IOC'', IS_PENDING),
         (''DAY'', IS_PENDING), (''FILLED'', IS_FILLED), (''CANCELLED'', IS_CANCELLED), (''REJECTED'', IS_REJECTED)] t of
        None \<Rightarrow> IS_PENDING | Some x \<Rightarrow> x)"

definition to_interface_order :: "oanda_order \<Rightarrow> oanda_engine_order" where
  "to_interface_order o1 =
     \<lparr>io_id = oo_id o1, io_symbol = oanda_to_symbol (oo_instrument o1), io_type = oanda_order_type (oo_type o1),
      io_side = (if oo_side o1 = ''buy'' then ''BUY'' else ''SELL''), io_quantity = oo_units o1, io_price = oo_price o1,
      io_stop_price = oo_stop_loss o1, io_status = oanda_order_status (oo_status o1), io_created_at = oo_create_time o1\<rparr>"

subsubsection \<open>Operations\<close>

definition ob_get_open_orders :: "oanda_broker \<Rightarrow> i_symbol option \<Rightarrow> oanda_engine_order list" where
  "ob_get_open_orders b sy =
     (let os = map to_interface_order (dvals (ob_orders b))
      in case sy of None \<Rightarrow> os | Some s \<Rightarrow> filter (\<lambda>x. i_symbol_eq (io_symbol x) s) os)"

definition ob_get_order_by_id :: "oanda_broker \<Rightarrow> string \<Rightarrow> oanda_engine_order option" where
  "ob_get_order_by_id b oid = map_option to_interface_order (dget (ob_orders b) oid)"

text \<open>The synchronous methods of the interface.\<close>

definition ob_process_order :: "oanda_broker \<Rightarrow> i_order \<Rightarrow> exn + order_event" where
  "ob_process_order b x = Inl NotImplementedError"

definition ob_cancel_order :: "oanda_broker \<Rightarrow> string \<Rightarrow> exn + order_event" where
  "ob_cancel_order b x = Inl NotImplementedError"

definition ob_update_order :: "oanda_broker \<Rightarrow> i_order \<Rightarrow> exn + order_event" where
  "ob_update_order b x = Inl NotImplementedError"

definition ob_refresh_positions :: "'s server \<Rightarrow> oanda_broker \<Rightarrow> 's \<Rightarrow> oanda_broker \<times> 's" where
  "ob_refresh_positions srv b s =
     (case oc_get_positions srv (ob_config b) (ob_session b) s of
        (Inl e, s1) \<Rightarrow> (b, s1)
      | (Inr ps, s1) \<Rightarrow> (b\<lparr>ob_positions := dict_of (map (\<lambda>p. (op_instrument p, p)) ps)\<rparr>, s1))"

definition ob_refresh_orders :: "'s server \<Rightarrow> (flt \<Rightarrow> exn + time) \<Rightarrow> oanda_broker \<Rightarrow> 's \<Rightarrow> oanda_broker \<times> 's" where
  "ob_refresh_orders srv ts b s =
     (case oc_get_orders srv ts (ob_config b) (ob_session b) s of
        (Inl e, s1) \<Rightarrow> (b, s1)
      | (Inr os, s1) \<Rightarrow> (b\<lparr>ob_orders := dict_of (map (\<lambda>x. (oo_id x, x)) os)\<rparr>, s1))"

definition ob_connect :: "'s server \<Rightarrow> (flt \<Rightarrow> exn + time) \<Rightarrow> oanda_broker \<Rightarrow> 's \<Rightarrow> bool \<times> oanda_broker \<times> 's" where
  "ob_connect srv ts b0 s =
     (let b = b0\<lparr>ob_session := True\<rparr>
      in case oc_get_account srv ts (ob_config b) True s of
           (Inl e, s1) \<Rightarrow> (False, b, s1)
         | (Inr a, s1) \<Rightarrow>
             (case ob_refresh_positions srv (b\<lparr>ob_account := Some a\<rparr>) s1 of
                (b1, s2) \<Rightarrow> (case ob_refresh_orders srv ts b1 s2 of (b2, s3) \<Rightarrow> (True, b2\<lparr>ob_connected := True\<rparr>, s3))))"

definition ob_disconnect :: "oanda_broker \<Rightarrow> oanda_broker" where
  "ob_disconnect b = b\<lparr>ob_session := False, ob_connected := False\<rparr>"

text \<open>The order object of the caller gets the identifier of the broker.\<close>

definition ob_submit_order ::
  "'s server \<Rightarrow> (flt \<Rightarrow> exn + time) \<Rightarrow> oanda_broker \<Rightarrow> i_order \<Rightarrow> 's \<Rightarrow> bool \<times> oanda_broker \<times> i_order \<times> 's" where
  "ob_submit_order srv ts b x s =
     (if \<not> ob_connected b then (False, b, x, s)
      else
        (let c = ob_config b; ins = symbol_to_oanda (io_symbol x); units = dec_trunc (io_quantity x);
             answer =
               (case io_type x of
                  IT_MARKET \<Rightarrow> Some (create_market_order srv ts c (ob_session b) ins units None None s)
                | IT_LIMIT \<Rightarrow>
                    Some (create_limit_order srv ts c (ob_session b) ins units
                      (case io_price x of None \<Rightarrow> 0 | Some p \<Rightarrow> if dval p = 0 then 0 else flt_of_dec p) None None s)
                | _ \<Rightarrow> None)
         in case answer of
              None \<Rightarrow> (False, b, x, s)
            | Some (Inl e, s1) \<Rightarrow> (False, b, x, s1)
            | Some (Inr y, s1) \<Rightarrow> (True, b\<lparr>ob_orders := dset (ob_orders b) (oo_id y) y\<rparr>, x\<lparr>io_id := oo_id y\<rparr>, s1)))"

definition ob_cancel_order_by_id :: "'s server \<Rightarrow> oanda_broker \<Rightarrow> string \<Rightarrow> 's \<Rightarrow> bool \<times> oanda_broker \<times> 's" where
  "ob_cancel_order_by_id srv b oid s =
     (if oid = [] then (False, b, s)
      else (case oc_cancel_order srv (ob_config b) (ob_session b) oid s of
              (False, s1) \<Rightarrow> (False, b, s1)
            | (True, s1) \<Rightarrow>
                (True,
                 (case dget (ob_orders b) oid of
                    None \<Rightarrow> b
                  | Some y \<Rightarrow> b\<lparr>ob_orders := dset (ob_orders b) oid (y\<lparr>oo_status := ''CANCELLED''\<rparr>)\<rparr>), s1)))"

definition ob_get_account_info ::
  "'s server \<Rightarrow> (flt \<Rightarrow> exn + time) \<Rightarrow> oanda_broker \<Rightarrow> 's \<Rightarrow> (string \<times> string \<times> flt list \<times> json \<times> json) option \<times> oanda_broker \<times> 's" where
  "ob_get_account_info srv ts b s =
     (if \<not> ob_connected b then (None, b, s)
      else (case oc_get_account srv ts (ob_config b) (ob_session b) s of
              (Inl e, s1) \<Rightarrow> (None, b, s1)
            | (Inr a, s1) \<Rightarrow>
                (Some (oa_id a, oa_currency a,
                   map flt_of_dec [oa_balance a, oa_unrealized a, oa_realized a, oa_margin_used a, oa_margin_available a],
                   oa_open_positions a, oa_open_orders a), b\<lparr>ob_account := Some a\<rparr>, s1)))"

definition to_interface_position :: "oanda_position \<Rightarrow> i_position" where
  "to_interface_position p =
     \<lparr>ip_symbol = oanda_to_symbol (op_instrument p), ip_side = (if op_side p = ''long'' then PS_LONG else PS_SHORT),
      ip_quantity = op_units p, ip_avg_entry_price = op_avg_price p, ip_unrealized = op_unrealized p, ip_realized = Dec 0,
      ip_market_price = Some (op_current_price p)\<rparr>"

definition ob_get_positions :: "'s server \<Rightarrow> oanda_broker \<Rightarrow> 's \<Rightarrow> i_position list \<times> oanda_broker \<times> 's" where
  "ob_get_positions srv b s =
     (if \<not> ob_connected b then ([], b, s)
      else (case ob_refresh_positions srv b s of (b1, s1) \<Rightarrow> (map to_interface_position (dvals (ob_positions b1)), b1, s1)))"

definition ob_get_orders ::
  "'s server \<Rightarrow> (flt \<Rightarrow> exn + time) \<Rightarrow> oanda_broker \<Rightarrow> 's \<Rightarrow> oanda_engine_order list \<times> oanda_broker \<times> 's" where
  "ob_get_orders srv ts b s =
     (if \<not> ob_connected b then ([], b, s)
      else (case ob_refresh_orders srv ts b s of (b1, s1) \<Rightarrow> (map to_interface_order (dvals (ob_orders b1)), b1, s1)))"

text \<open>The quantity is not used: the whole position is closed.\<close>

definition ob_close_position :: "'s server \<Rightarrow> oanda_broker \<Rightarrow> i_symbol \<Rightarrow> dec option \<Rightarrow> 's \<Rightarrow> bool \<times> oanda_broker \<times> 's" where
  "ob_close_position srv b sy q s =
     (if \<not> ob_connected b then (False, b, s)
      else (case oc_close_position srv (ob_config b) (ob_session b) (symbol_to_oanda sy) s of
              (False, s1) \<Rightarrow> (False, b, s1)
            | (True, s1) \<Rightarrow> (case ob_refresh_positions srv b s1 of (b1, s2) \<Rightarrow> (True, b1, s2))))"

definition ob_add_result_handler :: "oanda_broker \<Rightarrow> nat \<Rightarrow> oanda_broker" where
  "ob_add_result_handler b h = b\<lparr>ob_result_handlers := ob_result_handlers b @ [h]\<rparr>"

definition ob_remove_result_handler :: "oanda_broker \<Rightarrow> nat \<Rightarrow> oanda_broker" where
  "ob_remove_result_handler b h = b\<lparr>ob_result_handlers := remove1 h (ob_result_handlers b)\<rparr>"

definition ob_get_market_price :: "'s server \<Rightarrow> oanda_broker \<Rightarrow> i_symbol \<Rightarrow> 's \<Rightarrow> flt option \<times> 's" where
  "ob_get_market_price srv b sy s =
     (if \<not> ob_connected b then (None, s)
      else (case oc_get_pricing srv (ob_config b) (ob_session b) [symbol_to_oanda sy] s of
              (Inl e, s1) \<Rightarrow> (None, s1)
            | (Inr ps, s1) \<Rightarrow>
                (case (if \<not> j_truthy ps then Inr None
                       else and_then (j_index ps 0) (\<lambda>p.
                         and_then (j_has p ''closeoutMid'') (\<lambda>mid.
                         if mid then and_then (and_then (j_item p ''closeoutMid'') j_float) (\<lambda>v. Inr (Some v))
                         else and_then (j_has p ''bid'') (\<lambda>hb. and_then (j_has p ''ask'') (\<lambda>ha.
                           if hb \<and> ha
                           then and_then (and_then (j_item p ''bid'') j_float) (\<lambda>bid.
                                and_then (and_then (j_item p ''ask'') j_float) (\<lambda>ask. Inr (Some ((bid + ask) / flt_int 2))))
                           else Inr None))))) of
                   Inl e \<Rightarrow> (None, s1)
                 | Inr v \<Rightarrow> (v, s1))))"

definition ob_get_historical_data ::
  "'s server \<Rightarrow> oanda_broker \<Rightarrow> i_symbol \<Rightarrow> oanda_timeframe \<Rightarrow> int \<Rightarrow> 's \<Rightarrow> json \<times> 's" where
  "ob_get_historical_data srv b sy tf count s =
     (if \<not> ob_connected b then (JList [], s)
      else (case oc_get_candles srv (ob_config b) (ob_session b) (symbol_to_oanda sy) tf count None None s of
              (Inl e, s1) \<Rightarrow> (JList [], s1)
            | (Inr x, s1) \<Rightarrow> (x, s1)))"

section \<open>Lemmas\<close>

lemma recorded_eq: "recorded srv rq (s, l) = (fst (srv rq s), snd (srv rq s), l @ [rq])"
  by (simp add: recorded_def split: prod.split)

text \<open>The requests of one call are the same request, at least once and at most as often as configured.\<close>

lemma oanda_attempts_log:
  "\<exists>k. snd (snd (oanda_attempts (recorded srv) d rq n (s, l))) = l @ replicate k rq \<and> k \<le> n \<and> (0 < n \<longrightarrow> 0 < k)"
proof (induction n arbitrary: s l)
  case (Suc n)
  obtain r s1 where a: "srv rq s = (r, s1)" by (cases "srv rq s")
  then have r: "recorded srv rq (s, l) = (r, s1, l @ [rq])" by (simp add: recorded_eq)
  obtain k where k: "snd (snd (oanda_attempts (recorded srv) d rq n (s1, l @ [rq]))) = (l @ [rq]) @ replicate k rq" "k \<le> n"
    using Suc.IH [of s1 "l @ [rq]"] by blast
  let ?w = "(s1, l @ [rq])"
  have "oanda_attempts (recorded srv) d rq (Suc n) (s, l) = oanda_attempts (recorded srv) d rq n ?w \<or>
      snd (oanda_attempts (recorded srv) d rq (Suc n) (s, l)) = ?w"
    by (auto simp: r split: sum.split option.split)
  then show ?case
  proof
    assume "oanda_attempts (recorded srv) d rq (Suc n) (s, l) = oanda_attempts (recorded srv) d rq n ?w"
    with k show ?thesis by (intro exI [of _ "Suc k"]) simp
  next
    assume "snd (oanda_attempts (recorded srv) d rq (Suc n) (s, l)) = ?w"
    then show ?thesis by (intro exI [of _ 1]) simp
  qed
qed simp

lemma oanda_attempts_result:
  "fst (oanda_attempts srv d rq n s) = Inr x \<Longrightarrow>
   \<exists>s1 a s2. srv rq s1 = (Inr a, s2) \<and> hs_status a \<noteq> 429 \<and> hs_status a < 400 \<and> hs_json a = Inr x \<and> snd (oanda_attempts srv d rq n s) = s2"
proof (induction n arbitrary: s)
  case (Suc n)
  obtain r s1 where a: "srv rq s = (r, s1)" by (cases "srv rq s")
  show ?case
  proof (cases r)
    case (Inl e)
    with Suc a show ?thesis by (auto split: if_splits)
  next
    case (Inr b)
    show ?thesis
    proof (cases "hs_status b = 429")
      case True
      with Suc a Inr show ?thesis by (auto split: option.splits sum.splits)
    next
      case False
      show ?thesis
      proof (cases "and_then (raise_for_status b) hs_json")
        case (Inl e)
        with Suc a Inr False show ?thesis by (auto split: if_splits)
      next
        case (Inr y)
        with Suc.prems a \<open>r = Inr b\<close> False show ?thesis
          by (intro exI [of _ s] exI [of _ b] exI [of _ s1]) (auto simp: and_then_Inr_iff raise_for_status_def split: if_splits)
      qed
    qed
  qed
qed simp

text \<open>Orders and positions are stored under their own identifier.\<close>

definition ob_keyed :: "oanda_broker \<Rightarrow> bool" where
  "ob_keyed b \<longleftrightarrow> keyed_by oo_id (ob_orders b) \<and> keyed_by op_instrument (ob_positions b)"

lemma refresh_positions_keyed: "ob_refresh_positions srv b s = (b1, s1) \<Longrightarrow> ob_keyed b \<Longrightarrow> ob_keyed b1"
  by (auto simp: ob_refresh_positions_def ob_keyed_def split: prod.splits sum.splits)

lemma refresh_orders_keyed: "ob_refresh_orders srv ts b s = (b1, s1) \<Longrightarrow> ob_keyed b \<Longrightarrow> ob_keyed b1"
  by (auto simp: ob_refresh_orders_def ob_keyed_def split: prod.splits sum.splits)

datatype oanda_op =
    OB_Connect
  | OB_Disconnect
  | OB_Submit i_order
  | OB_Cancel string
  | OB_Account
  | OB_Positions
  | OB_Orders
  | OB_Close i_symbol "dec option"

fun oanda_step :: "'s server \<Rightarrow> (flt \<Rightarrow> exn + time) \<Rightarrow> oanda_broker \<times> 's \<Rightarrow> oanda_op \<Rightarrow> oanda_broker \<times> 's" where
  "oanda_step srv ts (b, s) OB_Connect = snd (ob_connect srv ts b s)"
| "oanda_step srv ts (b, s) OB_Disconnect = (ob_disconnect b, s)"
| "oanda_step srv ts (b, s) (OB_Submit x) = (case ob_submit_order srv ts b x s of (ok, b1, x1, s1) \<Rightarrow> (b1, s1))"
| "oanda_step srv ts (b, s) (OB_Cancel oid) = snd (ob_cancel_order_by_id srv b oid s)"
| "oanda_step srv ts (b, s) OB_Account = snd (ob_get_account_info srv ts b s)"
| "oanda_step srv ts (b, s) OB_Positions = snd (ob_get_positions srv b s)"
| "oanda_step srv ts (b, s) OB_Orders = snd (ob_get_orders srv ts b s)"
| "oanda_step srv ts (b, s) (OB_Close sy q) = snd (ob_close_position srv b sy q s)"

lemma keyed_update [simp]:
  "ob_keyed (b\<lparr>ob_session := x\<rparr>) = ob_keyed b" "ob_keyed (b\<lparr>ob_connected := y\<rparr>) = ob_keyed b" "ob_keyed (b\<lparr>ob_account := z\<rparr>) = ob_keyed b"
  by (simp_all add: ob_keyed_def)

lemma keyed_set_order: "ob_keyed b \<Longrightarrow> oo_id y = k \<Longrightarrow> ob_keyed (b\<lparr>ob_orders := dset (ob_orders b) k y\<rparr>)"
  by (simp add: ob_keyed_def keyed_by_dset)

lemma submit_keyed:
  assumes "ob_keyed b" "ob_submit_order srv ts b x s = (r, b1, x1, s1)"
  shows "ob_keyed b1"
proof -
  have "b1 = b \<or> (\<exists>y. b1 = b\<lparr>ob_orders := dset (ob_orders b) (oo_id y) y\<rparr>)"
    using assms(2) unfolding ob_submit_order_def Let_def by (auto split: if_splits option.splits prod.splits sum.splits)
  with assms(1) keyed_set_order show ?thesis by blast
qed

lemma connect_keyed:
  assumes "ob_keyed b" "ob_connect srv ts b s = (r, b1, s1)"
  shows "ob_keyed b1"
proof (cases "oc_get_account srv ts (ob_config b) True s")
  case (Pair ra sa)
  show ?thesis
  proof (cases ra)
    case (Inl e)
    with assms Pair show ?thesis by (auto simp: ob_connect_def)
  next
    case (Inr ac)
    obtain b2 s2 where p: "ob_refresh_positions srv (b\<lparr>ob_session := True, ob_account := Some ac\<rparr>) sa = (b2, s2)" by fastforce
    obtain b3 s3 where q: "ob_refresh_orders srv ts b2 s2 = (b3, s3)" by fastforce
    have "ob_keyed b3" using refresh_orders_keyed [OF q refresh_positions_keyed [OF p]] assms(1) by simp
    with assms(2) Pair Inr p q show ?thesis by (auto simp: ob_connect_def)
  qed
qed

lemma cancel_keyed: "ob_keyed b \<Longrightarrow> ob_cancel_order_by_id srv b oid s = (r, b1, s1) \<Longrightarrow> ob_keyed b1"
proof -
  assume b: "ob_keyed b" "ob_cancel_order_by_id srv b oid s = (r, b1, s1)"
  then have "b1 = b \<or> (\<exists>y. dget (ob_orders b) oid = Some y \<and> b1 = b\<lparr>ob_orders := dset (ob_orders b) oid (y\<lparr>oo_status := ''CANCELLED''\<rparr>)\<rparr>)"
    unfolding ob_cancel_order_by_id_def by (auto split: if_splits option.splits prod.splits bool.splits)
  with b(1) keyed_byD show ?thesis by (fastforce simp: ob_keyed_def intro: keyed_by_dset)
qed

lemma keyed_step: "ob_keyed (fst w) \<Longrightarrow> ob_keyed (fst (oanda_step srv ts w x))"
proof (cases w)
  case (Pair b s)
  assume "ob_keyed (fst w)"
  then have b: "ob_keyed b" using Pair by simp
  show ?thesis
  proof (cases x)
    case OB_Connect
    obtain r b1 s1 where "ob_connect srv ts b s = (r, b1, s1)" by (cases "ob_connect srv ts b s")
    with connect_keyed [OF b this] show ?thesis by (simp add: Pair OB_Connect)
  next
    case (OB_Submit y)
    obtain r b1 x1 s1 where "ob_submit_order srv ts b y s = (r, b1, x1, s1)" by (cases "ob_submit_order srv ts b y s")
    with submit_keyed [OF b this] show ?thesis by (simp add: Pair OB_Submit)
  next
    case (OB_Cancel oid)
    obtain r b1 s1 where "ob_cancel_order_by_id srv b oid s = (r, b1, s1)" by (cases "ob_cancel_order_by_id srv b oid s")
    with cancel_keyed [OF b this] show ?thesis by (simp add: Pair OB_Cancel)
  next
    case OB_Account
    then show ?thesis using b by (simp add: Pair ob_get_account_info_def split: prod.split sum.split)
  next
    case (OB_Close sy q)
    then show ?thesis using b
      by (auto simp: Pair ob_close_position_def split: prod.split bool.split dest: refresh_positions_keyed)
  next
    case OB_Positions
    then show ?thesis using b by (auto simp: Pair ob_get_positions_def split: prod.split dest: refresh_positions_keyed)
  next
    case OB_Orders
    then show ?thesis using b by (auto simp: Pair ob_get_orders_def split: prod.split dest: refresh_orders_keyed)
  qed (use b in \<open>simp add: Pair ob_disconnect_def\<close>)
qed

interpretation oanda: run_system "oanda_step srv ts" "\<lambda>_ _. True" "\<lambda>w. ob_keyed (fst w)"
  for srv ts by unfold_locales (rule keyed_step)

lemma oanda_request_sent:
  assumes "oanda_request (recorded srv) c True meth endpoint params body (s, []) = (r, (s1, sent))" "0 < oc_retry_attempts c"
  shows "1 \<le> length sent \<and> length sent \<le> oc_retry_attempts c \<and>
    (\<forall>rq \<in> set sent. hq_method rq = meth \<and> hq_url rq = environment_url (oc_environment c) @ endpoint \<and> hq_body rq = body)"
proof -
  let ?rq = "\<lparr>hq_method = meth, hq_url = environment_url (oc_environment c) @ endpoint, hq_headers = oanda_headers c,
    hq_params = params, hq_body = body\<rparr>"
  have e: "oanda_attempts (recorded srv) (oc_retry_delay c) ?rq (oc_retry_attempts c) (s, []) = (r, (s1, sent))"
    using assms by (simp add: oanda_request_def)
  obtain k where "sent = replicate k ?rq" "k \<le> oc_retry_attempts c" "0 < k"
    using oanda_attempts_log [of srv "oc_retry_delay c" ?rq "oc_retry_attempts c" s "[]"] assms(2) unfolding e by auto
  then show ?thesis by simp
qed

section \<open>Properties of the OANDA adapter\<close>

text \<open>A call of the API sends the same request at least once and never more often than configured,
  and a value it returns is the JSON of an answer whose status is no error.\<close>

theorem oanda_request_bounded:
  assumes "oanda_request (recorded srv) c True meth endpoint params body (s, []) = (r, (s1, sent))" "0 < oc_retry_attempts c"
  shows "1 \<le> length sent \<and> length sent \<le> oc_retry_attempts c \<and>
    (\<forall>rq \<in> set sent. hq_method rq = meth \<and> hq_url rq = environment_url (oc_environment c) @ endpoint \<and> hq_body rq = body) \<and>
    (\<forall>x. r = Inr x \<longrightarrow> (\<exists>w a. recorded srv (last sent) w = (Inr a, (s1, sent)) \<and> hs_status a < 400 \<and> hs_json a = Inr x))"
proof -
  have "\<exists>w a. recorded srv (last sent) w = (Inr a, (s1, sent)) \<and> hs_status a < 400 \<and> hs_json a = Inr x" if x: "r = Inr x" for x
  proof -
    let ?rq = "\<lparr>hq_method = meth, hq_url = environment_url (oc_environment c) @ endpoint, hq_headers = oanda_headers c,
      hq_params = params, hq_body = body\<rparr>"
    have e: "oanda_attempts (recorded srv) (oc_retry_delay c) ?rq (oc_retry_attempts c) (s, []) = (r, (s1, sent))"
      using assms by (simp add: oanda_request_def)
    obtain w a where a: "recorded srv ?rq w = (Inr a, (s1, sent))" "hs_status a < 400" "hs_json a = Inr x"
      using oanda_attempts_result [of "recorded srv" "oc_retry_delay c" ?rq "oc_retry_attempts c" "(s, [])" x] x unfolding e by auto
    have "last sent = ?rq" using a(1) by (cases w) (auto simp: recorded_eq)
    then show ?thesis using a by metis
  qed
  with oanda_request_sent [OF assms] show ?thesis by blast
qed


text \<open>An instrument made from a pair of six letters is read back as the same pair; every other ticker
  without an underscore comes back with USD appended.\<close>

theorem oanda_symbol_round_trip:
  assumes "CHR ''_'' \<notin> set (iy_ticker sy)"
  shows "iy_ticker (oanda_to_symbol (symbol_to_oanda sy)) =
    (if length (iy_ticker sy) = 6 \<and> is_alpha (iy_ticker sy) then iy_ticker sy else iy_ticker sy @ ''USD'')"
proof -
  have "filter (\<lambda>c. c \<noteq> CHR ''_'') (iy_ticker sy) = iy_ticker sy" using assms by (intro filter_True) auto
  moreover have "filter (\<lambda>c. c \<noteq> CHR ''_'') (take 3 (iy_ticker sy)) = take 3 (iy_ticker sy)"
    "filter (\<lambda>c. c \<noteq> CHR ''_'') (drop 3 (iy_ticker sy)) = drop 3 (iy_ticker sy)"
    using assms by (auto intro!: filter_True dest: in_set_takeD in_set_dropD)
  ultimately show ?thesis using assms by (simp add: oanda_to_symbol_def symbol_to_oanda_def Let_def)
qed

text \<open>Open orders are filtered by equality of symbols, but the symbol of every order is rebuilt with the
  default security type and no exchange: a currency pair of type FOREX, or a symbol with an
  exchange, has no open orders whatever the service has reported.\<close>

theorem open_orders_need_default_symbol:
  assumes "iy_security sy \<noteq> ''EQUITY'' \<or> iy_exchange sy \<noteq> []"
  shows "ob_get_open_orders b (Some sy) = []"
  using assms by (auto simp: ob_get_open_orders_def Let_def to_interface_order_def oanda_to_symbol_def i_symbol_eq_def filter_empty_conv)

text \<open>What the broker knows under an identifier carries it, after any sequence of operations against any
  server; an order that was submitted successfully is found under the identifier it was given.\<close>

theorem oanda_orders_found_by_id:
  assumes "(b, s) = run_ops (oanda_step srv ts) (new_oanda_broker c, s0) ops"
  shows "(\<forall>oid x. ob_get_order_by_id b oid = Some x \<longrightarrow> io_id x = oid) \<and>
    (ob_submit_order srv ts b x s = (True, b1, x1, s1) \<longrightarrow> (\<exists>y. ob_get_order_by_id b1 (io_id x1) = Some y \<and> io_id y = io_id x1))"
proof -
  have "ob_keyed (fst (new_oanda_broker c, s0))" by (simp add: ob_keyed_def new_oanda_broker_def)
  from oanda.run_inv [OF this, where xs = ops and srv = srv and ts = ts] have "ob_keyed b" unfolding assms [symmetric] by simp
  then have k: "keyed_by oo_id (ob_orders b)" by (simp add: ob_keyed_def)
  have "\<exists>y. ob_get_order_by_id b1 (io_id x1) = Some y \<and> io_id y = io_id x1" if r: "ob_submit_order srv ts b x s = (True, b1, x1, s1)"
  proof -
    obtain y where "b1 = b\<lparr>ob_orders := dset (ob_orders b) (oo_id y) y\<rparr>" "x1 = x\<lparr>io_id := oo_id y\<rparr>"
      using r unfolding ob_submit_order_def Let_def by (auto split: if_splits option.splits prod.splits sum.splits)
    then show ?thesis by (intro exI [of _ "to_interface_order y"]) (simp add: ob_get_order_by_id_def to_interface_order_def)
  qed
  then show ?thesis using keyed_byD [OF k] by (auto simp: ob_get_order_by_id_def to_interface_order_def)
qed

definition sample_oanda :: oanda_config where
  "sample_oanda = \<lparr>oc_api_key = [], oc_account_id = ''1'', oc_environment = OE_PRACTICE, oc_timeout = 30, oc_retry_attempts = 3, oc_retry_delay = 1\<rparr>"

text \<open>A server whose first answer is that the service is unavailable.\<close>

definition sample_server :: "nat server" where
  "sample_server rq n = (if n = 0 then Inl client_error else Inr \<lparr>hs_status = 200, hs_headers = [], hs_json = Inr (JDict [])\<rparr>, n + 1)"

lemma sample_oanda_request:
  "oanda_request (recorded sample_server) sample_oanda True ''GET'' ''/v3'' [] [] (0, []) =
     (Inr (JDict []), 2, [\<lparr>hq_method = ''GET'', hq_url = environment_url OE_PRACTICE @ ''/v3'', hq_headers = oanda_headers sample_oanda,
        hq_params = [], hq_body = []\<rparr>, \<lparr>hq_method = ''GET'', hq_url = environment_url OE_PRACTICE @ ''/v3'',
        hq_headers = oanda_headers sample_oanda, hq_params = [], hq_body = []\<rparr>])"
  by (simp add: oanda_request_def sample_oanda_def sample_server_def recorded_def is_client_error_def client_error_def
      raise_for_status_def numeral_3_eq_3)

theorem oanda_request_bounded_witness:
  "length (snd (snd (oanda_request (recorded sample_server) sample_oanda True ''GET'' ''/v3'' [] [] (0, [])))) \<le> 3"
  unfolding sample_oanda_request using oanda_request_bounded [OF sample_oanda_request] by (simp add: sample_oanda_def)

definition sample_oanda_broker :: oanda_broker where
  "sample_oanda_broker = (new_oanda_broker sample_oanda)\<lparr>ob_session := True, ob_connected := True\<rparr>"

definition sample_pair :: i_symbol where
  "sample_pair = \<lparr>iy_ticker = ''EURUSD'', iy_security = ''FOREX'', iy_exchange = [], iy_currency = ''USD''\<rparr>"

definition sample_sell :: i_order where
  "sample_sell = \<lparr>io_id = ''7'', io_symbol = sample_pair, io_type = IT_MARKET, io_side = ''SELL'', io_quantity = Dec 5, io_price = None,
     io_stop_price = None, io_status = IS_PENDING\<rparr>"


theorem oanda_symbol_round_trip_witness: "iy_ticker (oanda_to_symbol (symbol_to_oanda sample_pair)) = ''EURUSD''"
  using oanda_symbol_round_trip [of sample_pair] by (simp add: sample_pair_def is_alpha_def is_letter_def)

theorem open_orders_need_default_symbol_witness: "ob_get_open_orders sample_oanda_broker (Some sample_pair) = []"
  by (rule open_orders_need_default_symbol) (simp add: sample_pair_def)

theorem oanda_orders_found_by_id_witness:
  "\<forall>oid x. ob_get_order_by_id (fst (run_ops (oanda_step sample_server (\<lambda>_. Inr 0)) (new_oanda_broker sample_oanda, 0) [OB_Connect])) oid = Some x \<longrightarrow>
     io_id x = oid"
  by (rule conjunct1 [OF oanda_orders_found_by_id [OF prod.collapse]])

end
