(* ===== verification/Spec2Isabelle.thy ===== *)
theory Spec2Isabelle
  imports
    Simulated_Broker
    Risk_Manager
    Order_Router
    FIX_Session
    Error_Handler
    Sync_Manager
    Cache_Recency
    Backpressure
    Position_Sync
    Plugin_Loader
    Live_Engine
    Time_Keeper
    Backtest
    Trading_Engine
    Indicators
    Latency_Monitor
    Websocket_Feed
    Oanda_Broker
begin

text \<open>
  \<^bold>\<open>AlgoEngine: a model of the trading core.\<close>

  AlgoEngine is a Python library for algorithmic trading. Strategies submit orders to an
  execution engine, which hands them to a broker adapter or, without one, fills them itself
  from market ticks (paper trading). Orders are shared objects: the order manager, the
  engine, the broker and the caller hold references to the same \<open>Order\<close>. Fills move
  positions, positions and trades move the portfolio, a risk manager vetoes orders, a router
  chooses brokers, a FIX handler speaks the wire protocol, and circuit breakers with retries
  guard calls to the outside. All paths below are under \<open>src/src/\<close>.

  \<^bold>\<open>Theories.\<close>
  \<^item> \<open>Algo_Prelude\<close>: exceptions as values, Python dictionaries as association lists,
    bounded deques, runs of operations, and the locales \<open>run_system\<close> (operations that keep an
    invariant) and \<open>counting_system\<close>; every stateful component interprets one of them.
  \<^item> \<open>Py_Num\<close>: \<open>decimal.Decimal\<close> with the default context (28 digits, half-even) and
    binary floats (53 bits, half-even, no overflow) as rationals that every operation
    rounds; the locale \<open>rounding\<close> holds what the proofs use of both.
  \<^item> \<open>Py_Str\<close>: decimal numerals, \<open>strip\<close>, \<open>split\<close>, \<open>int()\<close> on ASCII strings.
  \<^item> \<open>Market_Data\<close> (\<open>data/models.py\<close>) and \<open>Trading_Models\<close> (\<open>trading/models.py\<close>): the data,
    with \<open>update_fill\<close>, \<open>cancel\<close>, \<open>add_fill\<close>, \<open>reduce\<close>, commission and slippage.
  \<^item> \<open>Order_Manager\<close>, \<open>Position_Manager\<close>, \<open>Execution_Engine\<close> (\<open>trading/\<close> files of the same
    names), \<open>Simulated_Broker\<close> (\<open>adapters/simulated_broker.py\<close>) and \<open>Event_Bus\<close>
    (\<open>engine/events.py\<close>). The heap of orders is a function from references; a broker is a
    record of operations on its own state and that heap, with the contract
    \<open>broker_contract\<close> that the simulated broker satisfies.
  \<^item> \<open>Portfolio\<close> (\<open>portfolio/portfolio.py\<close>) and \<open>Risk_Manager\<close> (\<open>risk/risk_manager.py\<close>).
  \<^item> \<open>Order_Router\<close> (\<open>trading/order_router.py\<close>), with the locale \<open>preference\<close> for the
    choice of a best broker.
  \<^item> \<open>FIX_Message\<close> and \<open>FIX_Session\<close> (\<open>protocols/fix_handler.py\<close>): messages and the wire
    format; framing, dispatch, sending, connecting and disconnecting.
  \<^item> \<open>Error_Handler\<close> (\<open>utils/error_handler.py\<close>): classification, circuit breaker, retry.
  \<^item> \<open>Sync_Manager\<close> (\<open>data/sync_manager.py\<close>): sequence numbers, gaps, integrity of packets.
  \<^item> \<open>Stream_Cache\<close> (\<open>data/stream_cache.py\<close>): the cache of market data with its policies, the cache
    per symbol and the stream cache; \<open>Recency\<close> holds what a least-recently-used order means
    for any key, \<open>Cache_Recency\<close> shows that the cache keeps it, \<open>Backpressure\<close> takes the
    suspended \<open>put_async\<close> apart into steps.
  \<^item> \<open>Position_Sync\<close> (\<open>portfolio/position_sync.py\<close>): comparison with the broker's positions and
    their reconciliation.
  \<^item> \<open>Plugin_Loader\<close> (\<open>plugins/loader.py\<close>, \<open>plugins/interface.py\<close>): registry, versions,
    dependencies, sandbox and life cycle of plugins.
  \<^item> \<open>Live_Engine\<close> (\<open>trading/live_engine.py\<close>): the engine that puts the others together: it owns
    an execution engine whose fills it handles, a circuit breaker, the daily limits and the
    trade log, and may own a broker and a risk manager.
  \<^item> \<open>Time_Keeper\<close> (\<open>engine/timekeeper.py\<close>): simulated and real time, the schedule of tasks with
    its loop, market hours and time zones; the zone rules of \<open>pytz\<close> are an argument.
  \<^item> \<open>Strategy\<close> (\<open>algorithms/strategy.py\<close>, \<open>algorithms/strategy_manager.py\<close>): the base class and
    the manager, as a world of strategy objects with the bus that feeds them; the hooks of a
    concrete class are a record of functions.
  \<^item> \<open>Performance\<close> (\<open>portfolio/metrics.py\<close>, \<open>backtesting/results.py\<close>): returns, draw-downs,
    ratios and figures of trades; what \<open>numpy\<close> computes is an argument.
  \<^item> \<open>Backtest\<close> (\<open>backtesting/engine.py\<close>, \<open>backtesting/optimization.py\<close>): the replay of bars to
    the strategies over the timestamps, and the search over a grid of parameters. It composes
    strategies, time keeper, portfolio, performance, execution engine and simulated broker.
  \<^item> \<open>Trading_Engine\<close> (\<open>engine/engine.py\<close>): the engine that hosts an algorithm, its run states, its
    background tasks and its handlers on the bus; the parts behind the abstract classes of
    \<open>engine/interfaces.py\<close> are a record of functions, and start and stop fall into the steps
    before and after the feed answers.
  \<^item> \<open>Indicators\<close> (\<open>algorithms/indicators.py\<close>): moving averages, strength index, MACD, bands and
    true range on floats, and their manager; mean and deviation of \<open>numpy\<close> are arguments.
  \<^item> \<open>Data_Feed\<close> (\<open>data/feed.py\<close>, the rest of \<open>data/models.py\<close>): callbacks and publication, the
    bounded buffer, the cache with a time to live, and the aggregation of ticks into bars.
  \<^item> \<open>Websocket_Feed\<close> (\<open>data/websocket_feed.py\<close>): connections as transition systems over the
    coroutines that are suspended in them, with the lock that is not reentrant; the manager that
    waits in its connections while it holds its own lock, and the feed on top of it.
  \<^item> \<open>Rest_Api\<close>: JSON with Python's operations on it, numbers from text, and HTTP servers as
    functions of a request and a state; \<open>Oanda_Broker\<close> (\<open>adapters/oanda_broker.py\<close>): the client of
    the OANDA service with its retries, and the broker on top of it.
  \<^item> \<open>Latency_Monitor\<close> (\<open>monitoring/latency_monitor.py\<close>): samples with cached statistics, counters,
    gauges, thresholds with a cooldown, alerts and the dashboard.

  \<^bold>\<open>Conventions.\<close> A record has a field for each attribute. A fallible operation returns
  \<open>exn + 'a\<close>. The clock, random draws, MD5, \<open>isoformat\<close>, sockets and the outcome of calls
  to third-party code are arguments. A coroutine that awaits nothing is one step; where it
  suspends and other calls can come in between, its parts are separate steps (the halves
  of \<open>CircuitBreaker.execute\<close> and of the simulated broker's fill loop). Callbacks and hooks
  are logged or act on an abstract world; an exception the code swallows is a value it drops.
  A Python set is a list without repetitions whose order the theorems do not use. Python
  3.11 or later is meant, where \<open>asyncio.TimeoutError\<close> is the built-in one, and \<open>sum\<close> of floats
  adds from the left.

  \<^bold>\<open>What the lemmas show.\<close> Each component theory proves its invariant for single operations,
  interprets \<open>run_system\<close> with them, and ends in a section of properties about whole runs from
  the initial state: exact accounting of quantities and cash on a lot grid (the hypotheses
  bound the numbers so that 28 digits suffice), netting of positions, the paper engine's fills,
  the refinement of the breaker to an abstract machine, round trips and framing of FIX,
  fairness and optimality of routing, exactness of the gaps in sequence numbers, the recency
  order of the cache, exactness of position reconciliation and of plugin loading, and for the
  live engine the halt after a draw-down, the daily limits and the balance of its books with
  the orders; for the time keeper that rounds run exactly the due tasks and a recurring task
  catches up, for strategies which bars their history holds, for backtests that every bar is
  delivered and that no order is ever executed, for the figures that the draw-down found is
  the largest one, for the hosting engine that its running mark and its tasks agree under any
  interleaving, for the indicators their ranges, for latencies that statistics are never stale
  and are ordered, for feeds that every period with ticks becomes one bar and that subscriptions
  name connections, and for the OANDA client how often a request is sent and what it carries.

  \<^bold>\<open>Loops.\<close> All functions terminate: recursion is structural, or on what is left of the buffer
  (\<open>frames\<close>) or of the attempts (\<open>connect_loop\<close>). The bus loop takes the number of rounds,
  and any number of at least the queue's length empties the queue. The loop of the time keeper
  takes the list of clock readings of its rounds, the backtest that of its timestamps.

  \<^bold>\<open>Not modelled.\<close> The adapters of IG Markets and of the crypto exchanges and the feeds over HTTP
  pass requests and answers on to web services; of this kind only the OANDA adapter is modelled.
  Storage, exporters, logging and configuration do input and output through third-party clients
  and keep little state of their own. The registry of indicators, which computes on \<open>numpy\<close> arrays,
  and the sample strategies are left out, and so are the command line, the examples and the parts
  of the repository in other languages.
\<close>

end
